(* ===== verification/Prelude.thy ===== *)
theory Prelude
  imports Main "HOL-Library.Word" "HOL-Library.List_Lexorder" "HOL-Library.Char_ord"
begin

text \<open>
  Shared vocabulary of the development: the machine types of the code, the outcome type in
  which every exit, exception, abort and invalid memory access of the program is a value,
  byte strings and the conversions C++ performs implicitly between \<open>char\<close> and
  \<open>uint8_t\<close>, byte views with bounds-checked reads, and little-endian loads and stores.
\<close>

unbundle bit_operations_syntax

section \<open>Machine types\<close>

type_synonym byte = "8 word"
type_synonym u32 = "32 word"
type_synonym u64 = "64 word"
type_synonym bytes = "byte list"

section \<open>Fact collections\<close>

named_theorems view_simps \<open>slices, checked reads and stores of byte lists\<close>
named_theorems codec_simps \<open>encoders, decoders and the lengths they produce\<close>

section \<open>Outcomes\<close>

text \<open>
  What ends a computation of the program other than a normal return: \<open>exit\<close> with a status,
  a C++ exception with its message, \<open>std::abort\<close>, a read outside the buffer, an integer
  division by zero, a write past a heap block, a read of an uninitialised variable, a use of
  a null pointer, a \<open>memcpy\<close> between overlapping regions, and a loop that never ends.
\<close>

datatype error =
    Exit nat
  | Throw string
  | Abort
  | OutOfBounds
  | DivByZero
  | HeapOverflow
  | Uninitialised
  | NullPointer
  | Overlap
  | Diverges

type_synonym 'a result = "error + 'a"

definition bindR :: "'a result \<Rightarrow> ('a \<Rightarrow> 'b result) \<Rightarrow> 'b result" where
  "bindR m k = (case m of Inl e \<Rightarrow> Inl e | Inr x \<Rightarrow> k x)"

lemma bindR_Inr [simp]: "bindR (Inr x) k = k x"
  by (simp add: bindR_def)

lemma bindR_Inl [simp]: "bindR (Inl e) k = Inl e"
  by (simp add: bindR_def)

lemma bindR_eq_Inr_iff: "bindR m k = Inr y \<longleftrightarrow> (\<exists>x. m = Inr x \<and> k x = Inr y)"
  by (cases m) simp_all

lemma bindR_eq_InrE [elim!]:
  assumes "bindR m k = Inr y"
  obtains x where "m = Inr x" "k x = Inr y"
  using assms by (cases m) simp_all

lemma bindR_cong [fundef_cong]:
  assumes "m = m'" and "\<And>x. m' = Inr x \<Longrightarrow> k x = k' x"
  shows "bindR m k = bindR m' k'"
  using assms by (cases m') simp_all

lemma split_bindR:
  "P (bindR m k) \<longleftrightarrow> (\<forall>e. m = Inl e \<longrightarrow> P (Inl e)) \<and> (\<forall>x. m = Inr x \<longrightarrow> P (k x))"
  by (cases m) simp_all

text \<open>A property of the results that are no errors, and the rules that take a program apart.\<close>

named_theorems okR_intros \<open>introduction rules for results that satisfy a property\<close>

definition okR :: "('a \<Rightarrow> bool) \<Rightarrow> 'a result \<Rightarrow> bool" where
  "okR P r \<longleftrightarrow> (\<forall>x. r = Inr x \<longrightarrow> P x)"

lemma okRD: "okR P r \<Longrightarrow> r = Inr x \<Longrightarrow> P x"
  by (simp add: okR_def)

lemma okR_mono: "okR P r \<Longrightarrow> (\<And>x. P x \<Longrightarrow> Q x) \<Longrightarrow> okR Q r"
  by (simp add: okR_def)

lemma okR_Inr [okR_intros]: "P x \<Longrightarrow> okR P (Inr x)"
  by (simp add: okR_def)

lemma okR_Inl [okR_intros]: "okR P (Inl e)"
  by (simp add: okR_def)

lemma okR_bindR [okR_intros]: "(\<And>x. m = Inr x \<Longrightarrow> okR P (k x)) \<Longrightarrow> okR P (bindR m k)"
  by (cases m) (auto simp: okR_def)

lemma okR_bindR_with: "okR Q m \<Longrightarrow> (\<And>x. Q x \<Longrightarrow> okR P (k x)) \<Longrightarrow> okR P (bindR m k)"
  by (cases m) (auto simp: okR_def)

lemma okR_if [okR_intros]:
  "(c \<Longrightarrow> okR P a) \<Longrightarrow> (\<not> c \<Longrightarrow> okR P b) \<Longrightarrow> okR P (if c then a else b)"
  by simp

lemma okR_Let [okR_intros]: "okR P (f t) \<Longrightarrow> okR P (Let t f)"
  by simp

lemma okR_case_option [okR_intros]:
  "(r = None \<Longrightarrow> okR P a) \<Longrightarrow> (\<And>x. r = Some x \<Longrightarrow> okR P (f x)) \<Longrightarrow> okR P (case r of None \<Rightarrow> a | Some x \<Rightarrow> f x)"
  by (cases r) auto

lemma okR_case_prod [okR_intros]: "(\<And>x y. r = (x, y) \<Longrightarrow> okR P (f x y)) \<Longrightarrow> okR P (case r of (x, y) \<Rightarrow> f x y)"
  by (cases r) auto


text \<open>Results that are no errors and satisfy a property.\<close>

definition returnsR :: "('a \<Rightarrow> bool) \<Rightarrow> 'a result \<Rightarrow> bool" where
  "returnsR P r \<longleftrightarrow> (\<exists>x. r = Inr x \<and> P x)"

lemma returnsR_Inr [simp]: "returnsR P (Inr x) \<longleftrightarrow> P x"
  by (simp add: returnsR_def)

lemma returnsR_Inl [simp]: "\<not> returnsR P (Inl e)"
  by (simp add: returnsR_def)

lemma returnsR_bindR: "returnsR Q m \<Longrightarrow> (\<And>x. Q x \<Longrightarrow> returnsR P (k x)) \<Longrightarrow> returnsR P (bindR m k)"
  by (auto simp: returnsR_def)

lemma returnsR_mono: "returnsR Q m \<Longrightarrow> (\<And>x. Q x \<Longrightarrow> P x) \<Longrightarrow> returnsR P m"
  by (auto simp: returnsR_def)

lemma returnsR_if: "(c \<Longrightarrow> returnsR P a) \<Longrightarrow> (\<not> c \<Longrightarrow> returnsR P b) \<Longrightarrow> returnsR P (if c then a else b)"
  by simp

section \<open>Characters and bytes\<close>

definition byte_of_char :: "char \<Rightarrow> byte" where
  "byte_of_char c = of_nat (of_char c)"

definition char_of_byte :: "byte \<Rightarrow> char" where
  "char_of_byte b = char_of (unat b)"

lemma unat_byte_of_char [simp]: "unat (byte_of_char c) = of_char c"
proof -
  have "(of_char c :: nat) < 256"
    by (rule nat_of_char_less_256)
  then show ?thesis
    by (simp add: byte_of_char_def unat_of_nat)
qed

lemma char_of_byte_of_char [simp]: "char_of_byte (byte_of_char c) = c"
  by (simp add: char_of_byte_def)

lemma byte_of_char_of_byte [simp]: "byte_of_char (char_of_byte b) = b"
proof -
  have "unat b < 2 ^ LENGTH(8)"
    by (rule unsigned_less)
  then have "unat b mod 256 = unat b"
    by simp
  then show ?thesis
    by (simp add: byte_of_char_def char_of_byte_def)
qed

lemma byte_of_char_inject [simp]: "byte_of_char c = byte_of_char d \<longleftrightarrow> c = d"
  by (metis char_of_byte_of_char)

definition str :: "string \<Rightarrow> bytes" where
  "str s = map byte_of_char s"

definition chars :: "bytes \<Rightarrow> string" where
  "chars bs = map char_of_byte bs"

lemma chars_str [simp]: "chars (str s) = s"
  by (induction s) (simp_all add: chars_def str_def)

lemma str_chars [simp]: "str (chars bs) = bs"
  by (induction bs) (simp_all add: chars_def str_def)

lemma length_str [simp]: "length (str s) = length s"
  by (simp add: str_def)

lemma length_chars [simp]: "length (chars bs) = length bs"
  by (simp add: chars_def)

lemma str_append [simp]: "str (s @ t) = str s @ str t"
  by (simp add: str_def)

lemma str_Nil [simp]: "str [] = []"
  by (simp add: str_def)

lemma str_Cons: "str (c # s) = byte_of_char c # str s"
  by (simp add: str_def)

lemma str_eq_iff [simp]: "str s = str t \<longleftrightarrow> s = t"
  by (metis chars_str)

section \<open>Views of a buffer\<close>

text \<open>
  A pointer into a buffer with a length is a view; \<open>rd\<close> is the read of \<open>n\<close> bytes
  at offset \<open>off\<close>, an error value when it leaves the buffer.
\<close>

definition view :: "nat \<Rightarrow> nat \<Rightarrow> 'a list \<Rightarrow> 'a list" where
  "view off n xs = take n (drop off xs)"

definition rd :: "bytes \<Rightarrow> nat \<Rightarrow> nat \<Rightarrow> bytes result" where
  "rd m off n = (if off + n \<le> length m then Inr (view off n m) else Inl OutOfBounds)"

lemma length_view [simp, view_simps]: "length (view off n xs) = min n (length xs - off)"
  by (simp add: view_def)

lemma view_0 [simp]: "view off 0 xs = []"
  by (simp add: view_def)

lemma view_all [simp]: "view 0 (length xs) xs = xs"
  by (simp add: view_def)

lemma view_append_skip [view_simps]:
  "view (length xs + k) n (xs @ ys) = view k n ys"
  by (simp add: view_def)

lemma view_append_at [view_simps]: "view (length xs) n (xs @ ys) = take n ys"
  using view_append_skip [of xs 0 n ys] by (simp add: view_def)

lemma view_append_first:
  "off + n \<le> length xs \<Longrightarrow> view off n (xs @ ys) = view off n xs"
  by (simp add: view_def)

lemma rd_inside [simp, view_simps]: "off + n \<le> length m \<Longrightarrow> rd m off n = Inr (view off n m)"
  by (simp add: rd_def)

lemma rd_outside: "length m < off + n \<Longrightarrow> rd m off n = Inl OutOfBounds"
  by (simp add: rd_def)

lemma rd_eq_InrD: "rd m off n = Inr b \<Longrightarrow> off + n \<le> length m \<and> b = view off n m"
  by (auto simp: rd_def split: if_splits)

lemma rd_eq_Inl_iff: "rd m off n = Inl e \<longleftrightarrow> e = OutOfBounds \<and> length m < off + n"
  by (auto simp: rd_def)

text \<open>\<open>memcmp\<close> of a buffer's start with a literal, for a buffer known to be long enough.\<close>

definition match_at :: "bytes \<Rightarrow> nat \<Rightarrow> bytes \<Rightarrow> bool" where
  "match_at m off lit \<longleftrightarrow> view off (length lit) m = lit"

text \<open>Stores into a byte array at a position; a gap before the position reads as zeros.\<close>

definition put_at :: "nat \<Rightarrow> bytes \<Rightarrow> bytes \<Rightarrow> bytes" where
  "put_at p bs d = take p d @ replicate (p - length d) 0 @ bs @ drop (p + length bs) d"

lemma put_at_end [simp, view_simps]: "put_at (length d) bs d = d @ bs"
  by (simp add: put_at_def)

lemma put_at_nothing [simp]: "p \<le> length d \<Longrightarrow> put_at p [] d = d"
  by (simp add: put_at_def)

lemma length_put_at [simp, view_simps]:
  "length (put_at p bs d) = max (length d) (p + length bs)"
  by (simp add: put_at_def max_def min_def)

lemma put_at_inside:
  "p + length bs \<le> length d \<Longrightarrow> put_at p bs d = take p d @ bs @ drop (p + length bs) d"
  by (simp add: put_at_def)

lemma view_put_at_same:
  "p + length bs \<le> length d \<Longrightarrow> view p (length bs) (put_at p bs d) = bs"
  by (simp add: put_at_inside view_def)

lemma view_put_at_before:
  assumes "off + n \<le> p" "p + length bs \<le> length d"
  shows "view off n (put_at p bs d) = view off n d"
proof -
  have "view off n (put_at p bs d) = view off n (take p d)"
    using assms by (simp add: put_at_inside view_def)
  also have "\<dots> = view off n d"
    using assms(1) by (simp add: view_def drop_take min_def)
  finally show ?thesis .
qed

lemma view_put_at_after:
  assumes "p + length bs \<le> off" "p + length bs \<le> length d"
  shows "view off n (put_at p bs d) = view off n d"
proof -
  obtain k where k: "off = p + length bs + k"
    using assms(1) le_Suc_ex by blast
  have "put_at p bs d = (take p d @ bs) @ drop (p + length bs) d"
    using assms(2) by (simp add: put_at_inside)
  moreover have "length (take p d @ bs) = p + length bs"
    using assms(2) by simp
  ultimately have "view off n (put_at p bs d) = view k n (drop (p + length bs) d)"
    unfolding k by (metis view_append_skip)
  then show ?thesis
    by (simp add: view_def k add.commute add.left_commute)
qed

section \<open>Little-endian integers\<close>

text \<open>
  \<open>memcpy\<close> of a \<open>uint32_t\<close> on the little-endian machines the program targets, and the
  explicit byte composition of \<open>read_le32\<close> in \<open>boot_crypto.cpp\<close>.
\<close>

definition le32 :: "bytes \<Rightarrow> u32" where
  "le32 bs = ucast (bs ! 0) OR push_bit 8 (ucast (bs ! 1))
     OR push_bit 16 (ucast (bs ! 2)) OR push_bit 24 (ucast (bs ! 3))"

definition le32_bytes :: "u32 \<Rightarrow> bytes" where
  "le32_bytes v = [ucast v, ucast (drop_bit 8 v), ucast (drop_bit 16 v), ucast (drop_bit 24 v)]"

lemma length_le32_bytes [simp, codec_simps]: "length (le32_bytes v) = 4"
  by (simp add: le32_bytes_def)

lemma le32_le32_bytes [simp, codec_simps]: "le32 (le32_bytes v) = v"
proof (rule bit_word_eqI)
  fix n
  assume "n < LENGTH(32)"
  then consider "n < 8" | "8 \<le> n" "n < 16" | "16 \<le> n" "n < 24" | "24 \<le> n" "n < 32"
    by fastforce
  then show "bit (le32 (le32_bytes v)) n \<longleftrightarrow> bit v n"
    by cases (auto simp: le32_def le32_bytes_def bit_simps dest: bit_imp_le_length)
qed

lemma le32_bytes_le32:
  assumes "length bs = 4"
  shows "le32_bytes (le32 bs) = bs"
proof -
  obtain a b c d where bs: "bs = [a, b, c, d]"
    using assms by (auto simp: numeral_eq_Suc length_Suc_conv)
  show ?thesis
    unfolding le32_def le32_bytes_def bs
    by (simp, intro conjI; rule bit_word_eqI; auto simp: bit_simps dest: bit_imp_le_length)
qed

definition le64 :: "bytes \<Rightarrow> u64" where
  "le64 bs = ucast (le32 (take 4 bs)) OR push_bit 32 (ucast (le32 (drop 4 bs)))"

definition le64_bytes :: "u64 \<Rightarrow> bytes" where
  "le64_bytes v = le32_bytes (ucast v) @ le32_bytes (ucast (drop_bit 32 v))"

lemma length_le64_bytes [simp, codec_simps]: "length (le64_bytes v) = 8"
  by (simp add: le64_bytes_def)

lemma le64_le64_bytes [simp, codec_simps]: "le64 (le64_bytes v) = v"
proof (rule bit_word_eqI)
  fix n
  assume "n < LENGTH(64)"
  then consider "n < 32" | "32 \<le> n" "n < 64"
    by fastforce
  then show "bit (le64 (le64_bytes v)) n \<longleftrightarrow> bit v n"
    by cases (auto simp: le64_def le64_bytes_def bit_simps dest: bit_imp_le_length)
qed

text \<open>\<open>__builtin_bswap64\<close> and \<open>__builtin_bswap32\<close>: the bytes in reverse order.\<close>

definition bswap64 :: "u64 \<Rightarrow> u64" where
  "bswap64 v = le64 (rev (le64_bytes v))"

definition bswap32 :: "u32 \<Rightarrow> u32" where
  "bswap32 v = le32 (rev (le32_bytes v))"

lemma bswap32_bswap32 [simp]: "bswap32 (bswap32 v) = v"
  by (simp add: bswap32_def le32_bytes_le32)

text \<open>Storing what is already there changes nothing.\<close>

lemma put_at_same: "p + length bs \<le> length d \<Longrightarrow> view p (length bs) d = bs \<Longrightarrow> put_at p bs d = d"
  by (metis append.assoc append_take_drop_id drop_drop put_at_inside take_add view_def add.commute)

lemma view_view: "view a n (view b m xs) = view (b + a) (min n (m - a)) xs"
  by (simp add: view_def drop_take min.commute add.commute)

lemma put_at_put_at_same:
  assumes "length bs = length cs" "p + length bs \<le> length d"
  shows "put_at p bs (put_at p cs d) = put_at p bs d"
  using assms by (simp add: put_at_inside)

end
