(* ===== verification/CLib.thy ===== *)
theory CLib
  imports Prelude
begin

text \<open>
  The parts of the C and C++ standard library whose results the program depends on:
  \<open>isspace\<close>, \<open>strtoul\<close> (bases 8 and 16, on a 64-bit \<open>unsigned long\<close>),
  \<open>printf\<close>'s \<open>%08x\<close> and the whitespace-separated extraction of \<open>operator>>\<close>.
  On top of them stand the number helpers of \<open>cpio.cpp\<close>: \<open>parse_hex8\<close>,
  \<open>format_hex8\<close> and \<open>split_ws\<close>. The lemmas show that the two hexadecimal helpers are
  inverse to each other on every 32-bit value and describe the tokens of \<open>split_ws\<close>.
\<close>

section \<open>Character classes and digits\<close>

definition isspace :: "char \<Rightarrow> bool" where
  "isspace c \<longleftrightarrow> (let n = (of_char c :: nat) in n = 32 \<or> 9 \<le> n \<and> n \<le> 13)"

definition digit_val :: "char \<Rightarrow> nat option" where
  "digit_val c = (let n = (of_char c :: nat) in
     if 48 \<le> n \<and> n \<le> 57 then Some (n - 48)
     else if 97 \<le> n \<and> n \<le> 122 then Some (n - 87)
     else if 65 \<le> n \<and> n \<le> 90 then Some (n - 55)
     else None)"

definition is_digit :: "nat \<Rightarrow> char \<Rightarrow> bool" where
  "is_digit base c \<longleftrightarrow> (case digit_val c of None \<Rightarrow> False | Some d \<Rightarrow> d < base)"

fun digits :: "nat \<Rightarrow> string \<Rightarrow> nat list" where
  "digits base [] = []"
| "digits base (c # cs) =
     (case digit_val c of
        None \<Rightarrow> []
      | Some d \<Rightarrow> if d < base then d # digits base cs else [])"

definition horner :: "nat \<Rightarrow> nat \<Rightarrow> nat list \<Rightarrow> nat" where
  "horner base a ds = foldl (\<lambda>a d. a * base + d) a ds"

lemma horner_Nil [simp]: "horner base a [] = a"
  by (simp add: horner_def)

lemma horner_Cons [simp]: "horner base a (d # ds) = horner base (a * base + d) ds"
  by (simp add: horner_def)

text \<open>
  The value of \<open>strtoul\<close> and whether anything was converted (\<open>end \<noteq> nptr\<close>): leading
  white space, an optional sign, for base 16 an optional \<open>0x\<close>, the longest run of digits;
  values that do not fit saturate at \<open>ULONG_MAX\<close> and a minus sign negates modulo \<open>2^64\<close>.
\<close>

definition skip_sign :: "string \<Rightarrow> bool \<times> string" where
  "skip_sign s = (case s of
     [] \<Rightarrow> (False, [])
   | c # cs \<Rightarrow> if c = CHR ''-'' then (True, cs) else if c = CHR ''+'' then (False, cs) else (False, s))"

definition skip_0x :: "nat \<Rightarrow> string \<Rightarrow> string" where
  "skip_0x base s = (case s of
     z # x # d # r \<Rightarrow>
       if base = 16 \<and> z = CHR ''0'' \<and> (x = CHR ''x'' \<or> x = CHR ''X'') \<and> is_digit base d
       then d # r else s
   | _ \<Rightarrow> s)"

definition strtoul :: "nat \<Rightarrow> string \<Rightarrow> nat \<times> bool" where
  "strtoul base s =
     (let (neg, t) = skip_sign (dropWhile isspace s);
          ds = digits base (skip_0x base t);
          v = horner base 0 ds
      in if ds = [] then (0, False)
         else if 2 ^ 64 \<le> v then (2 ^ 64 - 1, True)
         else if neg then ((2 ^ 64 - v) mod 2 ^ 64, True)
         else (v, True))"

lemma strtoul_bound: "fst (strtoul base s) < 2 ^ 64"
  by (simp add: strtoul_def Let_def split: prod.splits)

section \<open>Eight hexadecimal digits\<close>

definition parse_hex8 :: "bytes \<Rightarrow> u32" where
  "parse_hex8 s =
     (let (v, converted) = strtoul 16 (chars (take 8 s))
      in if \<not> converted then 0 else of_nat v)"

definition hex_char :: "nat \<Rightarrow> char" where
  "hex_char d = ''0123456789abcdef'' ! d"

definition printf_08x :: "u32 \<Rightarrow> string" where
  "printf_08x v = map (\<lambda>i. hex_char (unat v div 16 ^ i mod 16)) (rev [0..<8])"

definition format_hex8 :: "u32 \<Rightarrow> bytes" where
  "format_hex8 v = str (printf_08x v)"

lemma length_printf_08x [simp]: "length (printf_08x v) = 8"
  by (simp add: printf_08x_def)

lemma length_format_hex8 [simp, codec_simps]: "length (format_hex8 v) = 8"
  by (simp add: format_hex8_def)

lemma hex_char_cases:
  assumes "d < 16"
  shows "digit_val (hex_char d) = Some d"
    and "\<not> isspace (hex_char d)"
    and "hex_char d \<noteq> CHR ''-''" "hex_char d \<noteq> CHR ''+''"
    and "hex_char d \<noteq> CHR ''x''" "hex_char d \<noteq> CHR ''X''"
proof -
  have "d \<in> {0, 1, 2, 3, 4, 5, 6, 7, 8, 9, 10, 11, 12, 13, 14, 15}"
    using assms by (simp, presburger)
  then show "digit_val (hex_char d) = Some d" "\<not> isspace (hex_char d)"
    "hex_char d \<noteq> CHR ''-''" "hex_char d \<noteq> CHR ''+''"
    "hex_char d \<noteq> CHR ''x''" "hex_char d \<noteq> CHR ''X''"
    by (auto simp: hex_char_def digit_val_def isspace_def)
qed

lemma digits_hex: "\<forall>d \<in> set ds. d < 16 \<Longrightarrow> digits 16 (map hex_char ds) = ds"
  by (induction ds) (simp_all add: hex_char_cases)

lemma horner_div: "horner 16 (n div 16 ^ k) (map (\<lambda>i. n div 16 ^ i mod 16) (rev [0..<k])) = n"
proof (induction k)
  case 0
  show ?case by simp
next
  case (Suc k)
  have "n div 16 ^ Suc k * 16 + n div 16 ^ k mod 16 = n div 16 ^ k"
    by (metis div_mult_mod_eq div_mult2_eq power_Suc2)
  with Suc.IH show ?case by simp
qed

lemma strtoul_hex:
  assumes "\<forall>d \<in> set ds. d < 16" "ds \<noteq> []" "horner 16 0 ds < 2 ^ 64"
  shows "strtoul 16 (map hex_char ds) = (horner 16 0 ds, True)"
proof -
  obtain d ds' where ds: "ds = d # ds'"
    using assms(2) by (cases ds) auto
  have sign: "skip_sign (dropWhile isspace (map hex_char ds)) = (False, map hex_char ds)"
    using assms(1) by (simp add: ds skip_sign_def hex_char_cases)
  have prefix: "skip_0x 16 (map hex_char ds) = map hex_char ds"
    using assms(1) by (auto simp: ds skip_0x_def hex_char_cases split: list.splits)
  show ?thesis
    using assms by (simp add: strtoul_def sign prefix digits_hex)
qed

lemma parse_format_hex8 [simp, codec_simps]: "parse_hex8 (format_hex8 v) = v"
proof -
  define ds where "ds = map (\<lambda>i. unat v div 16 ^ i mod 16) (rev [0..<8])"
  have small: "unat v < 2 ^ LENGTH(32)"
    by (rule unsigned_less)
  have "unat v div 16 ^ 8 = 0"
    using small by (simp add: div_eq_0_iff)
  then have val: "horner 16 0 ds = unat v"
    using horner_div [of "unat v" 8] by (simp add: ds_def)
  have "printf_08x v = map hex_char ds"
    by (simp add: printf_08x_def ds_def)
  moreover have "strtoul 16 (map hex_char ds) = (unat v, True)"
    using strtoul_hex [of ds] val small by (simp add: ds_def)
  moreover have "take 8 (str (printf_08x v)) = str (printf_08x v)"
    by simp
  ultimately have "strtoul 16 (chars (take 8 (format_hex8 v))) = (unat v, True)"
    by (simp add: format_hex8_def)
  then show ?thesis
    by (simp add: parse_hex8_def)
qed

section \<open>Whitespace-separated tokens\<close>

lemma split_ws_shrinks:
  assumes "dropWhile isspace s \<noteq> []"
  shows "length (dropWhile (\<lambda>c. \<not> isspace c) (dropWhile isspace s)) < length s"
proof -
  obtain c cs where t: "dropWhile isspace s = c # cs"
    using assms by (cases "dropWhile isspace s") auto
  then have "\<not> isspace c"
    by (metis hd_dropWhile list.sel(1) list.distinct(1))
  then have "length (dropWhile (\<lambda>c. \<not> isspace c) (dropWhile isspace s)) \<le> length cs"
    by (simp add: t length_dropWhile_le)
  also have "length cs < length s"
    using length_dropWhile_le [of isspace s] by (simp add: t)
  finally show ?thesis .
qed

function split_ws :: "string \<Rightarrow> string list" where
  "split_ws s =
     (let t = dropWhile isspace s
      in if t = [] then []
         else takeWhile (\<lambda>c. \<not> isspace c) t # split_ws (dropWhile (\<lambda>c. \<not> isspace c) t))"
  by pat_completeness auto

termination
  by (relation "measure length") (auto intro: split_ws_shrinks)

declare split_ws.simps [simp del]

lemma split_ws_blank: "\<forall>c \<in> set s. isspace c \<Longrightarrow> split_ws s = []"
  by (subst split_ws.simps) (simp add: Let_def)

definition is_token :: "string \<Rightarrow> bool" where
  "is_token t \<longleftrightarrow> t \<noteq> [] \<and> (\<forall>c \<in> set t. \<not> isspace c)"

lemma split_ws_tokens: "t \<in> set (split_ws s) \<Longrightarrow> is_token t"
proof (induction s rule: split_ws.induct)
  case (1 s)
  show ?case
  proof (cases "dropWhile isspace s")
    case Nil
    then show ?thesis using "1.prems" by (subst (asm) split_ws.simps) simp
  next
    case (Cons c cs)
    then have c: "\<not> isspace c"
      by (metis hd_dropWhile list.sel(1) list.distinct(1))
    from "1.prems" Cons
    have "t = takeWhile (\<lambda>c. \<not> isspace c) (c # cs)
        \<or> t \<in> set (split_ws (dropWhile (\<lambda>c. \<not> isspace c) (c # cs)))"
      by (subst (asm) split_ws.simps) simp
    then show ?thesis
    proof
      assume "t = takeWhile (\<lambda>c. \<not> isspace c) (c # cs)"
      with c show ?thesis
        by (auto simp: is_token_def dest: set_takeWhileD)
    next
      assume "t \<in> set (split_ws (dropWhile (\<lambda>c. \<not> isspace c) (c # cs)))"
      with Cons show ?thesis
        using "1.IH" by simp
    qed
  qed
qed

lemma split_ws_cons_space: "isspace c \<Longrightarrow> split_ws (c # s) = split_ws s"
  by (simp add: split_ws.simps [of "c # s"] split_ws.simps [of s])

lemma split_ws_token_space:
  assumes "is_token t" "isspace c"
  shows "split_ws (t @ c # s) = t # split_ws s"
proof -
  have d: "dropWhile isspace (t @ c # s) = t @ c # s"
    using assms(1) by (cases t) (auto simp: is_token_def)
  have "takeWhile (\<lambda>c. \<not> isspace c) (t @ c # s) = t"
    and "dropWhile (\<lambda>c. \<not> isspace c) (t @ c # s) = c # s"
    using assms by (auto simp: is_token_def takeWhile_append dropWhile_append)
  then show ?thesis
    using assms by (simp add: split_ws.simps [of "t @ c # s"] d split_ws_cons_space)
qed

lemma split_ws_token:
  assumes "is_token t"
  shows "split_ws t = [t]"
proof -
  have "dropWhile isspace t = t"
    using assms by (cases t) (auto simp: is_token_def)
  moreover have "takeWhile (\<lambda>c. \<not> isspace c) t = t"
    using assms by (auto simp: is_token_def)
  moreover have "dropWhile (\<lambda>c. \<not> isspace c) t = []"
    using assms by (auto simp: is_token_def)
  then have "split_ws (dropWhile (\<lambda>c. \<not> isspace c) t) = []"
    by (simp only:) (simp add: split_ws_blank)
  ultimately show ?thesis
    using assms by (simp add: split_ws.simps [of t] is_token_def)
qed

fun join_ws :: "string list \<Rightarrow> string" where
  "join_ws [] = []"
| "join_ws [t] = t"
| "join_ws (t # ts) = t @ CHR '' '' # join_ws ts"

lemma isspace_blank [simp]: "isspace (CHR '' '')"
  by (simp add: isspace_def)

lemma split_ws_join_ws: "\<forall>t \<in> set ts. is_token t \<Longrightarrow> split_ws (join_ws ts) = ts"
  by (induction ts rule: join_ws.induct)
    (simp_all add: split_ws_blank split_ws_token split_ws_token_space)

end
