(* ===== verification/HostIO.thy ===== *)
theory HostIO
  imports CLib "HOL-Library.Signed_Division"
begin

text \<open>
  The operating system as the program sees it, and the helpers of \<open>base_host.hpp\<close> and
  \<open>base_host.cpp\<close> built on it. An open file is its contents, the file offset and the
  answers the kernel will give to the coming \<open>write\<close> calls: each call may transfer any
  prefix of its buffer or fail, and once the scripted answers are used up every write is
  complete. A world is the directory the program runs in, with the calls that the
  environment refuses. The two locales state what a caller of a write routine may rely on.
\<close>

section \<open>Open files\<close>

record ofd =
  fd_data :: bytes
  fd_pos :: nat
  fd_answers :: "int list"
  fd_bad :: bool

text \<open>
  \<open>write(2)\<close>: the number of bytes transferred, \<open>-1\<close> on error. A descriptor that
  a failed \<open>open\<close> left at \<open>-1\<close> is a bad one, on which every call fails.
\<close>

definition transfer :: "bytes \<Rightarrow> ofd \<Rightarrow> ofd" where
  "transfer bs f =
     f\<lparr>fd_data := put_at (fd_pos f) bs (fd_data f), fd_pos := fd_pos f + length bs\<rparr>"

definition sys_write :: "bytes \<Rightarrow> ofd \<Rightarrow> int \<times> ofd" where
  "sys_write bs f =
     (if fd_bad f then (-1, f)
      else case fd_answers f of
        [] \<Rightarrow> (int (length bs), transfer bs f)
      | a # as \<Rightarrow>
          if a < 0 then (-1, f\<lparr>fd_answers := as\<rparr>)
          else let n = min (nat a) (length bs)
               in (int n, transfer (take n bs) (f\<lparr>fd_answers := as\<rparr>)))"

text \<open>\<open>xwrite\<close>: the same call, with a message on \<open>stderr\<close> when it fails.\<close>

definition xwrite :: "bytes \<Rightarrow> ofd \<Rightarrow> int \<times> ofd" where
  "xwrite bs f = sys_write bs f"

text \<open>
  A file that is only appended to: its offset is at the end. Such a file stays one under
  writes, and what a write adds is a prefix of its buffer.
\<close>

definition appending :: "ofd \<Rightarrow> bool" where
  "appending f \<longleftrightarrow> fd_pos f = length (fd_data f)"

lemma transfer_appending:
  assumes "appending f"
  shows "fd_data (transfer bs f) = fd_data f @ bs" "appending (transfer bs f)"
    "fd_answers (transfer bs f) = fd_answers f"
  using assms by (simp_all add: transfer_def appending_def)

lemma sys_write_appending:
  assumes "appending f" "sys_write bs f = (n, f')"
  shows "appending f' \<and> n \<le> int (length bs) \<and> fd_data f' = fd_data f @ take (nat n) bs"
proof (cases "fd_answers f")
  case Nil
  with assms show ?thesis
    by (auto simp: sys_write_def transfer_appending split: if_splits)
next
  case (Cons a as)
  have "appending (f\<lparr>fd_answers := as\<rparr>)"
    using assms(1) by (simp add: appending_def)
  with assms Cons show ?thesis
    by (auto simp: sys_write_def Let_def transfer_appending split: if_splits)
qed

subsection \<open>\<open>write_all\<close> of \<open>cpio.cpp\<close>: retry until everything is written\<close>

function write_all :: "bytes \<Rightarrow> ofd \<Rightarrow> bool \<times> ofd" where
  "write_all bs f =
     (if bs = [] then (True, f)
      else let (n, f') = sys_write bs f
           in if n \<le> 0 then (False, f') else write_all (drop (nat n) bs) f')"
  by pat_completeness auto
termination
  by (relation "measure (\<lambda>(bs, f). length bs)") auto

declare write_all.simps [simp del]

lemma write_all_Nil [simp]: "write_all [] f = (True, f)"
  by (simp add: write_all.simps)

lemma write_all_appends:
  "appending f \<Longrightarrow> \<exists>k \<le> length bs. fd_data (snd (write_all bs f)) = fd_data f @ take k bs
     \<and> appending (snd (write_all bs f)) \<and> (fst (write_all bs f) \<longrightarrow> k = length bs)"
proof (induction bs f rule: write_all.induct)
  case (1 bs f)
  show ?case
  proof (cases "bs = []")
    case True
    with "1.prems" show ?thesis by simp
  next
    case False
    obtain n f' where w: "sys_write bs f = (n, f')"
      by (cases "sys_write bs f")
    note app = sys_write_appending [OF "1.prems" w]
    show ?thesis
    proof (cases "n \<le> 0")
      case True
      with False w app show ?thesis
        by (auto simp: write_all.simps [of bs f])
    next
      case pos: False
      from "1.IH" [OF False refl, of n f'] w pos app obtain k where
        k: "k \<le> length bs - nat n"
          "fd_data (snd (write_all (drop (nat n) bs) f')) = fd_data f' @ take k (drop (nat n) bs)"
          "appending (snd (write_all (drop (nat n) bs) f'))"
          "fst (write_all (drop (nat n) bs) f') \<longrightarrow> k = length bs - nat n"
        by auto
      have "take (nat n) bs @ take k (drop (nat n) bs) = take (nat n + k) bs"
        by (simp add: take_add)
      with k False w pos app show ?thesis
        by (intro exI [of _ "nat n + k"]) (auto simp: write_all.simps [of bs f])
    qed
  qed
qed

text \<open>A file whose kernel makes progress on every call: no answer is zero or an error.\<close>

definition progressing :: "ofd \<Rightarrow> bool" where
  "progressing f \<longleftrightarrow> appending f \<and> \<not> fd_bad f \<and> (\<forall>a \<in> set (fd_answers f). 0 < a)"

lemma sys_write_progressing:
  assumes "progressing f" "bs \<noteq> []" "sys_write bs f = (n, f')"
  shows "0 < n \<and> progressing f'"
  using assms
  by (cases "fd_answers f") (auto simp: sys_write_def progressing_def appending_def transfer_def Let_def)

lemma write_all_progressing:
  "progressing f \<Longrightarrow> fst (write_all bs f) \<and> progressing (snd (write_all bs f))"
proof (induction bs f rule: write_all.induct)
  case (1 bs f)
  show ?case
  proof (cases "bs = []")
    case True
    with "1.prems" show ?thesis by simp
  next
    case False
    obtain n f' where w: "sys_write bs f = (n, f')"
      by (cases "sys_write bs f")
    note p = sys_write_progressing [OF "1.prems" False w]
    from "1.IH" [OF False refl, of n f'] w p False show ?thesis
      by (simp add: write_all.simps [of bs f])
  qed
qed

subsection \<open>What a writer relies on\<close>

text \<open>Several writes in a row, each \<open>if (!write(...)) return false;\<close>.\<close>

fun seq_puts :: "(bytes \<Rightarrow> 's \<Rightarrow> bool \<times> 's) \<Rightarrow> bytes list \<Rightarrow> 's \<Rightarrow> bool \<times> 's" where
  "seq_puts put [] s = (True, s)"
| "seq_puts put (b # bs) s =
     (let (ok, s') = put b s in if ok then seq_puts put bs s' else (False, s'))"

locale append_sink =
  fixes put :: "bytes \<Rightarrow> 's \<Rightarrow> bool \<times> 's"
    and contents :: "'s \<Rightarrow> bytes"
    and inv :: "'s \<Rightarrow> bool"
  assumes put_inv: "inv s \<Longrightarrow> inv (snd (put b s))"
    and put_prefix: "inv s \<Longrightarrow> \<exists>k \<le> length b. contents (snd (put b s)) = contents s @ take k b"
    and put_complete: "inv s \<Longrightarrow> fst (put b s) \<Longrightarrow> contents (snd (put b s)) = contents s @ b"
begin

lemma seq_inv: "inv s \<Longrightarrow> inv (snd (seq_puts put bs s))"
proof (induction bs arbitrary: s)
  case Nil
  then show ?case by simp
next
  case (Cons b bs)
  then show ?case
    using put_inv [of s b] by (cases "put b s") auto
qed

lemma seq_complete:
  "inv s \<Longrightarrow> fst (seq_puts put bs s) \<Longrightarrow> contents (snd (seq_puts put bs s)) = contents s @ concat bs"
proof (induction bs arbitrary: s)
  case Nil
  then show ?case by simp
next
  case (Cons b bs)
  obtain ok s' where p: "put b s = (ok, s')"
    by (cases "put b s")
  with Cons.prems have "ok" "inv s'" "contents s' = contents s @ b"
    using put_inv [of s b] put_complete [of s b] by (auto split: if_splits)
  with Cons p show ?case by auto
qed

lemma seq_prefix:
  "inv s \<Longrightarrow> \<exists>k \<le> length (concat bs).
     contents (snd (seq_puts put bs s)) = contents s @ take k (concat bs)"
proof (induction bs arbitrary: s)
  case Nil
  then show ?case by simp
next
  case (Cons b bs)
  obtain ok s' where p: "put b s = (ok, s')"
    by (cases "put b s")
  show ?case
  proof (cases ok)
    case True
    with Cons.prems p have s': "inv s'" "contents s' = contents s @ b"
      using put_inv [of s b] put_complete [of s b] by auto
    from Cons.IH [OF s'(1)] obtain k where "k \<le> length (concat bs)"
      "contents (snd (seq_puts put bs s')) = contents s' @ take k (concat bs)" by blast
    with s' p True show ?thesis
      by (intro exI [of _ "length b + k"]) simp
  next
    case False
    from put_prefix [OF Cons.prems, of b] obtain k where
      "k \<le> length b" "contents (snd (put b s)) = contents s @ take k b" by blast
    with p False show ?thesis
      by (intro exI [of _ k]) simp
  qed
qed

end

locale healthy_sink = append_sink put contents inv
  for put :: "bytes \<Rightarrow> 's \<Rightarrow> bool \<times> 's" and contents :: "'s \<Rightarrow> bytes" and inv :: "'s \<Rightarrow> bool" +
  assumes put_succeeds: "inv s \<Longrightarrow> fst (put b s)"
begin

lemma seq_succeeds: "inv s \<Longrightarrow> fst (seq_puts put bs s)"
proof (induction bs arbitrary: s)
  case Nil
  then show ?case by simp
next
  case (Cons b bs)
  then show ?case
    using put_succeeds [of s b] put_inv [of s b] by (auto split: prod.splits)
qed

lemma seq_appends:
  "inv s \<Longrightarrow> contents (snd (seq_puts put bs s)) = contents s @ concat bs"
  by (simp add: seq_complete seq_succeeds)

end

interpretation appending_fd: append_sink write_all fd_data appending
proof
  fix s b
  assume s: "appending s"
  show "appending (snd (write_all b s))"
    using write_all_appends [OF s, of b] by blast
  show "\<exists>k \<le> length b. fd_data (snd (write_all b s)) = fd_data s @ take k b"
    using write_all_appends [OF s, of b] by blast
  show "fst (write_all b s) \<Longrightarrow> fd_data (snd (write_all b s)) = fd_data s @ b"
    using write_all_appends [OF s, of b] by auto
qed

lemma progressing_appending: "progressing f \<Longrightarrow> appending f"
  by (simp add: progressing_def)

interpretation progressing_fd: healthy_sink write_all fd_data progressing
proof
  fix s b
  assume s: "progressing s"
  show "progressing (snd (write_all b s))" "fst (write_all b s)"
    using write_all_progressing [OF s, of b] by blast+
  show "\<exists>k \<le> length b. fd_data (snd (write_all b s)) = fd_data s @ take k b"
    using appending_fd.put_prefix [OF progressing_appending [OF s]] .
  show "fst (write_all b s) \<Longrightarrow> fd_data (snd (write_all b s)) = fd_data s @ b"
    using appending_fd.put_complete [OF progressing_appending [OF s]] .
qed

end
