(* ===== verification/World.thy ===== *)
theory World
  imports HostIO
begin

text \<open>
  The file system of a run: the regular files by path, the directories, the calls that the environment
  refuses for a path although the file may exist, and the scripted answers for writes.
  \<open>stat\<close>, \<open>open\<close>, \<open>creat\<close> and the \<open>mmap_data\<close> constructor are modelled by what they
  return.
\<close>

record world =
  files :: "string \<Rightarrow> bytes option"
  dirs :: "string \<Rightarrow> bool"
  no_stat :: "string \<Rightarrow> bool"
  no_open :: "string \<Rightarrow> bool"
  no_creat :: "string \<Rightarrow> bool"
  no_mmap :: "string \<Rightarrow> bool"
  no_mkdir :: "string \<Rightarrow> bool"
  answers :: "int list"

datatype stat_result = NoEntry | StatFailed | Size nat

definition sys_stat :: "world \<Rightarrow> string \<Rightarrow> stat_result" where
  "sys_stat w path =
     (if no_stat w path then StatFailed
      else case files w path of None \<Rightarrow> NoEntry | Some d \<Rightarrow> Size (length d))"

text \<open>Opening for reading, as \<open>xopen\<close> and \<open>std::ifstream\<close> do, with the whole contents.\<close>

definition read_file :: "world \<Rightarrow> string \<Rightarrow> bytes option" where
  "read_file w path = (if no_open w path then None else files w path)"

text \<open>
  \<open>mmap_data(name)\<close>: \<open>None\<close> is a null view, which an unreadable file, a refused mapping
  and an empty file (\<open>mmap\<close> rejects length 0) leave behind.
\<close>

definition mmap_data :: "world \<Rightarrow> string \<Rightarrow> bytes option" where
  "mmap_data w name =
     (case read_file w name of
        None \<Rightarrow> None
      | Some d \<Rightarrow> if d = [] \<or> no_mmap w name then None else Some d)"

text \<open>\<open>open(O_CREAT | O_TRUNC)\<close> and \<open>creat\<close>; closing stores the contents.\<close>

definition open_trunc :: "world \<Rightarrow> string \<Rightarrow> ofd option" where
  "open_trunc w path =
     (if no_creat w path then None
      else Some \<lparr>fd_data = [], fd_pos = 0, fd_answers = answers w, fd_bad = False\<rparr>)"

definition close_file :: "world \<Rightarrow> string \<Rightarrow> ofd \<Rightarrow> world" where
  "close_file w path f = w\<lparr>files := (files w)(path := Some (fd_data f)), answers := fd_answers f\<rparr>"

lemma close_file_simps [simp]:
  "files (close_file w path f) = (files w)(path := Some (fd_data f))"
  "no_stat (close_file w path f) = no_stat w"
  "no_open (close_file w path f) = no_open w"
  "no_creat (close_file w path f) = no_creat w"
  "no_mmap (close_file w path f) = no_mmap w"
  "dirs (close_file w path f) = dirs w" "no_mkdir (close_file w path f) = no_mkdir w"
  "answers (close_file w path f) = fd_answers f"
  by (simp_all add: close_file_def)

text \<open>
  \<open>xmkdir\<close>: a path that exists stays what it is. A directory can be opened and looked up in when it
  exists and is not refused.
\<close>

definition xmkdir :: "world \<Rightarrow> string \<Rightarrow> world" where
  "xmkdir w path =
     (if files w path \<noteq> None \<or> dirs w path \<or> no_mkdir w path then w else w\<lparr>dirs := (dirs w)(path := True)\<rparr>)"

definition dir_opens :: "world \<Rightarrow> string \<Rightarrow> bool" where
  "dir_opens w path \<longleftrightarrow> dirs w path \<and> \<not> no_open w path"

text \<open>A directory where everything the program asks for works.\<close>

definition willing :: "world \<Rightarrow> bool" where
  "willing w \<longleftrightarrow> (\<forall>p. \<not> no_stat w p \<and> \<not> no_open w p \<and> \<not> no_creat w p \<and> \<not> no_mmap w p)
     \<and> (\<forall>a \<in> set (answers w). 0 < a)"

lemma open_trunc_progressing:
  "open_trunc w path = Some f \<Longrightarrow> \<forall>a \<in> set (answers w). 0 < a \<Longrightarrow> progressing f \<and> fd_data f = []"
  by (auto simp: open_trunc_def progressing_def appending_def split: if_splits)

lemma open_trunc_appending:
  "open_trunc w path = Some f \<Longrightarrow> appending f \<and> fd_data f = []"
  by (auto simp: open_trunc_def appending_def split: if_splits)

end
