(* ===== verification/CpioPath.thy ===== *)
theory CpioPath
  imports Prelude
begin

text \<open>
  \<open>CpioArchive::normalize_path\<close> of \<open>cpio.cpp\<close>: the character loop with its two
  variables, shown equal to splitting at slashes and dropping empty and dot segments.
\<close>

definition keep_seg :: "string \<Rightarrow> bool" where
  "keep_seg seg \<longleftrightarrow> seg \<noteq> [] \<and> seg \<noteq> ''.''"

fun normalize_loop :: "string \<Rightarrow> string list \<Rightarrow> string \<Rightarrow> string list \<times> string" where
  "normalize_loop [] segs current = (segs, current)"
| "normalize_loop (c # cs) segs current =
     (if c = CHR ''/''
      then normalize_loop cs (if keep_seg current then segs @ [current] else segs) []
      else normalize_loop cs segs (current @ [c]))"

fun join_slash :: "string list \<Rightarrow> string" where
  "join_slash [] = []"
| "join_slash [s] = s"
| "join_slash (s # segs) = s @ CHR ''/'' # join_slash segs"

definition normalize_path :: "string \<Rightarrow> string" where
  "normalize_path path =
     (let (segs, current) = normalize_loop path [] []
      in join_slash (if keep_seg current then segs @ [current] else segs))"

section \<open>The segments of a path\<close>

fun split_slash :: "string \<Rightarrow> string list" where
  "split_slash [] = [[]]"
| "split_slash (c # cs) =
     (if c = CHR ''/'' then [] # split_slash cs
      else (case split_slash cs of [] \<Rightarrow> [[c]] | s # ss \<Rightarrow> (c # s) # ss))"

definition segments :: "string \<Rightarrow> string list" where
  "segments path = filter keep_seg (split_slash path)"

lemma split_slash_not_Nil [simp]: "split_slash s \<noteq> []"
  by (induction s) (auto split: list.splits)

lemma normalize_loop_split:
  "(let (segs', current') = normalize_loop cs segs current
    in if keep_seg current' then segs' @ [current'] else segs') =
   segs @ filter keep_seg ((current @ hd (split_slash cs)) # tl (split_slash cs))"
proof (induction cs arbitrary: segs current)
  case Nil
  then show ?case by simp
next
  case (Cons c cs)
  show ?case
  proof (cases "c = CHR ''/''")
    case True
    have "filter keep_seg (hd (split_slash cs) # tl (split_slash cs)) = filter keep_seg (split_slash cs)"
      by simp
    with True show ?thesis
      by (simp add: Cons.IH del: filter.simps)
        (simp add: Let_def)
  next
    case False
    then show ?thesis
      by (simp add: Cons.IH del: filter.simps split: list.splits)
  qed
qed

lemma normalize_path_segments: "normalize_path path = join_slash (segments path)"
  using normalize_loop_split [of path "[]" "[]"]
  by (simp add: normalize_path_def segments_def Let_def split: prod.splits)
    (metis append_Nil list.collapse split_slash_not_Nil)

section \<open>Normal paths\<close>

definition seg_ok :: "string \<Rightarrow> bool" where
  "seg_ok seg \<longleftrightarrow> keep_seg seg \<and> CHR ''/'' \<notin> set seg"

lemma split_slash_no_slash: "s \<in> set (split_slash p) \<Longrightarrow> CHR ''/'' \<notin> set s"
  by (induction p arbitrary: s) (auto split: if_splits list.splits)

lemma segments_ok: "s \<in> set (segments p) \<Longrightarrow> seg_ok s"
  by (auto simp: segments_def seg_ok_def dest: split_slash_no_slash)

lemma split_slash_single: "CHR ''/'' \<notin> set s \<Longrightarrow> split_slash s = [s]"
  by (induction s) auto

lemma split_slash_append:
  "CHR ''/'' \<notin> set s \<Longrightarrow> split_slash (s @ CHR ''/'' # p) = s # split_slash p"
  by (induction s) auto

lemma split_join_slash:
  "segs \<noteq> [] \<Longrightarrow> \<forall>s \<in> set segs. CHR ''/'' \<notin> set s \<Longrightarrow> split_slash (join_slash segs) = segs"
  by (induction segs rule: join_slash.induct) (auto simp: split_slash_single split_slash_append)

lemma segments_join: "\<forall>s \<in> set segs. seg_ok s \<Longrightarrow> segments (join_slash segs) = segs"
  by (cases "segs = []") (simp_all add: segments_def keep_seg_def seg_ok_def split_join_slash)

lemma normalize_join: "\<forall>s \<in> set segs. seg_ok s \<Longrightarrow> normalize_path (join_slash segs) = join_slash segs"
  by (simp add: normalize_path_segments segments_join)

lemma normalize_idem [simp]: "normalize_path (normalize_path p) = normalize_path p"
  by (simp add: normalize_path_segments segments_join segments_ok)

definition normal :: "string \<Rightarrow> bool" where
  "normal p \<longleftrightarrow> normalize_path p = p"

lemma normal_normalize [simp, intro]: "normal (normalize_path p)"
  by (simp add: normal_def)

lemma not_normal_dot: "\<not> normal ''.''"
  by (simp add: normal_def normalize_path_def keep_seg_def)

lemma join_slash_length: "segs \<noteq> [] \<Longrightarrow>
    length (join_slash segs) = sum_list (map length segs) + (length segs - 1)"
  by (induction segs rule: join_slash.induct) auto

end
