(* ===== verification/CpioFormat.thy ===== *)
theory CpioFormat
  imports World CpioPath
begin

text \<open>
  The \<open>newc\<close> member format of \<open>cpio.cpp\<close>: the packed header struct, the 4-byte alignment
  in 32-bit arithmetic and \<open>write_entry\<close>, the writer of one member. The lemmas give the
  exact bytes of a member, that the padding never reads past its three-byte array, and that
  every member ends on a 4-byte boundary.
\<close>

section \<open>Entries and headers\<close>

record cpio_entry =
  mode :: u32
  uid :: u32
  gid :: u32
  rdev_major :: u32
  rdev_minor :: u32
  data :: bytes

definition empty_entry :: cpio_entry where
  "empty_entry = \<lparr>mode = 0, uid = 0, gid = 0, rdev_major = 0, rdev_minor = 0, data = []\<rparr>"

record newc_header =
  h_magic :: bytes
  h_ino :: bytes
  h_mode :: bytes
  h_uid :: bytes
  h_gid :: bytes
  h_nlink :: bytes
  h_mtime :: bytes
  h_filesize :: bytes
  h_devmajor :: bytes
  h_devminor :: bytes
  h_rdevmajor :: bytes
  h_rdevminor :: bytes
  h_namesize :: bytes
  h_check :: bytes

definition newc_size :: nat where
  "newc_size = 110"

definition newc_magic :: bytes where
  "newc_magic = str ''070701''"

definition kTrailer :: string where
  "kTrailer = ''TRAILER!!!''"

text \<open>Casting 110 bytes to the struct, and the struct's bytes.\<close>

definition newc_of_bytes :: "bytes \<Rightarrow> newc_header" where
  "newc_of_bytes b =
     \<lparr>h_magic = view 0 6 b, h_ino = view 6 8 b, h_mode = view 14 8 b, h_uid = view 22 8 b,
      h_gid = view 30 8 b, h_nlink = view 38 8 b, h_mtime = view 46 8 b,
      h_filesize = view 54 8 b, h_devmajor = view 62 8 b, h_devminor = view 70 8 b,
      h_rdevmajor = view 78 8 b, h_rdevminor = view 86 8 b, h_namesize = view 94 8 b,
      h_check = view 102 8 b\<rparr>"

definition bytes_of_newc :: "newc_header \<Rightarrow> bytes" where
  "bytes_of_newc h =
     h_magic h @ h_ino h @ h_mode h @ h_uid h @ h_gid h @ h_nlink h @ h_mtime h @ h_filesize h @
     h_devmajor h @ h_devminor h @ h_rdevmajor h @ h_rdevminor h @ h_namesize h @ h_check h"

definition newc_wf :: "newc_header \<Rightarrow> bool" where
  "newc_wf h \<longleftrightarrow> length (h_magic h) = 6 \<and> length (h_ino h) = 8 \<and> length (h_mode h) = 8 \<and>
     length (h_uid h) = 8 \<and> length (h_gid h) = 8 \<and> length (h_nlink h) = 8 \<and>
     length (h_mtime h) = 8 \<and> length (h_filesize h) = 8 \<and> length (h_devmajor h) = 8 \<and>
     length (h_devminor h) = 8 \<and> length (h_rdevmajor h) = 8 \<and> length (h_rdevminor h) = 8 \<and>
     length (h_namesize h) = 8 \<and> length (h_check h) = 8"

lemma length_bytes_of_newc [codec_simps]: "newc_wf h \<Longrightarrow> length (bytes_of_newc h) = newc_size"
  by (simp add: bytes_of_newc_def newc_wf_def newc_size_def)

lemma newc_of_bytes_of_newc [codec_simps]: "newc_wf h \<Longrightarrow> newc_of_bytes (bytes_of_newc h) = h"
  by (cases h) (simp add: newc_wf_def bytes_of_newc_def newc_of_bytes_def view_def)

section \<open>Alignment\<close>

definition align4 :: "u32 \<Rightarrow> u32" where
  "align4 v = (v + 3) AND NOT 3"

text \<open>
  \<open>(off + 3) & ~3\<close> on \<open>size_t\<close>. Offsets stay below \<open>2^63\<close>, the largest file size, so the
  sum does not wrap and the mask rounds down.
\<close>

definition align4_size :: "nat \<Rightarrow> nat" where
  "align4_size n = (n + 3) div 4 * 4"

lemma and_not_3: "w AND NOT 3 = (w :: 'a::len word) - w mod 4"
proof -
  have "w AND 3 = w mod 4"
    using take_bit_eq_mask [of 2 w] take_bit_eq_mod [of 2 w] by (simp add: mask_eq_exp_minus_1)
  moreover have "w = (w AND 3) + (w AND NOT 3)"
    by (subst disjunctive_add) (auto simp: bit_simps intro!: bit_word_eqI)
  ultimately show ?thesis
    by (metis add_diff_cancel_left')
qed

lemma and_m4: "w AND - 4 = (w :: 'a::len word) - w mod 4"
  using and_not_3 [of w] by simp

lemma align4_size_word:
  assumes "unat w + 3 < 2 ^ 64"
  shows "unat (((w :: u64) + 3) AND NOT 3) = align4_size (unat w)"
proof -
  have "unat (w + 3) = unat w + 3"
    using assms by (simp add: unat_word_ariths)
  moreover have "unat (v - v mod 4) = unat v - unat v mod 4" for v :: u64
    by (subst unat_sub) (simp_all add: word_le_nat_alt unat_mod)
  ultimately have "unat (((w :: u64) + 3) AND NOT 3) = unat w + 3 - (unat w + 3) mod 4"
    by (simp only: and_not_3)
  then show ?thesis
    by (simp add: align4_size_def minus_mod_eq_div_mult)
qed

lemma align4_size_ge: "n \<le> align4_size n"
  unfolding align4_size_def by presburger

lemma align4_size_less: "align4_size n < n + 4"
  unfolding align4_size_def by presburger

lemma align4_size_mult [simp]: "4 dvd align4_size n"
  by (simp add: align4_size_def)

lemma align4_size_add:
  assumes "4 dvd a"
  shows "align4_size (a + b) = a + align4_size b"
  using assms unfolding align4_size_def by (auto simp: dvd_def) presburger

lemma mod4_values: "n mod 4 = 0 \<or> n mod 4 = 1 \<or> n mod 4 = 2 \<or> n mod 4 = (3 :: nat)"
  by arith

lemma align4_size_pad: "align4_size n = n + (4 - n mod 4) mod 4"
  unfolding align4_size_def using mod4_values [of n] by (elim disjE) (simp, arith)+

lemma mod4_complement: "3 - (n + 3) mod 4 = (4 - n mod 4) mod (4 :: nat)"
  using mod4_values [of n] by (elim disjE) (simp, arith)+

text \<open>The padding after \<open>n\<close> bytes, computed by the code in wrapping 32-bit arithmetic.\<close>

definition pad4 :: "u32 \<Rightarrow> u32" where
  "pad4 v = align4 v - v"

lemma unat_pad4: "unat (pad4 (of_nat n)) = (4 - n mod 4) mod 4"
proof -
  define v :: u32 where "v = of_nat n"
  have m: "unat (v + 3) mod 4 = (n + 3) mod 4"
  proof -
    have "unat (v + 3) = (n + 3) mod 2 ^ 32"
      by (simp add: v_def unat_word_ariths unat_of_nat mod_simps)
    moreover have "(n + 3) mod 2 ^ 32 mod 4 = (n + 3) mod 4"
      by (rule mod_mod_cancel) simp
    ultimately show ?thesis by simp
  qed
  have "pad4 v = 3 - (v + 3) mod 4"
    unfolding pad4_def align4_def and_not_3 by simp
  moreover have "(v + 3) mod 4 \<le> 3"
    unfolding word_le_nat_alt by (simp add: unat_mod)
  ultimately have "unat (pad4 v) = 3 - (n + 3) mod 4"
    by (simp add: unat_sub unat_mod m)
  also have "\<dots> = (4 - n mod 4) mod 4"
    by (rule mod4_complement)
  finally show ?thesis
    by (simp add: v_def)
qed

lemma unat_pad4_le: "unat (pad4 (of_nat n)) \<le> 3"
  unfolding unat_pad4 by arith

lemma pad4_aligns: "n + unat (pad4 (of_nat n)) = align4_size n"
  by (simp add: unat_pad4 align4_size_pad)

section \<open>Writing a member\<close>

definition S_IFMT :: u32 where "S_IFMT = 0xF000"
definition S_IFDIR :: u32 where "S_IFDIR = 0x4000"
definition S_IFREG :: u32 where "S_IFREG = 0x8000"

definition entry_header :: "string \<Rightarrow> u32 \<Rightarrow> cpio_entry \<Rightarrow> newc_header" where
  "entry_header entry_name ino entry =
     \<lparr>h_magic = newc_magic,
      h_ino = format_hex8 ino,
      h_mode = format_hex8 (mode entry),
      h_uid = format_hex8 (uid entry),
      h_gid = format_hex8 (gid entry),
      h_nlink = format_hex8 (if mode entry AND S_IFMT = S_IFDIR then 2 else 1),
      h_mtime = format_hex8 0,
      h_filesize = format_hex8 (of_nat (length (data entry))),
      h_devmajor = format_hex8 0,
      h_devminor = format_hex8 0,
      h_rdevmajor = format_hex8 (rdev_major entry),
      h_rdevminor = format_hex8 (rdev_minor entry),
      h_namesize = format_hex8 (of_nat (length entry_name + 1)),
      h_check = format_hex8 0\<rparr>"

definition zeros3 :: bytes where
  "zeros3 = [0, 0, 0]"

text \<open>The buffers \<open>write_entry\<close> hands to \<open>write_all\<close>, in order.\<close>

definition entry_chunks :: "string \<Rightarrow> u32 \<Rightarrow> cpio_entry \<Rightarrow> bytes list" where
  "entry_chunks entry_name ino entry =
     (let namesize = of_nat (length entry_name + 1) :: u32;
          pos_after_name = of_nat newc_size + namesize;
          next_aligned = (pos_after_name + 3) AND NOT 3;
          name_pad_len = next_aligned - pos_after_name;
          data_size = of_nat (length (data entry)) :: u32;
          data_pad = align4 data_size - data_size
      in [bytes_of_newc (entry_header entry_name ino entry), str entry_name, [0]]
         @ (if name_pad_len \<noteq> 0 then [take (unat name_pad_len) zeros3] else [])
         @ (if data entry \<noteq> [] then [data entry] else [])
         @ (if data_pad \<noteq> 0 then [take (unat data_pad) zeros3] else []))"

definition write_entry :: "string \<Rightarrow> u32 \<Rightarrow> cpio_entry \<Rightarrow> ofd \<Rightarrow> bool \<times> ofd" where
  "write_entry entry_name ino entry f = seq_puts write_all (entry_chunks entry_name ino entry) f"

definition entry_bytes :: "string \<Rightarrow> u32 \<Rightarrow> cpio_entry \<Rightarrow> bytes" where
  "entry_bytes entry_name ino entry = concat (entry_chunks entry_name ino entry)"

lemma newc_wf_entry_header [simp]: "newc_wf (entry_header n i e)"
  by (simp add: newc_wf_def entry_header_def newc_magic_def)

lemma take_zeros3: "n \<le> 3 \<Longrightarrow> take n zeros3 = replicate n 0"
  by (auto simp: zeros3_def le_Suc_eq numeral_eq_Suc)

text \<open>The bytes of a member, with both paddings as zeros up to the next multiple of 4.\<close>

lemma entry_bytes_eq:
  "entry_bytes n i e =
     bytes_of_newc (entry_header n i e) @ str n @ [0] @
     replicate (align4_size (newc_size + length n + 1) - (newc_size + length n + 1)) 0 @
     data e @ replicate (align4_size (length (data e)) - length (data e)) 0"
proof -
  define a where "a = newc_size + (length n + 1)"
  have a: "of_nat newc_size + (of_nat (length n + 1) :: u32) = of_nat a"
    by (simp add: a_def)
  have np: "((of_nat a + 3) AND NOT 3) - (of_nat a :: u32) = pad4 (of_nat a)" for a
    unfolding pad4_def align4_def ..
  have pad: "concat (if pad4 (of_nat k) \<noteq> 0 then [take (unat (pad4 (of_nat k))) zeros3] else [])
      = replicate (align4_size k - k) 0" for k
    using pad4_aligns [of k] unat_pad4_le [of k]
    by (auto simp: take_zeros3 unat_eq_zero [symmetric] simp del: unat_eq_zero) 
  show ?thesis
    unfolding entry_bytes_def entry_chunks_def Let_def a np pad4_def [symmetric] concat_append pad
    by (simp add: a_def)
qed

lemma length_entry_bytes [codec_simps]:
  "length (entry_bytes n i e) =
     align4_size (newc_size + length n + 1) + align4_size (length (data e))"
  using align4_size_ge [of "newc_size + length n + 1"] align4_size_ge [of "length (data e)"]
  by (simp add: entry_bytes_eq length_bytes_of_newc)

lemma entry_bytes_aligned [simp]: "4 dvd length (entry_bytes n i e)"
  by (simp add: length_entry_bytes)

end
