(* ===== verification/OrderedMap.thy ===== *)
theory OrderedMap
  imports Prelude
begin

text \<open>
  \<open>std::map\<close> as the program uses it: the list of its entries in key order, with
  \<open>find\<close>, \<open>operator[] =\<close> (insert or overwrite) and \<open>erase\<close>. Keys of the program are
  \<open>std::string\<close>, whose order is the lexicographic order on unsigned bytes, which is the
  order of \<^typ>\<open>string\<close> here. The locale is the contract the archive operations use;
  the sorted list discharges it.
\<close>

type_synonym ('k, 'v) smap = "('k \<times> 'v) list"

fun smap_assign :: "'k::linorder \<Rightarrow> 'v \<Rightarrow> ('k, 'v) smap \<Rightarrow> ('k, 'v) smap" where
  "smap_assign k v [] = [(k, v)]"
| "smap_assign k v (e # m) =
     (if fst e < k then e # smap_assign k v m
      else if fst e = k then (k, v) # m
      else (k, v) # e # m)"

fun smap_erase :: "'k \<Rightarrow> ('k, 'v) smap \<Rightarrow> ('k, 'v) smap" where
  "smap_erase k [] = []"
| "smap_erase k (e # m) = (if fst e = k then m else e # smap_erase k m)"

definition smap_find :: "('k, 'v) smap \<Rightarrow> 'k \<Rightarrow> 'v option" where
  "smap_find m k = map_of m k"

definition smap_inv :: "('k::linorder, 'v) smap \<Rightarrow> bool" where
  "smap_inv m \<longleftrightarrow> sorted_wrt (<) (map fst m)"

section \<open>The contract\<close>

locale ordered_map =
  fixes find :: "'m \<Rightarrow> 'k::linorder \<Rightarrow> 'v option"
    and assign :: "'k \<Rightarrow> 'v \<Rightarrow> 'm \<Rightarrow> 'm"
    and erase :: "'k \<Rightarrow> 'm \<Rightarrow> 'm"
    and entries :: "'m \<Rightarrow> ('k \<times> 'v) list"
    and none :: 'm
    and inv :: "'m \<Rightarrow> bool"
  assumes inv_none: "inv none"
    and inv_assign: "inv m \<Longrightarrow> inv (assign k v m)"
    and inv_erase: "inv m \<Longrightarrow> inv (erase k m)"
    and find_none: "find none k = None"
    and find_assign: "inv m \<Longrightarrow> find (assign k v m) = (find m)(k := Some v)"
    and find_erase: "inv m \<Longrightarrow> find (erase k m) = (find m)(k := None)"
    and find_entries: "inv m \<Longrightarrow> find m = map_of (entries m)"
    and entries_distinct: "inv m \<Longrightarrow> distinct (map fst (entries m))"
    and same_find_same: "inv m \<Longrightarrow> inv m' \<Longrightarrow> find m = find m' \<Longrightarrow> m = m'"
begin

text \<open>Assigning a whole list of entries, in order, as a loader does.\<close>

lemma inv_fold_assign: "inv m \<Longrightarrow> inv (fold (\<lambda>(k, v). assign k v) es m)"
  by (induction es arbitrary: m) (auto simp: inv_assign)

lemma find_fold_assign:
  "inv m \<Longrightarrow> distinct (map fst es) \<Longrightarrow>
     find (fold (\<lambda>(k, v). assign k v) es m) = find m ++ map_of es"
proof (induction es arbitrary: m)
  case Nil
  then show ?case by simp
next
  case (Cons e es)
  obtain k v where e: "e = (k, v)" by (cases e)
  from Cons.prems e have "k \<notin> dom (map_of es)"
    by (simp add: dom_map_of_conv_image_fst)
  with Cons e show ?case
    by (auto simp: inv_assign find_assign fun_eq_iff map_add_def domIff split: option.splits)
qed

lemma reload_entries:
  assumes "inv m"
  shows "fold (\<lambda>(k, v). assign k v) (entries m) none = m"
proof (rule same_find_same)
  show "inv (fold (\<lambda>(k, v). assign k v) (entries m) none)" "inv m"
    using assms inv_none inv_fold_assign by auto
  show "find (fold (\<lambda>(k, v). assign k v) (entries m) none) = find m"
    using assms
    by (simp add: find_fold_assign inv_none entries_distinct find_entries [of m]
        find_none map_add_def fun_eq_iff split: option.splits)
qed

text \<open>\<open>m[b] = m[a]; erase(a)\<close>: a move, when the two keys differ.\<close>

lemma find_move:
  "inv m \<Longrightarrow> a \<noteq> b \<Longrightarrow> find (erase a (assign b v m)) = (find m)(b := Some v, a := None)"
  by (simp add: find_assign find_erase inv_assign)

lemma find_move_same: "inv m \<Longrightarrow> find (erase a (assign a v m)) = (find m)(a := None)"
  by (simp add: find_assign find_erase inv_assign)

lemma inv_move: "inv m \<Longrightarrow> inv (erase a (assign b v m))"
  by (simp add: inv_assign inv_erase)

lemma assign_commute:
  "inv m \<Longrightarrow> a \<noteq> b \<Longrightarrow> assign a v (assign b w m) = assign b w (assign a v m)"
  by (rule same_find_same) (auto simp: inv_assign find_assign fun_eq_iff)

lemma assign_overwrites: "inv m \<Longrightarrow> assign a v (assign a w m) = assign a v m"
  by (rule same_find_same) (auto simp: inv_assign find_assign)

lemma erase_absent: "inv m \<Longrightarrow> find m a = None \<Longrightarrow> erase a m = m"
  by (rule same_find_same) (auto simp: inv_erase find_erase)

end

section \<open>The sorted list keeps the contract\<close>

lemma fst_set_assign: "fst ` set (smap_assign k v m) = insert k (fst ` set m)"
  by (induction m) auto

lemma fst_set_erase: "fst ` set (smap_erase k m) \<subseteq> fst ` set m"
  by (induction m) auto

lemma smap_inv_Nil [simp]: "smap_inv []"
  by (simp add: smap_inv_def)

lemma smap_inv_Cons [simp]: "smap_inv (e # m) \<longleftrightarrow> (\<forall>k \<in> fst ` set m. fst e < k) \<and> smap_inv m"
  by (auto simp: smap_inv_def)

lemma smap_inv_assign: "smap_inv m \<Longrightarrow> smap_inv (smap_assign k v m)"
proof (induction m)
  case Nil
  then show ?case by simp
next
  case (Cons e m)
  then show ?case
    using fst_set_assign [of k v m] by auto
qed

lemma smap_inv_erase: "smap_inv m \<Longrightarrow> smap_inv (smap_erase k m)"
proof (induction m)
  case Nil
  then show ?case by simp
next
  case (Cons e m)
  then show ?case
    using fst_set_erase [of k m] by fastforce
qed

lemma smap_find_assign: "smap_inv m \<Longrightarrow> smap_find (smap_assign k v m) = (smap_find m)(k := Some v)"
  by (induction m) (auto simp: smap_find_def fun_eq_iff)

lemma smap_find_erase: "smap_inv m \<Longrightarrow> smap_find (smap_erase k m) = (smap_find m)(k := None)"
proof (induction m)
  case Nil
  then show ?case by (simp add: smap_find_def fun_eq_iff)
next
  case (Cons e m)
  then have "map_of m (fst e) = None"
    by (auto simp: map_of_eq_None_iff)
  with Cons show ?case
    by (cases e) (auto simp: smap_find_def fun_eq_iff)
qed

lemma smap_inv_distinct: "smap_inv m \<Longrightarrow> distinct (map fst m)"
  by (induction m) auto

lemma smap_find_ext: "smap_inv m \<Longrightarrow> smap_inv m' \<Longrightarrow> smap_find m = smap_find m' \<Longrightarrow> m = m'"
proof (rule map_sorted_distinct_set_unique [of fst])
  assume inv: "smap_inv m" "smap_inv m'" and eq: "smap_find m = smap_find m'"
  from inv show "sorted (map fst m)" "distinct (map fst m)" "sorted (map fst m')" "distinct (map fst m')"
    by (simp_all add: smap_inv_def strict_sorted_iff)
  moreover have "map_of m = map_of m'"
    using eq by (auto simp: smap_find_def fun_eq_iff)
  ultimately show same: "set m = set m'"
    by (simp add: map_of_inject_set)
  show "inj_on fst (set m \<union> set m')"
    using smap_inv_distinct [OF inv(1)] same by (simp add: distinct_map)
qed

interpretation smap: ordered_map smap_find smap_assign smap_erase "\<lambda>m. m" "[]" smap_inv
  by unfold_locales
    (auto simp: smap_inv_assign smap_inv_erase smap_find_assign smap_find_erase
      smap_inv_distinct smap_find_def intro: smap_find_ext)

end
