(* ===== verification/CpioArchive.thy ===== *)
theory CpioArchive
  imports CpioFormat OrderedMap
begin

text \<open>
  \<open>class CpioArchive\<close> of \<open>cpio.cpp\<close>: the loader with its magic search, trailer handling
  and every early return, the dumper, and the archive operations. Every read of the mapped
  file is bounds-checked, so that memory safety of the loader is a theorem. The archive is
  the ordered map \<open>entries_\<close>.
\<close>

type_synonym archive = "(string, cpio_entry) smap"

section \<open>Loading\<close>

text \<open>The two search loops: the first offset from \<open>i\<close> up to \<open>lim\<close> that holds the magic.\<close>

function find_magic :: "bytes \<Rightarrow> nat \<Rightarrow> nat \<Rightarrow> nat option result" where
  "find_magic p i lim =
     (if lim < i then Inr None
      else bindR (rd p i 6) (\<lambda>b. if b = newc_magic then Inr (Some i) else find_magic p (Suc i) lim))"
  by pat_completeness auto
termination
  by (relation "measure (\<lambda>(p, i, lim). Suc lim - i)") auto

declare find_magic.simps [simp del]

text \<open>One round of the loop either ends it, with the value returned, or moves the offset.\<close>

datatype load_step = Stop bool archive | Next nat archive

definition entry_of_header :: "newc_header \<Rightarrow> bytes \<Rightarrow> cpio_entry" where
  "entry_of_header h d =
     \<lparr>mode = parse_hex8 (h_mode h), uid = parse_hex8 (h_uid h), gid = parse_hex8 (h_gid h),
      rdev_major = parse_hex8 (h_rdevmajor h), rdev_minor = parse_hex8 (h_rdevminor h), data = d\<rparr>"

definition load_member :: "bytes \<Rightarrow> nat \<Rightarrow> newc_header \<Rightarrow> archive \<Rightarrow> load_step result" where
  "load_member p off h es =
     (let total = length p;
          off1 = off + newc_size;
          namesize = unat (parse_hex8 (h_namesize h))
      in if namesize = 0 \<or> total < off1 + namesize then Inr (Stop False es)
         else bindR (rd p off1 (namesize - 1)) (\<lambda>nm.
           let name = chars nm;
               off2 = align4_size (off1 + namesize)
           in if name = ''.'' \<or> name = ''..'' then Inr (Next off2 es)
              else if name = kTrailer then
                bindR (find_magic p off2 (if 6 \<le> total then total - 6 else 0)) (\<lambda>r.
                  case r of Some i \<Rightarrow> Inr (Next i es) | None \<Rightarrow> Inr (Stop True es))
              else
                let filesize = unat (parse_hex8 (h_filesize h))
                in if total < off2 + filesize then Inr (Stop False es)
                   else bindR (rd p off2 filesize) (\<lambda>d.
                     Inr (Next (align4_size (off2 + filesize))
                       (smap_assign (normalize_path name) (entry_of_header h d) es)))))"

definition kInitialSearchLimit :: nat where
  "kInitialSearchLimit = 512"

definition load_round :: "bytes \<Rightarrow> nat \<Rightarrow> archive \<Rightarrow> load_step result" where
  "load_round p off es =
     bindR (rd p off newc_size) (\<lambda>b.
       let h = newc_of_bytes b; total = length p
       in if h_magic h \<noteq> newc_magic then
            if off = 0 \<and> 6 \<le> total then
              bindR (find_magic p 0
                  (if total - 6 \<le> kInitialSearchLimit then total - 6 else kInitialSearchLimit))
                (\<lambda>r. case r of Some i \<Rightarrow> Inr (Next i es) | None \<Rightarrow> Inr (Stop False es))
            else Inr (Stop False es)
          else load_member p off h es)"

lemma find_magic_Some:
  "find_magic p i lim = Inr (Some j) \<Longrightarrow> i \<le> j \<and> j \<le> lim \<and> view j 6 p = newc_magic"
proof (induction p i lim rule: find_magic.induct)
  case (1 p i lim)
  show ?case
  proof (cases "lim < i")
    case True
    with "1.prems" show ?thesis by (simp add: find_magic.simps)
  next
    case False
    from "1.prems" obtain b where b: "rd p i 6 = Inr b"
      by (subst (asm) find_magic.simps) (auto simp: False)
    show ?thesis
    proof (cases "b = newc_magic")
      case True
      with "1.prems" b False rd_eq_InrD [OF b] show ?thesis
        by (simp add: find_magic.simps [of p i])
    next
      case other: False
      with "1.prems" b False have "find_magic p (Suc i) lim = Inr (Some j)"
        by (simp add: find_magic.simps [of p i])
      with "1.IH" [OF False b] other show ?thesis by auto
    qed
  qed
qed

lemma find_magic_safe:
  "lim + 6 \<le> length p \<or> lim < i \<Longrightarrow> \<exists>r. find_magic p i lim = Inr r"
proof (induction p i lim rule: find_magic.induct)
  case (1 p i lim)
  show ?case
  proof (cases "lim < i")
    case True
    then show ?thesis by (simp add: find_magic.simps)
  next
    case False
    with "1.prems" have r: "rd p i 6 = Inr (view i 6 p)"
      by simp
    show ?thesis
      using "1.IH" [OF False r] "1.prems" False
      by (cases "view i 6 p = newc_magic") (auto simp: find_magic.simps [of p i] r)
  qed
qed

lemma find_magic_beyond: "lim < i \<Longrightarrow> find_magic p i lim = Inr None"
  by (simp add: find_magic.simps)

lemma find_magic_hit:
  "i \<le> lim \<Longrightarrow> i + 6 \<le> length p \<Longrightarrow> view i 6 p = newc_magic \<Longrightarrow> find_magic p i lim = Inr (Some i)"
  by (simp add: find_magic.simps)

lemma load_member_Next:
  assumes "load_member p off h es = Inr (Next off' es')"
  shows "off + newc_size \<le> off'"
proof -
  define n where "n = unat (parse_hex8 (h_namesize h))"
  have 1: "off + newc_size \<le> align4_size (off + newc_size + n)"
    using align4_size_ge [of "off + newc_size + n"] by simp
  then have 2: "off + newc_size \<le> align4_size (align4_size (off + newc_size + n) + m)" for m
    using align4_size_ge [of "align4_size (off + newc_size + n) + m"] by simp
  from assms 1 2 show ?thesis
    unfolding load_member_def
    by (auto simp: Let_def n_def [symmetric] split: if_splits option.splits
        dest!: find_magic_Some)
qed

lemma load_round_Next:
  assumes "load_round p off es = Inr (Next off' es')"
  shows "off < off' \<and> off + newc_size \<le> length p"
proof -
  from assms obtain b where b: "rd p off newc_size = Inr b"
    by (auto simp: load_round_def)
  note room = rd_eq_InrD [OF b]
  define h where "h = newc_of_bytes b"
  have magic: "h_magic h = view off 6 p"
    using room by (simp add: h_def newc_of_bytes_def newc_size_def view_def min_def)
  have eq: "load_round p off es = (if h_magic h \<noteq> newc_magic then
            if off = 0 \<and> 6 \<le> length p then
              bindR (find_magic p 0
                  (if length p - 6 \<le> kInitialSearchLimit then length p - 6 else kInitialSearchLimit))
                (\<lambda>r. case r of Some i \<Rightarrow> Inr (Next i es) | None \<Rightarrow> Inr (Stop False es))
            else Inr (Stop False es)
          else load_member p off h es)"
    by (simp add: load_round_def b h_def Let_def)
  show ?thesis
  proof (cases "h_magic h = newc_magic")
    case True
    with assms eq have "load_member p off h es = Inr (Next off' es')" by simp
    from load_member_Next [OF this] room show ?thesis
      by (simp add: newc_size_def)
  next
    case False
    with assms eq have "off = 0" "view off' 6 p = newc_magic"
      by (auto split: if_splits option.splits dest!: find_magic_Some)
    with False magic have "off' \<noteq> 0" by (cases off') auto
    with room \<open>off = 0\<close> show ?thesis by simp
  qed
qed

function load_loop :: "bytes \<Rightarrow> nat \<Rightarrow> archive \<Rightarrow> (bool \<times> archive) result" where
  "load_loop p off es =
     (if length p < off + newc_size then Inr (True, es)
      else bindR (load_round p off es) (\<lambda>s.
        case s of Stop ok es' \<Rightarrow> Inr (ok, es') | Next off' es' \<Rightarrow> load_loop p off' es'))"
  by pat_completeness auto
termination
  by (relation "measure (\<lambda>(p, off, es). length p - off)")
    (auto dest!: load_round_Next simp: newc_size_def)

declare load_loop.simps [simp del]

definition kLz4LegacyMagic :: bytes where
  "kLz4LegacyMagic = [0x02, 0x21, 0x4c, 0x18]"

definition load_data :: "bytes \<Rightarrow> (bool \<times> archive) result" where
  "load_data p =
     (if 4 \<le> length p \<and> match_at p 0 kLz4LegacyMagic then Inr (False, [])
      else load_loop p 0 [])"

definition load :: "world \<Rightarrow> string \<Rightarrow> (bool \<times> archive) result" where
  "load w path =
     (case sys_stat w path of
        NoEntry \<Rightarrow> Inr (True, [])
      | StatFailed \<Rightarrow> Inr (False, [])
      | Size n \<Rightarrow>
          if n = 0 then Inr (True, [])
          else (case mmap_data w path of
                  None \<Rightarrow> Inr (False, [])
                | Some p \<Rightarrow> load_data p))"

section \<open>Dumping\<close>

definition trailer_entry :: cpio_entry where
  "trailer_entry = empty_entry\<lparr>mode := S_IFREG\<rparr>"

fun dump_entries :: "u32 \<Rightarrow> archive \<Rightarrow> ofd \<Rightarrow> bool \<times> ofd" where
  "dump_entries ino [] f = write_entry kTrailer ino trailer_entry f"
| "dump_entries ino (e # es) f =
     (let (ok, f') = write_entry (fst e) ino (snd e) f
      in if ok then dump_entries (ino + 1) es f' else (False, f'))"

definition dump :: "world \<Rightarrow> string \<Rightarrow> archive \<Rightarrow> bool \<times> world" where
  "dump w path es =
     (case open_trunc w path of
        None \<Rightarrow> (False, w)
      | Some f \<Rightarrow> let (ok, f') = dump_entries 1 es f in (ok, close_file w path f'))"

section \<open>Operations\<close>

definition exists :: "archive \<Rightarrow> string \<Rightarrow> bool" where
  "exists es path \<longleftrightarrow> smap_find es (normalize_path path) \<noteq> None"

definition test :: "archive \<Rightarrow> int" where
  "test es =
     (if exists es ''init.magisk.rc'' \<or> exists es ''.backup/.magisk''
         \<or> exists es ''overlay.d/sbin/magisk32.xz'' \<or> exists es ''overlay.d/sbin/magisk64.xz'' then 1
      else if exists es ''sbin/launch_daemonsu.sh'' \<or> exists es ''init.xposed.rc'' then 2
      else 0)"

definition add :: "world \<Rightarrow> u32 \<Rightarrow> string \<Rightarrow> string \<Rightarrow> archive \<Rightarrow> bool \<times> archive" where
  "add w md cpio_path src_file es =
     (case read_file w src_file of
        None \<Rightarrow> (False, es)
      | Some d \<Rightarrow>
          (True, smap_assign (normalize_path cpio_path)
             (empty_entry\<lparr>mode := (md AND 0xFFF) OR S_IFREG, uid := 0, gid := 0, data := d\<rparr>) es))"

definition mkdir :: "u32 \<Rightarrow> string \<Rightarrow> archive \<Rightarrow> bool \<times> archive" where
  "mkdir md path es =
     (True, smap_assign (normalize_path path)
        (empty_entry\<lparr>mode := (md AND 0xFFF) OR S_IFDIR, uid := 0, gid := 0, data := []\<rparr>) es)"

definition rm :: "string \<Rightarrow> archive \<Rightarrow> bool \<times> archive" where
  "rm path es =
     (smap_find es (normalize_path path) \<noteq> None, smap_erase (normalize_path path) es)"

definition mv :: "string \<Rightarrow> string \<Rightarrow> archive \<Rightarrow> bool \<times> archive" where
  "mv from_path to_path es =
     (let from_norm = normalize_path from_path; to_norm = normalize_path to_path
      in case smap_find es from_norm of
           None \<Rightarrow> (False, es)
         | Some e \<Rightarrow> (True, smap_erase from_norm (smap_assign to_norm e es)))"

end
