(* ===== verification/CpioCorrect.thy ===== *)
theory CpioCorrect
  imports CpioArchive
begin

text \<open>
  Correctness of the archive: the loader is memory safe and always returns, every archive it
  builds is in key order with normalised names, the dumper writes exactly the bytes of the
  archive whatever the kernel does with each write, and loading the bytes of an archive gives
  the archive back.
\<close>

section \<open>The loader reads inside its mapping\<close>

lemma load_member_safe: "\<exists>s. load_member p off h es = Inr s"
proof -
  define n where "n = unat (parse_hex8 (h_namesize h))"
  define lim where "lim = (if 6 \<le> length p then length p - 6 else 0)"
  show ?thesis
  proof (cases "n = 0 \<or> length p < off + newc_size + n")
    case True
    then show ?thesis by (auto simp: load_member_def Let_def n_def)
  next
    case False
    then have r: "rd p (off + newc_size) (n - 1) = Inr (view (off + newc_size) (n - 1) p)"
      by (intro rd_inside) linarith
    have "6 \<le> length p"
      using False by (simp add: newc_size_def)
    then obtain m where m: "find_magic p (align4_size (off + newc_size + n)) lim = Inr m"
      using find_magic_safe [of lim p] by (auto simp: lim_def)
    from False r m show ?thesis
      unfolding load_member_def Let_def n_def [symmetric] lim_def [symmetric]
      by (auto split: option.splits)
  qed
qed

lemma load_round_safe:
  assumes "off + newc_size \<le> length p"
  shows "\<exists>s. load_round p off es = Inr s"
proof -
  define lim where "lim = (if length p - 6 \<le> kInitialSearchLimit then length p - 6 else kInitialSearchLimit)"
  have "6 \<le> length p"
    using assms by (simp add: newc_size_def)
  then have "lim + 6 \<le> length p"
    by (simp add: lim_def) arith
  then obtain m where "find_magic p 0 lim = Inr m"
    using find_magic_safe by blast
  moreover from assms obtain b where "rd p off newc_size = Inr b"
    by simp
  ultimately show ?thesis
    unfolding load_round_def Let_def lim_def [symmetric]
    using load_member_safe by (auto split: option.splits)
qed

lemma load_loop_safe: "\<exists>ok es'. load_loop p off es = Inr (ok, es')"
proof (induction p off es rule: load_loop.induct)
  case (1 p off es)
  show ?case
  proof (cases "length p < off + newc_size")
    case True
    then have "load_loop p off es = Inr (True, es)" by (simp add: load_loop.simps)
    then show ?thesis by blast
  next
    case False
    then obtain s where s: "load_round p off es = Inr s"
      using load_round_safe [of off p es] by auto
    show ?thesis
      using "1.IH" [OF False s] False s
      by (cases s) (auto simp: load_loop.simps [of p off es])
  qed
qed

lemma load_data_safe: "\<exists>ok es. load_data p = Inr (ok, es)"
  using load_loop_safe [of p 0 "[]"] by (auto simp: load_data_def)

lemma load_safe: "\<exists>ok es. load w path = Inr (ok, es)"
  using load_data_safe by (auto simp: load_def split: stat_result.splits option.splits)

section \<open>The archive invariant\<close>

definition archive_inv :: "archive \<Rightarrow> bool" where
  "archive_inv es \<longleftrightarrow> smap_inv es \<and> (\<forall>n \<in> fst ` set es. normal n)"

lemma archive_inv_Nil [simp]: "archive_inv []"
  by (simp add: archive_inv_def)

lemma archive_inv_smap: "archive_inv es \<Longrightarrow> smap_inv es"
  by (simp add: archive_inv_def)

lemma archive_inv_assign: "archive_inv es \<Longrightarrow> archive_inv (smap_assign (normalize_path n) e es)"
  by (auto simp: archive_inv_def smap.inv_assign fst_set_assign)

lemma archive_inv_erase: "archive_inv es \<Longrightarrow> archive_inv (smap_erase n es)"
  using fst_set_erase [of n es] unfolding archive_inv_def by (blast intro: smap.inv_erase)

lemma archive_inv_member:
  "load_member p off h es = Inr s \<Longrightarrow> archive_inv es \<Longrightarrow>
     (case s of Stop ok es' \<Rightarrow> archive_inv es' | Next off' es' \<Rightarrow> archive_inv es')"
  unfolding load_member_def Let_def
  by (auto split: if_splits option.splits intro: archive_inv_assign)

lemma archive_inv_round:
  "load_round p off es = Inr s \<Longrightarrow> archive_inv es \<Longrightarrow>
     (case s of Stop ok es' \<Rightarrow> archive_inv es' | Next off' es' \<Rightarrow> archive_inv es')"
  unfolding load_round_def Let_def
  by (auto split: if_splits option.splits dest!: archive_inv_member)

lemma archive_inv_loop:
  "load_loop p off es = Inr (ok, es') \<Longrightarrow> archive_inv es \<Longrightarrow> archive_inv es'"
proof (induction p off es rule: load_loop.induct)
  case (1 p off es)
  show ?case
  proof (cases "length p < off + newc_size")
    case True
    with "1.prems" show ?thesis by (simp add: load_loop.simps)
  next
    case False
    with "1.prems"(1) obtain s where s: "load_round p off es = Inr s"
      by (subst (asm) load_loop.simps) auto
    from archive_inv_round [OF s "1.prems"(2)] "1.IH" [OF False s] "1.prems"(1) False s
    show ?thesis
      by (cases s) (auto simp: load_loop.simps [of p off es])
  qed
qed

lemma archive_inv_load_data: "load_data p = Inr (ok, es) \<Longrightarrow> archive_inv es"
  by (auto simp: load_data_def split: if_splits dest: archive_inv_loop)

lemma archive_inv_load: "load w path = Inr (ok, es) \<Longrightarrow> archive_inv es"
  by (auto simp: load_def split: stat_result.splits if_splits option.splits
      dest: archive_inv_load_data)

section \<open>The dumper writes the archive's bytes\<close>

fun archive_chunks :: "u32 \<Rightarrow> archive \<Rightarrow> bytes list" where
  "archive_chunks ino [] = entry_chunks kTrailer ino trailer_entry"
| "archive_chunks ino (e # es) = entry_chunks (fst e) ino (snd e) @ archive_chunks (ino + 1) es"

fun archive_bytes :: "u32 \<Rightarrow> archive \<Rightarrow> bytes" where
  "archive_bytes ino [] = entry_bytes kTrailer ino trailer_entry"
| "archive_bytes ino (e # es) = entry_bytes (fst e) ino (snd e) @ archive_bytes (ino + 1) es"

lemma seq_puts_append:
  "seq_puts put (bs @ cs) s =
     (let (ok, s') = seq_puts put bs s in if ok then seq_puts put cs s' else (False, s'))"
  by (induction bs arbitrary: s) (auto simp: Let_def split: prod.splits)

lemma dump_entries_chunks: "dump_entries ino es f = seq_puts write_all (archive_chunks ino es) f"
  by (induction es arbitrary: ino f)
    (simp_all add: write_entry_def seq_puts_append cong: if_cong)

lemma concat_archive_chunks: "concat (archive_chunks ino es) = archive_bytes ino es"
  by (induction es arbitrary: ino) (simp_all add: entry_bytes_def)

lemma dump_entries_progressing:
  "progressing f \<Longrightarrow>
     fst (dump_entries ino es f) \<and>
     fd_data (snd (dump_entries ino es f)) = fd_data f @ archive_bytes ino es"
  using progressing_fd.seq_succeeds [of f] progressing_fd.seq_appends [of f]
  by (simp add: dump_entries_chunks concat_archive_chunks)

lemma dump_entries_success:
  "appending f \<Longrightarrow> fst (dump_entries ino es f) \<Longrightarrow>
     fd_data (snd (dump_entries ino es f)) = fd_data f @ archive_bytes ino es"
  using appending_fd.seq_complete [of f] by (simp add: dump_entries_chunks concat_archive_chunks)

lemma dump_entries_prefix:
  "appending f \<Longrightarrow> \<exists>k \<le> length (archive_bytes ino es).
     fd_data (snd (dump_entries ino es f)) = fd_data f @ take k (archive_bytes ino es)"
  using appending_fd.seq_prefix [of f "archive_chunks ino es"]
  by (simp add: dump_entries_chunks concat_archive_chunks)

section \<open>Loading what was dumped\<close>

text \<open>The members a \<open>newc\<close> archive can hold, and the loader keep under their names.\<close>

definition storable :: "string \<times> cpio_entry \<Rightarrow> bool" where
  "storable ne \<longleftrightarrow> normal (fst ne) \<and> fst ne \<noteq> ''..'' \<and> fst ne \<noteq> kTrailer \<and>
     length (fst ne) + 1 < 2 ^ 32 \<and> length (data (snd ne)) < 2 ^ 32"

lemma entry_of_entry_header:
  "entry_of_header (entry_header n i e) (data e) = e"
  by (simp add: entry_of_header_def entry_header_def)

lemma rd_middle:
  assumes "off = length pre" "n = length mid"
  shows "rd (pre @ mid @ post) off n = Inr mid"
  using assms by (simp add: view_append_at)

lemma namesize_entry_header:
  "length n + 1 < 2 ^ 32 \<Longrightarrow> unat (parse_hex8 (h_namesize (entry_header n i e))) = length n + 1"
  by (simp add: entry_header_def unat_of_nat del: of_nat_Suc of_nat_add)

lemma filesize_entry_header:
  "length (data e) < 2 ^ 32 \<Longrightarrow> unat (parse_hex8 (h_filesize (entry_header n i e))) = length (data e)"
  by (simp add: entry_header_def unat_of_nat)

lemma load_round_header:
  assumes "p = pre @ entry_bytes n i e @ post"
  shows "load_round p (length pre) es = load_member p (length pre) (entry_header n i e) es"
proof -
  let ?h = "entry_header n i e"
  have "rd p (length pre) newc_size = Inr (bytes_of_newc ?h)"
    unfolding assms entry_bytes_eq append_assoc
    by (rule rd_middle) (simp_all add: length_bytes_of_newc)
  moreover have "h_magic ?h = newc_magic"
    by (simp add: entry_header_def)
  ultimately show ?thesis
    by (simp add: load_round_def newc_of_bytes_of_newc)
qed

text \<open>The loader at the start of a member's bytes, up to the decision on the name.\<close>

lemma load_member_name:
  fixes n i e pre post
  assumes p: "p = pre @ entry_bytes n i e @ post" and al: "4 dvd length pre"
    and len: "length n + 1 < 2 ^ 32"
  defines "off2 \<equiv> length pre + align4_size (newc_size + length n + 1)"
  shows "load_member p (length pre) (entry_header n i e) es =
     (if n = ''.'' \<or> n = ''..'' then Inr (Next off2 es)
      else if n = kTrailer then
        bindR (find_magic p off2 (if 6 \<le> length p then length p - 6 else 0)) (\<lambda>r.
          case r of Some i \<Rightarrow> Inr (Next i es) | None \<Rightarrow> Inr (Stop True es))
      else
        let filesize = unat (parse_hex8 (h_filesize (entry_header n i e)))
        in if length p < off2 + filesize then Inr (Stop False es)
           else bindR (rd p off2 filesize) (\<lambda>d.
             Inr (Next (align4_size (off2 + filesize))
               (smap_assign (normalize_path n) (entry_of_header (entry_header n i e) d) es))))"
proof -
  define rest where "rest = [0] @
     replicate (align4_size (newc_size + length n + 1) - (newc_size + length n + 1)) 0 @
     data e @ replicate (align4_size (length (data e)) - length (data e)) 0 @ post"
  have p': "p = (pre @ bytes_of_newc (entry_header n i e)) @ str n @ rest"
    by (simp add: p entry_bytes_eq rest_def)
  have name: "rd p (length pre + newc_size) (length n + 1 - 1) = Inr (str n)"
    unfolding p' by (rule rd_middle) (simp_all add: length_bytes_of_newc)
  have room: "\<not> length p < length pre + newc_size + (length n + 1)"
    unfolding p by (simp add: length_entry_bytes)
      (use align4_size_ge [of "newc_size + length n + 1"] in simp)
  have off2: "align4_size (length pre + newc_size + (length n + 1)) = off2"
    using align4_size_add [OF al, of "newc_size + length n + 1"] by (simp add: off2_def add.assoc)
  show ?thesis
    unfolding load_member_def Let_def namesize_entry_header [OF len] name off2 bindR_Inr chars_str
    using room by simp
qed

lemma load_round_member:
  assumes p: "p = pre @ entry_bytes n i e @ post" and al: "4 dvd length pre" and st: "storable (n, e)"
  shows "load_round p (length pre) es = Inr (Next (length (pre @ entry_bytes n i e)) (smap_assign n e es))"
proof -
  define off2 where "off2 = length pre + align4_size (newc_size + length n + 1)"
  define head where "head = pre @ bytes_of_newc (entry_header n i e) @ str n @ [0] @
     replicate (align4_size (newc_size + length n + 1) - (newc_size + length n + 1)) 0"
  define tail where "tail = replicate (align4_size (length (data e)) - length (data e)) 0 @ post"
  have p': "p = head @ data e @ tail"
    by (simp add: p entry_bytes_eq head_def tail_def)
  have head: "length head = off2"
    using align4_size_ge [of "newc_size + length n + 1"]
    by (simp add: head_def off2_def length_bytes_of_newc)
  have body: "rd p off2 (length (data e)) = Inr (data e)"
    unfolding p' by (rule rd_middle) (simp_all add: head)
  have room: "\<not> length p < off2 + length (data e)"
    by (simp add: p' head)
  have off3: "align4_size (off2 + length (data e)) = length (pre @ entry_bytes n i e)"
    using al by (simp add: align4_size_add off2_def length_entry_bytes)
  from st have n: "n \<noteq> ''.''" "n \<noteq> ''..''" "n \<noteq> kTrailer" "normalize_path n = n"
    "length n + 1 < 2 ^ 32" "length (data e) < 2 ^ 32"
    using not_normal_dot by (auto simp: storable_def normal_def)
  show ?thesis
    unfolding load_round_header [OF p] load_member_name [OF p al n(5)] off2_def [symmetric]
      filesize_entry_header [OF n(6)] Let_def body bindR_Inr off3 entry_of_entry_header n(4)
    using room n by simp
qed

lemma load_round_trailer:
  assumes p: "p = pre @ entry_bytes kTrailer i trailer_entry" and al: "4 dvd length pre"
  shows "load_round p (length pre) es = Inr (Stop True es)"
proof -
  have len: "length p = length pre + align4_size (newc_size + length kTrailer + 1)"
    by (simp add: p length_entry_bytes trailer_entry_def empty_entry_def align4_size_def)
  have k: "length kTrailer + 1 < 2 ^ 32"
    by (simp add: kTrailer_def)
  have p': "p = pre @ entry_bytes kTrailer i trailer_entry @ []"
    by (simp add: p)
  have "find_magic p (length p) (if 6 \<le> length p then length p - 6 else 0) = Inr None"
    by (rule find_magic_beyond) (simp add: len newc_size_def align4_size_def kTrailer_def)
  then show ?thesis
    unfolding load_round_header [OF p'] load_member_name [OF p' al k] len [symmetric]
    by (simp add: kTrailer_def)
qed

lemma load_loop_archive:
  assumes "\<forall>ne \<in> set es. storable ne" "4 dvd length pre"
  shows "load_loop (pre @ archive_bytes i es) (length pre) acc =
     Inr (True, fold (\<lambda>(k, v). smap_assign k v) es acc)"
  using assms
proof (induction es arbitrary: pre i acc)
  case Nil
  have "newc_size \<le> length (entry_bytes kTrailer i trailer_entry)"
    using align4_size_ge [of "newc_size + length kTrailer + 1"] by (simp add: length_entry_bytes)
  with Nil show ?case
    by (simp add: load_loop.simps [of _ "length pre"] load_round_trailer)
next
  case (Cons ne es)
  obtain n e where ne: "ne = (n, e)" by (cases ne)
  let ?p = "pre @ archive_bytes i (ne # es)"
  let ?pre' = "pre @ entry_bytes n i e"
  have p: "?p = pre @ entry_bytes n i e @ archive_bytes (i + 1) es"
    by (simp add: ne)
  have round: "load_round ?p (length pre) acc = Inr (Next (length ?pre') (smap_assign n e acc))"
    using load_round_member [OF p Cons.prems(2)] Cons.prems(1) by (simp add: ne)
  have "newc_size \<le> length (entry_bytes n i e)"
    using align4_size_ge [of "newc_size + length n + 1"] by (simp add: length_entry_bytes)
  then have "load_loop ?p (length pre) acc = load_loop ?p (length ?pre') (smap_assign n e acc)"
    unfolding load_loop.simps [of ?p "length pre"] round by (simp add: ne)
  also have "?p = ?pre' @ archive_bytes (i + 1) es"
    by (simp add: ne)
  also have "load_loop (?pre' @ archive_bytes (i + 1) es) (length ?pre') (smap_assign n e acc) =
      Inr (True, fold (\<lambda>(k, v). smap_assign k v) es (smap_assign n e acc))"
    using Cons.IH [of ?pre' "i + 1" "smap_assign n e acc"] Cons.prems by simp
  finally show ?case
    by (simp add: ne)
qed

lemma archive_bytes_start: "view 0 6 (archive_bytes i es) = newc_magic"
  by (cases es) (simp_all add: entry_bytes_eq bytes_of_newc_def entry_header_def view_def newc_magic_def)

lemma load_data_archive:
  assumes "archive_inv es" "\<forall>ne \<in> set es. storable ne"
  shows "load_data (archive_bytes i es) = Inr (True, es)"
proof -
  have "\<not> match_at (archive_bytes i es) 0 kLz4LegacyMagic"
  proof
    assume "match_at (archive_bytes i es) 0 kLz4LegacyMagic"
    moreover have "length kLz4LegacyMagic = 4"
      by (simp add: kLz4LegacyMagic_def)
    ultimately have "take 4 (view 0 6 (archive_bytes i es)) = kLz4LegacyMagic"
      by (simp add: match_at_def view_def)
    then show False
      by (simp add: archive_bytes_start newc_magic_def str_def kLz4LegacyMagic_def byte_of_char_def)
  qed
  with load_loop_archive [OF assms(2), of "[]" i "[]"] show ?thesis
    using smap.reload_entries [OF archive_inv_smap [OF assms(1)]] by (simp add: load_data_def)
qed

end
