(* ===== verification/CpioCommands.thy ===== *)
theory CpioCommands
  imports CpioCorrect
begin

text \<open>
  \<open>cpio_commands\<close>: load the archive, run the commands in order, write the archive back when
  a command changed it. A specification over finite maps states what each command does; the
  command interpreter refines it.
\<close>

section \<open>The interpreter\<close>

text \<open>One command either returns from the function or goes on with the archive and the dirty flag.\<close>

datatype 'a command_result = Return int | Go 'a bool

definition run_command :: "world \<Rightarrow> string \<Rightarrow> archive \<Rightarrow> bool \<Rightarrow> archive command_result" where
  "run_command w raw es dirty =
     (let tokens = split_ws raw
      in if tokens = [] then Go es dirty
         else let opn = tokens ! 0
         in if opn = ''test'' then Return (test es)
         else if opn = ''exists'' then
           if length tokens \<noteq> 2 then Return 1
           else Return (if exists es (tokens ! 1) then 0 else 1)
         else if opn = ''add'' then
           if length tokens \<noteq> 4 then Return 1
           else let (md, converted) = strtoul 8 (tokens ! 1);
                    (ok, es') = add w (of_nat md) (tokens ! 2) (tokens ! 3) es
                in if \<not> converted \<or> \<not> ok then Return 1 else Go es' True
         else if opn = ''mkdir'' then
           if length tokens \<noteq> 3 then Return 1
           else let (md, converted) = strtoul 8 (tokens ! 1);
                    (ok, es') = mkdir (of_nat md) (tokens ! 2) es
                in if \<not> converted \<or> \<not> ok then Return 1 else Go es' True
         else if opn = ''rm'' then
           if length tokens \<noteq> 2 then Return 1
           else let (_, es') = rm (tokens ! 1) es in Go es' True
         else if opn = ''mv'' then
           if length tokens \<noteq> 3 then Return 1
           else let (ok, es') = mv (tokens ! 1) (tokens ! 2) es
                in if \<not> ok then Return 1 else Go es' True
         else Return 1)"

fun run_commands :: "world \<Rightarrow> string list \<Rightarrow> archive \<Rightarrow> bool \<Rightarrow> archive command_result" where
  "run_commands w [] es dirty = Go es dirty"
| "run_commands w (raw # cmds) es dirty =
     (case run_command w raw es dirty of
        Return r \<Rightarrow> Return r
      | Go es' dirty' \<Rightarrow> run_commands w cmds es' dirty')"

definition cpio_commands :: "world \<Rightarrow> string \<Rightarrow> string list \<Rightarrow> (int \<times> world) result" where
  "cpio_commands w file cmds =
     bindR (load w file) (\<lambda>(ok, es).
       if \<not> ok then Inr (1, w)
       else case run_commands w cmds es False of
              Return r \<Rightarrow> Inr (r, w)
            | Go es' dirty \<Rightarrow>
                if dirty then let (ok', w') = dump w file es' in Inr (if ok' then 0 else 1, w')
                else Inr (0, w))"

section \<open>What the commands mean\<close>

text \<open>
  The contents of an archive as a finite map from normalised paths to entries, and each
  command on it. \<open>mv\<close> removes the source after storing the target, so that moving a path
  to itself removes it.
\<close>

type_synonym contents = "string \<rightharpoonup> cpio_entry"

definition file_entry :: "nat \<Rightarrow> bytes \<Rightarrow> cpio_entry" where
  "file_entry md d =
     empty_entry\<lparr>mode := (of_nat md AND 0xFFF) OR S_IFREG, data := d\<rparr>"

definition dir_entry :: "nat \<Rightarrow> cpio_entry" where
  "dir_entry md = empty_entry\<lparr>mode := (of_nat md AND 0xFFF) OR S_IFDIR\<rparr>"

definition present :: "contents \<Rightarrow> string \<Rightarrow> bool" where
  "present m path \<longleftrightarrow> m (normalize_path path) \<noteq> None"

definition patch_state :: "contents \<Rightarrow> int" where
  "patch_state m =
     (if list_ex (present m) [''init.magisk.rc'', ''.backup/.magisk'',
           ''overlay.d/sbin/magisk32.xz'', ''overlay.d/sbin/magisk64.xz''] then 1
      else if list_ex (present m) [''sbin/launch_daemonsu.sh'', ''init.xposed.rc''] then 2
      else 0)"

fun spec_command :: "world \<Rightarrow> string list \<Rightarrow> contents \<Rightarrow> bool \<Rightarrow> contents command_result" where
  "spec_command w [] m d = Go m d"
| "spec_command w (opn # args) m d =
     (if opn = ''test'' then Return (patch_state m)
      else if opn = ''exists'' then
        (case args of [p] \<Rightarrow> Return (if present m p then 0 else 1) | _ \<Rightarrow> Return 1)
      else if opn = ''add'' then
        (case args of
           [md, p, src] \<Rightarrow>
             (case read_file w src of
                None \<Rightarrow> Return 1
              | Some bs \<Rightarrow>
                  if snd (strtoul 8 md)
                  then Go (m(normalize_path p \<mapsto> file_entry (fst (strtoul 8 md)) bs)) True
                  else Return 1)
         | _ \<Rightarrow> Return 1)
      else if opn = ''mkdir'' then
        (case args of
           [md, p] \<Rightarrow>
             if snd (strtoul 8 md)
             then Go (m(normalize_path p \<mapsto> dir_entry (fst (strtoul 8 md)))) True
             else Return 1
         | _ \<Rightarrow> Return 1)
      else if opn = ''rm'' then
        (case args of [p] \<Rightarrow> Go (m(normalize_path p := None)) True | _ \<Rightarrow> Return 1)
      else if opn = ''mv'' then
        (case args of
           [a, b] \<Rightarrow>
             (case m (normalize_path a) of
                None \<Rightarrow> Return 1
              | Some e \<Rightarrow> Go (m(normalize_path b \<mapsto> e, normalize_path a := None)) True)
         | _ \<Rightarrow> Return 1)
      else Return 1)"

fun spec_commands :: "world \<Rightarrow> string list \<Rightarrow> contents \<Rightarrow> bool \<Rightarrow> contents command_result" where
  "spec_commands w [] m d = Go m d"
| "spec_commands w (raw # cmds) m d =
     (case spec_command w (split_ws raw) m d of
        Return r \<Rightarrow> Return r
      | Go m' d' \<Rightarrow> spec_commands w cmds m' d')"

definition abs_result :: "archive command_result \<Rightarrow> contents command_result" where
  "abs_result r = (case r of Return i \<Rightarrow> Return i | Go es d \<Rightarrow> Go (smap_find es) d)"

lemma abs_result_simps [simp]:
  "abs_result (Return i) = Return i"
  "abs_result (Go es d) = Go (smap_find es) d"
  by (simp_all add: abs_result_def)

lemma test_patch_state: "test es = patch_state (smap_find es)"
  by (simp add: test_def patch_state_def exists_def present_def)

lemma add_spec:
  "add w (of_nat md) p src es =
     (case read_file w src of
        None \<Rightarrow> (False, es)
      | Some d \<Rightarrow> (True, smap_assign (normalize_path p) (file_entry md d) es))"
  by (simp add: add_def file_entry_def empty_entry_def split: option.splits)

lemma mkdir_spec: "mkdir (of_nat md) p es = (True, smap_assign (normalize_path p) (dir_entry md) es)"
  by (simp add: mkdir_def dir_entry_def empty_entry_def)

lemma length_tokens:
  "length (x # xs) = 2 \<longleftrightarrow> (\<exists>a. xs = [a])"
  "length (x # xs) = 3 \<longleftrightarrow> (\<exists>a b. xs = [a, b])"
  "length (x # xs) = 4 \<longleftrightarrow> (\<exists>a b c. xs = [a, b, c])"
  by (auto simp: numeral_eq_Suc length_Suc_conv)

lemma run_command_refines:
  assumes "smap_inv es"
  shows "abs_result (run_command w raw es d) = spec_command w (split_ws raw) (smap_find es) d"
proof (cases "split_ws raw")
  case Nil
  then show ?thesis by (simp add: run_command_def)
next
  case (Cons opn args)
  show ?thesis
  proof (cases "opn \<in> {''exists'', ''add'', ''mkdir'', ''rm'', ''mv''}")
    case False
    with Cons show ?thesis
      by (auto simp: run_command_def Let_def test_patch_state)
  next
    case True
    with Cons assms show ?thesis
      unfolding run_command_def Let_def
      by (auto simp: add_spec mkdir_spec rm_def mv_def Let_def exists_def present_def
          smap.find_assign smap.find_erase smap.inv_assign length_tokens
          split: prod.splits option.splits list.splits if_splits)
  qed
qed

text \<open>Running commands keeps the archive invariant.\<close>

lemma run_command_inv:
  "run_command w raw es d = Go es' d' \<Longrightarrow> archive_inv es \<Longrightarrow> archive_inv es'"
  unfolding run_command_def Let_def
  by (auto simp: add_def mkdir_def rm_def mv_def Let_def
      intro: archive_inv_assign archive_inv_erase
      split: prod.splits option.splits if_splits)

lemma run_commands_inv:
  "run_commands w cmds es d = Go es' d' \<Longrightarrow> archive_inv es \<Longrightarrow> archive_inv es'"
  by (induction cmds arbitrary: es d)
    (auto split: command_result.splits dest: run_command_inv)

lemma run_commands_refines:
  "archive_inv es \<Longrightarrow> abs_result (run_commands w cmds es d) = spec_commands w cmds (smap_find es) d"
proof (induction cmds arbitrary: es d)
  case Nil
  then show ?case by simp
next
  case (Cons raw cmds)
  note one = run_command_refines [OF archive_inv_smap [OF Cons.prems], of w raw d]
  show ?case
  proof (cases "run_command w raw es d")
    case (Return r)
    with one show ?thesis by (simp flip: one)
  next
    case (Go es' d')
    with one Cons.IH [OF run_command_inv [OF Go Cons.prems]] show ?thesis
      by (simp flip: one)
  qed
qed

text \<open>Only commands that change the archive set the dirty flag; it is never cleared.\<close>

lemma run_command_dirty:
  "run_command w raw es d = Go es' d' \<Longrightarrow> (d \<longrightarrow> d') \<and> (\<not> d' \<longrightarrow> es' = es)"
  unfolding run_command_def Let_def
  by (auto split: prod.splits if_splits)

lemma run_commands_dirty:
  "run_commands w cmds es d = Go es' d' \<Longrightarrow> (d \<longrightarrow> d') \<and> (\<not> d' \<longrightarrow> es' = es)"
  by (induction cmds arbitrary: es d)
    (auto split: command_result.splits dest: run_command_dirty)

section \<open>Whole runs\<close>

lemma load_world_archive:
  assumes "willing w" "files w path = Some (archive_bytes i es)"
    "archive_inv es" "\<forall>ne \<in> set es. storable ne"
  shows "load w path = Inr (True, es)"
proof -
  have "archive_bytes i es \<noteq> []"
    using archive_bytes_start [of i es] by (auto simp: newc_magic_def view_def str_def)
  with assms load_data_archive [OF assms(3,4)] show ?thesis
    by (simp add: load_def sys_stat_def mmap_data_def read_file_def willing_def)
qed

lemma dump_world:
  assumes "willing w"
  shows "\<exists>w'. dump w path es = (True, w') \<and> files w' = (files w)(path \<mapsto> archive_bytes 1 es)
     \<and> willing w'"
proof -
  obtain f where f: "open_trunc w path = Some f"
    using assms by (auto simp: open_trunc_def willing_def)
  have ans: "\<forall>a \<in> set (answers w). 0 < a"
    using assms by (simp add: willing_def)
  note pr = open_trunc_progressing [OF f ans]
  obtain ok f' where d: "dump_entries 1 es f = (ok, f')"
    by (cases "dump_entries 1 es f")
  have "ok" "fd_data f' = archive_bytes 1 es"
    using dump_entries_progressing [of f 1 es] pr d by auto
  moreover have "progressing f'"
    using progressing_fd.seq_inv [of f "archive_chunks 1 es"] pr d by (simp add: dump_entries_chunks)
  ultimately show ?thesis
    using assms by (simp add: dump_def f d willing_def progressing_def)
qed

end
