(* ===== verification/ClaimsCpio.thy ===== *)
theory ClaimsCpio
  imports CpioCommands
begin

text \<open>
  What the cpio editor promises: the archive it writes is the archive it reads back, whatever
  the kernel's write schedule; loading any file is memory safe; a series of commands acts on the
  archive as the same series of map updates; nothing is written unless a command changed
  something and all of them succeeded.
\<close>

section \<open>Sample values\<close>

text \<open>A file system without failures, whose first write takes 3 bytes, and a small archive.\<close>

definition sample_world :: world where
  "sample_world = \<lparr>files = [''src'' \<mapsto> [1, 2, 3]], dirs = (\<lambda>_. False), no_stat = (\<lambda>_. False),
     no_open = (\<lambda>_. False), no_creat = (\<lambda>_. False), no_mmap = (\<lambda>_. False), no_mkdir = (\<lambda>_. False), answers = [3]\<rparr>"

definition sample_entry :: cpio_entry where
  "sample_entry = empty_entry\<lparr>mode := S_IFREG, data := [7, 8]\<rparr>"

definition sample_archive :: archive where
  "sample_archive = [(''etc/rc'', sample_entry), (''init'', sample_entry)]"

lemma willing_sample: "willing sample_world"
  by (simp add: willing_def sample_world_def)

lemma normal_sample: "normal ''etc/rc''" "normal ''init''"
  by (simp_all add: normal_def normalize_path_def keep_seg_def)

lemma sample_archive_inv: "archive_inv sample_archive"
  by (simp add: archive_inv_def sample_archive_def normal_sample)

lemma sample_archive_storable: "\<forall>ne \<in> set sample_archive. storable ne"
  by (simp add: sample_archive_def storable_def normal_sample kTrailer_def sample_entry_def)

section \<open>Writing and reading back\<close>

lemma dump_load:
  assumes "willing w" "archive_inv es" "\<forall>ne \<in> set es. storable ne"
  shows "\<exists>w'. dump w path es = (True, w') \<and> willing w' \<and> load w' path = Inr (True, es) \<and>
    files w' = (files w)(path \<mapsto> archive_bytes 1 es)"
proof -
  obtain w' where w': "dump w path es = (True, w')" "willing w'"
    "files w' = (files w)(path \<mapsto> archive_bytes 1 es)"
    using dump_world [OF assms(1)] by blast
  have "load w' path = Inr (True, es)"
    by (rule load_world_archive [of w' path 1 es]) (simp_all add: w' assms)
  with w' show ?thesis by blast
qed

text \<open>
  C4: \<open>CpioArchive::dump\<close> followed by \<open>CpioArchive::load\<close> of the same path gives back exactly the
  archive, on a file system that creates and maps the file and whose writes all make progress,
  however short, for every archive whose member names are normalized, are not \<open>..\<close> nor the
  trailer name, and whose names and contents have 32-bit lengths.
\<close>

theorem dump_then_load:
  assumes "willing w" "archive_inv es" "\<forall>ne \<in> set es. storable ne"
  shows "\<exists>w'. dump w path es = (True, w') \<and> load w' path = Inr (True, es)"
  using dump_load [OF assms] by blast

theorem dump_then_load_witness:
  "\<exists>w'. dump sample_world ''ramdisk.cpio'' sample_archive = (True, w') \<and>
     load w' ''ramdisk.cpio'' = Inr (True, sample_archive)"
  by (rule dump_then_load [OF willing_sample sample_archive_inv sample_archive_storable])

text \<open>
  Whatever the kernel answers to each write (short counts, errors), \<open>dump\<close> leaves in the file
  a prefix of the archive's byte image and nothing else, and the whole image when it reports
  success; no other file changes.
\<close>

theorem dump_writes_prefix:
  assumes "dump w path es = (ok, w')" "\<not> no_creat w path"
  shows "\<exists>k \<le> length (archive_bytes 1 es).
    files w' = (files w)(path \<mapsto> take k (archive_bytes 1 es)) \<and>
    (ok \<longrightarrow> k = length (archive_bytes 1 es))"
proof -
  obtain f where f: "open_trunc w path = Some f"
    using assms(2) by (simp add: open_trunc_def)
  note fresh = open_trunc_appending [OF f]
  obtain f' where d: "dump_entries 1 es f = (ok, f')" and w': "w' = close_file w path f'"
    using assms(1) f by (auto simp: dump_def split: prod.splits)
  obtain k where k: "k \<le> length (archive_bytes 1 es)" "fd_data f' = take k (archive_bytes 1 es)"
    using dump_entries_prefix [of f 1 es] fresh d by auto
  show ?thesis
  proof (cases ok)
    case True
    with dump_entries_success [of f 1 es] fresh d have "fd_data f' = archive_bytes 1 es" by auto
    with w' show ?thesis by (intro exI [of _ "length (archive_bytes 1 es)"]) simp
  next
    case False
    with k w' show ?thesis by (intro exI [of _ k]) simp
  qed
qed

theorem dump_writes_prefix_witness:
  "\<exists>k \<le> length (archive_bytes 1 sample_archive).
    files (snd (dump sample_world ''out'' sample_archive)) =
      (files sample_world)(''out'' \<mapsto> take k (archive_bytes 1 sample_archive)) \<and>
    (fst (dump sample_world ''out'' sample_archive) \<longrightarrow> k = length (archive_bytes 1 sample_archive))"
  by (rule dump_writes_prefix) (simp_all add: sample_world_def)

text \<open>
  \<open>write_entry\<close> emits one \<open>newc\<close> member: the 110-byte header, the name with its NUL, zeros up
  to a multiple of 4, the contents, zeros up to a multiple of 4; so from an aligned start the
  next member starts aligned, and no padding run is longer than 3 bytes.
\<close>

theorem write_entry_layout:
  assumes "progressing f"
  shows "\<exists>f' p q. write_entry n i e f = (True, f') \<and>
    fd_data f' = fd_data f @ bytes_of_newc (entry_header n i e) @ str n @ [0] @ replicate p 0 @
      data e @ replicate q 0 \<and>
    p \<le> 3 \<and> q \<le> 3 \<and> 4 dvd newc_size + length n + 1 + p \<and> 4 dvd length (data e) + q"
proof -
  let ?p = "align4_size (newc_size + length n + 1) - (newc_size + length n + 1)"
  let ?q = "align4_size (length (data e)) - length (data e)"
  obtain f' where f': "write_entry n i e f = (True, f')" "fd_data f' = fd_data f @ entry_bytes n i e"
    using progressing_fd.seq_succeeds [OF assms] progressing_fd.seq_appends [OF assms]
    by (metis write_entry_def entry_bytes_def prod.collapse)
  have "align4_size m - m \<le> 3 \<and> 4 dvd m + (align4_size m - m)" for m
    using align4_size_ge [of m] align4_size_less [of m] by simp
  from this [of "newc_size + length n + 1"] this [of "length (data e)"]
  have pq: "?p \<le> 3 \<and> 4 dvd newc_size + length n + 1 + ?p" "?q \<le> 3 \<and> 4 dvd length (data e) + ?q"
    by blast+
  show ?thesis
    by (rule exI [of _ f'], rule exI [of _ ?p], rule exI [of _ ?q])
      (use f' pq in \<open>simp add: entry_bytes_eq\<close>)
qed

definition sample_fd :: ofd where
  "sample_fd = \<lparr>fd_data = [], fd_pos = 0, fd_answers = [5], fd_bad = False\<rparr>"

theorem write_entry_layout_witness:
  "\<exists>f' p q. write_entry ''init'' 1 sample_entry sample_fd = (True, f') \<and>
    fd_data f' = fd_data sample_fd @ bytes_of_newc (entry_header ''init'' 1 sample_entry) @
      str ''init'' @ [0] @ replicate p 0 @ data sample_entry @ replicate q 0 \<and>
    p \<le> 3 \<and> q \<le> 3 \<and> 4 dvd newc_size + length ''init'' + 1 + p \<and>
    4 dvd length (data sample_entry) + q"
  by (rule write_entry_layout) (simp add: sample_fd_def progressing_def appending_def)

text \<open>
  C21: \<open>load\<close> returns on every file, reads no byte outside the mapping, and whatever it has
  collected when it stops is a sorted map of normalized names.
\<close>

theorem load_total_and_safe:
  "\<exists>ok es. load w path = Inr (ok, es) \<and> archive_inv es"
  using load_safe archive_inv_load by blast

section \<open>Commands\<close>

text \<open>
  C5: a series of \<open>cpio\<close> commands on a loaded archive returns the code, and leaves the members
  and the dirty bit, that the specification over plain maps from normalized names prescribes,
  on every branch: wrong operand counts, unparsable modes, missing sources and unknown commands
  included.
\<close>

theorem run_commands_refine_spec:
  assumes "archive_inv es"
  shows "abs_result (run_commands w cmds es d) = spec_commands w cmds (smap_find es) d"
  using assms by (rule run_commands_refines)

theorem run_commands_refine_spec_witness:
  "abs_result (run_commands sample_world [''mv init bin/init'', ''rm etc/rc''] sample_archive False) =
     spec_commands sample_world [''mv init bin/init'', ''rm etc/rc''] (smap_find sample_archive) False"
  by (rule run_commands_refine_spec [OF sample_archive_inv])

lemma run_commands_go:
  assumes "archive_inv es" "spec_commands w cmds (smap_find es) d = Go m d'"
  obtains es' where "run_commands w cmds es d = Go es' d'" "smap_find es' = m" "archive_inv es'"
  using run_commands_refines [OF assms(1), of w cmds d] assms(2) that
    run_commands_inv [OF _ assms(1)]
  by (cases "run_commands w cmds es d") auto

text \<open>
  C11: when the commands of one run succeed and change the archive, the run returns 0 and a later run on the
  same file starts from exactly the resulting map of members, provided that the format can hold every
  member: names and data shorter than 4 GiB, and no member called \<open>..\<close>, which \<open>load\<close> skips, or
  \<open>TRAILER!!!\<close>, where it stops reading. The commands do not refuse such names.
\<close>

theorem cpio_commands_persist:
  assumes "willing w" "load w file = Inr (True, es)"
    "spec_commands w cmds (smap_find es) False = Go m True"
    "\<forall>n e. m n = Some e \<longrightarrow> n \<noteq> ''..'' \<and> n \<noteq> kTrailer \<and> length n + 1 < 2 ^ 32 \<and> length (data e) < 2 ^ 32"
  shows "\<exists>w' es'. cpio_commands w file cmds = Inr (0, w') \<and> load w' file = Inr (True, es') \<and>
    smap_find es' = m"
proof -
  have inv: "archive_inv es" using assms(2) by (rule archive_inv_load)
  obtain es' where es': "run_commands w cmds es False = Go es' True" "smap_find es' = m"
      "archive_inv es'"
    using run_commands_go [OF inv assms(3)] by blast
  have "\<forall>ne \<in> set es'. storable ne"
  proof
    fix ne assume "ne \<in> set es'"
    then have "smap_find es' (fst ne) = Some (snd ne)"
      using smap.entries_distinct [OF archive_inv_smap [OF es'(3)]]
      by (simp add: smap_find_def map_of_eq_Some_iff)
    moreover have "normal (fst ne)" using es'(3) \<open>ne \<in> set es'\<close> by (simp add: archive_inv_def)
    ultimately show "storable ne" using es'(2) assms(4) by (cases ne) (auto simp: storable_def)
  qed
  from dump_load [OF assms(1) es'(3) this, where path = "file"]
  obtain w' where "dump w file es' = (True, w')" "load w' file = Inr (True, es')"
    by blast
  with es' assms(2) show ?thesis by (auto simp: cpio_commands_def)
qed

lemma sample_load: "load sample_world ''new'' = Inr (True, [])"
  by (simp add: load_def sys_stat_def sample_world_def)

lemma sample_mkdir:
  "spec_commands sample_world [''mkdir 755 d''] (smap_find []) False =
     Go [''d'' \<mapsto> dir_entry 493] True"
proof -
  have "split_ws ''mkdir 755 d'' = [''mkdir'', ''755'', ''d'']"
    using split_ws_join_ws [of "[''mkdir'', ''755'', ''d'']"] by (simp add: is_token_def isspace_def)
  moreover have "strtoul 8 ''755'' = (493, True)"
    by (simp add: strtoul_def digit_val_def isspace_def skip_sign_def skip_0x_def)
  moreover have "normalize_path ''d'' = ''d''" by (simp add: normalize_path_def keep_seg_def)
  ultimately show ?thesis by (simp add: smap_find_def fun_eq_iff)
qed

theorem cpio_commands_persist_witness:
  "\<exists>w' es'. cpio_commands sample_world ''new'' [''mkdir 755 d''] = Inr (0, w') \<and>
     load w' ''new'' = Inr (True, es') \<and> smap_find es' = [''d'' \<mapsto> dir_entry 493]"
proof (rule cpio_commands_persist [OF willing_sample sample_load sample_mkdir])
  show "\<forall>n e. [''d'' \<mapsto> dir_entry 493] n = Some e \<longrightarrow>
      n \<noteq> ''..'' \<and> n \<noteq> kTrailer \<and> length n + 1 < 2 ^ 32 \<and> length (data e) < 2 ^ 32"
    by (simp add: kTrailer_def dir_entry_def empty_entry_def)
qed

text \<open>
  C12: on a file system without failures a run that does not return 0 has not touched any file:
  the archive is written only after every command has succeeded.
\<close>

theorem cpio_commands_atomic:
  assumes "willing w" "cpio_commands w file cmds = Inr (r, w')" "r \<noteq> 0"
  shows "w' = w"
proof -
  obtain ok es where l: "load w file = Inr (ok, es)" using load_safe by blast
  show ?thesis
  proof (cases "run_commands w cmds es False")
    case (Return i)
    with assms l show ?thesis by (auto simp: cpio_commands_def split: if_splits)
  next
    case (Go es' d)
    obtain w'' where "dump w file es' = (True, w'')" using dump_world [OF assms(1)] by blast
    with Go assms l show ?thesis by (auto simp: cpio_commands_def split: if_splits)
  qed
qed

theorem cpio_commands_atomic_witness:
  "cpio_commands sample_world ''new'' [''frobnicate''] = Inr (1, sample_world)"
proof -
  have "split_ws ''frobnicate'' = [''frobnicate'']"
    by (rule split_ws_token) (simp add: is_token_def isspace_def)
  then have run: "\<exists>w'. cpio_commands sample_world ''new'' [''frobnicate''] = Inr (1, w')"
    by (simp add: cpio_commands_def sample_load run_command_def)
  then obtain w' where w': "cpio_commands sample_world ''new'' [''frobnicate''] = Inr (1, w')" ..
  from cpio_commands_atomic [OF willing_sample w'] w' show ?thesis by simp
qed

text \<open>
  C22: \<open>mv a b\<close> with different normalized names moves the member: it is found under \<open>b\<close>, not
  under \<open>a\<close>, an older \<open>b\<close> is replaced and every other name is untouched.
\<close>

theorem mv_moves:
  assumes "archive_inv es" "smap_find es (normalize_path a) = Some e"
    "normalize_path a \<noteq> normalize_path b"
  shows "\<exists>es'. mv a b es = (True, es') \<and> archive_inv es' \<and>
    smap_find es' = (smap_find es)(normalize_path b \<mapsto> e, normalize_path a := None)"
  using assms smap.find_move [OF archive_inv_smap [OF assms(1)] assms(3), of e]
    archive_inv_erase [OF archive_inv_assign [OF assms(1)]]
  by (auto simp: mv_def)

theorem mv_moves_witness:
  "\<exists>es'. mv ''/init'' ''sbin//init'' sample_archive = (True, es') \<and> archive_inv es' \<and>
    smap_find es' = (smap_find sample_archive)
      (normalize_path ''sbin//init'' \<mapsto> sample_entry, normalize_path ''/init'' := None)"
  by (rule mv_moves [OF sample_archive_inv])
    (simp_all add: normalize_path_def keep_seg_def sample_archive_def smap_find_def)

text \<open>
  \<open>mv\<close> of a member onto its own normalized name reports success and removes the member:
  the entry is stored under the new name first and the old name, the same one, erased after.
\<close>

theorem mv_onto_itself_deletes:
  assumes "archive_inv es" "exists es a" "normalize_path a = normalize_path b"
  shows "\<exists>es'. mv a b es = (True, es') \<and> \<not> exists es' b"
proof -
  obtain e where e: "smap_find es (normalize_path a) = Some e"
    using assms(2) by (auto simp: exists_def)
  let ?es' = "smap_erase (normalize_path a) (smap_assign (normalize_path a) e es)"
  have "smap_find ?es' = (smap_find es)(normalize_path a := None)"
    by (rule smap.find_move_same [OF archive_inv_smap [OF assms(1)]])
  then show ?thesis using e assms(3) by (intro exI [of _ ?es']) (simp add: mv_def exists_def Let_def)
qed

theorem mv_onto_itself_deletes_witness:
  "\<exists>es'. mv ''init'' ''/init'' sample_archive = (True, es') \<and> \<not> exists es' ''/init''"
  by (rule mv_onto_itself_deletes [OF sample_archive_inv])
    (simp_all add: exists_def normalize_path_def keep_seg_def sample_archive_def smap_find_def)

section \<open>Numbers and names\<close>

text \<open>\<open>format_hex8\<close> writes 8 digits, and \<open>parse_hex8\<close> reads every 32-bit number back from them.\<close>

theorem hex8_roundtrip: "length (format_hex8 v) = 8 \<and> parse_hex8 (format_hex8 v) = v"
  by simp

text \<open>
  C23: \<open>normalize_path\<close> joins the path's segments other than the empty one and \<open>.\<close>, in order; it is
  idempotent and two paths with the same such segments are one name.
\<close>

theorem normalize_path_canonical:
  "normalize_path p = join_slash (segments p) \<and>
   normalize_path (normalize_path p) = normalize_path p \<and>
   segments (normalize_path p) = segments p"
  by (simp add: normalize_path_segments segments_join segments_ok)

end
