(* ===== verification/Formats.thy ===== *)
theory Formats
  imports Prelude
begin

text \<open>
  File formats: \<open>enum FileFormat\<close>, the name and compression tables of \<open>boot_crypto.cpp\<close>
  and the recognisers \<open>guess_lzma\<close>, \<open>check_fmt\<close> and \<open>check_fmt_lg\<close> of \<open>bootimg.cpp\<close>. A
  recogniser's buffer is the view of exactly its \<open>len\<close> bytes. The block walk of
  \<open>check_fmt_lg\<close> advances a 32-bit offset by 32-bit block sizes, so that the sum wraps
  around; the walk is a partial function and not returning is the outcome \<open>Diverges\<close>.
\<close>

section \<open>Formats and their tables\<close>

datatype FileFormat =
    UNKNOWN | CHROMEOS | AOSP | AOSP_VENDOR | DHTB | BLOB
  | GZIP | ZOPFLI | XZ | LZMA | BZIP2 | LZ4 | LZ4_LEGACY | LZ4_LG | LZOP
  | MTK | DTB | ZIMAGE

fun fmt2name :: "FileFormat \<Rightarrow> string" where
  "fmt2name CHROMEOS = ''CHROMEOS''"
| "fmt2name AOSP = ''AOSP''"
| "fmt2name AOSP_VENDOR = ''AOSP_VENDOR''"
| "fmt2name DHTB = ''DHTB''"
| "fmt2name BLOB = ''BLOB''"
| "fmt2name GZIP = ''GZIP''"
| "fmt2name ZOPFLI = ''ZOPFLI''"
| "fmt2name XZ = ''XZ''"
| "fmt2name LZMA = ''LZMA''"
| "fmt2name BZIP2 = ''BZIP2''"
| "fmt2name LZ4 = ''LZ4''"
| "fmt2name LZ4_LEGACY = ''LZ4_LEGACY''"
| "fmt2name LZ4_LG = ''LZ4_LG''"
| "fmt2name LZOP = ''LZOP''"
| "fmt2name MTK = ''MTK''"
| "fmt2name DTB = ''DTB''"
| "fmt2name ZIMAGE = ''ZIMAGE''"
| "fmt2name UNKNOWN = ''UNKNOWN''"

fun fmt_compressed :: "FileFormat \<Rightarrow> bool" where
  "fmt_compressed GZIP = True"
| "fmt_compressed ZOPFLI = True"
| "fmt_compressed XZ = True"
| "fmt_compressed LZMA = True"
| "fmt_compressed BZIP2 = True"
| "fmt_compressed LZ4 = True"
| "fmt_compressed LZ4_LEGACY = True"
| "fmt_compressed LZ4_LG = True"
| "fmt_compressed LZOP = True"
| "fmt_compressed _ = False"

definition fmt_compressed_any :: "FileFormat \<Rightarrow> bool" where
  "fmt_compressed_any fmt = fmt_compressed fmt"

lemma fmt2name_inject: "fmt2name a = fmt2name b \<Longrightarrow> a = b"
  by (cases a; cases b) simp_all

section \<open>Magic numbers\<close>

definition CHROMEOS_MAGIC :: bytes where "CHROMEOS_MAGIC = str ''CHROMEOS''"
definition BOOT_MAGIC :: bytes where "BOOT_MAGIC = str ''ANDROID!''"
definition VENDOR_BOOT_MAGIC :: bytes where "VENDOR_BOOT_MAGIC = str ''VNDRBOOT''"
definition GZIP1_MAGIC :: bytes where "GZIP1_MAGIC = [0x1f, 0x8b]"
definition GZIP2_MAGIC :: bytes where "GZIP2_MAGIC = [0x1f, 0x9e]"
definition LZOP_MAGIC :: bytes where "LZOP_MAGIC = 0x89 # str ''LZO''"
definition XZ_MAGIC :: bytes where "XZ_MAGIC = 0xfd # str ''7zXZ''"
definition BZIP_MAGIC :: bytes where "BZIP_MAGIC = str ''BZh''"
definition LZ4_LEG_MAGIC :: bytes where "LZ4_LEG_MAGIC = [0x02, 0x21, 0x4c, 0x18]"
definition LZ41_MAGIC :: bytes where "LZ41_MAGIC = [0x03, 0x21, 0x4c, 0x18]"
definition LZ42_MAGIC :: bytes where "LZ42_MAGIC = [0x04, 0x22, 0x4d, 0x18]"
definition MTK_MAGIC :: bytes where "MTK_MAGIC = [0x88, 0x16, 0x88, 0x58]"
definition DTB_MAGIC :: bytes where "DTB_MAGIC = [0xd0, 0x0d, 0xfe, 0xed]"
definition DHTB_MAGIC :: bytes where
  "DHTB_MAGIC = [0x44, 0x48, 0x54, 0x42, 0x01, 0x00, 0x00, 0x00]"
definition TEGRABLOB_MAGIC :: bytes where "TEGRABLOB_MAGIC = str ''-SIGNED-BY-SIGNBLOB-''"
definition ZIMAGE_MAGIC :: bytes where "ZIMAGE_MAGIC = [0x18, 0x28, 0x6f, 0x01]"

lemmas magic_defs =
  CHROMEOS_MAGIC_def BOOT_MAGIC_def VENDOR_BOOT_MAGIC_def GZIP1_MAGIC_def GZIP2_MAGIC_def
  LZOP_MAGIC_def XZ_MAGIC_def BZIP_MAGIC_def LZ4_LEG_MAGIC_def LZ41_MAGIC_def LZ42_MAGIC_def
  MTK_MAGIC_def DTB_MAGIC_def DHTB_MAGIC_def TEGRABLOB_MAGIC_def ZIMAGE_MAGIC_def

section \<open>Recognisers\<close>

text \<open>\<open>CHECKED_MATCH\<close>: the length test first, then \<open>memcmp\<close>.\<close>

definition checked_match :: "bytes \<Rightarrow> bytes \<Rightarrow> bool" where
  "checked_match buf s \<longleftrightarrow> length s \<le> length buf \<and> match_at buf 0 s"

definition guess_lzma :: "bytes \<Rightarrow> bool" where
  "guess_lzma buf =
     (if length buf \<le> 13 then False
      else if view 0 1 buf \<noteq> [0x5d] then False
      else let dict_sz = le32 (view 1 4 buf)
           in if dict_sz = 0 \<or> dict_sz AND (dict_sz - 1) \<noteq> 0 then False
              else if view 5 8 buf \<noteq> [0xff, 0xff, 0xff, 0xff, 0xff, 0xff, 0xff, 0xff] then False
              else True)"

definition check_fmt :: "bytes \<Rightarrow> FileFormat" where
  "check_fmt buf =
     (if checked_match buf CHROMEOS_MAGIC then CHROMEOS
      else if checked_match buf BOOT_MAGIC then AOSP
      else if checked_match buf VENDOR_BOOT_MAGIC then AOSP_VENDOR
      else if checked_match buf GZIP1_MAGIC \<or> checked_match buf GZIP2_MAGIC then GZIP
      else if checked_match buf LZOP_MAGIC then LZOP
      else if checked_match buf XZ_MAGIC then XZ
      else if guess_lzma buf then LZMA
      else if checked_match buf BZIP_MAGIC then BZIP2
      else if checked_match buf LZ41_MAGIC \<or> checked_match buf LZ42_MAGIC then LZ4
      else if checked_match buf LZ4_LEG_MAGIC then LZ4_LEGACY
      else if checked_match buf MTK_MAGIC then MTK
      else if checked_match buf DTB_MAGIC then DTB
      else if checked_match buf DHTB_MAGIC then DHTB
      else if checked_match buf TEGRABLOB_MAGIC then BLOB
      else if 0x28 \<le> length buf \<and> view 0x24 4 buf = ZIMAGE_MAGIC then ZIMAGE
      else UNKNOWN)"

text \<open>
  Memory from the buffer on and the buffer's size, as the caller passes them: the tests look at
  the first 40 bytes at most, the walk over legacy blocks at the words the sizes lead it to.
  A pointer and size that leave the mapping show as a failed read.
\<close>

definition check_fmt_mem :: "bytes \<Rightarrow> nat \<Rightarrow> FileFormat result" where
  "check_fmt_mem m sz = bindR (rd m 0 (min sz 0x28)) (\<lambda>b. Inr (check_fmt b))"

partial_function (option) lg_loop :: "bytes \<Rightarrow> nat \<Rightarrow> u32 \<Rightarrow> FileFormat result option" where
  "lg_loop m sz off =
     (if unat off + 4 \<le> sz then
        (case rd m (unat off) 4 of
           Inl e \<Rightarrow> Some (Inl e)
         | Inr b \<Rightarrow>
             let block_sz = le32 b; off1 = off + 4
             in if sz < unat (off1 + block_sz) then Some (Inr LZ4_LG)
                else lg_loop m sz (off1 + block_sz))
      else Some (Inr LZ4_LEGACY))"

definition check_fmt_lg_mem :: "bytes \<Rightarrow> nat \<Rightarrow> FileFormat result" where
  "check_fmt_lg_mem m sz =
     bindR (check_fmt_mem m sz) (\<lambda>fmt.
       if fmt = LZ4_LEGACY
       then (case lg_loop m sz 4 of None \<Rightarrow> Inl Diverges | Some r \<Rightarrow> r)
       else Inr fmt)"

definition check_fmt_lg :: "bytes \<Rightarrow> FileFormat result" where
  "check_fmt_lg buf = check_fmt_lg_mem buf (length buf)"

lemma lg_loop_buf:
  "lg_loop buf (length buf) off =
     (if unat off + 4 \<le> length buf then
        (let block_sz = le32 (view (unat off) 4 buf); off1 = off + 4
         in if length buf < unat (off1 + block_sz) then Some (Inr LZ4_LG)
            else lg_loop buf (length buf) (off1 + block_sz))
      else Some (Inr LZ4_LEGACY))"
  by (subst lg_loop.simps) simp

section \<open>What the recognisers accept\<close>

lemma length_LZ4_LEG_MAGIC [simp]: "length LZ4_LEG_MAGIC = 4"
  by (simp add: LZ4_LEG_MAGIC_def)

lemma check_fmt_legacy_iff: "check_fmt buf = LZ4_LEGACY \<longleftrightarrow> checked_match buf LZ4_LEG_MAGIC"
proof
  assume "check_fmt buf = LZ4_LEGACY"
  then show "checked_match buf LZ4_LEG_MAGIC"
    by (simp add: check_fmt_def split: if_splits)
next
  assume m: "checked_match buf LZ4_LEG_MAGIC"
  then have "4 \<le> length buf" "take 4 buf = LZ4_LEG_MAGIC"
    by (simp_all add: checked_match_def match_at_def view_def)
  then obtain r where buf: "buf = LZ4_LEG_MAGIC @ r"
    by (metis append_take_drop_id)
  show "check_fmt buf = LZ4_LEGACY"
    by (simp add: buf check_fmt_def checked_match_def match_at_def guess_lzma_def magic_defs view_def
        str_def byte_of_char_def)
qed

text \<open>The blocks of a legacy stream: a little-endian length and that many bytes.\<close>

definition lz4_block :: "bytes \<Rightarrow> bytes" where
  "lz4_block b = le32_bytes (of_nat (length b)) @ b"

lemma length_lz4_block [simp]: "length (lz4_block b) = 4 + length b"
  by (simp add: lz4_block_def)

definition blocks :: "bytes list \<Rightarrow> bytes" where
  "blocks bs = concat (map lz4_block bs)"

lemma blocks_simps [simp]:
  "blocks [] = []"
  "blocks (b # bs) = lz4_block b @ blocks bs"
  by (simp_all add: blocks_def)

lemma unat_of_nat_u32: "n < 2 ^ 32 \<Longrightarrow> unat (of_nat n :: u32) = n"
  by (simp add: unat_of_nat)

lemma lg_loop_end: "sz < 4 + unat off \<Longrightarrow> lg_loop m sz off = Some (Inr LZ4_LEGACY)"
  by (simp add: lg_loop.simps)

lemma lg_loop_step:
  assumes "length pre + 4 + length b + length post < 2 ^ 32"
  shows "lg_loop (pre @ lz4_block b @ post) (length (pre @ lz4_block b @ post)) (of_nat (length pre)) =
    lg_loop (pre @ lz4_block b @ post) (length (pre @ lz4_block b @ post)) (of_nat (length (pre @ lz4_block b)))"
proof -
  let ?buf = "pre @ lz4_block b @ post"
  have off: "unat (of_nat (length pre) :: u32) = length pre"
    using assms by (simp add: unat_of_nat_u32)
  have sz: "le32 (view (length pre) 4 ?buf) = of_nat (length b)"
    by (simp add: view_append_at lz4_block_def)
  have next_off: "of_nat (length pre) + 4 + of_nat (length b) = (of_nat (length (pre @ lz4_block b)) :: u32)"
    by simp
  have "unat (of_nat (length (pre @ lz4_block b)) :: u32) = length (pre @ lz4_block b)"
    using assms by (subst unat_of_nat_u32) simp_all
  then show ?thesis
    by (subst lg_loop_buf) (simp only: off sz Let_def next_off, simp)
qed

lemma lg_loop_blocks:
  assumes "length pre + length (blocks bs) + length post < 2 ^ 32"
  shows "lg_loop (pre @ blocks bs @ post) (length (pre @ blocks bs @ post)) (of_nat (length pre)) =
    lg_loop (pre @ blocks bs @ post) (length (pre @ blocks bs @ post)) (of_nat (length (pre @ blocks bs)))"
  using assms
proof (induction bs arbitrary: pre)
  case Nil
  then show ?case by simp
next
  case (Cons b bs)
  have "lg_loop (pre @ lz4_block b @ blocks bs @ post) (length (pre @ lz4_block b @ blocks bs @ post)) (of_nat (length pre)) =
      lg_loop (pre @ lz4_block b @ blocks bs @ post) (length (pre @ lz4_block b @ blocks bs @ post)) (of_nat (length (pre @ lz4_block b)))"
    using Cons.prems by (intro lg_loop_step) simp
  also have "\<dots> = lg_loop ((pre @ lz4_block b) @ blocks bs @ post)
      (length ((pre @ lz4_block b) @ blocks bs @ post)) (of_nat (length ((pre @ lz4_block b) @ blocks bs)))"
    using Cons.IH [of "pre @ lz4_block b"] Cons.prems by simp
  finally show ?case by simp
qed

lemma checked_match_append [simp]: "checked_match (s @ r) s"
  by (simp add: checked_match_def match_at_def view_def)

lemma checked_match_take: "length s \<le> n \<Longrightarrow> checked_match (take n b) s = checked_match b s"
  by (auto simp: checked_match_def match_at_def view_def min_def)

lemma guess_lzma_take: "guess_lzma (take 40 b) = guess_lzma b"
  by (simp add: guess_lzma_def view_def take_drop min_def)

lemma view_take: "off + n \<le> k \<Longrightarrow> view off n (take k m) = view off n m"
  by (simp add: view_def take_drop min_def)

text \<open>The format depends on the first 40 bytes only.\<close>

lemma check_fmt_take: "check_fmt (take 40 b) = check_fmt b"
  unfolding check_fmt_def guess_lzma_take
  by (simp add: checked_match_take magic_defs view_take)

lemma check_fmt_mem_inside: "sz \<le> length m \<Longrightarrow> check_fmt_mem m sz = Inr (check_fmt (take sz m))"
  using check_fmt_take [of "take sz m"] by (simp add: check_fmt_mem_def view_def take_take min.commute)

lemma check_fmt_lg_legacy_eq:
  "checked_match m LZ4_LEG_MAGIC \<Longrightarrow> check_fmt_lg m =
     (case lg_loop m (length m) 4 of None \<Rightarrow> Inl Diverges | Some r \<Rightarrow> r)"
  by (simp add: check_fmt_lg_def check_fmt_lg_mem_def check_fmt_mem_inside check_fmt_legacy_iff)

lemma check_fmt_lg_legacy:
  assumes "4 + length (blocks bs) < 2 ^ 32"
  shows "check_fmt_lg (LZ4_LEG_MAGIC @ blocks bs) = Inr LZ4_LEGACY"
proof -
  let ?buf = "LZ4_LEG_MAGIC @ blocks bs"
  have "lg_loop ?buf (length ?buf) 4 = lg_loop ?buf (length ?buf) (of_nat (length ?buf))"
    using lg_loop_blocks [of LZ4_LEG_MAGIC bs "[]"] assms by simp
  also have "\<dots> = Some (Inr LZ4_LEGACY)"
    using assms by (intro lg_loop_end) (simp add: unat_of_nat_u32 del: of_nat_add)
  finally show ?thesis
    by (simp add: check_fmt_lg_legacy_eq)
qed

lemma check_fmt_lg_lg:
  assumes "0 < n" "8 + length (blocks bs) + n < 2 ^ 32"
  shows "check_fmt_lg (LZ4_LEG_MAGIC @ blocks bs @ le32_bytes (of_nat n)) = Inr LZ4_LG"
proof -
  let ?buf = "LZ4_LEG_MAGIC @ blocks bs @ le32_bytes (of_nat n)"
  let ?off = "length (LZ4_LEG_MAGIC @ blocks bs)"
  have off: "unat (of_nat ?off :: u32) = ?off"
    using assms by (subst unat_of_nat_u32) simp_all
  have sz: "le32 (view ?off 4 ?buf) = of_nat n"
    using view_append_at [of "LZ4_LEG_MAGIC @ blocks bs" 4 "le32_bytes (of_nat n)"] by simp
  have "of_nat ?off + 4 + of_nat n = (of_nat (?off + 4 + n) :: u32)"
    by simp
  moreover have "unat (of_nat (?off + 4 + n) :: u32) = ?off + 4 + n"
    using assms by (subst unat_of_nat_u32) simp_all
  ultimately have big: "length ?buf < unat (of_nat ?off + 4 + (of_nat n :: u32))"
    using assms(1) by simp
  have "lg_loop ?buf (length ?buf) 4 = lg_loop ?buf (length ?buf) (of_nat ?off)"
    using lg_loop_blocks [of LZ4_LEG_MAGIC bs "le32_bytes (of_nat n)"] assms by simp
  also have "\<dots> = Some (Inr LZ4_LG)"
    by (subst lg_loop_buf) (simp only: off sz Let_def big, simp)
  finally show ?thesis
    by (simp add: check_fmt_lg_legacy_eq)
qed

section \<open>Termination of the block walk\<close>

text \<open>No 32-bit block size at any offset carries the offset past the end of the 32-bit range.\<close>

definition no_wrap :: "bytes \<Rightarrow> nat \<Rightarrow> bool" where
  "no_wrap m sz \<longleftrightarrow> (\<forall>k < min sz (length m) - 3. k + 4 + unat (le32 (view k 4 m)) < 2 ^ 32)"

lemma lg_loop_returns:
  assumes "no_wrap m sz"
  shows "\<exists>r. lg_loop m sz off = Some r"
proof (induction "sz - unat off" arbitrary: off rule: less_induct)
  case less
  show ?case
  proof (cases "unat off + 4 \<le> sz \<and> unat off + 4 \<le> length m")
    case False
    then show ?thesis by (auto simp: lg_loop.simps rd_outside)
  next
    case True
    define b where "b = le32 (view (unat off) 4 m)"
    have "unat off < min sz (length m) - 3" using True by auto
    with assms have "unat off + 4 + unat b < 2 ^ 32"
      unfolding no_wrap_def b_def by blast
    then have sum: "unat (off + 4 + b) = unat off + 4 + unat b"
      by (simp add: unat_word_ariths)
    show ?thesis
    proof (cases "sz < unat (off + 4 + b)")
      case big: True
      with True show ?thesis
        by (subst lg_loop.simps) (simp add: b_def [symmetric])
    next
      case False
      with sum True have "sz - unat (off + 4 + b) < sz - unat off"
        by simp
      from less [OF this] False True show ?thesis
        by (subst lg_loop.simps) (simp add: b_def [symmetric])
    qed
  qed
qed

text \<open>An error of the walk is a failed read.\<close>

lemma check_fmt_lg_mem_cases:
  assumes "no_wrap m sz"
  shows "(\<exists>f. check_fmt_lg_mem m sz = Inr f) \<or> check_fmt_lg_mem m sz = Inl OutOfBounds"
proof -
  have inl: "lg_loop m sz off = Some (Inl e) \<Longrightarrow> e = OutOfBounds" for off e
  proof -
    assume ret: "lg_loop m sz off = Some (Inl e)"
    have "\<forall>e'. Inl e = (Inl e' :: FileFormat result) \<longrightarrow> e' = OutOfBounds"
    proof (rule lg_loop.raw_induct
        [where P = "\<lambda>m sz off r. \<forall>e'. r = Inl e' \<longrightarrow> e' = OutOfBounds", OF _ ret])
      fix f m' sz' k r
      assume IH: "\<And>m sz off r. f m sz off = Some r \<Longrightarrow> \<forall>e'. r = Inl e' \<longrightarrow> e' = OutOfBounds"
        and eq: "(if unat k + 4 \<le> sz'
           then case rd m' (unat k) 4 of Inl e \<Rightarrow> Some (Inl e)
                | Inr b \<Rightarrow> let block_sz = le32 b; off1 = k + 4
                    in if sz' < unat (off1 + block_sz) then Some (Inr LZ4_LG)
                       else f m' sz' (off1 + block_sz)
           else Some (Inr LZ4_LEGACY)) = Some r"
      show "\<forall>e'. r = Inl e' \<longrightarrow> e' = OutOfBounds"
        using eq IH by (auto simp: Let_def rd_eq_Inl_iff split: if_splits sum.splits)
    qed
    then show ?thesis by simp
  qed
  obtain r where r: "lg_loop m sz 4 = Some r" using lg_loop_returns [OF assms] by blast
  show ?thesis
  proof (cases "check_fmt_mem m sz")
    case (Inl e)
    then show ?thesis
      by (auto simp: check_fmt_lg_mem_def check_fmt_mem_def rd_def split: if_splits)
  next
    case (Inr fmt)
    with r inl [of 4] show ?thesis by (cases r) (auto simp: check_fmt_lg_mem_def)
  qed
qed

lemma lg_loop_inside:
  assumes "no_wrap m sz" "sz \<le> length m"
  shows "\<exists>f. lg_loop m sz off = Some (Inr f)"
proof (induction "sz - unat off" arbitrary: off rule: less_induct)
  case less
  show ?case
  proof (cases "unat off + 4 \<le> sz")
    case False
    then show ?thesis by (simp add: lg_loop.simps)
  next
    case True
    define b where "b = le32 (view (unat off) 4 m)"
    have "unat off < min sz (length m) - 3" using True assms(2) by simp
    with assms(1) have "unat off + 4 + unat b < 2 ^ 32"
      unfolding no_wrap_def b_def by blast
    then have "sz - unat (off + 4 + b) < sz - unat off"
      using True by (simp add: unat_word_ariths)
    from less [OF this] True assms(2) show ?thesis
      by (subst lg_loop.simps) (simp add: b_def [symmetric] Let_def)
  qed
qed

lemma check_fmt_lg_mem_returns:
  "no_wrap m sz \<Longrightarrow> sz \<le> length m \<Longrightarrow> \<exists>f. check_fmt_lg_mem m sz = Inr f"
  using lg_loop_inside [of m sz 4] by (auto simp: check_fmt_lg_mem_def check_fmt_mem_inside)

lemma check_fmt_lg_returns: "no_wrap buf (length buf) \<Longrightarrow> \<exists>f. check_fmt_lg buf = Inr f"
  using check_fmt_lg_mem_returns [of buf "length buf"] by (simp add: check_fmt_lg_def)

text \<open>A block of \<open>0xFFFFFFFC\<close> bytes takes the offset back to where it was.\<close>

lemma lg_loop_stuck:
  assumes "unat off + 4 \<le> length buf" "le32 (view (unat off) 4 buf) = - 4"
  shows "lg_loop buf (length buf) off = None"
proof -
  have "lg_loop buf (length buf) off \<noteq> Some r" for r
  proof
    assume ret: "lg_loop buf (length buf) off = Some r"
    have "buf = buf \<and> length buf = length buf \<longrightarrow> off \<noteq> off"
    proof (rule lg_loop.raw_induct
        [where P = "\<lambda>b n k r. b = buf \<and> n = length buf \<longrightarrow> k \<noteq> off", OF _ ret])
      fix f b n k r'
      assume IH: "\<And>b n k r. f b n k = Some r \<Longrightarrow> b = buf \<and> n = length buf \<longrightarrow> k \<noteq> off"
        and eq: "(if unat k + 4 \<le> n
           then case rd b (unat k) 4 of Inl e \<Rightarrow> Some (Inl e)
                | Inr b' \<Rightarrow> let block_sz = le32 b'; off1 = k + 4
                    in if n < unat (off1 + block_sz) then Some (Inr LZ4_LG)
                       else f b n (off1 + block_sz)
           else Some (Inr LZ4_LEGACY)) = Some r'"
      show "b = buf \<and> n = length buf \<longrightarrow> k \<noteq> off"
      proof (intro impI notI)
        assume "b = buf \<and> n = length buf" "k = off"
        with eq assms have "f buf (length buf) off = Some r'"
          by (auto simp: Let_def split: if_splits)
        with IH show False by blast
      qed
    qed
    then show False by simp
  qed
  then show ?thesis by (cases "lg_loop buf (length buf) off") auto
qed

lemma check_fmt_lg_stuck:
  assumes "checked_match buf LZ4_LEG_MAGIC" "8 \<le> length buf" "le32 (view 4 4 buf) = - 4"
  shows "check_fmt_lg buf = Inl Diverges"
  using assms lg_loop_stuck [of 4 buf] by (simp add: check_fmt_lg_legacy_eq)

end
