(* ===== verification/Dtb.thy ===== *)
theory Dtb
  imports Formats
begin

text \<open>
  \<open>find_dtb_offset\<close> of \<open>bootimg.cpp\<close> with \<open>memmem\<close> and the \<open>fdt_header\<close> accessors. The
  buffer is all memory readable from \<open>buf\<close> on, of which the first \<open>sz\<close> bytes are searched:
  the header fields of a hit near the end are read past \<open>buf + sz\<close>. Offsets of a flattened
  device tree are big-endian in the format; \<open>fdt32\<close> is the conversion the code has.
\<close>

section \<open>\<open>memmem\<close>\<close>

text \<open>The first offset from \<open>i\<close> at which the literal lies inside the first \<open>stop\<close> bytes.\<close>

function memmem :: "bytes \<Rightarrow> bytes \<Rightarrow> nat \<Rightarrow> nat \<Rightarrow> nat option result" where
  "memmem m lit i stop =
     (if stop < i + length lit then Inr None
      else bindR (rd m i (length lit)) (\<lambda>b. if b = lit then Inr (Some i) else memmem m lit (Suc i) stop))"
  by pat_completeness auto
termination
  by (relation "measure (\<lambda>(m, lit, i, stop). Suc stop - i)") auto

declare memmem.simps [simp del]

lemma memmem_Some:
  "memmem m lit i stop = Inr (Some j) \<Longrightarrow>
     i \<le> j \<and> j + length lit \<le> stop \<and> j + length lit \<le> length m \<and> match_at m j lit \<and>
     (\<forall>k. i \<le> k \<and> k < j \<longrightarrow> \<not> match_at m k lit)"
proof (induction m lit i stop rule: memmem.induct)
  case (1 m lit i stop)
  show ?case
  proof (cases "stop < i + length lit")
    case True
    with "1.prems" show ?thesis by (simp add: memmem.simps)
  next
    case False
    from "1.prems" obtain b where b: "rd m i (length lit) = Inr b"
      by (subst (asm) memmem.simps) (auto simp: False)
    note room = rd_eq_InrD [OF b]
    show ?thesis
    proof (cases "b = lit")
      case True
      with "1.prems" b False have "j = i"
        by (simp add: memmem.simps [of m lit i])
      with True room False show ?thesis by (auto simp: match_at_def)
    next
      case other: False
      with "1.prems" b False have "memmem m lit (Suc i) stop = Inr (Some j)"
        by (simp add: memmem.simps [of m lit i])
      from "1.IH" [OF False b other this] other room show ?thesis
        by (auto simp: match_at_def le_Suc_eq Suc_le_eq) (metis le_neq_implies_less)
    qed
  qed
qed

lemma memmem_None:
  "memmem m lit i stop = Inr None \<Longrightarrow> i \<le> k \<Longrightarrow> k + length lit \<le> stop \<Longrightarrow> \<not> match_at m k lit"
proof (induction m lit i stop rule: memmem.induct)
  case (1 m lit i stop)
  have F: "\<not> stop < i + length lit"
    using "1.prems" by simp
  from "1.prems"(1) obtain b where b: "rd m i (length lit) = Inr b"
    by (subst (asm) memmem.simps) (auto simp: F)
  note room = rd_eq_InrD [OF b]
  from "1.prems"(1) b F have ne: "b \<noteq> lit" "memmem m lit (Suc i) stop = Inr None"
    by (auto simp: memmem.simps [of m lit i] split: if_splits)
  show ?case
  proof (cases "k = i")
    case True
    with ne room show ?thesis by (simp add: match_at_def)
  next
    case False
    with "1.IH" [OF F b ne] "1.prems" show ?thesis by simp
  qed
qed

lemma memmem_inside:
  "stop \<le> length m \<Longrightarrow> \<exists>r. memmem m lit i stop = Inr r"
proof (induction m lit i stop rule: memmem.induct)
  case (1 m lit i stop)
  show ?case
  proof (cases "stop < i + length lit")
    case True
    then show ?thesis by (simp add: memmem.simps)
  next
    case False
    with "1.prems" have r: "rd m i (length lit) = Inr (view i (length lit) m)"
      by simp
    show ?thesis
      using "1.IH" [OF False r] "1.prems" False
      by (cases "view i (length lit) m = lit") (auto simp: memmem.simps [of m lit i] r)
  qed
qed

section \<open>The search for a device tree\<close>

definition fdt_header_size :: nat where
  "fdt_header_size = 40"

text \<open>
  \<open>fdt32_t\<close>: four 8-bit fields from the lowest byte up, and the conversion to
  \<open>uint32_t\<close>, which puts \<open>byte3\<close> in the high bits. \<open>be32\<close> is the format's own order.
\<close>

definition fdt32 :: "bytes \<Rightarrow> u32" where
  "fdt32 bs =
     push_bit 24 (ucast (bs ! 3)) OR push_bit 16 (ucast (bs ! 2))
       OR push_bit 8 (ucast (bs ! 1)) OR ucast (bs ! 0)"

definition be32 :: "bytes \<Rightarrow> u32" where
  "be32 bs =
     push_bit 24 (ucast (bs ! 0)) OR push_bit 16 (ucast (bs ! 1))
       OR push_bit 8 (ucast (bs ! 2)) OR ucast (bs ! 3)"

lemma fdt32_le32: "fdt32 bs = le32 bs"
  by (simp add: fdt32_def le32_def or.commute or.left_commute or.assoc)

text \<open>The tests on one hit at offset \<open>c\<close>.\<close>

definition dtb_accept :: "bytes \<Rightarrow> nat \<Rightarrow> nat \<Rightarrow> bool result" where
  "dtb_accept m sz c =
     bindR (rd m (c + 4) 4) (\<lambda>ts.
       let totalsize = unat (fdt32 ts)
       in if sz - c < totalsize \<or> totalsize \<le> 0x48 then Inr False
          else bindR (rd m (c + 8) 4) (\<lambda>od.
            let off_dt_struct = unat (fdt32 od)
            in if sz - c < off_dt_struct then Inr False
               else bindR (rd m (c + off_dt_struct) 4) (\<lambda>tg. Inr (fdt32 tg = 1))))"

function dtb_loop :: "bytes \<Rightarrow> nat \<Rightarrow> nat \<Rightarrow> nat option result" where
  "dtb_loop m sz cur =
     (if cur < sz then
        bindR (memmem m DTB_MAGIC cur sz) (\<lambda>r.
          case r of
            None \<Rightarrow> Inr None
          | Some c \<Rightarrow>
              bindR (dtb_accept m sz c) (\<lambda>ok.
                if ok then Inr (Some c) else dtb_loop m sz (c + fdt_header_size)))
      else Inr None)"
  by pat_completeness auto
termination
  by (relation "measure (\<lambda>(m, sz, cur). sz - cur)")
    (auto dest!: memmem_Some simp: fdt_header_size_def)

declare dtb_loop.simps [simp del]

text \<open>The C \<open>int\<close> result: \<open>-1\<close> for none, the pointer difference cut to 32 bits otherwise.\<close>

definition find_dtb_offset :: "bytes \<Rightarrow> nat \<Rightarrow> int result" where
  "find_dtb_offset m sz =
     bindR (dtb_loop m sz 0) (\<lambda>r. case r of
       None \<Rightarrow> Inr (- 1)
     | Some c \<Rightarrow> Inr (sint (of_nat c :: u32)))"

section \<open>What is found\<close>

lemma dtb_accept_True:
  "dtb_accept m sz c = Inr True \<Longrightarrow>
     c + 12 \<le> length m \<and>
     unat (le32 (view (c + 4) 4 m)) \<le> sz - c \<and> 0x48 < unat (le32 (view (c + 4) 4 m)) \<and>
     unat (le32 (view (c + 8) 4 m)) \<le> sz - c \<and>
     le32 (view (c + unat (le32 (view (c + 8) 4 m))) 4 m) = 1"
  by (auto simp: dtb_accept_def Let_def fdt32_le32 split: if_splits dest!: rd_eq_InrD)

lemma dtb_loop_Some:
  "dtb_loop m sz cur = Inr (Some c) \<Longrightarrow>
     cur \<le> c \<and> c + 4 \<le> sz \<and> match_at m c DTB_MAGIC \<and> dtb_accept m sz c = Inr True"
proof (induction m sz cur rule: dtb_loop.induct)
  case (1 m sz cur)
  from "1.prems" have cur: "cur < sz"
    by (auto simp: dtb_loop.simps split: if_splits)
  with "1.prems" obtain h where h: "memmem m DTB_MAGIC cur sz = Inr (Some h)"
    by (subst (asm) dtb_loop.simps) (auto split: option.splits)
  with cur "1.prems" obtain ok where ok: "dtb_accept m sz h = Inr ok"
    by (subst (asm) dtb_loop.simps) auto
  note hit = memmem_Some [OF h]
  have four: "length DTB_MAGIC = 4" by (simp add: DTB_MAGIC_def)
  show ?case
  proof (cases ok)
    case True
    with "1.prems" cur h ok have "c = h"
      by (subst (asm) dtb_loop.simps) auto
    with hit ok True four show ?thesis by auto
  next
    case False
    with "1.prems" cur h ok have "dtb_loop m sz (h + fdt_header_size) = Inr (Some c)"
      by (subst (asm) dtb_loop.simps) auto
    from "1.IH" [OF cur h refl ok] False this hit show ?thesis by auto
  qed
qed

text \<open>
  A tree whose big-endian structure offset has a nonzero low byte (every tree that follows
  the format: the offset is a multiple of 4 but rarely of 256) is read with that byte on top.
\<close>

lemma le32_high_byte:
  assumes "length bs = 4" "bs ! 3 \<noteq> 0"
  shows "2 ^ 24 \<le> unat (le32 bs)"
proof -
  obtain k where k: "bit (bs ! 3) k"
    using assms(2) by (metis bit_0_eq bit_eqI bot_apply bot_bool_def)
  then have k8: "k < 8"
    using bit_imp_le_length by force
  have "bit (le32 bs) (24 + k)"
    using k k8 by (simp add: le32_def bit_simps)
  then have "bit (unat (le32 bs)) (24 + k)"
    by (simp add: bit_unsigned_iff)
  then have "2 ^ (24 + k) \<le> unat (le32 bs)"
    by (metis bit_nat_iff bit_iff_odd div_less even_zero not_less)
  moreover have "(2::nat) ^ 24 \<le> 2 ^ (24 + k)"
    by (rule power_increasing) simp_all
  ultimately show ?thesis by simp
qed

lemma dtb_accept_big_endian:
  assumes "sz < 2 ^ 24" "c + 12 \<le> length m" "m ! (c + 11) \<noteq> 0"
  shows "dtb_accept m sz c = Inr False"
proof -
  have "view (c + 8) 4 m ! 3 = m ! (c + 11)"
    using assms(2) by (simp add: view_def add.commute)
  then have "2 ^ 24 \<le> unat (le32 (view (c + 8) 4 m))"
    using assms by (intro le32_high_byte) simp_all
  then have "sz - c < unat (le32 (view (c + 8) 4 m))"
    using assms(1) by linarith
  with assms show ?thesis
    by (simp add: dtb_accept_def Let_def fdt32_le32)
qed

definition standard_trees :: "bytes \<Rightarrow> nat \<Rightarrow> bool" where
  "standard_trees m sz \<longleftrightarrow> sz \<le> length m \<and> sz < 2 ^ 24 \<and>
     (\<forall>c < sz. match_at m c DTB_MAGIC \<longrightarrow> c + 12 \<le> length m \<and> m ! (c + 11) \<noteq> 0)"

lemma dtb_loop_misses:
  "standard_trees m sz \<Longrightarrow> dtb_loop m sz cur = Inr None"
proof (induction m sz cur rule: dtb_loop.induct)
  case (1 m sz cur)
  show ?case
  proof (cases "cur < sz")
    case False
    then show ?thesis by (simp add: dtb_loop.simps)
  next
    case True
    obtain r where r: "memmem m DTB_MAGIC cur sz = Inr r"
      using memmem_inside [of sz m DTB_MAGIC cur] "1.prems" by (auto simp: standard_trees_def)
    show ?thesis
    proof (cases r)
      case None
      with r True show ?thesis by (simp add: dtb_loop.simps)
    next
      case (Some h)
      have "h < sz" "match_at m h DTB_MAGIC"
        using memmem_Some [of m DTB_MAGIC cur sz h] r Some by (auto simp: DTB_MAGIC_def)
      then have rej: "dtb_accept m sz h = Inr False"
        using "1.prems" by (intro dtb_accept_big_endian) (auto simp: standard_trees_def)
      from "1.IH" [OF True r Some rej] "1.prems" r Some rej True show ?thesis
        by (simp add: dtb_loop.simps [of m sz cur])
    qed
  qed
qed

text \<open>A hit in the last bytes of the mapping: the total size lies outside it.\<close>

lemma dtb_loop_overread:
  assumes "\<forall>k < n. \<not> match_at m k DTB_MAGIC" "match_at m n DTB_MAGIC"
    "length m = n + 4"
  shows "dtb_loop m (length m) 0 = Inl OutOfBounds"
proof -
  have four: "length DTB_MAGIC = 4" by (simp add: DTB_MAGIC_def)
  obtain r where r: "memmem m DTB_MAGIC 0 (length m) = Inr r"
    using memmem_inside by blast
  have "r = Some n"
  proof (cases r)
    case None
    with memmem_None [of m DTB_MAGIC 0 "length m" n] r assms four show ?thesis by simp
  next
    case (Some h)
    with memmem_Some [of m DTB_MAGIC 0 "length m" h] r assms four show ?thesis
      by simp (metis linorder_neqE_nat not_le add_le_cancel_right le_antisym nat_less_le)
  qed
  moreover have "dtb_accept m (length m) n = Inl OutOfBounds"
    using assms(3) by (simp add: dtb_accept_def rd_outside)
  ultimately show ?thesis
    using r assms(3) by (simp add: dtb_loop.simps)
qed

end
