(* ===== verification/ClaimsFormats.thy ===== *)
theory ClaimsFormats
  imports Dtb
begin

text \<open>
  What format detection promises: the two LZ4 legacy variants are told apart, the scan over the
  blocks ends unless a block size wraps the 32-bit offset, and a reported device tree lies in
  the buffer. Where the code misses its aim (a wrapping block size, trees as the device tree
  specification lays them out, a magic at the end of the buffer) the property says what it
  does instead.
\<close>

section \<open>LZ4 legacy streams\<close>

text \<open>
  \<open>check_fmt_lg\<close> tells the two legacy variants apart: a magic followed by length-prefixed
  blocks is \<open>LZ4_LEGACY\<close>, and the same stream followed by the 4-byte positive total of the LG
  variant is \<open>LZ4_LG\<close>.
\<close>

theorem check_fmt_lg_tells_variants:
  assumes "0 < n" "8 + length (blocks bs) + n < 2 ^ 32"
  shows "check_fmt_lg (LZ4_LEG_MAGIC @ blocks bs) = Inr LZ4_LEGACY \<and>
    check_fmt_lg (LZ4_LEG_MAGIC @ blocks bs @ le32_bytes (of_nat n)) = Inr LZ4_LG"
  using check_fmt_lg_lg [OF assms] check_fmt_lg_legacy [of bs] assms by simp

theorem check_fmt_lg_tells_variants_witness:
  "check_fmt_lg (LZ4_LEG_MAGIC @ blocks [[1, 2, 3], [4]]) = Inr LZ4_LEGACY \<and>
   check_fmt_lg (LZ4_LEG_MAGIC @ blocks [[1, 2, 3], [4]] @ le32_bytes (of_nat 99)) = Inr LZ4_LG"
  by (rule check_fmt_lg_tells_variants) simp_all

text \<open>
  C24: \<open>check_fmt_lg\<close> returns on every buffer in which no 4-byte word, read as a block size at its
  position, reaches past 4 GiB; in particular its loop ends.
\<close>

theorem check_fmt_lg_terminates:
  assumes "no_wrap buf (length buf)"
  shows "\<exists>f. check_fmt_lg buf = Inr f"
  using assms by (rule check_fmt_lg_returns)

theorem check_fmt_lg_terminates_witness:
  "\<exists>f. check_fmt_lg [2, 0x21, 0x4c, 0x18, 1, 0] = Inr f"
  by (rule check_fmt_lg_terminates) (simp add: no_wrap_def All_less_Suc view_def le32_def)

text \<open>
  C25: a legacy stream whose first block size is \<open>0xFFFFFFFC\<close> keeps \<open>check_fmt_lg\<close> in its loop for
  ever: the 32-bit offset wraps back to the same block.
\<close>

theorem check_fmt_lg_diverges:
  assumes "checked_match buf LZ4_LEG_MAGIC" "8 \<le> length buf" "le32 (view 4 4 buf) = 0xFFFFFFFC"
  shows "check_fmt_lg buf = Inl Diverges"
  using assms by (intro check_fmt_lg_stuck) simp_all

theorem check_fmt_lg_diverges_witness:
  "check_fmt_lg [2, 0x21, 0x4c, 0x18, 0xfc, 0xff, 0xff, 0xff] = Inl Diverges"
  by (rule check_fmt_lg_diverges)
    (simp_all add: checked_match_def match_at_def LZ4_LEG_MAGIC_def view_def le32_def)

section \<open>Device trees\<close>

text \<open>
  C26: a device tree \<open>find_dtb_offset\<close> reports starts at a magic inside the scanned bytes, its
  total size and structure offset lie inside the rest of them, and its first structure word is
  the begin-node tag, the fields read in the host's byte order.
\<close>

theorem find_dtb_sound:
  assumes "find_dtb_offset m sz = Inr r" "0 \<le> r" "sz < 2 ^ 31"
  shows "match_at m (nat r) DTB_MAGIC \<and> nat r + 4 \<le> sz \<and>
    0x48 < unat (le32 (view (nat r + 4) 4 m)) \<and>
    nat r + unat (le32 (view (nat r + 4) 4 m)) \<le> sz \<and>
    nat r + unat (le32 (view (nat r + 8) 4 m)) \<le> sz \<and>
    le32 (view (nat r + unat (le32 (view (nat r + 8) 4 m))) 4 m) = 1"
proof -
  obtain c where c: "dtb_loop m sz 0 = Inr (Some c)" "r = sint (of_nat c :: u32)"
    using assms(1,2) by (auto simp: find_dtb_offset_def split: option.splits)
  note found = dtb_loop_Some [OF c(1)]
  have "r = int c"
    using found assms(3) by (simp add: c(2) signed_of_nat signed_take_bit_int_eq_self)
  with found dtb_accept_True [of m sz c] show ?thesis by auto
qed

definition host_order_tree :: bytes where
  "host_order_tree = DTB_MAGIC @ le32_bytes 80 @ le32_bytes 40 @ replicate 28 0 @ le32_bytes 1 @
     replicate 36 0"

lemma host_order_tree_found: "find_dtb_offset host_order_tree (length host_order_tree) = Inr 0"
  by (simp add: find_dtb_offset_def dtb_loop.simps memmem.simps dtb_accept_def host_order_tree_def
      DTB_MAGIC_def view_def le32_bytes_def fdt32_def)

theorem find_dtb_sound_witness:
  "match_at host_order_tree 0 DTB_MAGIC \<and> 0x48 < unat (le32 (view 4 4 host_order_tree))"
proof -
  have "length host_order_tree < 2 ^ 31" by (simp add: host_order_tree_def DTB_MAGIC_def)
  from find_dtb_sound [OF host_order_tree_found _ this] show ?thesis by simp
qed

text \<open>
  C27: a buffer under 16 MiB in which every device tree magic is followed by a header with a
  structure offset not divisible by 256 in the big-endian order of the device tree
  specification yields \<open>-1\<close>: \<open>fdt32_t\<close> reads the fields in the host's order, so such trees,
  which is what compilers of device trees emit, are never found.
\<close>

theorem find_dtb_misses_standard_trees:
  assumes "standard_trees m sz"
  shows "find_dtb_offset m sz = Inr (- 1)"
  using dtb_loop_misses [OF assms] by (simp add: find_dtb_offset_def)

definition big_endian_tree :: bytes where
  "big_endian_tree = DTB_MAGIC @ rev (le32_bytes 80) @ rev (le32_bytes 56) @ replicate 44 0 @
     rev (le32_bytes 1) @ replicate 20 0"

lemma match_at_first: "match_at m c DTB_MAGIC \<Longrightarrow> c < length m \<and> m ! c = 0xd0"
proof -
  assume "match_at m c DTB_MAGIC"
  then have "take 4 (drop c m) = [0xd0, 0x0d, 0xfe, 0xed]"
    by (simp add: match_at_def view_def DTB_MAGIC_def numeral_eq_Suc)
  then obtain r where "drop c m = 0xd0 # r" by (cases "drop c m") auto
  then show ?thesis by (metis drop_eq_Nil list.distinct(1) not_le nth_via_drop)
qed

lemma big_endian_tree_magic: "Suc c < 80 \<Longrightarrow> big_endian_tree ! Suc c \<noteq> 0xd0"
proof -
  have "list_all (\<lambda>b. b \<noteq> 0xd0) (tl big_endian_tree)" "length big_endian_tree = 80"
    by (simp_all add: big_endian_tree_def DTB_MAGIC_def le32_bytes_def list_all_iff)
  then show "Suc c < 80 \<Longrightarrow> big_endian_tree ! Suc c \<noteq> 0xd0"
    by (simp add: list_all_length nth_tl)
qed

theorem find_dtb_misses_standard_trees_witness:
  "be32 (view 8 4 big_endian_tree) = 56 \<and> be32 (view 56 4 big_endian_tree) = 1 \<and>
   find_dtb_offset big_endian_tree 80 = Inr (- 1)"
proof -
  have magic: "match_at big_endian_tree c DTB_MAGIC \<Longrightarrow> c = 0" if "c < 80" for c
    using that match_at_first [of big_endian_tree c] big_endian_tree_magic [of "c - 1"]
    by (cases c) simp_all
  have room: "length big_endian_tree = 80" "big_endian_tree ! 11 = 56"
    by (simp_all add: big_endian_tree_def DTB_MAGIC_def le32_bytes_def)
  have "standard_trees big_endian_tree 80"
    unfolding standard_trees_def
  proof (intro conjI allI impI)
    fix c assume "c < (80 :: nat)" "match_at big_endian_tree c DTB_MAGIC"
    with magic have "c = 0" by blast
    with room show "c + 12 \<le> length big_endian_tree" "big_endian_tree ! (c + 11) \<noteq> 0"
      by simp_all
  qed (simp_all add: room)
  from find_dtb_misses_standard_trees [OF this] show ?thesis
    by (simp add: big_endian_tree_def be32_def le32_bytes_def view_def DTB_MAGIC_def)
qed

text \<open>
  A buffer that ends in the device tree magic, its only one, makes \<open>find_dtb_offset\<close> read
  the header fields behind the end of the buffer.
\<close>

theorem find_dtb_reads_past_end:
  assumes "\<forall>k < n. \<not> match_at m k DTB_MAGIC" "match_at m n DTB_MAGIC" "length m = n + 4"
  shows "find_dtb_offset m (length m) = Inl OutOfBounds"
  using dtb_loop_overread [OF assms] by (simp add: find_dtb_offset_def)

theorem find_dtb_reads_past_end_witness:
  "find_dtb_offset [1, 0xd0, 0x0d, 0xfe, 0xed] (length [1, 0xd0, 0x0d, 0xfe, 0xed :: byte]) =
     Inl OutOfBounds"
  by (rule find_dtb_reads_past_end [of 1]) (simp_all add: match_at_def DTB_MAGIC_def view_def)

end
