(* ===== verification/Crypto.thy ===== *)
theory Crypto
  imports Formats HostIO
begin

text \<open>
  \<open>boot_crypto.cpp\<close>: the SHA class, the compressors and decompressors and their dispatch
  on the format. What zlib, LZ4 and OpenSSL compute is not code of this program: a record
  holds the library functions the code calls, and every routine takes it. A routine that
  writes yields its outcome together with the file, since what was written before an
  exception stays written. The loops around the streaming libraries end when the library says
  so; they are partial functions, and not returning is \<open>Diverges\<close>.
\<close>

section \<open>The libraries\<close>

text \<open>
  One call of a streaming codec: the return code, the new state, the input left over and the
  output of the call, for a given state, input and output capacity.
\<close>

type_synonym 'z stream_call = "int \<times> 'z \<times> bytes \<times> bytes"

record ('z, 'd) libs =
  LZ4_compress_default :: "bytes \<Rightarrow> nat \<Rightarrow> bytes option"
  LZ4_decompress_safe :: "bytes \<Rightarrow> nat \<Rightarrow> bytes option"
  LZ4F_compressFrame :: "bytes \<Rightarrow> bytes option"
  LZ4F_createDecompressionContext :: "'d option"
  LZ4F_decompress :: "'d \<Rightarrow> bytes \<Rightarrow> nat \<Rightarrow> (nat option \<times> 'd \<times> nat \<times> bytes)"
  deflateInit2 :: "int \<Rightarrow> 'z option"
  deflate :: "'z \<Rightarrow> bytes \<Rightarrow> bool \<Rightarrow> nat \<Rightarrow> 'z stream_call"
  inflateInit2 :: "'z option"
  inflate :: "'z \<Rightarrow> bytes \<Rightarrow> nat \<Rightarrow> 'z stream_call"
  use_openssl_sha :: bool
  sha1_digest :: "bytes \<Rightarrow> bytes"
  sha256_digest :: "bytes \<Rightarrow> bytes"

section \<open>SHA\<close>

datatype algorithm = SHA1 | SHA256

record SHA =
  alg :: algorithm
  ctx :: "bytes option"

definition SHA_new :: "('z, 'd) libs \<Rightarrow> algorithm \<Rightarrow> SHA result" where
  "SHA_new L a = (if use_openssl_sha L then Inr \<lparr>alg = a, ctx = Some []\<rparr> else Inl Abort)"

definition SHA_update :: "bytes \<Rightarrow> SHA \<Rightarrow> SHA" where
  "SHA_update d s = (case ctx s of None \<Rightarrow> s | Some seen \<Rightarrow> s\<lparr>ctx := Some (seen @ d)\<rparr>)"

definition SHA_output_size :: "('z, 'd) libs \<Rightarrow> SHA \<Rightarrow> nat" where
  "SHA_output_size L s =
     (if \<not> use_openssl_sha L then 0 else case alg s of SHA256 \<Rightarrow> 32 | SHA1 \<Rightarrow> 20)"

text \<open>\<open>finalize_into\<close> a buffer of \<open>n\<close> bytes: the digest stored, \<open>None\<close> when nothing is.\<close>

definition SHA_finalize_into :: "('z, 'd) libs \<Rightarrow> nat \<Rightarrow> SHA \<Rightarrow> (bytes option \<times> SHA) result" where
  "SHA_finalize_into L n s =
     (case ctx s of
        None \<Rightarrow> Inr (None, s)
      | Some seen \<Rightarrow>
          (case alg s of
             SHA256 \<Rightarrow> if n < 32 then Inl Abort else Inr (Some (sha256_digest L seen), s\<lparr>ctx := None\<rparr>)
           | SHA1 \<Rightarrow> if n < 20 then Inl Abort else Inr (Some (sha1_digest L seen), s\<lparr>ctx := None\<rparr>)))"

definition get_sha :: "('z, 'd) libs \<Rightarrow> bool \<Rightarrow> SHA result" where
  "get_sha L use_sha1 = SHA_new L (if use_sha1 then SHA1 else SHA256)"

definition sha256_hash :: "('z, 'd) libs \<Rightarrow> bytes \<Rightarrow> nat \<Rightarrow> bytes option result" where
  "sha256_hash L d n =
     bindR (SHA_new L SHA256) (\<lambda>s. bindR (SHA_finalize_into L n (SHA_update d s)) (\<lambda>r. Inr (fst r)))"

lemma SHA_updates: "ctx s = Some seen \<Longrightarrow> fold SHA_update ds s = s\<lparr>ctx := Some (seen @ concat ds)\<rparr>"
  by (induction ds arbitrary: s seen) (simp_all add: SHA_update_def)

lemma SHA_stream:
  assumes "get_sha L use_sha1 = Inr s"
  shows "SHA_finalize_into L (SHA_output_size L s) (fold SHA_update ds s) =
    Inr (Some ((if use_sha1 then sha1_digest L else sha256_digest L) (concat ds)), s\<lparr>ctx := None\<rparr>)"
  using assms
  by (auto simp: get_sha_def SHA_new_def SHA_updates SHA_finalize_into_def SHA_output_size_def
      split: if_splits)

section \<open>LZ4 frames\<close>

type_synonym io = "unit result \<times> ofd"

definition lz4f_compress :: "('z, 'd) libs \<Rightarrow> bytes \<Rightarrow> ofd \<Rightarrow> io" where
  "lz4f_compress L inp f =
     (case LZ4F_compressFrame L inp of
        None \<Rightarrow> (Inl (Throw ''LZ4 frame compress failed''), f)
      | Some out \<Rightarrow>
          let (n, f') = xwrite out f
          in if n < 0 then (Inl (Throw ''write failed''), f') else (Inr (), f'))"

definition OUT_BUF :: nat where
  "OUT_BUF = 64 * 1024"

text \<open>\<open>if (n > 0 && xwrite(...) < 0)\<close>, as the stream loops write their output buffer.\<close>

definition write_out :: "bytes \<Rightarrow> ofd \<Rightarrow> bool \<times> ofd" where
  "write_out out f =
     (if out = [] then (True, f) else let (n, f') = xwrite out f in (\<not> n < 0, f'))"

partial_function (option) lz4f_loop ::
    "('z, 'd) libs \<Rightarrow> 'd \<Rightarrow> bytes \<Rightarrow> ofd \<Rightarrow> io option" where
  "lz4f_loop L d src f =
     (if src = [] then Some (Inr (), f)
      else case LZ4F_decompress L d src OUT_BUF of
        (n, d', used, out) \<Rightarrow>
          (case n of
             None \<Rightarrow> Some (Inl (Throw ''LZ4 frame decompress failed''), f)
           | Some hint \<Rightarrow>
               (case write_out out f of
                  (ok, f') \<Rightarrow>
                    if \<not> ok then Some (Inl (Throw ''write failed''), f')
                    else if hint = 0 then Some (Inr (), f')
                    else lz4f_loop L d' (drop used src) f')))"

definition returns_or_diverges :: "ofd \<Rightarrow> io option \<Rightarrow> io" where
  "returns_or_diverges f r = (case r of None \<Rightarrow> (Inl Diverges, f) | Some x \<Rightarrow> x)"

definition lz4f_decompress :: "('z, 'd) libs \<Rightarrow> bytes \<Rightarrow> ofd \<Rightarrow> io" where
  "lz4f_decompress L inp f =
     (case LZ4F_createDecompressionContext L of
        None \<Rightarrow> (Inl (Throw ''LZ4 frame init failed''), f)
      | Some d \<Rightarrow> returns_or_diverges f (lz4f_loop L d inp f))"

section \<open>LZ4 legacy blocks\<close>

definition LZ4_LEGACY_BLOCK_MAX :: nat where
  "LZ4_LEGACY_BLOCK_MAX = 8 * 1024 * 1024"

definition LZ4_LEGACY_COMPRESS_BLOCK :: nat where
  "LZ4_LEGACY_COMPRESS_BLOCK = 64 * 1024"

definition LZ4_LEGACY_COMP_BLOCK_MAX :: nat where
  "LZ4_LEGACY_COMP_BLOCK_MAX = 16 * 1024 * 1024"

definition LZ4_LEGACY_DECOMP_TOTAL_MAX :: nat where
  "LZ4_LEGACY_DECOMP_TOTAL_MAX = 256 * 1024 * 1024"

text \<open>\<open>LZ4_compressBound\<close> as \<open>lz4.h\<close> defines it, for sizes up to \<open>LZ4_MAX_INPUT_SIZE\<close>.\<close>

definition LZ4_compressBound :: "nat \<Rightarrow> nat" where
  "LZ4_compressBound n = (if 0x7E000000 < n then 0 else n + n div 255 + 16)"

function lz4_compress_loop :: "('z, 'd) libs \<Rightarrow> bytes \<Rightarrow> ofd \<Rightarrow> io" where
  "lz4_compress_loop L src f =
     (if src = [] then (Inr (), f)
      else
        let chunk = take LZ4_LEGACY_COMPRESS_BLOCK src
        in case LZ4_compress_default L chunk (LZ4_compressBound LZ4_LEGACY_COMPRESS_BLOCK) of
             None \<Rightarrow> (Inl (Throw ''LZ4 legacy compress failed''), f)
           | Some c \<Rightarrow>
               if c = [] then (Inl (Throw ''LZ4 legacy compress failed''), f)
               else
                 let (_, f1) = xwrite (le32_bytes (of_nat (length c))) f;
                     (_, f2) = xwrite c f1
                 in lz4_compress_loop L (drop (length chunk) src) f2)"
  by pat_completeness auto
termination
  by (relation "measure (\<lambda>(L, src, f). length src)") (auto simp: LZ4_LEGACY_COMPRESS_BLOCK_def)

declare lz4_compress_loop.simps [simp del]

definition lz4_legacy_compress :: "('z, 'd) libs \<Rightarrow> bytes \<Rightarrow> ofd \<Rightarrow> io" where
  "lz4_legacy_compress L inp f =
     (let (_, f1) = xwrite LZ4_LEG_MAGIC f in lz4_compress_loop L inp f1)"

function lz4_decompress_loop :: "('z, 'd) libs \<Rightarrow> bytes \<Rightarrow> nat \<Rightarrow> nat \<Rightarrow> ofd \<Rightarrow> io" where
  "lz4_decompress_loop L inp off total_out f =
     (if off + 4 \<le> length inp then
        let comp_sz = unat (le32 (view off 4 inp)); off1 = off + 4
        in if comp_sz = 0 then (Inr (), f)
           else if length inp - off1 < comp_sz then (Inl (Throw ''LZ4 legacy block overrun''), f)
           else if LZ4_LEGACY_COMP_BLOCK_MAX < comp_sz then
             (Inl (Throw ''LZ4 legacy block too large''), f)
           else (case LZ4_decompress_safe L (view off1 comp_sz inp) LZ4_LEGACY_BLOCK_MAX of
                   None \<Rightarrow> (Inl (Throw ''LZ4 legacy decompress failed''), f)
                 | Some out \<Rightarrow>
                     if LZ4_LEGACY_DECOMP_TOTAL_MAX < total_out + length out then
                       (Inl (Throw ''LZ4 legacy decompress output too large''), f)
                     else
                       let (_, f') = xwrite out f
                       in lz4_decompress_loop L inp (off1 + comp_sz) (total_out + length out) f')
      else (Inr (), f))"
  by pat_completeness auto
termination
  by (relation "measure (\<lambda>(L, inp, off, total_out, f). length inp - off)") auto

declare lz4_decompress_loop.simps [simp del]

definition lz4_legacy_decompress :: "('z, 'd) libs \<Rightarrow> bytes \<Rightarrow> ofd \<Rightarrow> io" where
  "lz4_legacy_decompress L inp f =
     (if length inp \<le> 4 + 4 then (Inl (Throw ''LZ4 legacy too short''), f)
      else if \<not> match_at inp 0 LZ4_LEG_MAGIC then (Inl (Throw ''LZ4 legacy bad magic''), f)
      else lz4_decompress_loop L inp 4 0 f)"

section \<open>gzip\<close>

definition Z_OK :: int where "Z_OK = 0"
definition Z_STREAM_END :: int where "Z_STREAM_END = 1"
definition Z_STREAM_ERROR :: int where "Z_STREAM_ERROR = - 2"
definition Z_DATA_ERROR :: int where "Z_DATA_ERROR = - 3"
definition Z_MEM_ERROR :: int where "Z_MEM_ERROR = - 4"
definition Z_BUF_ERROR :: int where "Z_BUF_ERROR = - 5"

lemmas z_defs = Z_OK_def Z_STREAM_END_def Z_STREAM_ERROR_def Z_DATA_ERROR_def Z_MEM_ERROR_def
  Z_BUF_ERROR_def

text \<open>\<open>avail_in\<close> is a 32-bit count: the stream sees the size modulo \<open>2^32\<close>.\<close>

definition avail_in :: "bytes \<Rightarrow> bytes" where
  "avail_in inp = take (length inp mod 2 ^ 32) inp"

partial_function (option) deflate_loop ::
    "('z, 'd) libs \<Rightarrow> 'z \<Rightarrow> bytes \<Rightarrow> ofd \<Rightarrow> io option" where
  "deflate_loop L z inp f =
     (case deflate L z inp (inp = []) OUT_BUF of
        (ret, z', rest, out) \<Rightarrow>
          if ret = Z_STREAM_ERROR then Some (Inl (Throw ''deflate stream error''), f)
          else (case write_out out f of
                  (ok, f') \<Rightarrow>
                    if \<not> ok then Some (Inl (Throw ''write failed''), f')
                    else if ret \<noteq> Z_STREAM_END then deflate_loop L z' rest f'
                    else Some (Inr (), f')))"

definition zlib_deflate_gzip :: "('z, 'd) libs \<Rightarrow> bytes \<Rightarrow> int \<Rightarrow> ofd \<Rightarrow> io" where
  "zlib_deflate_gzip L inp level f =
     (case deflateInit2 L level of
        None \<Rightarrow> (Inl (Throw ''deflateInit2 failed''), f)
      | Some z \<Rightarrow> returns_or_diverges f (deflate_loop L z (avail_in inp) f))"

partial_function (option) inflate_loop ::
    "('z, 'd) libs \<Rightarrow> 'z \<Rightarrow> bytes \<Rightarrow> ofd \<Rightarrow> io option" where
  "inflate_loop L z inp f =
     (case inflate L z inp OUT_BUF of
        (ret, z', rest, out) \<Rightarrow>
          if ret = Z_STREAM_ERROR \<or> ret = Z_DATA_ERROR \<or> ret = Z_MEM_ERROR
          then Some (Inl (Throw ''inflate failed''), f)
          else (case write_out out f of
                  (ok, f') \<Rightarrow>
                    if \<not> ok then Some (Inl (Throw ''write failed''), f')
                    else if ret \<noteq> Z_STREAM_END then inflate_loop L z' rest f'
                    else Some (Inr (), f')))"

definition zlib_inflate_gzip :: "('z, 'd) libs \<Rightarrow> bytes \<Rightarrow> ofd \<Rightarrow> io" where
  "zlib_inflate_gzip L inp f =
     (case inflateInit2 L of
        None \<Rightarrow> (Inl (Throw ''inflateInit2 failed''), f)
      | Some z \<Rightarrow> returns_or_diverges f (inflate_loop L z (avail_in inp) f))"

section \<open>Dispatch on the format\<close>

definition Z_BEST_COMPRESSION :: int where "Z_BEST_COMPRESSION = 9"
definition Z_DEFAULT_COMPRESSION :: int where "Z_DEFAULT_COMPRESSION = - 1"

definition unsupported_format :: "ofd \<Rightarrow> io" where
  "unsupported_format f = (Inl (Exit 1), f)"

definition compress_bytes :: "('z, 'd) libs \<Rightarrow> FileFormat \<Rightarrow> bytes \<Rightarrow> ofd \<Rightarrow> io" where
  "compress_bytes L fmt inp f =
     (case fmt of
        GZIP \<Rightarrow> zlib_deflate_gzip L inp Z_DEFAULT_COMPRESSION f
      | ZOPFLI \<Rightarrow> zlib_deflate_gzip L inp Z_BEST_COMPRESSION f
      | LZ4 \<Rightarrow> lz4f_compress L inp f
      | LZ4_LEGACY \<Rightarrow> lz4_legacy_compress L inp f
      | LZ4_LG \<Rightarrow> lz4_legacy_compress L inp f
      | _ \<Rightarrow> unsupported_format f)"

definition decompress_bytes :: "('z, 'd) libs \<Rightarrow> FileFormat \<Rightarrow> bytes \<Rightarrow> ofd \<Rightarrow> io" where
  "decompress_bytes L fmt inp f =
     (case fmt of
        GZIP \<Rightarrow> zlib_inflate_gzip L inp f
      | ZOPFLI \<Rightarrow> zlib_inflate_gzip L inp f
      | LZ4 \<Rightarrow> lz4f_decompress L inp f
      | LZ4_LEGACY \<Rightarrow> lz4_legacy_decompress L inp f
      | LZ4_LG \<Rightarrow> lz4_legacy_decompress L inp f
      | _ \<Rightarrow> unsupported_format f)"

text \<open>AVB1 signing is a stub: the signature is empty.\<close>

definition sign_payload :: "bytes \<Rightarrow> bytes" where
  "sign_payload payload = []"

end
