(* ===== verification/CryptoCorrect.thy ===== *)
theory CryptoCorrect
  imports Crypto
begin

text \<open>
  What the codecs of \<open>boot_crypto.cpp\<close> do with their libraries: the legacy LZ4 writer and
  reader are inverse to each other when the block codec is lossless, the stream they exchange
  is one the recogniser calls legacy, the trailing size of an LG stream is taken for a block,
  and the gzip loop never returns when the library reports that it needs more input.
\<close>

section \<open>Files that take every write whole\<close>

definition plain :: "ofd \<Rightarrow> bool" where
  "plain f \<longleftrightarrow> appending f \<and> \<not> fd_bad f \<and> fd_answers f = []"

definition extend :: "ofd \<Rightarrow> bytes \<Rightarrow> ofd" where
  "extend f bs = f\<lparr>fd_data := fd_data f @ bs, fd_pos := fd_pos f + length bs\<rparr>"

lemma extend_Nil [simp]: "extend f [] = f"
  by (simp add: extend_def)

lemma extend_extend [simp]: "extend (extend f a) b = extend f (a @ b)"
  by (simp add: extend_def add.assoc)

lemma plain_extend [simp]: "plain f \<Longrightarrow> plain (extend f bs)"
  by (simp add: plain_def appending_def extend_def)

lemma fd_data_extend [simp]: "fd_data (extend f bs) = fd_data f @ bs"
  by (simp add: extend_def)

lemma xwrite_plain [simp]: "plain f \<Longrightarrow> xwrite bs f = (int (length bs), extend f bs)"
  by (simp add: xwrite_def sys_write_def plain_def transfer_def appending_def extend_def)

lemma write_out_plain [simp]: "plain f \<Longrightarrow> write_out out f = (True, extend f out)"
  by (simp add: write_out_def)

section \<open>The legacy stream\<close>

text \<open>
  What \<open>lz4.h\<close> documents: a block of at most 64 KiB compresses into a buffer of
  \<open>LZ4_compressBound\<close> bytes, and decompressing the result into a buffer at least as large as
  the block gives the block back.
\<close>

definition lz4_documented :: "('z, 'd) libs \<Rightarrow> bool" where
  "lz4_documented L \<longleftrightarrow>
     (\<forall>c. c \<noteq> [] \<and> length c \<le> LZ4_LEGACY_COMPRESS_BLOCK \<longrightarrow>
       (\<exists>d. LZ4_compress_default L c (LZ4_compressBound LZ4_LEGACY_COMPRESS_BLOCK) = Some d \<and>
          d \<noteq> [] \<and> length d \<le> LZ4_compressBound LZ4_LEGACY_COMPRESS_BLOCK \<and>
          LZ4_decompress_safe L d LZ4_LEGACY_BLOCK_MAX = Some c))"

definition decodes :: "('z, 'd) libs \<Rightarrow> bytes \<Rightarrow> bytes \<Rightarrow> bool" where
  "decodes L d c \<longleftrightarrow> d \<noteq> [] \<and> length d \<le> LZ4_LEGACY_COMP_BLOCK_MAX \<and>
     LZ4_decompress_safe L d LZ4_LEGACY_BLOCK_MAX = Some c"

text \<open>The compressed blocks of an input: nearly all of them hold 64 KiB of it.\<close>

definition compressed_to :: "('z, 'd) libs \<Rightarrow> bytes \<Rightarrow> bytes list \<Rightarrow> bool" where
  "compressed_to L src ds \<longleftrightarrow>
     (\<exists>cs. list_all2 (decodes L) ds cs \<and> concat cs = src) \<and>
     (src \<noteq> [] \<longrightarrow> ds \<noteq> []) \<and>
     LZ4_LEGACY_COMPRESS_BLOCK * length ds < length src + LZ4_LEGACY_COMPRESS_BLOCK \<and>
     (\<forall>d \<in> set ds. length d \<le> LZ4_compressBound LZ4_LEGACY_COMPRESS_BLOCK)"

lemma compressed_to_Nil [simp]: "compressed_to L [] []"
  by (simp add: compressed_to_def LZ4_LEGACY_COMPRESS_BLOCK_def)

lemma compressed_to_Cons:
  assumes "decodes L d c" "compressed_to L r ds" "c \<noteq> []"
    "length c = LZ4_LEGACY_COMPRESS_BLOCK \<or> (r = [] \<and> ds = [])"
    "length d \<le> LZ4_compressBound LZ4_LEGACY_COMPRESS_BLOCK"
  shows "compressed_to L (c @ r) (d # ds)"
proof -
  obtain cs where cs: "list_all2 (decodes L) ds cs" "concat cs = r"
    using assms(2) by (auto simp: compressed_to_def)
  have "\<exists>cs. list_all2 (decodes L) (d # ds) cs \<and> concat cs = c @ r"
    using cs assms(1) by (intro exI [of _ "c # cs"]) simp
  with assms(2-5) show ?thesis
    by (auto simp: compressed_to_def)
qed

lemma compressBound_block: "LZ4_compressBound LZ4_LEGACY_COMPRESS_BLOCK = 65809"
  by (simp add: LZ4_compressBound_def LZ4_LEGACY_COMPRESS_BLOCK_def)

lemma lz4_compress_loop_nil: "lz4_compress_loop L [] f = (Inr (), f)"
  by (simp add: lz4_compress_loop.simps)

lemma lz4_compress_loop_chunk:
  assumes "src \<noteq> []" "plain f" "c = take LZ4_LEGACY_COMPRESS_BLOCK src"
    "LZ4_compress_default L c (LZ4_compressBound LZ4_LEGACY_COMPRESS_BLOCK) = Some d" "d \<noteq> []"
  shows "lz4_compress_loop L src f =
    lz4_compress_loop L (drop (length c) src) (extend f (lz4_block d))"
  using assms(1,2,4,5)
  by (subst lz4_compress_loop.simps) (simp add: Let_def assms(3) [symmetric] lz4_block_def)

lemma lz4_compress_loop_blocks:
  assumes "lz4_documented L"
  shows "plain f \<Longrightarrow> \<exists>ds. lz4_compress_loop L src f = (Inr (), extend f (blocks ds)) \<and> compressed_to L src ds"
proof (induction "length src" arbitrary: src f rule: less_induct)
  case less
  show ?case
  proof (cases "src = []")
    case True
    then show ?thesis
      by (intro exI [of _ "[]"]) (simp add: lz4_compress_loop_nil)
  next
    case False
    define c where "c = take LZ4_LEGACY_COMPRESS_BLOCK src"
    define r where "r = drop (length c) src"
    have src: "src = c @ r"
      unfolding c_def r_def by (simp add: min_def)
    have c: "c \<noteq> []" "length c \<le> LZ4_LEGACY_COMPRESS_BLOCK"
      "length c = LZ4_LEGACY_COMPRESS_BLOCK \<or> r = []"
      using False by (auto simp: c_def r_def LZ4_LEGACY_COMPRESS_BLOCK_def)
    obtain d where d: "LZ4_compress_default L c (LZ4_compressBound LZ4_LEGACY_COMPRESS_BLOCK) = Some d"
      "d \<noteq> []" "length d \<le> LZ4_compressBound LZ4_LEGACY_COMPRESS_BLOCK"
      "LZ4_decompress_safe L d LZ4_LEGACY_BLOCK_MAX = Some c"
      using assms c unfolding lz4_documented_def by blast
    have step: "lz4_compress_loop L src f = lz4_compress_loop L r (extend f (lz4_block d))"
      using lz4_compress_loop_chunk [OF False less(2) c_def d(1,2)] by (simp add: r_def)
    have dec: "decodes L d c"
      using d by (simp add: decodes_def compressBound_block LZ4_LEGACY_COMP_BLOCK_MAX_def)
    show ?thesis
    proof (cases "r = []")
      case True
      with step compressed_to_Cons [OF dec, of "[]" "[]"] c(1) d(3) src show ?thesis
        by (intro exI [of _ "[d]"]) (simp add: lz4_compress_loop_nil)
    next
      case more: False
      have "length r < length src"
        using c src by simp
      from less(1) [OF this plain_extend [OF less(2)]] obtain ds where
        IH: "lz4_compress_loop L r (extend f (lz4_block d)) =
          (Inr (), extend (extend f (lz4_block d)) (blocks ds))" "compressed_to L r ds"
        by blast
      have "compressed_to L (c @ r) (d # ds)"
        using compressed_to_Cons [OF dec IH(2)] c more d(3) by blast
      with step IH(1) src show ?thesis
        by (intro exI [of _ "d # ds"]) simp
    qed
  qed
qed

lemma lz4_legacy_compress_blocks:
  assumes "lz4_documented L" "plain f"
  shows "\<exists>ds. lz4_legacy_compress L src f = (Inr (), extend f (LZ4_LEG_MAGIC @ blocks ds)) \<and> compressed_to L src ds"
  using lz4_compress_loop_blocks [OF assms(1), of "extend f LZ4_LEG_MAGIC" src] assms(2)
  by (auto simp: lz4_legacy_compress_def)

text \<open>The stream is at most a little larger than its input.\<close>

lemma length_blocks: "\<forall>d \<in> set ds. length d \<le> k \<Longrightarrow> length (blocks ds) \<le> (4 + k) * length ds"
  by (induction ds) auto

lemma length_compressed:
  assumes "compressed_to L src ds" "length src \<le> LZ4_LEGACY_DECOMP_TOTAL_MAX"
  shows "8 + length (blocks ds) < 2 ^ 30"
proof -
  have "65536 * length ds < length src + 65536"
    using assms(1) by (simp add: compressed_to_def LZ4_LEGACY_COMPRESS_BLOCK_def)
  then have "length ds \<le> 4096"
    using assms(2) by (simp add: LZ4_LEGACY_DECOMP_TOTAL_MAX_def)
  moreover have "length (blocks ds) \<le> (4 + 65809) * length ds"
    using assms(1) by (intro length_blocks) (simp add: compressed_to_def compressBound_block)
  ultimately show ?thesis by simp
qed

section \<open>Reading blocks\<close>

lemma lz4_decompress_loop_block:
  assumes "decodes L d c" "plain f" "tot + length c \<le> LZ4_LEGACY_DECOMP_TOTAL_MAX"
  shows "lz4_decompress_loop L (pre @ lz4_block d @ post) (length pre) tot f =
    lz4_decompress_loop L (pre @ lz4_block d @ post) (length (pre @ lz4_block d)) (tot + length c) (extend f c)"
proof -
  let ?inp = "pre @ lz4_block d @ post"
  have small: "length d < 2 ^ 32"
    using assms(1) by (simp add: decodes_def LZ4_LEGACY_COMP_BLOCK_MAX_def)
  have sz: "unat (le32 (view (length pre) 4 ?inp)) = length d"
    using small by (simp add: view_append_at lz4_block_def unat_of_nat_u32)
  have blk: "view (length pre + 4) (length d) ?inp = d"
    using view_append_at [of "pre @ le32_bytes (of_nat (length d))" "length d" "d @ post"]
    by (simp add: lz4_block_def)
  show ?thesis
    using assms
    by (subst lz4_decompress_loop.simps)
      (simp add: Let_def sz blk decodes_def add.assoc split: option.splits)
qed

lemma lz4_decompress_loop_blocks:
  assumes "list_all2 (decodes L) ds cs" "plain f"
    "tot + length (concat cs) \<le> LZ4_LEGACY_DECOMP_TOTAL_MAX"
  shows "lz4_decompress_loop L (pre @ blocks ds @ post) (length pre) tot f =
    lz4_decompress_loop L (pre @ blocks ds @ post) (length (pre @ blocks ds))
      (tot + length (concat cs)) (extend f (concat cs))"
  using assms
proof (induction ds cs arbitrary: pre tot f rule: list_all2_induct)
  case Nil
  then show ?case by simp
next
  case (Cons d ds c cs)
  have "lz4_decompress_loop L (pre @ lz4_block d @ (blocks ds @ post)) (length pre) tot f =
      lz4_decompress_loop L (pre @ lz4_block d @ (blocks ds @ post)) (length (pre @ lz4_block d))
        (tot + length c) (extend f c)"
    using Cons by (intro lz4_decompress_loop_block) simp_all
  also have "\<dots> = lz4_decompress_loop L ((pre @ lz4_block d) @ blocks ds @ post)
      (length ((pre @ lz4_block d) @ blocks ds)) (tot + length c + length (concat cs))
      (extend (extend f c) (concat cs))"
    using Cons.IH [of "extend f c" "tot + length c" "pre @ lz4_block d"] Cons.prems by simp
  finally show ?case by (simp add: add.assoc)
qed

lemma match_at_0_append [simp]: "match_at (s @ r) 0 s"
  by (simp add: match_at_def view_def)

lemma lz4_legacy_decompress_blocks:
  assumes "compressed_to L src ds" "src \<noteq> []" "length src \<le> LZ4_LEGACY_DECOMP_TOTAL_MAX" "plain f"
  shows "lz4_legacy_decompress L (LZ4_LEG_MAGIC @ blocks ds @ post) f =
    lz4_decompress_loop L (LZ4_LEG_MAGIC @ blocks ds @ post) (length (LZ4_LEG_MAGIC @ blocks ds))
      (length src) (extend f src)"
proof -
  obtain cs where cs: "list_all2 (decodes L) ds cs" "concat cs = src"
    using assms(1) by (auto simp: compressed_to_def)
  obtain d ds' where ds: "ds = d # ds'"
    using assms(1,2) by (cases ds) (auto simp: compressed_to_def)
  with cs have "d \<noteq> []"
    by (auto simp: decodes_def list_all2_Cons1)
  then have "8 < length (LZ4_LEG_MAGIC @ blocks ds @ post)"
    by (cases d) (simp_all add: ds)
  with lz4_decompress_loop_blocks [OF cs(1) assms(4), of 0 LZ4_LEG_MAGIC post] cs(2) assms(3)
  show ?thesis
    by (simp add: lz4_legacy_decompress_def)
qed

lemma lz4_decompress_loop_end: "length inp < off + 4 \<Longrightarrow> lz4_decompress_loop L inp off t f = (Inr (), f)"
  by (simp add: lz4_decompress_loop.simps)

lemma lz4_legacy_roundtrip_blocks:
  assumes "compressed_to L src ds" "src \<noteq> []" "length src \<le> LZ4_LEGACY_DECOMP_TOTAL_MAX" "plain f"
  shows "lz4_legacy_decompress L (LZ4_LEG_MAGIC @ blocks ds) f = (Inr (), extend f src)"
  using lz4_legacy_decompress_blocks [OF assms, of "[]"] by (simp add: lz4_decompress_loop_end)

text \<open>The size that ends an LG stream reads as a block that is not there.\<close>

lemma lz4_lg_trailer:
  assumes "compressed_to L src ds" "src \<noteq> []" "length src \<le> LZ4_LEGACY_DECOMP_TOTAL_MAX" "plain f"
    "0 < n" "n < 2 ^ 32"
  shows "lz4_legacy_decompress L (LZ4_LEG_MAGIC @ blocks ds @ le32_bytes (of_nat n)) f =
    (Inl (Throw ''LZ4 legacy block overrun''), extend f src)"
proof -
  let ?inp = "LZ4_LEG_MAGIC @ blocks ds @ le32_bytes (of_nat n)"
  let ?off = "length (LZ4_LEG_MAGIC @ blocks ds)"
  have sz: "unat (le32 (view ?off 4 ?inp)) = n"
    using view_append_at [of "LZ4_LEG_MAGIC @ blocks ds" 4 "le32_bytes (of_nat n)"] assms(6)
    by (simp add: unat_of_nat_u32)
  have "lz4_decompress_loop L ?inp ?off (length src) (extend f src) =
      (Inl (Throw ''LZ4 legacy block overrun''), extend f src)"
    by (subst lz4_decompress_loop.simps) (use sz assms(5) in \<open>simp add: Let_def\<close>)
  then show ?thesis
    using lz4_legacy_decompress_blocks [OF assms(1-4), of "le32_bytes (of_nat n)"] by simp
qed

lemma legacy_stream_roundtrip:
  assumes "lz4_documented L" "src \<noteq> []" "length src \<le> LZ4_LEGACY_DECOMP_TOTAL_MAX"
    "plain f" "plain g"
  shows "\<exists>out. compress_bytes L LZ4_LEGACY src f = (Inr (), extend f out) \<and>
    check_fmt_lg out = Inr LZ4_LEGACY \<and>
    decompress_bytes L LZ4_LEGACY out g = (Inr (), extend g src)"
proof -
  obtain ds where ds: "lz4_legacy_compress L src f = (Inr (), extend f (LZ4_LEG_MAGIC @ blocks ds))"
    "compressed_to L src ds"
    using lz4_legacy_compress_blocks [OF assms(1,4)] by blast
  have "check_fmt_lg (LZ4_LEG_MAGIC @ blocks ds) = Inr LZ4_LEGACY"
    using length_compressed [OF ds(2) assms(3)] by (intro check_fmt_lg_legacy) simp
  moreover have "lz4_legacy_decompress L (LZ4_LEG_MAGIC @ blocks ds) g = (Inr (), extend g src)"
    by (rule lz4_legacy_roundtrip_blocks [OF ds(2) assms(2,3,5)])
  ultimately show ?thesis
    using ds(1) by (intro exI [of _ "LZ4_LEG_MAGIC @ blocks ds"])
      (simp add: compress_bytes_def decompress_bytes_def)
qed

section \<open>Streaming loops\<close>

text \<open>A call that consumes nothing, produces nothing and reports neither end nor error repeats.\<close>

lemma inflate_loop_stuck:
  assumes "inflate L z [] OUT_BUF = (ret, z, [], [])"
    "ret \<notin> {Z_STREAM_ERROR, Z_DATA_ERROR, Z_MEM_ERROR, Z_STREAM_END}"
  shows "inflate_loop L z [] f = None"
proof -
  have "inflate_loop L z [] f \<noteq> Some r" for r
  proof
    assume ret: "inflate_loop L z [] f = Some r"
    have "\<not> (L = L \<and> z = z \<and> [] = ([] :: bytes) \<and> f = f)"
    proof (rule inflate_loop.raw_induct
        [where P = "\<lambda>L' z' i' f' r. \<not> (L' = L \<and> z' = z \<and> i' = [] \<and> f' = f)", OF _ ret])
      fix g L' z' i' f' r'
      assume IH: "\<And>L' z' i' f' r. g L' z' i' f' = Some r \<Longrightarrow> \<not> (L' = L \<and> z' = z \<and> i' = [] \<and> f' = f)"
        and eq: "(case inflate L' z' i' OUT_BUF of
        (ret, z'', rest, out) \<Rightarrow>
          if ret = Z_STREAM_ERROR \<or> ret = Z_DATA_ERROR \<or> ret = Z_MEM_ERROR
          then Some (Inl (Throw ''inflate failed''), f')
          else (case write_out out f' of
                  (ok, f'') \<Rightarrow>
                    if \<not> ok then Some (Inl (Throw ''write failed''), f'')
                    else if ret \<noteq> Z_STREAM_END then g L' z'' rest f''
                    else Some (Inr (), f''))) = Some r'"
      show "\<not> (L' = L \<and> z' = z \<and> i' = [] \<and> f' = f)"
      proof
        assume "L' = L \<and> z' = z \<and> i' = [] \<and> f' = f"
        with eq assms have "g L z [] f = Some r'"
          by (simp add: write_out_def)
        with IH show False by blast
      qed
    qed
    then show False by simp
  qed
  then show ?thesis by (cases "inflate_loop L z [] f") auto
qed

text \<open>A run of the library: calls that consume and produce, up to the end of the stream.\<close>

inductive inflates :: "('z, 'd) libs \<Rightarrow> 'z \<Rightarrow> bytes \<Rightarrow> bytes \<Rightarrow> bool" for L where
  stream_end: "inflate L z inp OUT_BUF = (Z_STREAM_END, z', rest, out) \<Longrightarrow> inflates L z inp out"
| call: "inflate L z inp OUT_BUF = (ret, z', rest, out) \<Longrightarrow>
     ret \<notin> {Z_STREAM_ERROR, Z_DATA_ERROR, Z_MEM_ERROR, Z_STREAM_END} \<Longrightarrow>
     inflates L z' rest outs \<Longrightarrow> inflates L z inp (out @ outs)"

lemma inflate_loop_run:
  "inflates L z inp out \<Longrightarrow> plain f \<Longrightarrow> inflate_loop L z inp f = Some (Inr (), extend f out)"
proof (induction arbitrary: f rule: inflates.induct)
  case (stream_end z inp z' rest out)
  then show ?case
    by (subst inflate_loop.simps) (simp add: z_defs)
next
  case (call z inp ret z' rest out outs)
  then show ?case
    by (subst inflate_loop.simps) simp
qed

text \<open>The LZ4 frame loop takes the end of its input for the end of the frame.\<close>

lemma lz4f_loop_truncated:
  assumes "src \<noteq> []" "LZ4F_decompress L d src OUT_BUF = (Some hint, d', length src, out)" "plain f"
  shows "lz4f_loop L d src f = Some (Inr (), extend f out)"
proof -
  have fin: "lz4f_loop L d' [] g = Some (Inr (), g)" for g
    by (simp add: lz4f_loop.simps)
  show ?thesis
    using assms by (subst lz4f_loop.simps) (simp add: fin)
qed

end
