(* ===== verification/SampleLib.thy ===== *)
theory SampleLib
  imports CryptoCorrect
begin

text \<open>
  A concrete set of library functions, on which the properties over a library are applied.
\<close>

section \<open>A library to apply the properties to\<close>

text \<open>
  Stored blocks: a codec that keeps its input, with zlib streams that copy their input and
  report the end on the last byte, and LZ4 frames whose decoder asks for more at the end.
\<close>

definition store_lib :: "(unit, unit) libs" where
  "store_lib = \<lparr>
     LZ4_compress_default = (\<lambda>src n. if length src \<le> n then Some src else None),
     LZ4_decompress_safe = (\<lambda>src n. if length src \<le> n then Some src else None),
     LZ4F_compressFrame = Some,
     LZ4F_createDecompressionContext = Some (),
     LZ4F_decompress = (\<lambda>d src n. (Some 1, d, length (take n src), take n src)),
     deflateInit2 = (\<lambda>_. Some ()),
     deflate = (\<lambda>z inp fin n. (if fin then Z_STREAM_END else Z_OK, z, drop n inp, take n inp)),
     inflateInit2 = Some (),
     inflate = (\<lambda>z inp n.
       (if inp = [] then Z_BUF_ERROR else if last inp = 0 \<and> length inp \<le> n then Z_STREAM_END else Z_OK,
        z, drop n inp, take n inp)),
     use_openssl_sha = True,
     sha1_digest = (\<lambda>d. take 20 (d @ replicate 20 0)),
     sha256_digest = (\<lambda>d. take 32 (d @ replicate 32 0))\<rparr>"

definition empty_fd :: ofd where
  "empty_fd = \<lparr>fd_data = [], fd_pos = 0, fd_answers = [], fd_bad = False\<rparr>"

lemma plain_empty_fd [simp]: "plain empty_fd"
  by (simp add: plain_def empty_fd_def appending_def)

end
