(* ===== verification/ClaimsCrypto.thy ===== *)
theory ClaimsCrypto
  imports SampleLib
begin

text \<open>
  What the compression and hashing layer promises over the external libraries, whose functions
  are the record \<open>libs\<close>: the loop around zlib's \<open>inflate\<close>, the hash stream, and the inputs on which
  the layer fails, hangs or accepts a truncated stream.
\<close>

section \<open>LZ4 legacy\<close>

text \<open>
  C29: the LG variant, the same blocks followed by the total size, which is what \<open>check_fmt_lg\<close>
  names \<open>LZ4_LG\<close>, does not decompress: all data is written, then the total is taken for a block
  size and the call throws.
\<close>

theorem lz4_lg_stream_throws:
  assumes "compressed_to L src ds" "src \<noteq> []" "length src \<le> LZ4_LEGACY_DECOMP_TOTAL_MAX" "plain f"
  shows "let img = LZ4_LEG_MAGIC @ blocks ds @ le32_bytes (of_nat (length src)) in
    check_fmt_lg img = Inr LZ4_LG \<and>
    decompress_bytes L LZ4_LG img f = (Inl (Throw ''LZ4 legacy block overrun''), extend f src)"
proof -
  have n: "0 < length src" "length src < 2 ^ 32"
    using assms(2,3) by (auto simp: LZ4_LEGACY_DECOMP_TOTAL_MAX_def)
  have "8 + length (blocks ds) + length src < 2 ^ 32"
    using length_compressed [OF assms(1,3)] assms(3) by (simp add: LZ4_LEGACY_DECOMP_TOTAL_MAX_def)
  from check_fmt_lg_lg [OF n(1) this] lz4_lg_trailer [OF assms n] show ?thesis
    by (simp add: decompress_bytes_def Let_def)
qed

theorem lz4_lg_stream_throws_witness:
  "decompress_bytes store_lib LZ4_LG
     (LZ4_LEG_MAGIC @ blocks [[1, 2, 3]] @ le32_bytes (of_nat (length [1, 2, 3 :: byte]))) empty_fd =
   (Inl (Throw ''LZ4 legacy block overrun''), extend empty_fd [1, 2, 3])"
proof -
  have "compressed_to store_lib [1, 2, 3] [[1, 2, 3]]"
    unfolding compressed_to_def
    by (intro conjI exI [of _ "[[1, 2, 3]]"])
      (simp_all add: decodes_def store_lib_def LZ4_LEGACY_COMPRESS_BLOCK_def
        LZ4_LEGACY_COMP_BLOCK_MAX_def LZ4_LEGACY_BLOCK_MAX_def LZ4_compressBound_def)
  from lz4_lg_stream_throws [OF this, of empty_fd] show ?thesis
    by (simp add: Let_def LZ4_LEGACY_DECOMP_TOTAL_MAX_def)
qed

text \<open>
  The empty input compresses to a bare \<open>LZ4_LEGACY\<close> magic, which \<open>decompress_bytes\<close> rejects
  as too short: the round trip needs a byte of input.
\<close>

theorem lz4_legacy_empty_fails:
  assumes "plain f"
  shows "compress_bytes L LZ4_LEGACY [] f = (Inr (), extend f LZ4_LEG_MAGIC) \<and>
    decompress_bytes L LZ4_LEGACY LZ4_LEG_MAGIC g = (Inl (Throw ''LZ4 legacy too short''), g)"
  using assms by (simp add: compress_bytes_def decompress_bytes_def lz4_legacy_compress_def
      lz4_compress_loop_nil lz4_legacy_decompress_def LZ4_LEG_MAGIC_def)

theorem lz4_legacy_empty_fails_witness:
  "compress_bytes store_lib LZ4_LEGACY [] empty_fd = (Inr (), extend empty_fd LZ4_LEG_MAGIC)"
  using lz4_legacy_empty_fails [OF plain_empty_fd, of store_lib empty_fd] by simp

section \<open>zlib and LZ4 frames\<close>

text \<open>
  When the calls of \<open>inflate\<close> on the input produce the pieces of \<open>out\<close> and end the stream,
  decompressing a gzip stream below 4 GiB writes exactly \<open>out\<close> and succeeds.
\<close>

theorem inflate_gzip_output:
  assumes "inflateInit2 L = Some z" "inflates L z src out" "length src < 2 ^ 32" "plain f"
  shows "decompress_bytes L GZIP src f = (Inr (), extend f out)"
  using assms inflate_loop_run [OF assms(2,4)]
  by (simp add: decompress_bytes_def zlib_inflate_gzip_def avail_in_def returns_or_diverges_def)

theorem inflate_gzip_output_witness:
  "decompress_bytes store_lib GZIP [5, 6, 0] empty_fd = (Inr (), extend empty_fd [5, 6, 0])"
  by (rule inflate_gzip_output [of _ "()"])
    (auto intro!: inflates.stream_end simp: store_lib_def OUT_BUF_def)

text \<open>
  A gzip stream that ends early hangs the program: once \<open>inflate\<close> has no input left, makes
  no progress and says so (\<open>Z_BUF_ERROR\<close>), the loop, which leaves on three other codes only,
  calls it again for ever.
\<close>

theorem truncated_gzip_hangs:
  assumes "inflateInit2 L = Some z" "length src < 2 ^ 32"
    "inflate L z src OUT_BUF = (Z_OK, z', [], out)"
    "inflate L z' [] OUT_BUF = (Z_BUF_ERROR, z', [], [])"
    "plain f"
  shows "decompress_bytes L GZIP src f = (Inl Diverges, f)"
proof -
  have "inflate_loop L z' [] (extend f out) = None"
    by (rule inflate_loop_stuck [OF assms(4)]) (simp add: z_defs)
  then have "inflate_loop L z src f = None"
    using assms(3,5) by (simp add: inflate_loop.simps [of L z src] z_defs)
  with assms(1,2) show ?thesis
    by (simp add: decompress_bytes_def zlib_inflate_gzip_def avail_in_def returns_or_diverges_def)
qed

theorem truncated_gzip_hangs_witness:
  "decompress_bytes store_lib GZIP [5, 6] empty_fd = (Inl Diverges, empty_fd)"
  by (rule truncated_gzip_hangs [of _ "()" _ "()" "[5, 6]"])
    (simp_all add: store_lib_def OUT_BUF_def)

text \<open>
  The formats the code classifies as compressed but has no codec for (XZ, LZMA, BZIP2, LZOP)
  end the process with status 1 before anything is written, in both directions.
\<close>

theorem unsupported_formats_exit:
  assumes "fmt_compressed fmt" "fmt \<notin> {GZIP, ZOPFLI, LZ4, LZ4_LEGACY, LZ4_LG}"
  shows "compress_bytes L fmt src f = (Inl (Exit 1), f) \<and>
    decompress_bytes L fmt src f = (Inl (Exit 1), f)"
  using assms
  by (cases fmt) (simp_all add: compress_bytes_def decompress_bytes_def unsupported_format_def)

theorem unsupported_formats_exit_witness:
  "decompress_bytes store_lib XZ [1] empty_fd = (Inl (Exit 1), empty_fd)"
  using unsupported_formats_exit [of XZ store_lib "[1]" empty_fd] by simp

section \<open>Hashes\<close>

text \<open>
  With OpenSSL, updating a hash piece by piece and finalizing it into a buffer of
  \<open>output_size\<close> bytes stores the digest of the concatenated pieces and closes the context;
  without it, asking for a hash aborts.
\<close>

theorem sha_stream_digest:
  "if use_openssl_sha L
   then \<exists>s. get_sha L use_sha1 = Inr s \<and>
     SHA_finalize_into L (SHA_output_size L s) (fold SHA_update ds s) =
       Inr (Some ((if use_sha1 then sha1_digest L else sha256_digest L) (concat ds)), s\<lparr>ctx := None\<rparr>)
   else get_sha L use_sha1 = Inl Abort"
proof (cases "use_openssl_sha L")
  case True
  then obtain s where s: "get_sha L use_sha1 = Inr s" by (simp add: get_sha_def SHA_new_def)
  from SHA_stream [OF s] s True show ?thesis by auto
qed (simp add: get_sha_def SHA_new_def)

end
