(* ===== verification/ImgHeader.thy ===== *)
theory ImgHeader
  imports Formats
begin

text \<open>
  The polymorphic header of \<open>bootimg.hpp\<close>: a class per header version over one raw copy of
  the packed struct. A class is its version; a field is found at its offset in the version's
  struct, along the inheritance of the classes, and a field a class does not implement reads
  as 0 and ignores its setter. The locale states what code that patches headers relies on:
  a setter changes its own field and no other.
\<close>

section \<open>Versions, sizes and offsets\<close>

datatype hdr_ver = V0 | V1 | V2 | PXA | V3 | V4 | VND_V3 | VND_V4

text \<open>\<open>sizeof\<close> of the packed structs.\<close>

fun hdr_size_of :: "hdr_ver \<Rightarrow> nat" where
  "hdr_size_of V0 = 1632"
| "hdr_size_of V1 = 1648"
| "hdr_size_of V2 = 1660"
| "hdr_size_of PXA = 1640"
| "hdr_size_of V3 = 1580"
| "hdr_size_of V4 = 1584"
| "hdr_size_of VND_V3 = 2112"
| "hdr_size_of VND_V4 = 2128"

datatype field =
    Kernel_size | Ramdisk_size | Second_size | Page_size | Header_version | Extra_size
  | Os_version | Recovery_dtbo_size | Header_size | Dtb_size | Signature_size
  | Vendor_ramdisk_table_size | Vendor_ramdisk_table_entry_num
  | Vendor_ramdisk_table_entry_size | Bootconfig_size

definition common_off :: "field \<Rightarrow> nat option" where
  "common_off fl = (case fl of
     Kernel_size \<Rightarrow> Some 8 | Ramdisk_size \<Rightarrow> Some 16 | Second_size \<Rightarrow> Some 24 | _ \<Rightarrow> None)"

definition v0_off :: "field \<Rightarrow> nat option" where
  "v0_off fl = (case fl of
     Page_size \<Rightarrow> Some 36 | Extra_size \<Rightarrow> Some 40 | Os_version \<Rightarrow> Some 44 | _ \<Rightarrow> common_off fl)"

definition v1_off :: "field \<Rightarrow> nat option" where
  "v1_off fl = (case fl of
     Header_version \<Rightarrow> Some 40 | Recovery_dtbo_size \<Rightarrow> Some 1632 | Header_size \<Rightarrow> Some 1644
   | Extra_size \<Rightarrow> None | _ \<Rightarrow> v0_off fl)"

definition v2_off :: "field \<Rightarrow> nat option" where
  "v2_off fl = (case fl of Dtb_size \<Rightarrow> Some 1648 | _ \<Rightarrow> v1_off fl)"

definition pxa_off :: "field \<Rightarrow> nat option" where
  "pxa_off fl = (case fl of Extra_size \<Rightarrow> Some 32 | Page_size \<Rightarrow> Some 44 | _ \<Rightarrow> common_off fl)"

definition v3_off :: "field \<Rightarrow> nat option" where
  "v3_off fl = (case fl of
     Kernel_size \<Rightarrow> Some 8 | Ramdisk_size \<Rightarrow> Some 12 | Os_version \<Rightarrow> Some 16
   | Header_size \<Rightarrow> Some 20 | Header_version \<Rightarrow> Some 40 | _ \<Rightarrow> None)"

definition v4_off :: "field \<Rightarrow> nat option" where
  "v4_off fl = (case fl of Signature_size \<Rightarrow> Some 1580 | _ \<Rightarrow> v3_off fl)"

definition vnd_v3_off :: "field \<Rightarrow> nat option" where
  "vnd_v3_off fl = (case fl of
     Header_version \<Rightarrow> Some 8 | Page_size \<Rightarrow> Some 12 | Ramdisk_size \<Rightarrow> Some 24
   | Header_size \<Rightarrow> Some 2096 | Dtb_size \<Rightarrow> Some 2100 | _ \<Rightarrow> None)"

definition vnd_v4_off :: "field \<Rightarrow> nat option" where
  "vnd_v4_off fl = (case fl of
     Vendor_ramdisk_table_size \<Rightarrow> Some 2112 | Vendor_ramdisk_table_entry_num \<Rightarrow> Some 2116
   | Vendor_ramdisk_table_entry_size \<Rightarrow> Some 2120 | Bootconfig_size \<Rightarrow> Some 2124
   | _ \<Rightarrow> vnd_v3_off fl)"

fun field_off :: "hdr_ver \<Rightarrow> field \<Rightarrow> nat option" where
  "field_off V0 fl = v0_off fl"
| "field_off V1 fl = v1_off fl"
| "field_off V2 fl = v2_off fl"
| "field_off PXA fl = pxa_off fl"
| "field_off V3 fl = v3_off fl"
| "field_off V4 fl = v4_off fl"
| "field_off VND_V3 fl = vnd_v3_off fl"
| "field_off VND_V4 fl = vnd_v4_off fl"

lemmas off_defs = common_off_def v0_off_def v1_off_def v2_off_def pxa_off_def v3_off_def
  v4_off_def vnd_v3_off_def vnd_v4_off_def

text \<open>
  String members: offset and size. The versions from 3 on have one command line, whose part
  from \<open>BOOT_ARGS_SIZE\<close> on plays the extra command line.
\<close>

datatype str_field = Name | Cmdline | Id | Extra_cmdline

definition BOOT_ARGS_SIZE :: nat where "BOOT_ARGS_SIZE = 512"
definition BOOT_EXTRA_ARGS_SIZE :: nat where "BOOT_EXTRA_ARGS_SIZE = 1024"
definition BOOT_ID_SIZE :: nat where "BOOT_ID_SIZE = 32"

definition v0_str :: "str_field \<Rightarrow> (nat \<times> nat) option" where
  "v0_str sf = (case sf of Name \<Rightarrow> Some (48, 16) | Cmdline \<Rightarrow> Some (64, 512)
     | Id \<Rightarrow> Some (576, 32) | Extra_cmdline \<Rightarrow> Some (608, 1024))"

definition pxa_str :: "str_field \<Rightarrow> (nat \<times> nat) option" where
  "pxa_str sf = (case sf of Name \<Rightarrow> Some (48, 24) | Cmdline \<Rightarrow> Some (72, 512)
     | Id \<Rightarrow> Some (584, 32) | Extra_cmdline \<Rightarrow> Some (616, 1024))"

definition v3_str :: "str_field \<Rightarrow> (nat \<times> nat) option" where
  "v3_str sf = (case sf of Cmdline \<Rightarrow> Some (44, 1536) | Extra_cmdline \<Rightarrow> Some (44 + BOOT_ARGS_SIZE, 1024)
     | _ \<Rightarrow> None)"

definition vnd_v3_str :: "str_field \<Rightarrow> (nat \<times> nat) option" where
  "vnd_v3_str sf = (case sf of Name \<Rightarrow> Some (2080, 16) | Cmdline \<Rightarrow> Some (28, 2048)
     | Extra_cmdline \<Rightarrow> Some (28 + BOOT_ARGS_SIZE, 1536) | Id \<Rightarrow> None)"

fun str_off :: "hdr_ver \<Rightarrow> str_field \<Rightarrow> (nat \<times> nat) option" where
  "str_off V0 sf = v0_str sf"
| "str_off V1 sf = v0_str sf"
| "str_off V2 sf = v0_str sf"
| "str_off PXA sf = pxa_str sf"
| "str_off V3 sf = v3_str sf"
| "str_off V4 sf = v3_str sf"
| "str_off VND_V3 sf = vnd_v3_str sf"
| "str_off VND_V4 sf = vnd_v3_str sf"

lemmas str_defs = v0_str_def pxa_str_def v3_str_def vnd_v3_str_def BOOT_ARGS_SIZE_def

section \<open>Header objects\<close>

record dyn_img_hdr =
  ver :: hdr_ver
  raw :: bytes

text \<open>
  The constructor: a zeroed block of the struct's size and \<open>memcpy\<close> of \<open>sz\<close> bytes, the
  struct's size when \<open>sz\<close> is negative. The source is the memory from \<open>p\<close> on.
\<close>

definition new_hdr :: "hdr_ver \<Rightarrow> bytes \<Rightarrow> int \<Rightarrow> dyn_img_hdr result" where
  "new_hdr v p sz =
     (let n = (if sz < 0 then hdr_size_of v else nat sz)
      in if hdr_size_of v < n then Inl HeapOverflow
         else bindR (rd p 0 n) (\<lambda>b. Inr \<lparr>ver = v, raw = b @ replicate (hdr_size_of v - n) 0\<rparr>))"

definition hdr_size :: "dyn_img_hdr \<Rightarrow> nat" where
  "hdr_size h = hdr_size_of (ver h)"

definition is_vendor :: "dyn_img_hdr \<Rightarrow> bool" where
  "is_vendor h \<longleftrightarrow> ver h = VND_V3 \<or> ver h = VND_V4"

definition clone :: "dyn_img_hdr \<Rightarrow> dyn_img_hdr result" where
  "clone h = new_hdr (ver h) (raw h) (- 1)"

definition has_field :: "dyn_img_hdr \<Rightarrow> field \<Rightarrow> bool" where
  "has_field h fl \<longleftrightarrow> field_off (ver h) fl \<noteq> None"

definition hdr_get :: "field \<Rightarrow> dyn_img_hdr \<Rightarrow> u32" where
  "hdr_get fl h =
     (if fl = Page_size \<and> (ver h = V3 \<or> ver h = V4) then 4096
      else case field_off (ver h) fl of None \<Rightarrow> 0 | Some off \<Rightarrow> le32 (view off 4 (raw h)))"

definition hdr_set :: "field \<Rightarrow> u32 \<Rightarrow> dyn_img_hdr \<Rightarrow> dyn_img_hdr" where
  "hdr_set fl v h =
     (case field_off (ver h) fl of
        None \<Rightarrow> h
      | Some off \<Rightarrow> h\<lparr>raw := put_at off (le32_bytes v) (raw h)\<rparr>)"

text \<open>The one 64-bit member with accessors, \<open>recovery_dtbo_offset\<close> of versions 1 and 2.\<close>

definition get_recovery_dtbo_offset :: "dyn_img_hdr \<Rightarrow> u64" where
  "get_recovery_dtbo_offset h =
     (if ver h = V1 \<or> ver h = V2 then le64 (view 1636 8 (raw h)) else 0)"

definition set_recovery_dtbo_offset :: "u64 \<Rightarrow> dyn_img_hdr \<Rightarrow> dyn_img_hdr" where
  "set_recovery_dtbo_offset v h =
     (if ver h = V1 \<or> ver h = V2 then h\<lparr>raw := put_at 1636 (le64_bytes v) (raw h)\<rparr> else h)"

definition wf_hdr :: "dyn_img_hdr \<Rightarrow> bool" where
  "wf_hdr h \<longleftrightarrow> length (raw h) = hdr_size h"

section \<open>Setters change their own field only\<close>

lemma new_hdr_wf: "new_hdr v p sz = Inr h \<Longrightarrow> wf_hdr h \<and> ver h = v"
  by (auto simp: new_hdr_def Let_def wf_hdr_def hdr_size_def split: if_splits dest!: rd_eq_InrD)

lemma clone_wf: "wf_hdr h \<Longrightarrow> clone h = Inr h"
  by (cases h) (simp add: clone_def new_hdr_def wf_hdr_def hdr_size_def view_def)

lemma ver_hdr_set [simp]: "ver (hdr_set fl v h) = ver h"
  by (simp add: hdr_set_def split: option.splits)

lemma field_inside: "field_off v fl = Some off \<Longrightarrow> off + 4 \<le> hdr_size_of v"
  by (cases v; cases fl) (auto simp: off_defs)

lemma fields_apart:
  "field_off v fl = Some a \<Longrightarrow> field_off v gl = Some b \<Longrightarrow> fl \<noteq> gl \<Longrightarrow> a + 4 \<le> b \<or> b + 4 \<le> a"
  by (cases v; cases fl; cases gl) (auto simp: off_defs)

lemma wf_hdr_set [simp]: "wf_hdr h \<Longrightarrow> wf_hdr (hdr_set fl v h)"
  by (auto simp: hdr_set_def wf_hdr_def hdr_size_def split: option.splits dest!: field_inside)

lemma hdr_get_set_same: "wf_hdr h \<Longrightarrow> has_field h fl \<Longrightarrow> hdr_get fl (hdr_set fl v h) = v"
proof -
  assume h: "wf_hdr h" "has_field h fl"
  then obtain off where off: "field_off (ver h) fl = Some off"
    by (auto simp: has_field_def)
  with h have "off + length (le32_bytes v) \<le> length (raw h)"
    by (auto simp: wf_hdr_def hdr_size_def dest: field_inside)
  then have "view off 4 (put_at off (le32_bytes v) (raw h)) = le32_bytes v"
    by (metis length_le32_bytes view_put_at_same)
  moreover have "\<not> (fl = Page_size \<and> (ver h = V3 \<or> ver h = V4))"
    using off by (auto simp: off_defs)
  ultimately show ?thesis
    using off by (auto simp: hdr_get_def hdr_set_def)
qed

lemma hdr_get_set_other: "wf_hdr h \<Longrightarrow> fl \<noteq> gl \<Longrightarrow> hdr_get gl (hdr_set fl v h) = hdr_get gl h"
proof (cases "field_off (ver h) fl")
  case None
  then show ?thesis by (simp add: hdr_set_def)
next
  case a: (Some a)
  assume h: "wf_hdr h" "fl \<noteq> gl"
  show ?thesis
  proof (cases "field_off (ver h) gl")
    case None
    with a show ?thesis by (simp add: hdr_get_def hdr_set_def)
  next
    case b: (Some b)
    have room: "a + length (le32_bytes v) \<le> length (raw h)"
      using h(1) a by (auto simp: wf_hdr_def hdr_size_def dest: field_inside)
    have "view b 4 (put_at a (le32_bytes v) (raw h)) = view b 4 (raw h)"
      using fields_apart [OF a b h(2)] room view_put_at_before view_put_at_after
      by (metis length_le32_bytes)
    with a b show ?thesis by (auto simp: hdr_get_def hdr_set_def)
  qed
qed

lemma hdr_set_absent: "\<not> has_field h fl \<Longrightarrow> hdr_set fl v h = h"
  by (auto simp: has_field_def hdr_set_def)

lemma has_field_set [simp]: "has_field (hdr_set fl v h) gl = has_field h gl"
  by (simp add: has_field_def)

subsection \<open>The contract of header fields\<close>

fun patch :: "('f \<Rightarrow> 'v \<Rightarrow> 'h \<Rightarrow> 'h) \<Rightarrow> ('f \<times> 'v) list \<Rightarrow> 'h \<Rightarrow> 'h" where
  "patch put [] h = h"
| "patch put ((fl, v) # ps) h = patch put ps (put fl v h)"

locale patchable_header =
  fixes get :: "'f \<Rightarrow> 'h \<Rightarrow> 'v"
    and set_field :: "'f \<Rightarrow> 'v \<Rightarrow> 'h \<Rightarrow> 'h"
    and has :: "'h \<Rightarrow> 'f \<Rightarrow> bool"
    and inv :: "'h \<Rightarrow> bool"
  assumes inv_set: "inv h \<Longrightarrow> inv (set_field fl v h)"
    and has_set: "has (set_field fl v h) gl = has h gl"
    and get_same: "inv h \<Longrightarrow> has h fl \<Longrightarrow> get fl (set_field fl v h) = v"
    and get_other: "inv h \<Longrightarrow> fl \<noteq> gl \<Longrightarrow> get gl (set_field fl v h) = get gl h"
    and set_absent: "\<not> has h fl \<Longrightarrow> set_field fl v h = h"
begin

text \<open>A series of patches: each field ends with its last value, the others are untouched.\<close>

lemma inv_patch: "inv h \<Longrightarrow> inv (patch set_field ps h)"
proof (induction ps arbitrary: h)
  case (Cons p ps)
  obtain gl w where p: "p = (gl, w)" by (cases p)
  with Cons show ?case by (simp add: inv_set)
qed simp

lemma has_patch: "has (patch set_field ps h) fl = has h fl"
proof (induction ps arbitrary: h)
  case (Cons p ps)
  obtain gl w where p: "p = (gl, w)" by (cases p)
  show ?case by (simp only: p patch.simps Cons.IH has_set)
qed simp

lemma get_patch_untouched: "inv h \<Longrightarrow> fl \<notin> fst ` set ps \<Longrightarrow> get fl (patch set_field ps h) = get fl h"
proof (induction ps arbitrary: h)
  case (Cons p ps)
  obtain gl w where p: "p = (gl, w)" by (cases p)
  with Cons have "get fl (patch set_field ps (set_field gl w h)) = get fl (set_field gl w h)"
    by (simp add: inv_set)
  moreover have "get fl (set_field gl w h) = get fl h"
    using Cons.prems p by (intro get_other) auto
  ultimately show ?case by (simp add: p)
qed simp

lemma get_patch_last:
  "inv h \<Longrightarrow> has h fl \<Longrightarrow> fl \<notin> fst ` set qs \<Longrightarrow> get fl (patch set_field (ps @ (fl, v) # qs) h) = v"
proof (induction ps arbitrary: h)
  case Nil
  then show ?case
    using get_patch_untouched [OF inv_set [OF Nil.prems(1)]] get_same by simp
next
  case (Cons p ps)
  obtain gl w where p: "p = (gl, w)" by (cases p)
  from Cons.prems have "inv (set_field gl w h)" "has (set_field gl w h) fl"
    by (auto intro: inv_set simp: has_set)
  from Cons.IH [OF this Cons.prems(3)] p show ?case by simp
qed

lemma get_patch_absent:
  "inv h \<Longrightarrow> \<not> has h fl \<Longrightarrow> get fl (patch set_field ps h) = get fl h"
proof (induction ps arbitrary: h)
  case Nil
  then show ?case by simp
next
  case (Cons p ps)
  obtain gl v where p: "p = (gl, v)" by (cases p)
  have "get fl (set_field gl v h) = get fl h"
    using Cons.prems by (cases "gl = fl") (auto simp: set_absent get_other)
  with Cons p show ?case by (simp add: inv_set has_set)
qed

end

interpretation hdr: patchable_header hdr_get hdr_set has_field wf_hdr
  by unfold_locales (simp_all add: hdr_get_set_same hdr_get_set_other hdr_set_absent)

end
