(* ===== verification/HostUtils.thy ===== *)
theory HostUtils
  imports World
begin

text \<open>
  The remaining helpers of \<open>base_host.hpp\<close> and \<open>base_host.cpp\<close>: rounding up to a page size at
  the widths the callers use, runs of zeros, truncating string copies, the line reader of
  property files, files with a position (\<open>creat\<close>, \<open>lseek\<close>, \<open>pread\<close>, \<open>pwrite\<close>,
  \<open>ftruncate\<close>) and the recursive removal.
\<close>

section \<open>Rounding\<close>

text \<open>
  \<open>align_to<size_t>(v, a)\<close>: the alignment is an \<open>int\<close>, converted to \<open>size_t\<close>; sums and products
  wrap, a zero alignment divides by zero. An unsigned 32-bit page size reaches \<open>a\<close> through the
  conversion to \<open>int\<close>.
\<close>

definition align_to_size :: "u64 \<Rightarrow> int \<Rightarrow> u64 result" where
  "align_to_size v a =
     (let n = word_of_int a :: u64
      in if n = 0 then Inl DivByZero else Inr ((v + n - 1) div n * n))"

text \<open>\<open>align_to<off_t>\<close>: signed arithmetic, with a division that truncates towards zero.\<close>

definition align_to_off :: "int \<Rightarrow> int \<Rightarrow> int result" where
  "align_to_off v a = (if a = 0 then Inl DivByZero else Inr ((v + a - 1) sdiv a * a))"

definition align_padding_off :: "int \<Rightarrow> int \<Rightarrow> int result" where
  "align_padding_off v a = bindR (align_to_off v a) (\<lambda>r. Inr (r - v))"

lemma div_mult_up:
  fixes v a :: nat
  assumes "0 < a"
  shows "v \<le> (v + a - 1) div a * a \<and> (v + a - 1) div a * a < v + a"
proof -
  have "(v + a - 1) div a * a + (v + a - 1) mod a = v + a - 1" by simp
  moreover have "(v + a - 1) mod a < a" using assms by simp
  ultimately show ?thesis using assms by linarith
qed

lemma unat_of_nat_u64: "n < 2 ^ 64 \<Longrightarrow> unat (of_nat n :: u64) = n"
  by (simp add: unat_of_nat)

lemma align_to_size_unat:
  assumes "0 < a" "a < 2 ^ 31" "unat v + nat a < 2 ^ 64"
  shows "\<exists>r. align_to_size v a = Inr r \<and> unat r = (unat v + nat a - 1) div nat a * nat a"
proof -
  define k where "k = nat a"
  have k: "0 < k" "k < 2 ^ 31" "a = int k" using assms by (auto simp: k_def)
  have "k < 2 ^ 64" using k(2) by simp
  then have n: "unat (word_of_int a :: u64) = k"
    using unat_of_nat_u64 [of k] by (simp add: k(3))
  have sum: "unat (v + word_of_int a - 1) = unat v + k - 1"
  proof -
    have "unat (v + word_of_int a) = (unat v + k) mod 2 ^ LENGTH(64)"
      by (simp only: unat_word_ariths n)
    also have "\<dots> = unat v + k"
      by (rule mod_less) (use assms(3) in \<open>simp add: k_def\<close>)
    finally have sum0: "unat (v + word_of_int a) = unat v + k" .
    moreover have "(1 :: u64) \<le> v + word_of_int a"
      using sum0 k by (simp add: word_le_nat_alt)
    ultimately show ?thesis by (simp add: unat_sub)
  qed
  have "unat ((v + word_of_int a - 1) div word_of_int a * word_of_int a) =
      ((unat v + k - 1) div k * k) mod 2 ^ LENGTH(64)"
    by (simp only: unat_word_ariths unat_div sum n mod_mult_left_eq)
  also have "\<dots> = (unat v + k - 1) div k * k"
    by (rule mod_less) (use div_mult_up [OF k(1), of "unat v"] assms(3) in \<open>simp add: k_def\<close>)
  finally have "unat ((v + word_of_int a - 1) div word_of_int a * word_of_int a) =
      (unat v + k - 1) div k * k" .
  moreover have "word_of_int a \<noteq> (0 :: u64)" using n k by (metis less_irrefl unat_0)
  ultimately show ?thesis by (simp add: align_to_size_def k_def Let_def)
qed

lemma align_padding_off_bounds:
  assumes "0 < a" "0 \<le> v"
  shows "\<exists>p. align_padding_off v a = Inr p \<and> 0 \<le> p \<and> p < a \<and> a dvd v + p"
proof -
  have "(v + a - 1) sdiv a = (v + a - 1) div a"
    using assms by (simp add: signed_divide_int_def sgn_if)
  moreover have "v \<le> (v + a - 1) div a * a \<and> (v + a - 1) div a * a - v < a"
  proof -
    have "(v + a - 1) div a * a + (v + a - 1) mod a = v + a - 1"
      by (rule div_mult_mod_eq)
    moreover have "0 \<le> (v + a - 1) mod a" "(v + a - 1) mod a < a" using assms by simp_all
    ultimately show ?thesis by linarith
  qed
  ultimately show ?thesis
    using assms by (intro exI [of _ "(v + a - 1) div a * a - v"])
      (simp add: align_padding_off_def align_to_off_def)
qed

section \<open>Descriptors with a position\<close>

text \<open>
  A descriptor that could not be opened is \<open>-1\<close>: every call on it fails. \<open>lseek\<close> on an open file
  gives its position, and moves it; \<open>pread\<close> and \<open>pwrite\<close> leave it alone. \<open>pwrite\<close> takes its
  answer from the kernel's schedule like \<open>write\<close>.
\<close>

definition fd_opened :: "world \<Rightarrow> string \<Rightarrow> ofd" where
  "fd_opened w path =
     (case open_trunc w path of
        Some f \<Rightarrow> f
      | None \<Rightarrow> \<lparr>fd_data = [], fd_pos = 0, fd_answers = answers w, fd_bad = True\<rparr>)"

definition fd_close :: "world \<Rightarrow> string \<Rightarrow> ofd \<Rightarrow> world" where
  "fd_close w path f =
     (if fd_bad f then w\<lparr>answers := fd_answers f\<rparr> else close_file w path f)"

definition lseek_cur :: "ofd \<Rightarrow> int" where
  "lseek_cur f = (if fd_bad f then - 1 else int (fd_pos f))"

definition lseek_end :: "ofd \<Rightarrow> int \<times> ofd" where
  "lseek_end f =
     (if fd_bad f then (- 1, f)
      else (int (length (fd_data f)), f\<lparr>fd_pos := length (fd_data f)\<rparr>))"

text \<open>A target before the start of the file is an error that moves nothing.\<close>

definition lseek_to :: "int \<Rightarrow> ofd \<Rightarrow> int \<times> ofd" where
  "lseek_to p f = (if fd_bad f \<or> p < 0 then (- 1, f) else (p, f\<lparr>fd_pos := nat p\<rparr>))"

definition ftruncate :: "int \<Rightarrow> ofd \<Rightarrow> ofd" where
  "ftruncate n f =
     (if fd_bad f \<or> n < 0 then f
      else f\<lparr>fd_data := take (nat n) (fd_data f) @ replicate (nat n - length (fd_data f)) 0\<rparr>)"

definition pread :: "nat \<Rightarrow> int \<Rightarrow> ofd \<Rightarrow> bytes option" where
  "pread n p f = (if fd_bad f \<or> p < 0 then None else Some (view (nat p) n (fd_data f)))"

definition pwrite :: "bytes \<Rightarrow> int \<Rightarrow> ofd \<Rightarrow> int \<times> ofd" where
  "pwrite bs p f =
     (if fd_bad f \<or> p < 0 then (- 1, f)
      else case xwrite bs (f\<lparr>fd_pos := nat p\<rparr>) of (n, g) \<Rightarrow> (n, g\<lparr>fd_pos := fd_pos f\<rparr>))"

section \<open>Runs of zeros\<close>

definition ZERO_BUF :: nat where
  "ZERO_BUF = 65536"

function write_zero :: "nat \<Rightarrow> ofd \<Rightarrow> ofd" where
  "write_zero sz f =
     (if sz = 0 then f
      else let n = (if sz < ZERO_BUF then sz else ZERO_BUF);
               (r, f') = xwrite (replicate n 0) f
           in if r \<noteq> int n then f' else write_zero (sz - n) f')"
  by pat_completeness auto
termination
  by (relation "measure fst") (auto simp: ZERO_BUF_def split: if_splits)

declare write_zero.simps [simp del]

lemma write_zero_0 [simp]: "write_zero 0 f = f"
  by (simp add: write_zero.simps)

text \<open>The calling convention: the size is a \<open>size_t\<close>, so a negative difference becomes huge.\<close>

definition size_of_off :: "int \<Rightarrow> nat" where
  "size_of_off n = nat (n mod 2 ^ 64)"

lemma size_of_off_nonneg: "0 \<le> n \<Longrightarrow> n < 2 ^ 64 \<Longrightarrow> size_of_off n = nat n"
  by (simp add: size_of_off_def)

lemma size_of_off_negative:
  assumes "- (2 ^ 63) \<le> n" "n < 0"
  shows "2 ^ 63 \<le> size_of_off n"
proof -
  have "n mod 2 ^ 64 = (n + 2 ^ 64) mod 2 ^ 64" by (rule mod_add_self2 [symmetric])
  also have "\<dots> = n + 2 ^ 64" by (rule mod_pos_pos_trivial) (use assms in simp_all)
  finally show ?thesis using assms by (simp add: size_of_off_def le_nat_iff)
qed

section \<open>Strings\<close>

text \<open>\<open>strlen\<close> on the bytes from a pointer on, up to the NUL.\<close>

definition c_str :: "bytes \<Rightarrow> bytes" where
  "c_str bs = takeWhile (\<lambda>b. b \<noteq> 0) bs"

text \<open>\<open>strscpy\<close> and \<open>ssprintf\<close> leave at most \<open>size - 1\<close> characters in the buffer.\<close>

definition strscpy :: "string \<Rightarrow> nat \<Rightarrow> string" where
  "strscpy src n = (if n = 0 then [] else take (n - 1) src)"

definition ssprintf :: "string \<Rightarrow> nat \<Rightarrow> string" where
  "ssprintf out n = (if n = 0 then [] else take (n - 1) out)"

section \<open>Property files\<close>

text \<open>
  \<open>fgets\<close> with a buffer of \<open>n\<close> bytes: up to \<open>n - 1\<close> bytes, through the first newline. \<open>None\<close>
  at the end of the file.
\<close>

fun fgets :: "nat \<Rightarrow> bytes \<Rightarrow> bytes \<times> bytes" where
  "fgets 0 d = ([], d)"
| "fgets (Suc k) [] = ([], [])"
| "fgets (Suc k) (b # d) =
     (if b = 10 then ([b], d) else case fgets k d of (l, r) \<Rightarrow> (b # l, r))"

lemma fgets_append: "fgets n d = (l, r) \<Longrightarrow> d = l @ r"
  by (induction n d arbitrary: l r rule: fgets.induct) (auto split: if_splits prod.splits)

lemma fgets_shrinks: "0 < n \<Longrightarrow> d \<noteq> [] \<Longrightarrow> length (snd (fgets n d)) < length d"
proof -
  assume n: "0 < n" "d \<noteq> []"
  then obtain k b e where "n = Suc k" "d = b # e"
    by (metis gr0_conv_Suc neq_Nil_conv)
  then have "fst (fgets n d) \<noteq> []" by (auto split: prod.splits)
  then show ?thesis using fgets_append [of n d "fst (fgets n d)" "snd (fgets n d)"]
    by (metis add_less_same_cancel2 length_append length_greater_0_conv less_add_same_cancel2 prod.collapse)
qed

definition LINE_BUF :: nat where
  "LINE_BUF = 4096"

text \<open>
  One line: the C string in the buffer is split at its first \<open>=\<close>; one trailing newline or
  carriage return of the value is cut.
\<close>

definition prop_of_line :: "bytes \<Rightarrow> (bytes \<times> bytes) option" where
  "prop_of_line line =
     (let s = c_str line; key = takeWhile (\<lambda>b. b \<noteq> byte_of_char (CHR ''='')) s
      in if key = s then None
         else let val = drop (length key + 1) s
              in Some (key,
                   if val \<noteq> [] \<and> (last val = 10 \<or> last val = 13) then butlast val else val))"

function prop_lines :: "bytes \<Rightarrow> bytes list" where
  "prop_lines d =
     (if d = [] then [] else case fgets (LINE_BUF - 1) d of (l, r) \<Rightarrow> l # prop_lines r)"
  by pat_completeness auto
termination
  by (relation "measure length")
    (use fgets_shrinks [of "LINE_BUF - 1"] in
      \<open>force simp: LINE_BUF_def dest: arg_cong [of _ _ snd]\<close>)+

declare prop_lines.simps [simp del]

text \<open>
  \<open>parse_prop_file\<close> with a callback that never stops the loop, as its one caller passes: the
  properties in the order of their lines. A file that does not open has none.
\<close>

definition parse_prop_file :: "world \<Rightarrow> string \<Rightarrow> (bytes \<times> bytes) list" where
  "parse_prop_file w file =
     (case read_file w file of
        None \<Rightarrow> []
      | Some d \<Rightarrow> List.map_filter prop_of_line (prop_lines d))"

section \<open>Effects with errors\<close>

text \<open>
  A step returns its value or why it stopped, and the state it leaves in either case: what was
  written before an exception stays written.
\<close>

definition thenS ::
    "('e + 'a) \<times> 's \<Rightarrow> ('a \<Rightarrow> 's \<Rightarrow> ('e + 'b) \<times> 's) \<Rightarrow> ('e + 'b) \<times> 's" where
  "thenS m k = (case m of (Inl e, s) \<Rightarrow> (Inl e, s) | (Inr x, s) \<Rightarrow> k x s)"

lemma thenS_simps [simp]:
  "thenS (Inl e, s) k = (Inl e, s)"
  "thenS (Inr x, s) k = k x s"
  by (simp_all add: thenS_def)

lemma thenS_eq_Inr_iff:
  "thenS m k = (Inr y, t) \<longleftrightarrow> (\<exists>x s. m = (Inr x, s) \<and> k x s = (Inr y, t))"
  by (cases m; cases "fst m") (auto simp: thenS_def)

lemma thenS_cong [fundef_cong]:
  "m = m' \<Longrightarrow> (\<And>x s. m' = (Inr x, s) \<Longrightarrow> k x s = k' x s) \<Longrightarrow> thenS m k = thenS m' k'"
  by (auto simp: thenS_def split: prod.splits sum.splits)

text \<open>A pure computation between steps, and a step under a condition.\<close>

definition liftS :: "('e + 'a) \<Rightarrow> 's \<Rightarrow> ('e + 'a) \<times> 's" where
  "liftS r s = (r, s)"

definition whenS :: "bool \<Rightarrow> ('s \<Rightarrow> ('e + unit) \<times> 's) \<Rightarrow> 's \<Rightarrow> ('e + unit) \<times> 's" where
  "whenS c k s = (if c then k s else (Inr (), s))"

lemma whenS_simps [simp]: "whenS True k s = k s" "whenS False k s = (Inr (), s)"
  by (simp_all add: whenS_def)

end
