(* ===== verification/HdrFile.thy ===== *)
theory HdrFile
  imports ImgHeader HostUtils
begin

text \<open>
  The editable text form of a header (\<open>dyn_img_hdr::dump_hdr_file\<close> and \<open>load_hdr_file\<close> of
  \<open>bootimg.cpp\<close>): \<open>name\<close>, \<open>cmdline\<close>, \<open>os_version\<close> and \<open>os_patch_level\<close> as property lines.
\<close>

section \<open>Decimal numbers\<close>

fun dec_digits :: "nat \<Rightarrow> nat list" where
  "dec_digits n = (if n < 10 then [n] else dec_digits (n div 10) @ [n mod 10])"

declare dec_digits.simps [simp del]

text \<open>\<open>printf\<close> of \<open>%d\<close> and \<open>%02d\<close> for the numbers that occur, none of them negative.\<close>

definition printf_d :: "nat \<Rightarrow> string" where
  "printf_d n = map hex_char (dec_digits n)"

definition printf_02d :: "nat \<Rightarrow> string" where
  "printf_02d n = (if n < 10 then CHR ''0'' # printf_d n else printf_d n)"

text \<open>
  \<open>%d\<close> of \<open>sscanf\<close>: white space, an optional sign, at least one digit. The result is the number
  and what is left. A number out of the range of \<open>int\<close> leaves the variable indeterminate.
\<close>

definition scan_d :: "string \<Rightarrow> (int option \<times> string) option" where
  "scan_d s =
     (let (neg, t) = skip_sign (dropWhile isspace s);
          ds = digits 10 t;
          v = (if neg then - int (horner 10 0 ds) else int (horner 10 0 ds))
      in if ds = [] then None
         else Some (if - (2 ^ 31) \<le> v \<and> v < 2 ^ 31 then Some v else None, drop (length ds) t))"

text \<open>
  A conversion specification of \<open>%d\<close>s separated by literal characters: the numbers stored before
  the first mismatch.
\<close>

fun sscanf_d :: "char list \<Rightarrow> string \<Rightarrow> int option list" where
  "sscanf_d [] s = (case scan_d s of None \<Rightarrow> [] | Some (v, _) \<Rightarrow> [v])"
| "sscanf_d (sep # seps) s =
     (case scan_d s of
        None \<Rightarrow> []
      | Some (v, c # t) \<Rightarrow> v # (if c = sep then sscanf_d seps t else [])
      | Some (v, []) \<Rightarrow> [v])"

text \<open>Reading a variable that \<open>sscanf\<close> did not set is an error.\<close>

definition scanned :: "int option list \<Rightarrow> nat \<Rightarrow> int result" where
  "scanned vs i =
     (if i < length vs then (case vs ! i of Some v \<Rightarrow> Inr v | None \<Rightarrow> Inl Uninitialised)
      else Inl Uninitialised)"

lemma dec_digits_less: "d \<in> set (dec_digits n) \<Longrightarrow> d < 10"
  by (induction n rule: dec_digits.induct) (subst (asm) dec_digits.simps, auto split: if_splits)

lemma dec_digits_not_Nil: "dec_digits n \<noteq> []"
  by (subst dec_digits.simps) simp

lemma horner_append: "horner b a (xs @ ys) = horner b (horner b a xs) ys"
  by (simp add: horner_def)

lemma horner_dec_digits: "horner 10 0 (dec_digits n) = n"
proof (induction n rule: dec_digits.induct)
  case (1 n)
  then show ?case by (subst dec_digits.simps) (auto simp: horner_append)
qed

lemma digits_dec:
  "\<forall>d \<in> set ds. d < 10 \<Longrightarrow> t = [] \<or> digit_val (hd t) = None \<Longrightarrow>
     digits 10 (map hex_char ds @ t) = ds"
proof (induction ds)
  case Nil
  then show ?case by (cases t) auto
next
  case (Cons d ds)
  then show ?case using hex_char_cases(1) [of d] by simp
qed

lemma scan_printf_d:
  assumes "n < 2 ^ 31" "t = [] \<or> digit_val (hd t) = None"
  shows "scan_d (printf_d n @ t) = Some (Some (int n), t)"
proof -
  obtain d ds where ds: "dec_digits n = d # ds" using dec_digits_not_Nil [of n] by (cases "dec_digits n") auto
  then have "d < 10" using dec_digits_less [of d n] by simp
  then have d: "\<not> isspace (hex_char d)" "hex_char d \<noteq> CHR ''-''" "hex_char d \<noteq> CHR ''+''"
    using hex_char_cases [of d] by simp_all
  have "digits 10 (map hex_char (dec_digits n) @ t) = dec_digits n"
    by (rule digits_dec) (use assms(2) dec_digits_less in auto)
  moreover have "skip_sign (dropWhile isspace (map hex_char (dec_digits n) @ t)) =
      (False, map hex_char (dec_digits n) @ t)"
    using d by (simp add: ds skip_sign_def)
  ultimately show ?thesis
    using assms(1) dec_digits_not_Nil [of n]
    by (simp add: scan_d_def printf_d_def horner_dec_digits)
qed

lemma scan_printf_02d:
  assumes "n < 2 ^ 31" "t = [] \<or> digit_val (hd t) = None"
  shows "scan_d (printf_02d n @ t) = Some (Some (int n), t)"
proof (cases "n < 10")
  case True
  have "hex_char 0 = CHR ''0''" by (simp add: hex_char_def)
  moreover have "dec_digits n = [n]" using True by (simp add: dec_digits.simps)
  ultimately have p: "printf_02d n = map hex_char [0, n]" using True by (simp add: printf_02d_def printf_d_def)
  have "digits 10 (map hex_char [0, n] @ t) = [0, n]"
    by (rule digits_dec) (use True assms(2) in auto)
  moreover have "skip_sign (dropWhile isspace (map hex_char [0, n] @ t)) =
      (False, map hex_char [0, n] @ t)"
    by (simp add: skip_sign_def hex_char_def isspace_def)
  ultimately show ?thesis using assms(1) by (simp add: scan_d_def p del: list.map)
next
  case False
  then show ?thesis using scan_printf_d [OF assms] by (simp add: printf_02d_def)
qed

section \<open>Writing the header file\<close>

text \<open>\<open>%s\<close> reads up to the NUL, which has to be inside the header's block.\<close>

definition c_str_at :: "bytes \<Rightarrow> nat \<Rightarrow> bytes result" where
  "c_str_at m off =
     (let s = c_str (drop off m) in if length m - off \<le> length s then Inl OutOfBounds else Inr s)"

text \<open>The packed version: three 7-bit numbers, then year since 2000 and month of the patch level.\<close>

definition os_fields :: "u32 \<Rightarrow> nat \<times> nat \<times> nat" where
  "os_fields v =
     (let version = drop_bit 11 v
      in (unat (drop_bit 14 version AND 0x7f), unat (drop_bit 7 version AND 0x7f),
          unat (version AND 0x7f)))"

definition patch_fields :: "u32 \<Rightarrow> nat \<times> nat" where
  "patch_fields v =
     (let patch_level = v AND 0x7ff
      in (unat (drop_bit 4 patch_level) + 2000, unat (patch_level AND 0xf)))"

definition newline :: string where
  "newline = [char_of (10 :: nat)]"

definition os_lines :: "u32 \<Rightarrow> bytes" where
  "os_lines v =
     (if v = 0 then []
      else let (a, b, c) = os_fields v; (y, m) = patch_fields v
           in str (''os_version='' @ printf_d a @ ''.'' @ printf_d b @ ''.'' @ printf_d c @ newline) @
              str (''os_patch_level='' @ printf_d y @ ''-'' @ printf_02d m @ newline))"

definition hdr_text :: "dyn_img_hdr \<Rightarrow> bytes result" where
  "hdr_text h =
     bindR
       (case str_off (ver h) Name of
          None \<Rightarrow> Inr []
        | Some (off, _) \<Rightarrow>
            bindR (c_str_at (raw h) off) (\<lambda>n. Inr (str ''name='' @ n @ str newline)))
       (\<lambda>name_line.
          case (str_off (ver h) Cmdline, str_off (ver h) Extra_cmdline) of
            (Some (off, _), Some (eoff, _)) \<Rightarrow>
              Inr (name_line @ str ''cmdline='' @ c_str (view off BOOT_ARGS_SIZE (raw h)) @
                c_str (view eoff BOOT_EXTRA_ARGS_SIZE (raw h)) @ str newline @
                os_lines (hdr_get Os_version h))
          | _ \<Rightarrow> Inl NullPointer)"

text \<open>
  The file is written through \<open>stdio\<close>, which goes on after short writes; its failures are not
  looked at. A file that cannot be opened is a null stream, which \<open>fprintf\<close> dereferences.
\<close>

definition HEADER_FILE :: string where "HEADER_FILE = ''header''"

definition dump_hdr_file :: "world \<Rightarrow> dyn_img_hdr \<Rightarrow> world result" where
  "dump_hdr_file w h =
     (case open_trunc w HEADER_FILE of
        None \<Rightarrow> Inl NullPointer
      | Some f \<Rightarrow>
          bindR (hdr_text h) (\<lambda>t. Inr (close_file w HEADER_FILE (snd (write_all t f)))))"

section \<open>Reading it back\<close>

definition poke :: "nat \<Rightarrow> bytes \<Rightarrow> dyn_img_hdr \<Rightarrow> dyn_img_hdr" where
  "poke off bs h = h\<lparr>raw := put_at off bs (raw h)\<rparr>"

definition load_name :: "nat \<Rightarrow> bytes \<Rightarrow> dyn_img_hdr \<Rightarrow> dyn_img_hdr" where
  "load_name off v h = poke off (if 15 < length v then take 15 v else v) (poke off (replicate 16 0) h)"

definition load_cmdline :: "nat \<Rightarrow> nat \<Rightarrow> bytes \<Rightarrow> dyn_img_hdr \<Rightarrow> dyn_img_hdr" where
  "load_cmdline off eoff v h =
     (let h1 = poke eoff (replicate BOOT_EXTRA_ARGS_SIZE 0) (poke off (replicate BOOT_ARGS_SIZE 0) h)
      in if BOOT_ARGS_SIZE < length v
         then let len = min (length v - BOOT_ARGS_SIZE) BOOT_EXTRA_ARGS_SIZE
              in poke eoff (view BOOT_ARGS_SIZE len v) (poke off (take BOOT_ARGS_SIZE v) h1)
         else poke off v h1)"

definition load_os_version :: "bytes \<Rightarrow> dyn_img_hdr \<Rightarrow> dyn_img_hdr result" where
  "load_os_version v h =
     (let patch_level = hdr_get Os_version h AND 0x7ff;
          vs = sscanf_d ''..'' (chars v)
      in bindR (scanned vs 0) (\<lambda>a. bindR (scanned vs 1) (\<lambda>b. bindR (scanned vs 2) (\<lambda>c.
           Inr (hdr_set Os_version
             (push_bit 11 (push_bit 14 (word_of_int a) OR push_bit 7 (word_of_int b) OR word_of_int c)
                OR patch_level) h)))))"

definition load_patch_level :: "bytes \<Rightarrow> dyn_img_hdr \<Rightarrow> dyn_img_hdr result" where
  "load_patch_level v h =
     (let os_ver = drop_bit 11 (hdr_get Os_version h);
          vs = sscanf_d ''-'' (chars v)
      in bindR (scanned vs 0) (\<lambda>y. bindR (scanned vs 1) (\<lambda>m.
           Inr (hdr_set Os_version
             (push_bit 11 os_ver OR push_bit 4 (word_of_int (y - 2000)) OR word_of_int m) h))))"

definition load_prop :: "bytes \<times> bytes \<Rightarrow> dyn_img_hdr \<Rightarrow> dyn_img_hdr result" where
  "load_prop kv h =
     (let (key, v) = kv
      in if key = str ''name'' \<and> str_off (ver h) Name \<noteq> None
         then Inr (load_name (fst (the (str_off (ver h) Name))) v h)
         else if key = str ''cmdline'' then
           (case (str_off (ver h) Cmdline, str_off (ver h) Extra_cmdline) of
              (Some (off, _), Some (eoff, _)) \<Rightarrow> Inr (load_cmdline off eoff v h)
            | _ \<Rightarrow> Inl NullPointer)
         else if key = str ''os_version'' then load_os_version v h
         else if key = str ''os_patch_level'' then load_patch_level v h
         else Inr h)"

fun load_props :: "(bytes \<times> bytes) list \<Rightarrow> dyn_img_hdr \<Rightarrow> dyn_img_hdr result" where
  "load_props [] h = Inr h"
| "load_props (kv # kvs) h = bindR (load_prop kv h) (load_props kvs)"

definition load_hdr_file :: "world \<Rightarrow> dyn_img_hdr \<Rightarrow> dyn_img_hdr result" where
  "load_hdr_file w h = load_props (parse_prop_file w HEADER_FILE) h"

end
