(* ===== verification/HdrFileCorrect.thy ===== *)
theory HdrFileCorrect
  imports HdrFile
begin

text \<open>
  The text form of a header read back: the version word survives for every value, the strings
  for headers whose text is canonical, and everything else in the header is left alone.
\<close>

section \<open>The version word\<close>

lemma masks: "(0x7f :: u32) = mask 7" "(0x7ff :: u32) = mask 11" "(0xf :: u32) = mask 4"
  by (simp_all add: mask_eq_exp_minus_1)

lemma version_parts:
  fixes x :: u32 assumes "drop_bit 21 x = 0"
  shows "push_bit 14 (drop_bit 14 x AND 0x7f) OR push_bit 7 (drop_bit 7 x AND 0x7f) OR (x AND 0x7f) = x"
proof (rule bit_word_eqI)
  fix n assume n: "n < LENGTH(32)"
  have "\<not> bit (drop_bit 21 x) (n - 21)" by (simp add: assms)
  then have hi: "\<not> n < 21 \<Longrightarrow> \<not> bit x n" by (simp add: bit_drop_bit_eq)
  consider "n < 7" | "7 \<le> n" "n < 14" | "14 \<le> n" "n < 21" | "21 \<le> n" by linarith
  then show "bit (push_bit 14 (drop_bit 14 x AND 0x7f) OR push_bit 7 (drop_bit 7 x AND 0x7f) OR (x AND 0x7f)) n = bit x n"
    using n hi by cases (auto simp: masks bit_simps)
qed
lemma level_parts:
  fixes v p :: u32
  shows "push_bit 11 (drop_bit 11 (push_bit 11 (drop_bit 11 v) OR (p AND 0x7ff))) OR push_bit 4 (drop_bit 4 (v AND 0x7ff)) OR ((v AND 0x7ff) AND 0xf) = v"
proof (rule bit_word_eqI)
  fix n assume n: "n < LENGTH(32)"
  consider "n < 4" | "4 \<le> n" "n < 11" | "11 \<le> n" by linarith
  then show "bit (push_bit 11 (drop_bit 11 (push_bit 11 (drop_bit 11 v) OR (p AND 0x7ff))) OR push_bit 4 (drop_bit 4 (v AND 0x7ff)) OR ((v AND 0x7ff) AND 0xf)) n = bit v n"
    using n by cases (auto simp: masks bit_simps)
qed

lemma drop_bit_11_small: "drop_bit 21 (drop_bit 11 v :: u32) = 0"
proof (rule bit_word_eqI)
  fix n assume "n < LENGTH(32)"
  have "bit v (n + 32) = False" using bit_imp_le_length [of v "n + 32"] by auto
  then show "bit (drop_bit 21 (drop_bit 11 v)) n = bit (0 :: u32) n"
    by (simp add: bit_drop_bit_eq add.commute)
qed

lemma word_of_int_unat [simp]: "word_of_int (int (unat w)) = (w :: 'a::len word)"
  by simp

lemma unat_and_mask_less: "unat (w AND mask k :: u32) < 2 ^ k"
  by (simp add: unsigned_take_bit_eq take_bit_nat_less_exp flip: take_bit_eq_mask)

lemma os_fields_less: "os_fields v = (a, b, c) \<Longrightarrow> a < 128 \<and> b < 128 \<and> c < 128"
  using unat_and_mask_less [of _ 7] by (auto simp: os_fields_def Let_def masks)

lemma patch_fields_less: "patch_fields v = (y, m) \<Longrightarrow> 2000 \<le> y \<and> y < 2128 \<and> m < 16"
proof -
  assume yp: "patch_fields v = (y, m)"
  have "unat (drop_bit 4 (v AND mask 11)) = unat (v AND mask 11) div 16"
    by (simp add: unat_div drop_bit_eq_div)
  with yp unat_and_mask_less [of v 11] unat_and_mask_less [of "v AND mask 11" 4] show ?thesis
    by (auto simp: patch_fields_def Let_def masks)
qed

lemma digit_val_literals [simp]:
  "digit_val CHR ''.'' = None" "digit_val CHR ''-'' = None"
  by (simp_all add: digit_val_def)

lemma sscanf_version:
  assumes "a < 2 ^ 31" "b < 2 ^ 31" "c < 2 ^ 31"
  shows "sscanf_d ''..'' (printf_d a @ ''.'' @ printf_d b @ ''.'' @ printf_d c) =
    [Some (int a), Some (int b), Some (int c)]"
  using scan_printf_d [OF assms(1)] scan_printf_d [OF assms(2)] scan_printf_d [OF assms(3), of "[]"]
  by simp

lemma sscanf_level:
  assumes "y < 2 ^ 31" "m < 2 ^ 31"
  shows "sscanf_d ''-'' (printf_d y @ ''-'' @ printf_02d m) = [Some (int y), Some (int m)]"
  using scan_printf_d [OF assms(1)] scan_printf_02d [OF assms(2), of "[]"] by simp

definition version_text :: "u32 \<Rightarrow> string" where
  "version_text v = (let (a, b, c) = os_fields v in printf_d a @ ''.'' @ printf_d b @ ''.'' @ printf_d c)"

definition level_text :: "u32 \<Rightarrow> string" where
  "level_text v = (let (y, m) = patch_fields v in printf_d y @ ''-'' @ printf_02d m)"

lemma scanned_simps:
  "scanned [Some i, Some j] 0 = Inr i" "scanned [Some i, Some j] 1 = Inr j"
  "scanned [Some i, Some j, Some k] 0 = Inr i" "scanned [Some i, Some j, Some k] 1 = Inr j"
  "scanned [Some i, Some j, Some k] 2 = Inr k"
  by (simp_all add: scanned_def)

lemma load_os_version_text:
  "load_os_version (str (version_text v)) h =
     Inr (hdr_set Os_version (push_bit 11 (drop_bit 11 v) OR (hdr_get Os_version h AND 0x7ff)) h)"
proof -
  obtain a b c where f: "os_fields v = (a, b, c)" by (metis prod_cases3)
  have vs: "sscanf_d ''..'' (version_text v) = [Some (int a), Some (int b), Some (int c)]"
    using sscanf_version [of a b c] os_fields_less [OF f] by (simp add: version_text_def f)
  have abc: "a = unat (drop_bit 14 (drop_bit 11 v) AND 0x7f)"
    "b = unat (drop_bit 7 (drop_bit 11 v) AND 0x7f)" "c = unat (drop_bit 11 v AND 0x7f)"
    using f by (simp_all only: os_fields_def Let_def prod.inject)
  have "push_bit 14 (word_of_int (int a)) OR push_bit 7 (word_of_int (int b)) OR word_of_int (int c) =
      (drop_bit 11 v :: u32)"
    unfolding abc word_of_int_unat by (rule version_parts [OF drop_bit_11_small])
  then show ?thesis
    unfolding load_os_version_def Let_def chars_str vs scanned_simps bindR_Inr by (simp only:)
qed

lemma load_patch_level_text:
  assumes "hdr_get Os_version h = push_bit 11 (drop_bit 11 v) OR (p AND 0x7ff)"
  shows "load_patch_level (str (level_text v)) h = Inr (hdr_set Os_version v h)"
proof -
  obtain y m where f: "patch_fields v = (y, m)" by (metis surj_pair)
  note less = patch_fields_less [OF f]
  have vs: "sscanf_d ''-'' (level_text v) = [Some (int y), Some (int m)]"
    using sscanf_level [of y m] less by (simp add: level_text_def f)
  have ym: "y = unat (drop_bit 4 (v AND 0x7ff)) + 2000" "m = unat ((v AND 0x7ff) AND 0xf)"
    using f by (simp_all only: patch_fields_def Let_def prod.inject)
  have "int y - 2000 = int (unat (drop_bit 4 (v AND 0x7ff)))"
    unfolding ym by (simp only: of_nat_add of_nat_numeral add_diff_cancel_right')
  then have parts: "word_of_int (int y - 2000) = (drop_bit 4 (v AND 0x7ff) :: u32)"
    "word_of_int (int m) = ((v AND 0x7ff) AND 0xf :: u32)"
    unfolding ym(2) by (simp_all only: word_of_int_unat)
  show ?thesis
    unfolding load_patch_level_def Let_def chars_str vs scanned_simps bindR_Inr parts assms
      level_parts ..
qed

text \<open>The two lines together set the word, whatever the header held before.\<close>

lemma hdr_set_hdr_set: "wf_hdr h \<Longrightarrow> hdr_set fl v (hdr_set fl w h) = hdr_set fl v h"
  by (auto simp: hdr_set_def wf_hdr_def hdr_size_def put_at_put_at_same
      dest: field_inside split: option.splits)

lemma load_os_props:
  assumes "wf_hdr h" "has_field h Os_version"
  shows "load_props [(str ''os_version'', str (version_text v)),
     (str ''os_patch_level'', str (level_text v))] h = Inr (hdr_set Os_version v h)"
proof -
  let ?h1 = "hdr_set Os_version (push_bit 11 (drop_bit 11 v) OR (hdr_get Os_version h AND 0x7ff)) h"
  have "hdr_get Os_version ?h1 = push_bit 11 (drop_bit 11 v) OR (hdr_get Os_version h AND 0x7ff)"
    by (rule hdr_get_set_same [OF assms])
  from load_patch_level_text [OF this] show ?thesis
    by (simp add: load_prop_def load_os_version_text hdr_set_hdr_set [OF assms(1)])
qed

section \<open>Lines\<close>

definition one_line :: "bytes \<Rightarrow> bool" where
  "one_line b \<longleftrightarrow> 0 \<notin> set b \<and> 10 \<notin> set b"

lemma fgets_line: "10 \<notin> set l \<Longrightarrow> length l < n \<Longrightarrow> fgets n (l @ 10 # r) = (l @ [10], r)"
proof (induction l arbitrary: n)
  case Nil
  then show ?case by (cases n) auto
next
  case (Cons b l)
  then show ?case by (cases n) auto
qed

lemma prop_lines_line:
  assumes "10 \<notin> set l" "length l + 1 < LINE_BUF"
  shows "prop_lines (l @ 10 # r) = (l @ [10]) # prop_lines r"
proof -
  have "fgets (LINE_BUF - 1) (l @ 10 # r) = (l @ [10], r)"
    using assms by (intro fgets_line) simp_all
  then show ?thesis by (subst prop_lines.simps) simp
qed

lemma c_str_id: "0 \<notin> set b \<Longrightarrow> c_str b = b"
  by (auto simp: c_str_def takeWhile_eq_all_conv)

lemma c_str_padded: "0 \<notin> set b \<Longrightarrow> c_str (b @ replicate n 0) = b"
  by (induction b) (auto simp: c_str_def takeWhile_eq_Nil_iff)

definition equals :: byte where
  "equals = byte_of_char (CHR ''='')"

lemma prop_of_line_property:
  assumes "0 \<notin> set key" "equals \<notin> set key" "0 \<notin> set v"
  shows "prop_of_line (key @ equals # v @ [10]) = Some (key, v)"
proof -
  have e: "byte_of_char (CHR ''='') = equals" "equals \<noteq> 0"
    by (simp_all add: equals_def byte_of_char_def)
  have s: "c_str (key @ equals # v @ [10]) = key @ equals # v @ [10]"
    by (rule c_str_id) (use assms e in auto)
  have "takeWhile (\<lambda>b. b \<noteq> equals) (key @ equals # v @ [10]) = key"
    using assms(2) by (induction key) auto
  then show ?thesis by (simp add: prop_of_line_def s e(1) Let_def)
qed

lemma prop_lines_properties:
  assumes "\<forall>(k, v) \<in> set kvs. one_line k \<and> equals \<notin> set k \<and> one_line v \<and> length k + length v + 2 < LINE_BUF"
  shows "List.map_filter prop_of_line (prop_lines (concat (map (\<lambda>(k, v). k @ equals # v @ [10]) kvs))) = kvs"
  using assms
proof (induction kvs)
  case Nil
  then show ?case by (simp add: prop_lines.simps List.map_filter_def)
next
  case (Cons kv kvs)
  obtain k v where kv: "kv = (k, v)" by (cases kv)
  have e: "equals \<noteq> 10" by (simp add: equals_def byte_of_char_def)
  have "prop_lines ((k @ equals # v) @ 10 # concat (map (\<lambda>(k, v). k @ equals # v @ [10]) kvs)) =
      ((k @ equals # v) @ [10]) # prop_lines (concat (map (\<lambda>(k, v). k @ equals # v @ [10]) kvs))"
    using Cons.prems e by (intro prop_lines_line) (auto simp: kv one_line_def)
  moreover have "prop_of_line ((k @ equals # v) @ [10]) = Some (k, v)"
    using prop_of_line_property [of k v] Cons.prems by (simp add: kv one_line_def)
  ultimately show ?case
    using Cons by (simp add: kv List.map_filter_simps)
qed

section \<open>Strings of the header\<close>

definition padded :: "nat \<Rightarrow> bytes \<Rightarrow> bytes" where
  "padded n b = b @ replicate (n - length b) 0"

lemma length_padded [simp]: "length (padded n b) = max n (length b)"
  by (simp add: padded_def)

lemma nth_put_at:
  assumes "p + length bs \<le> length d" "i < length d"
  shows "put_at p bs d ! i = (if p \<le> i \<and> i < p + length bs then bs ! (i - p) else d ! i)"
  using assms by (auto simp: put_at_inside nth_append min_def)

lemma put_at_overlay:
  assumes "length bs \<le> length cs" "p + length cs \<le> length d"
  shows "put_at p bs (put_at p cs d) = put_at p (bs @ drop (length bs) cs) d"
proof (rule nth_equalityI)
  fix i assume "i < length (put_at p bs (put_at p cs d))"
  with assms have "i < length d" by simp
  with assms show "put_at p bs (put_at p cs d) ! i = put_at p (bs @ drop (length bs) cs) d ! i"
    by (auto simp: nth_put_at nth_append)
qed (use assms in simp)

lemma put_at_commute:
  assumes "p + length bs \<le> q" "q + length cs \<le> length d"
  shows "put_at p bs (put_at q cs d) = put_at q cs (put_at p bs d)"
proof (rule nth_equalityI)
  fix i assume "i < length (put_at p bs (put_at q cs d))"
  with assms have "i < length d" by simp
  with assms show "put_at p bs (put_at q cs d) ! i = put_at q cs (put_at p bs d) ! i"
    by (simp add: nth_put_at)
qed (use assms in simp)

lemma ver_poke [simp]: "ver (poke off bs h) = ver h"
  by (simp add: poke_def)

lemma load_name_padded:
  assumes "length v \<le> 15" "off + 16 \<le> length (raw h)"
  shows "load_name off v h = poke off (padded 16 v) h"
  using assms by (simp add: load_name_def poke_def padded_def put_at_overlay)

lemma load_cmdline_padded:
  assumes "length c \<le> 1536" "off + 512 \<le> eoff" "eoff + 1024 \<le> length (raw h)"
  shows "load_cmdline off eoff c h =
    poke eoff (padded 1024 (drop 512 c)) (poke off (padded 512 (take 512 c)) h)"
proof (cases "512 < length c")
  case True
  let ?z = "put_at off (replicate 512 0) (raw h)"
  have len: "min (length c - 512) 1024 = length c - 512" using assms(1) by simp
  have "put_at off (take 512 c) (put_at eoff (replicate 1024 0) ?z) =
      put_at eoff (replicate 1024 0) (put_at off (take 512 c) ?z)"
    by (rule put_at_commute) (use assms True in auto)
  also have "put_at off (take 512 c) ?z = put_at off (take 512 c) (raw h)"
    using assms True by (subst put_at_overlay) auto
  finally have *: "put_at off (take 512 c) (put_at eoff (replicate 1024 0) ?z) =
      put_at eoff (replicate 1024 0) (put_at off (take 512 c) (raw h))" .
  have "put_at eoff (drop 512 c) (put_at off (take 512 c) (put_at eoff (replicate 1024 0) ?z)) =
      put_at eoff (padded 1024 (drop 512 c)) (put_at off (take 512 c) (raw h))"
    unfolding * using assms True by (subst put_at_overlay) (auto simp: padded_def)
  then show ?thesis
    using True assms len
    by (simp add: load_cmdline_def poke_def BOOT_ARGS_SIZE_def BOOT_EXTRA_ARGS_SIZE_def Let_def
        view_def padded_def)
next
  case False
  let ?z = "put_at off (replicate 512 0) (raw h)"
  have "put_at off c (put_at eoff (replicate 1024 0) ?z) =
      put_at eoff (replicate 1024 0) (put_at off c ?z)"
    by (rule put_at_commute) (use assms False in auto)
  also have "put_at off c ?z = put_at off (padded 512 c) (raw h)"
    using assms False by (subst put_at_overlay) (auto simp: padded_def)
  finally show ?thesis
    using False assms
    by (simp add: load_cmdline_def poke_def BOOT_ARGS_SIZE_def BOOT_EXTRA_ARGS_SIZE_def Let_def
        padded_def)
qed

text \<open>The parts of the struct the text form covers, and where they lie.\<close>

fun text_size :: "str_field \<Rightarrow> nat" where
  "text_size Name = 16"
| "text_size Cmdline = 512"
| "text_size Extra_cmdline = 1024"
| "text_size Id = 32"

lemma text_inside: "str_off v sf = Some (a, n) \<Longrightarrow> a + text_size sf \<le> hdr_size_of v"
  by (cases v; cases sf) (auto simp: str_defs)

lemma text_apart:
  "str_off v sf = Some (a, n) \<Longrightarrow> str_off v tf = Some (b, k) \<Longrightarrow> sf \<noteq> tf \<Longrightarrow>
     a + text_size sf \<le> b \<or> b + text_size tf \<le> a"
  by (cases v; cases sf; cases tf) (auto simp: str_defs)

lemma text_field_apart:
  "str_off v sf = Some (a, n) \<Longrightarrow> field_off v fl = Some b \<Longrightarrow> a + text_size sf \<le> b \<or> b + 4 \<le> a"
  by (cases v; cases sf; cases fl) (auto simp: str_defs off_defs)

lemma cmdline_before_extra:
  "\<exists>a n b k. str_off v Cmdline = Some (a, n) \<and> str_off v Extra_cmdline = Some (b, k) \<and> a + 512 \<le> b"
  by (cases v) (auto simp: str_defs)

definition text_of :: "str_field \<Rightarrow> dyn_img_hdr \<Rightarrow> bytes" where
  "text_of sf h = (case str_off (ver h) sf of None \<Rightarrow> [] | Some (a, _) \<Rightarrow> view a (text_size sf) (raw h))"

definition text_put :: "str_field \<Rightarrow> bytes \<Rightarrow> dyn_img_hdr \<Rightarrow> dyn_img_hdr" where
  "text_put sf b h = (case str_off (ver h) sf of None \<Rightarrow> h | Some (a, _) \<Rightarrow> poke a b h)"

lemma ver_text_put [simp]: "ver (text_put sf b h) = ver h"
  by (auto simp: text_put_def split: option.splits)

lemma wf_text_put [simp]: "wf_hdr h \<Longrightarrow> length b = text_size sf \<Longrightarrow> wf_hdr (text_put sf b h)"
  by (auto simp: text_put_def wf_hdr_def poke_def hdr_size_def split: option.splits dest!: text_inside)

lemma text_of_put_same:
  "wf_hdr h \<Longrightarrow> length b = text_size sf \<Longrightarrow> str_off (ver h) sf \<noteq> None \<Longrightarrow>
     text_of sf (text_put sf b h) = b"
proof -
  assume h: "wf_hdr h" "length b = text_size sf" "str_off (ver h) sf \<noteq> None"
  then obtain a n where a: "str_off (ver h) sf = Some (a, n)" by auto
  have "view a (length b) (put_at a b (raw h)) = b"
    by (rule view_put_at_same) (use text_inside [OF a] h in \<open>simp add: wf_hdr_def hdr_size_def\<close>)
  with a h show ?thesis by (simp add: text_of_def text_put_def poke_def)
qed

lemma text_of_put_other:
  assumes "wf_hdr h" "length b = text_size sf" "sf \<noteq> tf"
  shows "text_of tf (text_put sf b h) = text_of tf h"
proof (cases "str_off (ver h) sf"; cases "str_off (ver h) tf")
  fix p q assume p: "str_off (ver h) sf = Some p" and q: "str_off (ver h) tf = Some q"
  obtain a n c k where pq: "p = (a, n)" "q = (c, k)" by (cases p; cases q) auto
  have room: "a + length b \<le> length (raw h)"
    using text_inside [of "ver h" sf a n] p pq assms by (simp add: wf_hdr_def hdr_size_def)
  from text_apart [OF p [unfolded pq] q [unfolded pq] assms(3)]
  have "view c (text_size tf) (put_at a b (raw h)) = view c (text_size tf) (raw h)"
    using room assms(2) view_put_at_before view_put_at_after by metis
  with p q pq show ?thesis by (simp add: text_of_def text_put_def poke_def)
qed (auto simp: text_of_def text_put_def)

lemma hdr_get_text_put:
  assumes "wf_hdr h" "length b = text_size sf"
  shows "hdr_get fl (text_put sf b h) = hdr_get fl h"
proof (cases "str_off (ver h) sf"; cases "field_off (ver h) fl")
  fix p c assume p: "str_off (ver h) sf = Some p" and c: "field_off (ver h) fl = Some c"
  obtain a n where pa: "p = (a, n)" by (cases p) auto
  have room: "a + length b \<le> length (raw h)"
    using text_inside [of "ver h" sf a n] p pa assms by (simp add: wf_hdr_def hdr_size_def)
  from text_field_apart [OF p [unfolded pa] c]
  have "view c 4 (put_at a b (raw h)) = view c 4 (raw h)"
    using room assms(2) view_put_at_before view_put_at_after by metis
  with p c pa show ?thesis by (auto simp: hdr_get_def text_put_def poke_def)
qed (auto simp: hdr_get_def text_put_def poke_def)

lemma text_of_hdr_set:
  assumes "wf_hdr h"
  shows "text_of sf (hdr_set fl v h) = text_of sf h"
proof (cases "str_off (ver h) sf"; cases "field_off (ver h) fl")
  fix p c assume p: "str_off (ver h) sf = Some p" and c: "field_off (ver h) fl = Some c"
  obtain a n where pa: "p = (a, n)" by (cases p) auto
  have room: "c + length (le32_bytes v) \<le> length (raw h)"
    using field_inside [OF c] assms by (simp add: wf_hdr_def hdr_size_def)
  from text_field_apart [OF p [unfolded pa] c]
  have "view a (text_size sf) (put_at c (le32_bytes v) (raw h)) = view a (text_size sf) (raw h)"
    using room view_put_at_before view_put_at_after length_le32_bytes by metis
  with p c pa show ?thesis by (simp add: text_of_def hdr_set_def)
qed (auto simp: text_of_def hdr_set_def)

section \<open>The round trip\<close>

text \<open>
  A header with canonical text: the name \<open>n\<close> of at most 15 bytes and the command line \<open>c\<close> over
  both parts, without newline and NUL, the rest of the areas zero.
\<close>

definition canonical :: "dyn_img_hdr \<Rightarrow> bytes \<Rightarrow> bytes \<Rightarrow> bool" where
  "canonical h n c \<longleftrightarrow> wf_hdr h \<and> one_line c \<and> length c \<le> 1536 \<and>
     text_of Cmdline h = padded 512 (take 512 c) \<and> text_of Extra_cmdline h = padded 1024 (drop 512 c) \<and>
     (str_off (ver h) Name \<noteq> None \<longrightarrow> one_line n \<and> length n \<le> 15 \<and> text_of Name h = padded 16 n)"

definition text_props :: "dyn_img_hdr \<Rightarrow> bytes \<Rightarrow> bytes \<Rightarrow> (bytes \<times> bytes) list" where
  "text_props h n c =
     (if str_off (ver h) Name = None then [] else [(str ''name'', n)]) @ [(str ''cmdline'', c)] @
     (let v = hdr_get Os_version h
      in if v = 0 then []
         else [(str ''os_version'', str (version_text v)), (str ''os_patch_level'', str (level_text v))])"

lemma c_str_at_padded:
  assumes "view off k m = padded k n" "length n < k" "0 \<notin> set n" "off + k \<le> length m"
  shows "c_str_at m off = Inr n"
proof -
  have "drop off m = take k (drop off m) @ drop k (drop off m)"
    by (rule append_take_drop_id [symmetric])
  also have "\<dots> = n @ 0 # (replicate (k - length n - 1) 0 @ drop (off + k) m)"
    using assms(1,2) by (cases "k - length n") (auto simp: view_def padded_def add.commute)
  finally obtain r where r: "drop off m = n @ 0 # r" by blast
  then have "c_str (drop off m) = n"
    using assms(3) by (auto simp: c_str_def takeWhile_tail)
  moreover have "length n < length m - off"
    using arg_cong [OF r, of length] by simp
  ultimately show ?thesis by (simp add: c_str_at_def)
qed

lemma c_str_parts:
  assumes "0 \<notin> set c"
  shows "c_str (padded 512 (take 512 c)) @ c_str (padded 1024 (drop 512 c)) = c"
proof -
  have "0 \<notin> set (take 512 c)" "0 \<notin> set (drop 512 c)"
    using assms by (meson in_set_takeD in_set_dropD)+
  then show ?thesis by (simp add: padded_def c_str_padded)
qed

lemma os_lines_props:
  "os_lines v = (if v = 0 then []
     else concat (map (\<lambda>(k, v). k @ equals # v @ [10])
       [(str ''os_version'', str (version_text v)), (str ''os_patch_level'', str (level_text v))]))"
  by (auto simp: os_lines_def version_text_def level_text_def newline_def equals_def str_def
      byte_of_char_def split: prod.splits)

lemma hdr_text_props:
  assumes "canonical h n c"
  shows "hdr_text h = Inr (concat (map (\<lambda>(k, v). k @ equals # v @ [10]) (text_props h n c)))"
proof -
  have wf: "wf_hdr h" using assms by (simp add: canonical_def)
  have nl: "str newline = [10]" by (simp add: newline_def str_def byte_of_char_def)
  have eq: "str (s @ ''='') = str s @ [equals]" for s by (simp add: equals_def str_Cons)
  obtain a k b l where ab: "str_off (ver h) Cmdline = Some (a, k)" "str_off (ver h) Extra_cmdline = Some (b, l)"
    using cmdline_before_extra by blast
  have "view a 512 (raw h) = padded 512 (take 512 c)" "view b 1024 (raw h) = padded 1024 (drop 512 c)"
    using assms ab by (simp_all add: canonical_def text_of_def)
  moreover have "0 \<notin> set c" using assms by (simp add: canonical_def one_line_def)
  ultimately have cmd: "c_str (view a BOOT_ARGS_SIZE (raw h)) @ c_str (view b BOOT_EXTRA_ARGS_SIZE (raw h)) @ r = c @ r" for r
    using c_str_parts [of c] by (simp add: BOOT_ARGS_SIZE_def BOOT_EXTRA_ARGS_SIZE_def flip: append_assoc)
  have name: "bindR (c_str_at (raw h) off) f = f n" if "str_off (ver h) Name = Some (off, j)" for off j f
  proof -
    have "off + 16 \<le> length (raw h)"
      using text_inside [OF that] wf by (simp add: wf_hdr_def hdr_size_def)
    then have "c_str_at (raw h) off = Inr n"
      using assms that by (intro c_str_at_padded [of off 16]) (auto simp: canonical_def text_of_def one_line_def)
    then show ?thesis by simp
  qed
  show ?thesis
    using eq [of "''name''"] eq [of "''cmdline''"]
    by (cases "str_off (ver h) Name")
      (auto simp: hdr_text_def text_props_def ab nl cmd name os_lines_props Let_def)
qed

lemma length_dec_digits: "length (dec_digits n) \<le> n + 1"
proof (induction n rule: dec_digits.induct)
  case (1 n)
  show ?case
  proof (cases "n < 10")
    case False
    with 1 have "length (dec_digits (n div 10)) \<le> n div 10 + 1" by simp
    with False show ?thesis by (subst dec_digits.simps) simp
  qed (simp add: dec_digits.simps)
qed

lemma hex_char_decimal:
  assumes "d < 10"
  shows "of_char (hex_char d) = 48 + d"
proof -
  have "d = 0 \<or> d = 1 \<or> d = 2 \<or> d = 3 \<or> d = 4 \<or> d = 5 \<or> d = 6 \<or> d = 7 \<or> d = 8 \<or> d = 9"
    using assms by presburger
  then show ?thesis by (elim disjE) (simp_all add: hex_char_def)
qed

lemma one_line_char: "of_char c \<noteq> (0 :: nat) \<Longrightarrow> of_char c \<noteq> (10 :: nat) \<Longrightarrow>
    byte_of_char c \<noteq> 0 \<and> byte_of_char c \<noteq> 10"
proof (intro conjI notI)
  assume c: "of_char c \<noteq> (0 :: nat)" "of_char c \<noteq> (10 :: nat)"
  show False if "byte_of_char c = 0" using arg_cong [OF that, of unat] c by simp
  show False if "byte_of_char c = 10" using arg_cong [OF that, of unat] c by simp
qed

lemma one_line_printf: "one_line (str (printf_d n))" "one_line (str (printf_02d n))"
proof -
  have *: "byte_of_char (hex_char d) \<noteq> 0 \<and> byte_of_char (hex_char d) \<noteq> 10" if "d \<in> set (dec_digits n)" for d
    using hex_char_decimal [OF dec_digits_less [OF that]] by (intro one_line_char) simp_all
  show "one_line (str (printf_d n))" using * by (force simp: one_line_def str_def printf_d_def)
  then show "one_line (str (printf_02d n))"
    by (simp add: one_line_def str_def printf_02d_def byte_of_char_def)
qed

lemma one_line_append: "one_line (a @ b) \<longleftrightarrow> one_line a \<and> one_line b"
  by (auto simp: one_line_def)

lemma one_line_separators: "one_line (str ''.'')" "one_line (str ''-'')"
  by (simp_all add: one_line_def str_def byte_of_char_def)

lemma version_text_ok: "one_line (str (version_text v)) \<and> length (version_text v) < 400"
proof -
  obtain a b c where f: "os_fields v = (a, b, c)" by (metis prod_cases3)
  have t: "version_text v = printf_d a @ ''.'' @ printf_d b @ ''.'' @ printf_d c"
    by (simp only: version_text_def f Let_def prod.case)
  have "one_line (str (version_text v))"
    by (simp only: t str_append one_line_append one_line_printf one_line_separators)
  moreover have "length (version_text v) < 400"
    using os_fields_less [OF f] length_dec_digits [of a] length_dec_digits [of b] length_dec_digits [of c]
    by (simp add: t printf_d_def)
  ultimately show ?thesis ..
qed

lemma level_text_ok: "one_line (str (level_text v)) \<and> length (level_text v) < 3000"
proof -
  obtain y m where f: "patch_fields v = (y, m)" by (metis surj_pair)
  have t: "level_text v = printf_d y @ ''-'' @ printf_02d m"
    by (simp only: level_text_def f Let_def prod.case)
  have "one_line (str (level_text v))"
    by (simp only: t str_append one_line_append one_line_printf one_line_separators)
  moreover have "length (printf_02d m) \<le> m + 2"
    using length_dec_digits [of m] by (simp add: printf_02d_def printf_d_def)
  then have "length (level_text v) < 3000"
    using patch_fields_less [OF f] length_dec_digits [of y] by (simp add: t printf_d_def)
  ultimately show ?thesis ..
qed

lemma text_props_lines:
  assumes "canonical h n c"
  shows "List.map_filter prop_of_line (prop_lines (concat (map (\<lambda>(k, v). k @ equals # v @ [10])
    (text_props h n c)))) = text_props h n c"
proof (rule prop_lines_properties)
  have keys: "one_line (str ''name'') \<and> equals \<notin> set (str ''name'')"
    "one_line (str ''cmdline'') \<and> equals \<notin> set (str ''cmdline'')"
    "one_line (str ''os_version'') \<and> equals \<notin> set (str ''os_version'')"
    "one_line (str ''os_patch_level'') \<and> equals \<notin> set (str ''os_patch_level'')"
    by (simp_all add: one_line_def equals_def str_def byte_of_char_def)
  show "\<forall>(k, v) \<in> set (text_props h n c). one_line k \<and> equals \<notin> set k \<and> one_line v \<and>
      length k + length v + 2 < LINE_BUF"
    using assms keys version_text_ok [of "hdr_get Os_version h"] level_text_ok [of "hdr_get Os_version h"]
    by (auto simp: text_props_def canonical_def LINE_BUF_def Let_def)
qed

definition loaded :: "dyn_img_hdr \<Rightarrow> bytes \<Rightarrow> bytes \<Rightarrow> dyn_img_hdr \<Rightarrow> dyn_img_hdr" where
  "loaded h n c h' =
     (let g = text_put Extra_cmdline (padded 1024 (drop 512 c))
            (text_put Cmdline (padded 512 (take 512 c)) (text_put Name (padded 16 n) h'))
      in if hdr_get Os_version h = 0 then g else hdr_set Os_version (hdr_get Os_version h) g)"

lemma load_text_props:
  assumes "canonical h n c" "wf_hdr h'" "ver h' = ver h"
  shows "load_props (text_props h n c) h' = Inr (loaded h n c h')"
proof -
  let ?gn = "text_put Name (padded 16 n) h'"
  let ?g = "text_put Extra_cmdline (padded 1024 (drop 512 c)) (text_put Cmdline (padded 512 (take 512 c)) ?gn)"
  have name: "load_prop (str ''name'', n) h' = Inr ?gn" and wf0: "wf_hdr ?gn"
    if "str_off (ver h) Name \<noteq> None"
    using assms that text_inside [of "ver h" Name]
    by (auto simp: load_prop_def load_name_padded canonical_def text_put_def wf_hdr_def hdr_size_def
        poke_def)
  have wf0: "wf_hdr ?gn"
    using assms wf0 by (cases "str_off (ver h) Name") (simp_all add: text_put_def)
  obtain a k b l where ab: "str_off (ver h) Cmdline = Some (a, k)" "str_off (ver h) Extra_cmdline = Some (b, l)"
    "a + 512 \<le> b"
    using cmdline_before_extra by blast
  have "load_prop (str ''cmdline'', c) g = Inr (text_put Extra_cmdline (padded 1024 (drop 512 c))
      (text_put Cmdline (padded 512 (take 512 c)) g))" if "wf_hdr g" "ver g = ver h" for g
    using ab assms(1) text_inside [OF ab(2)] that
    by (simp add: load_prop_def load_cmdline_padded canonical_def text_put_def wf_hdr_def hdr_size_def)
  from this [OF wf0] have cmd: "load_prop (str ''cmdline'', c) ?gn = Inr ?g" using assms(3) by simp
  have wfc: "wf_hdr (text_put Cmdline (padded 512 (take 512 c)) ?gn)"
    by (rule wf_text_put [OF wf0]) simp
  have wf: "wf_hdr ?g"
    by (rule wf_text_put [OF wfc]) (use assms(1) in \<open>auto simp: canonical_def\<close>)
  have os: "load_props [(str ''os_version'', str (version_text v)),
     (str ''os_patch_level'', str (level_text v))] ?g = Inr (hdr_set Os_version v ?g)"
    if "hdr_get Os_version h = v" "v \<noteq> 0" for v
    using that assms(3) by (intro load_os_props [OF wf])
      (auto simp: has_field_def hdr_get_def split: option.splits)
  show ?thesis
    using name cmd os assms(3)
    by (cases "str_off (ver h) Name")
      (auto simp: text_props_def loaded_def Let_def text_put_def [of Name])
qed

lemma loaded_result:
  assumes "canonical h n c" "wf_hdr h'" "ver h' = ver h"
  shows "canonical (loaded h n c h') n c" "ver (loaded h n c h') = ver h"
    "hdr_get Os_version h \<noteq> 0 \<Longrightarrow> hdr_get Os_version (loaded h n c h') = hdr_get Os_version h"
    "fl \<noteq> Os_version \<Longrightarrow> hdr_get fl (loaded h n c h') = hdr_get fl h'"
    "text_of Id (loaded h n c h') = text_of Id h'"
proof -
  let ?gn = "text_put Name (padded 16 n) h'"
  let ?gc = "text_put Cmdline (padded 512 (take 512 c)) ?gn"
  let ?g = "text_put Extra_cmdline (padded 1024 (drop 512 c)) ?gc"
  have wf0: "wf_hdr ?gn"
  proof (cases "str_off (ver h) Name")
    case None
    then show ?thesis using assms by (simp add: text_put_def)
  next
    case (Some p)
    then show ?thesis using assms by (intro wf_text_put) (auto simp: canonical_def)
  qed
  have wf1: "wf_hdr ?gc" by (rule wf_text_put [OF wf0]) simp
  have wf: "wf_hdr ?g"
    by (rule wf_text_put [OF wf1]) (use assms(1) in \<open>auto simp: canonical_def\<close>)
  have len: "length (padded 1024 (drop 512 c)) = text_size Extra_cmdline"
    "length (padded 512 (take 512 c)) = text_size Cmdline"
    using assms(1) by (auto simp: canonical_def)
  have get: "hdr_get fl ?g = hdr_get fl h'" for fl
  proof (cases "str_off (ver h) Name")
    case None
    then show ?thesis using assms hdr_get_text_put [OF wf1 len(1)] hdr_get_text_put [OF wf0 len(2)]
      by (simp add: text_put_def [of Name])
  next
    case (Some p)
    then have "length (padded 16 n) = text_size Name" using assms(1) by (auto simp: canonical_def)
    then show ?thesis
      using hdr_get_text_put [OF wf1 len(1)] hdr_get_text_put [OF wf0 len(2)]
        hdr_get_text_put [OF assms(2)] by simp
  qed
  have ver: "ver ?g = ver h" using assms(3) by simp
  have nonempty: "str_off (ver h) Cmdline \<noteq> None" "str_off (ver h) Extra_cmdline \<noteq> None"
    using cmdline_before_extra [of "ver h"] by auto
  have cmd: "text_of Cmdline ?g = padded 512 (take 512 c)"
    using text_of_put_other [OF wf1 len(1), of Cmdline] text_of_put_same [OF wf0 len(2)] nonempty assms(3)
    by simp
  have extra: "text_of Extra_cmdline ?g = padded 1024 (drop 512 c)"
    using text_of_put_same [OF wf1 len(1)] nonempty assms(3) by simp
  have name: "text_of Name ?g = padded 16 n" if "str_off (ver h) Name \<noteq> None"
  proof -
    have "length (padded 16 n) = text_size Name" using assms(1) that by (auto simp: canonical_def)
    from text_of_put_same [OF assms(2) this] that assms(3)
    show ?thesis using text_of_put_other [OF wf1 len(1), of Name] text_of_put_other [OF wf0 len(2), of Name]
      by simp
  qed
  have id: "text_of Id ?g = text_of Id h'"
  proof -
    have "text_of Id ?gn = text_of Id h'"
    proof (cases "str_off (ver h) Name")
      case None
      then show ?thesis using assms(3) by (simp add: text_put_def)
    next
      case (Some p)
      then have "length (padded 16 n) = text_size Name" using assms(1) by (auto simp: canonical_def)
      then show ?thesis by (intro text_of_put_other [OF assms(2)]) simp_all
    qed
    then show ?thesis
      using text_of_put_other [OF wf1 len(1), of Id] text_of_put_other [OF wf0 len(2), of Id] by simp
  qed
  have canon: "canonical ?g n c"
    using assms(1) wf ver cmd extra name by (auto simp: canonical_def)
  have L: "loaded h n c h' = (if hdr_get Os_version h = 0 then ?g
      else hdr_set Os_version (hdr_get Os_version h) ?g)"
    by (simp add: loaded_def Let_def)
  show "canonical (loaded h n c h') n c"
    using canon wf by (simp add: L canonical_def text_of_hdr_set)
  show "ver (loaded h n c h') = ver h" using ver by (simp add: L)
  show "text_of Id (loaded h n c h') = text_of Id h'" using id wf by (simp add: L text_of_hdr_set)
  show "hdr_get Os_version (loaded h n c h') = hdr_get Os_version h" if "hdr_get Os_version h \<noteq> 0"
  proof -
    have "has_field ?g Os_version"
      using that ver by (auto simp: has_field_def hdr_get_def split: option.splits)
    from hdr_get_set_same [OF wf this] that show ?thesis by (simp add: L)
  qed
  show "hdr_get fl (loaded h n c h') = hdr_get fl h'" if "fl \<noteq> Os_version"
    using that hdr_get_set_other [OF wf, of Os_version fl] get by (simp add: L)
qed

text \<open>Through the file: what \<open>dump_hdr_file\<close> leaves is what \<open>load_hdr_file\<close> applies.\<close>

lemma hdr_file_roundtrip:
  assumes "willing w" "canonical h n c" "wf_hdr h'" "ver h' = ver h"
  shows "\<exists>w'. dump_hdr_file w h = Inr w' \<and> willing w' \<and> load_hdr_file w' h' = Inr (loaded h n c h')"
proof -
  let ?t = "concat (map (\<lambda>(k, v). k @ equals # v @ [10]) (text_props h n c))"
  obtain f where f: "open_trunc w HEADER_FILE = Some f"
    using assms(1) by (simp add: open_trunc_def willing_def)
  then have pf: "progressing f" "fd_data f = []"
    using open_trunc_progressing assms(1) by (auto simp: willing_def)
  have out: "fd_data (snd (write_all ?t f)) = ?t"
    using progressing_fd.put_complete [OF pf(1)] progressing_fd.put_succeeds [OF pf(1)] pf(2) by simp
  have prog: "progressing (snd (write_all ?t f))"
    using progressing_fd.put_inv [OF pf(1)] by simp
  let ?w = "close_file w HEADER_FILE (snd (write_all ?t f))"
  have "willing ?w" using assms(1) prog by (simp add: willing_def progressing_def)
  moreover have "load_hdr_file ?w h' = Inr (loaded h n c h')"
    using assms(1) load_text_props [OF assms(2-4)] text_props_lines [OF assms(2)]
    by (simp add: load_hdr_file_def parse_prop_file_def read_file_def willing_def out)
  ultimately show ?thesis
    using f hdr_text_props [OF assms(2)] by (simp add: dump_hdr_file_def)
qed

end
