(* ===== verification/ClaimsHeader.thy ===== *)
theory ClaimsHeader
  imports HdrFileCorrect
begin

text \<open>
  What header objects promise to \<open>unpack\<close>, \<open>repack\<close> and the user who edits the \<open>header\<close> file:
  fields that do not disturb each other, and a text form that reads back.
\<close>

text \<open>
  C31: after any series of field assignments to a header, a field the version has holds the last
  value it was given, every field that was not assigned its old value, and the header keeps its
  version and its size.
\<close>

theorem header_assignments:
  assumes "wf_hdr h" "has_field h fl" "fl \<notin> fst ` set qs"
  shows "hdr_get fl (patch hdr_set (ps @ (fl, v) # qs) h) = v \<and>
    (\<forall>gl. gl \<notin> insert fl (fst ` set (ps @ qs)) \<longrightarrow>
       hdr_get gl (patch hdr_set (ps @ (fl, v) # qs) h) = hdr_get gl h) \<and>
    wf_hdr (patch hdr_set (ps @ (fl, v) # qs) h)"
proof (intro conjI allI impI)
  show "hdr_get fl (patch hdr_set (ps @ (fl, v) # qs) h) = v"
    by (rule hdr.get_patch_last [OF assms])
  show "wf_hdr (patch hdr_set (ps @ (fl, v) # qs) h)"
    by (rule hdr.inv_patch [OF assms(1)])
  fix gl assume "gl \<notin> insert fl (fst ` set (ps @ qs))"
  then show "hdr_get gl (patch hdr_set (ps @ (fl, v) # qs) h) = hdr_get gl h"
    by (intro hdr.get_patch_untouched [OF assms(1)]) auto
qed

definition blank_hdr :: "hdr_ver \<Rightarrow> dyn_img_hdr" where
  "blank_hdr v = \<lparr>ver = v, raw = replicate (hdr_size_of v) 0\<rparr>"

lemma wf_blank_hdr [simp]: "wf_hdr (blank_hdr v)" "ver (blank_hdr v) = v"
  by (simp_all add: blank_hdr_def wf_hdr_def hdr_size_def)

theorem header_assignments_witness:
  "hdr_get Dtb_size (patch hdr_set
     ([(Dtb_size, 1), (Kernel_size, 2)] @ (Dtb_size, 7) # [(Extra_size, 3)]) (blank_hdr V2)) = 7"
  by (rule header_assignments [THEN conjunct1])
    (simp_all add: has_field_def off_defs)

text \<open>
  C13: for a header with canonical text (name and command line without line breaks, padded with
  zeros), \<open>unpack -h\<close> followed by the \<open>load_hdr_file\<close> of \<open>repack\<close> on any header of the same
  version carries name, command line and a non-zero version word over exactly and changes no
  other field.
\<close>

theorem header_file_carries_over:
  assumes "willing w" "canonical h n c" "wf_hdr h'" "ver h' = ver h"
  shows "\<exists>w' g. dump_hdr_file w h = Inr w' \<and> load_hdr_file w' h' = Inr g \<and> canonical g n c \<and>
    (hdr_get Os_version h \<noteq> 0 \<longrightarrow> hdr_get Os_version g = hdr_get Os_version h) \<and>
    (\<forall>fl. fl \<noteq> Os_version \<longrightarrow> hdr_get fl g = hdr_get fl h') \<and> text_of Id g = text_of Id h'"
  using hdr_file_roundtrip [OF assms] loaded_result [OF assms(2-4)] by blast

definition sample_v2 :: dyn_img_hdr where
  "sample_v2 = \<lparr>ver = V2, raw = replicate 44 0 @ le32_bytes 0x12345678 @ str ''abc'' @ replicate 13 0 @
     str ''quiet=1'' @ replicate (505 + 32 + 1024 + 28) 0\<rparr>"

definition open_world :: world where
  "open_world = \<lparr>files = (\<lambda>_. None), dirs = (\<lambda>_. False), no_stat = (\<lambda>_. False),
     no_open = (\<lambda>_. False), no_creat = (\<lambda>_. False), no_mmap = (\<lambda>_. False), no_mkdir = (\<lambda>_. False), answers = [3, 1]\<rparr>"

lemma canonical_sample_v2: "canonical sample_v2 (str ''abc'') (str ''quiet=1'')"
proof -
  have wf: "wf_hdr sample_v2"
    by (simp add: wf_hdr_def hdr_size_def sample_v2_def)
  have skip: "view 48 n (replicate 44 0 @ le32_bytes v @ r) = take n r" for n v r
    by (simp add: view_def)
  have name: "text_of Name sample_v2 = padded 16 (str ''abc'')"
    by (simp add: text_of_def sample_v2_def str_defs skip padded_def)
  have cmd: "text_of Cmdline sample_v2 = padded 512 (str ''quiet=1'')"
    "text_of Extra_cmdline sample_v2 = padded 1024 []"
    by (simp_all add: text_of_def sample_v2_def str_defs view_def padded_def)
  have "one_line (str ''abc'')" "one_line (str ''quiet=1'')"
    by (simp_all add: one_line_def str_def byte_of_char_def)
  then show ?thesis using wf name cmd by (simp add: canonical_def)
qed

theorem header_file_carries_over_witness:
  "\<exists>w' g. dump_hdr_file open_world sample_v2 = Inr w' \<and> load_hdr_file w' (blank_hdr V2) = Inr g \<and>
     canonical g (str ''abc'') (str ''quiet=1'') \<and> hdr_get Os_version g = 0x12345678"
proof -
  have "willing open_world" by (simp add: willing_def open_world_def)
  moreover have "ver (blank_hdr V2) = ver sample_v2" by (simp add: sample_v2_def)
  moreover have "hdr_get Os_version sample_v2 = 0x12345678"
    by (simp add: hdr_get_def sample_v2_def off_defs view_def)
  ultimately show ?thesis
    using header_file_carries_over [of open_world sample_v2 "str ''abc''" "str ''quiet=1''" "blank_hdr V2"]
      canonical_sample_v2 by auto
qed

text \<open>Reading properties fails in one way only, and a line that fails makes the whole file fail.\<close>

lemma load_prop_fails: "load_prop kv h = Inl e \<Longrightarrow> e = Uninitialised"
proof -
  assume a: "load_prop kv h = Inl e"
  have c: "\<exists>a b c d. str_off (ver h) Cmdline = Some (a, b) \<and> str_off (ver h) Extra_cmdline = Some (c, d)"
    by (cases "ver h") (simp_all add: str_defs)
  have sc: "scanned vs i = Inl e \<Longrightarrow> e = Uninitialised" for vs i
    by (auto simp: scanned_def split: if_splits option.splits)
  show ?thesis
    using a c sc
    by (auto simp: load_prop_def load_os_version_def load_patch_level_def Let_def bindR_def
        split: if_splits sum.splits prod.splits)
qed

lemma load_props_fail:
  "(\<And>h. load_prop kv h = Inl Uninitialised) \<Longrightarrow> kv \<in> set kvs \<Longrightarrow> load_props kvs h = Inl Uninitialised"
proof (induction kvs arbitrary: h)
  case (Cons a kvs)
  show ?case
  proof (cases "load_prop a h")
    case (Inl e)
    then show ?thesis using load_prop_fails [OF Inl] by simp
  next
    case (Inr h')
    then have "a \<noteq> kv" using Cons.prems(1) by auto
    then show ?thesis using Inr Cons by simp
  qed
qed simp

text \<open>
  C32: an \<open>os_version\<close> line with fewer than three numbers, anywhere in the file, makes \<open>load_hdr_file\<close>
  compute the new version word from variables that \<open>sscanf\<close> never set, and so does an
  \<open>os_patch_level\<close> line with fewer than two, whatever stands in the lines before it.
\<close>

theorem short_version_is_uninitialised:
  assumes "(k, v) \<in> set (parse_prop_file w HEADER_FILE)"
    "k = str ''os_version'' \<and> length (sscanf_d ''..'' (chars v)) < 3 \<or>
     k = str ''os_patch_level'' \<and> length (sscanf_d ''-'' (chars v)) < 2"
  shows "load_hdr_file w h = Inl Uninitialised"
proof -
  have "load_os_version v g = Inl Uninitialised" if "length (sscanf_d ''..'' (chars v)) < 3" for g
    using that by (auto simp: load_os_version_def scanned_def bindR_def Let_def split: option.splits)
  moreover have "load_patch_level v g = Inl Uninitialised" if "length (sscanf_d ''-'' (chars v)) < 2" for g
    using that by (auto simp: load_patch_level_def scanned_def bindR_def Let_def split: option.splits)
  ultimately have "load_prop (k, v) g = Inl Uninitialised" for g
    using assms(2) by (auto simp: load_prop_def)
  then show ?thesis unfolding load_hdr_file_def using assms(1) by (rule load_props_fail)
qed

definition short_world :: world where
  "short_world = open_world\<lparr>files :=
     [HEADER_FILE \<mapsto> str ''name=abc'' @ [10] @ str ''os_version=14'' @ [10]]\<rparr>"

theorem short_version_is_uninitialised_witness:
  "load_hdr_file short_world sample_v2 = Inl Uninitialised"
proof -
  have "prop_lines (str ''os_version=14'' @ [10]) = [str ''os_version=14'' @ [10]]"
    by (subst prop_lines_line) (simp_all add: LINE_BUF_def prop_lines.simps str_def byte_of_char_def)
  moreover have "prop_lines (str ''name=abc'' @ 10 # r) = (str ''name=abc'' @ [10]) # prop_lines r" for r
    by (rule prop_lines_line) (simp_all add: LINE_BUF_def str_def byte_of_char_def)
  ultimately have "prop_lines (str ''name=abc'' @ [10] @ str ''os_version=14'' @ [10]) =
      [str ''name=abc'' @ [10], str ''os_version=14'' @ [10]]"
    by simp
  moreover have "prop_of_line (str ''os_version=14'' @ [10]) = Some (str ''os_version'', str ''14'')"
    using prop_of_line_property [of "str ''os_version''" "str ''14''"]
    by (simp add: equals_def str_def byte_of_char_def)
  moreover have "prop_of_line (str ''name=abc'' @ [10]) = Some (str ''name'', str ''abc'')"
    using prop_of_line_property [of "str ''name''" "str ''abc''"]
    by (simp add: equals_def str_def byte_of_char_def)
  ultimately have "parse_prop_file short_world HEADER_FILE = [(str ''name'', str ''abc''), (str ''os_version'', str ''14'')]"
    by (simp add: parse_prop_file_def short_world_def open_world_def read_file_def map_filter_simps)
  moreover have "length (sscanf_d ''..'' (chars (str ''14''))) < 3"
    by (simp add: scan_d_def skip_sign_def isspace_def digit_val_def)
  ultimately show ?thesis
    by (intro short_version_is_uninitialised [of "str ''os_version''" "str ''14''"]) simp_all
qed

end
