(* ===== verification/BootParse.thy ===== *)
theory BootParse
  imports HdrFile Dtb
begin

text \<open>
  The parser of boot images (\<open>boot_img\<close> of \<open>bootimg.hpp\<close> and \<open>bootimg.cpp\<close>). The mapping of
  the file is a list of bytes, padded with zeros to the page as \<open>mmap\<close> pads it; a pointer into it
  is its distance from the base, an integer that can leave the mapping on either side. Every
  access is checked and an access outside is \<open>OutOfBounds\<close>; sizes and offsets wrap at their
  widths. Messages are left out, the memory that printing reads is not.
\<close>

section \<open>Memory and pointers\<close>

definition getpagesize :: nat where
  "getpagesize = 4096"

definition mapped :: "bytes \<Rightarrow> bytes" where
  "mapped d = d @ replicate ((getpagesize - length d mod getpagesize) mod getpagesize) 0"

definition mem_at :: "bytes \<Rightarrow> int \<Rightarrow> bytes" where
  "mem_at m p = (if 0 \<le> p then drop (nat p) m else [])"

definition rdp :: "bytes \<Rightarrow> int \<Rightarrow> nat \<Rightarrow> bytes result" where
  "rdp m p n = rd (mem_at m p) 0 n"

definition rd32 :: "bytes \<Rightarrow> int \<Rightarrow> u32 result" where
  "rd32 m p = bindR (rdp m p 4) (\<lambda>b. Inr (le32 b))"

definition buffer_match :: "bytes \<Rightarrow> int \<Rightarrow> bytes \<Rightarrow> bool result" where
  "buffer_match m p lit = bindR (rdp m p (length lit)) (\<lambda>b. Inr (b = lit))"

definition buffer_contain :: "bytes \<Rightarrow> int \<Rightarrow> nat \<Rightarrow> bytes \<Rightarrow> bool result" where
  "buffer_contain m p n lit = bindR (memmem (mem_at m p) lit 0 n) (\<lambda>r. Inr (r \<noteq> None))"

fun any_match :: "bytes \<Rightarrow> int \<Rightarrow> bytes list \<Rightarrow> bool result" where
  "any_match m p [] = Inr False"
| "any_match m p (l # ls) = bindR (buffer_match m p l) (\<lambda>ok. if ok then Inr True else any_match m p ls)"

definition check_fmt_lg_at :: "bytes \<Rightarrow> int \<Rightarrow> u32 \<Rightarrow> FileFormat result" where
  "check_fmt_lg_at m p sz = check_fmt_lg_mem (mem_at m p) (unat sz)"

text \<open>\<open>%s\<close> of a member: the bytes up to the NUL have to be in the mapping.\<close>

definition print_str :: "bytes \<Rightarrow> int \<Rightarrow> unit result" where
  "print_str m p = bindR (c_str_at (mem_at m p) 0) (\<lambda>_. Inr ())"

definition whenR :: "bool \<Rightarrow> ('a \<Rightarrow> 'a result) \<Rightarrow> 'a \<Rightarrow> 'a result" where
  "whenR c k x = (if c then k x else Inr x)"

section \<open>Magics and sizes\<close>

definition AMONET_MICROLOADER_SZ :: nat where "AMONET_MICROLOADER_SZ = 1024"
definition NOOKHD_PRE_HEADER_SZ :: nat where "NOOKHD_PRE_HEADER_SZ = 1048576"
definition ACCLAIM_PRE_HEADER_SZ :: nat where "ACCLAIM_PRE_HEADER_SZ = 262144"
definition AMONET_MICROLOADER_MAGIC :: bytes where "AMONET_MICROLOADER_MAGIC = str ''microloader''"
definition ACCLAIM_MAGIC :: bytes where "ACCLAIM_MAGIC = str ''BauwksBoot''"
definition NOOKHD_MAGICS :: "bytes list" where
  "NOOKHD_MAGICS = map str [''Red Loader'', ''Green Loader'', ''Green Recovery'',
     ''eMMC boot.img+secondloader'', ''eMMC recovery.img+secondloader'']"
definition SEANDROID_MAGIC :: bytes where "SEANDROID_MAGIC = str ''SEANDROIDENFORCE''"
definition LG_BUMP_MAGIC :: bytes where
  "LG_BUMP_MAGIC = [0x41, 0xa9, 0xe4, 0x67, 0x74, 0x4d, 0x1d, 0x1b, 0xa4, 0x29, 0xf2, 0xec,
     0xea, 0x65, 0x52, 0x79]"
definition AVB_FOOTER_MAGIC :: bytes where "AVB_FOOTER_MAGIC = str ''AVBf''"
definition AVB_MAGIC :: bytes where "AVB_MAGIC = str ''AVB0''"

text \<open>\<open>sizeof\<close> of the packed structs and the offsets of the members used.\<close>

definition mtk_hdr_size :: nat where "mtk_hdr_size = 512"
definition mtk_size_off :: nat where "mtk_size_off = 4"
definition mtk_name_off :: nat where "mtk_name_off = 8"
definition dhtb_hdr_size :: nat where "dhtb_hdr_size = 512"
definition dhtb_checksum_off :: nat where "dhtb_checksum_off = 8"
definition dhtb_size_off :: nat where "dhtb_size_off = 48"
definition blob_hdr_size :: nat where "blob_hdr_size = 104"
definition blob_size_off :: nat where "blob_size_off = 96"
definition zimage_start_off :: nat where "zimage_start_off = 40"
definition zimage_end_off :: nat where "zimage_end_off = 44"
definition avb_footer_size :: nat where "avb_footer_size = 64"
definition avb_original_size_off :: nat where "avb_original_size_off = 12"
definition avb_vbmeta_offset_off :: nat where "avb_vbmeta_offset_off = 20"
definition avb_vbmeta_size_off :: nat where "avb_vbmeta_size_off = 28"
definition vbmeta_hdr_size :: nat where "vbmeta_hdr_size = 256"
definition vbmeta_flags_off :: nat where "vbmeta_flags_off = 120"
definition table_entry_size :: nat where "table_entry_size = 108"

section \<open>The image\<close>

datatype flag =
    MTK_KERNEL | MTK_RAMDISK | CHROMEOS_FLAG | DHTB_FLAG | SEANDROID_FLAG | LG_BUMP_FLAG
  | SHA256_FLAG | BLOB_FLAG | NOOKHD_FLAG | ACCLAIM_FLAG | AMONET_FLAG | AVB1_SIGNED_FLAG
  | AVB_FLAG | ZIMAGE_KERNEL

type_synonym ptr = int

text \<open>\<open>hdr\<close> and the other optional members are null pointers when \<open>None\<close>.\<close>

record boot_img =
  map_mem :: bytes
  map_size :: nat
  hdr :: "dyn_img_hdr option"
  flags :: "flag \<Rightarrow> bool"
  k_fmt :: FileFormat
  r_fmt :: FileFormat
  e_fmt :: FileFormat
  payload :: ptr
  payload_sz :: nat
  tail :: "ptr \<times> nat"
  k_hdr :: "ptr option"
  r_hdr :: "ptr option"
  z_hdr :: "ptr option"
  z_hdr_sz :: u32
  z_tail :: "ptr \<times> nat"
  avb_footer :: "ptr option"
  vbmeta :: "ptr option"
  kernel :: ptr
  ramdisk :: ptr
  second :: ptr
  extra :: ptr
  recovery_dtbo :: ptr
  dtb :: ptr
  signature :: ptr
  vendor_ramdisk_table :: ptr
  bootconfig :: ptr
  kernel_dtb :: "ptr \<times> nat"

definition set_flag :: "flag \<Rightarrow> boot_img \<Rightarrow> boot_img" where
  "set_flag fl b = b\<lparr>flags := (flags b)(fl := True)\<rparr>"

definition new_boot_img :: "bytes \<Rightarrow> boot_img" where
  "new_boot_img d = \<lparr>map_mem = mapped d, map_size = length d, hdr = None, flags = (\<lambda>_. False),
     k_fmt = UNKNOWN, r_fmt = UNKNOWN, e_fmt = UNKNOWN, payload = 0, payload_sz = 0, tail = (0, 0),
     k_hdr = None, r_hdr = None, z_hdr = None, z_hdr_sz = 0, z_tail = (0, 0),
     avb_footer = None, vbmeta = None, kernel = 0, ramdisk = 0, second = 0, extra = 0,
     recovery_dtbo = 0, dtb = 0, signature = 0, vendor_ramdisk_table = 0, bootconfig = 0,
     kernel_dtb = (0, 0)\<rparr>"

section \<open>The header\<close>

definition make_aosp_hdr :: "bytes \<Rightarrow> ptr \<Rightarrow> int \<Rightarrow> dyn_img_hdr option result" where
  "make_aosp_hdr m p sz =
     bindR (rdp m p 8) (\<lambda>g.
       if g \<noteq> BOOT_MAGIC then Inr None
       else bindR (rd32 m (p + 40)) (\<lambda>k.
         bindR
           (new_hdr (if k = 1 then V1 else if k = 2 then V2 else if k = 3 then V3
              else if k = 4 then V4 else V0) (mem_at m p) sz)
           (\<lambda>h. Inr (Some h))))"

definition amonet :: "bytes \<Rightarrow> ptr \<Rightarrow> bool result" where
  "amonet m addr =
     bindR (buffer_contain m addr AMONET_MICROLOADER_SZ AMONET_MICROLOADER_MAGIC) (\<lambda>c.
       if c then buffer_match m (addr + int AMONET_MICROLOADER_SZ) BOOT_MAGIC else Inr False)"

definition parse_hdr :: "ptr \<Rightarrow> FileFormat \<Rightarrow> boot_img \<Rightarrow> (boot_img \<times> ptr) result" where
  "parse_hdr addr ty b =
     (let m = map_mem b
      in if ty = AOSP_VENDOR then
           bindR (rd32 m (addr + 8)) (\<lambda>v.
             bindR (new_hdr (if v = 4 then VND_V4 else VND_V3) (mem_at m addr) (- 1)) (\<lambda>h.
               Inr (b\<lparr>hdr := Some h\<rparr>, addr)))
         else bindR (rd32 m (addr + 36)) (\<lambda>page_size.
           if 0x02000000 \<le> page_size then
             bindR (new_hdr PXA (mem_at m addr) (- 1)) (\<lambda>h. Inr (b\<lparr>hdr := Some h\<rparr>, addr))
           else bindR (amonet m addr) (\<lambda>am.
             if am then
               let p = addr + int AMONET_MICROLOADER_SZ
               in bindR (rd32 m (p + 36)) (\<lambda>ps.
                    let real_hdr_sz = ps - of_nat AMONET_MICROLOADER_SZ
                    in bindR (make_aosp_hdr m p (int (unat real_hdr_sz))) (\<lambda>h.
                         Inr (set_flag AMONET_FLAG (b\<lparr>hdr := h\<rparr>), addr)))
             else
               bindR (any_match m (addr + 64) NOOKHD_MAGICS) (\<lambda>nook.
                 bindR (if nook then Inr False else buffer_match m (addr + 48) ACCLAIM_MAGIC) (\<lambda>acc.
                   let b1 = (if nook then set_flag NOOKHD_FLAG b
                             else if acc then set_flag ACCLAIM_FLAG b else b);
                       addr1 = (if nook then addr + int NOOKHD_PRE_HEADER_SZ
                                else if acc then addr + int ACCLAIM_PRE_HEADER_SZ else addr)
                   in bindR (make_aosp_hdr m addr1 (- 1)) (\<lambda>h. Inr (b1\<lparr>hdr := h\<rparr>, addr1)))))))"

definition hdr_space :: "dyn_img_hdr \<Rightarrow> u64 result" where
  "hdr_space h =
     (if is_vendor h then align_to_size (of_nat (hdr_size h)) (sint (hdr_get Page_size h))
      else Inr (ucast (hdr_get Page_size h)))"

text \<open>
  \<open>print\<close>: the fields the version has, as the lines it sends to \<open>stderr\<close>. The name is read
  without a bound, up to its NUL.
\<close>

definition PADDING :: nat where "PADDING = 15"

definition print_line :: "string \<Rightarrow> bytes \<Rightarrow> bytes" where
  "print_line label body =
     str (label @ replicate (PADDING - length label) CHR '' '' @ '' ['') @ body @ str ('']'' @ newline)"

definition print_u :: "string \<Rightarrow> field \<Rightarrow> dyn_img_hdr \<Rightarrow> bytes" where
  "print_u label fl h = print_line label (str (printf_d (unat (hdr_get fl h))))"

definition print_sizes :: "dyn_img_hdr \<Rightarrow> bytes" where
  "print_sizes h =
     (let v = hdr_get Header_version h
      in print_u ''HEADER_VER'' Header_version h @
         (if \<not> is_vendor h then print_u ''KERNEL_SZ'' Kernel_size h else []) @
         print_u ''RAMDISK_SZ'' Ramdisk_size h @
         (if v < 3 then print_u ''SECOND_SZ'' Second_size h else []) @
         (if v = 0 then print_u ''EXTRA_SZ'' Extra_size h else []) @
         (if v = 1 \<or> v = 2 then print_u ''RECOV_DTBO_SZ'' Recovery_dtbo_size h else []) @
         (if v = 2 \<or> is_vendor h then print_u ''DTB_SZ'' Dtb_size h else []) @
         (if v = 4 \<and> is_vendor h then print_u ''BOOTCONFIG_SZ'' Bootconfig_size h else []))"

definition print_os :: "u32 \<Rightarrow> bytes" where
  "print_os v =
     (if v = 0 then []
      else let (a, b, c) = os_fields v; (y, m) = patch_fields v
           in print_line ''OS_VERSION'' (str (printf_d a @ ''.'' @ printf_d b @ ''.'' @ printf_d c)) @
              print_line ''OS_PATCH_LEVEL'' (str (printf_d y @ ''-'' @ printf_02d m)))"

definition print_checksum :: "dyn_img_hdr \<Rightarrow> bytes" where
  "print_checksum h =
     (case str_off (ver h) Id of
        None \<Rightarrow> []
      | Some (off, _) \<Rightarrow>
          print_line ''CHECKSUM''
            (str (concat (map (\<lambda>b. [hex_char (unat b div 16), hex_char (unat b mod 16)])
               (view off 32 (raw h))))))"

definition print_hdr :: "dyn_img_hdr \<Rightarrow> bytes result" where
  "print_hdr h =
     bindR
       (case str_off (ver h) Name of
          None \<Rightarrow> Inr []
        | Some (off, _) \<Rightarrow> bindR (c_str_at (raw h) off) (\<lambda>n. Inr (print_line ''NAME'' n)))
       (\<lambda>name_line.
          case (str_off (ver h) Cmdline, str_off (ver h) Extra_cmdline) of
            (Some (off, _), Some (eoff, _)) \<Rightarrow>
              Inr (print_sizes h @ print_os (hdr_get Os_version h) @ print_u ''PAGESIZE'' Page_size h @
                name_line @
                print_line ''CMDLINE'' (c_str (view off BOOT_ARGS_SIZE (raw h)) @
                  c_str (view eoff BOOT_EXTRA_ARGS_SIZE (raw h))) @
                print_checksum h)
          | _ \<Rightarrow> Inl NullPointer)"

text \<open>The hash is SHA-256 when a byte behind the 20 of SHA-1 and a 4-byte gap is set.\<close>

definition long_id :: "dyn_img_hdr \<Rightarrow> bool" where
  "long_id h =
     (case str_off (ver h) Id of
        None \<Rightarrow> False
      | Some (off, _) \<Rightarrow> list_ex (\<lambda>b. b \<noteq> 0) (view (off + 24) 8 (raw h)))"

section \<open>Blocks\<close>

text \<open>
  \<open>get_block\<close>: the block starts at the offset, which then advances by its size and is rounded
  up to the page size; the image is corrupted when the offset passes the end of the mapping.
\<close>

definition next_off :: "dyn_img_hdr \<Rightarrow> field \<Rightarrow> u64 \<Rightarrow> u64 result" where
  "next_off h fl off = align_to_size (off + ucast (hdr_get fl h)) (sint (hdr_get Page_size h))"

fun get_blocks ::
    "(field \<times> (ptr \<Rightarrow> boot_img \<Rightarrow> boot_img)) list \<Rightarrow> int \<Rightarrow> ptr \<Rightarrow> dyn_img_hdr \<Rightarrow> u64 \<Rightarrow> boot_img
      \<Rightarrow> (u64 option \<times> boot_img) result" where
  "get_blocks [] map_end addr h off b = Inr (Some off, b)"
| "get_blocks ((fl, place) # rest) map_end addr h off b =
     bindR (next_off h fl off) (\<lambda>off1.
       let b1 = place (addr + sint off) b
       in if map_end < addr + sint off1 then Inr (None, b1)
          else get_blocks rest map_end addr h off1 b1)"

definition block_list :: "(field \<times> (ptr \<Rightarrow> boot_img \<Rightarrow> boot_img)) list" where
  "block_list =
     [(Kernel_size, \<lambda>p. kernel_update (\<lambda>_. p)),
      (Ramdisk_size, \<lambda>p. ramdisk_update (\<lambda>_. p)),
      (Second_size, \<lambda>p. second_update (\<lambda>_. p)),
      (Extra_size, \<lambda>p. extra_update (\<lambda>_. p)),
      (Recovery_dtbo_size, \<lambda>p. recovery_dtbo_update (\<lambda>_. p)),
      (Dtb_size, \<lambda>p. dtb_update (\<lambda>_. p)),
      (Signature_size, \<lambda>p. signature_update (\<lambda>_. p)),
      (Vendor_ramdisk_table_size, \<lambda>p. vendor_ramdisk_table_update (\<lambda>_. p)),
      (Bootconfig_size, \<lambda>p. bootconfig_update (\<lambda>_. p))]"

section \<open>Kernel\<close>

text \<open>Access to the header of an image that has one.\<close>

definition the_hdr :: "boot_img \<Rightarrow> dyn_img_hdr result" where
  "the_hdr b = (case hdr b of None \<Rightarrow> Inl NullPointer | Some h \<Rightarrow> Inr h)"

definition with_hdr :: "boot_img \<Rightarrow> (dyn_img_hdr \<Rightarrow> 'a result) \<Rightarrow> 'a result" where
  "with_hdr b k = bindR (the_hdr b) k"

definition set_hdr_field :: "field \<Rightarrow> u32 \<Rightarrow> boot_img \<Rightarrow> boot_img" where
  "set_hdr_field fl v b = b\<lparr>hdr := map_option (hdr_set fl v) (hdr b)\<rparr>"

function find_piggy :: "bytes \<Rightarrow> ptr \<Rightarrow> u32 \<Rightarrow> nat \<Rightarrow> nat option result" where
  "find_piggy m kern ksize i =
     (if i < unat ksize then
        bindR (check_fmt_lg_at m (kern + int i) (ksize - of_nat i)) (\<lambda>f.
          if f \<noteq> UNKNOWN then Inr (Some i) else find_piggy m kern ksize (Suc i))
      else Inr None)"
  by pat_completeness auto
termination
  by (relation "measure (\<lambda>(m, kern, ksize, i). unat ksize - i)") auto

declare find_piggy.simps [simp del]

text \<open>
  The end of the compressed data: the last of the 16 words before the end of the zImage that
  points into its final 255 bytes, in 32-bit arithmetic.
\<close>

definition piggy_end_of :: "u32 \<Rightarrow> u32 list \<Rightarrow> u32" where
  "piggy_end_of piggy_size offsets =
     (case find (\<lambda>o'. piggy_size - 0xFF < o' \<and> o' < piggy_size) (rev offsets) of
        None \<Rightarrow> piggy_size
      | Some o' \<Rightarrow> o')"

definition words32 :: "nat \<Rightarrow> bytes \<Rightarrow> u32 list" where
  "words32 n bs = map (\<lambda>i. le32 (view (4 * i) 4 bs)) [0..<n]"

definition parse_zimage :: "boot_img \<Rightarrow> boot_img result" where
  "parse_zimage b0 =
     (let m = map_mem b0; kern = kernel b0; b = b0\<lparr>z_hdr := Some kern\<rparr>
      in with_hdr b (\<lambda>h.
        let ksize = hdr_get Kernel_size h
        in bindR (find_piggy m kern ksize 0x28) (\<lambda>piggy.
          case piggy of
            None \<Rightarrow> Inr b
          | Some i \<Rightarrow>
              let b1 = b\<lparr>z_hdr_sz := of_nat i\<rparr>
              in bindR (rd32 m (kern + int zimage_end_off)) (\<lambda>e.
                bindR (rd32 m (kern + int zimage_start_off)) (\<lambda>s.
                  let piggy_size = e - s
                  in bindR (rdp m (kern + int (unat piggy_size) - 64) 64) (\<lambda>ws.
                    let piggy_end = piggy_end_of piggy_size (words32 16 ws)
                    in if piggy_end = piggy_size then Inr b1
                       else
                         let size' = piggy_end - z_hdr_sz b1;
                             b2 = set_hdr_field Kernel_size size'
                               ((set_flag ZIMAGE_KERNEL b1)
                                  \<lparr>z_tail := (kern + int (unat piggy_end), unat (ksize - piggy_end)),
                                   kernel := kern + int i\<rparr>)
                         in bindR (check_fmt_lg_at m (kernel b2) size') (\<lambda>f.
                              Inr (b2\<lparr>k_fmt := f\<rparr>))))))))"

text \<open>A device tree behind the kernel is split off; one at its very start is not.\<close>

definition split_kernel_dtb :: "boot_img \<Rightarrow> boot_img result" where
  "split_kernel_dtb b =
     with_hdr b (\<lambda>h.
       let size' = hdr_get Kernel_size h
       in bindR (find_dtb_offset (mem_at (map_mem b) (kernel b)) (unat size')) (\<lambda>dtb_off.
            Inr (if 0 < dtb_off
                 then set_hdr_field Kernel_size (word_of_int dtb_off)
                   (b\<lparr>kernel_dtb := (kernel b + dtb_off, unat (size' - word_of_int dtb_off))\<rparr>)
                 else b)))"

definition kernel_fmt :: "boot_img \<Rightarrow> boot_img result" where
  "kernel_fmt b =
     with_hdr b (\<lambda>h.
       bindR (check_fmt_lg_at (map_mem b) (kernel b) (hdr_get Kernel_size h)) (\<lambda>f.
         Inr (b\<lparr>k_fmt := f\<rparr>)))"

text \<open>The MTK header in front of the kernel is skipped, its 512 bytes taken off the size.\<close>

definition skip_mtk_kernel :: "boot_img \<Rightarrow> boot_img result" where
  "skip_mtk_kernel b =
     bindR (rd32 (map_mem b) (kernel b + int mtk_size_off)) (\<lambda>_.
       bindR (print_str (map_mem b) (kernel b + int mtk_name_off)) (\<lambda>_.
         with_hdr b (\<lambda>h.
           kernel_fmt (set_hdr_field Kernel_size (hdr_get Kernel_size h - of_nat mtk_hdr_size)
             ((set_flag MTK_KERNEL b)
                \<lparr>k_hdr := Some (kernel b), kernel := kernel b + int mtk_hdr_size\<rparr>)))))"

definition parse_kernel :: "boot_img \<Rightarrow> boot_img result" where
  "parse_kernel b0 =
     with_hdr b0 (\<lambda>h.
       if hdr_get Kernel_size h = 0 then Inr b0
       else bindR (split_kernel_dtb b0) (\<lambda>b1.
         bindR (kernel_fmt b1) (\<lambda>b2.
           bindR (whenR (k_fmt b2 = MTK) skip_mtk_kernel b2) (\<lambda>b3.
             whenR (k_fmt b3 = ZIMAGE) parse_zimage b3))))"

section \<open>Ramdisk and the rest\<close>

record table_entry =
  e_size :: u32
  e_offset :: u32
  e_type :: u32
  e_name :: bytes
  e_board :: bytes

definition entry_of_bytes :: "bytes \<Rightarrow> table_entry" where
  "entry_of_bytes bs =
     \<lparr>e_size = le32 (view 0 4 bs), e_offset = le32 (view 4 4 bs), e_type = le32 (view 8 4 bs),
      e_name = view 12 32 bs, e_board = view 44 64 bs\<rparr>"

definition bytes_of_entry :: "table_entry \<Rightarrow> bytes" where
  "bytes_of_entry e =
     le32_bytes (e_size e) @ le32_bytes (e_offset e) @ le32_bytes (e_type e) @ e_name e @ e_board e"

text \<open>
  \<open>vendor_ramdisk_tbl\<close>: no table, an entry size other than the struct's (the process ends), or
  the pointers of as many entries as the header says, wherever they lie.
\<close>

definition vendor_ramdisk_tbl :: "boot_img \<Rightarrow> ptr list result" where
  "vendor_ramdisk_tbl b =
     with_hdr b (\<lambda>h.
       if hdr_get Vendor_ramdisk_table_size h = 0 then Inr []
       else if hdr_get Vendor_ramdisk_table_entry_size h \<noteq> of_nat table_entry_size then Inl (Exit 1)
       else Inr (map (\<lambda>i. vendor_ramdisk_table b + int (table_entry_size * i))
              [0..<unat (hdr_get Vendor_ramdisk_table_entry_num h)]))"

definition rd_entry :: "bytes \<Rightarrow> ptr \<Rightarrow> table_entry result" where
  "rd_entry m p = bindR (rdp m p table_entry_size) (\<lambda>bs. Inr (entry_of_bytes bs))"

definition vendor_ramdisk_type :: "u32 \<Rightarrow> string" where
  "vendor_ramdisk_type ty =
     (if ty = 1 then ''platform'' else if ty = 2 then ''recovery'' else if ty = 3 then ''dlkm''
      else ''none'')"

text \<open>The listing of the vendor ramdisks looks at each one's format and prints its name.\<close>

fun list_ramdisks :: "boot_img \<Rightarrow> ptr list \<Rightarrow> unit result" where
  "list_ramdisks b [] = Inr ()"
| "list_ramdisks b (p # ps) =
     bindR (rd_entry (map_mem b) p) (\<lambda>e.
       bindR (check_fmt_lg_at (map_mem b) (ramdisk b + int (unat (e_offset e))) (e_size e)) (\<lambda>_.
         bindR (print_str (map_mem b) (p + 12)) (\<lambda>_. list_ramdisks b ps)))"

definition ramdisk_fmt :: "boot_img \<Rightarrow> boot_img result" where
  "ramdisk_fmt b =
     with_hdr b (\<lambda>h.
       bindR (check_fmt_lg_at (map_mem b) (ramdisk b) (hdr_get Ramdisk_size h)) (\<lambda>f.
         Inr (b\<lparr>r_fmt := f\<rparr>)))"

definition skip_mtk_ramdisk :: "boot_img \<Rightarrow> boot_img result" where
  "skip_mtk_ramdisk b =
     bindR (rd32 (map_mem b) (ramdisk b + int mtk_size_off)) (\<lambda>_.
       bindR (print_str (map_mem b) (ramdisk b + int mtk_name_off)) (\<lambda>_.
         with_hdr b (\<lambda>h.
           ramdisk_fmt (set_hdr_field Ramdisk_size (hdr_get Ramdisk_size h - of_nat mtk_hdr_size)
             ((set_flag MTK_RAMDISK b)
                \<lparr>r_hdr := Some (ramdisk b), ramdisk := ramdisk b + int mtk_hdr_size\<rparr>)))))"

definition parse_ramdisk :: "boot_img \<Rightarrow> boot_img result" where
  "parse_ramdisk b =
     with_hdr b (\<lambda>h.
       if hdr_get Ramdisk_size h = 0 then Inr b
       else if hdr_get Vendor_ramdisk_table_size h \<noteq> 0 then
         bindR (vendor_ramdisk_tbl b) (\<lambda>ps. bindR (list_ramdisks b ps) (\<lambda>_. Inr b))
       else bindR (ramdisk_fmt b) (\<lambda>b1. whenR (r_fmt b1 = MTK) skip_mtk_ramdisk b1))"

definition parse_extra :: "boot_img \<Rightarrow> boot_img result" where
  "parse_extra b =
     with_hdr b (\<lambda>h.
       if hdr_get Extra_size h = 0 then Inr b
       else bindR (check_fmt_lg_at (map_mem b) (extra b) (hdr_get Extra_size h)) (\<lambda>f.
         Inr (b\<lparr>e_fmt := f\<rparr>)))"

section \<open>Tail\<close>

text \<open>AVB1 signatures are not looked for in this port: \<open>verify\<close> is a stub.\<close>

definition verify :: "boot_img \<Rightarrow> bool" where
  "verify b = False"

definition tail_flags :: "boot_img \<Rightarrow> boot_img result" where
  "tail_flags b =
     (let m = map_mem b; (t, n) = tail b
      in bindR (if 16 \<le> n then buffer_match m t SEANDROID_MAGIC else Inr False) (\<lambda>sea.
           if sea then Inr (set_flag SEANDROID_FLAG b)
           else bindR (if 16 \<le> n then buffer_match m t LG_BUMP_MAGIC else Inr False) (\<lambda>bump.
             if bump then Inr (set_flag LG_BUMP_FLAG b)
             else Inr (if verify b then set_flag AVB1_SIGNED_FLAG b else b))))"

text \<open>
  The AVB footer is the last 64 bytes of the mapping. The offset it holds, read big-endian,
  is added to the image's start without a bound.
\<close>

definition find_footer :: "boot_img \<Rightarrow> boot_img result" where
  "find_footer b =
     (let m = map_mem b; footer = fst (tail b) + int (snd (tail b)) - int avb_footer_size
      in bindR (buffer_match m footer AVB_FOOTER_MAGIC) (\<lambda>found.
           if \<not> found then Inr b
           else
             let b1 = b\<lparr>avb_footer := Some footer\<rparr>
             in bindR (rdp m (footer + int avb_vbmeta_offset_off) 8) (\<lambda>v.
               let meta = payload b1 + sint (bswap64 (le64 v))
               in bindR (buffer_match m meta AVB_MAGIC) (\<lambda>ok.
                    Inr (if ok then (set_flag AVB_FLAG b1)\<lparr>vbmeta := Some meta\<rparr> else b1)))))"

definition parse_tail :: "boot_img \<Rightarrow> boot_img result" where
  "parse_tail b = (if snd (tail b) = 0 then Inr b else bindR (tail_flags b) find_footer)"

section \<open>The whole image\<close>

definition parse_image :: "ptr \<Rightarrow> FileFormat \<Rightarrow> boot_img \<Rightarrow> (bool \<times> boot_img) result" where
  "parse_image addr0 ty b0 =
     bindR (parse_hdr addr0 ty b0) (\<lambda>(b1, addr).
       case hdr b1 of
         None \<Rightarrow> Inr (False, b1)
       | Some h \<Rightarrow>
           let b2 = (if long_id h then set_flag SHA256_FLAG b1 else b1)
           in bindR (print_hdr h) (\<lambda>_.
             bindR (align_to_size (of_nat (map_size b2)) (int getpagesize)) (\<lambda>map_end.
               bindR (hdr_space h) (\<lambda>off0.
                 bindR (get_blocks block_list (int (unat map_end)) addr h off0 b2) (\<lambda>(r, b3).
                   case r of
                     None \<Rightarrow> Inr (False, b3)
                   | Some off \<Rightarrow>
                       let t = addr + sint off;
                           b4 = b3\<lparr>payload := addr, payload_sz := unat off, tail := (t, nat (int (unat map_end) - t))\<rparr>
                       in bindR (parse_kernel b4) (\<lambda>b5.
                         bindR (parse_ramdisk b5) (\<lambda>b6.
                           bindR (parse_extra b6) (\<lambda>b7.
                             bindR (parse_tail b7) (\<lambda>b8. Inr (True, b8))))))))))"

text \<open>
  The constructor scans for an image: the wrapper headers it passes are recorded, an image that
  does not parse is passed over, and a file without one ends the process with status 1. What a
  failed attempt has set stays set.
\<close>

function boot_scan :: "bytes \<Rightarrow> nat \<Rightarrow> boot_img \<Rightarrow> boot_img result" where
  "boot_scan d addr b =
     (if addr < length d then
        let fmt = check_fmt (drop addr d)
        in if fmt = CHROMEOS then boot_scan d (addr + 65535 + 1) (set_flag CHROMEOS_FLAG b)
           else if fmt = DHTB then
             boot_scan d (addr + (dhtb_hdr_size - 1) + 1)
               (set_flag SEANDROID_FLAG (set_flag DHTB_FLAG b))
           else if fmt = BLOB then
             boot_scan d (addr + (blob_hdr_size - 1) + 1) (set_flag BLOB_FLAG b)
           else if fmt = AOSP \<or> fmt = AOSP_VENDOR then
             bindR (parse_image (int addr) fmt b) (\<lambda>(ok, b1).
               if ok then Inr b1 else boot_scan d (addr + 1) b1)
           else boot_scan d (addr + 1) b
      else Inl (Exit 1))"
  by pat_completeness auto
termination
  by (relation "measure (\<lambda>(d, addr, b). length d - addr)") auto

declare boot_scan.simps [simp del]

definition open_boot :: "world \<Rightarrow> string \<Rightarrow> boot_img result" where
  "open_boot w path =
     (case mmap_data w path of
        None \<Rightarrow> Inl (Exit 1)
      | Some d \<Rightarrow> boot_scan d 0 (new_boot_img d))"

end
