(* ===== verification/BootCorrect.thy ===== *)
theory BootCorrect
  imports BootParse
begin

text \<open>
  What a parsed image guarantees: well-formed headers over the mapping of the file, blocks that
  lie one behind the other inside it when the page size is a positive \<open>int\<close>; and the headers on
  which the parser divides by zero, overflows its header block or reads outside the mapping.
\<close>

section \<open>Blocks\<close>

definition sane_page :: "dyn_img_hdr \<Rightarrow> bool" where
  "sane_page h \<longleftrightarrow> 0 < unat (hdr_get Page_size h) \<and> unat (hdr_get Page_size h) < 2 ^ 31"

lemma sint_small32:
  assumes "unat (w :: u32) < 2 ^ 31"
  shows "sint w = int (unat w)"
proof -
  have u: "uint w = int (unat w)" by simp
  have "int (unat w) < int (2 ^ 31)" using assms by (simp only: of_nat_less_iff)
  then have hi: "uint w < 2 ^ 31" by (simp only: u of_nat_power of_nat_numeral)
  have lo: "- (2 ^ 31) \<le> uint w" by (rule order_trans [of _ 0]) simp_all
  have "sint w = signed_take_bit 31 (uint w)" by (simp add: sint_uint)
  also have "\<dots> = uint w" by (rule signed_take_bit_int_eq_self [OF lo hi])
  finally show ?thesis by (simp only: u)
qed

lemma sint_small64:
  assumes "unat (w :: u64) < 2 ^ 63"
  shows "sint w = int (unat w)"
proof -
  have u: "uint w = int (unat w)" by simp
  have "int (unat w) < int (2 ^ 63)" using assms by (simp only: of_nat_less_iff)
  then have hi: "uint w < 2 ^ 63" by (simp only: u of_nat_power of_nat_numeral)
  have lo: "- (2 ^ 63) \<le> uint w" by (rule order_trans [of _ 0]) simp_all
  have "sint w = signed_take_bit 63 (uint w)" by (simp add: sint_uint)
  also have "\<dots> = uint w" by (rule signed_take_bit_int_eq_self [OF lo hi])
  finally show ?thesis by (simp only: u)
qed

lemma next_off_step:
  assumes "next_off h fl off = Inr r" "sane_page h" "unat off < 2 ^ 62"
  shows "unat off + unat (hdr_get fl h) \<le> unat r" "unat r < 2 ^ 63"
    "unat (hdr_get Page_size h) dvd unat r" "sint r = int (unat r)"
proof -
  let ?s = "unat (hdr_get fl h)" and ?p = "unat (hdr_get Page_size h)"
  have s: "?s < 2 ^ 32" using unsigned_less [of "hdr_get fl h"] by simp
  have "unat (ucast (hdr_get fl h) :: u64) = ?s"
    using s by (simp add: unsigned_ucast_eq take_bit_nat_eq_self)
  then have sum: "unat (off + ucast (hdr_get fl h)) = unat off + ?s"
    using assms(3) s by (subst unat_add_lem [THEN iffD1]) simp_all
  have p: "0 < ?p" "?p < 2 ^ 31" using assms(2) by (simp_all only: sane_page_def)
  have page: "sint (hdr_get Page_size h) = int ?p" "0 < int ?p" "int ?p < int (2 ^ 31)"
    using sint_small32 [OF p(2)] p by (simp_all only: of_nat_less_iff of_nat_0_less_iff)
  have "unat (off + ucast (hdr_get fl h)) + nat (int ?p) < 2 ^ 64"
    using assms(2,3) s by (simp add: sum sane_page_def)
  from align_to_size_unat [OF page(2) page(3) [simplified of_nat_power of_nat_numeral] this] assms(1)
  have r: "unat r = (unat off + ?s + ?p - 1) div ?p * ?p"
    by (auto simp: next_off_def page(1) sum)
  have up: "unat off + ?s \<le> unat r" "unat r < unat off + ?s + ?p"
    using div_mult_up [of ?p "unat off + ?s"] assms(2) by (simp_all add: r sane_page_def)
  show "unat off + ?s \<le> unat r" "?p dvd unat r" using up r by simp_all
  show "unat r < 2 ^ 63" using up assms(2,3) s by (simp add: sane_page_def)
  then show "sint r = int (unat r)" by (rule sint_small64)
qed

text \<open>One step of \<open>get_blocks\<close>, seen from its result.\<close>

lemma get_blocks_Cons:
  assumes "get_blocks ((fl, place) # rest) map_end addr h off b = Inr (Some off', b')"
  obtains r where "next_off h fl off = Inr r" "addr + sint r \<le> map_end"
    "get_blocks rest map_end addr h r (place (addr + sint off) b) = Inr (Some off', b')"
  using assms by (auto simp: Let_def split: if_splits)

fun chained :: "dyn_img_hdr \<Rightarrow> int \<Rightarrow> ptr \<Rightarrow> field list \<Rightarrow> ptr list \<Rightarrow> ptr \<Rightarrow> bool" where
  "chained h map_end addr [] ps fin \<longleftrightarrow> ps = [fin]"
| "chained h map_end addr (fl # fls) ps fin \<longleftrightarrow>
     (\<exists>p q qs. ps = p # q # qs \<and> p + int (unat (hdr_get fl h)) \<le> q \<and> q \<le> map_end \<and>
        int (unat (hdr_get Page_size h)) dvd q - addr \<and> chained h map_end addr fls (q # qs) fin)"

lemma get_blocks_chained:
  assumes "get_blocks bl map_end addr h off b = Inr (Some off', b')" "sane_page h"
    "unat off < 2 ^ 62" "0 \<le> addr" "map_end < 2 ^ 62"
  shows "\<exists>ps. chained h map_end addr (map fst bl) ((addr + int (unat off)) # ps) (addr + int (unat off')) \<and>
    b' = fold (\<lambda>((fl, place), p). place p) (zip bl ((addr + int (unat off)) # ps)) b"
  using assms(1,3)
proof (induction bl arbitrary: off b)
  case Nil
  then show ?case by simp
next
  case (Cons fp bl)
  obtain fl place where fp: "fp = (fl, place)" by (cases fp)
  obtain r where r: "next_off h fl off = Inr r" "addr + sint r \<le> map_end"
    "get_blocks bl map_end addr h r (place (addr + sint off) b) = Inr (Some off', b')"
    using Cons.prems(1) unfolding fp by (rule get_blocks_Cons)
  note step = next_off_step [OF r(1) assms(2) Cons.prems(2)]
  have "int (unat r) \<le> map_end" using r(2) assms(4) step(4) by linarith
  with assms(5) have "int (unat r) < int (2 ^ 62)" by simp
  then have "unat r < 2 ^ 62" by (simp only: of_nat_less_iff)
  from Cons.IH [OF r(3) this] obtain ps where
    ps: "chained h map_end addr (map fst bl) ((addr + int (unat r)) # ps) (addr + int (unat off'))"
      "b' = fold (\<lambda>((fl, place), p). place p) (zip bl ((addr + int (unat r)) # ps)) (place (addr + sint off) b)"
    by blast
  have off: "sint off = int (unat off)" using Cons.prems(2) by (intro sint_small64) simp
  have dvd: "int (unat (hdr_get Page_size h)) dvd int (unat r)"
    using step(3) by (simp only: of_nat_dvd_iff)
  have le: "int (unat off) + int (unat (hdr_get fl h)) \<le> int (unat r)" using step(1) by linarith
  have "chained h map_end addr (map fst (fp # bl))
      ((addr + int (unat off)) # (addr + int (unat r)) # ps) (addr + int (unat off'))"
    using ps(1) dvd le r(2) step(4) by (auto simp: fp simp del: chained.simps(1))
  moreover have "b' = fold (\<lambda>((fl, place), p). place p)
      (zip (fp # bl) ((addr + int (unat off)) # (addr + int (unat r)) # ps)) b"
    using ps(2) by (simp add: fp off)
  ultimately show ?case by blast
qed

text \<open>
  The blocks of an accepted image: in order, without overlap, inside the mapping, each but the
  first at a multiple of the page size from the image's start.
\<close>

definition blocks_ok :: "dyn_img_hdr \<Rightarrow> ptr \<Rightarrow> int \<Rightarrow> (ptr \<times> field) list \<Rightarrow> bool" where
  "blocks_ok h addr map_end pfs \<longleftrightarrow>
     sorted_wrt (\<lambda>(p, fl) (q, gl). p + int (unat (hdr_get fl h)) \<le> q) pfs \<and>
     (\<forall>(p, fl) \<in> set pfs. addr \<le> p \<and> p + int (unat (hdr_get fl h)) \<le> map_end) \<and>
     (\<forall>(p, fl) \<in> set (tl pfs). int (unat (hdr_get Page_size h)) dvd p - addr)"

lemma chained_blocks:
  "chained h map_end addr fls ps fin \<Longrightarrow> addr \<le> hd ps \<Longrightarrow>
     blocks_ok h addr map_end (zip ps fls) \<and> (\<forall>(p, fl) \<in> set (zip ps fls). hd ps \<le> p)"
proof (induction fls arbitrary: ps)
  case Nil
  then show ?case by (simp add: blocks_ok_def)
next
  case (Cons fl fls)
  then obtain p q qs where ps: "ps = p # q # qs" "p + int (unat (hdr_get fl h)) \<le> q" "q \<le> map_end"
    "int (unat (hdr_get Page_size h)) dvd q - addr" "chained h map_end addr fls (q # qs) fin"
    by auto
  have le: "p \<le> q" using ps(2) by linarith
  with Cons.prems(2) have "addr \<le> hd (q # qs)" by (simp add: ps(1))
  from Cons.IH [OF ps(5) this]
  have IH: "blocks_ok h addr map_end (zip (q # qs) fls)" "\<forall>(p, fl) \<in> set (zip (q # qs) fls). q \<le> p"
    by simp_all
  have "\<forall>(p', gl) \<in> set (zip (q # qs) fls). p + int (unat (hdr_get fl h)) \<le> p'"
    using IH(2) ps(2) by auto
  moreover have "\<forall>(p', gl) \<in> set (zip (q # qs) fls). int (unat (hdr_get Page_size h)) dvd p' - addr"
    using IH(1) ps(4) by (cases fls) (auto simp: blocks_ok_def)
  ultimately have "blocks_ok h addr map_end (zip ps (fl # fls))"
    using IH(1) ps(2,3) Cons.prems(2) by (auto simp: blocks_ok_def ps(1))
  moreover have "\<forall>(p', gl) \<in> set (zip ps (fl # fls)). hd ps \<le> p'"
    using IH(2) le by (auto simp: ps(1))
  ultimately show ?case by blast
qed

lemma chained_end:
  "chained h map_end addr fls ps fin \<Longrightarrow>
     (\<forall>(p, fl) \<in> set (zip ps fls). p + int (unat (hdr_get fl h)) \<le> fin) \<and> hd ps \<le> fin \<and>
     (fls \<noteq> [] \<longrightarrow> fin \<le> map_end)"
proof (induction fls arbitrary: ps)
  case (Cons fl fls)
  then obtain p q qs where ps: "ps = p # q # qs" "p + int (unat (hdr_get fl h)) \<le> q" "q \<le> map_end"
    "chained h map_end addr fls (q # qs) fin"
    by auto
  from Cons.IH [OF ps(4)] have IH: "\<forall>(p, fl) \<in> set (zip (q # qs) fls). p + int (unat (hdr_get fl h)) \<le> fin"
    "q \<le> fin" "fls \<noteq> [] \<longrightarrow> fin \<le> map_end" by simp_all
  have "p + int (unat (hdr_get fl h)) \<le> fin" using ps(2) IH(2) by linarith
  moreover have "p \<le> fin" using ps(2) IH(2) by linarith
  moreover have "fin \<le> map_end" using IH(3) ps(3,4) by (cases fls) auto
  ultimately show ?case using IH(1) by (simp only: ps(1)) simp
qed simp

definition img_blocks :: "boot_img \<Rightarrow> (ptr \<times> field) list" where
  "img_blocks b =
     [(kernel b, Kernel_size), (ramdisk b, Ramdisk_size), (second b, Second_size),
      (extra b, Extra_size), (recovery_dtbo b, Recovery_dtbo_size), (dtb b, Dtb_size),
      (signature b, Signature_size), (vendor_ramdisk_table b, Vendor_ramdisk_table_size),
      (bootconfig b, Bootconfig_size)]"

lemma chained_length: "chained h map_end addr fls ps fin \<Longrightarrow> length ps = Suc (length fls)"
proof (induction fls arbitrary: ps)
  case (Cons fl fls)
  then obtain p q qs where "ps = p # q # qs" "chained h map_end addr fls (q # qs) fin" by auto
  with Cons.IH [of "q # qs"] show ?case by simp
qed simp

lemma get_blocks_ok:
  assumes "get_blocks block_list map_end addr h off b = Inr (Some off', b')" "sane_page h"
    "unat off < 2 ^ 62" "0 \<le> addr" "map_end < 2 ^ 62"
  shows "blocks_ok h addr map_end (img_blocks b')"
    "\<forall>(p, fl) \<in> set (img_blocks b'). p + int (unat (hdr_get fl h)) \<le> addr + int (unat off')"
    "addr + int (unat off') \<le> map_end" "kernel b' = addr + int (unat off)"
proof -
  obtain ps where ps: "chained h map_end addr (map fst block_list)
      ((addr + int (unat off)) # ps) (addr + int (unat off'))"
    "b' = fold (\<lambda>((fl, place), p). place p) (zip block_list ((addr + int (unat off)) # ps)) b"
    using get_blocks_chained [OF assms] by blast
  have len: "length ps = 9" using chained_length [OF ps(1)] by (simp add: block_list_def)
  then obtain p1 p2 p3 p4 p5 p6 p7 p8 p9 where l: "ps = [p1, p2, p3, p4, p5, p6, p7, p8, p9]"
    by (auto simp: numeral_eq_Suc length_Suc_conv)
  have "img_blocks b' = zip ((addr + int (unat off)) # ps) (map fst block_list)"
    by (simp add: ps(2) l block_list_def img_blocks_def)
  moreover show "kernel b' = addr + int (unat off)" by (simp add: ps(2) l block_list_def)
  moreover have "block_list \<noteq> []" by (simp add: block_list_def)
  ultimately show "blocks_ok h addr map_end (img_blocks b')"
    "\<forall>(p, fl) \<in> set (img_blocks b'). p + int (unat (hdr_get fl h)) \<le> addr + int (unat off')"
    "addr + int (unat off') \<le> map_end"
    using chained_blocks [OF ps(1)] chained_end [OF ps(1)] by simp_all
qed

section \<open>Well-formed images\<close>

definition img_inv :: "bytes \<Rightarrow> boot_img \<Rightarrow> bool" where
  "img_inv d b \<longleftrightarrow> map_mem b = mapped d \<and> map_size b = length d \<and> (\<forall>h. hdr b = Some h \<longrightarrow> wf_hdr h)"

lemma img_inv_new: "img_inv d (new_boot_img d)"
  by (simp add: img_inv_def new_boot_img_def)

lemma img_inv_set_flag [simp]: "img_inv d (set_flag fl b) = img_inv d b"
  by (simp add: img_inv_def set_flag_def)

lemma hdr_set_flag [simp]: "hdr (set_flag fl b) = hdr b" "map_mem (set_flag fl b) = map_mem b"
  "map_size (set_flag fl b) = map_size b"
  by (simp_all add: set_flag_def)

lemma img_inv_set_hdr_field: "img_inv d b \<Longrightarrow> img_inv d (set_hdr_field fl v b)"
  by (auto simp: img_inv_def set_hdr_field_def)

lemma set_hdr_field_simps [simp]:
  "map_mem (set_hdr_field fl v b) = map_mem b" "map_size (set_hdr_field fl v b) = map_size b"
  "hdr (set_hdr_field fl v b) = map_option (hdr_set fl v) (hdr b)"
  by (simp_all add: set_hdr_field_def)

lemma img_inv_hdr:
  "img_inv d b \<Longrightarrow> (\<And>h. r = Some h \<Longrightarrow> wf_hdr h) \<Longrightarrow> img_inv d (b\<lparr>hdr := r\<rparr>)"
  by (simp add: img_inv_def)

lemma okR_new_hdr: "okR wf_hdr (new_hdr v p sz)"
  by (simp add: okR_def new_hdr_wf)

lemma okR_make_aosp_hdr: "okR (\<lambda>r. \<forall>h. r = Some h \<longrightarrow> wf_hdr h) (make_aosp_hdr m p sz)"
  unfolding make_aosp_hdr_def
  by (intro okR_intros okR_bindR_with [OF okR_new_hdr]) simp_all

lemma parse_hdr_inv: "img_inv d b \<Longrightarrow> okR (\<lambda>(b', a). img_inv d b') (parse_hdr addr ty b)"
  unfolding parse_hdr_def Let_def
  by (intro okR_intros okR_bindR_with [OF okR_new_hdr] okR_bindR_with [OF okR_make_aosp_hdr])
    (auto intro: img_inv_hdr)

text \<open>What the phases keep: the mapping, and a well-formed header once there is one.\<close>

definition parsed_inv :: "bytes \<Rightarrow> boot_img \<Rightarrow> bool" where
  "parsed_inv d b \<longleftrightarrow> img_inv d b \<and> hdr b \<noteq> None"

lemma parsed_inv_set_flag [simp]: "parsed_inv d (set_flag fl b) = parsed_inv d b"
  by (simp add: parsed_inv_def)

lemma parsed_inv_set_hdr_field: "parsed_inv d b \<Longrightarrow> parsed_inv d (set_hdr_field fl v b)"
  by (auto simp: parsed_inv_def img_inv_set_hdr_field)

lemma parsed_inv_updates [simp]:
  "parsed_inv d (b\<lparr>k_fmt := f\<rparr>) = parsed_inv d b"
  "parsed_inv d (b\<lparr>r_fmt := f\<rparr>) = parsed_inv d b"
  "parsed_inv d (b\<lparr>e_fmt := f\<rparr>) = parsed_inv d b"
  "parsed_inv d (b\<lparr>payload := p\<rparr>) = parsed_inv d b"
  "parsed_inv d (b\<lparr>payload_sz := m\<rparr>) = parsed_inv d b"
  "parsed_inv d (b\<lparr>tail := t\<rparr>) = parsed_inv d b"
  "parsed_inv d (b\<lparr>k_hdr := q\<rparr>) = parsed_inv d b"
  "parsed_inv d (b\<lparr>r_hdr := q\<rparr>) = parsed_inv d b"
  "parsed_inv d (b\<lparr>z_hdr := q\<rparr>) = parsed_inv d b"
  "parsed_inv d (b\<lparr>z_hdr_sz := n\<rparr>) = parsed_inv d b"
  "parsed_inv d (b\<lparr>z_tail := t\<rparr>) = parsed_inv d b"
  "parsed_inv d (b\<lparr>avb_footer := q\<rparr>) = parsed_inv d b"
  "parsed_inv d (b\<lparr>vbmeta := q\<rparr>) = parsed_inv d b"
  "parsed_inv d (b\<lparr>kernel := p\<rparr>) = parsed_inv d b"
  "parsed_inv d (b\<lparr>ramdisk := p\<rparr>) = parsed_inv d b"
  "parsed_inv d (b\<lparr>second := p\<rparr>) = parsed_inv d b"
  "parsed_inv d (b\<lparr>extra := p\<rparr>) = parsed_inv d b"
  "parsed_inv d (b\<lparr>recovery_dtbo := p\<rparr>) = parsed_inv d b"
  "parsed_inv d (b\<lparr>dtb := p\<rparr>) = parsed_inv d b"
  "parsed_inv d (b\<lparr>signature := p\<rparr>) = parsed_inv d b"
  "parsed_inv d (b\<lparr>vendor_ramdisk_table := p\<rparr>) = parsed_inv d b"
  "parsed_inv d (b\<lparr>bootconfig := p\<rparr>) = parsed_inv d b"
  "parsed_inv d (b\<lparr>kernel_dtb := t\<rparr>) = parsed_inv d b"
  by (simp_all add: parsed_inv_def img_inv_def)

lemma get_blocks_same:
  assumes "\<forall>(fl, place) \<in> set bl. \<forall>p b. f (place p b) = f b"
    "get_blocks bl map_end addr h off b = Inr (r, b')"
  shows "f b' = f b"
  using assms
proof (induction bl arbitrary: off b)
  case (Cons fp bl)
  then show ?case by (cases fp) (auto simp: Let_def split: if_splits)
qed simp

lemma block_list_keeps:
  "get_blocks block_list map_end addr h off b = Inr (r, b') \<Longrightarrow> parsed_inv d b' = parsed_inv d b"
  by (rule get_blocks_same [of block_list]) (auto simp: block_list_def)

lemma block_list_hdr:
  "get_blocks block_list map_end addr h off b = Inr (r, b') \<Longrightarrow> hdr b' = hdr b"
  by (rule get_blocks_same [of block_list]) (auto simp: block_list_def)

lemma okR_with_hdr: "(\<And>h. hdr b = Some h \<Longrightarrow> okR P (k h)) \<Longrightarrow> okR P (with_hdr b k)"
  by (auto simp: with_hdr_def the_hdr_def okR_def split: option.splits)

text \<open>
  The phases behind \<open>get_blocks\<close> change an image only by flags, formats, the pointers of kernel,
  ramdisk and wrappers, and the two sizes in the header. What is stable under these is kept by
  every phase.
\<close>

locale phase_invariant =
  fixes P :: "boot_img \<Rightarrow> bool"
  assumes P_set_flag: "P b \<Longrightarrow> P (set_flag fl b)"
    and P_kernel_size: "P b \<Longrightarrow> P (set_hdr_field Kernel_size v b)"
    and P_ramdisk_size: "P b \<Longrightarrow> P (set_hdr_field Ramdisk_size v b)"
    and P_fmts: "P b \<Longrightarrow> P (b\<lparr>k_fmt := f\<rparr>)" "P b \<Longrightarrow> P (b\<lparr>r_fmt := f\<rparr>)" "P b \<Longrightarrow> P (b\<lparr>e_fmt := f\<rparr>)"
    and P_hdrs: "P b \<Longrightarrow> P (b\<lparr>k_hdr := q\<rparr>)" "P b \<Longrightarrow> P (b\<lparr>r_hdr := q\<rparr>)" "P b \<Longrightarrow> P (b\<lparr>z_hdr := q\<rparr>)"
      "P b \<Longrightarrow> P (b\<lparr>z_hdr_sz := n\<rparr>)" "P b \<Longrightarrow> P (b\<lparr>z_tail := t\<rparr>)"
    and P_avb: "P b \<Longrightarrow> P (b\<lparr>avb_footer := q\<rparr>)" "P b \<Longrightarrow> P (b\<lparr>vbmeta := q\<rparr>)"
    and P_ptrs: "P b \<Longrightarrow> P (b\<lparr>kernel := p\<rparr>)" "P b \<Longrightarrow> P (b\<lparr>ramdisk := p\<rparr>)"
      "P b \<Longrightarrow> P (b\<lparr>kernel_dtb := t\<rparr>)"
begin

lemma P_if: "(c \<Longrightarrow> P a) \<Longrightarrow> (\<not> c \<Longrightarrow> P b) \<Longrightarrow> P (if c then a else b)"
  by simp

lemmas P_intros = P_if P_set_flag P_kernel_size P_ramdisk_size P_fmts P_hdrs P_avb P_ptrs

lemmas phase_intros = okR_intros okR_with_hdr P_intros

lemma keep_bindR:
  "(\<And>b'. P b' \<Longrightarrow> okR P (ph b')) \<Longrightarrow> P b \<Longrightarrow> (\<And>b'. P b' \<Longrightarrow> okR Q (k b')) \<Longrightarrow> okR Q (bindR (ph b) k)"
  by (rule okR_bindR_with)

lemma keep_whenR: "(\<And>b'. P b' \<Longrightarrow> okR P (k b')) \<Longrightarrow> P b \<Longrightarrow> okR P (whenR c k b)"
  by (simp add: whenR_def okR_Inr)

lemma keep_split_kernel_dtb: "P b \<Longrightarrow> okR P (split_kernel_dtb b)"
  unfolding split_kernel_dtb_def Let_def by (intro phase_intros) (auto intro: P_intros)

lemma keep_kernel_fmt: "P b \<Longrightarrow> okR P (kernel_fmt b)"
  unfolding kernel_fmt_def by (intro phase_intros)

lemma keep_ramdisk_fmt: "P b \<Longrightarrow> okR P (ramdisk_fmt b)"
  unfolding ramdisk_fmt_def by (intro phase_intros)

lemma keep_skip_mtk_kernel: "P b \<Longrightarrow> okR P (skip_mtk_kernel b)"
  unfolding skip_mtk_kernel_def by (intro phase_intros keep_kernel_fmt)

lemma keep_skip_mtk_ramdisk: "P b \<Longrightarrow> okR P (skip_mtk_ramdisk b)"
  unfolding skip_mtk_ramdisk_def by (intro phase_intros keep_ramdisk_fmt)

lemma keep_parse_zimage: "P b \<Longrightarrow> okR P (parse_zimage b)"
  unfolding parse_zimage_def Let_def by (intro phase_intros)

lemma keep_parse_kernel: "P b \<Longrightarrow> okR P (parse_kernel b)"
  unfolding parse_kernel_def
  by (intro okR_with_hdr okR_if okR_Inr keep_bindR [OF keep_split_kernel_dtb]
      keep_bindR [OF keep_kernel_fmt] keep_bindR [OF keep_whenR [OF keep_skip_mtk_kernel]]
      keep_whenR keep_parse_zimage)

lemma keep_parse_ramdisk: "P b \<Longrightarrow> okR P (parse_ramdisk b)"
  unfolding parse_ramdisk_def
  by (intro okR_with_hdr okR_if okR_Inr okR_bindR keep_bindR [OF keep_ramdisk_fmt]
      keep_whenR keep_skip_mtk_ramdisk)

lemma keep_parse_extra: "P b \<Longrightarrow> okR P (parse_extra b)"
  unfolding parse_extra_def by (intro phase_intros)

lemma keep_tail_flags: "P b \<Longrightarrow> okR P (tail_flags b)"
  unfolding tail_flags_def Let_def by (intro phase_intros)

lemma keep_find_footer: "P b \<Longrightarrow> okR P (find_footer b)"
  unfolding find_footer_def Let_def by (intro phase_intros)

lemma keep_parse_tail: "P b \<Longrightarrow> okR P (parse_tail b)"
  unfolding parse_tail_def
  by (intro okR_if okR_Inr keep_bindR [OF keep_tail_flags] keep_find_footer)

text \<open>The four phases in a row.\<close>

lemma keep_phases:
  "P b \<Longrightarrow> okR (\<lambda>(ok, b'). P b')
     (bindR (parse_kernel b) (\<lambda>b5. bindR (parse_ramdisk b5) (\<lambda>b6.
        bindR (parse_extra b6) (\<lambda>b7. bindR (parse_tail b7) (\<lambda>b8. Inr (True, b8))))))"
  by (intro keep_bindR [OF keep_parse_kernel] keep_bindR [OF keep_parse_ramdisk]
      keep_bindR [OF keep_parse_extra] keep_bindR [OF keep_parse_tail]) (simp_all add: okR_def)

end

interpretation inv: phase_invariant "parsed_inv d"
  by unfold_locales (simp_all add: parsed_inv_set_hdr_field)

text \<open>What the later phases leave of the other blocks: their pointers and their sizes.\<close>

definition other_blocks :: "boot_img \<Rightarrow> (ptr \<times> field) list" where
  "other_blocks b = drop 2 (img_blocks b)"

definition frame :: "bytes \<Rightarrow> boot_img \<Rightarrow> boot_img \<Rightarrow> bool" where
  "frame d b0 b \<longleftrightarrow> parsed_inv d b \<and> other_blocks b = other_blocks b0 \<and> payload b = payload b0 \<and>
     payload_sz b = payload_sz b0 \<and> tail b = tail b0 \<and> (\<forall>fl. flags b0 fl \<longrightarrow> flags b fl) \<and>
     map_option ver (hdr b) = map_option ver (hdr b0) \<and>
     (\<forall>fl. fl \<noteq> Kernel_size \<longrightarrow> fl \<noteq> Ramdisk_size \<longrightarrow>
        map_option (hdr_get fl) (hdr b) = map_option (hdr_get fl) (hdr b0))"

lemma frame_set_hdr_field:
  assumes "frame d b0 b" "gl = Kernel_size \<or> gl = Ramdisk_size"
  shows "frame d b0 (set_hdr_field gl v b)"
proof -
  have "parsed_inv d (set_hdr_field gl v b)"
    using assms(1) by (simp add: frame_def parsed_inv_set_hdr_field)
  moreover have "map_option (hdr_get fl) (map_option (hdr_set gl v) (hdr b)) = map_option (hdr_get fl) (hdr b0)"
    if "fl \<noteq> Kernel_size" "fl \<noteq> Ramdisk_size" for fl
  proof -
    obtain h where h: "hdr b = Some h" "wf_hdr h"
      using assms(1) by (auto simp: frame_def parsed_inv_def img_inv_def)
    have "hdr_get fl (hdr_set gl v h) = hdr_get fl h"
      using that assms(2) by (intro hdr_get_set_other h) auto
    moreover have "map_option (hdr_get fl) (hdr b) = map_option (hdr_get fl) (hdr b0)"
      using assms(1) that by (simp add: frame_def)
    ultimately show ?thesis by (simp add: h)
  qed
  moreover have "map_option ver (map_option (hdr_set gl v) (hdr b)) = map_option ver (hdr b0)"
    using assms(1) by (simp add: frame_def option.map_comp comp_def)
  ultimately show ?thesis
    using assms(1) by (simp add: frame_def set_hdr_field_def other_blocks_def img_blocks_def)
qed

interpretation frame: phase_invariant "frame d b0"
  by unfold_locales
    (simp_all add: frame_set_hdr_field,
      simp_all add: frame_def set_flag_def other_blocks_def img_blocks_def,
      simp_all add: parsed_inv_def img_inv_def)

lemma parse_image_inv:
  assumes "img_inv d b"
  shows "okR (\<lambda>(ok, b'). img_inv d b' \<and> (ok \<longrightarrow> hdr b' \<noteq> None)) (parse_image addr ty b)"
proof -
  have blocks: "okR (\<lambda>(r, b'). parsed_inv d b') (get_blocks block_list map_end a h off b)"
    if "parsed_inv d b" for map_end a h off b
    using that block_list_keeps by (auto simp: okR_def)
  have phases: "okR (\<lambda>(ok, b'). img_inv d b' \<and> (ok \<longrightarrow> hdr b' \<noteq> None))
     (bindR (parse_kernel b) (\<lambda>b5. bindR (parse_ramdisk b5) (\<lambda>b6.
        bindR (parse_extra b6) (\<lambda>b7. bindR (parse_tail b7) (\<lambda>b8. Inr (True, b8))))))"
    if "parsed_inv d b" for b
    using inv.keep_phases [OF that] by (auto simp: okR_def parsed_inv_def)
  show ?thesis
    unfolding parse_image_def Let_def
    apply (rule okR_bindR_with [OF parse_hdr_inv [OF assms]])
    apply (clarsimp split del: if_split)
    apply (rule okR_case_option)
     apply (simp add: okR_def)
    apply (rule okR_bindR, rule okR_bindR, rule okR_bindR)
    apply (rule okR_bindR_with [OF blocks])
     apply (simp add: parsed_inv_def)
    apply (clarsimp split del: if_split)
    apply (rule okR_case_option)
     apply (simp add: okR_def parsed_inv_def)
    apply (rule phases [simplified])
    apply simp
    done
qed

text \<open>
  Where the blocks of kernel and ramdisk start in the file: at the wrapper headers the parser skipped,
  if there are any.
\<close>

definition k_start :: "boot_img \<Rightarrow> ptr" where
  "k_start b = (case k_hdr b of Some p \<Rightarrow> p | None \<Rightarrow> (case z_hdr b of Some p \<Rightarrow> p | None \<Rightarrow> kernel b))"

definition r_start :: "boot_img \<Rightarrow> ptr" where
  "r_start b = (case r_hdr b of Some p \<Rightarrow> p | None \<Rightarrow> ramdisk b)"

definition start_blocks :: "boot_img \<Rightarrow> (ptr \<times> field) list" where
  "start_blocks b = (k_start b, Kernel_size) # (r_start b, Ramdisk_size) # other_blocks b"

text \<open>No wrapper header has been found yet.\<close>

definition unwrapped :: "boot_img \<Rightarrow> bool" where
  "unwrapped b \<longleftrightarrow> k_hdr b = None \<and> z_hdr b = None \<and> r_hdr b = None"

lemma unwrapped_blocks: "unwrapped b \<Longrightarrow> start_blocks b = img_blocks b"
  by (simp add: unwrapped_def start_blocks_def k_start_def r_start_def other_blocks_def img_blocks_def)

lemma unwrapped_updates [simp]:
  "unwrapped (set_flag fl b) = unwrapped b" "unwrapped (b\<lparr>hdr := r\<rparr>) = unwrapped b"
  "unwrapped (b\<lparr>payload := p, payload_sz := n, tail := t\<rparr>) = unwrapped b"
  by (simp_all add: unwrapped_def set_flag_def)

lemma get_blocks_unwrapped:
  "get_blocks block_list map_end addr h off b = Inr (r, b') \<Longrightarrow> unwrapped b' = unwrapped b"
  by (rule get_blocks_same [of block_list]) (auto simp: block_list_def unwrapped_def)

lemma get_blocks_flags:
  "get_blocks block_list map_end addr h off b = Inr (r, b') \<Longrightarrow> flags b' = flags b \<and> map_mem b' = map_mem b"
  by (rule conjI; rule get_blocks_same [of block_list]) (auto simp: block_list_def)

text \<open>The phases leave these starts where \<open>get_blocks\<close> put them.\<close>

lemma start_simps [simp]:
  "k_start (set_flag fl b) = k_start b" "r_start (set_flag fl b) = r_start b"
  "k_start (set_hdr_field gl v b) = k_start b" "r_start (set_hdr_field gl v b) = r_start b"
  "r_hdr (set_flag fl b) = r_hdr b" "r_hdr (set_hdr_field gl v b) = r_hdr b"
  "k_hdr (set_flag fl b) = k_hdr b" "k_hdr (set_hdr_field gl v b) = k_hdr b"
  "z_hdr (set_flag fl b) = z_hdr b" "z_hdr (set_hdr_field gl v b) = z_hdr b"
  "kernel (set_flag fl b) = kernel b" "kernel (set_hdr_field gl v b) = kernel b"
  "ramdisk (set_flag fl b) = ramdisk b" "ramdisk (set_hdr_field gl v b) = ramdisk b"
  by (simp_all add: k_start_def r_start_def set_flag_def set_hdr_field_def cong: option.case_cong)

definition starts_kept :: "boot_img \<Rightarrow> boot_img \<Rightarrow> bool" where
  "starts_kept b0 b \<longleftrightarrow> k_start b = k_start b0 \<and> r_start b = r_start b0"

lemma okR_whenR: "(c \<Longrightarrow> okR P (k x)) \<Longrightarrow> P x \<Longrightarrow> okR P (whenR c k x)"
  by (simp add: whenR_def okR_def)

lemma fmt_results:
  "okR (\<lambda>b'. \<exists>f. b' = b\<lparr>k_fmt := f\<rparr>) (kernel_fmt b)" "okR (\<lambda>b'. \<exists>f. b' = b\<lparr>r_fmt := f\<rparr>) (ramdisk_fmt b)"
  unfolding kernel_fmt_def ramdisk_fmt_def by (intro okR_with_hdr okR_bindR; auto simp: okR_def)+

lemma parse_kernel_starts:
  assumes "k_hdr b = None" "z_hdr b = None"
  shows "okR (\<lambda>b'. starts_kept b b' \<and> r_hdr b' = r_hdr b) (parse_kernel b)"
proof -
  let ?P = "\<lambda>b'. starts_kept b b' \<and> r_hdr b' = r_hdr b"
  have split: "okR (\<lambda>b'. ?P b' \<and> k_hdr b' = None \<and> z_hdr b' = None) (split_kernel_dtb b)"
    unfolding split_kernel_dtb_def using assms
    by (intro okR_with_hdr okR_intros) (simp add: starts_kept_def k_start_def r_start_def cong: option.case_cong)
  have mtk: "okR (\<lambda>b'. ?P b' \<and> z_hdr b' = None) (skip_mtk_kernel c)"
    if "?P c" "k_hdr c = None" "z_hdr c = None" for c
    unfolding skip_mtk_kernel_def using that
    by (intro okR_bindR okR_with_hdr okR_mono [OF fmt_results(1)])
      (auto simp: starts_kept_def k_start_def r_start_def cong: option.case_cong)
  have zimage: "okR ?P (parse_zimage c)" if "?P c" "z_hdr c = None" for c
    unfolding parse_zimage_def Let_def using that
    by (intro okR_with_hdr okR_intros)
      (auto simp: starts_kept_def k_start_def r_start_def cong: option.case_cong)
  show ?thesis
    unfolding parse_kernel_def
  proof (rule okR_with_hdr, rule okR_if)
    show "okR ?P (bindR (split_kernel_dtb b) (\<lambda>b1. bindR (kernel_fmt b1) (\<lambda>b2.
        bindR (whenR (k_fmt b2 = MTK) skip_mtk_kernel b2) (\<lambda>b3. whenR (k_fmt b3 = ZIMAGE) parse_zimage b3))))"
    proof (rule okR_bindR_with [OF split], rule okR_bindR_with [OF fmt_results(1)], clarify)
      fix c f assume c: "starts_kept b c" "r_hdr c = r_hdr b" "k_hdr c = None" "z_hdr c = None"
      let ?c = "c\<lparr>k_fmt := f\<rparr>"
      have "?P ?c \<and> k_hdr ?c = None \<and> z_hdr ?c = None"
        using c by (simp add: starts_kept_def k_start_def r_start_def cong: option.case_cong)
      then have "okR (\<lambda>b'. ?P b' \<and> z_hdr b' = None) (whenR (k_fmt ?c = MTK) skip_mtk_kernel ?c)"
        using mtk [of ?c] by (intro okR_whenR) blast+
      then show "okR ?P (bindR (whenR (k_fmt ?c = MTK) skip_mtk_kernel ?c) (\<lambda>b3. whenR (k_fmt b3 = ZIMAGE) parse_zimage b3))"
        by (rule okR_bindR_with) (intro okR_whenR zimage; simp)
    qed
  qed (simp add: okR_def starts_kept_def)
qed

lemma parse_ramdisk_starts:
  assumes "r_hdr b = None"
  shows "okR (starts_kept b) (parse_ramdisk b)"
proof -
  have mtk: "okR (starts_kept b) (skip_mtk_ramdisk c)" if "starts_kept b c" "r_hdr c = None" for c
    unfolding skip_mtk_ramdisk_def using that
    by (intro okR_bindR okR_with_hdr okR_mono [OF fmt_results(2)])
      (auto simp: starts_kept_def k_start_def r_start_def cong: option.case_cong)
  have "okR (starts_kept b) (bindR (ramdisk_fmt b) (\<lambda>b1. whenR (r_fmt b1 = MTK) skip_mtk_ramdisk b1))"
    by (rule okR_bindR_with [OF fmt_results(2)])
      (use assms in \<open>auto intro!: okR_whenR mtk simp: starts_kept_def k_start_def r_start_def cong: option.case_cong\<close>)
  then show ?thesis
    unfolding parse_ramdisk_def by (intro okR_with_hdr okR_intros) (simp_all add: starts_kept_def)
qed

lemma starts_kept_updates [simp]:
  "starts_kept b (c\<lparr>e_fmt := f\<rparr>) = starts_kept b c" "starts_kept b (c\<lparr>avb_footer := q\<rparr>) = starts_kept b c"
  "starts_kept b (c\<lparr>vbmeta := q\<rparr>) = starts_kept b c" "starts_kept b (set_flag fl c) = starts_kept b c"
  by (simp_all add: starts_kept_def k_start_def r_start_def set_flag_def cong: option.case_cong)

lemma starts_kept_refl [simp]: "starts_kept b b"
  by (simp add: starts_kept_def)

lemma parse_extra_starts: "okR (starts_kept b) (parse_extra b)"
  unfolding parse_extra_def by (intro okR_with_hdr okR_intros) simp_all

lemma parse_tail_starts: "okR (starts_kept b) (parse_tail b)"
proof -
  have flags: "okR (starts_kept b) (tail_flags b)"
    unfolding tail_flags_def Let_def by (intro okR_intros) simp_all
  have footer: "okR (starts_kept b) (find_footer c)" if "starts_kept b c" for c
    unfolding find_footer_def Let_def using that by (intro okR_intros) simp_all
  have "okR (starts_kept b) (bindR (tail_flags b) find_footer)"
    by (rule okR_bindR_with [OF flags]) (rule footer)
  then show ?thesis by (simp add: parse_tail_def okR_def)
qed

lemma phases_starts:
  assumes "unwrapped b"
  shows "okR (\<lambda>(ok, b'). starts_kept b b') (bindR (parse_kernel b) (\<lambda>b5. bindR (parse_ramdisk b5) (\<lambda>b6.
      bindR (parse_extra b6) (\<lambda>b7. bindR (parse_tail b7) (\<lambda>b8. Inr (True, b8))))))"
proof -
  have "k_hdr b = None" "z_hdr b = None" "r_hdr b = None" using assms by (simp_all add: unwrapped_def)
  then show ?thesis
    by (intro okR_bindR_with [OF parse_kernel_starts] okR_bindR_with [OF parse_ramdisk_starts]
        okR_bindR_with [OF parse_extra_starts] okR_bindR_with [OF parse_tail_starts])
      (simp_all add: okR_def starts_kept_def)
qed

definition page_up :: "nat \<Rightarrow> nat" where
  "page_up n = (n + getpagesize - 1) div getpagesize * getpagesize"

section \<open>Layout\<close>

text \<open>The header is what the mapping holds at the image's start, or behind the AMONET microloader.\<close>

definition header_read :: "bytes \<Rightarrow> bool \<Rightarrow> ptr \<Rightarrow> dyn_img_hdr \<Rightarrow> bool" where
  "header_read m am addr h \<longleftrightarrow>
     (\<exists>p sz. (p = addr \<or> am \<and> p = addr + int AMONET_MICROLOADER_SZ) \<and> new_hdr (ver h) (mem_at m p) sz = Inr h)"

lemma okR_new_hdr_read: "okR (\<lambda>h. new_hdr (ver h) p sz = Inr h) (new_hdr v p sz)"
  by (auto simp: okR_def new_hdr_def bindR_def Let_def split: if_splits sum.splits)

lemma okR_aosp_read:
  "okR (\<lambda>r. \<forall>h. r = Some h \<longrightarrow> new_hdr (ver h) (mem_at m p) sz = Inr h) (make_aosp_hdr m p sz)"
  unfolding make_aosp_hdr_def
  by (intro okR_intros okR_bindR_with [OF okR_new_hdr_read]) simp_all

lemma header_readI:
  "new_hdr (ver h) (mem_at m a) sz = Inr h \<Longrightarrow> header_read m am a h"
  "new_hdr (ver h) (mem_at m (a + int AMONET_MICROLOADER_SZ)) sz = Inr h \<Longrightarrow> header_read m True a h"
  by (auto simp: header_read_def)

definition just_read :: "boot_img \<Rightarrow> boot_img \<times> ptr \<Rightarrow> bool" where
  "just_read b r \<longleftrightarrow> unwrapped (fst r) = unwrapped b \<and>
     (\<forall>h. hdr (fst r) = Some h \<longrightarrow> header_read (map_mem (fst r)) (flags (fst r) AMONET_FLAG) (snd r) h)"

lemma just_read_cases:
  "new_hdr (ver h) (mem_at (map_mem b) a) sz = Inr h \<Longrightarrow> just_read b (b\<lparr>hdr := Some h\<rparr>, a)"
  "(\<And>h. r = Some h \<Longrightarrow> new_hdr (ver h) (mem_at (map_mem b) a) sz = Inr h) \<Longrightarrow> just_read b (b\<lparr>hdr := r\<rparr>, a)"
  "(\<And>h. r = Some h \<Longrightarrow> new_hdr (ver h) (mem_at (map_mem b) (a + int AMONET_MICROLOADER_SZ)) sz = Inr h) \<Longrightarrow>
     just_read b (set_flag AMONET_FLAG (b\<lparr>hdr := r\<rparr>), a)"
  "just_read (set_flag fl b) r' = just_read b r'"
  by (auto simp: just_read_def set_flag_def unwrapped_def intro: header_readI)

lemma parse_hdr_read: "okR (just_read b) (parse_hdr addr ty b)"
proof -
  have last: "okR (just_read b) (bindR (make_aosp_hdr (map_mem b) a (- 1)) (\<lambda>h. Inr (c\<lparr>hdr := h\<rparr>, a)))"
    if "c = b \<or> (\<exists>fl. c = set_flag fl b)" for a c
  proof (rule okR_bindR_with [OF okR_aosp_read])
    fix r assume r: "\<forall>h. r = Some h \<longrightarrow> new_hdr (ver h) (mem_at (map_mem b) a) (- 1) = Inr h"
    have m: "map_mem c = map_mem b" using that by (auto simp: set_flag_def)
    then have "just_read c (c\<lparr>hdr := r\<rparr>, a)" using r by (intro just_read_cases(2)) simp
    then show "okR (just_read b) (Inr (c\<lparr>hdr := r\<rparr>, a))" using that just_read_cases(4) by (auto simp: okR_def)
  qed
  show ?thesis
    unfolding parse_hdr_def Let_def
    by (intro okR_intros okR_bindR_with [OF okR_new_hdr_read] okR_bindR_with [OF okR_aosp_read] last)
      (auto intro: just_read_cases)
qed

text \<open>
  The layout of an accepted image, in terms of the header \<open>h0\<close> that was read: the blocks follow each
  other from the header space on in whole pages, the payload ends where the last one does, and the
  tail is the rest of the mapping. The parser changes no field of that header but the sizes of kernel
  and ramdisk, when it takes their wrappers off.
\<close>

definition blocks_follow :: "boot_img \<Rightarrow> dyn_img_hdr \<Rightarrow> nat \<Rightarrow> bool" where
  "blocks_follow b h0 n \<longleftrightarrow>
     0 \<le> payload b \<and> k_start b = payload b + int n \<and>
     blocks_ok h0 (payload b) (int (page_up (map_size b))) (start_blocks b) \<and>
     (\<forall>(p, fl) \<in> set (start_blocks b). int (unat (hdr_get Page_size h0)) dvd p - payload b \<and>
        p + int (unat (hdr_get fl h0)) \<le> fst (tail b)) \<and>
     payload b + int (payload_sz b) = fst (tail b) \<and>
     fst (tail b) + int (snd (tail b)) = int (page_up (map_size b))"

definition layout_ok :: "boot_img \<Rightarrow> bool" where
  "layout_ok b \<longleftrightarrow>
     (\<exists>h h0 n. hdr b = Some h \<and> header_read (map_mem b) (flags b AMONET_FLAG) (payload b) h0 \<and>
        ver h = ver h0 \<and> (\<forall>fl. fl \<noteq> Kernel_size \<longrightarrow> fl \<noteq> Ramdisk_size \<longrightarrow> hdr_get fl h = hdr_get fl h0) \<and>
        hdr_space h0 = Inr n \<and> (sane_page h0 \<longrightarrow> blocks_follow b h0 (unat n)))"

lemma blocks_follow_frame:
  assumes "frame d b0 b" "starts_kept b0 b" "map_size b = map_size b0"
  shows "blocks_follow b h0 n = blocks_follow b0 h0 n"
  using assms by (simp add: blocks_follow_def frame_def starts_kept_def start_blocks_def)

lemma layout_ok_frame:
  assumes "frame d b0 b" "starts_kept b0 b" "map_size b = map_size b0" "map_mem b = map_mem b0"
    "hdr b0 = Some h0" "header_read (map_mem b0) (flags b0 AMONET_FLAG) (payload b0) h0" "hdr_space h0 = Inr n"
    "sane_page h0 \<longrightarrow> blocks_follow b0 h0 (unat n)"
  shows "layout_ok b"
proof -
  obtain h where h: "hdr b = Some h" using assms(1) by (auto simp: frame_def parsed_inv_def)
  have "header_read (map_mem b) (flags b AMONET_FLAG) (payload b) h0"
    using assms(1,4,6) by (auto simp: header_read_def frame_def)
  moreover have "ver h = ver h0" "\<And>fl. fl \<noteq> Kernel_size \<Longrightarrow> fl \<noteq> Ramdisk_size \<Longrightarrow> hdr_get fl h = hdr_get fl h0"
    using assms(1,5) by (simp_all add: frame_def h)
  ultimately show ?thesis
    unfolding layout_ok_def using h assms(7,8) blocks_follow_frame [OF assms(1-3)] by blast
qed

lemma hdr_space_bound:
  assumes "hdr_space h = Inr off" "sane_page h"
  shows "unat off < 2 ^ 62 \<and> unat (hdr_get Page_size h) dvd unat off"
proof (cases "is_vendor h")
  case True
  let ?p = "unat (hdr_get Page_size h)"
  have sz: "hdr_size h \<le> 2128" by (cases "ver h") (simp_all add: hdr_size_def)
  then have u: "unat (of_nat (hdr_size h) :: u64) = hdr_size h"
    by (simp add: unsigned_of_nat take_bit_nat_eq_self)
  have p: "0 < ?p" "?p < 2 ^ 31" using assms(2) by (simp_all only: sane_page_def)
  have page: "sint (hdr_get Page_size h) = int ?p" "0 < int ?p" "int ?p < int (2 ^ 31)"
    using sint_small32 [OF p(2)] p by (simp_all only: of_nat_less_iff of_nat_0_less_iff)
  have "unat (of_nat (hdr_size h) :: u64) + nat (int ?p) < 2 ^ 64"
    using sz p by (simp add: u)
  from align_to_size_unat [OF page(2) page(3) [simplified of_nat_power of_nat_numeral] this] assms(1) True
  have "unat off = (hdr_size h + ?p - 1) div ?p * ?p" by (auto simp: hdr_space_def page(1) u)
  then show ?thesis using div_mult_up [of ?p "hdr_size h"] sz p by simp
next
  case False
  have "unat (hdr_get Page_size h) < 2 ^ 32" using unsigned_less [of "hdr_get Page_size h"] by simp
  then have "unat (ucast (hdr_get Page_size h) :: u64) = unat (hdr_get Page_size h)"
    by (simp add: unsigned_ucast_eq take_bit_nat_eq_self)
  with False assms(1) \<open>unat (hdr_get Page_size h) < 2 ^ 32\<close> show ?thesis
    by (auto simp: hdr_space_def)
qed

lemma map_end_page_up:
  assumes "align_to_size (of_nat n) (int getpagesize) = Inr e" "n < 2 ^ 61"
  shows "int (unat e) = int (page_up n)"
proof -
  have n: "unat (of_nat n :: u64) = n" using assms(2) by (simp add: unsigned_of_nat take_bit_nat_eq_self)
  have "unat (of_nat n :: u64) + nat (int getpagesize) < 2 ^ 64"
    using assms(2) by (simp add: n getpagesize_def)
  from align_to_size_unat [OF _ _ this] assms(1) show ?thesis
    by (auto simp: getpagesize_def n page_up_def)
qed

lemma parse_hdr_addr:
  "0 \<le> addr \<Longrightarrow> okR (\<lambda>(b', a). 0 \<le> a) (parse_hdr addr ty b)"
  unfolding parse_hdr_def Let_def by (intro okR_intros) simp_all


text \<open>The layout as \<open>get_blocks\<close> leaves it, with the tail behind it.\<close>

lemma blocks_follow_parsed:
  assumes "get_blocks block_list (int (page_up n)) addr h off b = Inr (Some off', b')" "unwrapped b"
    "sane_page h" "0 \<le> addr" "n < 2 ^ 61" "hdr_space h = Inr off" "map_size b' = n"
    "b'' = b'\<lparr>payload := addr, payload_sz := unat off',
       tail := (addr + sint off', nat (int (page_up n) - (addr + sint off')))\<rparr>"
  shows "blocks_follow b'' h (unat off)"
proof -
  have "(n + getpagesize - 1) div getpagesize * getpagesize \<le> n + getpagesize - 1"
    by (simp add: div_times_less_eq_dividend)
  then have "page_up n < 2 ^ 62" using assms(5) by (simp add: page_up_def getpagesize_def)
  then have "int (page_up n) < int (2 ^ 62)" by (simp only: of_nat_less_iff)
  then have e: "int (page_up n) < 2 ^ 62" by (simp only: of_nat_power of_nat_numeral)
  have space: "unat off < 2 ^ 62" "unat (hdr_get Page_size h) dvd unat off"
    using hdr_space_bound [OF assms(6,3)] by simp_all
  note ok = get_blocks_ok [OF assms(1,3) space(1) assms(4) e]
  have "int (unat off') < int (2 ^ 63)" using ok(3) assms(4) e by simp
  then have off': "sint off' = int (unat off')"
    by (intro sint_small64) (simp only: of_nat_less_iff)
  have off: "sint off = int (unat off)" using space(1) by (intro sint_small64) simp
  have "unwrapped b'" using get_blocks_unwrapped [OF assms(1)] assms(2) by simp
  then have "unwrapped b''" by (simp add: assms(8))
  then have starts: "start_blocks b'' = img_blocks b'" "k_start b'' = kernel b'"
    by (simp_all add: unwrapped_blocks) (simp_all add: assms(8) img_blocks_def unwrapped_def k_start_def)
  have "int (unat (hdr_get Page_size h)) dvd p - addr" if "(p, fl) \<in> set (img_blocks b')" for p fl
  proof (cases "(p, fl) = (kernel b', Kernel_size)")
    case True
    moreover have "int (unat (hdr_get Page_size h)) dvd int (unat off)" using space(2) by (simp only: of_nat_dvd_iff)
    ultimately show ?thesis using ok(4) by simp
  next
    case False
    then have "(p, fl) \<in> set (List.tl (img_blocks b'))" using that by (auto simp: img_blocks_def)
    then show ?thesis using ok(1) by (auto simp: blocks_ok_def)
  qed
  then show ?thesis
    using ok assms(4,7) unfolding blocks_follow_def starts by (auto simp: assms(8) off')
qed

lemma parse_image_layout:
  assumes "img_inv d b" "unwrapped b" "0 \<le> addr" "length d < 2 ^ 61"
  shows "okR (\<lambda>(ok, b'). if ok then layout_ok b' else unwrapped b') (parse_image addr ty b)"
  unfolding parse_image_def Let_def
proof (rule okR_bindR, clarsimp split del: if_split, rule okR_case_option)
  fix b1 a h
  assume b1: "parse_hdr addr ty b = Inr (b1, a)" and h: "hdr b1 = Some h"
  let ?b2 = "if long_id h then set_flag SHA256_FLAG b1 else b1"
  have inv1: "img_inv d b1" and a: "0 \<le> a" and rd1: "just_read b (b1, a)"
    using okRD [OF parse_hdr_inv [OF assms(1)] b1] okRD [OF parse_hdr_addr [OF assms(3)] b1]
      okRD [OF parse_hdr_read b1] by simp_all
  have size1: "map_size ?b2 = length d" "hdr ?b2 = Some h" "parsed_inv d ?b2" "unwrapped ?b2"
    using inv1 h rd1 assms(2) by (simp_all add: img_inv_def parsed_inv_def just_read_def)
  have read2: "header_read (map_mem ?b2) (flags ?b2 AMONET_FLAG) a h"
    using rd1 h by (simp add: just_read_def set_flag_def)
  have final: "okR (\<lambda>(ok, b'). if ok then layout_ok b' else unwrapped b')
      (bindR (parse_kernel (b3\<lparr>payload := a, payload_sz := unat off,
          tail := (a + sint off, nat (int (unat e) - (a + sint off)))\<rparr>))
        (\<lambda>b5. bindR (parse_ramdisk b5) (\<lambda>b6. bindR (parse_extra b6)
          (\<lambda>b7. bindR (parse_tail b7) (\<lambda>b8. Inr (True, b8))))))"
    if st: "align_to_size (of_nat (length d)) (int getpagesize) = Inr e" "hdr_space h = Inr off0"
      "get_blocks block_list (int (unat e)) a h off0 ?b2 = Inr (Some off, b3)" for e off0 off b3
  proof -
    let ?b4 = "b3\<lparr>payload := a, payload_sz := unat off, tail := (a + sint off, nat (int (unat e) - (a + sint off)))\<rparr>"
    have e: "int (unat e) = int (page_up (length d))" by (rule map_end_page_up [OF st(1) assms(4)])
    have inv3: "parsed_inv d b3" using block_list_keeps [OF st(3)] size1(3) by blast
    then have inv4: "frame d ?b4 ?b4" by (simp add: frame_def)
    have un4: "unwrapped ?b4" using get_blocks_unwrapped [OF st(3)] size1(4) by simp
    have "map_size b3 = length d" using inv3 by (simp add: parsed_inv_def img_inv_def)
    from blocks_follow_parsed [OF st(3) [unfolded e] size1(4) _ a assms(4) st(2) this refl]
    have follow: "sane_page h \<longrightarrow> blocks_follow ?b4 h (unat off0)"
      unfolding e by blast
    have h4: "hdr ?b4 = Some h" "header_read (map_mem ?b4) (flags ?b4 AMONET_FLAG) (payload ?b4) h"
      using block_list_hdr [OF st(3)] get_blocks_flags [OF st(3)] size1(2) read2 by simp_all
    have lay: "layout_ok b'" if "frame d ?b4 b'" "starts_kept ?b4 b'" for b'
    proof (rule layout_ok_frame [OF that _ _ h4 st(2) follow])
      show "map_size b' = map_size ?b4" "map_mem b' = map_mem ?b4"
        using that(1) inv4 by (simp_all add: frame_def parsed_inv_def img_inv_def)
    qed
    show ?thesis
      using frame.keep_phases [OF inv4] phases_starts [OF un4] lay by (fastforce simp: okR_def)
  qed
  show "okR (\<lambda>(ok, b'). if ok then layout_ok b' else unwrapped b')
      (bindR (print_hdr h) (\<lambda>_. bindR (align_to_size (of_nat (map_size ?b2)) (int getpagesize)) (\<lambda>map_end.
        bindR (hdr_space h) (\<lambda>off0.
          bindR (get_blocks block_list (int (unat map_end)) a h off0 ?b2) (\<lambda>(r, b3).
            case r of
              None \<Rightarrow> Inr (False, b3)
            | Some off \<Rightarrow>
                bindR (parse_kernel (b3\<lparr>payload := a, payload_sz := unat off,
                    tail := (a + sint off, nat (int (unat map_end) - (a + sint off)))\<rparr>))
                  (\<lambda>b5. bindR (parse_ramdisk b5) (\<lambda>b6. bindR (parse_extra b6)
                    (\<lambda>b7. bindR (parse_tail b7) (\<lambda>b8. Inr (True, b8))))))))))"
    apply (rule okR_bindR, rule okR_bindR, rule okR_bindR, rule okR_bindR, rule okR_case_prod,
        rule okR_case_option)
    subgoal using get_blocks_unwrapped size1(4) by (simp add: okR_def)
    apply (rule final)
      apply (simp only: size1)
     apply assumption
    apply (simp only: prod.inject)
    done
next
  fix b1 a
  assume "parse_hdr addr ty b = Inr (b1, a)"
  then show "okR (\<lambda>(ok, b'). if ok then layout_ok b' else unwrapped b') (Inr (False, b1))"
    using okRD [OF parse_hdr_read] assms(2) by (fastforce simp: okR_def just_read_def)
qed

definition scanned_ok :: "bytes \<Rightarrow> boot_img \<Rightarrow> bool" where
  "scanned_ok d b \<longleftrightarrow> parsed_inv d b \<and> (length d < 2 ^ 61 \<longrightarrow> layout_ok b)"

lemma boot_scan_inv:
  "img_inv d b \<Longrightarrow> (length d < 2 ^ 61 \<Longrightarrow> unwrapped b) \<Longrightarrow> okR (scanned_ok d) (boot_scan d addr b)"
proof (induction d addr b rule: boot_scan.induct)
  case (1 d addr b)
  have image: "okR (scanned_ok d) (bindR (parse_image (int addr) fmt b)
      (\<lambda>(ok, b1). if ok then Inr b1 else boot_scan d (addr + 1) b1))"
    if "addr < length d" "fmt = check_fmt (drop addr d)" "fmt = AOSP \<or> fmt = AOSP_VENDOR" for fmt
  proof (rule okR_bindR)
    fix r assume r: "parse_image (int addr) fmt b = Inr r"
    obtain ok b1 where p: "r = (ok, b1)" by (cases r)
    have inv: "img_inv d b1" "ok \<Longrightarrow> hdr b1 \<noteq> None"
      using okRD [OF parse_image_inv [OF "1.prems"(1)] r] by (simp_all add: p)
    have lay: "length d < 2 ^ 61 \<Longrightarrow> if ok then layout_ok b1 else unwrapped b1"
      using okRD [OF parse_image_layout [OF "1.prems"] r] by (simp add: p)
    show "okR (scanned_ok d) (case r of (ok, b1) \<Rightarrow> if ok then Inr b1 else boot_scan d (addr + 1) b1)"
    proof (cases ok)
      case True
      then show ?thesis using inv lay by (simp add: p okR_def scanned_ok_def parsed_inv_def)
    next
      case False
      with that r p inv(1) lay "1.IH"(4) [of fmt r ok b1] show ?thesis by (auto simp: p)
    qed
  qed
  show ?case
    using "1.IH"(1,2,3,5) "1.prems" image
    by (subst boot_scan.simps) (simp add: Let_def okR_def)
qed

end
