(* ===== verification/BootSample.thy ===== *)
theory BootSample
  imports BootCorrect
begin

text \<open>
  A small image to evaluate the definitions on: a vendor boot image of version 3 with a page of
  header and a ramdisk of four bytes.
\<close>

definition sample_raw :: bytes where
  "sample_raw = VENDOR_BOOT_MAGIC @ le32_bytes 3 @ le32_bytes 4096 @ replicate 8 0 @ le32_bytes 4 @
     replicate 2084 0"

definition sample_hdr :: dyn_img_hdr where
  "sample_hdr = \<lparr>ver = VND_V3, raw = sample_raw\<rparr>"

definition sample_img :: bytes where
  "sample_img = sample_raw @ replicate 1984 0 @ str ''abcd'' @ replicate 4092 0"

definition sample_boot :: boot_img where
  "sample_boot = (new_boot_img sample_img)
     \<lparr>hdr := Some sample_hdr, kernel := 4096, ramdisk := 4096, second := 8192, extra := 8192,
      recovery_dtbo := 8192, dtb := 8192, signature := 8192, vendor_ramdisk_table := 8192,
      bootconfig := 8192, payload := 0, payload_sz := 8192, tail := (8192, 0)\<rparr>"

definition sample_world :: world where
  "sample_world = \<lparr>files = [''boot.img'' \<mapsto> sample_img], dirs = (\<lambda>_. False),
     no_stat = (\<lambda>_. False),
     no_open = (\<lambda>_. False), no_creat = (\<lambda>_. False), no_mmap = (\<lambda>_. False),
     no_mkdir = (\<lambda>_. False), answers = []\<rparr>"

lemma view_4_word: "view 0 4 (le32_bytes v @ r) = le32_bytes v"
  by (simp add: view_def)

lemma view_skip: "length a \<le> off \<Longrightarrow> view off n (a @ r) = view (off - length a) n r"
  by (simp add: view_def)

lemma view_replicate: "view off n (replicate k x) = replicate (min n (k - off)) x"
  by (simp add: view_def)

lemma le32_zeros: "le32 (replicate 4 0) = 0"
  by (simp add: le32_def numeral_eq_Suc)

lemma length_sample [simp]: "length sample_raw = 2112" "length sample_img = 8192"
  by (simp_all add: sample_raw_def sample_img_def VENDOR_BOOT_MAGIC_def)

lemma sample_words:
  "view 8 4 sample_raw = le32_bytes 3" "view 12 4 sample_raw = le32_bytes 4096"
  "view 24 4 sample_raw = le32_bytes 4" "view 0 8 sample_raw = VENDOR_BOOT_MAGIC"
  "28 \<le> off \<Longrightarrow> off + n \<le> 2112 \<Longrightarrow> view off n sample_raw = replicate n 0"
  by (simp_all add: sample_raw_def view_skip view_4_word view_replicate VENDOR_BOOT_MAGIC_def)
    (simp_all add: view_def str_def)

lemma sample_fields:
  "hdr_get Page_size sample_hdr = 4096" "hdr_get Ramdisk_size sample_hdr = 4"
  "fl \<noteq> Page_size \<Longrightarrow> fl \<noteq> Ramdisk_size \<Longrightarrow> fl \<noteq> Header_version \<Longrightarrow> hdr_get fl sample_hdr = 0"
  by (cases fl; simp add: hdr_get_def sample_hdr_def off_defs sample_words le32_zeros)+

lemma mapped_sample [simp]: "mapped sample_img = sample_img"
  by (simp add: mapped_def getpagesize_def)

lemma view_sample_img:
  "off + n \<le> 2112 \<Longrightarrow> view off n sample_img = view off n sample_raw"
  unfolding sample_img_def by (rule view_append_first) simp

lemma rd_sample: "0 \<le> p \<Longrightarrow> nat p + n \<le> 8192 \<Longrightarrow> rdp sample_img p n = Inr (view (nat p) n sample_img)"
  by (simp add: rdp_def mem_at_def rd_def view_def)

lemma sample_ramdisk: "view 4096 4 sample_img = str ''abcd''"
  unfolding sample_img_def by (simp add: view_skip) (simp add: view_def)

lemma sample_parse_hdr:
  "parse_hdr 0 AOSP_VENDOR (new_boot_img sample_img) =
     Inr ((new_boot_img sample_img)\<lparr>hdr := Some sample_hdr\<rparr>, 0)"
proof -
  have "rd32 sample_img 8 = Inr 3"
    by (simp add: rd32_def rd_sample view_sample_img sample_words)
  moreover have "new_hdr VND_V3 (mem_at sample_img 0) (- 1) = Inr sample_hdr"
    by (simp add: new_hdr_def mem_at_def rd_def view_def sample_hdr_def)
      (simp add: sample_img_def)
  ultimately show ?thesis
    by (simp add: parse_hdr_def new_boot_img_def)
qed

lemma sample_align:
  "align_to_size 2112 4096 = Inr 4096" "align_to_size 8192 4096 = Inr 8192"
  "align_to_size 4096 4096 = Inr 4096" "align_to_size 4100 4096 = Inr 8192"
  by (simp_all add: align_to_size_def)

lemma sample_sint: "sint (4096 :: u32) = 4096" "sint (4096 :: u64) = 4096" "sint (8192 :: u64) = 8192"
  by (simp_all add: sint_uint)

lemma sample_blocks:
  "get_blocks block_list 8192 0 sample_hdr 4096 ((new_boot_img sample_img)\<lparr>hdr := Some sample_hdr\<rparr>) =
     Inr (Some 8192, (sample_boot\<lparr>r_fmt := UNKNOWN\<rparr>)\<lparr>payload_sz := 0, tail := (0, 0)\<rparr>)"
  by (simp add: block_list_def next_off_def sample_fields sample_sint sample_align sample_boot_def
      new_boot_img_def)

lemma sample_print: "\<exists>out. print_hdr sample_hdr = Inr out" "long_id sample_hdr = False"
proof -
  have "drop 2080 sample_raw = replicate 32 0" by (simp add: sample_raw_def VENDOR_BOOT_MAGIC_def)
  then have "c_str_at sample_raw 2080 = Inr []" by (simp add: c_str_at_def c_str_def)
  then show "\<exists>out. print_hdr sample_hdr = Inr out"
    by (simp add: print_hdr_def sample_hdr_def str_defs)
qed (simp add: long_id_def sample_hdr_def str_defs)

lemma sample_ramdisk_fmt: "check_fmt_lg_at sample_img 4096 4 = Inr UNKNOWN"
proof -
  have "check_fmt (str ''abcd'') = UNKNOWN"
    by (simp add: check_fmt_def checked_match_def match_at_def magic_defs guess_lzma_def view_def
        str_def byte_of_char_def)
  moreover have "rd (mem_at sample_img 4096) 0 4 = Inr (str ''abcd'')"
    using sample_ramdisk by (simp add: mem_at_def rd_def view_def)
  ultimately show ?thesis
    by (simp add: check_fmt_lg_at_def check_fmt_lg_mem_def check_fmt_mem_def)
qed

lemma sample_phases:
  "hdr b = Some sample_hdr \<Longrightarrow> parse_kernel b = Inr b"
  "hdr b = Some sample_hdr \<Longrightarrow> parse_extra b = Inr b"
  "tail b = (x, 0) \<Longrightarrow> parse_tail b = Inr b"
  "hdr b = Some sample_hdr \<Longrightarrow> map_mem b = sample_img \<Longrightarrow> ramdisk b = 4096 \<Longrightarrow>
     parse_ramdisk b = Inr (b\<lparr>r_fmt := UNKNOWN\<rparr>)"
  by (simp_all add: parse_kernel_def parse_extra_def parse_tail_def parse_ramdisk_def with_hdr_def
      the_hdr_def sample_fields ramdisk_fmt_def sample_ramdisk_fmt whenR_def)

lemma sample_parse:
  "parse_image 0 AOSP_VENDOR (new_boot_img sample_img) = Inr (True, sample_boot)"
proof -
  have space: "hdr_space sample_hdr = Inr 4096"
    using sample_fields sample_sint sample_align
    by (simp add: hdr_space_def is_vendor_def hdr_size_def) (simp add: sample_hdr_def)
  let ?b = "(new_boot_img sample_img)\<lparr>hdr := Some sample_hdr\<rparr>"
  obtain out where out: "print_hdr sample_hdr = Inr out" using sample_print(1) by blast
  have size: "map_size ?b = 8192" "hdr ?b = Some sample_hdr"
    by (simp_all add: new_boot_img_def)
  have e: "align_to_size (of_nat 8192) (int getpagesize) = Inr 8192"
    by (simp add: getpagesize_def sample_align)
  have e': "int (unat (8192 :: u64)) = 8192" by simp
  have "parse_image 0 AOSP_VENDOR (new_boot_img sample_img) =
     bindR (parse_ramdisk ((sample_boot\<lparr>r_fmt := UNKNOWN\<rparr>)\<lparr>payload := 0, payload_sz := 8192, tail := (8192, 0)\<rparr>))
       (\<lambda>b. Inr (True, b))"
    unfolding parse_image_def sample_parse_hdr bindR_Inr prod.case size option.case Let_def
      sample_print(2) out if_False e space e' sample_blocks
    by (simp add: sample_sint sample_phases sample_boot_def)
      (simp add: parse_ramdisk_def ramdisk_fmt_def with_hdr_def the_hdr_def sample_fields
        sample_ramdisk_fmt whenR_def sample_phases new_boot_img_def)
  also have "\<dots> = Inr (True, sample_boot)"
    by (simp add: sample_phases sample_boot_def new_boot_img_def)
  finally show ?thesis .
qed

lemma check_fmt_vendor: "check_fmt (VENDOR_BOOT_MAGIC @ r) = AOSP_VENDOR"
proof -
  have "take 8 (VENDOR_BOOT_MAGIC @ r) = VENDOR_BOOT_MAGIC" by (simp add: VENDOR_BOOT_MAGIC_def)
  then have "\<not> checked_match (VENDOR_BOOT_MAGIC @ r) CHROMEOS_MAGIC"
    "\<not> checked_match (VENDOR_BOOT_MAGIC @ r) BOOT_MAGIC"
    by (simp_all add: checked_match_def match_at_def view_def CHROMEOS_MAGIC_def BOOT_MAGIC_def)
      (simp_all add: VENDOR_BOOT_MAGIC_def)
  then show ?thesis by (simp add: check_fmt_def)
qed

lemma sample_open: "open_boot sample_world ''boot.img'' = Inr sample_boot"
proof -
  have "mmap_data sample_world ''boot.img'' = Some sample_img"
    by (simp add: mmap_data_def read_file_def sample_world_def) (auto dest: arg_cong [of _ _ length])
  moreover have "check_fmt sample_img = AOSP_VENDOR"
    using check_fmt_vendor [of "drop 8 sample_img"] sample_words(4)
    by (simp add: sample_img_def sample_raw_def VENDOR_BOOT_MAGIC_def)
  ultimately show ?thesis
    by (simp add: open_boot_def boot_scan.simps [of _ 0] sample_parse)
qed

end
