(* ===== verification/ClaimsBoot.thy ===== *)
theory ClaimsBoot
  imports BootSample
begin

text \<open>
  What the parser of boot images promises: the blocks of an accepted image in order inside its
  mapping, a kernel block that is split without loss; and the headers it does not survive.
\<close>

section \<open>Layout\<close>

text \<open>
  C14: when \<open>boot_img\<close> accepts a file, the image refers to the file's mapping, has a header of its
  version's size, and that header is the one the mapping holds at the start of the payload (or behind the
  AMONET microloader there), changed in the sizes of kernel and ramdisk at most. Unless its page size is
  zero or beyond \<open>int\<close>, all nine blocks as that header gives their sizes, kernel and ramdisk from the
  wrapper headers on that were taken off, follow each other: the kernel starts where the header space
  ends, every block starts at a whole page from the payload's start and ends before the next one, the
  payload ends behind the last block, and the tail runs from there to the end of the mapping.
\<close>

theorem opened_image_layout:
  assumes "open_boot w path = Inr b" "mmap_data w path = Some d" "length d < 2 ^ 61"
  shows "map_mem b = mapped d \<and> (\<exists>h. hdr b = Some h \<and> wf_hdr h) \<and> layout_ok b"
proof -
  have "scanned_ok d b"
    using assms(1,2) okRD [OF boot_scan_inv [OF img_inv_new]]
    by (simp add: open_boot_def unwrapped_def new_boot_img_def)
  then show ?thesis
    using assms(3) by (auto simp: scanned_ok_def parsed_inv_def img_inv_def)
qed

theorem opened_image_layout_witness:
  "layout_ok sample_boot \<and> map_mem sample_boot = mapped sample_img"
proof -
  have "mmap_data sample_world ''boot.img'' = Some sample_img"
    by (simp add: mmap_data_def read_file_def sample_world_def) (auto dest: arg_cong [of _ _ length])
  from opened_image_layout [OF sample_open this] show ?thesis by simp
qed

text \<open>
  C33: when \<open>get_block\<close> accepts the nine blocks for a header with a positive \<open>int\<close> page size, each
  block ends before the next begins, all lie between the image and the end of the mapping, all
  but the first start at a multiple of the page size, and the offset it leaves is behind the
  last of them.
\<close>

theorem accepted_blocks_in_mapping:
  assumes "get_blocks block_list map_end addr h off b = Inr (Some off', b')" "sane_page h"
    "unat off < 2 ^ 62" "0 \<le> addr" "map_end < 2 ^ 62"
  shows "blocks_ok h addr map_end (img_blocks b') \<and>
    (\<forall>(p, fl) \<in> set (img_blocks b'). p + int (unat (hdr_get fl h)) \<le> addr + int (unat off')) \<and>
    addr + int (unat off') \<le> map_end"
  using get_blocks_ok [OF assms] by blast

theorem accepted_blocks_in_mapping_witness:
  "blocks_ok sample_hdr 0 8192 [(4096, Kernel_size), (4096, Ramdisk_size), (8192, Second_size),
     (8192, Extra_size), (8192, Recovery_dtbo_size), (8192, Dtb_size), (8192, Signature_size),
     (8192, Vendor_ramdisk_table_size), (8192, Bootconfig_size)]"
  using accepted_blocks_in_mapping [OF sample_blocks]
  by (simp add: sane_page_def sample_fields img_blocks_def sample_boot_def)

text \<open>
  A header of any version with a page size of 0 makes the parser divide by zero, before it
  looks at a block.
\<close>

theorem zero_page_size_divides_by_zero:
  assumes "parse_hdr addr ty b = Inr (b1, addr1)" "hdr b1 = Some h" "hdr_get Page_size h = 0"
    "print_hdr h = Inr out"
  shows "parse_image addr ty b = Inl DivByZero"
proof -
  have al: "align_to_size v 0 = Inl DivByZero" for v
    by (simp add: align_to_size_def)
  have bl: "get_blocks block_list e a h off b' = Inl DivByZero" for e a off b'
    by (simp add: block_list_def next_off_def assms(3) al)
  show ?thesis
    using assms by (auto simp: parse_image_def Let_def hdr_space_def al bl bindR_def
        align_to_size_def getpagesize_def)
qed

definition zero_page_raw :: bytes where
  "zero_page_raw = VENDOR_BOOT_MAGIC @ le32_bytes 3 @ replicate 2100 0"

lemma zero_page_parse:
  "parse_hdr 0 AOSP_VENDOR (new_boot_img zero_page_raw) =
     Inr ((new_boot_img zero_page_raw)\<lparr>hdr := Some \<lparr>ver = VND_V3, raw = zero_page_raw\<rparr>\<rparr>, 0)"
proof -
  have len: "length zero_page_raw = 2112" by (simp add: zero_page_raw_def VENDOR_BOOT_MAGIC_def)
  have m: "map_mem (new_boot_img zero_page_raw) = zero_page_raw @ replicate 1984 0"
    by (simp add: new_boot_img_def mapped_def getpagesize_def len)
  have "view 8 4 (zero_page_raw @ replicate 1984 0) = le32_bytes 3"
    by (simp add: zero_page_raw_def VENDOR_BOOT_MAGIC_def view_skip view_4_word)
  then have "rd32 (zero_page_raw @ replicate 1984 0) 8 = Inr 3"
    by (simp add: rd32_def rdp_def mem_at_def rd_def len view_def)
  then show ?thesis
    by (simp add: parse_hdr_def m new_hdr_def mem_at_def rd_def len view_def)
qed

theorem zero_page_size_divides_by_zero_witness:
  "parse_image 0 AOSP_VENDOR (new_boot_img zero_page_raw) = Inl DivByZero"
proof (rule zero_page_size_divides_by_zero [OF zero_page_parse])
  let ?h = "\<lparr>ver = VND_V3, raw = zero_page_raw\<rparr>"
  have "drop 2080 zero_page_raw = replicate 32 0" by (simp add: zero_page_raw_def VENDOR_BOOT_MAGIC_def)
  moreover have "length zero_page_raw = 2112" by (simp add: zero_page_raw_def VENDOR_BOOT_MAGIC_def)
  ultimately have "c_str_at zero_page_raw 2080 = Inr []"
    by (simp add: c_str_at_def c_str_def)
  then show "print_hdr ?h = Inr (projr (print_hdr ?h))"
    by (simp add: print_hdr_def str_defs)
  have "view 12 4 zero_page_raw = replicate 4 0"
    by (simp add: zero_page_raw_def VENDOR_BOOT_MAGIC_def view_skip view_replicate)
  then show "hdr_get Page_size ?h = 0"
    by (simp add: hdr_get_def off_defs le32_zeros)
qed simp

section \<open>Headers\<close>

lemma length_BOOT_MAGIC [simp]: "length BOOT_MAGIC = 8"
  by (simp add: BOOT_MAGIC_def)

text \<open>
  C34: behind an AMONET microloader the header object is filled with \<open>page_size - 1024\<close> bytes, in
  32-bit arithmetic, whatever the version's size is: a page size that leaves more than the largest
  header of 1660 bytes, which is one above 2684 such as 4096 or one below 1024, overflows the
  allocation.
\<close>

theorem amonet_header_overflows:
  assumes "ty \<noteq> AOSP_VENDOR" "rd32 (map_mem b) (addr + 36) = Inr outer" "outer < 0x02000000"
    "amonet (map_mem b) addr = Inr True" "rd32 (map_mem b) (addr + 1024 + 36) = Inr page"
    "rd32 (map_mem b) (addr + 1024 + 40) = Inr version" "1660 < unat (page - 1024)"
  shows "parse_hdr addr ty b = Inl HeapOverflow"
proof -
  let ?v = "if version = 1 then V1 else if version = 2 then V2 else if version = 3 then V3
    else if version = 4 then V4 else V0"
  have magic: "rdp (map_mem b) (addr + 1024) 8 = Inr BOOT_MAGIC"
    using assms(4) by (auto simp: amonet_def buffer_match_def AMONET_MICROLOADER_SZ_def split: if_splits)
  have size: "hdr_size_of ?v < unat (page - 1024)" using assms(7) by simp
  then have "new_hdr ?v p (int (unat (page - 1024))) = Inl HeapOverflow" for p
    by (simp only: new_hdr_def Let_def nat_int) simp
  then have "make_aosp_hdr (map_mem b) (addr + 1024) (int (unat (page - 1024))) = Inl HeapOverflow"
    using assms(6) magic by (simp add: make_aosp_hdr_def add.assoc)
  moreover have "(0x02000000 \<le> outer) = False" using assms(3) by (simp add: leD)
  ultimately show ?thesis
    using assms(1,2,4,5) unfolding parse_hdr_def Let_def
    by (simp add: AMONET_MICROLOADER_SZ_def)
qed

definition amonet_img :: bytes where
  "amonet_img = AMONET_MICROLOADER_MAGIC @ replicate 1013 0 @ BOOT_MAGIC @ replicate 28 0 @
     le32_bytes 4096 @ replicate 3032 0"

theorem amonet_header_overflows_witness:
  "parse_hdr 0 AOSP (new_boot_img amonet_img) = Inl HeapOverflow"
proof (rule amonet_header_overflows)
  have len: "length amonet_img = 4096"
    by (simp add: amonet_img_def AMONET_MICROLOADER_MAGIC_def)
  have m: "map_mem (new_boot_img amonet_img) = amonet_img"
    by (simp add: new_boot_img_def mapped_def getpagesize_def len)
  have words: "view 36 4 amonet_img = replicate 4 0" "view 1024 8 amonet_img = BOOT_MAGIC"
    "view 1060 4 amonet_img = le32_bytes 4096" "view 1064 4 amonet_img = replicate 4 0"
    by (simp_all add: amonet_img_def AMONET_MICROLOADER_MAGIC_def view_skip view_4_word
        view_replicate view_append_first) (simp_all add: view_def)
  have rd': "rdp amonet_img p n = Inr (view (nat p) n amonet_img)"
    if "0 \<le> p" "nat p + n \<le> 4096" for p n
    using that by (simp add: rdp_def mem_at_def rd_def len view_def)
  show "rd32 (map_mem (new_boot_img amonet_img)) (0 + 36) = Inr 0"
    "rd32 (map_mem (new_boot_img amonet_img)) (0 + 1024 + 36) = Inr 4096"
    "rd32 (map_mem (new_boot_img amonet_img)) (0 + 1024 + 40) = Inr 0"
    by (simp_all add: m rd32_def rd' words le32_zeros)
  have "memmem (mem_at amonet_img 0) AMONET_MICROLOADER_MAGIC 0 1024 = Inr (Some 0)"
    by (simp add: memmem.simps mem_at_def amonet_img_def AMONET_MICROLOADER_MAGIC_def rd_def view_def
        match_at_def)
  then show "amonet (map_mem (new_boot_img amonet_img)) 0 = Inr True"
    by (simp add: m amonet_def buffer_contain_def buffer_match_def AMONET_MICROLOADER_SZ_def rd' words)
qed simp_all

section \<open>Kernel and tail\<close>

text \<open>
  C35: when \<open>parse_image\<close> splits a device tree off the kernel, nothing is lost: the new kernel
  starts where the block did, the device tree starts where the kernel now ends, with its magic,
  and the two sizes add up to the block's. Without a device tree nothing changes.
\<close>

theorem kernel_dtb_partitions_block:
  assumes "split_kernel_dtb b = Inr b'" "hdr b = Some h" "wf_hdr h" "unat (hdr_get Kernel_size h) < 2 ^ 31"
    "has_field h Kernel_size"
  shows "b' = b \<or>
    (\<exists>h' n. hdr b' = Some h' \<and> n = unat (hdr_get Kernel_size h') \<and> kernel b' = kernel b \<and> 0 < n \<and>
       kernel_dtb b' = (kernel b + int n, unat (hdr_get Kernel_size h) - n) \<and>
       n + 4 \<le> unat (hdr_get Kernel_size h) \<and>
       match_at (mem_at (map_mem b) (kernel b)) n DTB_MAGIC)"
proof -
  let ?m = "mem_at (map_mem b) (kernel b)" and ?s = "hdr_get Kernel_size h"
  obtain r where r: "find_dtb_offset ?m (unat ?s) = Inr r"
    "b' = (if 0 < r then set_hdr_field Kernel_size (word_of_int r)
        (b\<lparr>kernel_dtb := (kernel b + r, unat (?s - word_of_int r))\<rparr>) else b)"
    using assms(1,2) by (auto simp: split_kernel_dtb_def with_hdr_def the_hdr_def Let_def)
  show ?thesis
  proof (cases "0 < r")
    case True
    obtain c where c: "dtb_loop ?m (unat ?s) 0 = Inr (Some c)" "r = sint (of_nat c :: u32)"
      using r(1) True by (auto simp: find_dtb_offset_def split: option.splits)
    note found = dtb_loop_Some [OF c(1)]
    have rc: "r = int c"
      using found assms(4) by (simp add: c(2) signed_of_nat signed_take_bit_int_eq_self)
    have cs: "c < 2 ^ 31" "c + 4 \<le> unat ?s" using found assms(4) by auto
    have c32: "unat (of_nat c :: u32) = c" using cs(1) by (simp add: unsigned_of_nat take_bit_nat_eq_self)
    have "(of_nat c :: u32) \<le> ?s" using c32 cs(2) by (simp add: word_le_nat_alt)
    then have sub: "unat (?s - of_nat c) = unat ?s - c" by (simp add: unat_sub c32)
    have w: "(word_of_int r :: u32) = of_nat c" by (simp add: rc)
    have "hdr b' = Some (hdr_set Kernel_size (of_nat c) h)" "kernel b' = kernel b"
      "kernel_dtb b' = (kernel b + int c, unat ?s - c)"
      using True by (simp_all only: r(2) w) (simp_all add: set_hdr_field_def assms(2) sub rc)
    moreover have "unat (hdr_get Kernel_size (hdr_set Kernel_size (of_nat c) h)) = c"
      using hdr_get_set_same [OF assms(3,5)] by (simp add: c32)
    ultimately show ?thesis using cs(2) found True rc by auto
  qed (simp add: r(2))
qed

definition dtb_boot :: boot_img where
  "dtb_boot = (new_boot_img [])\<lparr>map_mem := [1, 1, 1, 1] @ DTB_MAGIC @ le32_bytes 80 @ le32_bytes 40 @
       replicate 28 0 @ le32_bytes 1 @ replicate 36 0,
     hdr := Some \<lparr>ver = V0, raw = replicate 8 0 @ le32_bytes 84 @ replicate 1620 0\<rparr>\<rparr>"

lemma dtb_boot_offset: "find_dtb_offset (mem_at (map_mem dtb_boot) (kernel dtb_boot)) 84 = Inr 4"
  by (simp add: find_dtb_offset_def dtb_loop.simps memmem.simps dtb_accept_def dtb_boot_def
      new_boot_img_def mem_at_def DTB_MAGIC_def view_def le32_bytes_def fdt32_def)

theorem kernel_dtb_partitions_block_witness:
  "\<exists>b' n. split_kernel_dtb dtb_boot = Inr b' \<and> 0 < n \<and> kernel_dtb b' = (int n, 84 - n) \<and>
     match_at (map_mem dtb_boot) n DTB_MAGIC"
proof -
  let ?h = "\<lparr>ver = V0, raw = replicate 8 0 @ le32_bytes 84 @ replicate 1620 0\<rparr>"
  have h: "hdr dtb_boot = Some ?h" "hdr_get Kernel_size ?h = 84" "wf_hdr ?h" "has_field ?h Kernel_size"
    by (simp_all add: dtb_boot_def hdr_get_def off_defs view_def wf_hdr_def hdr_size_def has_field_def)
  obtain b' where b': "split_kernel_dtb dtb_boot = Inr b'" "snd (kernel_dtb b') = 80"
    using dtb_boot_offset h by (simp add: split_kernel_dtb_def with_hdr_def the_hdr_def)
      (simp add: set_hdr_field_def)
  have "snd (kernel_dtb dtb_boot) = 0" "kernel dtb_boot = 0" "mem_at m 0 = m" for m
    by (simp_all add: dtb_boot_def new_boot_img_def mem_at_def)
  with kernel_dtb_partitions_block [OF b'(1) h(1) h(3) _ h(4)] b' h(2) show ?thesis by auto
qed

lemma find_piggy_Some:
  "find_piggy m kern ksize i = Inr (Some j) \<Longrightarrow> i \<le> j \<and> j < unat ksize"
proof (induction m kern ksize i rule: find_piggy.induct)
  case (1 m kern ksize i)
  show ?case
  proof (cases "i < unat ksize")
    case True
    with "1.prems" obtain f where f: "check_fmt_lg_at m (kern + int i) (ksize - of_nat i) = Inr f"
      "(if f \<noteq> UNKNOWN then Inr (Some i) else find_piggy m kern ksize (Suc i)) = Inr (Some j)"
      by (subst (asm) find_piggy.simps) (auto simp del: unat_of_nat)
    show ?thesis
    proof (cases "f = UNKNOWN")
      case unknown: True
      with f "1.IH" [OF True f(1)] show ?thesis by simp
    next
      case False
      with f True show ?thesis by simp
    qed
  next
    case False
    with "1.prems" show ?thesis by (subst (asm) find_piggy.simps) simp
  qed
qed

text \<open>
  What \<open>parse_zimage\<close> does when it finds the end of the compressed kernel, with \<open>n\<close> the offset of the
  compressed data and \<open>e\<close> its end: both are offsets into the kernel block, but only the first is
  compared with the block's size.
\<close>

lemma parse_zimage_found:
  assumes "parse_zimage b = Inr b'" "flags b' ZIMAGE_KERNEL" "\<not> flags b ZIMAGE_KERNEL"
    "hdr b = Some h" "wf_hdr h" "has_field h Kernel_size"
  obtains h' n e where "hdr b' = Some h'" "z_hdr b' = Some (kernel b)" "0x28 \<le> n" "n < unat (hdr_get Kernel_size h)"
    "z_hdr_sz b' = of_nat n" "kernel b' = kernel b + int n" "hdr_get Kernel_size h' = e - of_nat n"
    "z_tail b' = (kernel b + int (unat e), unat (hdr_get Kernel_size h - e))"
proof -
  let ?s = "hdr_get Kernel_size h"
  obtain i e where p: "find_piggy (map_mem b) (kernel b) ?s 0x28 = Inr (Some i)"
    and b': "hdr b' = Some (hdr_set Kernel_size (e - of_nat i) h)" "z_hdr b' = Some (kernel b)"
      "kernel b' = kernel b + int i" "z_hdr_sz b' = of_nat i"
      "z_tail b' = (kernel b + int (unat e), unat (?s - e))"
    using assms(1-4)
    by (auto simp: parse_zimage_def with_hdr_def the_hdr_def Let_def set_hdr_field_def set_flag_def
        split: option.splits if_splits)
  have "hdr_get Kernel_size (hdr_set Kernel_size (e - of_nat i) h) = e - of_nat i"
    by (rule hdr_get_set_same [OF assms(5,6)])
  then show ?thesis using that b' find_piggy_Some [OF p] by simp
qed

lemma unat_sub_wraps:
  "unat (a - b :: u32) = (if unat b \<le> unat a then unat a - unat b else 2 ^ 32 + unat a - unat b)"
  by (auto simp: unat_sub_if' not_le)

text \<open>
  C36: when the kernel is a zImage whose body is found at offset \<open>n\<close> with end \<open>e\<close>, the zImage header
  keeps the start of the block, the new kernel starts at \<open>n\<close>, which lies inside the block, and the tail
  starts at \<open>e\<close>. If \<open>e\<close> lies between \<open>n\<close> and the block's end, header, kernel and tail are exactly the
  three parts of the block, without gap or overlap. Nothing in the code makes sure that it does: an
  \<open>e\<close> before \<open>n\<close> gives a kernel, and an \<open>e\<close> behind the block a tail of the difference modulo \<open>2 ^ 32\<close>.
\<close>

theorem zimage_parts_tile_block:
  assumes "parse_zimage b = Inr b'" "flags b' ZIMAGE_KERNEL" "\<not> flags b ZIMAGE_KERNEL"
    "hdr b = Some h" "wf_hdr h" "has_field h Kernel_size"
  shows "\<exists>h' n e k. hdr b' = Some h' \<and> n = unat (z_hdr_sz b') \<and> k = unat (hdr_get Kernel_size h) \<and>
    z_hdr b' = Some (kernel b) \<and> 0x28 \<le> n \<and> n < k \<and> kernel b' = kernel b + int n \<and>
    fst (z_tail b') = kernel b + int e \<and>
    (n \<le> e \<and> e \<le> k \<longrightarrow> unat (hdr_get Kernel_size h') = e - n \<and> snd (z_tail b') = k - e) \<and>
    (e < n \<longrightarrow> unat (hdr_get Kernel_size h') = 2 ^ 32 + e - n) \<and>
    (k < e \<longrightarrow> snd (z_tail b') = 2 ^ 32 + k - e)"
proof -
  from parse_zimage_found [OF assms] obtain h' n e where f: "hdr b' = Some h'" "z_hdr b' = Some (kernel b)"
    "0x28 \<le> n" "n < unat (hdr_get Kernel_size h)" "z_hdr_sz b' = of_nat n" "kernel b' = kernel b + int n"
    "hdr_get Kernel_size h' = e - of_nat n" "z_tail b' = (kernel b + int (unat e), unat (hdr_get Kernel_size h - e))" .
  have "unat (hdr_get Kernel_size h) < 2 ^ 32" using unsigned_less [of "hdr_get Kernel_size h"] by simp
  with f(4) have "n < 2 ^ 32" by simp
  then have n: "unat (of_nat n :: u32) = n" by (simp add: unsigned_of_nat take_bit_nat_eq_self)
  show ?thesis
    using f n by (intro exI [of _ h'] exI [of _ n] exI [of _ "unat e"] exI [of _ "unat (hdr_get Kernel_size h)"])
      (simp add: unat_sub_wraps)
qed

definition zimage_mem :: bytes where
  "zimage_mem = replicate 40 0 @ le32_bytes 0x8b1f @ le32_bytes (0x8b1f + 512) @ replicate 460 0 @
     le32_bytes 500 @ replicate 16 0"

lemma zimage_mem_reads:
  "length zimage_mem = 528" "view 40 4 zimage_mem = le32_bytes 0x8b1f"
  "view 44 4 zimage_mem = le32_bytes (0x8b1f + 512)"
  "view 448 64 zimage_mem = replicate 60 0 @ le32_bytes 500"
  "take 40 (drop 40 zimage_mem) = le32_bytes 0x8b1f @ le32_bytes (0x8b1f + 512) @ replicate 32 0"
  by (simp_all add: zimage_mem_def view_def)

lemma zimage_gzip: "40 \<le> n \<Longrightarrow> n \<le> 488 \<Longrightarrow> check_fmt_lg_mem (mem_at zimage_mem 40) n = Inr GZIP"
proof -
  assume n: "40 \<le> n" "n \<le> 488"
  have "check_fmt (le32_bytes 0x8b1f @ le32_bytes (0x8b1f + 512) @ replicate 32 0) = GZIP"
    by (simp add: check_fmt_def checked_match_def match_at_def magic_defs guess_lzma_def view_def
        le32_bytes_def str_def byte_of_char_def)
  moreover have "rd (mem_at zimage_mem 40) 0 40 = Inr (take 40 (drop 40 zimage_mem))"
    using zimage_mem_reads(1) by (simp add: mem_at_def rd_def view_def)
  ultimately show ?thesis
    using n zimage_mem_reads(5) by (simp add: check_fmt_lg_mem_def check_fmt_mem_def min_absorb2)
qed

lemma zimage_words: "piggy_end_of 512 (words32 16 (replicate 60 0 @ le32_bytes 500)) = 500"
proof -
  have "[0..<16] = [0..<15] @ [15 :: nat]" by (simp add: upt_rec)
  then have "words32 16 (replicate 60 0 @ le32_bytes 500) = words32 15 (replicate 60 0 @ le32_bytes 500) @ [500]"
    by (simp add: words32_def view_def)
  then show ?thesis by (simp add: piggy_end_of_def)
qed

definition zimage_hdr :: "u32 \<Rightarrow> dyn_img_hdr" where
  "zimage_hdr n = \<lparr>ver = V0, raw = replicate 8 0 @ le32_bytes n @ replicate 1620 0\<rparr>"

definition zimage_boot :: "u32 \<Rightarrow> boot_img" where
  "zimage_boot n = (new_boot_img [])\<lparr>map_mem := zimage_mem, hdr := Some (zimage_hdr n)\<rparr>"

lemma zimage_boot_simps:
  "hdr (zimage_boot n) = Some (zimage_hdr n)" "hdr_get Kernel_size (zimage_hdr n) = n" "wf_hdr (zimage_hdr n)"
  "has_field (zimage_hdr n) Kernel_size" "kernel (zimage_boot n) = 0" "map_mem (zimage_boot n) = zimage_mem"
  "\<not> flags (zimage_boot n) ZIMAGE_KERNEL"
  by (simp_all add: zimage_boot_def zimage_hdr_def new_boot_img_def hdr_get_def off_defs view_def wf_hdr_def
      hdr_size_def has_field_def)

lemma zimage_run:
  assumes "40 \<le> unat (n - 40)" "unat (n - 40) \<le> 488" "40 < unat n"
  shows "\<exists>b'. parse_zimage (zimage_boot n) = Inr b' \<and> flags b' ZIMAGE_KERNEL \<and> z_hdr_sz b' = 40 \<and>
    z_tail b' = (500, unat (n - 500))"
proof -
  have r: "rdp zimage_mem p k = Inr (view (nat p) k zimage_mem)" if "0 \<le> p" "nat p + k \<le> 528" for p k
    using that zimage_mem_reads(1) by (simp add: rdp_def mem_at_def rd_def view_def)
  have f: "check_fmt_lg_at zimage_mem 40 460 = Inr GZIP" using zimage_gzip [of 460] by (simp add: check_fmt_lg_at_def)
  have piggy: "find_piggy zimage_mem 0 n 40 = Inr (Some 40)"
    using zimage_gzip [OF assms(1,2)] assms(3) by (subst find_piggy.simps) (simp add: check_fmt_lg_at_def)
  show ?thesis
    using zimage_boot_simps [of n] f
    by (simp add: parse_zimage_def with_hdr_def the_hdr_def piggy rd32_def r
        zimage_mem_reads zimage_words zimage_start_off_def zimage_end_off_def)
      (simp add: set_hdr_field_def set_flag_def)
qed

theorem zimage_parts_tile_block_witness:
  "\<exists>b' h'. parse_zimage (zimage_boot 528) = Inr b' \<and> z_hdr b' = Some 0 \<and> kernel b' = 40 \<and> hdr b' = Some h' \<and>
     unat (hdr_get Kernel_size h') = 460 \<and> z_tail b' = (500, 28)"
proof -
  obtain b' where b': "parse_zimage (zimage_boot 528) = Inr b'" "flags b' ZIMAGE_KERNEL" "z_hdr_sz b' = 40"
    "z_tail b' = (500, 28)"
    using zimage_run [of 528] by auto
  have "unat (528 :: u32) = 528" "unat (40 :: u32) = 40" by simp_all
  with zimage_parts_tile_block [OF b'(1,2) zimage_boot_simps(7,1,3,4)] b' show ?thesis
    unfolding zimage_boot_simps(2,5) by auto
qed

text \<open>The same zImage in a kernel block of 100 bytes: its tail starts behind the block and is almost 4 GiB long.\<close>

theorem zimage_end_unchecked:
  "\<exists>b'. parse_zimage (zimage_boot 100) = Inr b' \<and> z_tail b' = (500, 2 ^ 32 - 400)"
  using zimage_run [of 100] by auto

text \<open>
  C28: an AVB footer whose \<open>vbmeta\<close> offset leads to a place before the mapping or to one whose magic does
  not lie inside it makes the parser read there: the offset of an untrusted file is not checked. (The
  footer is the last 64 bytes of the mapping and carries its magic; the offset is read big-endian.)
\<close>

theorem vbmeta_offset_unchecked:
  assumes "snd (tail b) \<noteq> 0" "tail_flags b = Inr b1"
    "buffer_match (map_mem b) (fst (tail b) + int (snd (tail b)) - 64) AVB_FOOTER_MAGIC = Inr True"
    "rdp (map_mem b) (fst (tail b) + int (snd (tail b)) - 64 + 20) 8 = Inr v"
    "payload b + sint (bswap64 (le64 v)) < 0 \<or>
     int (length (map_mem b)) < payload b + sint (bswap64 (le64 v)) + 4"
  shows "parse_tail b = Inl OutOfBounds"
proof -
  have "okR (\<lambda>b1. map_mem b1 = map_mem b \<and> tail b1 = tail b \<and> payload b1 = payload b) (tail_flags b)"
    unfolding tail_flags_def Let_def by (intro okR_intros) (simp_all add: set_flag_def)
  then have same: "map_mem b1 = map_mem b" "tail b1 = tail b" "payload b1 = payload b"
    using assms(2) by (simp_all add: okR_def)
  have len: "length AVB_MAGIC = 4" by (simp add: AVB_MAGIC_def)
  have "buffer_match (map_mem b) (payload b + sint (bswap64 (le64 v))) AVB_MAGIC = Inl OutOfBounds"
    using assms(5) by (auto simp: buffer_match_def rdp_def len mem_at_def rd_def)
  then show ?thesis
    using assms(1,3,4)
    by (simp add: parse_tail_def assms(2) find_footer_def same avb_footer_size_def
        avb_vbmeta_offset_off_def Let_def)
qed

definition footer_mem :: bytes where
  "footer_mem = replicate 4032 0 @ AVB_FOOTER_MAGIC @ replicate 16 0 @ replicate 8 0x7f @ replicate 36 0"

definition footer_boot :: boot_img where
  "footer_boot = (new_boot_img footer_mem)\<lparr>tail := (4032, 64)\<rparr>"

theorem vbmeta_offset_unchecked_witness: "parse_tail footer_boot = Inl OutOfBounds"
proof (rule vbmeta_offset_unchecked)
  have len: "length footer_mem = 4096" by (simp add: footer_mem_def AVB_FOOTER_MAGIC_def)
  have b: "map_mem footer_boot = footer_mem" "tail footer_boot = (4032, 64)" "payload footer_boot = 0"
    by (simp_all add: footer_boot_def new_boot_img_def mapped_def getpagesize_def len)
  have r: "rdp footer_mem p n = Inr (view (nat p) n footer_mem)" if "0 \<le> p" "nat p + n \<le> 4096" for p n
    using that by (simp add: rdp_def mem_at_def rd_def len view_def)
  have words: "view 4032 4 footer_mem = AVB_FOOTER_MAGIC" "view 4052 8 footer_mem = replicate 8 0x7f"
    "view 4032 16 footer_mem = AVB_FOOTER_MAGIC @ replicate 12 0"
    by (simp_all add: footer_mem_def AVB_FOOTER_MAGIC_def view_skip view_replicate)
      (simp_all add: view_def AVB_FOOTER_MAGIC_def)
  have len_avb: "length AVB_FOOTER_MAGIC = 4" by (simp add: AVB_FOOTER_MAGIC_def)
  show "snd (tail footer_boot) \<noteq> 0" by (simp add: b)
  have "length SEANDROID_MAGIC = 16" "length LG_BUMP_MAGIC = 16"
    "AVB_FOOTER_MAGIC @ replicate 12 0 \<noteq> SEANDROID_MAGIC" "AVB_FOOTER_MAGIC @ replicate 12 0 \<noteq> LG_BUMP_MAGIC"
    by (simp_all add: SEANDROID_MAGIC_def LG_BUMP_MAGIC_def AVB_FOOTER_MAGIC_def str_def byte_of_char_def)
  then show "tail_flags footer_boot = Inr footer_boot"
    by (simp add: tail_flags_def b buffer_match_def r words verify_def)
  show "buffer_match (map_mem footer_boot) (fst (tail footer_boot) + int (snd (tail footer_boot)) - 64)
      AVB_FOOTER_MAGIC = Inr True"
    using words len_avb by (simp add: b buffer_match_def r)
  show "rdp (map_mem footer_boot) (fst (tail footer_boot) + int (snd (tail footer_boot)) - 64 + 20) 8 =
      Inr (replicate 8 0x7f)"
    by (simp add: b r words)
  have "sint (bswap64 (le64 (replicate 8 0x7f))) = 0x7f7f7f7f7f7f7f7f"
  proof -
    have eight: "replicate 8 0x7f = [0x7f, 0x7f, 0x7f, 0x7f, 0x7f, 0x7f, 0x7f, 0x7f :: byte]"
      by (simp add: numeral_eq_Suc)
    show ?thesis by (simp add: eight bswap64_def le64_bytes_def le64_def le32_bytes_def le32_def)
  qed
  then show "payload footer_boot + sint (bswap64 (le64 (replicate 8 0x7f))) < 0 \<or>
     int (length (map_mem footer_boot)) < payload footer_boot + sint (bswap64 (le64 (replicate 8 0x7f))) + 4"
    by (simp add: b len)
qed

end
