(* ===== verification/Unpack.thy ===== *)
theory Unpack
  imports BootParse Crypto
begin

text \<open>
  \<open>unpack\<close> and \<open>split_image_dtb\<close> of \<open>bootimg.cpp\<close>: the blocks of a parsed image written to
  files of the working directory, decompressed on the way unless asked not to. The library
  functions are the record \<open>libs\<close>; a buffer that leaves the mapping is an error when it is
  handed to a write or a decompressor.
\<close>

section \<open>Files\<close>

definition KERNEL_FILE :: string where "KERNEL_FILE = ''kernel''"
definition RAMDISK_FILE :: string where "RAMDISK_FILE = ''ramdisk.cpio''"
definition VND_RAMDISK_DIR :: string where "VND_RAMDISK_DIR = ''vendor_ramdisk''"
definition SECOND_FILE :: string where "SECOND_FILE = ''second''"
definition EXTRA_FILE :: string where "EXTRA_FILE = ''extra''"
definition KER_DTB_FILE :: string where "KER_DTB_FILE = ''kernel_dtb''"
definition RECV_DTBO_FILE :: string where "RECV_DTBO_FILE = ''recovery_dtbo''"
definition DTB_FILE :: string where "DTB_FILE = ''dtb''"
definition BOOTCONFIG_FILE :: string where "BOOTCONFIG_FILE = ''bootconfig''"
definition NEW_BOOT :: string where "NEW_BOOT = ''new-boot.img''"

definition RETURN_OK :: int where "RETURN_OK = 0"
definition RETURN_ERROR :: int where "RETURN_ERROR = 1"
definition RETURN_CHROMEOS :: int where "RETURN_CHROMEOS = 2"
definition RETURN_VENDOR :: int where "RETURN_VENDOR = 3"

type_synonym 'a run = "'a result \<times> world"

text \<open>\<open>dump\<close>: nothing for an empty buffer, otherwise one \<open>write\<close> to a fresh file.\<close>

definition dump_to :: "bytes \<Rightarrow> ptr \<Rightarrow> nat \<Rightarrow> string \<Rightarrow> world \<Rightarrow> unit run" where
  "dump_to m p n name w =
     (if n = 0 then (Inr (), w)
      else let f = fd_opened w name
           in case rdp m p n of
                Inl e \<Rightarrow> (Inl e, fd_close w name f)
              | Inr bs \<Rightarrow> (Inr (), fd_close w name (snd (xwrite bs f))))"

text \<open>\<open>creat\<close>, \<open>decompress\<close> and \<open>close\<close>; an exception leaves what has been written.\<close>

definition decompress_to ::
    "('z, 'd) libs \<Rightarrow> FileFormat \<Rightarrow> bytes \<Rightarrow> ptr \<Rightarrow> nat \<Rightarrow> string \<Rightarrow> world \<Rightarrow> unit run" where
  "decompress_to L fmt m p n name w =
     (let f = fd_opened w name
      in case rdp m p n of
           Inl e \<Rightarrow> (Inl e, fd_close w name f)
         | Inr bs \<Rightarrow> (case decompress_bytes L fmt bs f of (r, f') \<Rightarrow> (r, fd_close w name f')))"

text \<open>A block with a format: decompressed when that is wanted and it is compressed, else dumped.\<close>

definition extract_block ::
    "('z, 'd) libs \<Rightarrow> bool \<Rightarrow> FileFormat \<Rightarrow> bytes \<Rightarrow> ptr \<Rightarrow> u32 \<Rightarrow> string \<Rightarrow> world \<Rightarrow> unit run" where
  "extract_block L skip_decomp fmt m p sz name w =
     (if \<not> skip_decomp \<and> fmt_compressed fmt
      then (if sz \<noteq> 0 then decompress_to L fmt m p (unat sz) name w else (Inr (), w))
      else dump_to m p (unat sz) name w)"

section \<open>Vendor ramdisks\<close>

text \<open>
  \<open>openat\<close>: a path that starts with a slash does not depend on the directory; otherwise the
  directory has to be open.
\<close>

definition at_path :: "string \<Rightarrow> string \<Rightarrow> string" where
  "at_path dir name = (if take 1 name = ''/'' then name else dir @ ''/'' @ name)"

definition fd_openat :: "bool \<Rightarrow> string \<Rightarrow> string \<Rightarrow> world \<Rightarrow> ofd" where
  "fd_openat dir_ok dir name w =
     (if dir_ok \<or> take 1 name = ''/'' then fd_opened w (at_path dir name)
      else \<lparr>fd_data = [], fd_pos = 0, fd_answers = answers w, fd_bad = True\<rparr>)"

text \<open>The file name of an entry: its name member, as it is, with the extension.\<close>

definition ramdisk_file_name :: "nat \<Rightarrow> table_entry \<Rightarrow> string" where
  "ramdisk_file_name n e =
     (if e_name e ! 0 = 0 then strscpy RAMDISK_FILE n
      else ssprintf (chars (c_str (e_name e)) @ ''.cpio'') n)"

definition unpack_entry ::
    "('z, 'd) libs \<Rightarrow> bool \<Rightarrow> bool \<Rightarrow> boot_img \<Rightarrow> ptr \<Rightarrow> world \<Rightarrow> unit run" where
  "unpack_entry L skip_decomp dir_ok b p w =
     thenS (liftS (rd_entry (map_mem b) p) w) (\<lambda>e w.
       let name = ramdisk_file_name 40 e;
           f = fd_openat dir_ok VND_RAMDISK_DIR name w;
           path = at_path VND_RAMDISK_DIR name;
           q = ramdisk b + int (unat (e_offset e))
       in case bindR (check_fmt_lg_at (map_mem b) q (e_size e)) (\<lambda>fmt.
                 bindR (rdp (map_mem b) q (unat (e_size e))) (\<lambda>bs. Inr (fmt, bs))) of
            Inl err \<Rightarrow> (Inl err, fd_close w path f)
          | Inr (fmt, bs) \<Rightarrow>
              if \<not> skip_decomp \<and> fmt_compressed fmt
              then (case decompress_bytes L fmt bs f of (r, f') \<Rightarrow> (r, fd_close w path f'))
              else (Inr (), fd_close w path (snd (xwrite bs f))))"

fun unpack_entries ::
    "('z, 'd) libs \<Rightarrow> bool \<Rightarrow> bool \<Rightarrow> boot_img \<Rightarrow> ptr list \<Rightarrow> world \<Rightarrow> unit run" where
  "unpack_entries L skip_decomp dir_ok b [] w = (Inr (), w)"
| "unpack_entries L skip_decomp dir_ok b (p # ps) w =
     thenS (unpack_entry L skip_decomp dir_ok b p w) (\<lambda>_ w.
       unpack_entries L skip_decomp dir_ok b ps w)"

definition unpack_ramdisk ::
    "('z, 'd) libs \<Rightarrow> bool \<Rightarrow> boot_img \<Rightarrow> dyn_img_hdr \<Rightarrow> world \<Rightarrow> unit run" where
  "unpack_ramdisk L skip_decomp b h w =
     (if hdr_get Vendor_ramdisk_table_size h \<noteq> 0 then
        let w = xmkdir w VND_RAMDISK_DIR; dir_ok = dir_opens w VND_RAMDISK_DIR
        in thenS (liftS (vendor_ramdisk_tbl b) w) (\<lambda>ps w. unpack_entries L skip_decomp dir_ok b ps w)
      else extract_block L skip_decomp (r_fmt b) (map_mem b) (ramdisk b) (hdr_get Ramdisk_size h)
             RAMDISK_FILE w)"

section \<open>unpack\<close>

definition dump_field ::
    "boot_img \<Rightarrow> dyn_img_hdr \<Rightarrow> ptr \<Rightarrow> field \<Rightarrow> string \<Rightarrow> world \<Rightarrow> unit run" where
  "dump_field b h p fl name w = dump_to (map_mem b) p (unat (hdr_get fl h)) name w"

definition unpack_return :: "boot_img \<Rightarrow> dyn_img_hdr \<Rightarrow> int" where
  "unpack_return b h =
     (if flags b CHROMEOS_FLAG then RETURN_CHROMEOS
      else if is_vendor h then RETURN_VENDOR else RETURN_OK)"

definition unpack_image ::
    "('z, 'd) libs \<Rightarrow> bool \<Rightarrow> bool \<Rightarrow> boot_img \<Rightarrow> dyn_img_hdr \<Rightarrow> world \<Rightarrow> int run" where
  "unpack_image L skip_decomp hdr_wanted b h w =
     thenS (if hdr_wanted
            then (case dump_hdr_file w h of Inl e \<Rightarrow> (Inl e, w) | Inr w' \<Rightarrow> (Inr (), w'))
            else (Inr (), w)) (\<lambda>_ w.
     thenS (extract_block L skip_decomp (k_fmt b) (map_mem b) (kernel b) (hdr_get Kernel_size h)
              KERNEL_FILE w) (\<lambda>_ w.
     thenS (dump_to (map_mem b) (fst (kernel_dtb b)) (snd (kernel_dtb b)) KER_DTB_FILE w) (\<lambda>_ w.
     thenS (unpack_ramdisk L skip_decomp b h w) (\<lambda>_ w.
     thenS (dump_field b h (second b) Second_size SECOND_FILE w) (\<lambda>_ w.
     thenS (extract_block L skip_decomp (e_fmt b) (map_mem b) (extra b) (hdr_get Extra_size h)
              EXTRA_FILE w) (\<lambda>_ w.
     thenS (dump_field b h (recovery_dtbo b) Recovery_dtbo_size RECV_DTBO_FILE w) (\<lambda>_ w.
     thenS (dump_field b h (dtb b) Dtb_size DTB_FILE w) (\<lambda>_ w.
     thenS (dump_field b h (bootconfig b) Bootconfig_size BOOTCONFIG_FILE w) (\<lambda>_ w.
       (Inr (unpack_return b h), w))))))))))"

definition unpack ::
    "('z, 'd) libs \<Rightarrow> string \<Rightarrow> bool \<Rightarrow> bool \<Rightarrow> world \<Rightarrow> int run" where
  "unpack L path skip_decomp hdr_wanted w =
     thenS (liftS (open_boot w path) w) (\<lambda>b w.
       thenS (liftS (the_hdr b) w) (\<lambda>h w. unpack_image L skip_decomp hdr_wanted b h w))"

section \<open>split-dtb\<close>

text \<open>
  The size reaches \<open>find_dtb_offset\<close> and \<open>check_fmt_lg\<close> as \<open>unsigned\<close>; a file that cannot be
  mapped is a null buffer of size 0.
\<close>

definition split_image_dtb ::
    "('z, 'd) libs \<Rightarrow> string \<Rightarrow> bool \<Rightarrow> world \<Rightarrow> int run" where
  "split_image_dtb L filename skip_decomp w =
     (let d = (case mmap_data w filename of None \<Rightarrow> [] | Some d \<Rightarrow> d);
          m = mapped d;
          sz = of_nat (length d) :: u32
      in thenS (liftS (find_dtb_offset m (unat sz)) w) (\<lambda>offset w.
           if 0 < offset then
             let off = nat offset
             in thenS (liftS (check_fmt_lg_at m 0 sz) w) (\<lambda>fmt w.
                  thenS
                    (if \<not> skip_decomp \<and> fmt_compressed fmt
                     then decompress_to L fmt m 0 off KERNEL_FILE w
                     else dump_to m 0 off KERNEL_FILE w) (\<lambda>_ w.
                  thenS (dump_to m (int off) (length d - off) KER_DTB_FILE w) (\<lambda>_ w.
                    (Inr 0, w))))
           else (Inr 1, w)))"

section \<open>cleanup\<close>

text \<open>
  \<open>cleanup\<close> unlinks the files \<open>unpack\<close> writes and removes the directory of the vendor ramdisks
  with everything below it.
\<close>

definition under_ramdisk_dir :: "string \<Rightarrow> bool" where
  "under_ramdisk_dir p \<longleftrightarrow>
     p = VND_RAMDISK_DIR \<or> take (length VND_RAMDISK_DIR + 1) p = VND_RAMDISK_DIR @ ''/''"

definition cleanup :: "world \<Rightarrow> world" where
  "cleanup w =
     w\<lparr>dirs := (\<lambda>p. \<not> under_ramdisk_dir p \<and> dirs w p),
       files := (\<lambda>p. if p \<in> set [HEADER_FILE, KERNEL_FILE, RAMDISK_FILE, SECOND_FILE, KER_DTB_FILE,
            EXTRA_FILE, RECV_DTBO_FILE, DTB_FILE, BOOTCONFIG_FILE]
          \<or> under_ramdisk_dir p then None
        else files w p)\<rparr>"

end
