(* ===== verification/UnpackCorrect.thy ===== *)
theory UnpackCorrect
  imports Unpack
begin

text \<open>
  What unpacking leaves in the working directory when nothing is refused and every write is
  complete: each block in its own file, byte for byte.
\<close>

section \<open>Plain directories\<close>

definition plain_world :: "world \<Rightarrow> bool" where
  "plain_world w \<longleftrightarrow> willing w \<and> answers w = []"

definition put_file :: "string \<Rightarrow> bytes \<Rightarrow> world \<Rightarrow> world" where
  "put_file name bs w = w\<lparr>files := (files w)(name := Some bs)\<rparr>"

lemma put_file_simps [simp]:
  "files (put_file name bs w) = (files w)(name := Some bs)" "plain_world (put_file name bs w) = plain_world w"
  by (simp_all add: put_file_def plain_world_def willing_def)

lemma plain_open:
  assumes "plain_world w"
  shows "fd_opened w name = \<lparr>fd_data = [], fd_pos = 0, fd_answers = [], fd_bad = False\<rparr>"
  using assms by (simp add: fd_opened_def open_trunc_def plain_world_def willing_def)

lemma plain_write_close:
  assumes "plain_world w" "f = \<lparr>fd_data = [], fd_pos = 0, fd_answers = [], fd_bad = False\<rparr>"
  shows "fd_close w name (snd (xwrite bs f)) = put_file name bs w"
proof -
  have "w\<lparr>files := fs, answers := []\<rparr> = w\<lparr>files := fs\<rparr>" for fs
    using assms(1) by (cases w) (simp add: plain_world_def)
  then show ?thesis
    by (simp add: assms(2) xwrite_def sys_write_def transfer_def put_at_def fd_close_def close_file_def
        put_file_def)
qed

definition inside :: "bytes \<Rightarrow> ptr \<Rightarrow> nat \<Rightarrow> bool" where
  "inside m p n \<longleftrightarrow> 0 \<le> p \<and> nat p + n \<le> length m"

lemma rdp_inside: "inside m p n \<Longrightarrow> rdp m p n = Inr (view (nat p) n m)"
  by (auto simp: inside_def rdp_def mem_at_def rd_def view_def)

text \<open>A block in its file; an empty one writes nothing.\<close>

type_synonym block = "string \<times> ptr \<times> nat"

definition put_block_file :: "bytes \<Rightarrow> block \<Rightarrow> world \<Rightarrow> world" where
  "put_block_file m = (\<lambda>(name, p, n) w. if n = 0 then w else put_file name (view (nat p) n m) w)"

lemma plain_put_block_file [simp]: "plain_world (put_block_file m blk w) = plain_world w"
  by (cases blk) (simp add: put_block_file_def)

lemma plain_dump:
  assumes "plain_world w" "n = 0 \<or> inside m p n"
  shows "dump_to m p n name w = (Inr (), put_block_file m (name, p, n) w)"
proof (cases "n = 0")
  case False
  with assms have "inside m p n" by simp
  with False show ?thesis
    using plain_write_close [OF assms(1) plain_open [OF assms(1)]]
    by (simp add: dump_to_def rdp_inside put_block_file_def Let_def)
qed (simp add: dump_to_def put_block_file_def)

section \<open>Raw unpacking\<close>

definition block_files :: "boot_img \<Rightarrow> dyn_img_hdr \<Rightarrow> block list" where
  "block_files b h =
     [(KERNEL_FILE, kernel b, unat (hdr_get Kernel_size h)),
      (KER_DTB_FILE, fst (kernel_dtb b), snd (kernel_dtb b)),
      (RAMDISK_FILE, ramdisk b, unat (hdr_get Ramdisk_size h)),
      (SECOND_FILE, second b, unat (hdr_get Second_size h)),
      (EXTRA_FILE, extra b, unat (hdr_get Extra_size h)),
      (RECV_DTBO_FILE, recovery_dtbo b, unat (hdr_get Recovery_dtbo_size h)),
      (DTB_FILE, dtb b, unat (hdr_get Dtb_size h)),
      (BOOTCONFIG_FILE, bootconfig b, unat (hdr_get Bootconfig_size h))]"

lemma block_file_names: "distinct (map fst (block_files b h))"
  by (simp add: block_files_def KERNEL_FILE_def KER_DTB_FILE_def RAMDISK_FILE_def SECOND_FILE_def
      EXTRA_FILE_def RECV_DTBO_FILE_def DTB_FILE_def BOOTCONFIG_FILE_def)

definition blocks_inside :: "bytes \<Rightarrow> block list \<Rightarrow> bool" where
  "blocks_inside m bl \<longleftrightarrow> (\<forall>(name, p, n) \<in> set bl. n = 0 \<or> inside m p n)"

lemma unpack_raw:
  assumes "plain_world w" "hdr_get Vendor_ramdisk_table_size h = 0"
    "blocks_inside (map_mem b) (block_files b h)"
  shows "unpack_image L True False b h w =
    (Inr (unpack_return b h), fold (put_block_file (map_mem b)) (block_files b h) w)"
  using assms
  by (cases "kernel_dtb b") (simp add: unpack_image_def extract_block_def dump_field_def
      unpack_ramdisk_def blocks_inside_def block_files_def plain_dump)

lemma fold_put_blocks:
  assumes "distinct (map fst bl)"
  shows "(\<forall>(name, p, n) \<in> set bl. files (fold (put_block_file m) bl w) name =
      (if n = 0 then files w name else Some (view (nat p) n m))) \<and>
    (\<forall>name. name \<notin> fst ` set bl \<longrightarrow> files (fold (put_block_file m) bl w) name = files w name)"
  using assms
proof (induction bl arbitrary: w)
  case (Cons blk bl)
  obtain name p n where blk: "blk = (name, p, n)" by (cases blk)
  have other: "files (put_block_file m blk w) q = files w q" if "q \<noteq> name" for q
    using that by (simp add: put_block_file_def blk)
  have new: "name \<notin> fst ` set bl" "distinct (map fst bl)"
    using Cons.prems by (auto simp: blk)
  from Cons.IH [OF new(2), of "put_block_file m blk w"]
  have IH: "\<forall>(q, p, n) \<in> set bl. files (fold (put_block_file m) bl (put_block_file m blk w)) q =
      (if n = 0 then files (put_block_file m blk w) q else Some (view (nat p) n m))"
    "\<forall>q. q \<notin> fst ` set bl \<longrightarrow>
      files (fold (put_block_file m) bl (put_block_file m blk w)) q = files (put_block_file m blk w) q"
    by blast+
  have "files (put_block_file m blk w) q = files w q" if "(q, r) \<in> set bl" for q r
    using that new(1) by (intro other) force
  then have "\<forall>(q, p, n) \<in> set bl. files (fold (put_block_file m) (blk # bl) w) q =
      (if n = 0 then files w q else Some (view (nat p) n m))"
    using IH(1) by fastforce
  moreover have "files (fold (put_block_file m) (blk # bl) w) name =
      (if n = 0 then files w name else Some (view (nat p) n m))"
    using IH(2) new(1) by (simp add: put_block_file_def blk)
  moreover have "\<forall>q. q \<notin> fst ` set (blk # bl) \<longrightarrow> files (fold (put_block_file m) (blk # bl) w) q = files w q"
    using IH(2) other by (simp add: blk)
  ultimately show ?case by (simp add: blk)
qed simp

section \<open>split-dtb\<close>

lemma split_plain:
  assumes "plain_world w" "mmap_data w filename = Some d" "length d < 2 ^ 31"
    "find_dtb_offset (mapped d) (length d) = Inr r" "0 < r" "nat r \<le> length d"
    "check_fmt_lg_at (mapped d) 0 (of_nat (length d)) = Inr fmt"
  shows "\<exists>w'. split_image_dtb L filename True w = (Inr 0, w') \<and> plain_world w' \<and>
    files w' KERNEL_FILE = Some (take (nat r) d) \<and>
    (nat r < length d \<longrightarrow> files w' KER_DTB_FILE = Some (drop (nat r) d))"
proof -
  have n: "unat (of_nat (length d) :: u32) = length d"
    using assms(3) by (simp add: unsigned_of_nat take_bit_nat_eq_self)
  have names: "KERNEL_FILE \<noteq> KER_DTB_FILE" by (simp add: KERNEL_FILE_def KER_DTB_FILE_def)
  have len: "length d \<le> length (mapped d)" by (simp add: mapped_def)
  have parts: "view 0 (nat r) (mapped d) = take (nat r) d"
    "view (nat r) (length d - nat r) (mapped d) = drop (nat r) d"
    using assms(6) by (simp_all add: mapped_def view_def)
  let ?w1 = "put_block_file (mapped d) (KERNEL_FILE, 0, nat r) w"
  have dump1: "dump_to (mapped d) 0 (nat r) KERNEL_FILE w = (Inr (), ?w1)"
    using len assms(6) by (intro plain_dump [OF assms(1)]) (simp add: inside_def)
  have "plain_world ?w1" using assms(1) by simp
  then have dump2: "dump_to (mapped d) r (length d - nat r) KER_DTB_FILE ?w1 =
      (Inr (), put_block_file (mapped d) (KER_DTB_FILE, r, length d - nat r) ?w1)"
    using len assms(5,6) by (intro plain_dump) (auto simp: inside_def)
  have run: "split_image_dtb L filename True w =
      (Inr 0, put_block_file (mapped d) (KER_DTB_FILE, r, length d - nat r) ?w1)"
    using assms(2,4,5,7) dump1 dump2 by (simp add: split_image_dtb_def Let_def n liftS_def)
  show ?thesis
    unfolding run using assms(1,5) names parts by (simp add: put_block_file_def)
qed

end
