(* ===== verification/ClaimsUnpack.thy ===== *)
theory ClaimsUnpack
  imports UnpackCorrect BootSample SampleLib
begin

text \<open>
  What \<open>unpack\<close> and \<open>split-dtb\<close> write: the blocks of the image, byte for byte, in files of fixed
  names; and the one name that comes from the image.
\<close>

text \<open>
  C37: unpacking with \<open>--skip-decomp\<close> an image without a vendor ramdisk table, whose blocks lie
  in the mapping, returns the code of the image's kind; every non-empty block is then the whole
  contents of its file, and no other file has changed.
\<close>

theorem raw_unpack_writes_blocks:
  assumes "plain_world w" "hdr_get Vendor_ramdisk_table_size h = 0"
    "blocks_inside (map_mem b) (block_files b h)"
  shows "\<exists>w'. unpack_image L True False b h w = (Inr (unpack_return b h), w') \<and>
    (\<forall>(name, p, n) \<in> set (block_files b h).
       files w' name = (if n = 0 then files w name else Some (view (nat p) n (map_mem b)))) \<and>
    (\<forall>name. name \<notin> fst ` set (block_files b h) \<longrightarrow> files w' name = files w name)"
  using unpack_raw [OF assms] fold_put_blocks [OF block_file_names] by blast

lemma sample_plain: "plain_world sample_world"
  by (simp add: plain_world_def willing_def sample_world_def)

lemma sample_map: "map_mem sample_boot = sample_img"
  by (simp add: sample_boot_def new_boot_img_def)

theorem raw_unpack_writes_blocks_witness:
  "\<exists>w'. unpack_image store_lib True False sample_boot sample_hdr sample_world = (Inr RETURN_VENDOR, w') \<and>
     files w' RAMDISK_FILE = Some (str ''abcd'')"
proof -
  have "blocks_inside (map_mem sample_boot) (block_files sample_boot sample_hdr)"
    by (simp add: sample_map blocks_inside_def block_files_def sample_fields inside_def)
      (simp add: sample_boot_def new_boot_img_def)
  moreover have "hdr_get Vendor_ramdisk_table_size sample_hdr = 0" by (simp add: sample_fields)
  moreover have "unpack_return sample_boot sample_hdr = RETURN_VENDOR"
    by (simp add: unpack_return_def is_vendor_def sample_hdr_def sample_boot_def new_boot_img_def)
  moreover have "(RAMDISK_FILE, 4096, 4) \<in> set (block_files sample_boot sample_hdr)"
    by (simp add: block_files_def sample_fields) (simp add: sample_boot_def)
  ultimately show ?thesis
    using raw_unpack_writes_blocks [OF sample_plain, of sample_hdr sample_boot store_lib] sample_ramdisk
    by (fastforce simp: sample_map)
qed

text \<open>
  C38: the name of a vendor ramdisk reaches \<open>openat\<close> as it stands in the image: a name of at most 34
  characters that starts with a slash makes \<open>unpack\<close> write the entry's data to that absolute path (with
  \<open>.cpio\<close> behind it), outside its directory, whether that directory can be opened or not. Paths with
  dots in them are not resolved here, so names that climb out of the directory are not part of the claim.
\<close>

theorem ramdisk_name_escapes_directory:
  assumes "plain_world w" "rd_entry (map_mem b) p = Inr e" "chars (c_str (e_name e)) = CHR ''/'' # name"
    "length name < 34" "check_fmt_lg_at (map_mem b) (ramdisk b + int (unat (e_offset e))) (e_size e) = Inr fmt"
    "inside (map_mem b) (ramdisk b + int (unat (e_offset e))) (unat (e_size e))"
  shows "\<exists>w'. unpack_entry L True dir_ok b p w = (Inr (), w') \<and>
    files w' (CHR ''/'' # name @ ''.cpio'') =
      Some (view (nat (ramdisk b + int (unat (e_offset e)))) (unat (e_size e)) (map_mem b))"
proof -
  have "c_str (e_name e) \<noteq> []" using assms(3) by (auto simp: chars_def)
  then have "e_name e ! 0 \<noteq> 0" by (cases "e_name e") (auto simp: c_str_def)
  then have name: "ramdisk_file_name 40 e = CHR ''/'' # name @ ''.cpio''"
    using assms(3,4) by (simp add: ramdisk_file_name_def ssprintf_def)
  show ?thesis
    using assms(1,2,5,6) plain_write_close [OF assms(1) plain_open [OF assms(1)]]
    by (simp add: unpack_entry_def liftS_def name fd_openat_def at_path_def rdp_inside)
qed

definition escape_entry :: table_entry where
  "escape_entry = \<lparr>e_size = 4, e_offset = 0, e_type = 0, e_name = str ''/x'' @ replicate 30 0,
     e_board = replicate 64 0\<rparr>"

definition escape_boot :: boot_img where
  "escape_boot = (new_boot_img [])\<lparr>map_mem := str ''abcd'' @ bytes_of_entry escape_entry\<rparr>"

theorem ramdisk_name_escapes_directory_witness:
  "\<exists>w'. unpack_entry store_lib True True escape_boot 4 sample_world = (Inr (), w') \<and>
     files w' ''/x.cpio'' = Some (str ''abcd'')"
proof -
  have m: "map_mem escape_boot = str ''abcd'' @ bytes_of_entry escape_entry" "ramdisk escape_boot = 0"
    by (simp_all add: escape_boot_def new_boot_img_def)
  have len: "length (bytes_of_entry escape_entry) = 108"
    by (simp add: bytes_of_entry_def escape_entry_def)
  have "view 4 108 (str ''abcd'' @ bytes_of_entry escape_entry) = bytes_of_entry escape_entry"
    using len by (simp add: view_def)
  moreover have "entry_of_bytes (bytes_of_entry escape_entry) = escape_entry"
    by (simp add: entry_of_bytes_def bytes_of_entry_def escape_entry_def view_def)
  ultimately have e: "rd_entry (map_mem escape_boot) 4 = Inr escape_entry"
    using len by (simp add: rd_entry_def m rdp_def mem_at_def rd_def table_entry_size_def view_def)
  have "check_fmt (str ''abcd'') = UNKNOWN"
    by (simp add: check_fmt_def checked_match_def match_at_def magic_defs guess_lzma_def view_def
        str_def byte_of_char_def)
  then have f: "check_fmt_lg_at (map_mem escape_boot) (ramdisk escape_boot + int (unat (e_offset escape_entry)))
      (e_size escape_entry) = Inr UNKNOWN"
    by (simp add: m escape_entry_def check_fmt_lg_at_def check_fmt_lg_mem_def check_fmt_mem_def
        mem_at_def rd_def view_def)
  have i: "inside (map_mem escape_boot) (ramdisk escape_boot + int (unat (e_offset escape_entry)))
      (unat (e_size escape_entry))"
    by (simp add: m inside_def escape_entry_def)
  have "c_str (e_name escape_entry) = str ''/x''"
    by (simp add: escape_entry_def c_str_def str_def byte_of_char_def)
  then have n: "chars (c_str (e_name escape_entry)) = CHR ''/'' # ''x''" by simp
  from ramdisk_name_escapes_directory [OF sample_plain e n _ f i, of store_lib True] show ?thesis
    by (simp add: m) (simp add: escape_entry_def view_def)
qed

text \<open>
  \<open>split-dtb --skip-decomp\<close> cuts a file at the device tree it finds: the files \<open>kernel\<close> and
  \<open>kernel_dtb\<close> are the two parts, whose concatenation is the input.
\<close>

theorem split_dtb_partitions_file:
  assumes "plain_world w" "mmap_data w filename = Some d" "length d < 2 ^ 31"
    "find_dtb_offset (mapped d) (length d) = Inr r" "0 < r"
    "check_fmt_lg_at (mapped d) 0 (of_nat (length d)) = Inr fmt"
  shows "\<exists>w' k t. split_image_dtb L filename True w = (Inr 0, w') \<and>
    files w' KERNEL_FILE = Some k \<and> files w' KER_DTB_FILE = Some t \<and>
    k \<noteq> [] \<and> match_at t 0 DTB_MAGIC \<and> k @ t = d"
proof -
  obtain c where c: "dtb_loop (mapped d) (length d) 0 = Inr (Some c)" "r = sint (of_nat c :: u32)"
    using assms(4,5) by (auto simp: find_dtb_offset_def split: option.splits)
  note found = dtb_loop_Some [OF c(1)]
  have rc: "r = int c"
    using found assms(3) by (simp add: c(2) signed_of_nat signed_take_bit_int_eq_self)
  then have r: "nat r = c" "c + 4 \<le> length d" "0 < c" using found assms(5) by auto
  then have le: "nat r \<le> length d" by simp
  from split_plain [OF assms(1-5) le assms(6)] obtain w' where
    w': "split_image_dtb L filename True w = (Inr 0, w')" "files w' KERNEL_FILE = Some (take c d)"
      "files w' KER_DTB_FILE = Some (drop c d)"
    using r by auto
  have "length DTB_MAGIC = 4" by (simp add: DTB_MAGIC_def)
  then have "match_at (drop c d) 0 DTB_MAGIC"
    using found r by (simp add: match_at_def view_def mapped_def)
  with w' r show ?thesis by (intro exI [of _ w'] exI [of _ "take c d"] exI [of _ "drop c d"]) auto
qed

definition split_file :: bytes where
  "split_file = [1, 1, 1, 1] @ DTB_MAGIC @ le32_bytes 80 @ le32_bytes 40 @ replicate 28 0 @
     le32_bytes 1 @ replicate 36 0"

definition split_world :: world where
  "split_world = sample_world\<lparr>files := [''zImage-dtb'' \<mapsto> split_file]\<rparr>"

theorem split_dtb_partitions_file_witness:
  "\<exists>w' k t. split_image_dtb store_lib ''zImage-dtb'' True split_world = (Inr 0, w') \<and>
     files w' KERNEL_FILE = Some k \<and> files w' KER_DTB_FILE = Some t \<and> k @ t = split_file"
proof -
  have len: "length split_file = 84" by (simp add: split_file_def DTB_MAGIC_def)
  have "plain_world split_world" by (simp add: plain_world_def willing_def split_world_def sample_world_def)
  moreover have "mmap_data split_world ''zImage-dtb'' = Some split_file"
    by (simp add: mmap_data_def read_file_def split_world_def sample_world_def) (auto simp: split_file_def)
  moreover have "find_dtb_offset (mapped split_file) (length split_file) = Inr 4"
    by (simp add: len) (simp add: find_dtb_offset_def dtb_loop.simps memmem.simps dtb_accept_def
        split_file_def mapped_def DTB_MAGIC_def view_def le32_bytes_def fdt32_def)
  moreover have "check_fmt_lg_at (mapped split_file) 0 (of_nat (length split_file)) = Inr UNKNOWN"
  proof -
    have "replicate 4 0 \<noteq> [24, 40, 111, 1 :: byte]" by (simp add: numeral_eq_Suc)
    then have "check_fmt (take 40 split_file) = UNKNOWN"
      by (simp add: split_file_def check_fmt_def checked_match_def match_at_def magic_defs
          guess_lzma_def view_def str_def byte_of_char_def le32_bytes_def)
    moreover have "take 40 (mapped split_file) = take 40 split_file" by (simp add: mapped_def len)
    moreover have "40 \<le> length (mapped split_file)" by (simp add: mapped_def len)
    ultimately show ?thesis
      by (simp add: check_fmt_lg_at_def check_fmt_lg_mem_def check_fmt_mem_def len mem_at_def rd_def
          view_def)
  qed
  ultimately show ?thesis
    using split_dtb_partitions_file [of split_world "''zImage-dtb''" split_file 4 UNKNOWN store_lib]
    by (fastforce simp: len)
qed

end
