(* ===== verification/Repack.thy ===== *)
theory Repack
  imports Unpack
begin

text \<open>
  \<open>repack\<close> of \<open>bootimg.cpp\<close>, phase by phase: the wrapper and the raw header, kernel, ramdisk
  and the other blocks from the files of the working directory, the tail, and the patches that
  go back over the written file. The state is the open output file, the header being built and
  the offsets the phases record; an early \<open>return\<close>, which the caller cannot tell from success,
  is a way to stop of its own. Input files are read as they are when the run starts.
\<close>

section \<open>State\<close>

datatype stop = Fail error | Returned

record rp =
  rp_f :: ofd
  rp_h :: dyn_img_hdr
  off_header :: u32
  off_kernel :: u32
  off_ramdisk :: u32
  off_second :: u32
  off_extra :: u32
  off_dtb :: u32
  off_tail :: u32
  off_vbmeta :: u32

type_synonym 'a phase = "rp \<Rightarrow> (stop + 'a) \<times> rp"

definition pure_r :: "'a result \<Rightarrow> 'a phase" where
  "pure_r r st = (case r of Inl e \<Rightarrow> (Inl (Fail e), st) | Inr x \<Rightarrow> (Inr x, st))"

definition hdr_put :: "field \<Rightarrow> u32 \<Rightarrow> unit phase" where
  "hdr_put fl v st = (Inr (), st\<lparr>rp_h := hdr_set fl v (rp_h st)\<rparr>)"

definition h_get :: "field \<Rightarrow> rp \<Rightarrow> u32" where
  "h_get fl st = hdr_get fl (rp_h st)"

text \<open>\<open>xwrite\<close> of given bytes and of a part of the mapping; the value is its result.\<close>

definition put_bytes :: "bytes \<Rightarrow> int phase" where
  "put_bytes bs st = (case xwrite bs (rp_f st) of (n, f) \<Rightarrow> (Inr n, st\<lparr>rp_f := f\<rparr>))"

definition put_mem :: "boot_img \<Rightarrow> ptr \<Rightarrow> nat \<Rightarrow> int phase" where
  "put_mem b p n st = thenS (pure_r (rdp (map_mem b) p n) st) put_bytes"

definition skip_value :: "(stop + 'a) \<times> rp \<Rightarrow> (stop + unit) \<times> rp" where
  "skip_value m = thenS m (\<lambda>_ st. (Inr (), st))"

definition cur :: "rp \<Rightarrow> int" where
  "cur st = lseek_cur (rp_f st)"

definition put_zeros :: "int \<Rightarrow> unit phase" where
  "put_zeros n st = (Inr (), st\<lparr>rp_f := write_zero (size_of_off n) (rp_f st)\<rparr>)"

text \<open>\<open>file_align_with\<close>: the padding is counted from the image's header.\<close>

definition file_align_with :: "u32 \<Rightarrow> unit phase" where
  "file_align_with page st =
     thenS (pure_r (align_padding_off (cur st - int (unat (off_header st))) (sint page)) st) put_zeros"

definition file_align :: "dyn_img_hdr \<Rightarrow> unit phase" where
  "file_align bh = file_align_with (hdr_get Page_size bh)"

definition u32_of :: "int \<Rightarrow> u32" where
  "u32_of n = word_of_int n"

section \<open>Input files\<close>

definition access_ok :: "world \<Rightarrow> string \<Rightarrow> bool" where
  "access_ok w name \<longleftrightarrow> read_file w name \<noteq> None"

text \<open>A mapping that could not be made has no data and size 0.\<close>

definition mmap_bytes :: "world \<Rightarrow> string \<Rightarrow> bytes" where
  "mmap_bytes w name = (case mmap_data w name of None \<Rightarrow> [] | Some d \<Rightarrow> d)"

text \<open>\<open>compress_len\<close>: how far the compressor has moved the position, as \<open>off_t\<close>.\<close>

definition compress_len :: "('z, 'd) libs \<Rightarrow> FileFormat \<Rightarrow> bytes \<Rightarrow> int phase" where
  "compress_len L fmt inp st =
     (let prev = cur st
      in case compress_bytes L fmt inp (rp_f st) of
           (Inl e, f) \<Rightarrow> (Inl (Fail e), st\<lparr>rp_f := f\<rparr>)
         | (Inr _, f) \<Rightarrow> (Inr (lseek_cur f - prev), st\<lparr>rp_f := f\<rparr>))"

text \<open>
  \<open>restore\<close>: one \<open>sendfile\<close> of the whole file; the value is the file's size whatever was sent,
  and \<open>SIZE_MAX\<close> for a file that does not open.
\<close>

definition restore :: "world \<Rightarrow> string \<Rightarrow> int phase" where
  "restore w name st =
     (case read_file w name of
        None \<Rightarrow> (Inr (2 ^ 64 - 1), st)
      | Some d \<Rightarrow>
          (Inr (int (length d)), st\<lparr>rp_f := snd (sys_write d (rp_f st))\<rparr>))"

text \<open>Compressed when that is wanted, the data is not compressed and the image's block was.\<close>

definition wants_compression :: "bool \<Rightarrow> bytes \<Rightarrow> FileFormat \<Rightarrow> bool" where
  "wants_compression skip_comp d fmt \<longleftrightarrow>
     \<not> skip_comp \<and> \<not> fmt_compressed_any (check_fmt d) \<and> fmt_compressed fmt"

definition put_block :: "('z, 'd) libs \<Rightarrow> bool \<Rightarrow> FileFormat \<Rightarrow> bytes \<Rightarrow> int phase" where
  "put_block L skip_comp fmt d st =
     (if wants_compression skip_comp d fmt then compress_len L fmt d st else put_bytes d st)"

section \<open>Header and kernel\<close>

definition put_wrapper :: "boot_img \<Rightarrow> unit phase" where
  "put_wrapper b st =
     (if flags b DHTB_FLAG then skip_value (put_mem b 0 dhtb_hdr_size st)
      else if flags b BLOB_FLAG then skip_value (put_mem b 0 blob_hdr_size st)
      else if flags b NOOKHD_FLAG then skip_value (put_mem b 0 NOOKHD_PRE_HEADER_SZ st)
      else if flags b ACCLAIM_FLAG then skip_value (put_mem b 0 ACCLAIM_PRE_HEADER_SZ st)
      else (Inr (), st))"

definition put_raw_header :: "boot_img \<Rightarrow> unit phase" where
  "put_raw_header b st =
     (let st1 = st\<lparr>off_header := u32_of (cur st)\<rparr>
      in thenS (pure_r (hdr_space (rp_h st1)) st1) (\<lambda>n st.
           skip_value (put_mem b (payload b) (unat n) st)))"

definition opt_ptr :: "ptr option \<Rightarrow> ptr result" where
  "opt_ptr p = (case p of None \<Rightarrow> Inl NullPointer | Some q \<Rightarrow> Inr q)"

text \<open>
  The zImage body has the room of the original one: a larger one is replaced by the original,
  a smaller one is padded with zeros up to a final word with the uncompressed size. The
  subtraction is in 32 bits up to the \<open>size_t\<close> of the last word.
\<close>

definition fit_zimage :: "boot_img \<Rightarrow> dyn_img_hdr \<Rightarrow> bool \<Rightarrow> nat \<Rightarrow> unit phase" where
  "fit_zimage b bh skip_comp msize st =
     (let old = hdr_get Kernel_size bh; new = h_get Kernel_size st
      in thenS
           (if old < new then
              (case lseek_to (cur st - int (unat new)) (rp_f st) of
                 (pos, f) \<Rightarrow>
                   skip_value (put_mem b (kernel b) (unat old) (st\<lparr>rp_f := ftruncate pos f\<rparr>)))
            else if \<not> skip_comp then
              thenS (put_zeros (int (unat (old - new)) - 4) st) (\<lambda>_ st.
                skip_value (put_bytes (le32_bytes (of_nat msize)) st))
            else (Inr (), st))
           (\<lambda>_. hdr_put Kernel_size old))"

definition put_kernel_file ::
    "('z, 'd) libs \<Rightarrow> bool \<Rightarrow> boot_img \<Rightarrow> dyn_img_hdr \<Rightarrow> bytes \<Rightarrow> unit phase" where
  "put_kernel_file L skip_comp b bh d st =
     (let fmt = (if flags b ZIMAGE_KERNEL \<and> k_fmt b = GZIP then ZOPFLI else k_fmt b)
      in thenS (if wants_compression skip_comp d (k_fmt b) then compress_len L fmt d st
                else put_bytes d st) (\<lambda>n st.
         thenS (hdr_put Kernel_size (u32_of n) st) (\<lambda>_ st.
           whenS (flags b ZIMAGE_KERNEL) (fit_zimage b bh skip_comp (length d)) st)))"

definition add_kernel_size :: "int \<Rightarrow> unit phase" where
  "add_kernel_size n st = hdr_put Kernel_size (u32_of (int (unat (h_get Kernel_size st)) + n)) st"

definition put_kernel ::
    "('z, 'd) libs \<Rightarrow> bool \<Rightarrow> world \<Rightarrow> boot_img \<Rightarrow> dyn_img_hdr \<Rightarrow> unit phase" where
  "put_kernel L skip_comp w b bh st0 =
     (let st = st0\<lparr>off_kernel := u32_of (cur st0)\<rparr>
      in thenS (whenS (flags b MTK_KERNEL) (\<lambda>st. thenS (pure_r (opt_ptr (k_hdr b)) st) (\<lambda>p st.
                 skip_value (put_mem b p mtk_hdr_size st))) st) (\<lambda>_ st.
         thenS (whenS (flags b ZIMAGE_KERNEL) (\<lambda>st. thenS (pure_r (opt_ptr (z_hdr b)) st) (\<lambda>p st.
                 skip_value (put_mem b p (unat (z_hdr_sz b)) st))) st) (\<lambda>_ st.
         thenS
           (if access_ok w KERNEL_FILE
            then put_kernel_file L skip_comp b bh (mmap_bytes w KERNEL_FILE) st
            else if hdr_get Kernel_size bh \<noteq> 0
            then thenS (put_mem b (kernel b) (unat (hdr_get Kernel_size bh)) st) (\<lambda>_.
                   hdr_put Kernel_size (hdr_get Kernel_size bh))
            else (Inr (), st)) (\<lambda>_ st.
         thenS (whenS (flags b ZIMAGE_KERNEL) (\<lambda>st.
                 thenS (add_kernel_size (int (unat (z_hdr_sz b))) st) (\<lambda>_ st.
                 thenS (put_mem b (fst (z_tail b)) (snd (z_tail b)) st) (\<lambda>n st.
                   add_kernel_size n st))) st) (\<lambda>_ st.
         thenS (whenS (access_ok w KER_DTB_FILE) (\<lambda>st.
                 thenS (restore w KER_DTB_FILE st) add_kernel_size) st) (\<lambda>_ st.
           file_align bh st))))))"

section \<open>Ramdisk\<close>

definition rd_table :: "boot_img \<Rightarrow> table_entry list result" where
  "rd_table b =
     bindR (vendor_ramdisk_tbl b) (\<lambda>ps.
       foldr (\<lambda>p r. bindR (rd_entry (map_mem b) p) (\<lambda>e. bindR r (\<lambda>es. Inr (e # es)))) ps (Inr []))"

text \<open>
  One vendor ramdisk: its file, compressed like the original entry; the entry gets the running
  offset and the size that was written.
\<close>

definition put_entry ::
    "('z, 'd) libs \<Rightarrow> bool \<Rightarrow> world \<Rightarrow> boot_img \<Rightarrow> u32 \<Rightarrow> table_entry \<Rightarrow> table_entry phase" where
  "put_entry L skip_comp w b ramdisk_offset e st =
     (let name = ramdisk_file_name 64 e;
          d = (if \<not> dir_opens w VND_RAMDISK_DIR \<and> take 1 name \<noteq> ''/'' then []
               else mmap_bytes w (at_path VND_RAMDISK_DIR name))
      in thenS (pure_r (check_fmt_lg_at (map_mem b) (ramdisk b + int (unat (e_offset e))) (e_size e)) st)
           (\<lambda>fmt st.
           thenS (put_block L skip_comp fmt d st) (\<lambda>n st.
             (Inr (e\<lparr>e_offset := ramdisk_offset, e_size := u32_of n\<rparr>), st))))"

fun put_entries ::
    "('z, 'd) libs \<Rightarrow> bool \<Rightarrow> world \<Rightarrow> boot_img \<Rightarrow> u32 \<Rightarrow> table_entry list \<Rightarrow>
      (table_entry list \<times> u32) phase" where
  "put_entries L skip_comp w b off [] st = (Inr ([], off), st)"
| "put_entries L skip_comp w b off (e # es) st =
     thenS (put_entry L skip_comp w b off e st) (\<lambda>e' st.
       thenS (put_entries L skip_comp w b (off + e_size e') es st) (\<lambda>r st.
         (Inr (e' # fst r, snd r), st)))"

text \<open>The ramdisk of a version 4 image is always written as \<open>LZ4_LEGACY\<close>.\<close>

definition ramdisk_target_fmt :: "bool \<Rightarrow> dyn_img_hdr \<Rightarrow> FileFormat \<Rightarrow> FileFormat" where
  "ramdisk_target_fmt skip_comp h fmt =
     (if \<not> skip_comp \<and> \<not> is_vendor h \<and> hdr_get Header_version h = 4 \<and> fmt \<noteq> LZ4_LEGACY
      then LZ4_LEGACY else fmt)"

definition put_ramdisk ::
    "('z, 'd) libs \<Rightarrow> bool \<Rightarrow> world \<Rightarrow> boot_img \<Rightarrow> dyn_img_hdr \<Rightarrow> table_entry list phase" where
  "put_ramdisk L skip_comp w b bh st0 =
     (let st = st0\<lparr>off_ramdisk := u32_of (cur st0)\<rparr>
      in thenS (whenS (flags b MTK_RAMDISK) (\<lambda>st. thenS (pure_r (opt_ptr (r_hdr b)) st) (\<lambda>p st.
                 skip_value (put_mem b p mtk_hdr_size st))) st) (\<lambda>_ st.
         if hdr_get Vendor_ramdisk_table_size bh \<noteq> 0 then
           thenS (pure_r (rd_table b) st) (\<lambda>tbl st.
             thenS (put_entries L skip_comp w b 0 tbl st) (\<lambda>(tbl', size') st.
               thenS (hdr_put Ramdisk_size size' st) (\<lambda>_ st.
                 thenS (file_align bh st) (\<lambda>_ st. (Inr tbl', st)))))
         else if access_ok w RAMDISK_FILE then
           (case mmap_data w RAMDISK_FILE of
              None \<Rightarrow> (Inl Returned, st)
            | Some d \<Rightarrow>
                thenS (put_block L skip_comp (ramdisk_target_fmt skip_comp (rp_h st) (r_fmt b)) d st)
                  (\<lambda>n st. thenS (hdr_put Ramdisk_size (u32_of n) st) (\<lambda>_ st.
                    thenS (file_align bh st) (\<lambda>_ st. (Inr [], st)))))
         else (Inr [], st)))"

section \<open>The other blocks\<close>

text \<open>A block restored from its file sets its size and is followed by padding.\<close>

definition put_restored :: "world \<Rightarrow> dyn_img_hdr \<Rightarrow> field \<Rightarrow> string \<Rightarrow> unit phase" where
  "put_restored w bh fl name =
     whenS (access_ok w name) (\<lambda>st.
       thenS (restore w name st) (\<lambda>n st.
         thenS (hdr_put fl (u32_of n) st) (\<lambda>_. file_align bh)))"

definition put_second :: "world \<Rightarrow> dyn_img_hdr \<Rightarrow> unit phase" where
  "put_second w bh st =
     put_restored w bh Second_size SECOND_FILE (st\<lparr>off_second := u32_of (cur st)\<rparr>)"

definition put_extra ::
    "('z, 'd) libs \<Rightarrow> bool \<Rightarrow> world \<Rightarrow> boot_img \<Rightarrow> dyn_img_hdr \<Rightarrow> unit phase" where
  "put_extra L skip_comp w b bh st =
     whenS (access_ok w EXTRA_FILE) (\<lambda>st.
       thenS (put_block L skip_comp (e_fmt b) (mmap_bytes w EXTRA_FILE) st) (\<lambda>n st.
         thenS (hdr_put Extra_size (u32_of n) st) (\<lambda>_. file_align bh)))
       (st\<lparr>off_extra := u32_of (cur st)\<rparr>)"

definition put_recovery_dtbo :: "world \<Rightarrow> dyn_img_hdr \<Rightarrow> unit phase" where
  "put_recovery_dtbo w bh st =
     put_restored w bh Recovery_dtbo_size RECV_DTBO_FILE
       (if access_ok w RECV_DTBO_FILE
        then st\<lparr>rp_h := set_recovery_dtbo_offset (word_of_int (cur st)) (rp_h st)\<rparr> else st)"

definition put_dtb :: "world \<Rightarrow> dyn_img_hdr \<Rightarrow> unit phase" where
  "put_dtb w bh st = put_restored w bh Dtb_size DTB_FILE (st\<lparr>off_dtb := u32_of (cur st)\<rparr>)"

definition put_signature :: "boot_img \<Rightarrow> dyn_img_hdr \<Rightarrow> unit phase" where
  "put_signature b bh =
     whenS (hdr_get Signature_size bh \<noteq> 0) (\<lambda>st.
       thenS (put_mem b (signature b) (unat (hdr_get Signature_size bh)) st) (\<lambda>_. file_align bh))"

definition put_table :: "dyn_img_hdr \<Rightarrow> table_entry list \<Rightarrow> unit phase" where
  "put_table bh tbl =
     whenS (tbl \<noteq> []) (\<lambda>st.
       thenS (put_bytes (concat (map bytes_of_entry tbl)) st) (\<lambda>_. file_align bh))"

definition put_bootconfig :: "world \<Rightarrow> dyn_img_hdr \<Rightarrow> unit phase" where
  "put_bootconfig w bh = put_restored w bh Bootconfig_size BOOTCONFIG_FILE"

definition put_vendor_magic :: "boot_img \<Rightarrow> unit phase" where
  "put_vendor_magic b st =
     (if flags b SEANDROID_FLAG then
        thenS (put_bytes SEANDROID_MAGIC st) (\<lambda>_ st.
          whenS (flags b DHTB_FLAG) (\<lambda>st. skip_value (put_bytes (replicate 4 0xff) st)) st)
      else if flags b LG_BUMP_FLAG then skip_value (put_bytes LG_BUMP_MAGIC st)
      else (Inr (), st))"

section \<open>Tail\<close>

definition put_vbmeta :: "boot_img \<Rightarrow> unit phase" where
  "put_vbmeta b =
     whenS (flags b AVB_FLAG) (\<lambda>st.
       thenS (file_align_with 4096 st) (\<lambda>_ st.
         let st1 = st\<lparr>off_vbmeta := u32_of (cur st)\<rparr>
         in thenS (pure_r (opt_ptr (avb_footer b)) st1) (\<lambda>footer st.
              thenS (pure_r (rdp (map_mem b) (footer + int avb_vbmeta_size_off) 8) st) (\<lambda>v st.
                thenS (pure_r (opt_ptr (vbmeta b)) st) (\<lambda>p st.
                  skip_value (put_mem b p (unat (bswap64 (le64 v))) st))))))"

text \<open>Unless a ChromeOS image, padded to the size of the original.\<close>

definition pad_to_original :: "boot_img \<Rightarrow> unit phase" where
  "pad_to_original b st =
     (if flags b CHROMEOS_FLAG then (Inr (), st)
      else if cur st < int (map_size b) then put_zeros (int (map_size b) - cur st) st
      else (Inr (), st))"

definition put_tail :: "boot_img \<Rightarrow> dyn_img_hdr \<Rightarrow> unit phase" where
  "put_tail b bh st =
     thenS (put_vendor_magic b st) (\<lambda>_ st.
       thenS (file_align bh (st\<lparr>off_tail := u32_of (cur st)\<rparr>)) (\<lambda>_ st.
         thenS (put_vbmeta b st) (\<lambda>_. pad_to_original b)))"

definition put_blocks ::
    "('z, 'd) libs \<Rightarrow> bool \<Rightarrow> world \<Rightarrow> boot_img \<Rightarrow> dyn_img_hdr \<Rightarrow> unit phase" where
  "put_blocks L skip_comp w b bh st =
     thenS (put_kernel L skip_comp w b bh st) (\<lambda>_ st.
     thenS (put_ramdisk L skip_comp w b bh st) (\<lambda>tbl st.
     thenS (put_second w bh st) (\<lambda>_ st.
     thenS (put_extra L skip_comp w b bh st) (\<lambda>_ st.
     thenS (put_recovery_dtbo w bh st) (\<lambda>_ st.
     thenS (put_dtb w bh st) (\<lambda>_ st.
     thenS (put_signature b bh st) (\<lambda>_ st.
     thenS (put_table bh tbl st) (\<lambda>_ st.
       put_bootconfig w bh st))))))))"

section \<open>Patching the written file\<close>

text \<open>A read or write at a position that comes up short ends the run.\<close>

definition pread_full :: "nat \<Rightarrow> int \<Rightarrow> rp \<Rightarrow> bytes option" where
  "pread_full n p st =
     (case pread n p (rp_f st) of
        None \<Rightarrow> None
      | Some bs \<Rightarrow> if length bs = n then Some bs else None)"

definition pwrite_full :: "bytes \<Rightarrow> int \<Rightarrow> bool phase" where
  "pwrite_full bs p st =
     (case pwrite bs p (rp_f st) of (n, f) \<Rightarrow> (Inr (n = int (length bs)), st\<lparr>rp_f := f\<rparr>))"

definition must_write :: "bytes \<Rightarrow> int \<Rightarrow> unit phase" where
  "must_write bs p st =
     thenS (pwrite_full bs p st) (\<lambda>ok st. if ok then (Inr (), st) else (Inl Returned, st))"

text \<open>
  The size word of an MTK header in the output becomes the block's size, and the block grows by
  the header.
\<close>

definition patch_mtk :: "field \<Rightarrow> int \<Rightarrow> unit phase" where
  "patch_mtk fl p st =
     (case pread_full mtk_hdr_size p st of
        None \<Rightarrow> (Inl Returned, st)
      | Some bs \<Rightarrow>
          thenS (must_write (put_at mtk_size_off (le32_bytes (h_get fl st)) bs) p st) (\<lambda>_ st.
            hdr_put fl (h_get fl st + of_nat mtk_hdr_size) st))"

text \<open>
  The checksum: each block as it was written, read back, followed by its size. A block that
  cannot be read in full counts as empty.
\<close>

definition read_update :: "rp \<Rightarrow> u32 \<Rightarrow> u32 \<Rightarrow> bytes" where
  "read_update st off len =
     (if len = 0 then []
      else case pread_full (unat len) (int (unat off)) st of None \<Rightarrow> [] | Some bs \<Rightarrow> bs)"

definition hashed_block :: "rp \<Rightarrow> u32 \<Rightarrow> field \<Rightarrow> bytes list" where
  "hashed_block st off fl = [read_update st off (h_get fl st), le32_bytes (h_get fl st)]"

definition hashed_parts :: "nat \<Rightarrow> rp \<Rightarrow> bytes list" where
  "hashed_parts out_sz st =
     (let v = h_get Header_version st; ro_off = get_recovery_dtbo_offset (rp_h st);
          ro_sz = h_get Recovery_dtbo_size st
      in hashed_block st (off_kernel st) Kernel_size @
         hashed_block st (off_ramdisk st) Ramdisk_size @
         hashed_block st (off_second st) Second_size @
         (if h_get Extra_size st \<noteq> 0 then hashed_block st (off_extra st) Extra_size else []) @
         (if v = 1 \<or> v = 2 then
            (if unat ro_off \<le> out_sz \<and> unat ro_sz \<le> out_sz - unat ro_off
             then [read_update st (ucast ro_off) ro_sz] else []) @ [le32_bytes ro_sz]
          else []) @
         (if v = 2 then hashed_block st (off_dtb st) Dtb_size else []))"

definition patch_id :: "('z, 'd) libs \<Rightarrow> boot_img \<Rightarrow> nat \<Rightarrow> unit phase" where
  "patch_id L b out_sz st =
     (case str_off (ver (rp_h st)) Id of
        None \<Rightarrow> (Inr (), st)
      | Some (off, _) \<Rightarrow>
          thenS (pure_r (get_sha L (\<not> flags b SHA256_FLAG)) st) (\<lambda>ctx st.
            let ctx' = fold SHA_update (hashed_parts out_sz st) ctx
            in thenS (pure_r (SHA_finalize_into L (SHA_output_size L ctx') ctx') st) (\<lambda>(digest, _) st.
                 let h = poke off (replicate BOOT_ID_SIZE 0) (rp_h st)
                 in (Inr (), st\<lparr>rp_h := (case digest of None \<Rightarrow> h | Some dg \<Rightarrow> poke off dg h)\<rparr>))))"

text \<open>The header goes back over the raw copy; with a microloader behind it, and cut to its room.\<close>

definition patch_header :: "boot_img \<Rightarrow> nat \<Rightarrow> unit phase" where
  "patch_header b out_sz st =
     thenS (pure_r (hdr_space (rp_h st)) st) (\<lambda>space st.
       let h = rp_h st;
           copy_sz = (if flags b AMONET_FLAG
              then min (unat (space - of_nat AMONET_MICROLOADER_SZ)) (hdr_size h) else hdr_size h);
           hdr_off = unat (if flags b AMONET_FLAG
              then off_header st + of_nat AMONET_MICROLOADER_SZ else off_header st)
       in if out_sz < hdr_off + copy_sz then (Inl Returned, st)
          else must_write (take copy_sz (raw h)) (int hdr_off) st)"

text \<open>
  The AVB footer is the original one with the new image size and \<open>vbmeta\<close> offset; with
  \<open>PATCHVBMETAFLAG\<close> set to \<open>true\<close> the flags of the \<open>vbmeta\<close> header disable verification.
\<close>

definition patch_vbmeta_flags :: "unit phase" where
  "patch_vbmeta_flags st =
     (let p = int (unat (off_vbmeta st))
      in case pread_full vbmeta_hdr_size p st of
           None \<Rightarrow> (Inr (), st)
         | Some bs \<Rightarrow>
             skip_value (pwrite_full (put_at vbmeta_flags_off (le32_bytes (bswap32 3)) bs) p st))"

definition new_footer :: "bytes \<Rightarrow> u32 \<Rightarrow> u32 \<Rightarrow> bytes" where
  "new_footer old img_size vb_off =
     put_at avb_vbmeta_offset_off (le64_bytes (bswap64 (ucast vb_off)))
       (put_at avb_original_size_off (le64_bytes (bswap64 (ucast img_size))) old)"

definition patch_avb :: "bool \<Rightarrow> boot_img \<Rightarrow> nat \<Rightarrow> u32 \<Rightarrow> unit phase" where
  "patch_avb patch_flag b out_sz img_size =
     whenS (flags b AVB_FLAG) (\<lambda>st.
       if out_sz < avb_footer_size then (Inl Returned, st)
       else thenS (pure_r (bindR (opt_ptr (avb_footer b)) (\<lambda>p. rdp (map_mem b) p avb_footer_size)) st)
         (\<lambda>old st.
           thenS (must_write (new_footer old img_size (off_vbmeta st))
                    (int (out_sz - avb_footer_size)) st) (\<lambda>_ st.
             whenS patch_flag patch_vbmeta_flags st)))"

text \<open>The wrapper in front of the image: its size word, and the checksum of a DHTB payload.\<close>

definition patch_dhtb :: "('z, 'd) libs \<Rightarrow> boot_img \<Rightarrow> u32 \<Rightarrow> unit phase" where
  "patch_dhtb L b img_size st =
     (let n = img_size + 16 + 4
      in case pread_full (unat n) (int dhtb_hdr_size) st of
           None \<Rightarrow> (Inr (), st)
         | Some bs \<Rightarrow>
             thenS (pure_r (rdp (map_mem b) 0 dhtb_hdr_size) st) (\<lambda>old st.
               thenS (pure_r (sha256_hash L bs 32) st) (\<lambda>digest st.
                 let d1 = put_at dhtb_size_off (le32_bytes n) old;
                     d2 = (case digest of None \<Rightarrow> d1 | Some dg \<Rightarrow> put_at dhtb_checksum_off dg d1)
                 in skip_value (pwrite_full d2 0 st))))"

definition patch_blob :: "u32 \<Rightarrow> unit phase" where
  "patch_blob img_size st =
     (case pread_full blob_hdr_size 0 st of
        None \<Rightarrow> (Inr (), st)
      | Some bs \<Rightarrow> skip_value (pwrite_full (put_at blob_size_off (le32_bytes img_size) bs) 0 st))"

definition patch_wrapper :: "('z, 'd) libs \<Rightarrow> boot_img \<Rightarrow> u32 \<Rightarrow> unit phase" where
  "patch_wrapper L b img_size st =
     (if flags b DHTB_FLAG then patch_dhtb L b img_size st
      else if flags b BLOB_FLAG then patch_blob img_size st
      else (Inr (), st))"

definition patch_avb1 :: "boot_img \<Rightarrow> u32 \<Rightarrow> unit phase" where
  "patch_avb1 b img_size =
     whenS (flags b AVB1_SIGNED_FLAG) (\<lambda>st.
       case pread_full (unat img_size) (int (unat (off_header st))) st of
         None \<Rightarrow> (Inr (), st)
       | Some bs \<Rightarrow>
           let sig = sign_payload bs
           in if sig = [] then (Inr (), st)
              else skip_value (put_bytes sig
                (st\<lparr>rp_f := snd (lseek_to (int (unat (off_tail st))) (rp_f st))\<rparr>)))"

definition patch_image ::
    "('z, 'd) libs \<Rightarrow> bool \<Rightarrow> boot_img \<Rightarrow> unit phase" where
  "patch_image L patch_flag b st0 =
     (let img_size = off_tail st0 - off_header st0;
          (file_sz, f) = lseek_end (rp_f st0);
          out_sz = nat file_sz;
          st = st0\<lparr>rp_f := f\<rparr>
      in if file_sz \<le> 0 then (Inl Returned, st)
         else
           thenS (whenS (flags b MTK_KERNEL)
                    (\<lambda>st. patch_mtk Kernel_size (int (unat (off_kernel st))) st) st) (\<lambda>_ st.
           thenS (whenS (flags b MTK_RAMDISK)
                    (\<lambda>st. patch_mtk Ramdisk_size (int (unat (off_ramdisk st))) st) st) (\<lambda>_ st.
           thenS (hdr_put Header_size (of_nat (hdr_size (rp_h st))) st) (\<lambda>_ st.
           thenS (patch_id L b out_sz st) (\<lambda>_ st.
           thenS (pure_r (print_hdr (rp_h st)) st) (\<lambda>_ st.
           thenS (patch_header b out_sz st) (\<lambda>_ st.
           thenS (patch_avb patch_flag b out_sz img_size st) (\<lambda>_ st.
           thenS (patch_wrapper L b img_size st) (\<lambda>_ st.
             patch_avb1 b img_size st)))))))))"

section \<open>repack\<close>

text \<open>
  The new header: a copy of the parsed one with five sizes cleared, then the edits of the header
  file when there is one.
\<close>

definition fresh_header :: "world \<Rightarrow> dyn_img_hdr \<Rightarrow> dyn_img_hdr result" where
  "fresh_header w bh =
     bindR (clone bh) (\<lambda>h.
       let h1 = fold (\<lambda>fl. hdr_set fl 0)
                  [Kernel_size, Ramdisk_size, Second_size, Dtb_size, Bootconfig_size] h
       in if access_ok w HEADER_FILE then load_hdr_file w h1 else Inr h1)"

definition start_rp :: "ofd \<Rightarrow> dyn_img_hdr \<Rightarrow> rp" where
  "start_rp f h = \<lparr>rp_f = f, rp_h = h, off_header = 0, off_kernel = 0, off_ramdisk = 0,
     off_second = 0, off_extra = 0, off_dtb = 0, off_tail = 0, off_vbmeta = 0\<rparr>"

definition repack_image ::
    "('z, 'd) libs \<Rightarrow> bool \<Rightarrow> bool \<Rightarrow> world \<Rightarrow> boot_img \<Rightarrow> dyn_img_hdr \<Rightarrow> unit phase" where
  "repack_image L patch_flag skip_comp w b bh st =
     thenS (put_wrapper b st) (\<lambda>_ st.
     thenS (put_raw_header b st) (\<lambda>_ st.
     thenS (put_blocks L skip_comp w b bh st) (\<lambda>_ st.
     thenS (put_tail b bh st) (\<lambda>_ st.
       patch_image L patch_flag b st))))"

text \<open>\<open>repack\<close> has no result: an early return looks like success.\<close>

definition repack ::
    "('z, 'd) libs \<Rightarrow> bool \<Rightarrow> string \<Rightarrow> string \<Rightarrow> bool \<Rightarrow> world \<Rightarrow> unit run" where
  "repack L patch_flag src_img out_img skip_comp w =
     thenS (liftS (open_boot w src_img) w) (\<lambda>b w.
     thenS (liftS (the_hdr b) w) (\<lambda>bh w.
     thenS (liftS (fresh_header w bh) w) (\<lambda>h w.
       case repack_image L patch_flag skip_comp w b bh (start_rp (fd_opened w out_img) h) of
         (r, st) \<Rightarrow>
           ((case r of Inl (Fail e) \<Rightarrow> Inl e | Inl Returned \<Rightarrow> Inr () | Inr _ \<Rightarrow> Inr ()),
            fd_close w out_img (rp_f st)))))"

end
