(* ===== verification/RepackCorrect.thy ===== *)
theory RepackCorrect
  imports Repack UnpackCorrect BootCorrect HdrFileCorrect
begin

text \<open>
  The blocks of a repacked image on an output file that takes every write: each block lands
  page-aligned behind the previous one and its length in the new header, so that the parser finds
  it again where it was put.
\<close>

section \<open>Output that takes every write\<close>

definition plain_fd :: "ofd \<Rightarrow> bool" where
  "plain_fd f \<longleftrightarrow> appending f \<and> fd_answers f = [] \<and> \<not> fd_bad f"

definition app :: "bytes \<Rightarrow> ofd \<Rightarrow> ofd" where
  "app bs f = f\<lparr>fd_data := fd_data f @ bs, fd_pos := length (fd_data f @ bs)\<rparr>"

lemma app_simps [simp]:
  "fd_data (app bs f) = fd_data f @ bs" "plain_fd f \<Longrightarrow> plain_fd (app bs f)"
  "app as (app bs f) = app (bs @ as) f"
  by (simp_all add: app_def plain_fd_def appending_def)

lemma plain_app_app: "plain_fd (app bs f) \<Longrightarrow> plain_fd (app as f)"
  by (simp add: app_def plain_fd_def appending_def)

lemma app_Nil [simp]: "plain_fd f \<Longrightarrow> app [] f = f"
  by (simp add: app_def plain_fd_def appending_def)

lemma plain_write: "plain_fd f \<Longrightarrow> sys_write bs f = (int (length bs), app bs f)"
  by (simp add: sys_write_def plain_fd_def app_def transfer_def appending_def)

lemma plain_xwrite: "plain_fd f \<Longrightarrow> xwrite bs f = (int (length bs), app bs f)"
  by (simp add: xwrite_def plain_write)

lemma plain_cur: "plain_fd f \<Longrightarrow> lseek_cur f = int (length (fd_data f))"
  by (simp add: lseek_cur_def plain_fd_def appending_def)

lemma plain_zeros: "plain_fd f \<Longrightarrow> write_zero n f = app (replicate n 0) f"
proof (induction n f rule: write_zero.induct)
  case (1 n f)
  show ?case
  proof (cases "n = 0")
    case False
    let ?k = "if n < ZERO_BUF then n else ZERO_BUF"
    have "write_zero n f = write_zero (n - ?k) (app (replicate ?k 0) f)"
      using False 1(2) by (subst write_zero.simps) (simp add: plain_xwrite Let_def)
    also have "\<dots> = app (replicate (n - ?k) 0) (app (replicate ?k 0) f)"
      using 1(1) [OF False refl refl plain_xwrite [OF 1(2), symmetric]] 1(2) by simp
    also have "\<dots> = app (replicate (?k + (n - ?k)) 0) f"
      by (simp only: app_simps replicate_add)
    also have "?k + (n - ?k) = n" by simp
    finally show ?thesis .
  qed (use 1(2) in simp)
qed

section \<open>Rounding up\<close>

definition up :: "nat \<Rightarrow> nat \<Rightarrow> nat" where
  "up a n = (n + a - 1) div a * a"

lemma up_bounds: "0 < a \<Longrightarrow> n \<le> up a n \<and> up a n < n + a"
  unfolding up_def by (rule div_mult_up)

lemma up_dvd: "a dvd up a n"
  by (simp add: up_def)

lemma up_aligned:
  assumes "0 < a" "a dvd n"
  shows "up a n = n"
proof -
  obtain q where q: "n = a * q" using assms(2) by (elim dvdE)
  have "(a * q + (a - 1)) div a = q + (a - 1) div a"
    by (rule div_mult_self4) (use assms(1) in simp)
  moreover have "(a - 1) div a = 0" using assms(1) by simp
  ultimately have "(n + a - 1) div a = q" using assms(1) by (simp add: q)
  then show ?thesis by (simp add: up_def q)
qed

definition padded_to :: "nat \<Rightarrow> bytes \<Rightarrow> bytes" where
  "padded_to a bs = bs @ replicate (up a (length bs) - length bs) 0"

lemma length_padded_to [simp]: "0 < a \<Longrightarrow> length (padded_to a bs) = up a (length bs)"
  using up_bounds [of a "length bs"] by (simp add: padded_to_def)

lemma align_padding_off_nat:
  assumes "0 < a"
  shows "align_padding_off (int n) (int a) = Inr (int (up a n - n))"
proof -
  have sum: "int n + int a - 1 = int (n + a - 1)" using assms by simp
  have "int (n + a - 1) sdiv int a = int (n + a - 1) div int a"
    using assms by (simp add: signed_divide_int_def sgn_if)
  then have "int (n + a - 1) sdiv int a * int a = int (up a n)"
    by (simp only: up_def of_nat_mult of_nat_div)
  then have eq: "(int n + int a - 1) sdiv int a * int a = int (up a n)" by (simp only: sum)
  have "int a \<noteq> 0" using assms by simp
  then have "align_padding_off (int n) (int a) = Inr (int (up a n) - int n)"
    unfolding align_padding_off_def align_to_off_def eq by (simp only: if_False bindR_Inr)
  then show ?thesis using up_bounds [OF assms, of n] by (simp add: of_nat_diff)
qed

section \<open>One block\<close>

definition out :: "rp \<Rightarrow> bytes" where
  "out st = fd_data (rp_f st)"

definition rp_ok :: "rp \<Rightarrow> bool" where
  "rp_ok st \<longleftrightarrow> plain_fd (rp_f st) \<and> wf_hdr (rp_h st) \<and> off_header st = 0"

definition page_of :: "dyn_img_hdr \<Rightarrow> nat" where
  "page_of h = unat (hdr_get Page_size h)"

lemma sane_page_of: "sane_page h \<Longrightarrow> 0 < page_of h \<and> sint (hdr_get Page_size h) = int (page_of h)"
  unfolding sane_page_def page_of_def by (blast intro: sint_small32)

text \<open>
  A header that \<open>parse_hdr\<close> takes for what it is when it finds it at the start of a file: magic and
  version word are those of its version, and the bytes in which a wrapper or another kind of header
  would show, most of them part of the command line, are not those of one. Repacking changes sizes
  only, so it stays one.
\<close>

definition bare_header :: "dyn_img_hdr \<Rightarrow> bool" where
  "bare_header h \<longleftrightarrow>
     (if is_vendor h
      then view 0 8 (raw h) = VENDOR_BOOT_MAGIC \<and> (ver h = VND_V4 \<longleftrightarrow> le32 (view 8 4 (raw h)) = 4)
      else view 0 8 (raw h) = BOOT_MAGIC \<and> le32 (view 36 4 (raw h)) < 0x02000000 \<and>
        (ver h = V3 \<and> le32 (view 40 4 (raw h)) = 3 \<or> ver h = V4 \<and> le32 (view 40 4 (raw h)) = 4) \<and>
        view 48 (length ACCLAIM_MAGIC) (raw h) \<noteq> ACCLAIM_MAGIC \<and>
        (\<forall>m \<in> set NOOKHD_MAGICS. view 64 (length m) (raw h) \<noteq> m) \<and> view 1024 8 (raw h) \<noteq> BOOT_MAGIC)"

definition resized :: "field set" where
  "resized = {Kernel_size, Ramdisk_size, Second_size, Extra_size, Recovery_dtbo_size, Dtb_size,
     Bootconfig_size, Header_size}"

lemma view_hdr_set:
  assumes "wf_hdr h" "\<And>o'. field_off (ver h) fl = Some o' \<Longrightarrow> off + n \<le> o' \<or> o' + 4 \<le> off"
  shows "view off n (raw (hdr_set fl v h)) = view off n (raw h)"
proof (cases "field_off (ver h) fl")
  case (Some o')
  have "o' + length (le32_bytes v) \<le> length (raw h)"
    using field_inside [OF Some] assms(1) by (simp add: wf_hdr_def hdr_size_def)
  then have "view off n (put_at o' (le32_bytes v) (raw h)) = view off n (raw h)"
    using assms(2) [OF Some] view_put_at_before view_put_at_after by (metis length_le32_bytes)
  then show ?thesis by (simp add: hdr_set_def Some)
qed (simp add: hdr_set_def)

lemma bare_hdr_set:
  assumes "wf_hdr h" "fl \<in> resized"
  shows "bare_header (hdr_set fl v h) = bare_header h"
proof -
  have vnd: "view off n (raw (hdr_set fl v h)) = view off n (raw h)" if "is_vendor h" "off + n \<le> 12" for off n
    using that assms(2) by (intro view_hdr_set [OF assms(1)]) (auto simp: is_vendor_def resized_def off_defs)
  have boot: "view off n (raw (hdr_set fl v h)) = view off n (raw h)"
    if "ver h = V3 \<or> ver h = V4" "off + n \<le> 8 \<or> 24 \<le> off" for off n
    using that assms(2) by (intro view_hdr_set [OF assms(1)]) (auto simp: resized_def off_defs)
  have "is_vendor (hdr_set fl v h) = is_vendor h" by (simp add: is_vendor_def)
  then show ?thesis using vnd boot by (cases "is_vendor h"; cases "ver h") (simp_all add: bare_header_def)
qed

text \<open>
  What every phase that writes a block does: the data, then zeros up to the page, and the length
  in the header.
\<close>

definition wrote :: "nat \<Rightarrow> field \<Rightarrow> bytes \<Rightarrow> rp \<Rightarrow> rp \<Rightarrow> bool" where
  "wrote page fl d st st' \<longleftrightarrow> rp_ok st' \<and> out st' = padded_to page (out st @ d) \<and>
     ver (rp_h st') = ver (rp_h st) \<and>
     (\<forall>sf. text_of sf (rp_h st') = text_of sf (rp_h st)) \<and>
     (fl \<in> resized \<longrightarrow> bare_header (rp_h st') = bare_header (rp_h st)) \<and>
     (\<forall>gl. hdr_get gl (rp_h st') =
        (if gl = fl \<and> has_field (rp_h st) fl then of_nat (length d) else hdr_get gl (rp_h st)))"

lemma wrote_out: "wrote page fl d st st' \<Longrightarrow> out st' = padded_to page (out st @ d)"
  by (simp add: wrote_def)

lemma file_align_plain:
  assumes "rp_ok st" "sane_page bh"
  shows "file_align bh st =
    (Inr (), st\<lparr>rp_f := app (replicate (up (page_of bh) (length (out st)) - length (out st)) 0) (rp_f st)\<rparr>)"
proof -
  let ?n = "length (out st)" and ?p = "page_of bh"
  have p: "0 < ?p" "sint (hdr_get Page_size bh) = int ?p" "?p < 2 ^ 31"
    using sane_page_of [OF assms(2)] assms(2) by (simp_all add: page_of_def sane_page_def)
  have f: "plain_fd (rp_f st)" "off_header st = 0" using assms(1) by (simp_all add: rp_ok_def)
  have c: "cur st - int (unat (off_header st)) = int ?n"
    using plain_cur [OF f(1)] by (simp add: cur_def f(2) out_def)
  have "up ?p ?n - ?n < 2 ^ 31" using up_bounds [OF p(1), of ?n] p(3) by linarith
  then have "int (up ?p ?n - ?n) < int (2 ^ 31)" by (simp only: of_nat_less_iff)
  then have z: "size_of_off (int (up ?p ?n - ?n)) = up ?p ?n - ?n"
    by (subst size_of_off_nonneg) simp_all
  show ?thesis
    unfolding file_align_def file_align_with_def c p(2) align_padding_off_nat [OF p(1)]
    by (simp add: pure_r_def put_zeros_def z plain_zeros [OF f(1)])
qed

text \<open>The steps of a phase before the padding: data appended, its size stored.\<close>

definition stored :: "field \<Rightarrow> bytes \<Rightarrow> rp \<Rightarrow> rp \<Rightarrow> bool" where
  "stored fl d st st' \<longleftrightarrow> rp_ok st' \<and> rp_f st' = app d (rp_f st) \<and> ver (rp_h st') = ver (rp_h st) \<and>
     (\<forall>sf. text_of sf (rp_h st') = text_of sf (rp_h st)) \<and>
     (fl \<in> resized \<longrightarrow> bare_header (rp_h st') = bare_header (rp_h st)) \<and>
     (\<forall>gl. hdr_get gl (rp_h st') =
        (if gl = fl \<and> has_field (rp_h st) fl then of_nat (length d) else hdr_get gl (rp_h st)))"

lemma stored_put:
  assumes "rp_ok st"
  shows "stored fl d st (st\<lparr>rp_f := app d (rp_f st), rp_h := hdr_set fl (of_nat (length d)) (rp_h st)\<rparr>)"
proof -
  have h: "wf_hdr (rp_h st)" using assms by (simp add: rp_ok_def)
  have "hdr_get gl (hdr_set fl (of_nat (length d)) (rp_h st)) =
      (if gl = fl \<and> has_field (rp_h st) fl then of_nat (length d) else hdr_get gl (rp_h st))" for gl
    using hdr_get_set_same [OF h, of fl] hdr_get_set_other [OF h, of fl gl]
      hdr_set_absent [of "rp_h st" fl] by auto
  then show ?thesis using assms h by (simp add: stored_def rp_ok_def text_of_hdr_set bare_hdr_set)
qed

lemma stored_align:
  assumes "stored fl d st st'" "sane_page bh"
  shows "\<exists>st''. file_align bh st' = (Inr (), st'') \<and> wrote (page_of bh) fl d st st''"
proof -
  have ok: "rp_ok st'" and o: "out st' = out st @ d" using assms(1) by (simp_all add: stored_def out_def)
  show ?thesis
    using assms(1) file_align_plain [OF ok assms(2)] o ok
    by (auto simp: stored_def wrote_def rp_ok_def padded_to_def out_def intro: plain_app_app)
qed

lemma put_then_align:
  assumes "rp_ok st" "sane_page bh"
  shows "\<exists>st'. thenS (hdr_put fl (u32_of (int (length d))) (st\<lparr>rp_f := app d (rp_f st)\<rparr>))
      (\<lambda>_. file_align bh) = (Inr (), st') \<and> wrote (page_of bh) fl d st st'"
  using stored_align [OF stored_put [OF assms(1)] assms(2)]
  by (simp add: hdr_put_def u32_of_def)

lemma wrote_nothing:
  assumes "rp_ok st" "0 < page" "page dvd length (out st)" "hdr_get fl (rp_h st) = 0"
  shows "wrote page fl [] st st"
  using assms up_aligned [OF assms(2,3)] by (auto simp: wrote_def padded_to_def)

text \<open>The offsets a phase records play no part in it.\<close>

definition same_output :: "rp \<Rightarrow> rp \<Rightarrow> bool" where
  "same_output st st' \<longleftrightarrow> rp_f st' = rp_f st \<and> rp_h st' = rp_h st \<and> off_header st' = off_header st"

lemma same_output_wrote: "same_output st0 st \<Longrightarrow> wrote page fl d st st' = wrote page fl d st0 st'"
  by (simp add: same_output_def wrote_def out_def)

lemma same_output_ok: "same_output st0 st \<Longrightarrow> rp_ok st = rp_ok st0 \<and> out st = out st0"
  by (simp add: same_output_def rp_ok_def out_def)

section \<open>Blocks from files\<close>

definition content :: "world \<Rightarrow> string \<Rightarrow> bytes" where
  "content w name = (case read_file w name of None \<Rightarrow> [] | Some d \<Rightarrow> d)"

lemma plain_mmap_bytes: "plain_world w \<Longrightarrow> mmap_bytes w name = content w name"
  by (simp add: mmap_bytes_def mmap_data_def content_def plain_world_def willing_def split: option.splits)

lemma access_content: "access_ok w name \<Longrightarrow> read_file w name = Some (content w name)"
  by (auto simp: access_ok_def content_def)

text \<open>A phase that may write a block: it does when its file is there, and otherwise the size is 0.\<close>

definition file_or_none :: "world \<Rightarrow> string \<Rightarrow> field \<Rightarrow> nat \<Rightarrow> rp \<Rightarrow> bool" where
  "file_or_none w name fl page st \<longleftrightarrow> rp_ok st \<and> page dvd length (out st) \<and>
     length (content w name) < 2 ^ 32 \<and> (\<not> access_ok w name \<longrightarrow> hdr_get fl (rp_h st) = 0)"

lemma no_file: "\<not> access_ok w name \<Longrightarrow> content w name = []"
  by (auto simp: access_ok_def content_def)

lemma put_restored_wrote:
  assumes "file_or_none w name fl (page_of bh) st" "sane_page bh"
  shows "\<exists>st'. put_restored w bh fl name st = (Inr (), st') \<and>
    wrote (page_of bh) fl (content w name) st st'"
proof (cases "access_ok w name")
  case True
  have ok: "rp_ok st" "length (content w name) < 2 ^ 32" using assms(1) by (simp_all add: file_or_none_def)
  then have "plain_fd (rp_f st)" by (simp add: rp_ok_def)
  then have "put_restored w bh fl name st =
      thenS (hdr_put fl (u32_of (int (length (content w name)))) (st\<lparr>rp_f := app (content w name) (rp_f st)\<rparr>))
        (\<lambda>_. file_align bh)"
    using True access_content [OF True] by (simp add: put_restored_def restore_def plain_write)
  with put_then_align [OF ok(1) assms(2)] show ?thesis by simp
next
  case False
  then have "wrote (page_of bh) fl [] st st"
    using assms sane_page_of [OF assms(2)] by (intro wrote_nothing) (auto simp: file_or_none_def)
  then show ?thesis using False by (simp add: put_restored_def no_file)
qed

lemma put_second_wrote:
  assumes "file_or_none w SECOND_FILE Second_size (page_of bh) st" "sane_page bh"
  shows "\<exists>st'. put_second w bh st = (Inr (), st') \<and>
    wrote (page_of bh) Second_size (content w SECOND_FILE) st st'"
proof -
  let ?st = "st\<lparr>off_second := u32_of (cur st)\<rparr>"
  have so: "same_output st ?st" by (simp add: same_output_def)
  have "file_or_none w SECOND_FILE Second_size (page_of bh) ?st"
    using assms(1) same_output_ok [OF so] so by (simp add: file_or_none_def same_output_def)
  from put_restored_wrote [OF this assms(2)] show ?thesis
    by (simp add: put_second_def same_output_wrote [OF so])
qed

lemma put_dtb_wrote:
  assumes "file_or_none w DTB_FILE Dtb_size (page_of bh) st" "sane_page bh"
  shows "\<exists>st'. put_dtb w bh st = (Inr (), st') \<and>
    wrote (page_of bh) Dtb_size (content w DTB_FILE) st st'"
proof -
  let ?st = "st\<lparr>off_dtb := u32_of (cur st)\<rparr>"
  have so: "same_output st ?st" by (simp add: same_output_def)
  have "file_or_none w DTB_FILE Dtb_size (page_of bh) ?st"
    using assms(1) same_output_ok [OF so] so by (simp add: file_or_none_def same_output_def)
  from put_restored_wrote [OF this assms(2)] show ?thesis
    by (simp add: put_dtb_def same_output_wrote [OF so])
qed

lemma put_bytes_plain:
  "rp_ok st \<Longrightarrow> put_bytes d st = (Inr (int (length d)), st\<lparr>rp_f := app d (rp_f st)\<rparr>)"
  by (simp add: put_bytes_def rp_ok_def plain_xwrite)

lemma put_block_raw: "put_block L True fmt d = put_bytes d"
  by (rule ext) (simp add: put_block_def wants_compression_def)

lemma put_extra_wrote:
  assumes "file_or_none w EXTRA_FILE Extra_size (page_of bh) st" "sane_page bh" "plain_world w"
  shows "\<exists>st'. put_extra L True w b bh st = (Inr (), st') \<and>
    wrote (page_of bh) Extra_size (content w EXTRA_FILE) st st'"
proof -
  let ?st = "st\<lparr>off_extra := u32_of (cur st)\<rparr>" and ?d = "content w EXTRA_FILE"
  have so: "same_output st ?st" by (simp add: same_output_def)
  have ok: "rp_ok ?st" "length ?d < 2 ^ 32"
    using assms(1) same_output_ok [OF so] by (simp_all add: file_or_none_def)
  show ?thesis
  proof (cases "access_ok w EXTRA_FILE")
    case True
    then have "put_extra L True w b bh st =
        thenS (hdr_put Extra_size (u32_of (int (length ?d))) (?st\<lparr>rp_f := app ?d (rp_f ?st)\<rparr>))
          (\<lambda>_. file_align bh)"
      using put_bytes_plain [OF ok(1), of ?d] assms(3)
      by (simp add: put_extra_def put_block_raw plain_mmap_bytes)
    with put_then_align [OF ok(1) assms(2)] show ?thesis
      by (simp add: same_output_wrote [OF so])
  next
    case False
    then have "wrote (page_of bh) Extra_size [] ?st ?st"
      using assms sane_page_of [OF assms(2)] same_output_ok [OF so] so
      by (intro wrote_nothing) (auto simp: file_or_none_def same_output_def)
    with False show ?thesis
      by (simp add: put_extra_def no_file same_output_wrote [OF so])
  qed
qed

text \<open>The offset of the recovery device tree is stored beside the 32-bit fields.\<close>

lemma set_offset_keeps:
  assumes "wf_hdr h"
  shows "wf_hdr (set_recovery_dtbo_offset v h)" "ver (set_recovery_dtbo_offset v h) = ver h"
    "hdr_get fl (set_recovery_dtbo_offset v h) = hdr_get fl h"
    "text_of sf (set_recovery_dtbo_offset v h) = text_of sf h"
    "bare_header (set_recovery_dtbo_offset v h) = bare_header h"
proof -
  have in1: "1644 \<le> length (raw h)" if "ver h = V1 \<or> ver h = V2"
    using that assms by (auto simp: wf_hdr_def hdr_size_def)
  then show "wf_hdr (set_recovery_dtbo_offset v h)" "ver (set_recovery_dtbo_offset v h) = ver h"
    using assms by (auto simp: set_recovery_dtbo_offset_def wf_hdr_def hdr_size_def)
  show "text_of sf (set_recovery_dtbo_offset v h) = text_of sf h"
    using in1 by (cases sf) (auto simp: set_recovery_dtbo_offset_def text_of_def str_defs view_put_at_before)
  show "bare_header (set_recovery_dtbo_offset v h) = bare_header h"
    by (simp add: set_recovery_dtbo_offset_def bare_header_def is_vendor_def)
  have apart: "off + 4 \<le> 1636 \<or> 1644 \<le> off" if "ver h = V1 \<or> ver h = V2" "field_off (ver h) fl = Some off" for off
    using that by (cases fl) (auto simp: off_defs)
  have "view off 4 (put_at 1636 (le64_bytes v) (raw h)) = view off 4 (raw h)"
    if "ver h = V1 \<or> ver h = V2" "field_off (ver h) fl = Some off" for off
    using apart [OF that] in1 [OF that(1)]
    by (elim disjE) (simp_all add: view_put_at_before view_put_at_after)
  then show "hdr_get fl (set_recovery_dtbo_offset v h) = hdr_get fl h"
    by (auto simp: set_recovery_dtbo_offset_def hdr_get_def split: option.splits)
qed

lemma put_recovery_dtbo_wrote:
  assumes "file_or_none w RECV_DTBO_FILE Recovery_dtbo_size (page_of bh) st" "sane_page bh"
  shows "\<exists>st'. put_recovery_dtbo w bh st = (Inr (), st') \<and>
    wrote (page_of bh) Recovery_dtbo_size (content w RECV_DTBO_FILE) st st'"
proof (cases "access_ok w RECV_DTBO_FILE")
  case True
  let ?st = "st\<lparr>rp_h := set_recovery_dtbo_offset (word_of_int (cur st)) (rp_h st)\<rparr>"
  have wf: "wf_hdr (rp_h st)" using assms(1) by (simp add: file_or_none_def rp_ok_def)
  note same = set_offset_keeps [OF wf]
  have "file_or_none w RECV_DTBO_FILE Recovery_dtbo_size (page_of bh) ?st"
    using assms(1) same by (simp add: file_or_none_def rp_ok_def out_def)
  moreover have "wrote page fl d ?st st' = wrote page fl d st st'" for page fl d st'
    by (simp add: wrote_def out_def has_field_def same)
  ultimately show ?thesis
    using put_restored_wrote [of w RECV_DTBO_FILE Recovery_dtbo_size bh ?st] assms(2) True
    by (simp add: put_recovery_dtbo_def)
next
  case False
  with put_restored_wrote [OF assms] show ?thesis by (simp add: put_recovery_dtbo_def)
qed

text \<open>The ramdisk of an image without a vendor table; an empty file would end the run.\<close>

lemma put_ramdisk_wrote:
  assumes "file_or_none w RAMDISK_FILE Ramdisk_size (page_of bh) st" "sane_page bh" "plain_world w"
    "\<not> flags b MTK_RAMDISK" "hdr_get Vendor_ramdisk_table_size bh = 0"
    "access_ok w RAMDISK_FILE \<longrightarrow> content w RAMDISK_FILE \<noteq> []"
  shows "\<exists>st'. put_ramdisk L True w b bh st = (Inr [], st') \<and>
    wrote (page_of bh) Ramdisk_size (content w RAMDISK_FILE) st st'"
proof -
  let ?st = "st\<lparr>off_ramdisk := u32_of (cur st)\<rparr>" and ?d = "content w RAMDISK_FILE"
  have so: "same_output st ?st" by (simp add: same_output_def)
  have ok: "rp_ok ?st" "length ?d < 2 ^ 32"
    using assms(1) same_output_ok [OF so] by (simp_all add: file_or_none_def)
  show ?thesis
  proof (cases "access_ok w RAMDISK_FILE")
    case True
    then have "mmap_data w RAMDISK_FILE = Some ?d"
      using access_content [OF True] assms(3,6) by (simp add: mmap_data_def plain_world_def willing_def)
    then have run: "put_ramdisk L True w b bh st =
        thenS (thenS (hdr_put Ramdisk_size (u32_of (int (length ?d))) (?st\<lparr>rp_f := app ?d (rp_f ?st)\<rparr>))
          (\<lambda>_. file_align bh)) (\<lambda>_ st. (Inr [], st))"
      using True assms(4,5) put_bytes_plain [OF ok(1), of ?d]
      by (simp add: put_ramdisk_def Let_def put_block_raw hdr_put_def)
    obtain st' where "thenS (hdr_put Ramdisk_size (u32_of (int (length ?d))) (?st\<lparr>rp_f := app ?d (rp_f ?st)\<rparr>))
          (\<lambda>_. file_align bh) = (Inr (), st')" "wrote (page_of bh) Ramdisk_size ?d ?st st'"
      using put_then_align [OF ok(1) assms(2)] by blast
    then show ?thesis unfolding run by (simp add: same_output_wrote [OF so])
  next
    case False
    then have "wrote (page_of bh) Ramdisk_size [] ?st ?st"
      using assms sane_page_of [OF assms(2)] same_output_ok [OF so] so
      by (intro wrote_nothing) (auto simp: file_or_none_def same_output_def)
    with False assms(4,5) show ?thesis
      by (simp add: put_ramdisk_def Let_def no_file same_output_wrote [OF so])
  qed
qed

section \<open>Kernel\<close>

definition kernel_part :: "world \<Rightarrow> boot_img \<Rightarrow> dyn_img_hdr \<Rightarrow> bytes" where
  "kernel_part w b bh =
     (if access_ok w KERNEL_FILE then content w KERNEL_FILE
      else view (nat (kernel b)) (unat (hdr_get Kernel_size bh)) (map_mem b))"

definition kernel_data :: "world \<Rightarrow> boot_img \<Rightarrow> dyn_img_hdr \<Rightarrow> bytes" where
  "kernel_data w b bh = kernel_part w b bh @ content w KER_DTB_FILE"

lemma stored_nothing: "rp_ok st \<Longrightarrow> hdr_get fl (rp_h st) = 0 \<Longrightarrow> stored fl [] st st"
  by (auto simp: stored_def rp_ok_def)

lemma kernel_part_stored:
  assumes "rp_ok st" "hdr_get Kernel_size (rp_h st) = 0" "plain_world w" "\<not> flags b ZIMAGE_KERNEL"
    "access_ok w KERNEL_FILE \<or> hdr_get Kernel_size bh = 0 \<or>
      inside (map_mem b) (kernel b) (unat (hdr_get Kernel_size bh))"
  shows "\<exists>st'. (if access_ok w KERNEL_FILE
            then put_kernel_file L True b bh (mmap_bytes w KERNEL_FILE) st
            else if hdr_get Kernel_size bh \<noteq> 0
            then thenS (put_mem b (kernel b) (unat (hdr_get Kernel_size bh)) st) (\<lambda>_.
                   hdr_put Kernel_size (hdr_get Kernel_size bh))
            else (Inr (), st)) = (Inr (), st') \<and> stored Kernel_size (kernel_part w b bh) st st'"
proof (cases "access_ok w KERNEL_FILE")
  case True
  then show ?thesis
    using assms(1,3,4) stored_put [OF assms(1)]
    by (simp add: put_kernel_file_def wants_compression_def put_bytes_plain plain_mmap_bytes
        hdr_put_def u32_of_def kernel_part_def)
next
  case False
  show ?thesis
  proof (cases "hdr_get Kernel_size bh = 0")
    case True
    with False assms(1,2) show ?thesis
      using stored_nothing [OF assms(1,2)] by (simp add: kernel_part_def)
  next
    case nonzero: False
    let ?n = "unat (hdr_get Kernel_size bh)"
    have ins: "inside (map_mem b) (kernel b) ?n" using assms(5) False nonzero by simp
    then have len: "length (view (nat (kernel b)) ?n (map_mem b)) = ?n"
      by (simp add: inside_def min_absorb1 le_diff_conv2)
    have "hdr_get Kernel_size bh = of_nat (length (view (nat (kernel b)) ?n (map_mem b)))"
      by (subst len) simp
    with False nonzero stored_put [OF assms(1), of Kernel_size "view (nat (kernel b)) ?n (map_mem b)"]
    show ?thesis
      using put_bytes_plain [OF assms(1)] rdp_inside [OF ins]
      by (simp add: put_mem_def pure_r_def hdr_put_def kernel_part_def)
  qed
qed

lemma stored_more:
  assumes "stored Kernel_size d st st1" "length (d @ e) < 2 ^ 32" "rp_ok st"
    "hdr_get Kernel_size (rp_h st) = 0"
  shows "\<exists>st'. thenS (Inr (int (length e)), st1\<lparr>rp_f := app e (rp_f st1)\<rparr>) add_kernel_size = (Inr (), st') \<and>
    stored Kernel_size (d @ e) st st'"
proof -
  let ?h = "hdr_set Kernel_size (u32_of (int (unat (hdr_get Kernel_size (rp_h st1))) + int (length e))) (rp_h st1)"
  have ok: "rp_ok st1" "wf_hdr (rp_h st1)" "rp_f st1 = app d (rp_f st)" "ver (rp_h st1) = ver (rp_h st)"
    "has_field (rp_h st1) Kernel_size = has_field (rp_h st) Kernel_size"
    using assms(1) by (auto simp: stored_def rp_ok_def has_field_def)
  have len: "length d < 2 ^ 32" using assms(2) by simp
  have "hdr_get gl ?h = (if gl = Kernel_size \<and> has_field (rp_h st) Kernel_size
      then of_nat (length (d @ e)) else hdr_get gl (rp_h st))" for gl
  proof (cases "has_field (rp_h st) Kernel_size")
    case True
    then have "hdr_get Kernel_size (rp_h st1) = of_nat (length d)" using assms(1) by (simp add: stored_def)
    then have "int (unat (hdr_get Kernel_size (rp_h st1))) + int (length e) = int (length (d @ e))"
      using len by (simp add: unsigned_of_nat take_bit_nat_eq_self)
    then have "u32_of (int (unat (hdr_get Kernel_size (rp_h st1))) + int (length e)) = of_nat (length (d @ e))"
      by (simp only: u32_of_def of_int_of_nat_eq)
    with True show ?thesis
      using hdr_get_set_same [OF ok(2), of Kernel_size] hdr_get_set_other [OF ok(2), of Kernel_size gl]
        ok(5) assms(1) by (auto simp: stored_def)
  next
    case False
    with ok(5) have "?h = rp_h st1" by (intro hdr_set_absent) simp
    with False assms(1) show ?thesis by (auto simp: stored_def)
  qed
  then show ?thesis
    using ok plain_app_app [of d "rp_f st" "d @ e"] assms(1)
    by (simp add: add_kernel_size_def hdr_put_def h_get_def stored_def rp_ok_def text_of_hdr_set bare_hdr_set)
qed

definition kernel_ready :: "world \<Rightarrow> boot_img \<Rightarrow> dyn_img_hdr \<Rightarrow> rp \<Rightarrow> bool" where
  "kernel_ready w b bh st \<longleftrightarrow> rp_ok st \<and> hdr_get Kernel_size (rp_h st) = 0 \<and>
     \<not> flags b ZIMAGE_KERNEL \<and> \<not> flags b MTK_KERNEL \<and> length (kernel_data w b bh) < 2 ^ 32 \<and>
     (access_ok w KERNEL_FILE \<or> hdr_get Kernel_size bh = 0 \<or>
       inside (map_mem b) (kernel b) (unat (hdr_get Kernel_size bh)))"

lemma put_kernel_wrote:
  assumes "kernel_ready w b bh st" "sane_page bh" "plain_world w"
  shows "\<exists>st'. put_kernel L True w b bh st = (Inr (), st') \<and>
    wrote (page_of bh) Kernel_size (kernel_data w b bh) st st'"
proof -
  let ?st = "st\<lparr>off_kernel := u32_of (cur st)\<rparr>"
  have so: "same_output st ?st" by (simp add: same_output_def)
  have k: "rp_ok ?st" "hdr_get Kernel_size (rp_h ?st) = 0" "\<not> flags b ZIMAGE_KERNEL" "\<not> flags b MTK_KERNEL"
    "access_ok w KERNEL_FILE \<or> hdr_get Kernel_size bh = 0 \<or>
      inside (map_mem b) (kernel b) (unat (hdr_get Kernel_size bh))"
    using assms(1) same_output_ok [OF so] by (simp_all add: kernel_ready_def)
  from kernel_part_stored [OF k(1,2) assms(3) k(3,5)] obtain st1 where st1:
    "(if access_ok w KERNEL_FILE
            then put_kernel_file L True b bh (mmap_bytes w KERNEL_FILE) ?st
            else if hdr_get Kernel_size bh \<noteq> 0
            then thenS (put_mem b (kernel b) (unat (hdr_get Kernel_size bh)) ?st) (\<lambda>_.
                   hdr_put Kernel_size (hdr_get Kernel_size bh))
            else (Inr (), ?st)) = (Inr (), st1)"
    "stored Kernel_size (kernel_part w b bh) ?st st1" by blast
  obtain st2 where st2: "whenS (access_ok w KER_DTB_FILE) (\<lambda>st.
      thenS (restore w KER_DTB_FILE st) add_kernel_size) st1 = (Inr (), st2)"
    "stored Kernel_size (kernel_data w b bh) ?st st2"
  proof (cases "access_ok w KER_DTB_FILE")
    case True
    have "plain_fd (rp_f st1)" using st1(2) unfolding stored_def rp_ok_def by blast
    then have "restore w KER_DTB_FILE st1 = (Inr (int (length (content w KER_DTB_FILE))),
        st1\<lparr>rp_f := app (content w KER_DTB_FILE) (rp_f st1)\<rparr>)"
      using access_content [OF True] by (simp add: restore_def plain_write)
    moreover have "length (kernel_part w b bh @ content w KER_DTB_FILE) < 2 ^ 32"
      using assms(1) by (simp add: kernel_ready_def kernel_data_def)
    ultimately show ?thesis
      using True that stored_more [OF st1(2) _ k(1,2)] by (fastforce simp: kernel_data_def)
  next
    case False
    then show ?thesis using that st1(2) by (simp add: kernel_data_def no_file)
  qed
  from stored_align [OF st2(2) assms(2)] obtain st3 where
    "file_align bh st2 = (Inr (), st3)" "wrote (page_of bh) Kernel_size (kernel_data w b bh) ?st st3" by blast
  then show ?thesis
    using st1(1) st2(1) k(3,4) by (simp add: put_kernel_def Let_def same_output_wrote [OF so])
qed

section \<open>All blocks\<close>

fun wrote_all :: "nat \<Rightarrow> (field \<times> bytes) list \<Rightarrow> rp \<Rightarrow> rp \<Rightarrow> bool" where
  "wrote_all page [] st st' \<longleftrightarrow> st' = st \<and> rp_ok st"
| "wrote_all page ((fl, d) # r) st st' \<longleftrightarrow> (\<exists>st1. wrote page fl d st st1 \<and> wrote_all page r st1 st')"

definition laid :: "nat \<Rightarrow> bytes \<Rightarrow> bytes list \<Rightarrow> bytes" where
  "laid page = foldl (\<lambda>o' d. padded_to page (o' @ d))"

lemma laid_simps [simp]: "laid page o' [] = o'" "laid page o' (d # ds) = laid page (padded_to page (o' @ d)) ds"
  by (simp_all add: laid_def)

lemma laid_longer: "0 < page \<Longrightarrow> \<exists>r. laid page o' ds = o' @ r"
proof (induction ds arbitrary: o')
  case (Cons d ds)
  from Cons.IH [OF Cons.prems, of "padded_to page (o' @ d)"] show ?case by (auto simp: padded_to_def)
qed simp

definition laid_size :: "nat \<Rightarrow> nat \<Rightarrow> bytes list \<Rightarrow> nat" where
  "laid_size page = foldl (\<lambda>n d. up page (n + length d))"

lemma laid_size_simps [simp]: "laid_size page n [] = n"
  "laid_size page n (d # ds) = laid_size page (up page (n + length d)) ds"
  by (simp_all add: laid_size_def)

lemma length_laid: "0 < page \<Longrightarrow> length (laid page o' ds) = laid_size page (length o') ds"
  by (induction ds arbitrary: o') simp_all

lemma laid_size_bounds:
  assumes "0 < page"
  shows "n \<le> laid_size page n ds" "d \<in> set ds \<Longrightarrow> length d \<le> laid_size page n ds"
proof -
  have step: "n + length d \<le> up page (n + length d)" for n d using up_bounds [OF assms] by blast
  show ge: "n \<le> laid_size page n ds" for n ds
  proof (induction ds arbitrary: n)
    case (Cons d ds)
    show ?case using step [of n d] Cons.IH [of "up page (n + length d)"] by simp
  qed simp
  show "d \<in> set ds \<Longrightarrow> length d \<le> laid_size page n ds"
  proof (induction ds arbitrary: n)
    case (Cons e ds)
    show ?case
    proof (cases "d = e")
      case True
      then show ?thesis using step [of n d] ge [of "up page (n + length d)" ds] by simp
    next
      case False
      then show ?thesis using Cons by simp
    qed
  qed simp
qed

lemma wrote_all_result:
  assumes "wrote_all page l st st'" "distinct (map fst l)"
  shows "out st' = laid page (out st) (map snd l) \<and> rp_ok st' \<and> ver (rp_h st') = ver (rp_h st) \<and>
    (\<forall>sf. text_of sf (rp_h st') = text_of sf (rp_h st)) \<and>
    (fst ` set l \<subseteq> resized \<longrightarrow> bare_header (rp_h st') = bare_header (rp_h st)) \<and>
    (\<forall>(fl, d) \<in> set l. has_field (rp_h st) fl \<longrightarrow> hdr_get fl (rp_h st') = of_nat (length d)) \<and>
    (\<forall>gl. gl \<notin> fst ` set l \<or> \<not> has_field (rp_h st) gl \<longrightarrow> hdr_get gl (rp_h st') = hdr_get gl (rp_h st))"
  using assms
proof (induction l arbitrary: st)
  case (Cons p l)
  obtain fl d where p: "p = (fl, d)" by (cases p)
  obtain st1 where st1: "wrote page fl d st st1" "wrote_all page l st1 st'"
    using Cons.prems(1) by (auto simp: p)
  have d: "distinct (map fst l)" "fl \<notin> fst ` set l" using Cons.prems(2) by (simp_all add: p)
  have has: "has_field (rp_h st1) gl = has_field (rp_h st) gl" for gl
    using st1(1) by (simp add: wrote_def has_field_def)
  note IH = Cons.IH [OF st1(2) d(1)]
  have "hdr_get fl (rp_h st') = of_nat (length d)" if "has_field (rp_h st) fl"
    using that IH d(2) st1(1) by (simp add: wrote_def)
  then show ?case
    using IH d(2) st1(1) has by (auto simp: p wrote_def)
qed simp

lemma wrote_file_or_none:
  assumes "wrote page fl d st st'" "file_or_none w name gl page st" "gl \<noteq> fl" "0 < page"
  shows "file_or_none w name gl page st'"
proof -
  have "page dvd length (out st')"
    using assms(1,4) by (simp add: wrote_def up_dvd)
  then show ?thesis using assms(1-3) by (simp add: file_or_none_def wrote_def)
qed

definition block_data :: "world \<Rightarrow> boot_img \<Rightarrow> dyn_img_hdr \<Rightarrow> (field \<times> bytes) list" where
  "block_data w b bh =
     [(Kernel_size, kernel_data w b bh), (Ramdisk_size, content w RAMDISK_FILE),
      (Second_size, content w SECOND_FILE), (Extra_size, content w EXTRA_FILE),
      (Recovery_dtbo_size, content w RECV_DTBO_FILE), (Dtb_size, content w DTB_FILE),
      (Bootconfig_size, content w BOOTCONFIG_FILE)]"

text \<open>
  When the blocks can be written without compression: no MTK header, zImage, signature or vendor
  table, a ramdisk file that is not empty, and sizes of missing files that are 0.
\<close>

definition repackable :: "world \<Rightarrow> boot_img \<Rightarrow> dyn_img_hdr \<Rightarrow> rp \<Rightarrow> bool" where
  "repackable w b bh st \<longleftrightarrow> plain_world w \<and> sane_page bh \<and> kernel_ready w b bh st \<and>
     file_or_none w RAMDISK_FILE Ramdisk_size (page_of bh) st \<and>
     file_or_none w SECOND_FILE Second_size (page_of bh) st \<and>
     file_or_none w EXTRA_FILE Extra_size (page_of bh) st \<and>
     file_or_none w RECV_DTBO_FILE Recovery_dtbo_size (page_of bh) st \<and>
     file_or_none w DTB_FILE Dtb_size (page_of bh) st \<and>
     file_or_none w BOOTCONFIG_FILE Bootconfig_size (page_of bh) st \<and>
     (access_ok w RAMDISK_FILE \<longrightarrow> content w RAMDISK_FILE \<noteq> []) \<and> \<not> flags b MTK_RAMDISK \<and>
     hdr_get Vendor_ramdisk_table_size bh = 0 \<and> hdr_get Signature_size bh = 0"

lemma put_blocks_wrote:
  assumes "repackable w b bh st"
  shows "\<exists>st'. put_blocks L True w b bh st = (Inr (), st') \<and> wrote_all (page_of bh) (block_data w b bh) st st'"
proof -
  note R = assms [unfolded repackable_def]
  have sane: "sane_page bh" and w: "plain_world w" and p: "0 < page_of bh"
    using R sane_page_of by blast+
  note later = wrote_file_or_none [OF _ _ _ p]
  obtain s1 where s1: "put_kernel L True w b bh st = (Inr (), s1)"
    "wrote (page_of bh) Kernel_size (kernel_data w b bh) st s1"
    using put_kernel_wrote [OF _ sane w] R by blast
  have "file_or_none w RAMDISK_FILE Ramdisk_size (page_of bh) s1" using R by (blast intro: later [OF s1(2)])
  then obtain s2 where s2: "put_ramdisk L True w b bh s1 = (Inr [], s2)"
    "wrote (page_of bh) Ramdisk_size (content w RAMDISK_FILE) s1 s2"
    using put_ramdisk_wrote [OF _ sane w] R by blast
  have "file_or_none w SECOND_FILE Second_size (page_of bh) s2"
    using R by (blast intro: later [OF s1(2)] later [OF s2(2)])
  then obtain s3 where s3: "put_second w bh s2 = (Inr (), s3)"
    "wrote (page_of bh) Second_size (content w SECOND_FILE) s2 s3"
    using put_second_wrote [OF _ sane] by blast
  have "file_or_none w EXTRA_FILE Extra_size (page_of bh) s3"
    using R by (blast intro: later [OF s1(2)] later [OF s2(2)] later [OF s3(2)])
  then obtain s4 where s4: "put_extra L True w b bh s3 = (Inr (), s4)"
    "wrote (page_of bh) Extra_size (content w EXTRA_FILE) s3 s4"
    using put_extra_wrote [OF _ sane w] by blast
  have "file_or_none w RECV_DTBO_FILE Recovery_dtbo_size (page_of bh) s4"
    using R by (blast intro: later [OF s1(2)] later [OF s2(2)] later [OF s3(2)] later [OF s4(2)])
  then obtain s5 where s5: "put_recovery_dtbo w bh s4 = (Inr (), s5)"
    "wrote (page_of bh) Recovery_dtbo_size (content w RECV_DTBO_FILE) s4 s5"
    using put_recovery_dtbo_wrote [OF _ sane] by blast
  have "file_or_none w DTB_FILE Dtb_size (page_of bh) s5"
    using R by (blast intro: later [OF s1(2)] later [OF s2(2)] later [OF s3(2)] later [OF s4(2)]
        later [OF s5(2)])
  then obtain s6 where s6: "put_dtb w bh s5 = (Inr (), s6)"
    "wrote (page_of bh) Dtb_size (content w DTB_FILE) s5 s6"
    using put_dtb_wrote [OF _ sane] by blast
  have "file_or_none w BOOTCONFIG_FILE Bootconfig_size (page_of bh) s6"
    using R by (blast intro: later [OF s1(2)] later [OF s2(2)] later [OF s3(2)] later [OF s4(2)]
        later [OF s5(2)] later [OF s6(2)])
  then obtain s7 where s7: "put_bootconfig w bh s6 = (Inr (), s7)"
    "wrote (page_of bh) Bootconfig_size (content w BOOTCONFIG_FILE) s6 s7"
    using put_restored_wrote [OF _ sane] unfolding put_bootconfig_def by blast
  have "rp_ok s7" using s7(2) by (simp add: wrote_def)
  then have "wrote_all (page_of bh) (block_data w b bh) st s7"
    using s1(2) s2(2) s3(2) s4(2) s5(2) s6(2) s7(2) unfolding block_data_def wrote_all.simps by blast
  moreover have "put_blocks L True w b bh st = (Inr (), s7)"
    using s1(1) s2(1) s3(1) s4(1) s5(1) s6(1) s7(1) R
    by (simp add: put_blocks_def put_signature_def put_table_def)
  ultimately show ?thesis by blast
qed

section \<open>Parsing the blocks back\<close>

text \<open>
  \<open>get_blocks\<close> on a header whose sizes are the lengths of the data laid out behind it points at
  the data.
\<close>

definition found :: "bytes \<Rightarrow> ptr list \<Rightarrow> bytes list \<Rightarrow> bool" where
  "found m ps ds \<longleftrightarrow> list_all2 (\<lambda>p d. inside m p (length d) \<and> view (nat p) (length d) m = d) ps ds"

lemma next_off_laid:
  assumes "sane_page h" "hdr_get fl h = of_nat (length d)" "length d < 2 ^ 32" "n < 2 ^ 62"
  shows "next_off h fl (of_nat n) = Inr (of_nat (up (page_of h) (n + length d)))"
proof -
  let ?p = "page_of h"
  have p: "0 < ?p" "?p < 2 ^ 31" "sint (hdr_get Page_size h) = int ?p"
    using sane_page_of [OF assms(1)] assms(1) by (simp_all add: page_of_def sane_page_def)
  have "unat (hdr_get fl h) = length d"
    using assms(2,3) by (simp add: unsigned_of_nat take_bit_nat_eq_self)
  then have "ucast (hdr_get fl h) = (of_nat (length d) :: u64)"
    by (metis of_nat_unat)
  then have arg: "of_nat n + ucast (hdr_get fl h) = (of_nat (n + length d) :: u64)" by simp
  have u: "unat (of_nat (n + length d) :: u64) = n + length d"
    by (rule unat_of_nat_u64) (use assms(3,4) in simp)
  have bound: "int ?p < 2 ^ 31" using p(2) by (metis of_nat_less_iff of_nat_numeral of_nat_power)
  have "unat (of_nat (n + length d) :: u64) + nat (int ?p) < 2 ^ 64"
    unfolding u using p(2) assms(3,4) by simp
  from align_to_size_unat [OF _ bound this] p(1) obtain r where
    r: "align_to_size (of_nat (n + length d)) (int ?p) = Inr r" "unat r = up ?p (n + length d)"
    unfolding u by (auto simp: up_def)
  then have "r = of_nat (up ?p (n + length d))" by (metis of_nat_unat ucast_id)
  with r(1) show ?thesis by (simp only: next_off_def arg p(3))
qed

lemma get_blocks_laid:
  assumes "sane_page h" "map fst bl = fls" "list_all2 (\<lambda>fl d. hdr_get fl h = of_nat (length d)) fls ds"
    "length (laid (page_of h) o' ds) \<le> map_end" "map_end < 2 ^ 31"
  shows "\<exists>ps. get_blocks bl (int map_end) 0 h (of_nat (length o')) b =
      Inr (Some (of_nat (length (laid (page_of h) o' ds))), fold (\<lambda>((fl, place), p). place p) (zip bl ps) b) \<and>
    found (laid (page_of h) o' ds) ps ds \<and> (\<forall>p \<in> set ps. int (length o') \<le> p)"
  using assms(2-4)
proof (induction bl arbitrary: fls ds o' b)
  case Nil
  then show ?case by (simp add: found_def)
next
  case (Cons fp bl)
  obtain fl place where fp: "fp = (fl, place)" by (cases fp)
  obtain d ds' where ds: "ds = d # ds'" "hdr_get fl h = of_nat (length d)"
    "list_all2 (\<lambda>fl d. hdr_get fl h = of_nat (length d)) (map fst bl) ds'"
    using Cons.prems(1,2) by (auto simp: fp list_all2_Cons1)
  let ?o = "padded_to (page_of h) (o' @ d)"
  have p: "0 < page_of h" using sane_page_of [OF assms(1)] by simp
  obtain r where r: "laid (page_of h) ?o ds' = ?o @ r" using laid_longer [OF p] by blast
  have whole: "laid (page_of h) o' ds = ?o @ r" by (simp add: ds(1) r)
  have len: "length o' + length d \<le> length ?o" "length ?o \<le> map_end"
    using Cons.prems(3) whole by (simp_all add: padded_to_def)
  have small: "length d < 2 ^ 32" "length o' < 2 ^ 62" "length o' < 2 ^ 63" "length ?o < 2 ^ 63"
    using len assms(5) by simp_all
  have step: "next_off h fl (of_nat (length o')) = Inr (of_nat (length ?o))"
    using next_off_laid [OF assms(1) ds(2) small(1,2)] p by simp
  have ptr: "sint (of_nat (length o') :: u64) = int (length o')"
    "sint (of_nat (length ?o) :: u64) = int (length ?o)"
    using small(3,4) by (simp_all add: signed_of_nat signed_take_bit_int_eq_self)
  from Cons.IH [OF refl ds(3), of ?o "place (int (length o')) b"] obtain ps where
    ps: "get_blocks bl (int map_end) 0 h (of_nat (length ?o)) (place (int (length o')) b) =
      Inr (Some (of_nat (length (?o @ r))),
        fold (\<lambda>((fl, place), p). place p) (zip bl ps) (place (int (length o')) b))"
      "found (?o @ r) ps ds'" "\<forall>p \<in> set ps. int (length ?o) \<le> p"
    using Cons.prems(3) by (auto simp: ds(1) r)
  have "inside (?o @ r) (int (length o')) (length d)" using len(1) by (simp add: inside_def)
  moreover have "view (length o') (length d) (?o @ r) = d" by (simp add: padded_to_def view_def)
  ultimately have "found (?o @ r) (int (length o') # ps) ds"
    using ps(2) by (simp add: found_def ds(1))
  moreover have "get_blocks (fp # bl) (int map_end) 0 h (of_nat (length o')) b =
      Inr (Some (of_nat (length (?o @ r))),
        fold (\<lambda>((fl, place), p). place p) (zip (fp # bl) (int (length o') # ps)) b)"
    using ps(1) len(2) by (simp add: fp step ptr Let_def)
  moreover have "\<forall>p \<in> set (int (length o') # ps). int (length o') \<le> p"
    using ps(3) len(1) by force
  ultimately show ?case unfolding whole by blast
qed

text \<open>The nine blocks the parser looks for, two of them empty here.\<close>

definition nine_blocks :: "world \<Rightarrow> boot_img \<Rightarrow> dyn_img_hdr \<Rightarrow> bytes list" where
  "nine_blocks w b bh =
     [kernel_data w b bh, content w RAMDISK_FILE, content w SECOND_FILE, content w EXTRA_FILE,
      content w RECV_DTBO_FILE, content w DTB_FILE, [], [], content w BOOTCONFIG_FILE]"

lemma padded_to_twice: "0 < page \<Longrightarrow> padded_to page (padded_to page o') = padded_to page o'"
  using up_aligned [of page "up page (length o')"] up_dvd [of page "length o'"]
  by (simp add: padded_to_def [of page "padded_to page o'"])

lemma laid_nine:
  "0 < page \<Longrightarrow> laid page o' (nine_blocks w b bh) = laid page o' (map snd (block_data w b bh))"
  by (simp add: nine_blocks_def block_data_def padded_to_twice)

lemma hdr_get_absent: "\<not> has_field h fl \<Longrightarrow> fl \<noteq> Page_size \<Longrightarrow> hdr_get fl h = 0"
  by (simp add: hdr_get_def has_field_def)

definition fields_known :: "world \<Rightarrow> boot_img \<Rightarrow> dyn_img_hdr \<Rightarrow> rp \<Rightarrow> bool" where
  "fields_known w b bh st \<longleftrightarrow>
     (\<forall>(fl, d) \<in> set (block_data w b bh). has_field (rp_h st) fl \<or> d = []) \<and>
     hdr_get Page_size (rp_h st) = hdr_get Page_size bh \<and>
     hdr_get Signature_size (rp_h st) = 0 \<and> hdr_get Vendor_ramdisk_table_size (rp_h st) = 0"

lemma wrote_sizes:
  assumes "wrote_all (page_of bh) (block_data w b bh) st st'" "fields_known w b bh st"
  shows "list_all2 (\<lambda>fl d. hdr_get fl (rp_h st') = of_nat (length d)) (map fst block_list) (nine_blocks w b bh)"
    "hdr_get Page_size (rp_h st') = hdr_get Page_size bh"
proof -
  have dist: "distinct (map fst (block_data w b bh))" by (simp add: block_data_def)
  have res: "\<forall>(fl, d) \<in> set (block_data w b bh). has_field (rp_h st) fl \<longrightarrow> hdr_get fl (rp_h st') = of_nat (length d)"
    "\<And>gl. gl \<notin> fst ` set (block_data w b bh) \<or> \<not> has_field (rp_h st) gl \<Longrightarrow> hdr_get gl (rp_h st') = hdr_get gl (rp_h st)"
    using wrote_all_result [OF assms(1) dist] by blast+
  have size: "hdr_get fl (rp_h st') = of_nat (length d)" if "(fl, d) \<in> set (block_data w b bh)" for fl d
  proof (cases "has_field (rp_h st) fl")
    case True
    with res(1) that show ?thesis by blast
  next
    case False
    with assms(2) that have "d = []" by (auto simp: fields_known_def)
    moreover have "fl \<noteq> Page_size" using that by (auto simp: block_data_def)
    ultimately show ?thesis using res(2) [of fl] False hdr_get_absent [OF False] by simp
  qed
  have rest: "hdr_get gl (rp_h st') = hdr_get gl (rp_h st)"
    if "gl \<in> {Signature_size, Vendor_ramdisk_table_size, Page_size}" for gl
    using that by (intro res(2)) (auto simp: block_data_def)
  show "hdr_get Page_size (rp_h st') = hdr_get Page_size bh"
    using rest [of Page_size] assms(2) by (simp add: fields_known_def)
  show "list_all2 (\<lambda>fl d. hdr_get fl (rp_h st') = of_nat (length d)) (map fst block_list) (nine_blocks w b bh)"
    using size rest [of Signature_size] rest [of Vendor_ramdisk_table_size] assms(2)
    by (simp add: block_list_def nine_blocks_def block_data_def fields_known_def)
qed

end
