(* ===== verification/RepackImage.thy ===== *)
theory RepackImage
  imports RepackCorrect
begin

text \<open>
  The whole of \<open>repack\<close> for an image without wrappers, whose header has no checksum (versions 3
  and 4, and vendor images): the raw header, the blocks, the padding and the header written over
  the copy are one file from which the parser recovers header and blocks.
\<close>

definition no_flags :: "boot_img \<Rightarrow> bool" where
  "no_flags b \<longleftrightarrow> (\<forall>fl. \<not> flags b fl)"

definition header_room :: "boot_img \<Rightarrow> rp \<Rightarrow> u64 \<Rightarrow> bool" where
  "header_room b st n \<longleftrightarrow> hdr_space (rp_h st) = Inr n \<and> inside (map_mem b) (payload b) (unat n) \<and>
     hdr_size (rp_h st) \<le> unat n"

definition with_header :: "rp \<Rightarrow> bytes \<Rightarrow> rp" where
  "with_header st bs = st\<lparr>rp_f := app bs (rp_f st), off_header := 0\<rparr>"

lemma put_raw_header_plain:
  assumes "rp_ok st" "out st = []" "header_room b st n"
  shows "put_raw_header b st = (Inr (), with_header st (view (nat (payload b)) (unat n) (map_mem b)))"
proof -
  have f: "plain_fd (rp_f st)" using assms(1) by (simp add: rp_ok_def)
  have c: "u32_of (cur st) = 0"
    using plain_cur [OF f] assms(2) by (simp add: cur_def out_def u32_of_def)
  have "rdp (map_mem b) (payload b) (unat n) = Inr (view (nat (payload b)) (unat n) (map_mem b))"
    using assms(3) by (simp add: header_room_def rdp_inside)
  then show ?thesis
    using assms(3) f
    by (simp add: put_raw_header_def c header_room_def pure_r_def put_mem_def put_bytes_def
        plain_xwrite skip_value_def with_header_def)
qed

text \<open>The tail of an image without flags is padding only.\<close>

lemma put_tail_plain:
  assumes "rp_ok st" "sane_page bh" "page_of bh dvd length (out st)" "no_flags b" "map_size b < 2 ^ 63"
  shows "\<exists>st' k. put_tail b bh st = (Inr (), st') \<and> rp_ok st' \<and> out st' = out st @ replicate k 0 \<and>
    rp_h st' = rp_h st \<and> length (out st') = max (length (out st)) (map_size b)"
proof -
  let ?st = "st\<lparr>off_tail := u32_of (cur st)\<rparr>"
  have f: "plain_fd (rp_f st)" using assms(1) by (simp add: rp_ok_def)
  have flag: "\<not> flags b fl" for fl using assms(4) by (simp add: no_flags_def)
  have ok: "rp_ok ?st" using assms(1) by (simp add: rp_ok_def)
  have "up (page_of bh) (length (out ?st)) = length (out ?st)"
    using up_aligned [OF _ assms(3)] sane_page_of [OF assms(2)] by (simp add: out_def)
  then have al: "file_align bh ?st = (Inr (), ?st)"
    using file_align_plain [OF ok assms(2)] f by simp
  have c: "cur ?st = int (length (out st))" using plain_cur [OF f] by (simp add: cur_def out_def)
  let ?k = "map_size b - length (out st)"
  have "int ?k < int (2 ^ 64)" using assms(5) by (simp only: of_nat_less_iff) simp
  then have z: "size_of_off (int ?k) = ?k" by (subst size_of_off_nonneg) simp_all
  have run: "put_tail b bh st = pad_to_original b ?st"
    by (simp add: put_tail_def put_vendor_magic_def flag al put_vbmeta_def)
  show ?thesis
  proof (cases "length (out st) < map_size b")
    case True
    then have "int (map_size b) - int (length (out st)) = int ?k" by simp
    then have "pad_to_original b ?st = (Inr (), ?st\<lparr>rp_f := app (replicate ?k 0) (rp_f st)\<rparr>)"
      using True plain_zeros [OF f] by (simp add: pad_to_original_def flag c put_zeros_def z del: of_nat_diff)
    then show ?thesis
      using run assms(1) True by (intro exI) (auto simp: rp_ok_def out_def)
  next
    case False
    then have "pad_to_original b ?st = (Inr (), ?st)" by (simp add: pad_to_original_def flag c)
    with False run show ?thesis
      using ok by (intro exI [of _ ?st] exI [of _ 0]) (simp add: out_def)
  qed
qed

text \<open>Patching writes the finished header over the start of the file.\<close>

definition final_hdr :: "rp \<Rightarrow> dyn_img_hdr" where
  "final_hdr st = hdr_set Header_size (of_nat (hdr_size (rp_h st))) (rp_h st)"

lemma patch_image_plain:
  assumes "rp_ok st" "no_flags b" "str_off (ver (rp_h st)) Id = None" "out st \<noteq> []"
    "hdr_space (rp_h st) = Inr n" "hdr_size (rp_h st) \<le> length (out st)"
    "print_hdr (final_hdr st) = Inr txt"
  shows "\<exists>st'. patch_image L pf b st = (Inr (), st') \<and>
    out st' = put_at 0 (raw (final_hdr st)) (out st) \<and> rp_h st' = final_hdr st \<and> \<not> fd_bad (rp_f st')"
proof -
  have f: "plain_fd (rp_f st)" "off_header st = 0" using assms(1) by (simp_all add: rp_ok_def)
  have flag: "\<not> flags b fl" for fl using assms(2) by (simp add: no_flags_def)
  have wf: "wf_hdr (final_hdr st)" using assms(1) by (simp add: rp_ok_def final_hdr_def)
  have size: "hdr_size (final_hdr st) = hdr_size (rp_h st)" "length (raw (final_hdr st)) = hdr_size (rp_h st)"
    using wf by (simp_all add: final_hdr_def hdr_size_def wf_hdr_def)
  have page: "hdr_get Page_size (final_hdr st) = hdr_get Page_size (rp_h st)"
    using assms(1) by (simp add: final_hdr_def rp_ok_def hdr_get_set_other)
  moreover have "is_vendor (final_hdr st) = is_vendor (rp_h st)" by (simp add: final_hdr_def is_vendor_def)
  ultimately have space: "hdr_space (final_hdr st) = Inr n"
    using assms(5) by (cases "is_vendor (rp_h st)") (simp_all add: hdr_space_def size)
  have data: "fd_data (rp_f st) = out st" "fd_pos (rp_f st) = length (out st)" "fd_answers (rp_f st) = []"
    "\<not> fd_bad (rp_f st)"
    using f(1) by (simp_all add: plain_fd_def appending_def out_def)
  then have end_: "lseek_end (rp_f st) = (int (length (out st)), rp_f st)"
    by (cases "rp_f st") (simp add: lseek_end_def)
  let ?st = "st\<lparr>rp_h := final_hdr st\<rparr>"
  have id: "patch_id L b k ?st = (Inr (), ?st)" for k
    using assms(3) by (simp add: patch_id_def final_hdr_def)
  have take: "take (hdr_size (rp_h st)) (raw (final_hdr st)) = raw (final_hdr st)" using size(2) by simp
  have written: "must_write (raw (final_hdr st)) 0 ?st =
      (Inr (), ?st\<lparr>rp_f := (rp_f st)\<lparr>fd_data := put_at 0 (raw (final_hdr st)) (out st)\<rparr>\<rparr>)"
    using data by (cases "rp_f st")
      (simp add: must_write_def pwrite_full_def pwrite_def xwrite_def sys_write_def transfer_def)
  have hdr1: "patch_header b (length (out st)) ?st =
      (Inr (), ?st\<lparr>rp_f := (rp_f st)\<lparr>fd_data := put_at 0 (raw (final_hdr st)) (out st)\<rparr>\<rparr>)"
    using assms(6) written by (simp add: patch_header_def space pure_r_def flag f(2) size(1) take Let_def)
  have "patch_image L pf b st =
      (Inr (), ?st\<lparr>rp_f := (rp_f st)\<lparr>fd_data := put_at 0 (raw (final_hdr st)) (out st)\<rparr>\<rparr>)"
    using assms(4) hdr1 id
    by (simp add: patch_image_def end_ flag hdr_put_def pure_r_def assms(7) patch_avb_def
        patch_wrapper_def patch_avb1_def flip: final_hdr_def)
  then show ?thesis using data(4) by (simp add: out_def)
qed

section \<open>The round trip\<close>

text \<open>
  The header that is written prints: its name, where it has one, ends before the end of the header,
  since the size of the header stands behind it and has zero bytes.
\<close>

lemma c_str_at_ends:
  assumes "0 \<in> set (drop off m)"
  shows "\<exists>s. c_str_at m off = Inr s"
proof -
  have "length (c_str (drop off m)) < length (drop off m)"
    using assms unfolding c_str_def by (metis (mono_tags, lifting) length_takeWhile_le nat_less_le
        set_takeWhileD takeWhile_eq_all_conv takeWhile_eq_take take_all_iff)
  then show ?thesis by (simp add: c_str_at_def Let_def)
qed

lemma final_prints:
  assumes "wf_hdr h" "str_off (ver h) Id = None"
  shows "\<exists>msg. print_hdr (hdr_set Header_size (of_nat (hdr_size h)) h) = Inr msg"
proof -
  let ?h = "hdr_set Header_size (of_nat (hdr_size h)) h"
  have "\<exists>l. (case str_off (ver ?h) Name of None \<Rightarrow> Inr []
      | Some (off, _) \<Rightarrow> bindR (c_str_at (raw ?h) off) (\<lambda>n. Inr (print_line ''NAME'' n))) = Inr l"
  proof (cases "is_vendor h")
    case True
    then have v: "field_off (ver h) Header_size = Some 2096" "str_off (ver h) Name = Some (2080, 16)"
      "hdr_size h = 2112 \<or> hdr_size h = 2128"
      by (auto simp: is_vendor_def hdr_size_def off_defs str_defs)
    have "2096 + length (le32_bytes (of_nat (hdr_size h))) \<le> length (raw h)"
      using assms(1) v(3) by (auto simp: wf_hdr_def)
    then have "view 2096 4 (raw ?h) = le32_bytes (of_nat (hdr_size h))"
      using view_put_at_same [of 2096 "le32_bytes (of_nat (hdr_size h))" "raw h"] by (simp add: hdr_set_def v)
    then have "0 \<in> set (view 2096 4 (raw ?h))" using v(3) by (auto simp: le32_bytes_def)
    then have "0 \<in> set (drop 2096 (raw ?h))" by (auto simp: view_def dest: in_set_takeD)
    then have "0 \<in> set (drop 2080 (raw ?h))" using set_drop_subset_set_drop [of 2080 2096 "raw ?h"] by auto
    from c_str_at_ends [OF this] show ?thesis by (auto simp: v)
  next
    case False
    then have "str_off (ver h) Name = None"
      using assms(2) by (cases "ver h") (auto simp: is_vendor_def str_defs)
    then show ?thesis by simp
  qed
  moreover have "\<exists>a b c d. str_off (ver ?h) Cmdline = Some (a, b) \<and> str_off (ver ?h) Extra_cmdline = Some (c, d)"
    by (cases "ver h") (simp_all add: str_defs)
  ultimately show ?thesis by (auto simp: print_hdr_def)
qed

text \<open>The start of \<open>repack_image\<close>: an empty output and a header that has been cleared.\<close>

definition start_ok :: "world \<Rightarrow> boot_img \<Rightarrow> dyn_img_hdr \<Rightarrow> rp \<Rightarrow> u64 \<Rightarrow> bool" where
  "start_ok w b bh st n \<longleftrightarrow> rp_ok st \<and> out st = [] \<and> header_room b st n \<and> no_flags b \<and>
     map_size b < 2 ^ 63 \<and> str_off (ver (rp_h st)) Id = None \<and>
     repackable w b bh (with_header st (view (nat (payload b)) (unat n) (map_mem b))) \<and>
     fields_known w b bh st"

lemma found_view:
  assumes "found m ps ds" "\<forall>p \<in> set ps. int k \<le> p" "length hd' \<le> k" "k \<le> length m"
  shows "found (put_at 0 hd' (m @ z)) ps ds"
proof -
  have "inside (put_at 0 hd' (m @ z)) p (length d) \<and> view (nat p) (length d) (put_at 0 hd' (m @ z)) = d"
    if "inside m p (length d)" "view (nat p) (length d) m = d" "int k \<le> p" for p d
  proof -
    have n: "k \<le> nat p" "nat p + length d \<le> length m" using that by (auto simp: inside_def)
    have "view (nat p) (length d) (put_at 0 hd' (m @ z)) = view (nat p) (length d) (m @ z)"
      using n assms(3,4) by (intro view_put_at_after) simp_all
    also have "\<dots> = d" using n that(2) by (simp add: view_append_first)
    finally show ?thesis using n that(1) by (simp add: inside_def)
  qed
  then show ?thesis
    using assms(1,2) unfolding found_def list_all2_conv_all_nth by (auto simp: all_set_conv_all_nth)
qed

lemma laid_aligned: "0 < page \<Longrightarrow> ds \<noteq> [] \<Longrightarrow> page dvd length (laid page o' ds)"
proof (induction ds arbitrary: o')
  case (Cons d ds)
  then show ?case by (cases ds) (simp_all add: up_dvd)
qed simp

lemma hdr_space_cong:
  "ver h = ver g \<Longrightarrow> hdr_get Page_size h = hdr_get Page_size g \<Longrightarrow> hdr_space h = hdr_space g"
  by (simp add: hdr_space_def is_vendor_def hdr_size_def)

lemma new_hdr_written:
  assumes "wf_hdr h" "hdr_size h \<le> length m"
  shows "new_hdr (ver h) (put_at 0 (raw h) m) (- 1) = Inr h"
proof -
  have len: "length (raw h) = hdr_size_of (ver h)" "hdr_size_of (ver h) \<le> length m"
    using assms by (simp_all add: wf_hdr_def hdr_size_def)
  then have "view 0 (hdr_size_of (ver h)) (put_at 0 (raw h) m) = raw h"
    using view_put_at_same [of 0 "raw h" m] by simp
  then show ?thesis using len by (simp add: new_hdr_def)
qed

text \<open>The parts of the new header that repacking leaves alone.\<close>

definition same_but_sizes :: "dyn_img_hdr \<Rightarrow> dyn_img_hdr \<Rightarrow> bool" where
  "same_but_sizes h h' \<longleftrightarrow> ver h' = ver h \<and> (\<forall>sf. text_of sf h' = text_of sf h) \<and>
     (\<forall>fl. fl \<notin> resized \<longrightarrow> hdr_get fl h' = hdr_get fl h)"

lemma repack_image_plain:
  assumes "start_ok w b bh st n"
  shows "\<exists>st' m. repack_image L pf True w b bh st = (Inr (), st') \<and> \<not> fd_bad (rp_f st') \<and>
    length (out st') = max (laid_size (page_of bh) (unat n) (nine_blocks w b bh)) (map_size b) \<and>
    out st' = put_at 0 (raw (rp_h st')) m \<and> hdr_size (rp_h st') \<le> length m \<and> unat n \<le> length m \<and>
    wf_hdr (rp_h st') \<and> same_but_sizes (rp_h st) (rp_h st') \<and>
    bare_header (rp_h st') = bare_header (rp_h st) \<and>
    (\<exists>msg. print_hdr (rp_h st') = Inr msg) \<and> hdr_space (rp_h st') = Inr n \<and>
    list_all2 (\<lambda>fl d. hdr_get fl (rp_h st') = of_nat (length d)) (map fst block_list) (nine_blocks w b bh) \<and>
    (\<forall>map_end < 2 ^ 31. length (out st') \<le> map_end \<longrightarrow>
       (\<forall>c. \<exists>ps off. get_blocks block_list (int map_end) 0 (rp_h st') n c =
          Inr (Some off, fold (\<lambda>((fl, place), p). place p) (zip block_list ps) c) \<and>
        found (out st') ps (nine_blocks w b bh)))"
proof -
  let ?area = "view (nat (payload b)) (unat n) (map_mem b)"
  let ?s1 = "with_header st ?area"
  note S = assms(1) [unfolded start_ok_def header_room_def]
  have sane: "sane_page bh" using S by (simp add: repackable_def)
  have p: "0 < page_of bh" using sane_page_of [OF sane] by simp
  have area: "length ?area = unat n" "hdr_size (rp_h st) \<le> unat n"
    using S by (auto simp: inside_def)
  have flag: "\<not> flags b fl" for fl using S by (simp add: no_flags_def)
  have room: "header_room b st n" using assms(1) by (simp add: start_ok_def)
  have wrap: "put_wrapper b st = (Inr (), st)" by (simp add: put_wrapper_def flag)
  have raw: "put_raw_header b st = (Inr (), ?s1)" using put_raw_header_plain [OF _ _ room] S by blast
  obtain s2 where s2: "put_blocks L True w b bh ?s1 = (Inr (), s2)"
    "wrote_all (page_of bh) (block_data w b bh) ?s1 s2"
    using put_blocks_wrote S by blast
  have s1: "rp_h ?s1 = rp_h st" "out ?s1 = ?area"
    using S by (simp_all add: with_header_def out_def)
  have known: "fields_known w b bh ?s1" using S by (simp add: fields_known_def s1)
  note sizes = wrote_sizes [OF s2(2) known]
  have dist: "distinct (map fst (block_data w b bh))" by (simp add: block_data_def)
  note res = wrote_all_result [OF s2(2) dist, unfolded s1]
  let ?lay = "laid (page_of bh) ?area (nine_blocks w b bh)"
  have out2: "out s2 = ?lay" using res laid_nine [OF p] by simp
  have base: "ver (rp_h s2) = ver (rp_h st)" "rp_ok s2" "hdr_get Page_size (rp_h s2) = hdr_get Page_size (rp_h st)"
    using res sizes(2) known by (simp_all add: fields_known_def s1)
  have wf2: "wf_hdr (rp_h s2)" using base(2) by (simp add: rp_ok_def)
  have "page_of bh dvd length (out s2)"
    using laid_aligned [OF p, of "nine_blocks w b bh"] by (simp add: out2 nine_blocks_def)
  then obtain s3 k where s3: "put_tail b bh s2 = (Inr (), s3)" "rp_ok s3" "out s3 = ?lay @ replicate k 0"
    "rp_h s3 = rp_h s2" "length (out s3) = max (length (out s2)) (map_size b)"
    using put_tail_plain [OF base(2) sane] S out2 by metis
  let ?h = "final_hdr s3"
  obtain r where lay: "?lay = ?area @ r" using laid_longer [OF p] by blast
  have size: "hdr_size (rp_h s3) = hdr_size (rp_h st)" "hdr_size (rp_h st) \<le> length (out s3)"
    using area base(1) by (simp_all add: s3(3,4) hdr_size_def lay)
  have "0 < hdr_size (rp_h st)" by (cases "ver (rp_h st)") (simp_all add: hdr_size_def)
  then have nonempty: "out s3 \<noteq> []" using size(2) by auto
  have space3: "hdr_space (rp_h s3) = Inr n"
    using hdr_space_cong [of "rp_h s3" "rp_h st"] base S by (simp add: s3(4))
  have noid: "str_off (ver (rp_h s3)) Id = None" using S base(1) by (simp add: s3(4))
  have base3: "wf_hdr (rp_h s3)" "ver (rp_h s3) = ver (rp_h st)" using wf2 base(1) by (simp_all add: s3(4))
  obtain msg where msg: "print_hdr ?h = Inr msg"
    using final_prints [OF base3(1) noid] unfolding final_hdr_def by blast
  obtain s4 where s4: "patch_image L pf b s3 = (Inr (), s4)"
    "out s4 = put_at 0 (raw ?h) (out s3)" "rp_h s4 = ?h" "\<not> fd_bad (rp_f s4)"
    using patch_image_plain [OF s3(2) _ noid nonempty space3 _ msg] S size by force
  have wf: "wf_hdr ?h" "ver ?h = ver (rp_h st)" "hdr_size ?h = hdr_size (rp_h st)"
    using wf2 base(1) by (simp_all add: final_hdr_def s3(4) hdr_size_def)
  have get: "hdr_get fl ?h = hdr_get fl (rp_h s2)" if "fl \<noteq> Header_size" for fl
    using that wf2 by (simp add: final_hdr_def s3(4) hdr_get_set_other)
  have page: "hdr_get Page_size ?h = hdr_get Page_size bh" using get sizes(2) by simp
  then have sane': "sane_page ?h" "page_of ?h = page_of bh" using sane by (simp_all add: sane_page_def page_of_def)
  have known_sizes: "list_all2 (\<lambda>fl d. hdr_get fl ?h = of_nat (length d)) (map fst block_list) (nine_blocks w b bh)"
    using sizes(1) by (simp add: block_list_def nine_blocks_def get)
  have nn: "of_nat (length ?area) = n" by (subst area(1)) simp
  have hdlen: "length (raw ?h) \<le> length ?area"
    using wf area by (simp add: wf_hdr_def)
  have kept: "same_but_sizes (rp_h st) ?h" "bare_header ?h = bare_header (rp_h st)"
  proof -
    have sub: "fst ` set (block_data w b bh) \<subseteq> resized" by (simp add: block_data_def resized_def)
    have "Header_size \<in> resized" by (simp add: resized_def)
    then have "bare_header ?h = bare_header (rp_h s2)"
      using bare_hdr_set [OF wf2] by (simp add: final_hdr_def s3(4))
    also have "\<dots> = bare_header (rp_h st)" using res sub by blast
    finally show "bare_header ?h = bare_header (rp_h st)" .
    have words: "text_of sf ?h = text_of sf (rp_h st)" for sf
    proof -
      have "text_of sf (rp_h s2) = text_of sf (rp_h st)" using res by blast
      then show ?thesis by (simp add: final_hdr_def s3(4) text_of_hdr_set [OF wf2])
    qed
    have "hdr_get fl ?h = hdr_get fl (rp_h st)" if "fl \<notin> resized" for fl
    proof -
      have "fl \<notin> fst ` set (block_data w b bh)" "fl \<noteq> Header_size"
        using that sub by (auto simp: resized_def)
      then show ?thesis using get [of fl] res by simp
    qed
    then show "same_but_sizes (rp_h st) ?h"
      using words wf(2) unfolding same_but_sizes_def by blast
  qed
  have longer: "length ?lay \<le> length (out s4)" by (simp add: s4(2) s3(3))
  have laid_there: "\<exists>ps off. get_blocks block_list (int map_end) 0 ?h n c =
      Inr (Some off, fold (\<lambda>((fl, place), p). place p) (zip block_list ps) c) \<and>
      found (out s4) ps (nine_blocks w b bh)"
    if m: "map_end < 2 ^ 31" "length (out s4) \<le> map_end" for map_end c
  proof -
    have "length ?lay \<le> map_end" using longer m(2) by simp
    then obtain ps where ps: "get_blocks block_list (int map_end) 0 ?h n c =
        Inr (Some (of_nat (length ?lay)), fold (\<lambda>((fl, place), p). place p) (zip block_list ps) c)"
      "found ?lay ps (nine_blocks w b bh)" "\<forall>p \<in> set ps. int (length ?area) \<le> p"
      using get_blocks_laid [OF sane'(1) refl known_sizes, of ?area map_end c] m(1)
      unfolding sane'(2) nn by blast
    have "found (out s4) ps (nine_blocks w b bh)"
      unfolding s4(2) s3(3) by (rule found_view [OF ps(2,3) hdlen]) (simp add: lay)
    with ps(1) show ?thesis by blast
  qed
  have run: "repack_image L pf True w b bh st = (Inr (), s4)"
    using wrap raw s2(1) s3(1) s4(1) by (simp add: repack_image_def)
  have space4: "hdr_space ?h = Inr n"
    using hdr_space_cong [of ?h "rp_h st"] wf page base sizes(2) S by simp
  have room4: "hdr_size ?h \<le> length (out s3)" using wf(3) size(2) by simp
  have room5: "unat n \<le> length (out s3)" using area(1) by (simp add: s3(3) lay)
  have size4: "length (out s4) = max (laid_size (page_of bh) (unat n) (nine_blocks w b bh)) (map_size b)"
  proof -
    have "length (out s4) = length (out s3)"
      using size(2) wf by (simp add: s4(2) wf_hdr_def)
    also have "\<dots> = max (length ?lay) (map_size b)" using s3(5) by (simp add: out2)
    also have "length ?lay = laid_size (page_of bh) (unat n) (nine_blocks w b bh)"
      using length_laid [OF p] area(1) by simp
    finally show ?thesis .
  qed
  have blocks: "\<forall>map_end < 2 ^ 31. length (out s4) \<le> map_end \<longrightarrow>
       (\<forall>c. \<exists>ps off. get_blocks block_list (int map_end) 0 ?h n c =
          Inr (Some off, fold (\<lambda>((fl, place), p). place p) (zip block_list ps) c) \<and>
        found (out s4) ps (nine_blocks w b bh))"
    using laid_there by blast
  have printed: "\<exists>msg. print_hdr ?h = Inr msg" using msg by blast
  note facts = s4(2) room4 room5 wf(1) kept printed space4 known_sizes blocks
  show ?thesis
    by (intro exI [of _ s4] exI [of _ "out s3"] conjI run s4(4) size4 facts [folded s4(3)])
qed

end
