(* ===== verification/RepackRoundtrip.thy ===== *)
theory RepackRoundtrip
  imports RepackImage
begin

text \<open>
  From the source image to the parsed output: what \<open>open_boot\<close> guarantees of the image and
  \<open>fresh_header\<close> of the new header is what \<open>repack_image\<close> starts from, and the file it leaves is one
  in which the constructor finds the header and every block.
\<close>

section \<open>The new header\<close>

text \<open>The header file changes text and the version word only.\<close>

definition edited :: "dyn_img_hdr \<Rightarrow> dyn_img_hdr \<Rightarrow> bool" where
  "edited h h' \<longleftrightarrow> wf_hdr h' \<and> ver h' = ver h \<and> (\<forall>fl. fl \<noteq> Os_version \<longrightarrow> hdr_get fl h' = hdr_get fl h)"

lemma edited_refl: "wf_hdr h \<Longrightarrow> edited h h"
  by (simp add: edited_def)

lemma edited_trans: "edited h h' \<Longrightarrow> edited h' h'' \<Longrightarrow> edited h h''"
  by (simp add: edited_def)

lemma edited_wf: "edited h h' \<Longrightarrow> wf_hdr h'" "edited h h' \<Longrightarrow> ver h' = ver h"
  by (simp_all add: edited_def)

lemma edited_poke:
  assumes "wf_hdr h" "str_off (ver h) sf = Some (a, n)" "length bs \<le> text_size sf"
  shows "edited h (poke a bs h)"
proof -
  have room: "a + length bs \<le> length (raw h)"
    using text_inside [OF assms(2)] assms(1,3) by (simp add: wf_hdr_def hdr_size_def)
  have "view c 4 (put_at a bs (raw h)) = view c 4 (raw h)" if "field_off (ver h) fl = Some c" for fl c
    using text_field_apart [OF assms(2) that]
  proof
    assume "a + text_size sf \<le> c"
    then show ?thesis using room assms(3) by (intro view_put_at_after) simp_all
  next
    assume "c + 4 \<le> a"
    then show ?thesis using room by (intro view_put_at_before)
  qed
  then have "hdr_get fl (poke a bs h) = hdr_get fl h" for fl
    by (auto simp: hdr_get_def poke_def split: option.splits)
  moreover have "wf_hdr (poke a bs h)" using assms(1) room by (simp add: wf_hdr_def poke_def hdr_size_def)
  ultimately show ?thesis by (simp add: edited_def)
qed

lemma edited_poke_again:
  assumes "edited h h'" "str_off (ver h) sf = Some (a, n)" "length bs \<le> text_size sf"
  shows "edited h (poke a bs h')"
  using assms edited_trans [OF assms(1) edited_poke [of h' sf a n bs]] by (simp add: edited_def)

lemma edited_version:
  assumes "wf_hdr h" shows "edited h (hdr_set Os_version v h)"
  using assms by (simp add: edited_def hdr_get_set_other)

lemma load_prop_edits:
  assumes "wf_hdr h" shows "okR (edited h) (load_prop kv h)"
proof -
  have name: "edited h (load_name off v h)" if "str_off (ver h) Name = Some (off, n)" for off n v
    unfolding load_name_def using that assms
    by (intro edited_poke_again [OF _ that] edited_refl) simp_all
  have line: "edited h (load_cmdline off eoff v h)"
    if "str_off (ver h) Cmdline = Some (off, n)" "str_off (ver h) Extra_cmdline = Some (eoff, k)" for off eoff n k v
  proof -
    have cleared: "edited h (poke eoff (replicate BOOT_EXTRA_ARGS_SIZE 0) (poke off (replicate BOOT_ARGS_SIZE 0) h))"
      using assms by (intro edited_poke_again [OF _ that(2)] edited_poke_again [OF _ that(1)] edited_refl)
        (simp_all add: BOOT_ARGS_SIZE_def BOOT_EXTRA_ARGS_SIZE_def)
    show ?thesis
      unfolding load_cmdline_def Let_def using cleared
      by (auto intro!: edited_poke_again [OF _ that(1)] edited_poke_again [OF _ that(2)]
          simp: BOOT_ARGS_SIZE_def BOOT_EXTRA_ARGS_SIZE_def view_def)
  qed
  have version: "okR (edited h) (load_os_version v h)" "okR (edited h) (load_patch_level v h)" for v
    unfolding load_os_version_def load_patch_level_def Let_def
    by (intro okR_intros edited_version assms)+
  show ?thesis
    unfolding load_prop_def Let_def
    by (cases kv) (auto simp: okR_Inr okR_Inl edited_refl [OF assms] name line version split: option.splits prod.splits)
qed

lemma load_props_edits: "wf_hdr h \<Longrightarrow> okR (edited h) (load_props kvs h)"
proof (induction kvs arbitrary: h)
  case (Cons kv kvs)
  have "okR (edited h) (load_props kvs h')" if "edited h h'" for h'
    using Cons.IH [of h'] that edited_wf(1) [OF that] by (auto elim!: okR_mono intro: edited_trans)
  then show ?case unfolding load_props.simps by (intro okR_bindR_with [OF load_prop_edits [OF Cons.prems]])
qed (simp add: okR_def edited_refl)

definition cleared_fields :: "field set" where
  "cleared_fields = {Kernel_size, Ramdisk_size, Second_size, Dtb_size, Bootconfig_size}"

lemma fresh_header_result:
  assumes "wf_hdr bh" "fresh_header w bh = Inr h"
  shows "wf_hdr h" "ver h = ver bh" "fl \<in> cleared_fields \<Longrightarrow> hdr_get fl h = 0"
    "fl \<noteq> Os_version \<Longrightarrow> fl \<notin> cleared_fields \<Longrightarrow> hdr_get fl h = hdr_get fl bh"
proof -
  let ?fls = "[Kernel_size, Ramdisk_size, Second_size, Dtb_size, Bootconfig_size]"
  let ?h1 = "fold (\<lambda>fl. hdr_set fl 0) ?fls bh"
  have wf1: "wf_hdr ?h1" "ver ?h1 = ver bh" using assms(1) by simp_all
  have "okR (edited ?h1) (if access_ok w HEADER_FILE then load_hdr_file w ?h1 else Inr ?h1)"
    unfolding load_hdr_file_def by (intro okR_if load_props_edits okR_Inr edited_refl wf1(1))
  moreover have "(if access_ok w HEADER_FILE then load_hdr_file w ?h1 else Inr ?h1) = Inr h"
    using assms by (cases "access_ok w HEADER_FILE") (simp_all add: fresh_header_def clone_wf Let_def)
  ultimately have e: "edited ?h1 h" by (simp add: okR_def)
  then show "wf_hdr h" "ver h = ver bh" using wf1(2) by (simp_all add: edited_def)
  have zero: "hdr_get gl (hdr_set gl 0 g) = 0" if "wf_hdr g" "gl \<noteq> Page_size" for gl g
    using hdr_get_set_same [OF that(1), of gl 0] hdr_get_absent [of g gl] that(2)
    by (cases "has_field g gl") (simp_all add: hdr_set_absent)
  have step: "hdr_get gl (hdr_set k 0 g) = (if gl = k then 0 else hdr_get gl g)"
    if "wf_hdr g" "k \<noteq> Page_size" for gl k g
    using zero [OF that] hdr_get_set_other [OF that(1), of k gl] by auto
  have "hdr_get gl ?h1 = (if gl \<in> cleared_fields then 0 else hdr_get gl bh)" for gl
    using assms(1) by (simp add: step cleared_fields_def)
  moreover have "hdr_get gl h = hdr_get gl ?h1" if "gl \<noteq> Os_version" for gl
    using e that by (simp add: edited_def)
  ultimately show "fl \<in> cleared_fields \<Longrightarrow> hdr_get fl h = 0"
    "fl \<noteq> Os_version \<Longrightarrow> fl \<notin> cleared_fields \<Longrightarrow> hdr_get fl h = hdr_get fl bh"
    by (auto simp: cleared_fields_def)
qed


section \<open>The start of the run\<close>

lemma opened_image:
  assumes "open_boot w src = Inr b"
  shows "\<exists>d. parsed_inv d b \<and> (length d < 2 ^ 61 \<longrightarrow> layout_ok b)"
proof -
  obtain d where "boot_scan d 0 (new_boot_img d) = Inr b"
    using assms by (auto simp: open_boot_def split: option.splits)
  moreover have "okR (scanned_ok d) (boot_scan d 0 (new_boot_img d))"
    by (rule boot_scan_inv) (simp_all add: img_inv_new, simp add: unwrapped_def new_boot_img_def)
  ultimately show ?thesis using okRD by (fastforce simp: scanned_ok_def)
qed

lemma page_up_mapped: "page_up (length d) = length (mapped d)"
proof -
  define g q r where "g = getpagesize" "q = length d div g" "r = length d mod g"
  have n: "length d = g * q + r" "r < g" "0 < g"
    by (simp_all add: g_q_r_def getpagesize_def)
  have "(g * q + r + g - 1) div g * g = g * q + r + (g - r) mod g"
  proof (cases "r = 0")
    case True
    moreover have "(g * q + g - 1) div g = q" using n(3) by (intro div_nat_eqI) simp_all
    ultimately show ?thesis by simp
  next
    case False
    then have "(g * q + r + g - 1) div g = Suc q" using n(2) by (intro div_nat_eqI) simp_all
    with False n(2) show ?thesis by simp
  qed
  then have "page_up (length d) = length d + (g - length d mod g) mod g"
    using n(1) unfolding page_up_def g_q_r_def(1) [symmetric] g_q_r_def(3) [symmetric] by simp
  then show ?thesis by (simp add: mapped_def flip: g_q_r_def(1))
qed

text \<open>The room of the header in the source image, which is where the new one goes.\<close>

lemma room_of_open:
  assumes "open_boot w src = Inr b" "hdr b = Some bh" "sane_page bh" "map_size b < 2 ^ 61"
    "ver h = ver bh" "hdr_get Page_size h = hdr_get Page_size bh" "wf_hdr h" "is_vendor h \<or> ver h = V3 \<or> ver h = V4"
  shows "\<exists>n. hdr_space h = Inr n \<and> inside (map_mem b) (payload b) (unat n) \<and> hdr_size h \<le> unat n \<and>
    page_of bh dvd unat n"
proof -
  obtain d where d: "parsed_inv d b" "length d < 2 ^ 61 \<longrightarrow> layout_ok b"
    using opened_image [OF assms(1)] by blast
  have m: "map_mem b = mapped d" "map_size b = length d"
    using d(1) by (simp_all add: parsed_inv_def img_inv_def)
  obtain h0 n where h0: "ver bh = ver h0" "\<forall>fl. fl \<noteq> Kernel_size \<longrightarrow> fl \<noteq> Ramdisk_size \<longrightarrow> hdr_get fl bh = hdr_get fl h0"
    "hdr_space h0 = Inr n" "sane_page h0 \<longrightarrow> blocks_follow b h0 (unat n)"
    using d(2) assms(2,4) by (auto simp: m layout_ok_def)
  have page: "hdr_get Page_size h0 = hdr_get Page_size bh" using h0(2) by simp
  then have follow: "blocks_follow b h0 (unat n)" using h0(4) assms(3) by (simp add: sane_page_def)
  have space: "hdr_space h = Inr n"
    using hdr_space_cong [of h h0] h0(1,3) page assms(5,6) by simp
  have sane: "sane_page h" using assms(3,6) by (simp add: sane_page_def)
  have "(k_start b, Kernel_size) \<in> set (start_blocks b)" by (simp add: start_blocks_def)
  then have "k_start b + int (unat (hdr_get Kernel_size h0)) \<le> int (page_up (map_size b))"
    using follow unfolding blocks_follow_def blocks_ok_def by blast
  moreover have "0 \<le> payload b" "k_start b = payload b + int (unat n)"
    using follow unfolding blocks_follow_def by blast+
  ultimately have "0 \<le> payload b" "payload b + int (unat n) \<le> int (page_up (map_size b))" by linarith+
  then obtain k where k: "payload b = int k" "int (k + unat n) \<le> int (page_up (map_size b))"
    by (metis of_nat_add zero_le_imp_eq_int)
  then have "k + unat n \<le> page_up (map_size b)" by (simp only: of_nat_le_iff)
  then have ins: "inside (map_mem b) (payload b) (unat n)"
    by (simp add: inside_def k(1) m page_up_mapped)
  have "hdr_size h \<le> unat n"
  proof (cases "is_vendor h")
    case True
    let ?p = "page_of h"
    have sz: "hdr_size h \<le> 2128" by (cases "ver h") (simp_all add: hdr_size_def)
    then have u: "unat (of_nat (hdr_size h) :: u64) = hdr_size h"
      by (simp add: unsigned_of_nat take_bit_nat_eq_self)
    have p: "0 < ?p" "?p < 2 ^ 31" "sint (hdr_get Page_size h) = int ?p"
      using sane sane_page_of [OF sane] by (simp_all add: sane_page_def page_of_def)
    have "int ?p < int (2 ^ 31)" using p(2) by (simp only: of_nat_less_iff)
    then have small: "int ?p < 2 ^ 31" by simp
    have "unat (of_nat (hdr_size h) :: u64) + nat (int ?p) < 2 ^ 64" using sz p by (simp add: u)
    from align_to_size_unat [OF _ small this] p(1) space True
    have "unat n = up ?p (hdr_size h)" by (auto simp: hdr_space_def p(3) u up_def)
    then show ?thesis using up_bounds [OF p(1)] by simp
  next
    case False
    then have v: "ver h = V3 \<or> ver h = V4" using assms(8) by simp
    then have "n = 4096" using space False by (auto simp: hdr_space_def hdr_get_def)
    then show ?thesis using v by (auto simp: hdr_size_def)
  qed
  moreover have "page_of bh dvd unat n"
    using hdr_space_bound [OF space sane] assms(6) by (simp add: page_of_def)
  ultimately show ?thesis using space ins by blast
qed

lemma start_of_open:
  assumes "open_boot w src = Inr b" "hdr b = Some bh" "fresh_header w bh = Inr h" "plain_world w"
    "no_flags b" "sane_page bh" "map_size b < 2 ^ 61" "bare_header h"
    "hdr_get Signature_size bh = 0" "hdr_get Vendor_ramdisk_table_size bh = 0"
    "\<forall>(fl, blk) \<in> set (block_data w b bh). length blk < 2 ^ 32 \<and> (blk \<noteq> [] \<longrightarrow> has_field h fl)"
    "read_file w RAMDISK_FILE \<noteq> Some []"
    "access_ok w KERNEL_FILE \<or> hdr_get Kernel_size bh = 0 \<or>
       inside (map_mem b) (kernel b) (unat (hdr_get Kernel_size bh))" "hdr_space h = Inr n"
  shows "start_ok w b bh (start_rp (fd_opened w dst) h) n"
proof -
  let ?st = "start_rp (fd_opened w dst) h"
  have wf: "wf_hdr bh" using opened_image [OF assms(1)] assms(2) by (auto simp: parsed_inv_def img_inv_def)
  note fresh = fresh_header_result [OF wf assms(3)]
  have kind: "is_vendor h \<or> ver h = V3 \<or> ver h = V4" using assms(8) by (auto simp: bare_header_def split: if_splits)
  have page: "hdr_get Page_size h = hdr_get Page_size bh" by (rule fresh(4)) (simp_all add: cleared_fields_def)
  have n: "hdr_space h = Inr n" "inside (map_mem b) (payload b) (unat n)" "hdr_size h \<le> unat n"
    "page_of bh dvd unat n"
    using room_of_open [OF assms(1,2,6,7) fresh(2) page fresh(1) kind] assms(14) by auto
  have opened: "fd_opened w dst = \<lparr>fd_data = [], fd_pos = 0, fd_answers = [], fd_bad = False\<rparr>"
    using assms(4) by (simp add: fd_opened_def open_trunc_def plain_world_def willing_def)
  have st: "rp_ok ?st" "out ?st = []" "rp_h ?st = h"
    using fresh(1) by (simp_all add: start_rp_def rp_ok_def opened plain_fd_def appending_def out_def)
  let ?s1 = "with_header ?st (view (nat (payload b)) (unat n) (map_mem b))"
  have "length (view (nat (payload b)) (unat n) (map_mem b)) = unat n"
    using n(2) unfolding inside_def view_def by simp linarith
  then have s1: "rp_ok ?s1" "length (out ?s1) = unat n" "rp_h ?s1 = h"
    using st by (simp_all add: with_header_def rp_ok_def out_def)
  have data: "length d < 2 ^ 32 \<and> (has_field h fl \<or> d = [])" if "(fl, d) \<in> set (block_data w b bh)" for fl d
    using assms(11) that by auto
  have absent: "hdr_get fl h = 0" if "fl \<in> cleared_fields \<or> fl = Extra_size \<or> fl = Recovery_dtbo_size" for fl
  proof -
    have "hdr_get fl h = 0" if "fl = Extra_size \<or> fl = Recovery_dtbo_size"
      using that kind by (auto simp: hdr_get_def is_vendor_def off_defs)
    then show ?thesis using that fresh(3) by blast
  qed
  have block: "file_or_none w name fl (page_of bh) ?s1"
    if "(fl, content w name) \<in> set (block_data w b bh)" "fl \<in> cleared_fields \<or> fl = Extra_size \<or> fl = Recovery_dtbo_size"
    for name fl
    using data [OF that(1)] absent [OF that(2)] s1 n(4) by (simp add: file_or_none_def)
  have "kernel_ready w b bh ?s1"
    using s1 absent [of Kernel_size] data [of Kernel_size "kernel_data w b bh"] assms(5,13)
    by (simp add: kernel_ready_def no_flags_def cleared_fields_def block_data_def)
  moreover have "access_ok w RAMDISK_FILE \<longrightarrow> content w RAMDISK_FILE \<noteq> []"
    using assms(12) by (auto simp: access_ok_def content_def)
  moreover have "\<not> flags b MTK_RAMDISK" using assms(5) by (simp add: no_flags_def)
  ultimately have "repackable w b bh ?s1"
    unfolding repackable_def using assms(4,6,9,10)
    by (intro conjI block) (simp_all add: block_data_def cleared_fields_def)
  moreover have "fields_known w b bh ?st"
    unfolding fields_known_def st(3)
  proof (intro conjI)
    show "hdr_get Signature_size h = 0" "hdr_get Vendor_ramdisk_table_size h = 0"
      using fresh(4) [of Signature_size] fresh(4) [of Vendor_ramdisk_table_size] assms(9,10)
      by (simp_all add: cleared_fields_def)
  qed (use data page in auto)
  moreover have "str_off (ver h) Id = None" using kind by (auto simp: is_vendor_def str_defs)
  moreover have "map_size b < 2 ^ 63" using assms(7) by simp
  ultimately show ?thesis
    using st n assms(5) by (simp add: start_ok_def header_room_def)
qed


section \<open>Parsing the output\<close>

text \<open>The last phases of \<open>parse_image\<close> look into the blocks that were found.\<close>

definition parse_contents :: "boot_img \<Rightarrow> boot_img result" where
  "parse_contents b =
     bindR (parse_kernel b) (\<lambda>b. bindR (parse_ramdisk b) (\<lambda>b. bindR (parse_extra b) parse_tail))"

lemma bindR_assoc: "bindR (bindR m k) k' = bindR m (\<lambda>x. bindR (k x) k')"
  by (cases m) simp_all

lemma rdp_prefix: "off + n \<le> length a \<Longrightarrow> rdp (a @ r) (int off) n = Inr (view off n a)"
  by (simp add: rdp_def mem_at_def rd_def view_def)

lemma rd32_prefix: "off + 4 \<le> length a \<Longrightarrow> rd32 (a @ r) (int off) = Inr (le32 (view off 4 a))"
  by (simp add: rd32_def rdp_prefix)

lemma buffer_match_prefix:
  "off + length lit \<le> length a \<Longrightarrow> buffer_match (a @ r) (int off) lit = Inr (view off (length lit) a = lit)"
  by (simp add: buffer_match_def rdp_prefix)

lemma any_match_prefix:
  "\<forall>l \<in> set ls. off + length l \<le> length a \<and> view off (length l) a \<noteq> l \<Longrightarrow> any_match (a @ r) (int off) ls = Inr False"
  by (induction ls) (simp_all add: buffer_match_prefix)

lemma new_hdr_prefix: "wf_hdr h \<Longrightarrow> new_hdr (ver h) (raw h @ r) (- 1) = Inr h"
  by (cases h) (simp add: new_hdr_def wf_hdr_def hdr_size_def rd_def view_def)

definition fmt_of :: "dyn_img_hdr \<Rightarrow> FileFormat" where
  "fmt_of h = (if is_vendor h then AOSP_VENDOR else AOSP)"

lemma magics: "CHROMEOS_MAGIC \<noteq> BOOT_MAGIC" "CHROMEOS_MAGIC \<noteq> VENDOR_BOOT_MAGIC" "BOOT_MAGIC \<noteq> VENDOR_BOOT_MAGIC"
  "length CHROMEOS_MAGIC = 8" "length BOOT_MAGIC = 8" "length VENDOR_BOOT_MAGIC = 8"
  by (simp_all add: CHROMEOS_MAGIC_def BOOT_MAGIC_def VENDOR_BOOT_MAGIC_def str_def)

lemma bare_size: "wf_hdr h \<Longrightarrow> bare_header h \<Longrightarrow> 1580 \<le> length (raw h)"
  by (cases "ver h") (auto simp: wf_hdr_def hdr_size_def bare_header_def is_vendor_def)

lemma check_fmt_bare:
  assumes "wf_hdr h" "bare_header h"
  shows "check_fmt (raw h @ r) = fmt_of h"
proof -
  have "8 \<le> length (raw h)" using bare_size [OF assms] by simp
  then have m: "checked_match (raw h @ r) s = (view 0 8 (raw h) = s)" if "length s = 8" for s
    using that by (simp add: checked_match_def match_at_def view_append_first)
  show ?thesis
    using assms(2) magics by (auto simp: check_fmt_def m fmt_of_def bare_header_def split: if_splits)
qed

lemma amonet_bare:
  assumes "wf_hdr h" "bare_header h" "\<not> is_vendor h"
  shows "amonet (raw h @ r) 0 = Inr False"
proof -
  have len: "1580 \<le> length (raw h)" by (rule bare_size [OF assms(1,2)])
  then have "\<exists>j. memmem (mem_at (raw h @ r) 0) AMONET_MICROLOADER_MAGIC 0 1024 = Inr j"
    by (intro memmem_inside) (simp add: mem_at_def)
  moreover have "buffer_match (raw h @ r) (int 1024) BOOT_MAGIC = Inr False"
    using buffer_match_prefix [of 1024 BOOT_MAGIC "raw h" r] len assms(2,3)
    by (simp add: magics bare_header_def)
  ultimately show ?thesis
    by (auto simp: amonet_def buffer_contain_def AMONET_MICROLOADER_SZ_def)
qed

lemma parse_hdr_bare:
  assumes "wf_hdr h" "bare_header h" "map_mem b = raw h @ r"
  shows "parse_hdr 0 (fmt_of h) b = Inr (b\<lparr>hdr := Some h\<rparr>, 0)"
proof -
  have len: "1580 \<le> length (raw h)" by (rule bare_size [OF assms(1,2)])
  have word: "rd32 (raw h @ r) 8 = Inr (le32 (view 8 4 (raw h)))"
    "rd32 (raw h @ r) 36 = Inr (le32 (view 36 4 (raw h)))" "rd32 (raw h @ r) 40 = Inr (le32 (view 40 4 (raw h)))"
    using rd32_prefix [of 8 "raw h" r] rd32_prefix [of 36 "raw h" r] rd32_prefix [of 40 "raw h" r] len by simp_all
  have mem: "mem_at (raw h @ r) 0 = raw h @ r" by (simp add: mem_at_def)
  show ?thesis
  proof (cases "is_vendor h")
    case True
    then have "(if le32 (view 8 4 (raw h)) = 4 then VND_V4 else VND_V3) = ver h"
      using assms(2) by (auto simp: bare_header_def is_vendor_def)
    then show ?thesis
      using True word(1) new_hdr_prefix [OF assms(1)] by (simp add: parse_hdr_def assms(3) fmt_of_def mem)
  next
    case False
    then have B: "view 0 8 (raw h) = BOOT_MAGIC" "\<not> 0x02000000 \<le> le32 (view 36 4 (raw h))"
      "ver h = V3 \<and> le32 (view 40 4 (raw h)) = 3 \<or> ver h = V4 \<and> le32 (view 40 4 (raw h)) = 4"
      "view 48 (length ACCLAIM_MAGIC) (raw h) \<noteq> ACCLAIM_MAGIC"
      "\<forall>m \<in> set NOOKHD_MAGICS. view 64 (length m) (raw h) \<noteq> m"
      using assms(2) by (auto simp: bare_header_def)
    have "\<forall>m \<in> set NOOKHD_MAGICS. length m \<le> 64" by (simp add: NOOKHD_MAGICS_def str_def)
    then have "any_match (raw h @ r) (int 64) NOOKHD_MAGICS = Inr False"
      using B(5) len by (intro any_match_prefix) force
    then have nook: "any_match (raw h @ r) 64 NOOKHD_MAGICS = Inr False" by simp
    have "length ACCLAIM_MAGIC = 10" by (simp add: ACCLAIM_MAGIC_def str_def)
    then have acc: "buffer_match (raw h @ r) 48 ACCLAIM_MAGIC = Inr False"
      using buffer_match_prefix [of 48 ACCLAIM_MAGIC "raw h" r] B(4) len by simp
    have magic: "rdp (raw h @ r) 0 8 = Inr BOOT_MAGIC"
      using rdp_prefix [of 0 8 "raw h" r] B(1) len by simp
    have "make_aosp_hdr (raw h @ r) 0 (- 1) = Inr (Some h)"
      using B(3) new_hdr_prefix [OF assms(1), of r] by (auto simp: make_aosp_hdr_def magic word mem)
    then show ?thesis
      using False B(2) amonet_bare [OF assms(1,2) False, of r] nook acc
      by (simp add: parse_hdr_def assms(3) fmt_of_def word Let_def)
  qed
qed


lemma align_size_page_up:
  assumes "n < 2 ^ 61"
  shows "\<exists>e. align_to_size (of_nat n) (int getpagesize) = Inr e \<and> unat e = page_up n"
proof -
  have n: "unat (of_nat n :: u64) = n" using assms by (simp add: unsigned_of_nat take_bit_nat_eq_self)
  have "unat (of_nat n :: u64) + nat (int getpagesize) < 2 ^ 64"
    using assms by (simp add: n getpagesize_def)
  from align_to_size_unat [OF _ _ this] show ?thesis by (simp add: getpagesize_def n page_up_def)
qed

text \<open>A series of pointers with their size fields leads to the given data.\<close>

definition holds_blocks :: "bytes \<Rightarrow> dyn_img_hdr \<Rightarrow> (ptr \<times> field) list \<Rightarrow> bytes list \<Rightarrow> bool" where
  "holds_blocks m h pfs ds \<longleftrightarrow>
     list_all2 (\<lambda>(p, fl) d. hdr_get fl h = of_nat (length d) \<and> inside m p (length d) \<and>
       view (nat p) (length d) m = d) pfs ds"

lemma holds_blocksI:
  assumes "map snd pfs = fls" "list_all2 (\<lambda>fl d. hdr_get fl h = of_nat (length d)) fls ds"
    "found m (map fst pfs) ds"
  shows "holds_blocks m h pfs ds"
  using assms by (auto simp: holds_blocks_def found_def list_all2_conv_all_nth split: prod.splits)

definition block_pointers :: "boot_img \<Rightarrow> ptr list" where
  "block_pointers b = map fst (img_blocks b)"

lemma placed_pointers:
  assumes "length ps = 9"
  shows "block_pointers (fold (\<lambda>((fl, place), p). place p) (zip block_list ps) c) = ps"
proof -
  obtain p1 p2 p3 p4 p5 p6 p7 p8 p9 where "ps = [p1, p2, p3, p4, p5, p6, p7, p8, p9]"
    using assms by (auto simp: numeral_eq_Suc length_Suc_conv)
  then show ?thesis by (simp add: block_pointers_def img_blocks_def block_list_def)
qed

lemma block_pointers_updates [simp]:
  "block_pointers (b\<lparr>payload := p, payload_sz := n, tail := t\<rparr>) = block_pointers b"
  by (simp add: block_pointers_def img_blocks_def)

lemma found_longer: "found m ps ds \<Longrightarrow> found (m @ z) ps ds"
  unfolding found_def by (erule list_all2_mono) (auto simp: inside_def view_append_first)

text \<open>
  The constructor on a file that starts with a bare header and whose blocks \<open>get_blocks\<close> finds: the
  image it hands to the last phases.
\<close>

lemma scan_bare:
  assumes "wf_hdr h" "bare_header h" "print_hdr h = Inr msg" "hdr_space h = Inr n" "d = raw h @ r" "length d < 2 ^ 61"
    "\<And>c. \<exists>ps off. get_blocks block_list (int (page_up (length d))) 0 h n c =
       Inr (Some off, fold (\<lambda>((fl, place), p). place p) (zip block_list ps) c) \<and> found d ps ds"
    "length ds = 9"
  shows "\<exists>b'. boot_scan d 0 (new_boot_img d) = parse_contents b' \<and> hdr b' = Some h \<and>
    parsed_inv d b' \<and> unwrapped b' \<and> found (mapped d) (block_pointers b') ds"
proof -
  let ?b0 = "new_boot_img d"
  let ?b1 = "?b0\<lparr>hdr := Some h\<rparr>"
  obtain e where e: "align_to_size (of_nat (length d)) (int getpagesize) = Inr e" "unat e = page_up (length d)"
    using align_size_page_up [OF assms(6)] by blast
  obtain ps off where ps: "get_blocks block_list (int (unat e)) 0 h n ?b1 =
      Inr (Some off, fold (\<lambda>((fl, place), p). place p) (zip block_list ps) ?b1)" "found d ps ds"
    using assms(7) [of ?b1] unfolding e(2) by blast
  let ?b3 = "fold (\<lambda>((fl, place), p). place p) (zip block_list ps) ?b1"
  let ?b4 = "?b3\<lparr>payload := 0, payload_sz := unat off, tail := (sint off, nat (int (unat e) - sint off))\<rparr>"
  have mem: "map_mem ?b0 = raw h @ (r @ drop (length d) (mapped d))"
    by (simp add: new_boot_img_def mapped_def assms(5))
  have fmt: "check_fmt d = fmt_of h" unfolding assms(5) by (rule check_fmt_bare [OF assms(1,2)])
  have noid: "\<not> long_id h"
    using assms(2) by (cases "ver h") (auto simp: long_id_def bare_header_def is_vendor_def str_defs)
  have size: "map_size ?b1 = length d" by (simp add: new_boot_img_def)
  have "parse_image 0 (fmt_of h) ?b0 = bindR (parse_contents ?b4) (\<lambda>b8. Inr (True, b8))"
    unfolding parse_image_def parse_hdr_bare [OF assms(1,2) mem]
    using noid assms(3,4) e(1) ps(1) size
    by (simp add: Let_def parse_contents_def bindR_assoc)
  moreover have "0 < length d" using bare_size [OF assms(1,2)] by (auto simp: assms(5))
  moreover have "fmt_of h = AOSP \<or> fmt_of h = AOSP_VENDOR" by (simp add: fmt_of_def)
  ultimately have "boot_scan d 0 ?b0 = parse_contents ?b4"
    by (subst boot_scan.simps) (auto simp: fmt Let_def bindR_assoc bindR_def split: sum.splits)
  moreover have "length ps = 9" using ps(2) assms(8) by (simp add: found_def list_all2_lengthD)
  then have "block_pointers ?b4 = ps" using placed_pointers by simp
  then have "found (mapped d) (block_pointers ?b4) ds" using found_longer [OF ps(2)] by (simp add: mapped_def)
  moreover have "parsed_inv d ?b1"
    using assms(1) by (simp add: parsed_inv_def img_inv_def new_boot_img_def)
  then have "hdr ?b4 = Some h" "parsed_inv d ?b4" "unwrapped ?b4"
    using block_list_hdr [OF ps(1)] block_list_keeps [OF ps(1)] get_blocks_unwrapped [OF ps(1)]
    by (simp_all add: new_boot_img_def unwrapped_def)
  ultimately show ?thesis by blast
qed

text \<open>What is left of the pointers when the last phases end.\<close>

lemma parse_contents_starts:
  assumes "parsed_inv d b" "unwrapped b"
  shows "okR (\<lambda>b'. map_mem b' = mapped d \<and> start_blocks b' = img_blocks b) (parse_contents b)"
proof (unfold okR_def, intro allI impI)
  fix b' assume "parse_contents b = Inr b'"
  then have run: "bindR (parse_kernel b) (\<lambda>b5. bindR (parse_ramdisk b5) (\<lambda>b6.
        bindR (parse_extra b6) (\<lambda>b7. bindR (parse_tail b7) (\<lambda>b8. Inr (True, b8))))) = Inr (True, b')"
    by (auto simp: parse_contents_def)
  have "frame d b b" using assms(1) by (simp add: frame_def)
  from okRD [OF frame.keep_phases [OF this] run] okRD [OF phases_starts [OF assms(2)] run]
  have "frame d b b'" "starts_kept b b'" by simp_all
  then have "start_blocks b' = start_blocks b" "map_mem b' = mapped d"
    by (simp_all add: frame_def starts_kept_def start_blocks_def parsed_inv_def img_inv_def)
  then show "map_mem b' = mapped d \<and> start_blocks b' = img_blocks b"
    by (simp add: unwrapped_blocks [OF assms(2)])
qed

section \<open>The round trip\<close>

lemma block_in_nine: "(fl, blk) \<in> set (block_data w b bh) \<Longrightarrow> blk \<in> set (nine_blocks w b bh)"
  by (auto simp: block_data_def nine_blocks_def)

lemma repack_roundtrip:
  assumes "open_boot w src = Inr b" "hdr b = Some bh" "fresh_header w bh = Inr h" "hdr_space h = Inr n"
    "plain_world w" "no_flags b" "sane_page bh" "bare_header h"
    "hdr_get Signature_size bh = 0" "hdr_get Vendor_ramdisk_table_size bh = 0"
    "\<forall>(fl, blk) \<in> set (block_data w b bh). blk \<noteq> [] \<longrightarrow> has_field h fl"
    "read_file w RAMDISK_FILE \<noteq> Some []"
    "access_ok w KERNEL_FILE \<or> hdr_get Kernel_size bh = 0 \<or>
       inside (map_mem b) (kernel b) (unat (hdr_get Kernel_size bh))"
    "max (laid_size (page_of bh) (unat n) (nine_blocks w b bh)) (map_size b) + getpagesize \<le> 2 ^ 31"
  shows "\<exists>w' d h' b'. repack L pf src dst True w = (Inr (), w') \<and> files w' = (files w)(dst := Some d) \<and>
    length d = max (laid_size (page_of bh) (unat n) (nine_blocks w b bh)) (map_size b) \<and>
    same_but_sizes h h' \<and>
    boot_scan d 0 (new_boot_img d) = parse_contents b' \<and> hdr b' = Some h' \<and> map_mem b' = mapped d \<and>
    holds_blocks (mapped d) h' (img_blocks b') (nine_blocks w b bh) \<and>
    okR (\<lambda>b''. map_mem b'' = mapped d \<and> holds_blocks (mapped d) h' (start_blocks b'') (nine_blocks w b bh))
      (parse_contents b')"
proof -
  let ?st = "start_rp (fd_opened w dst) h" and ?ds = "nine_blocks w b bh"
  have p: "0 < page_of bh" using sane_page_of [OF assms(7)] by simp
  have fit: "length blk < 2 ^ 32" if "blk \<in> set ?ds" for blk
    using laid_size_bounds(2) [OF p that, of "unat n"] assms(14) by simp
  have data: "\<forall>(fl, blk) \<in> set (block_data w b bh). length blk < 2 ^ 32 \<and> (blk \<noteq> [] \<longrightarrow> has_field h fl)"
    using assms(11) fit block_in_nine by blast
  have "map_size b < 2 ^ 61" using assms(14) by simp
  from start_of_open [OF assms(1-3,5-7) this assms(8-10) data assms(12,13,4)]
  have start: "start_ok w b bh ?st n" .
  have [simp]: "rp_h ?st = h" by (simp add: start_rp_def)
  obtain st' m msg where run: "repack_image L pf True w b bh ?st = (Inr (), st')" "\<not> fd_bad (rp_f st')"
      "length (out st') = max (laid_size (page_of bh) (unat n) ?ds) (map_size b)"
    and hd: "out st' = put_at 0 (raw (rp_h st')) m" "hdr_size (rp_h st') \<le> length m" "wf_hdr (rp_h st')"
      "same_but_sizes h (rp_h st')" "bare_header (rp_h st')" "print_hdr (rp_h st') = Inr msg" "hdr_space (rp_h st') = Inr n"
    and sizes: "list_all2 (\<lambda>fl d. hdr_get fl (rp_h st') = of_nat (length d)) (map fst block_list) ?ds"
    and get: "\<forall>map_end < 2 ^ 31. length (out st') \<le> map_end \<longrightarrow>
       (\<forall>c. \<exists>ps off. get_blocks block_list (int map_end) 0 (rp_h st') n c =
          Inr (Some off, fold (\<lambda>((fl, place), p). place p) (zip block_list ps) c) \<and> found (out st') ps ?ds)"
    using repack_image_plain [OF start, of L pf] assms(8) by auto
  let ?d = "out st'" and ?h = "rp_h st'" and ?w = "fd_close w dst (rp_f st')"
  have "repack L pf src dst True w = (Inr (), ?w)"
    using assms(1-3) run(1) by (simp add: repack_def liftS_def the_hdr_def)
  moreover have "files ?w = (files w)(dst := Some ?d)" using run(2) by (simp add: fd_close_def out_def)
  moreover have small: "length ?d + getpagesize \<le> 2 ^ 31" using assms(14) run(3) by simp
  have pg: "length ?d \<le> page_up (length ?d)" "page_up (length ?d) < 2 ^ 31"
    using up_bounds [of getpagesize "length ?d"] small by (simp_all add: page_up_def up_def getpagesize_def)
  have d: "?d = raw ?h @ drop (length (raw ?h)) m" using hd(1) by (simp add: put_at_def)
  have len: "length ?ds = 9" by (simp add: nine_blocks_def)
  have "length ?d < 2 ^ 61" using small by simp
  from scan_bare [OF hd(3,5,6,7) d this _ len] get pg obtain b' where
    b': "boot_scan ?d 0 (new_boot_img ?d) = parse_contents b'" "hdr b' = Some ?h"
      "parsed_inv ?d b'" "unwrapped b'" "found (mapped ?d) (block_pointers b') ?ds" by blast
  have "map snd (img_blocks b') = map fst block_list" by (simp add: img_blocks_def block_list_def)
  then have holds: "holds_blocks (mapped ?d) ?h (img_blocks b') ?ds"
    by (rule holds_blocksI [OF _ sizes]) (use b'(5) in \<open>simp add: block_pointers_def\<close>)
  moreover have "map_mem b' = mapped ?d" using b'(3) by (simp add: parsed_inv_def img_inv_def)
  moreover have "okR (\<lambda>b''. map_mem b'' = mapped ?d \<and> holds_blocks (mapped ?d) ?h (start_blocks b'') ?ds)
      (parse_contents b')"
    using parse_contents_starts [OF b'(3,4)] holds by (auto elim!: okR_mono)
  ultimately show ?thesis using b'(1,2) hd(4) run(3) by blast
qed

end
