(* ===== verification/MainEntry.thy ===== *)
theory MainEntry
  imports Repack CpioCommands
begin

text \<open>
  The command line (\<open>magiskboot_main.cpp\<close>). A run ends with an exit status, by \<open>return\<close> or
  through \<open>exit\<close>; an exception is caught and turned into status 1; every other error of the
  model (an access outside the mapping, a division by zero, \<open>abort\<close>, a loop that does not end)
  is a run without a status.
\<close>

section \<open>Arguments\<close>

definition has_option :: "string \<Rightarrow> string list \<Rightarrow> bool" where
  "has_option opt args = list_ex (\<lambda>a. a = opt) args"

text \<open>The handler of \<open>std::exception\<close>.\<close>

definition catch :: "int run \<Rightarrow> int run" where
  "catch m = (case m of (Inl (Throw msg), w) \<Rightarrow> (Inr 1, w) | r \<Rightarrow> r)"

text \<open>The status the process ends with, when it does.\<close>

definition exit_status :: "int result \<Rightarrow> int option" where
  "exit_status r = (case r of Inr n \<Rightarrow> Some n | Inl (Exit n) \<Rightarrow> Some (int n) | Inl _ \<Rightarrow> None)"

definition main_unpack :: "('z, 'd) libs \<Rightarrow> string \<Rightarrow> string list \<Rightarrow> world \<Rightarrow> int run" where
  "main_unpack L img opts w =
     unpack L img (has_option ''--skip-decomp'' opts) (has_option ''--hdr'' opts) w"

text \<open>The options are looked for among all arguments from the output name on, that name included.\<close>

definition main_repack :: "('z, 'd) libs \<Rightarrow> bool \<Rightarrow> string \<Rightarrow> string list \<Rightarrow> world \<Rightarrow> int run" where
  "main_repack L patch_flag src rest w =
     (let dst = (case rest of [] \<Rightarrow> NEW_BOOT | d # _ \<Rightarrow> d)
      in thenS (repack L patch_flag src dst (has_option ''--skip-comp'' rest) w) (\<lambda>_ w. (Inr 0, w)))"

definition main_split :: "('z, 'd) libs \<Rightarrow> string \<Rightarrow> string list \<Rightarrow> world \<Rightarrow> int run" where
  "main_split L img opts w = split_image_dtb L img (has_option ''--skip-decomp'' opts) w"

definition main_cpio :: "string \<Rightarrow> string list \<Rightarrow> world \<Rightarrow> int run" where
  "main_cpio file cmds w =
     (if cmds = [] then (Inr 1, w)
      else case cpio_commands w file cmds of Inl e \<Rightarrow> (Inl e, w) | Inr (n, w') \<Rightarrow> (Inr n, w'))"

text \<open>
  \<open>argv\<close> with the program name first; \<open>patch_flag\<close> says whether the environment has
  \<open>PATCHVBMETAFLAG=true\<close>.
\<close>

fun magiskboot_main :: "('z, 'd) libs \<Rightarrow> bool \<Rightarrow> string list \<Rightarrow> world \<Rightarrow> int run" where
  "magiskboot_main L patch_flag (prog # cmd # arg # rest) w =
     catch
       (if cmd = ''unpack'' then main_unpack L arg rest w
        else if cmd = ''repack'' then main_repack L patch_flag arg rest w
        else if cmd = ''split-dtb'' then main_split L arg rest w
        else if cmd = ''cpio'' then main_cpio arg rest w
        else (Inr 1, w))"
| "magiskboot_main L patch_flag _ w = (Inr 1, w)"

end
