(* ===== verification/ClaimsRepack.thy ===== *)
theory ClaimsRepack
  imports RepackRoundtrip BootSample MainEntry SampleLib
begin

text \<open>
  What \<open>repack\<close> and the command line promise: an image whose blocks the parser finds again, and
  exit statuses; and the runs that look like successes without being any.
\<close>

section \<open>The round trip\<close>

text \<open>
  C1: repacking without compression, end to end: the file \<open>repack\<close> leaves, opened again by the
  constructor of \<open>boot_img\<close>, is taken for an image whose header is the new one up to the sizes, and in
  which each of the nine blocks is the data of its file, byte for byte and with its size in the header;
  what is left to the last phases is to look into these blocks, which can still fail on their contents
  but, where it does not, leaves each block where it was found.
  The conditions: version 3 or 4 or a vendor image, whose new header carries the magic and the version
  of its kind and does not look like one behind a wrapper (\<open>bare_header\<close>); a source image without any
  flag (no AVB, SEANDROID, LG bump, DHTB, blob, NOOK, ACCLAIM, AMONET or ChromeOS part, no MTK header, no
  zImage), without a version 4 signature and without a vendor ramdisk table, and with a positive page
  size below 2 GiB; no data for a block the header has no size for; a ramdisk file that is not empty if
  there is one; a kernel file, or a kernel block inside the mapping; every system call succeeds and every
  write is complete; and an output of less than 2 GiB.
\<close>

theorem repacked_image_parses_back:
  assumes "open_boot w src = Inr b" "hdr b = Some bh" "fresh_header w bh = Inr h" "hdr_space h = Inr n"
    "plain_world w" "no_flags b" "sane_page bh" "bare_header h"
    "hdr_get Signature_size bh = 0" "hdr_get Vendor_ramdisk_table_size bh = 0"
    "\<forall>(fl, blk) \<in> set (block_data w b bh). blk \<noteq> [] \<longrightarrow> has_field h fl"
    "read_file w RAMDISK_FILE \<noteq> Some []"
    "access_ok w KERNEL_FILE \<or> hdr_get Kernel_size bh = 0 \<or>
       inside (map_mem b) (kernel b) (unat (hdr_get Kernel_size bh))"
    "max (laid_size (page_of bh) (unat n) (nine_blocks w b bh)) (map_size b) + getpagesize \<le> 2 ^ 31"
  shows "\<exists>w' d h' b'. repack L pf src dst True w = (Inr (), w') \<and> files w' = (files w)(dst := Some d) \<and>
    length d = max (laid_size (page_of bh) (unat n) (nine_blocks w b bh)) (map_size b) \<and>
    same_but_sizes h h' \<and>
    boot_scan d 0 (new_boot_img d) = parse_contents b' \<and> hdr b' = Some h' \<and> map_mem b' = mapped d \<and>
    holds_blocks (mapped d) h' (img_blocks b') (nine_blocks w b bh) \<and>
    okR (\<lambda>b''. map_mem b'' = mapped d \<and> holds_blocks (mapped d) h' (start_blocks b'') (nine_blocks w b bh))
      (parse_contents b')"
  using assms by (rule repack_roundtrip)

definition ramdisk_world :: "bytes \<Rightarrow> world" where
  "ramdisk_world d = sample_world\<lparr>files := [''boot.img'' \<mapsto> sample_img, RAMDISK_FILE \<mapsto> d]\<rparr>"

definition cleared_hdr :: dyn_img_hdr where
  "cleared_hdr = fold (\<lambda>fl. hdr_set fl 0)
     [Kernel_size, Ramdisk_size, Second_size, Dtb_size, Bootconfig_size] sample_hdr"

lemma wf_sample_hdr: "wf_hdr sample_hdr"
  by (simp add: wf_hdr_def hdr_size_def sample_hdr_def)

lemma cleared_hdr:
  "wf_hdr cleared_hdr" "ver cleared_hdr = VND_V3" "hdr_get Page_size cleared_hdr = 4096"
  "fl \<noteq> Page_size \<Longrightarrow> fl \<noteq> Header_version \<Longrightarrow> hdr_get fl cleared_hdr = 0"
proof -
  show "wf_hdr cleared_hdr" using wf_sample_hdr by (simp add: cleared_hdr_def)
  show v: "ver cleared_hdr = VND_V3" by (simp add: cleared_hdr_def sample_hdr_def)
  have raw: "cleared_hdr = hdr_set Dtb_size 0 (hdr_set Ramdisk_size 0 sample_hdr)"
    by (simp add: cleared_hdr_def hdr_set_def sample_hdr_def off_defs)
  have has: "has_field sample_hdr Ramdisk_size" "has_field sample_hdr Dtb_size"
    by (simp_all add: has_field_def sample_hdr_def off_defs)
  have get: "hdr_get gl cleared_hdr = (if gl = Dtb_size \<or> gl = Ramdisk_size then 0 else hdr_get gl sample_hdr)" for gl
    using wf_sample_hdr has unfolding raw
    by (auto simp: hdr_get_set_other hdr_get_set_same)
  show "hdr_get Page_size cleared_hdr = 4096" by (simp add: get sample_fields)
  show "fl \<noteq> Page_size \<Longrightarrow> fl \<noteq> Header_version \<Longrightarrow> hdr_get fl cleared_hdr = 0"
    by (simp add: get sample_fields)
qed

lemma sample_page: "sane_page sample_hdr" "page_of sample_hdr = 4096"
  by (simp_all add: sane_page_def page_of_def sample_fields)

lemma ramdisk_world_lookup:
  "read_file (ramdisk_world d) name =
     (if name = RAMDISK_FILE then Some d else if name = ''boot.img'' then Some sample_img else None)"
  by (simp add: ramdisk_world_def read_file_def sample_world_def)

lemma boot_img_no_ramdisk: "''boot.img'' \<noteq> RAMDISK_FILE"
  by (simp add: RAMDISK_FILE_def)

lemma ramdisk_world_files:
  "plain_world (ramdisk_world d)" "content (ramdisk_world d) RAMDISK_FILE = d"
  "name \<noteq> ''boot.img'' \<Longrightarrow> name \<noteq> RAMDISK_FILE \<Longrightarrow> read_file (ramdisk_world d) name = None"
  "read_file (ramdisk_world d) RAMDISK_FILE = Some d"
  "read_file (ramdisk_world d) ''boot.img'' = Some sample_img"
  using boot_img_no_ramdisk
  by (simp_all add: ramdisk_world_lookup content_def)
    (simp add: ramdisk_world_def sample_world_def plain_world_def willing_def)

lemma no_other_files:
  assumes "name \<in> {KERNEL_FILE, SECOND_FILE, EXTRA_FILE, RECV_DTBO_FILE, DTB_FILE, BOOTCONFIG_FILE,
    KER_DTB_FILE, HEADER_FILE}"
  shows "\<not> access_ok (ramdisk_world d) name"
proof -
  have "name \<noteq> ''boot.img'' \<and> name \<noteq> RAMDISK_FILE"
    using assms unfolding KERNEL_FILE_def SECOND_FILE_def EXTRA_FILE_def RECV_DTBO_FILE_def
      DTB_FILE_def BOOTCONFIG_FILE_def KER_DTB_FILE_def HEADER_FILE_def RAMDISK_FILE_def
    by (elim insertE emptyE) simp_all
  then show ?thesis by (simp add: access_ok_def ramdisk_world_lookup)
qed

definition ramdisk_start :: rp where
  "ramdisk_start = start_rp \<lparr>fd_data = [], fd_pos = 0, fd_answers = [], fd_bad = False\<rparr> cleared_hdr"

lemma ramdisk_start_ok: "rp_ok ramdisk_start" "out ramdisk_start = []" "rp_h ramdisk_start = cleared_hdr"
  by (simp_all add: ramdisk_start_def start_rp_def rp_ok_def plain_fd_def appending_def out_def cleared_hdr)

lemma sample_boot_fields: "flags sample_boot fl = False" "payload sample_boot = 0" "map_size sample_boot = 8192"
  by (simp_all add: sample_boot_def new_boot_img_def)

abbreviation (input) sample_copied :: rp where
  "sample_copied \<equiv> with_header ramdisk_start (view 0 4096 sample_img)"

lemma sample_copied_ok:
  "rp_ok sample_copied" "length (out sample_copied) = 4096" "rp_h sample_copied = cleared_hdr"
  using ramdisk_start_ok by (simp_all add: with_header_def rp_ok_def out_def)

lemma sample_boot_map: "map_mem sample_boot = sample_img"
  by (simp add: sample_boot_def new_boot_img_def)

lemma sample_room: "header_room sample_boot ramdisk_start 4096"
proof -
  have "hdr_space cleared_hdr = Inr 4096"
    by (simp add: hdr_space_def is_vendor_def cleared_hdr hdr_size_def sample_sint sample_align)
  then show ?thesis
    by (simp add: header_room_def ramdisk_start_ok sample_boot_map sample_boot_fields inside_def hdr_size_def
        cleared_hdr)
qed

lemma absent_content: "\<not> access_ok (ramdisk_world d) name \<Longrightarrow> content (ramdisk_world d) name = []"
  by (rule no_file)

lemma sample_kernel_data: "kernel_data (ramdisk_world d) sample_boot sample_hdr = []"
  using no_other_files absent_content by (simp add: kernel_data_def kernel_part_def sample_fields)

lemma sample_kernel_ready: "kernel_ready (ramdisk_world d) sample_boot sample_hdr sample_copied"
  by (simp add: kernel_ready_def sample_copied_ok cleared_hdr sample_kernel_data sample_boot_fields
      sample_fields)

lemma ramdisk_world_open: "open_boot (ramdisk_world d) ''boot.img'' = Inr sample_boot"
proof -
  have "mmap_data (ramdisk_world d) ''boot.img'' = mmap_data sample_world ''boot.img''"
    using boot_img_no_ramdisk by (simp add: mmap_data_def read_file_def ramdisk_world_def sample_world_def)
  then show ?thesis using sample_open by (simp add: open_boot_def)
qed

lemma sample_fresh_header: "fresh_header (ramdisk_world d) sample_hdr = Inr cleared_hdr"
proof -
  have "new_hdr (ver sample_hdr) (put_at 0 (raw sample_hdr) sample_raw) (- 1) = Inr sample_hdr"
    by (rule new_hdr_written [OF wf_sample_hdr]) (simp add: hdr_size_def sample_hdr_def)
  then have "clone sample_hdr = Inr sample_hdr"
    by (simp add: clone_def put_at_def sample_hdr_def)
  moreover have "\<not> access_ok (ramdisk_world d) HEADER_FILE" by (rule no_other_files) simp
  ultimately show ?thesis by (simp add: fresh_header_def cleared_hdr_def)
qed

lemma sample_space: "hdr_space cleared_hdr = Inr 4096"
  by (simp add: hdr_space_def is_vendor_def cleared_hdr hdr_size_def sample_sint sample_align)

lemma sample_bare: "bare_header cleared_hdr"
proof -
  have "bare_header cleared_hdr = bare_header sample_hdr"
    using wf_sample_hdr by (simp add: cleared_hdr_def bare_hdr_set resized_def)
  moreover have "bare_header sample_hdr"
    by (simp add: bare_header_def is_vendor_def sample_hdr_def sample_words)
  ultimately show ?thesis by simp
qed

lemma sample_nine:
  "nine_blocks (ramdisk_world d) sample_boot sample_hdr = [[], d, [], [], [], [], [], [], []]"
  "block_data (ramdisk_world d) sample_boot sample_hdr =
     [(Kernel_size, []), (Ramdisk_size, d), (Second_size, []), (Extra_size, []), (Recovery_dtbo_size, []),
      (Dtb_size, []), (Bootconfig_size, [])]"
  using no_other_files absent_content
  by (simp_all add: nine_blocks_def block_data_def sample_kernel_data ramdisk_world_files)

theorem repacked_image_parses_back_witness:
  "\<exists>w' d h' b'. repack store_lib False ''boot.img'' ''new.img'' True (ramdisk_world (str ''wxyz'')) = (Inr (), w') \<and>
     files w' ''new.img'' = Some d \<and> length d = 8192 \<and> boot_scan d 0 (new_boot_img d) = parse_contents b' \<and>
     hdr b' = Some h' \<and>
     holds_blocks (mapped d) h' (img_blocks b') [[], str ''wxyz'', [], [], [], [], [], [], []]"
proof -
  let ?w = "ramdisk_world (str ''wxyz'')"
  have len: "length (str ''wxyz'') = 4" "str ''wxyz'' \<noteq> []" by (simp_all add: str_def)
  have total: "laid_size 4096 4096 (nine_blocks ?w sample_boot sample_hdr) = 8192"
    by (simp add: sample_nine len up_def)
  have "has_field cleared_hdr Ramdisk_size" by (simp add: has_field_def cleared_hdr off_defs)
  then have fields: "\<forall>(fl, blk) \<in> set (block_data ?w sample_boot sample_hdr). blk \<noteq> [] \<longrightarrow> has_field cleared_hdr fl"
    by (simp add: sample_nine)
  have hdr: "hdr sample_boot = Some sample_hdr" by (simp add: sample_boot_def)
  have flags: "no_flags sample_boot" by (simp add: no_flags_def sample_boot_fields)
  have zero: "hdr_get Signature_size sample_hdr = 0" "hdr_get Vendor_ramdisk_table_size sample_hdr = 0"
    "hdr_get Kernel_size sample_hdr = 0" by (simp_all add: sample_fields)
  have ram: "read_file ?w RAMDISK_FILE \<noteq> Some []" using len by (simp add: ramdisk_world_files)
  have fits: "max (laid_size (page_of sample_hdr) (unat (4096 :: u64)) (nine_blocks ?w sample_boot sample_hdr))
      (map_size sample_boot) + getpagesize \<le> 2 ^ 31"
    by (simp add: sample_page total sample_boot_fields getpagesize_def)
  obtain w' d h' b' where
    "repack store_lib False ''boot.img'' ''new.img'' True ?w = (Inr (), w')"
    "files w' = (files ?w)(''new.img'' := Some d)" "length d = 8192"
    "boot_scan d 0 (new_boot_img d) = parse_contents b'" "hdr b' = Some h'"
    "holds_blocks (mapped d) h' (img_blocks b') (nine_blocks ?w sample_boot sample_hdr)"
    using repacked_image_parses_back [OF ramdisk_world_open hdr sample_fresh_header sample_space
        ramdisk_world_files(1) flags sample_page(1) sample_bare zero(1,2) fields ram disjI2 [OF disjI1 [OF zero(3)]]
        fits, of store_lib False "''new.img''"]
    by (auto simp: sample_page total sample_boot_fields)
  then show ?thesis unfolding sample_nine by auto
qed

section \<open>Silent failures\<close>

text \<open>
  When the recompressed zImage body is one to three bytes smaller than the original, or
  just as large, the room left for the final word is negative, and \<open>repack\<close> starts to write
  more than \<open>2 ^ 63\<close> zeros.
\<close>

theorem zimage_padding_underflows:
  assumes "plain_fd (rp_f st)" "hdr_get Kernel_size bh - h_get Kernel_size st < 4"
    "h_get Kernel_size st \<le> hdr_get Kernel_size bh"
  shows "2 ^ 63 \<le> length (out (snd (fit_zimage b bh False msize st)))"
proof -
  let ?k = "int (unat (hdr_get Kernel_size bh - h_get Kernel_size st)) - 4"
  have "unat (hdr_get Kernel_size bh - h_get Kernel_size st) < 4"
    using assms(2) by (simp add: word_less_nat_alt)
  then have "?k < 0" by linarith
  have "- (2 ^ 63) \<le> ?k" by (rule order_trans [of _ "- 4"]) simp_all
  then have "2 ^ 63 \<le> size_of_off ?k" using \<open>?k < 0\<close> by (intro size_of_off_negative)
  moreover have "\<not> hdr_get Kernel_size bh < h_get Kernel_size st" using assms(3) by simp
  ultimately show ?thesis
    using assms(1) by (simp add: fit_zimage_def Let_def put_zeros_def plain_zeros skip_value_def
        put_bytes_def plain_xwrite hdr_put_def out_def)
qed

lemma plain_fd_empty_fd [simp]: "plain_fd empty_fd" "fd_data empty_fd = []"
  by (simp_all add: empty_fd_def plain_fd_def appending_def)

theorem zimage_padding_underflows_witness:
  "2 ^ 63 \<le> length (out (snd (fit_zimage sample_boot
     \<lparr>ver = V0, raw = replicate 8 0 @ le32_bytes 502 @ replicate 1620 0\<rparr> False 1000
     (start_rp empty_fd \<lparr>ver = V0, raw = replicate 8 0 @ le32_bytes 500 @ replicate 1620 0\<rparr>))))"
  by (rule zimage_padding_underflows)
    (simp_all add: start_rp_def h_get_def hdr_get_def off_defs view_def)

text \<open>
  C39: an empty \<open>ramdisk.cpio\<close> makes \<open>repack\<close> stop behind the kernel, with a file that has
  neither ramdisk nor tail and a header that was never updated; the command still ends with
  status 0.
\<close>

theorem empty_ramdisk_stops_silently:
  assumes "open_boot w src = Inr b" "hdr b = Some bh" "fresh_header w bh = Inr h"
    "thenS (put_wrapper b (start_rp (fd_opened w dst) h)) (\<lambda>_ st.
       thenS (put_raw_header b st) (\<lambda>_ st.
         put_kernel L (has_option ''--skip-comp'' (dst # opts)) w b bh st)) = (Inr (), st)"
    "\<not> flags b MTK_RAMDISK" "hdr_get Vendor_ramdisk_table_size bh = 0" "read_file w RAMDISK_FILE = Some []"
  shows "magiskboot_main L pf (prog # ''repack'' # src # dst # opts) w =
    (Inr 0, fd_close w dst (rp_f st))"
proof -
  let ?skip = "has_option ''--skip-comp'' (dst # opts)"
  have "access_ok w RAMDISK_FILE" "mmap_data w RAMDISK_FILE = None"
    using assms(7) by (simp_all add: access_ok_def mmap_data_def)
  then have ram: "put_ramdisk L ?skip w b bh st = (Inl Returned, st\<lparr>off_ramdisk := u32_of (cur st)\<rparr>)"
    using assms(5,6) by (simp add: put_ramdisk_def Let_def)
  obtain s0 s1 where s: "put_wrapper b (start_rp (fd_opened w dst) h) = (Inr (), s0)"
    "put_raw_header b s0 = (Inr (), s1)" "put_kernel L ?skip w b bh s1 = (Inr (), st)"
    using assms(4) by (auto simp: thenS_eq_Inr_iff)
  have "repack_image L pf ?skip w b bh (start_rp (fd_opened w dst) h) =
      (Inl Returned, st\<lparr>off_ramdisk := u32_of (cur st)\<rparr>)"
    using s ram by (simp add: repack_image_def put_blocks_def)
  then show ?thesis
    using assms(1-3)
    by (simp add: catch_def main_repack_def repack_def liftS_def the_hdr_def)
qed

theorem empty_ramdisk_stops_silently_witness:
  "\<exists>st :: rp. magiskboot_main store_lib False [''magiskboot'', ''repack'', ''boot.img'', ''new.img'', ''--skip-comp'']
     (ramdisk_world []) = (Inr 0, fd_close (ramdisk_world []) ''new.img'' (rp_f st))"
proof -
  let ?w = "ramdisk_world []" and ?opts = "[''--skip-comp'']"
  have start: "start_rp (fd_opened ?w ''new.img'') cleared_hdr = ramdisk_start"
    by (simp add: ramdisk_start_def fd_opened_def open_trunc_def ramdisk_world_def sample_world_def)
  obtain st where k: "put_kernel store_lib True ?w sample_boot sample_hdr sample_copied = (Inr (), st)"
    using put_kernel_wrote [OF sample_kernel_ready sample_page(1) ramdisk_world_files(1)] by blast
  have "put_raw_header sample_boot ramdisk_start = (Inr (), sample_copied)"
    using put_raw_header_plain [OF _ _ sample_room]
    by (simp add: ramdisk_start_ok sample_boot_fields sample_boot_map)
  moreover have "put_wrapper sample_boot ramdisk_start = (Inr (), ramdisk_start)"
    by (simp add: put_wrapper_def sample_boot_fields)
  ultimately have "hdr sample_boot = Some sample_hdr"
    "thenS (put_wrapper sample_boot (start_rp (fd_opened ?w ''new.img'') cleared_hdr)) (\<lambda>_ st.
       thenS (put_raw_header sample_boot st) (\<lambda>_ st.
         put_kernel store_lib (has_option ''--skip-comp'' (''new.img'' # ?opts)) ?w sample_boot sample_hdr st)) = (Inr (), st)"
    using k by (simp_all add: start has_option_def) (simp add: sample_boot_def)
  moreover have "\<not> flags sample_boot MTK_RAMDISK" "hdr_get Vendor_ramdisk_table_size sample_hdr = 0"
    by (simp_all add: sample_boot_fields sample_fields)
  ultimately have "magiskboot_main store_lib False (''magiskboot'' # ''repack'' # ''boot.img'' # ''new.img'' # ?opts) ?w =
      (Inr 0, fd_close ?w ''new.img'' (rp_f st))"
    using empty_ramdisk_stops_silently [where st = st and opts = ?opts and dst = "''new.img''" and L = store_lib
        and prog = "''magiskboot''" and pf = False, OF ramdisk_world_open _ sample_fresh_header _ _ _
          ramdisk_world_files(4)] by simp
  then show ?thesis by blast
qed

section \<open>The command line\<close>

text \<open>
  C40: \<open>magiskboot_main\<close> runs the command that is named, with the options found among the arguments,
  and what the command throws ends in status 1, with what was written until then; a status the command
  returns is the status of the run, and \<open>repack\<close> has none of its own but 0. Too few arguments, an
  unknown command and a \<open>cpio\<close> without commands end in status 1 and change nothing.
\<close>

theorem main_turns_exceptions_into_status:
  "(unpack L arg (''--skip-decomp'' \<in> set opts) (''--hdr'' \<in> set opts) w = (r, w') \<longrightarrow>
     ((\<exists>msg. r = Inl (Throw msg)) \<longrightarrow> magiskboot_main L pf (prog # ''unpack'' # arg # opts) w = (Inr 1, w')) \<and>
     (\<forall>n. r = Inr n \<longrightarrow> magiskboot_main L pf (prog # ''unpack'' # arg # opts) w = (Inr n, w'))) \<and>
   (repack L pf arg (if opts = [] then NEW_BOOT else hd opts) (''--skip-comp'' \<in> set opts) w = (u, w') \<longrightarrow>
     ((\<exists>msg. u = Inl (Throw msg)) \<longrightarrow> magiskboot_main L pf (prog # ''repack'' # arg # opts) w = (Inr 1, w')) \<and>
     (u = Inr () \<longrightarrow> magiskboot_main L pf (prog # ''repack'' # arg # opts) w = (Inr 0, w'))) \<and>
   (split_image_dtb L arg (''--skip-decomp'' \<in> set opts) w = (r, w') \<longrightarrow>
     ((\<exists>msg. r = Inl (Throw msg)) \<longrightarrow> magiskboot_main L pf (prog # ''split-dtb'' # arg # opts) w = (Inr 1, w')) \<and>
     (\<forall>n. r = Inr n \<longrightarrow> magiskboot_main L pf (prog # ''split-dtb'' # arg # opts) w = (Inr n, w'))) \<and>
   (opts \<noteq> [] \<longrightarrow> (\<forall>n. cpio_commands w arg opts = Inr (n, w') \<longrightarrow>
     magiskboot_main L pf (prog # ''cpio'' # arg # opts) w = (Inr n, w'))) \<and>
   (length args < 3 \<longrightarrow> magiskboot_main L pf args w = (Inr 1, w)) \<and>
   (cmd \<notin> {''unpack'', ''repack'', ''split-dtb'', ''cpio''} \<longrightarrow>
      magiskboot_main L pf (prog # cmd # arg # opts) w = (Inr 1, w)) \<and>
   magiskboot_main L pf [prog, ''cpio'', arg] w = (Inr 1, w)"
proof -
  have option: "has_option opt xs \<longleftrightarrow> opt \<in> set xs" for opt xs
    by (auto simp: has_option_def list_ex_iff)
  have short: "magiskboot_main L pf args w = (Inr 1, w)" if "length args < 3"
    using that by (cases args; cases "tl args"; cases "tl (tl args)") auto
  show ?thesis
    using short
    by (cases opts)
      (auto simp: catch_def main_unpack_def main_repack_def main_split_def main_cpio_def option)
qed

definition lz4_dtb_file :: bytes where
  "lz4_dtb_file = LZ42_MAGIC @ DTB_MAGIC @ le32_bytes 80 @ le32_bytes 40 @ replicate 28 0 @
     le32_bytes 1 @ replicate 36 0"

definition lz4_dtb_world :: world where
  "lz4_dtb_world = sample_world\<lparr>files := [''zImage-dtb'' \<mapsto> lz4_dtb_file]\<rparr>"

definition no_frames_lib :: "(unit, unit) libs" where
  "no_frames_lib = store_lib\<lparr>LZ4F_createDecompressionContext := None\<rparr>"

lemma lz4_dtb_throws:
  "\<exists>w'. split_image_dtb no_frames_lib ''zImage-dtb'' False lz4_dtb_world = (Inl (Throw ''LZ4 frame init failed''), w')"
proof -
  have len: "length lz4_dtb_file = 84" by (simp add: lz4_dtb_file_def DTB_MAGIC_def LZ42_MAGIC_def)
  have "mmap_data lz4_dtb_world ''zImage-dtb'' = Some lz4_dtb_file"
    by (simp add: mmap_data_def read_file_def lz4_dtb_world_def sample_world_def)
      (auto simp: lz4_dtb_file_def LZ42_MAGIC_def)
  moreover have "find_dtb_offset (mapped lz4_dtb_file) 84 = Inr 4"
    by (simp add: find_dtb_offset_def dtb_loop.simps memmem.simps dtb_accept_def
        lz4_dtb_file_def mapped_def DTB_MAGIC_def LZ42_MAGIC_def view_def le32_bytes_def fdt32_def)
  moreover have "check_fmt_lg_at (mapped lz4_dtb_file) 0 84 = Inr LZ4"
  proof -
    have "check_fmt (take 40 lz4_dtb_file) = LZ4"
      by (simp add: lz4_dtb_file_def check_fmt_def checked_match_def match_at_def magic_defs
          guess_lzma_def view_def str_def byte_of_char_def le32_bytes_def)
    moreover have "take 40 (mapped lz4_dtb_file) = take 40 lz4_dtb_file" by (simp add: mapped_def len)
    moreover have "40 \<le> length (mapped lz4_dtb_file)" by (simp add: mapped_def len)
    ultimately show ?thesis
      by (simp add: check_fmt_lg_at_def check_fmt_lg_mem_def check_fmt_mem_def len mem_at_def rd_def view_def)
  qed
  moreover have "rdp (mapped lz4_dtb_file) 0 4 = Inr (view 0 4 (mapped lz4_dtb_file))"
    by (simp add: rdp_def mem_at_def rd_def mapped_def len)
  ultimately show ?thesis
    by (simp add: split_image_dtb_def len liftS_def decompress_to_def decompress_bytes_def
        lz4f_decompress_def no_frames_lib_def)
qed

theorem main_turns_exceptions_into_status_witness:
  "\<exists>w'. split_image_dtb no_frames_lib ''zImage-dtb'' False lz4_dtb_world = (Inl (Throw ''LZ4 frame init failed''), w') \<and>
     magiskboot_main no_frames_lib False [''magiskboot'', ''split-dtb'', ''zImage-dtb''] lz4_dtb_world = (Inr 1, w')"
proof -
  obtain w' where "split_image_dtb no_frames_lib ''zImage-dtb'' False lz4_dtb_world =
      (Inl (Throw ''LZ4 frame init failed''), w')"
    using lz4_dtb_throws by blast
  then show ?thesis
    using main_turns_exceptions_into_status [of no_frames_lib "''zImage-dtb''" "[]" lz4_dtb_world
        "Inl (Throw ''LZ4 frame init failed'')" w' False "''magiskboot''"]
    by simp
qed

end
