(* ===== verification/Lz4Mem.thy ===== *)
theory Lz4Mem
  imports Prelude
begin

text \<open>
  The memory operations and constants of the LZ4 library (\<open>external/lz4/lz4.c\<close>): the destination
  is a byte list of fixed length, positions in it are numbers, and every access is checked. A
  read outside a buffer is \<open>OutOfBounds\<close>, a write outside the destination \<open>HeapOverflow\<close>, and a
  \<open>memcpy\<close> between overlapping regions \<open>Overlap\<close>.
\<close>

section \<open>Constants\<close>

definition MINMATCH :: nat where "MINMATCH = 4"
definition WILDCOPYLENGTH :: nat where "WILDCOPYLENGTH = 8"
definition LASTLITERALS :: nat where "LASTLITERALS = 5"
definition MFLIMIT :: nat where "MFLIMIT = 12"
definition MATCH_SAFEGUARD_DISTANCE :: nat where
  "MATCH_SAFEGUARD_DISTANCE = (2 * WILDCOPYLENGTH) - MINMATCH"
definition LZ4_minLength :: nat where "LZ4_minLength = MFLIMIT + 1"
definition LZ4_DISTANCE_MAX :: nat where "LZ4_DISTANCE_MAX = 65535"
definition ML_BITS :: nat where "ML_BITS = 4"
definition ML_MASK :: nat where "ML_MASK = 2 ^ ML_BITS - 1"
definition RUN_MASK :: nat where "RUN_MASK = 2 ^ (8 - ML_BITS) - 1"
definition LZ4_MAX_INPUT_SIZE :: nat where "LZ4_MAX_INPUT_SIZE = 0x7E000000"

lemma lz4_constants [simp]:
  "MINMATCH = 4" "WILDCOPYLENGTH = 8" "LASTLITERALS = 5" "MFLIMIT = 12"
  "MATCH_SAFEGUARD_DISTANCE = 12" "LZ4_minLength = 13" "ML_MASK = 15" "RUN_MASK = 15"
  by (simp_all add: MINMATCH_def WILDCOPYLENGTH_def LASTLITERALS_def MFLIMIT_def
      MATCH_SAFEGUARD_DISTANCE_def LZ4_minLength_def ML_MASK_def RUN_MASK_def ML_BITS_def)

text \<open>Where earlier content is, for the compressor and for the decoder.\<close>

datatype dict_directive = noDict | withPrefix64k | usingExtDict | usingDictCtx

section \<open>Stores\<close>

definition poke :: "nat \<Rightarrow> bytes \<Rightarrow> bytes \<Rightarrow> bytes result" where
  "poke p bs m = (if p + length bs \<le> length m then Inr (put_at p bs m) else Inl HeapOverflow)"

text \<open>
  \<open>memcpy(dst + d, from + s, n)\<close>, where the source is another buffer or, for \<open>None\<close>, the
  destination itself.
\<close>

definition LZ4_memcpy :: "bytes option \<Rightarrow> nat \<Rightarrow> nat \<Rightarrow> nat \<Rightarrow> bytes \<Rightarrow> bytes result" where
  "LZ4_memcpy from d s n m =
     (case from of
        Some b \<Rightarrow> bindR (rd b s n) (\<lambda>bs. poke d bs m)
      | None \<Rightarrow> if d < s + n \<and> s < d + n then Inl Overlap else bindR (rd m s n) (\<lambda>bs. poke d bs m))"

text \<open>Copies in steps of 8 bytes, up to 8 bytes past the end \<open>e\<close>.\<close>

function LZ4_wildCopy8 :: "bytes option \<Rightarrow> nat \<Rightarrow> nat \<Rightarrow> nat \<Rightarrow> bytes \<Rightarrow> bytes result" where
  "LZ4_wildCopy8 from d s e m =
     bindR (LZ4_memcpy from d s 8 m) (\<lambda>m'.
       if d + 8 < e then LZ4_wildCopy8 from (d + 8) (s + 8) e m' else Inr m')"
  by pat_completeness auto
termination by (relation "measure (\<lambda>(from, d, s, e, m). e - d)") auto

declare LZ4_wildCopy8.simps [simp del]

text \<open>\<open>while (op < e) *op++ = *match++;\<close>\<close>

function copy_bytes :: "nat \<Rightarrow> nat \<Rightarrow> nat \<Rightarrow> bytes \<Rightarrow> bytes result" where
  "copy_bytes d s e m =
     (if d < e then bindR (rd m s 1) (\<lambda>bs. bindR (poke d bs m) (copy_bytes (d + 1) (s + 1) e))
      else Inr m)"
  by pat_completeness auto
termination by (relation "measure (\<lambda>(d, s, e, m). e - d)") auto

declare copy_bytes.simps [simp del]

definition le16 :: "bytes \<Rightarrow> nat" where
  "le16 bs = unat (bs ! 0) + 256 * unat (bs ! 1)"

definition LZ4_readLE16 :: "bytes \<Rightarrow> nat \<Rightarrow> nat result" where
  "LZ4_readLE16 b i = bindR (rd b i 2) (\<lambda>bs. Inr (le16 bs))"

definition le16_bytes :: "nat \<Rightarrow> bytes" where
  "le16_bytes v = [of_nat v, of_nat (v div 256)]"

definition LZ4_writeLE16 :: "nat \<Rightarrow> nat \<Rightarrow> bytes \<Rightarrow> bytes result" where
  "LZ4_writeLE16 p v m = poke p (le16_bytes v) m"

definition LZ4_write32 :: "nat \<Rightarrow> u32 \<Rightarrow> bytes \<Rightarrow> bytes result" where
  "LZ4_write32 p v m = poke p (le32_bytes v) m"

definition LZ4_read32 :: "bytes \<Rightarrow> nat \<Rightarrow> u32 result" where
  "LZ4_read32 b i = bindR (rd b i 4) (\<lambda>bs. Inr (le32 bs))"

definition LZ4_read_ARCH :: "bytes \<Rightarrow> nat \<Rightarrow> u64 result" where
  "LZ4_read_ARCH b i = bindR (rd b i 8) (\<lambda>bs. Inr (le64 bs))"

section \<open>Facts\<close>

lemma le16_less: "le16 bs < 65536"
proof -
  have "unat (bs ! 0) < 256" "unat (bs ! 1) < 256"
    using unsigned_less [of "bs ! 0"] unsigned_less [of "bs ! 1"] by simp_all
  then show ?thesis by (simp add: le16_def)
qed

lemma length_le16_bytes [simp]: "length (le16_bytes v) = 2"
  by (simp add: le16_bytes_def)

lemma le16_le16_bytes: "v < 65536 \<Longrightarrow> le16 (le16_bytes v) = v"
  by (simp add: le16_def le16_bytes_def unat_of_nat)

lemma poke_ok: "p + length bs \<le> length m \<Longrightarrow> poke p bs m = Inr (put_at p bs m)"
  by (simp add: poke_def)

lemma nth_store:
  assumes "p + length bs \<le> length m" "i < length m"
  shows "put_at p bs m ! i = (if p \<le> i \<and> i < p + length bs then bs ! (i - p) else m ! i)"
proof -
  have "take p m @ bs @ drop (p + length bs) m = put_at p bs m"
    using assms(1) by (simp add: put_at_inside)
  moreover have "(take p m @ bs @ drop (p + length bs) m) ! i =
      (if p \<le> i \<and> i < p + length bs then bs ! (i - p) else m ! i)"
    using assms by (auto simp: nth_append min_def)
  ultimately show ?thesis by simp
qed

lemma nth_view: "i < n \<Longrightarrow> off + i < length m \<Longrightarrow> view off n m ! i = m ! (off + i)"
  by (simp add: view_def)

lemma take_put_at: "k \<le> p \<Longrightarrow> p \<le> length m \<Longrightarrow> take k (put_at p bs m) = take k m"
  by (simp add: put_at_def min_def)

lemma take_put_at_all:
  "p + length bs \<le> length m \<Longrightarrow> take (p + length bs) (put_at p bs m) = take p m @ bs"
  by (cases bs) (auto simp: put_at_inside)

section \<open>Copies from another buffer\<close>

lemma memcpy_from:
  assumes "s + n \<le> length b" "d + n \<le> length m"
  shows "LZ4_memcpy (Some b) d s n m = Inr (put_at d (view s n b) m)"
  using assms by (simp add: LZ4_memcpy_def poke_ok)

lemma wildCopy8_from:
  assumes "s + (e - d) + 7 \<le> length b" "s + 8 \<le> length b" "e + 7 \<le> length m" "d + 8 \<le> length m" "d \<le> e"
  shows "\<exists>m'. LZ4_wildCopy8 (Some b) d s e m = Inr m' \<and> length m' = length m \<and>
    take e m' = take d m @ view s (e - d) b"
  using assms
proof (induction "e - d" arbitrary: d s m rule: less_induct)
  case less
  let ?m = "put_at d (view s 8 b) m"
  have step: "LZ4_memcpy (Some b) d s 8 m = Inr ?m"
    using less.prems by (simp add: memcpy_from)
  have len: "length ?m = length m" using less.prems by simp
  have tk: "take (d + 8) ?m = take d m @ view s 8 b"
    using take_put_at_all [of d "view s 8 b" m] less.prems by simp
  show ?case
  proof (cases "d + 8 < e")
    case True
    have "\<exists>m'. LZ4_wildCopy8 (Some b) (d + 8) (s + 8) e ?m = Inr m' \<and> length m' = length ?m \<and>
      take e m' = take (d + 8) ?m @ view (s + 8) (e - (d + 8)) b"
      using True less.prems by (intro less.hyps) simp_all
    moreover have "view s (e - d) b = view s 8 b @ view (s + 8) (e - (d + 8)) b"
      using True take_add [of 8 "e - (d + 8)" "drop s b"] by (simp add: view_def add.commute)
    ultimately show ?thesis
      using True step tk len by (subst LZ4_wildCopy8.simps) auto
  next
    case False
    have "take e ?m = take e (take (d + 8) ?m)" using False by (simp add: min_def)
    also have "\<dots> = take d m @ view s (e - d) b"
      unfolding tk using False less.prems by (simp add: view_def min_def)
    finally show ?thesis
      using False step len by (subst LZ4_wildCopy8.simps) simp
  qed
qed

end
