(* ===== verification/Lz4Decode.thy ===== *)
theory Lz4Decode
  imports Lz4Mem
begin

text \<open>
  The block decoder of \<open>external/lz4/lz4.c\<close>: \<open>LZ4_decompress_generic\<close> for an input of known size
  (\<open>endOnInputSize\<close>), full or partial, with every dictionary mode, with and without the fast loop
  (\<open>LZ4_FAST_DEC_LOOP\<close> is 1 on x86 and 0 on ARM with clang), and the functions that instantiate it.
  The destination is a byte list that starts with the prefix of earlier output
  the pointer \<open>lowPrefix\<close> points into; its end is \<open>oend\<close>. Differences of pointers are written as
  sums, so that positions stay natural numbers; \<open>match\<close> is \<open>op\<close> less the offset.
\<close>

datatype variable_length_error = loop_error | initial_error | ok

section \<open>Variable lengths\<close>

text \<open>
  The \<open>do\<close> loop of \<open>read_variable_length\<close>; the sum is a \<open>U32\<close>. It yields the position, the length
  and the error.
\<close>

function read_length_loop ::
    "bytes \<Rightarrow> int \<Rightarrow> bool \<Rightarrow> nat \<Rightarrow> u32 \<Rightarrow> (nat \<times> u32 \<times> variable_length_error) result" where
  "read_length_loop b lencheck loop_check i len =
     bindR (rd b i 1) (\<lambda>bs.
       let s = (ucast (bs ! 0) :: u32); i1 = i + 1; len1 = len + s
       in if loop_check \<and> lencheck \<le> int i1 then Inr (i1, len1, loop_error)
          else if s = 255 then read_length_loop b lencheck loop_check i1 len1
          else Inr (i1, len1, ok))"
  by pat_completeness auto
termination
  by (relation "measure (\<lambda>(b, lencheck, loop_check, i, len). length b - i)") (auto dest: rd_eq_InrD)

declare read_length_loop.simps [simp del]

definition read_variable_length ::
    "bytes \<Rightarrow> int \<Rightarrow> bool \<Rightarrow> bool \<Rightarrow> nat \<Rightarrow> (nat \<times> u32 \<times> variable_length_error) result" where
  "read_variable_length b lencheck loop_check initial_check i =
     (if initial_check \<and> lencheck \<le> int i then Inr (i, 0, initial_error)
      else read_length_loop b lencheck loop_check i 0)"

section \<open>One sequence\<close>

text \<open>The arguments of \<open>LZ4_decompress_generic\<close> that stay as they are.\<close>

record dec_args =
  in_src :: bytes
  in_dict :: bytes
  in_mode :: dict_directive
  in_partial :: bool
  low_prefix :: nat
  in_fast :: bool

text \<open>
  Where a step leads: to the next sequence at \<open>ip\<close> and \<open>op\<close>, to the end of decoding at \<open>op\<close>, or to
  \<open>_output_error\<close> at \<open>ip\<close>.
\<close>

datatype dec_next = Next nat nat bytes | Stop nat bytes | Bad nat bytes

definition checkOffset :: "dec_args \<Rightarrow> bool" where
  "checkOffset E \<longleftrightarrow> length (in_dict E) < 64 * 1024"

text \<open>The literal length behind a token: \<open>None\<close> is the error of \<open>read_variable_length\<close>.\<close>

definition literal_length :: "dec_args \<Rightarrow> nat \<Rightarrow> nat \<Rightarrow> (nat \<times> nat option) result" where
  "literal_length E ip len =
     (if len = RUN_MASK then
        bindR (read_variable_length (in_src E) (int (length (in_src E)) - int RUN_MASK) True True ip)
          (\<lambda>(ip', v, e). Inr (ip', if e = initial_error then None else Some (len + unat v)))
      else Inr (ip, Some len))"

text \<open>
  The literals: those that reach one of the ends are the last ones, or an error, or, in partial
  decoding, cut off.
\<close>

definition copy_literals :: "dec_args \<Rightarrow> nat \<Rightarrow> nat \<Rightarrow> nat \<Rightarrow> bytes \<Rightarrow> dec_next result" where
  "copy_literals E ip op len m =
     (let iend = length (in_src E); oend = length m; cpy = op + len
      in if oend < cpy + MFLIMIT \<or> iend < ip + len + (2 + 1 + LASTLITERALS) then
           (if in_partial E then
              let len1 = (if iend < ip + len then iend - ip else len);
                  len2 = (if oend < op + len1 then oend - op else len1)
              in bindR (LZ4_memcpy (Some (in_src E)) op ip len2 m) (\<lambda>m.
                   if op + len2 = oend \<or> iend \<le> ip + len2 + 2 then Inr (Stop (op + len2) m)
                   else Inr (Next (ip + len2) (op + len2) m))
            else if ip + len \<noteq> iend \<or> oend < cpy then Inr (Bad ip m)
            else bindR (LZ4_memcpy (Some (in_src E)) op ip len m) (\<lambda>m. Inr (Stop cpy m)))
         else bindR (LZ4_wildCopy8 (Some (in_src E)) op ip cpy m) (\<lambda>m. Inr (Next (ip + len) cpy m)))"

text \<open>The match length behind a token, \<open>MINMATCH\<close> included.\<close>

definition match_length :: "dec_args \<Rightarrow> nat \<Rightarrow> nat \<Rightarrow> (nat \<times> nat option) result" where
  "match_length E ip code =
     (if code = ML_MASK then
        bindR (read_variable_length (in_src E)
            (int (length (in_src E)) - int LASTLITERALS + 1) True False ip)
          (\<lambda>(ip', v, e). Inr (ip', if e \<noteq> ok then None else Some (code + unat v + MINMATCH)))
      else Inr (ip, Some (code + MINMATCH)))"

text \<open>A match that starts in the external dictionary.\<close>

definition copy_from_dict ::
    "dec_args \<Rightarrow> nat \<Rightarrow> nat \<Rightarrow> nat \<Rightarrow> nat \<Rightarrow> bytes \<Rightarrow> dec_next result" where
  "copy_from_dict E ip op offset len m =
     (let oend = length m; dict = in_dict E; back = low_prefix E + offset - op
      in if oend < op + len + LASTLITERALS \<and> \<not> in_partial E then Inr (Bad ip m)
         else
           let len = (if oend < op + len + LASTLITERALS then min len (oend - op) else len)
           in if length dict < back then Inl OutOfBounds
              else if len \<le> back then
                bindR (LZ4_memcpy (Some dict) op (length dict - back) len m) (\<lambda>m.
                  Inr (Next ip (op + len) m))
              else
                let restSize = len - back
                in bindR (LZ4_memcpy (Some dict) op (length dict - back) back m) (\<lambda>m.
                     let op = op + back
                     in bindR (if op - low_prefix E < restSize
                               then copy_bytes op (low_prefix E) (op + restSize) m
                               else LZ4_memcpy None op (low_prefix E) restSize m) (\<lambda>m.
                          Inr (Next ip (op + restSize) m))))"

definition inc32table :: "nat list" where
  "inc32table = [0, 1, 2, 1, 0, 4, 4, 4]"

definition dec64table :: "int list" where
  "dec64table = [0, 0, 0, - 1, - 4, 1, 2, 3]"

text \<open>The first 8 bytes of a match; the position in the match from which the copy goes on.\<close>

definition copy_first8 :: "nat \<Rightarrow> nat \<Rightarrow> bytes \<Rightarrow> (bytes \<times> nat) result" where
  "copy_first8 op offset m =
     (let s = op - offset
      in if offset < 8 then
           bindR (LZ4_write32 op 0 m) (\<lambda>m.
           bindR (copy_bytes op s (op + 4) m) (\<lambda>m.
             let s1 = s + inc32table ! offset
             in bindR (LZ4_memcpy None (op + 4) s1 4 m) (\<lambda>m.
                  Inr (m, nat (int s1 - dec64table ! offset)))))
         else bindR (LZ4_memcpy None op s 8 m) (\<lambda>m. Inr (m, s + 8)))"

text \<open>The rest of a match, close to the end of the buffer and far from it.\<close>

definition copy_near_end :: "nat \<Rightarrow> nat \<Rightarrow> nat \<Rightarrow> bytes \<Rightarrow> bytes result" where
  "copy_near_end op s cpy m =
     (let oCopyLimit = length m - (WILDCOPYLENGTH - 1)
      in if op < oCopyLimit then
           bindR (LZ4_wildCopy8 None op s oCopyLimit m)
             (copy_bytes oCopyLimit (s + (oCopyLimit - op)) cpy)
         else copy_bytes op s cpy m)"

definition copy_far :: "nat \<Rightarrow> nat \<Rightarrow> nat \<Rightarrow> nat \<Rightarrow> bytes \<Rightarrow> bytes result" where
  "copy_far op s len cpy m =
     bindR (LZ4_memcpy None op s 8 m) (\<lambda>m.
       if 16 < len then LZ4_wildCopy8 None (op + 8) (s + 8) cpy m else Inr m)"

text \<open>A match within the block.\<close>

definition copy_within ::
    "dec_args \<Rightarrow> nat \<Rightarrow> nat \<Rightarrow> nat \<Rightarrow> nat \<Rightarrow> bytes \<Rightarrow> dec_next result" where
  "copy_within E ip op offset len m =
     (let oend = length m; cpy = op + len
      in if op < offset then Inl OutOfBounds
         else if in_partial E \<and> oend < cpy + MATCH_SAFEGUARD_DISTANCE then
           let mlen = min len (oend - op)
           in bindR (if op < op - offset + mlen then copy_bytes op (op - offset) (op + mlen) m
                     else LZ4_memcpy None op (op - offset) mlen m) (\<lambda>m.
                if op + mlen = oend then Inr (Stop (op + mlen) m) else Inr (Next ip (op + mlen) m))
         else bindR (copy_first8 op offset m) (\<lambda>(m, s).
           if oend < cpy + MATCH_SAFEGUARD_DISTANCE then
             (if oend < cpy + LASTLITERALS then Inr (Bad ip m)
              else bindR (copy_near_end (op + 8) s cpy m) (\<lambda>m. Inr (Next ip cpy m)))
           else bindR (copy_far (op + 8) s len cpy m) (\<lambda>m. Inr (Next ip cpy m))))"

text \<open>The code from \<open>safe_match_copy\<close> on, and from \<open>_copy_match\<close> on.\<close>

definition match_copy :: "dec_args \<Rightarrow> nat \<Rightarrow> nat \<Rightarrow> nat \<Rightarrow> nat \<Rightarrow> bytes \<Rightarrow> dec_next result" where
  "match_copy E ip op offset len m =
     (if checkOffset E \<and> op + length (in_dict E) < low_prefix E + offset then Inr (Bad ip m)
      else if in_mode E = usingExtDict \<and> op < low_prefix E + offset then
        copy_from_dict E ip op offset len m
      else copy_within E ip op offset len m)"

definition copy_match :: "dec_args \<Rightarrow> nat \<Rightarrow> nat \<Rightarrow> nat \<Rightarrow> nat \<Rightarrow> bytes \<Rightarrow> dec_next result" where
  "copy_match E ip op offset code m =
     bindR (match_length E ip code) (\<lambda>(ip, n).
       case n of
         None \<Rightarrow> Inr (Bad ip m)
       | Some len \<Rightarrow> match_copy E ip op offset len m)"

text \<open>
  The two-stage shortcut: 16 bytes for up to 14 literals, then 18 bytes for a match of up to 18
  that does not overlap itself within 8 bytes.
\<close>

definition shortcut :: "dec_args \<Rightarrow> nat \<Rightarrow> nat \<Rightarrow> nat \<Rightarrow> nat \<Rightarrow> bytes \<Rightarrow> dec_next result" where
  "shortcut E ip op len code m =
     bindR (LZ4_memcpy (Some (in_src E)) op ip 16 m) (\<lambda>m.
     bindR (LZ4_readLE16 (in_src E) (ip + len)) (\<lambda>offset.
       let op = op + len; ip = ip + len + 2
       in if code \<noteq> ML_MASK \<and> 8 \<le> offset \<and>
             (in_mode E = withPrefix64k \<or> low_prefix E + offset \<le> op) then
            if op < offset then Inl OutOfBounds
            else
              bindR (LZ4_memcpy None op (op - offset) 8 m) (\<lambda>m.
              bindR (LZ4_memcpy None (op + 8) (op - offset + 8) 8 m) (\<lambda>m.
              bindR (LZ4_memcpy None (op + 16) (op - offset + 16) 2 m) (\<lambda>m.
                Inr (Next ip (op + code + MINMATCH) m))))
          else copy_match E ip op offset code m))"

text \<open>Offset and match behind the literals, when those were not the last.\<close>

definition decode_match :: "dec_args \<Rightarrow> nat \<Rightarrow> dec_next \<Rightarrow> dec_next result" where
  "decode_match E code r =
     (case r of
        Next ip op m \<Rightarrow>
          bindR (LZ4_readLE16 (in_src E) ip) (\<lambda>offset. copy_match E (ip + 2) op offset code m)
      | _ \<Rightarrow> Inr r)"

definition dec_step :: "dec_args \<Rightarrow> nat \<Rightarrow> nat \<Rightarrow> bytes \<Rightarrow> dec_next result" where
  "dec_step E ip op m =
     bindR (rd (in_src E) ip 1) (\<lambda>bs.
       let token = unat (bs ! 0); ip = ip + 1; len = token div 2 ^ ML_BITS; code = token mod 2 ^ ML_BITS
       in if len \<noteq> RUN_MASK \<and> ip + 14 + 2 < length (in_src E) \<and> op + 14 + 18 \<le> length m then
            shortcut E ip op len code m
          else
            bindR (literal_length E ip len) (\<lambda>(ip, n).
              case n of
                None \<Rightarrow> Inr (Bad ip m)
              | Some len \<Rightarrow> bindR (copy_literals E ip op len m) (decode_match E code)))"

section \<open>Progress\<close>

text \<open>Every step consumes input.\<close>

definition forward :: "nat \<Rightarrow> dec_next \<Rightarrow> bool" where
  "forward i r \<longleftrightarrow> (\<forall>ip op m. r = Next ip op m \<longrightarrow> i \<le> ip)"

lemma forward_simps [simp]:
  "forward i (Next ip op m) \<longleftrightarrow> i \<le> ip" "forward i (Stop op m)" "forward i (Bad ip m)"
  by (simp_all add: forward_def)

lemma read_length_loop_progress:
  "okR (\<lambda>(i', v, e). i < i') (read_length_loop b lencheck loop_check i len)"
proof (induction b lencheck loop_check i len rule: read_length_loop.induct)
  case (1 b lencheck loop_check i len)
  show ?case
  proof (subst read_length_loop.simps, rule okR_bindR)
    fix bs assume "rd b i 1 = Inr bs"
    from 1 [OF this refl refl refl] show "okR (\<lambda>(i', v, e). i < i')
       (let s = ucast (bs ! 0); i1 = i + 1; len1 = len + s
        in if loop_check \<and> lencheck \<le> int i1 then Inr (i1, len1, loop_error)
           else if s = 255 then read_length_loop b lencheck loop_check i1 len1 else Inr (i1, len1, ok))"
      by (auto simp: Let_def okR_def)
  qed
qed

lemma read_variable_length_progress:
  "read_variable_length b lencheck loop_check ic i = Inr (i', v, e) \<Longrightarrow> i \<le> i'"
  by (auto simp: read_variable_length_def dest!: okRD [OF read_length_loop_progress] split: if_splits)

lemma literal_length_progress: "literal_length E i len = Inr (i', n) \<Longrightarrow> i \<le> i'"
  by (auto simp: literal_length_def dest: read_variable_length_progress split: if_splits)

lemma match_length_progress: "match_length E i code = Inr (i', n) \<Longrightarrow> i \<le> i'"
  by (auto simp: match_length_def dest: read_variable_length_progress split: if_splits)

lemma copy_literals_progress: "okR (forward i) (copy_literals E i op len m)"
  unfolding copy_literals_def Let_def by (auto intro!: okR_intros)

lemma copy_from_dict_progress: "okR (forward i) (copy_from_dict E i op offset len m)"
  unfolding copy_from_dict_def Let_def by (auto intro!: okR_intros)

lemma copy_within_progress: "okR (forward i) (copy_within E i op offset len m)"
  unfolding copy_within_def Let_def by (auto intro!: okR_intros)

lemma forward_mono: "okR (forward i) r \<Longrightarrow> j \<le> i \<Longrightarrow> okR (forward j) r"
  by (auto simp: okR_def forward_def)

lemma match_copy_progress: "okR (forward i) (match_copy E i op offset len m)"
  unfolding match_copy_def
  by (auto intro!: okR_intros copy_from_dict_progress copy_within_progress)

lemma copy_match_progress: "okR (forward i) (copy_match E i op offset code m)"
  unfolding copy_match_def
  by (auto intro!: okR_intros dest!: match_length_progress intro: forward_mono [OF match_copy_progress])

lemma shortcut_progress: "okR (forward i) (shortcut E i op len code m)"
  unfolding shortcut_def Let_def
  by (auto intro!: okR_intros intro: forward_mono [OF copy_match_progress])

lemma decode_match_progress: "forward i r \<Longrightarrow> okR (forward i) (decode_match E code r)"
  by (cases r)
    (auto simp: decode_match_def intro!: okR_intros intro: forward_mono [OF copy_match_progress])

lemma sequence_progress:
  "j \<le> ip \<Longrightarrow> okR (forward j) (bindR (copy_literals E ip op len m) (decode_match E code))"
  by (rule forward_mono [OF okR_bindR_with [OF copy_literals_progress decode_match_progress]])

lemma dec_step_progress: "okR (forward (Suc i)) (dec_step E i op m)"
  unfolding dec_step_def Let_def
proof (rule okR_bindR, rule okR_if)
  show "okR (forward (Suc i)) (shortcut E (i + 1) op len code m)" for len code
    by (rule forward_mono [OF shortcut_progress]) simp
  show "okR (forward (Suc i)) (bindR (literal_length E (i + 1) len) (\<lambda>(ip, n).
      case n of None \<Rightarrow> Inr (Bad ip m)
      | Some len \<Rightarrow> bindR (copy_literals E ip op len m) (decode_match E code)))" for len code
    by (rule okR_bindR, rule okR_case_prod, rule okR_case_option)
      (auto intro: okR_Inr sequence_progress dest!: literal_length_progress)
qed

section \<open>The decoder\<close>

function dec_loop :: "dec_args \<Rightarrow> nat \<Rightarrow> nat \<Rightarrow> bytes \<Rightarrow> dec_next result" where
  "dec_loop E ip op m =
     bindR (dec_step E ip op m) (\<lambda>r.
       case r of Next ip' op' m' \<Rightarrow> dec_loop E ip' op' m' | _ \<Rightarrow> Inr r)"
  by pat_completeness auto
termination
proof (relation "measure (\<lambda>(E, ip, op, m). length (in_src E) - ip)")
  fix E ip op m r ip' op' m'
  assume "dec_step E ip op m = Inr r" "r = Next ip' op' m'"
  then have step: "dec_step E ip op m = Inr (Next ip' op' m')" by simp
  then have "ip < length (in_src E)"
    unfolding dec_step_def by (auto dest: rd_eq_InrD)
  moreover have "ip < ip'"
    using okRD [OF dec_step_progress step] by simp
  ultimately show "((E, ip', op', m'), (E, ip, op, m)) \<in> measure (\<lambda>(E, ip, op, m). length (in_src E) - ip)"
    by simp
qed simp

declare dec_loop.simps [simp del]

section \<open>The fast loop\<close>

function LZ4_wildCopy32 :: "bytes option \<Rightarrow> nat \<Rightarrow> nat \<Rightarrow> nat \<Rightarrow> bytes \<Rightarrow> bytes result" where
  "LZ4_wildCopy32 from d s e m =
     bindR (LZ4_memcpy from d s 16 m) (\<lambda>m1.
     bindR (LZ4_memcpy from (d + 16) (s + 16) 16 m1) (\<lambda>m2.
       if d + 32 < e then LZ4_wildCopy32 from (d + 32) (s + 32) e m2 else Inr m2))"
  by pat_completeness auto
termination by (relation "measure (\<lambda>(from, d, s, e, m). e - d)") auto

declare LZ4_wildCopy32.simps [simp del]

text \<open>The first 8 bytes are those of \<open>copy_first8\<close>.\<close>

definition LZ4_memcpy_using_offset_base :: "nat \<Rightarrow> nat \<Rightarrow> nat \<Rightarrow> bytes \<Rightarrow> bytes result" where
  "LZ4_memcpy_using_offset_base d e offset m =
     bindR (copy_first8 d offset m) (\<lambda>(m, s). LZ4_wildCopy8 None (d + 8) s e m)"

text \<open>\<open>while (dstPtr < dstEnd) { LZ4_memcpy(dstPtr, v, 8); dstPtr += 8; }\<close>\<close>

function fill_pattern :: "nat \<Rightarrow> nat \<Rightarrow> bytes \<Rightarrow> bytes \<Rightarrow> bytes result" where
  "fill_pattern d e v m =
     (if d < e then bindR (poke d v m) (fill_pattern (d + 8) e v) else Inr m)"
  by pat_completeness auto
termination by (relation "measure (\<lambda>(d, e, v, m). e - d)") auto

declare fill_pattern.simps [simp del]

definition LZ4_memcpy_using_offset :: "nat \<Rightarrow> nat \<Rightarrow> nat \<Rightarrow> bytes \<Rightarrow> bytes result" where
  "LZ4_memcpy_using_offset d e offset m =
     (let s = d - offset; pattern = (\<lambda>v. bindR (poke d v m) (fill_pattern (d + 8) e v))
      in if offset = 1 then bindR (rd m s 1) (\<lambda>b. pattern (replicate 8 (b ! 0)))
         else if offset = 2 then bindR (rd m s 2) (\<lambda>b. pattern (b @ b @ take 4 (b @ b)))
         else if offset = 4 then bindR (rd m s 4) (\<lambda>b. pattern (b @ b))
         else LZ4_memcpy_using_offset_base d e offset m)"

text \<open>
  Where a step of the fast loop leads: to the next one, to \<open>safe_literal_copy\<close> with the length of the
  literals and the match code of the token, to \<open>safe_match_copy\<close> with offset and length, or to
  \<open>_output_error\<close>.
\<close>

datatype fast_next =
    FastNext nat nat bytes
  | SafeLiterals nat nat nat nat bytes
  | SafeMatch nat nat nat nat bytes
  | FastBad nat bytes

definition FASTLOOP_SAFE_DISTANCE :: nat where "FASTLOOP_SAFE_DISTANCE = 64"

definition fast_literals :: "dec_args \<Rightarrow> nat \<Rightarrow> nat \<Rightarrow> nat \<Rightarrow> nat \<Rightarrow> bytes \<Rightarrow> fast_next result" where
  "fast_literals E ip op len code m =
     (let iend = length (in_src E); oend = length m
      in if len = RUN_MASK then
           bindR (literal_length E ip len) (\<lambda>(ip, n).
             case n of
               None \<Rightarrow> Inr (FastBad ip m)
             | Some len \<Rightarrow>
                 let cpy = op + len
                 in if oend < cpy + 32 \<or> iend < ip + len + 32 then Inr (SafeLiterals ip op len code m)
                    else bindR (LZ4_wildCopy32 (Some (in_src E)) op ip cpy m) (\<lambda>m.
                      Inr (FastNext (ip + len) cpy m)))
         else if iend < ip + (16 + 1) then Inr (SafeLiterals ip op len code m)
         else bindR (LZ4_memcpy (Some (in_src E)) op ip 16 m) (\<lambda>m. Inr (FastNext (ip + len) (op + len) m)))"

text \<open>A match that ends well before the end of the destination.\<close>

definition fast_copy :: "dec_args \<Rightarrow> nat \<Rightarrow> nat \<Rightarrow> nat \<Rightarrow> nat \<Rightarrow> bytes \<Rightarrow> fast_next result" where
  "fast_copy E ip op offset len m =
     (if checkOffset E \<and> op + length (in_dict E) < low_prefix E + offset then Inr (FastBad ip m)
      else if in_mode E = usingExtDict \<and> op < low_prefix E + offset then
        bindR (copy_from_dict E ip op offset len m) (\<lambda>r.
          Inr (case r of Next ip op m \<Rightarrow> FastNext ip op m | Stop op m \<Rightarrow> FastNext ip op m | Bad ip m \<Rightarrow> FastBad ip m))
      else if op < offset then Inl OutOfBounds
      else
        bindR (if offset < 16 then LZ4_memcpy_using_offset op (op + len) offset m
               else LZ4_wildCopy32 None op (op - offset) (op + len) m) (\<lambda>m.
          Inr (FastNext ip (op + len) m)))"

definition fast_match :: "dec_args \<Rightarrow> nat \<Rightarrow> fast_next \<Rightarrow> fast_next result" where
  "fast_match E code r =
     (case r of
        FastNext ip op m \<Rightarrow>
          bindR (LZ4_readLE16 (in_src E) ip) (\<lambda>offset.
            let ip = ip + 2; oend = length m
            in if code = ML_MASK then
                 (if checkOffset E \<and> op + length (in_dict E) < low_prefix E + offset then Inr (FastBad ip m)
                  else
                    bindR (match_length E ip code) (\<lambda>(ip, n).
                      case n of
                        None \<Rightarrow> Inr (FastBad ip m)
                      | Some len \<Rightarrow>
                          if oend \<le> op + len + FASTLOOP_SAFE_DISTANCE then Inr (SafeMatch ip op offset len m)
                          else fast_copy E ip op offset len m))
               else
                 let len = code + MINMATCH
                 in if oend \<le> op + len + FASTLOOP_SAFE_DISTANCE then Inr (SafeMatch ip op offset len m)
                    else if (in_mode E = withPrefix64k \<or> low_prefix E + offset \<le> op) \<and> 8 \<le> offset then
                      if op < offset then Inl OutOfBounds
                      else
                        bindR (LZ4_memcpy None op (op - offset) 8 m) (\<lambda>m.
                        bindR (LZ4_memcpy None (op + 8) (op - offset + 8) 8 m) (\<lambda>m.
                        bindR (LZ4_memcpy None (op + 16) (op - offset + 16) 2 m) (\<lambda>m.
                          Inr (FastNext ip (op + len) m))))
                    else fast_copy E ip op offset len m)
      | _ \<Rightarrow> Inr r)"

definition fast_step :: "dec_args \<Rightarrow> nat \<Rightarrow> nat \<Rightarrow> bytes \<Rightarrow> fast_next result" where
  "fast_step E ip op m =
     bindR (rd (in_src E) ip 1) (\<lambda>bs.
       let token = unat (bs ! 0); len = token div 2 ^ ML_BITS; code = token mod 2 ^ ML_BITS
       in bindR (fast_literals E (ip + 1) op len code m) (fast_match E code))"

definition fast_forward :: "nat \<Rightarrow> fast_next \<Rightarrow> bool" where
  "fast_forward i r \<longleftrightarrow> (\<forall>ip op m. r = FastNext ip op m \<longrightarrow> i \<le> ip)"

lemma fast_forward_simps [simp]:
  "fast_forward i (FastNext ip op m) \<longleftrightarrow> i \<le> ip" "fast_forward i (SafeLiterals ip op len code m)"
  "fast_forward i (SafeMatch ip op offset len m)" "fast_forward i (FastBad ip m)"
  by (simp_all add: fast_forward_def)

lemma fast_literals_progress: "okR (fast_forward i) (fast_literals E i op len code m)"
  unfolding fast_literals_def Let_def
  by (auto intro!: okR_intros dest!: literal_length_progress)

lemma fast_copy_progress: "i \<le> ip \<Longrightarrow> okR (fast_forward i) (fast_copy E ip op offset len m)"
  unfolding fast_copy_def
  by (auto intro!: okR_intros dest!: okRD [OF copy_from_dict_progress] split: dec_next.split
      simp: forward_def)

lemma fast_match_progress: "fast_forward i r \<Longrightarrow> okR (fast_forward i) (fast_match E code r)"
  by (cases r)
    (auto simp: fast_match_def Let_def intro!: okR_intros fast_copy_progress dest!: match_length_progress)

lemma fast_step_progress: "okR (fast_forward (Suc i)) (fast_step E i op m)"
  unfolding fast_step_def Let_def Suc_eq_plus1
  by (rule okR_bindR, rule okR_bindR_with [OF fast_literals_progress fast_match_progress])

text \<open>The rest of the block, once the safe loop has taken over.\<close>

definition safe_rest :: "dec_args \<Rightarrow> dec_next \<Rightarrow> dec_next result" where
  "safe_rest E r = (case r of Next ip op m \<Rightarrow> dec_loop E ip op m | _ \<Rightarrow> Inr r)"

function fast_loop :: "dec_args \<Rightarrow> nat \<Rightarrow> nat \<Rightarrow> bytes \<Rightarrow> dec_next result" where
  "fast_loop E ip op m =
     bindR (fast_step E ip op m) (\<lambda>r.
       case r of
         FastNext ip' op' m' \<Rightarrow> fast_loop E ip' op' m'
       | SafeLiterals ip' op' len code m' \<Rightarrow>
           bindR (bindR (copy_literals E ip' op' len m') (decode_match E code)) (safe_rest E)
       | SafeMatch ip' op' offset len m' \<Rightarrow>
           bindR (match_copy E ip' op' offset len m') (safe_rest E)
       | FastBad ip' m' \<Rightarrow> Inr (Bad ip' m'))"
  by pat_completeness auto
termination
proof (relation "measure (\<lambda>(E, ip, op, m). length (in_src E) - ip)")
  fix E ip op m r ip' op' m'
  assume "fast_step E ip op m = Inr r" "r = FastNext ip' op' m'"
  then have step: "fast_step E ip op m = Inr (FastNext ip' op' m')" by simp
  then have "ip < length (in_src E)"
    unfolding fast_step_def by (auto dest: rd_eq_InrD)
  moreover have "ip < ip'"
    using okRD [OF fast_step_progress step] by simp
  ultimately show "((E, ip', op', m'), (E, ip, op, m)) \<in> measure (\<lambda>(E, ip, op, m). length (in_src E) - ip)"
    by simp
qed simp

declare fast_loop.simps [simp del]

definition decode_block :: "dec_args \<Rightarrow> nat \<Rightarrow> bytes \<Rightarrow> dec_next result" where
  "decode_block E op m =
     (if in_fast E \<and> op + FASTLOOP_SAFE_DISTANCE \<le> length m then fast_loop E 0 op m
      else dec_loop E 0 op m)"

section \<open>Entry points\<close>

text \<open>
  The result and the destination after the call: the number of bytes written from \<open>op\<close> on, or a
  negative number that tells where in the input the error is. The functions below take the value of
  \<open>LZ4_FAST_DEC_LOOP\<close>, \<open>fl\<close>, as an argument.
\<close>

definition LZ4_decompress_generic :: "dec_args \<Rightarrow> nat \<Rightarrow> bytes \<Rightarrow> (int \<times> bytes) result" where
  "LZ4_decompress_generic E dst m =
     (if length m = dst then
        Inr (if in_partial E then 0 else if in_src E = [0] then 0 else - 1, m)
      else if in_src E = [] then Inr (- 1, m)
      else bindR (decode_block E dst m) (\<lambda>r.
        Inr (case r of
               Next ip op m \<Rightarrow> (int op - int dst, m)
             | Stop op m \<Rightarrow> (int op - int dst, m)
             | Bad ip m \<Rightarrow> (- int ip - 1, m))))"

definition LZ4_decompress_safe :: "bool \<Rightarrow> bytes \<Rightarrow> bytes \<Rightarrow> (int \<times> bytes) result" where
  "LZ4_decompress_safe fl src dst =
     LZ4_decompress_generic
       \<lparr>in_src = src, in_dict = [], in_mode = noDict, in_partial = False, low_prefix = 0, in_fast = fl\<rparr> 0 dst"

definition LZ4_decompress_safe_partial :: "bool \<Rightarrow> bytes \<Rightarrow> nat \<Rightarrow> bytes \<Rightarrow> (int \<times> bytes) result" where
  "LZ4_decompress_safe_partial fl src target dst =
     bindR (LZ4_decompress_generic
       \<lparr>in_src = src, in_dict = [], in_mode = noDict, in_partial = True, low_prefix = 0, in_fast = fl\<rparr> 0
       (take (min target (length dst)) dst))
       (\<lambda>(n, m). Inr (n, m @ drop (min target (length dst)) dst))"

text \<open>
  The destination with its prefix in front: \<open>dest\<close> is the number of bytes before it. No offset reaches
  further back than 65535 bytes.
\<close>

definition LZ4_decompress_safe_withPrefix64k :: "bool \<Rightarrow> bytes \<Rightarrow> nat \<Rightarrow> bytes \<Rightarrow> (int \<times> bytes) result" where
  "LZ4_decompress_safe_withPrefix64k fl src dest m =
     (if dest < 64 * 1024 - 1 then Inl OutOfBounds
      else LZ4_decompress_generic
        \<lparr>in_src = src, in_dict = [], in_mode = withPrefix64k, in_partial = False,
         low_prefix = dest - 64 * 1024, in_fast = fl\<rparr> dest m)"

definition LZ4_decompress_safe_withSmallPrefix ::
    "bool \<Rightarrow> bytes \<Rightarrow> nat \<Rightarrow> nat \<Rightarrow> bytes \<Rightarrow> (int \<times> bytes) result" where
  "LZ4_decompress_safe_withSmallPrefix fl src prefixSize dest m =
     (if dest < prefixSize then Inl OutOfBounds
      else LZ4_decompress_generic
        \<lparr>in_src = src, in_dict = [], in_mode = noDict, in_partial = False,
         low_prefix = dest - prefixSize, in_fast = fl\<rparr> dest m)"

definition LZ4_decompress_safe_forceExtDict ::
    "bool \<Rightarrow> bytes \<Rightarrow> bytes \<Rightarrow> nat \<Rightarrow> bytes \<Rightarrow> (int \<times> bytes) result" where
  "LZ4_decompress_safe_forceExtDict fl src dict dest m =
     LZ4_decompress_generic
       \<lparr>in_src = src, in_dict = dict, in_mode = usingExtDict, in_partial = False, low_prefix = dest, in_fast = fl\<rparr>
       dest m"

text \<open>\<open>None\<close> is a dictionary of \<open>dictSize\<close> bytes that ends where the destination starts.\<close>

definition LZ4_decompress_safe_usingDict ::
    "bool \<Rightarrow> bytes \<Rightarrow> nat \<Rightarrow> bytes option \<Rightarrow> nat \<Rightarrow> bytes \<Rightarrow> (int \<times> bytes) result" where
  "LZ4_decompress_safe_usingDict fl src dictSize ext dest m =
     (if dictSize = 0 then
        bindR (LZ4_decompress_safe fl src (drop dest m)) (\<lambda>(n, d). Inr (n, take dest m @ d))
      else
        case ext of
          None \<Rightarrow>
            if 64 * 1024 - 1 \<le> dictSize then LZ4_decompress_safe_withPrefix64k fl src dest m
            else LZ4_decompress_safe_withSmallPrefix fl src dictSize dest m
        | Some d \<Rightarrow> LZ4_decompress_safe_forceExtDict fl src d dest m)"

end
