(* ===== verification/Lz4Safe.thy ===== *)
theory Lz4Safe
  imports Lz4Decode
begin

text \<open>
  Memory safety of the block decoder: whatever the input, no access of \<open>LZ4_decompress_generic\<close>
  leaves its buffers, no \<open>memcpy\<close> overlaps, and the result is at most the room given.
\<close>

section \<open>Copies\<close>

lemma memcpy_inside:
  assumes "s + n \<le> length m" "d + n \<le> length m" "s + n \<le> d \<or> d + n \<le> s"
  shows "LZ4_memcpy None d s n m = Inr (put_at d (view s n m) m)"
  using assms by (auto simp: LZ4_memcpy_def poke_ok)

lemma memcpy_back:
  assumes "n \<le> offset" "offset \<le> d" "d + n \<le> length m"
  shows "LZ4_memcpy None d (d - offset) n m = Inr (put_at d (view (d - offset) n m) m)"
  using assms by (intro memcpy_inside) auto

lemma wildCopy8_safe:
  assumes "s + 8 \<le> d" "d + 8 \<le> length m" "e + 7 \<le> length m"
  shows "returnsR (\<lambda>m'. length m' = length m) (LZ4_wildCopy8 None d s e m)"
  using assms
proof (induction "e - d" arbitrary: d s m rule: less_induct)
  case less
  let ?m = "put_at d (view s 8 m) m"
  have step: "LZ4_memcpy None d s 8 m = Inr ?m"
    using less.prems by (intro memcpy_inside) auto
  have len: "length ?m = length m" using less.prems by simp
  have "returnsR (\<lambda>m'. length m' = length m) (LZ4_wildCopy8 None (d + 8) (s + 8) e ?m)" if "d + 8 < e"
    using less.hyps [of "d + 8" "s + 8" ?m] less.prems that len by simp
  then show ?case using step len by (subst LZ4_wildCopy8.simps) simp
qed

lemma copy_bytes_safe:
  assumes "s \<le> d" "e \<le> length m"
  shows "returnsR (\<lambda>m'. length m' = length m) (copy_bytes d s e m)"
  using assms
proof (induction "e - d" arbitrary: d s m rule: less_induct)
  case less
  let ?m = "put_at d (view s 1 m) m"
  show ?case
  proof (cases "d < e")
    case True
    then have len: "length ?m = length m" using less.prems by simp
    have "returnsR (\<lambda>m'. length m' = length ?m) (copy_bytes (d + 1) (s + 1) e ?m)"
      using True less.prems len by (intro less.hyps) auto
    then show ?thesis
      using True less.prems len by (subst copy_bytes.simps) (simp add: poke_ok)
  next
    case False
    then show ?thesis by (subst copy_bytes.simps) simp
  qed
qed

lemma small_offset:
  "(n :: nat) < 8 \<Longrightarrow> n = 0 \<or> n = 1 \<or> n = 2 \<or> n = 3 \<or> n = 4 \<or> n = 5 \<or> n = 6 \<or> n = 7"
  by linarith

lemma copy_first8_tables:
  assumes "offset < 8" "offset \<le> op" "s1 = op - offset + inc32table ! offset"
  shows "s1 \<le> op" "nat (int s1 - dec64table ! offset) \<le> op"
  using small_offset [OF assms(1)] assms(2)
  unfolding assms(3) by (auto simp: inc32table_def dec64table_def)

lemma copy_first8_safe:
  assumes "offset \<le> op" "op + 8 \<le> length m"
  shows "returnsR (\<lambda>(m', s). length m' = length m \<and> s \<le> op) (copy_first8 op offset m)"
proof (cases "offset < 8")
  case True
  let ?m0 = "put_at op (le32_bytes 0) m" and ?s1 = "op - offset + inc32table ! offset"
  have m0: "length ?m0 = length m" using assms by simp
  have "returnsR (\<lambda>m'. length m' = length m) (copy_bytes op (op - offset) (op + 4) ?m0)"
    using copy_bytes_safe [of "op - offset" op "op + 4" ?m0] assms m0 by simp
  moreover have "returnsR (\<lambda>(m', s). length m' = length m \<and> s \<le> op)
      (bindR (LZ4_memcpy None (op + 4) ?s1 4 m') (\<lambda>m. Inr (m, nat (int ?s1 - dec64table ! offset))))"
    if "length m' = length m" for m'
    using that assms copy_first8_tables [OF True assms(1) refl] by (simp add: memcpy_inside)
  moreover have "poke op (le32_bytes 0) m = Inr ?m0" using assms by (simp add: poke_ok)
  ultimately show ?thesis
    unfolding copy_first8_def Let_def if_P [OF True] LZ4_write32_def by (simp only: bindR_Inr returnsR_bindR)
next
  case False
  then show ?thesis
    using assms by (simp add: copy_first8_def Let_def memcpy_back)
qed

lemma copy_near_end_safe:
  assumes "s + 8 \<le> op" "cpy \<le> length m"
  shows "returnsR (\<lambda>m'. length m' = length m) (copy_near_end op s cpy m)"
proof (cases "op < length m - 7")
  case True
  have "returnsR (\<lambda>m'. length m' = length m) (LZ4_wildCopy8 None op s (length m - 7) m)"
    using True assms by (intro wildCopy8_safe) auto
  moreover have "returnsR (\<lambda>m''. length m'' = length m)
      (copy_bytes (length m - 7) (s + (length m - 7 - op)) cpy m')" if "length m' = length m" for m'
    using copy_bytes_safe [of "s + (length m - 7 - op)" "length m - 7" cpy m'] True assms that by simp
  ultimately show ?thesis
    using True by (simp add: copy_near_end_def Let_def returnsR_bindR)
next
  case False
  then show ?thesis using copy_bytes_safe [of s op cpy m] assms by (simp add: copy_near_end_def Let_def)
qed

lemma copy_far_safe:
  assumes "s + 8 \<le> op" "op + 8 \<le> length m" "cpy + 7 \<le> length m" "16 < len \<Longrightarrow> op + 16 \<le> length m"
  shows "returnsR (\<lambda>m'. length m' = length m) (copy_far op s len cpy m)"
proof -
  let ?m = "put_at op (view s 8 m) m"
  have "LZ4_memcpy None op s 8 m = Inr ?m" "length ?m = length m"
    using assms by (auto intro!: memcpy_inside)
  moreover have "returnsR (\<lambda>m'. length m' = length m) (LZ4_wildCopy8 None (op + 8) (s + 8) cpy ?m)"
    if "16 < len"
    using wildCopy8_safe [of "s + 8" "op + 8" ?m cpy] assms(1,3) assms(4) [OF that] calculation(2)
    by simp
  ultimately show ?thesis by (simp add: copy_far_def)
qed

section \<open>Steps\<close>

text \<open>What a step may lead to: positions inside the buffers, the destination never shrinks.\<close>

fun dec_safe :: "dec_args \<Rightarrow> nat \<Rightarrow> nat \<Rightarrow> dec_next \<Rightarrow> bool" where
  "dec_safe E lo n (Next ip op m) \<longleftrightarrow> ip < length (in_src E) \<and> lo \<le> op \<and> op \<le> n \<and> length m = n"
| "dec_safe E lo n (Stop op m) \<longleftrightarrow> lo \<le> op \<and> op \<le> n \<and> length m = n"
| "dec_safe E lo n (Bad ip m) \<longleftrightarrow> ip \<le> length (in_src E) \<and> length m = n"

definition args_ok :: "dec_args \<Rightarrow> nat \<Rightarrow> bool" where
  "args_ok E op \<longleftrightarrow> low_prefix E \<le> op \<and> (in_mode E = withPrefix64k \<longrightarrow> low_prefix E + 65535 \<le> op) \<and>
     (in_mode E \<noteq> usingExtDict \<longrightarrow> in_dict E = [])"

lemma args_ok_mono: "args_ok E op \<Longrightarrow> op \<le> op' \<Longrightarrow> args_ok E op'"
  by (auto simp: args_ok_def)

lemma copy_within_safe:
  assumes "offset \<le> op" "op \<le> length m" "in_partial E \<or> op + 8 \<le> length m" "4 \<le> len"
    "ip < length (in_src E)"
  shows "returnsR (dec_safe E op (length m)) (copy_within E ip op offset len m)"
proof -
  let ?mlen = "min len (length m - op)"
  have part: "returnsR (\<lambda>m'. length m' = length m)
      (if op < op - offset + ?mlen then copy_bytes op (op - offset) (op + ?mlen) m
       else LZ4_memcpy None op (op - offset) ?mlen m)"
    using assms copy_bytes_safe [of "op - offset" op "op + ?mlen" m] by (simp add: memcpy_inside)
  show ?thesis
  proof (cases "in_partial E \<and> length m < op + len + MATCH_SAFEGUARD_DISTANCE")
    case True
    have "returnsR (dec_safe E op (length m)) (bindR
      (if op < op - offset + ?mlen then copy_bytes op (op - offset) (op + ?mlen) m
       else LZ4_memcpy None op (op - offset) ?mlen m) (\<lambda>m'. if op + ?mlen = length m
          then Inr (Stop (op + ?mlen) m') else Inr (Next ip (op + ?mlen) m')))"
      by (rule returnsR_bindR [OF part]) (use assms in auto)
    then show ?thesis using True assms by (simp add: copy_within_def Let_def)
  next
    case full: False
    then have room: "op + 8 \<le> length m" using assms by auto
    have rest: "returnsR (dec_safe E op (length m))
        (if length m < op + len + MATCH_SAFEGUARD_DISTANCE then
           (if length m < op + len + LASTLITERALS then Inr (Bad ip m')
            else bindR (copy_near_end (op + 8) s (op + len) m') (\<lambda>m. Inr (Next ip (op + len) m)))
         else bindR (copy_far (op + 8) s len (op + len) m') (\<lambda>m. Inr (Next ip (op + len) m)))"
      if "length m' = length m" "s \<le> op" for m' s
    proof (intro returnsR_if)
      show "returnsR (dec_safe E op (length m)) (Inr (Bad ip m'))" using assms that by simp
      show "returnsR (dec_safe E op (length m))
          (bindR (copy_near_end (op + 8) s (op + len) m') (\<lambda>m. Inr (Next ip (op + len) m)))"
        if "\<not> length m < op + len + LASTLITERALS"
        by (rule returnsR_bindR [OF copy_near_end_safe]) (use that \<open>length m' = length m\<close> \<open>s \<le> op\<close> assms in auto)
      show "returnsR (dec_safe E op (length m))
          (bindR (copy_far (op + 8) s len (op + len) m') (\<lambda>m. Inr (Next ip (op + len) m)))"
        if "\<not> length m < op + len + MATCH_SAFEGUARD_DISTANCE"
        by (rule returnsR_bindR [OF copy_far_safe]) (use that \<open>length m' = length m\<close> \<open>s \<le> op\<close> assms in auto)
    qed
    have "returnsR (dec_safe E op (length m)) (bindR (copy_first8 op offset m) (\<lambda>(m', s).
        if length m < op + len + MATCH_SAFEGUARD_DISTANCE then
           (if length m < op + len + LASTLITERALS then Inr (Bad ip m')
            else bindR (copy_near_end (op + 8) s (op + len) m') (\<lambda>m. Inr (Next ip (op + len) m)))
         else bindR (copy_far (op + 8) s len (op + len) m') (\<lambda>m. Inr (Next ip (op + len) m))))"
      by (rule returnsR_bindR [OF copy_first8_safe [OF assms(1) room]]) (use rest in auto)
    moreover have "\<not> op < offset" using assms by simp
    ultimately show ?thesis
      by (simp only: copy_within_def Let_def full if_False)
  qed
qed

lemma dict_copies_safe:
  assumes "0 < gap" "gap \<le> length dict" "low \<le> op" "op + l \<le> length m"
  shows "returnsR (\<lambda>r. \<exists>m'. r = Next ip (op + l) m' \<and> length m' = length m) (
    if length dict < gap then Inl OutOfBounds
    else if l \<le> gap then
      bindR (LZ4_memcpy (Some dict) op (length dict - gap) l m) (\<lambda>m. Inr (Next ip (op + l) m))
    else
      bindR (LZ4_memcpy (Some dict) op (length dict - gap) gap m) (\<lambda>m.
        bindR (if op + gap - low < l - gap
               then copy_bytes (op + gap) low (op + gap + (l - gap)) m
               else LZ4_memcpy None (op + gap) low (l - gap) m) (\<lambda>m.
          Inr (Next ip (op + gap + (l - gap)) m))))"
proof (cases "l \<le> gap")
  case True
  then show ?thesis using assms by (simp add: memcpy_from)
next
  case False
  let ?m = "put_at op (view (length dict - gap) gap dict) m"
  have first: "LZ4_memcpy (Some dict) op (length dict - gap) gap m = Inr ?m" "length ?m = length m"
    using assms False by (simp_all add: memcpy_from)
  have "returnsR (\<lambda>m'. length m' = length m) (if op + gap - low < l - gap
      then copy_bytes (op + gap) low (op + gap + (l - gap)) ?m
      else LZ4_memcpy None (op + gap) low (l - gap) ?m)"
    using copy_bytes_safe [of low "op + gap" "op + gap + (l - gap)" ?m]
      memcpy_inside [of low "l - gap" ?m "op + gap"] first(2) False assms
    by (intro returnsR_if) auto
  from returnsR_bindR [OF this, of "\<lambda>r. \<exists>m'. r = Next ip (op + l) m' \<and> length m' = length m"
      "\<lambda>m. Inr (Next ip (op + gap + (l - gap)) m)"]
  show ?thesis using first False assms by simp
qed

lemma copy_from_dict_exact:
  assumes "op < low_prefix E + offset" "low_prefix E + offset \<le> op + length (in_dict E)"
    "low_prefix E \<le> op" "op + len + LASTLITERALS \<le> length m"
  shows "returnsR (\<lambda>r. \<exists>m'. r = Next ip (op + len) m' \<and> length m' = length m) (copy_from_dict E ip op offset len m)"
proof -
  have "\<not> length m < op + len + LASTLITERALS" using assms(4) by simp
  moreover have "0 < low_prefix E + offset - op" "low_prefix E + offset - op \<le> length (in_dict E)"
    "op + len \<le> length m"
    using assms by auto
  note dict_copies_safe [OF this(1,2) assms(3) this(3), of ip]
  ultimately show ?thesis
    unfolding copy_from_dict_def Let_def by (simp only: if_False simp_thms)
qed

lemma copy_from_dict_safe:
  assumes "op < low_prefix E + offset" "low_prefix E + offset \<le> op + length (in_dict E)"
    "low_prefix E \<le> op" "op \<le> length m" "ip < length (in_src E)"
  shows "returnsR (dec_safe E op (length m)) (copy_from_dict E ip op offset len m)"
proof (cases "length m < op + len + LASTLITERALS")
  case True
  let ?l = "min len (length m - op)"
  have "0 < low_prefix E + offset - op" "low_prefix E + offset - op \<le> length (in_dict E)"
    "op + ?l \<le> length m"
    using assms by auto
  note copies = dict_copies_safe [OF this(1,2) assms(3) this(3), of ip]
  have safe: "dec_safe E op (length m) r" if "\<exists>m'. r = Next ip (op + ?l) m' \<and> length m' = length m" for r
    using that assms(4,5) by auto
  show ?thesis
    using returnsR_mono [OF copies safe] assms(5) True
    unfolding copy_from_dict_def Let_def by (cases "in_partial E") (simp_all only: if_True simp_thms if_False, simp_all)
next
  case False
  show ?thesis
    by (rule returnsR_mono [OF copy_from_dict_exact [OF assms(1-3)]]) (use False assms(5) in auto)
qed

section \<open>Lengths\<close>

lemma read_length_loop_safe:
  assumes "i < length b" "lencheck \<le> int (length b)"
  shows "returnsR (\<lambda>(i', v, e). i' \<le> length b \<and> (e = ok \<longrightarrow> int i' < lencheck) \<and> e \<noteq> initial_error)
    (read_length_loop b lencheck True i len)"
  using assms
proof (induction "length b - i" arbitrary: i len rule: less_induct)
  case less
  have "rd b i 1 = Inr (view i 1 b)" using less.prems by simp
  then show ?case
    using less.prems less.hyps [of "i + 1"] by (subst read_length_loop.simps) (auto simp: Let_def)
qed

lemma literal_length_safe:
  assumes "ip \<le> length (in_src E)"
  shows "returnsR (\<lambda>(ip', n). ip' \<le> length (in_src E)) (literal_length E ip len)"
proof -
  have "returnsR (\<lambda>(ip', v, e). ip' \<le> length (in_src E))
      (read_variable_length (in_src E) (int (length (in_src E)) - int RUN_MASK) True True ip)"
    using assms by (auto simp: read_variable_length_def intro!: returnsR_mono [OF read_length_loop_safe])
  then have "returnsR (\<lambda>(ip', n). ip' \<le> length (in_src E))
      (bindR (read_variable_length (in_src E) (int (length (in_src E)) - int RUN_MASK) True True ip)
        (\<lambda>(ip', v, e). Inr (ip', if e = initial_error then None else Some (len + unat v))))"
    by (rule returnsR_bindR) auto
  then show ?thesis using assms by (auto simp: literal_length_def)
qed

lemma match_length_safe:
  assumes "ip < length (in_src E)"
  shows "returnsR (\<lambda>(ip', n). ip' \<le> length (in_src E) \<and>
    (\<forall>len. n = Some len \<longrightarrow> ip' < length (in_src E) \<and> 4 \<le> len)) (match_length E ip code)"
proof -
  have "returnsR (\<lambda>(ip', v, e). ip' \<le> length (in_src E) \<and> (e = ok \<longrightarrow> ip' < length (in_src E)))
      (read_variable_length (in_src E) (int (length (in_src E)) - int LASTLITERALS + 1) True False ip)"
    using assms by (auto simp: read_variable_length_def intro!: returnsR_mono [OF read_length_loop_safe])
  then have "returnsR (\<lambda>(ip', n). ip' \<le> length (in_src E) \<and>
      (\<forall>len. n = Some len \<longrightarrow> ip' < length (in_src E) \<and> 4 \<le> len))
      (bindR (read_variable_length (in_src E) (int (length (in_src E)) - int LASTLITERALS + 1) True False ip)
        (\<lambda>(ip', v, e). Inr (ip', if e \<noteq> ok then None else Some (code + unat v + MINMATCH))))"
    by (rule returnsR_bindR) auto
  then show ?thesis using assms by (auto simp: match_length_def)
qed

section \<open>The loop\<close>

lemma match_copy_safe:
  assumes "args_ok E op" "offset < 65536" "op \<le> length m" "in_partial E \<or> op + 8 \<le> length m"
    "ip < length (in_src E)" "4 \<le> len"
  shows "returnsR (dec_safe E op (length m)) (match_copy E ip op offset len m)"
proof -
  have far: "low_prefix E + offset \<le> op + length (in_dict E)" if "\<not> checkOffset E"
    using that assms(1,2) by (simp add: checkOffset_def args_ok_def)
  show ?thesis
    unfolding match_copy_def
  proof (intro returnsR_if)
    show "returnsR (dec_safe E op (length m)) (Inr (Bad ip m))" using assms(5) by simp
    show "returnsR (dec_safe E op (length m)) (copy_from_dict E ip op offset len m)"
      if "\<not> (checkOffset E \<and> op + length (in_dict E) < low_prefix E + offset)"
        "in_mode E = usingExtDict \<and> op < low_prefix E + offset"
      using that far assms by (intro copy_from_dict_safe) (auto simp: args_ok_def)
    show "returnsR (dec_safe E op (length m)) (copy_within E ip op offset len m)"
      if "\<not> (checkOffset E \<and> op + length (in_dict E) < low_prefix E + offset)"
        "\<not> (in_mode E = usingExtDict \<and> op < low_prefix E + offset)"
      using that far assms by (intro copy_within_safe) (auto simp: args_ok_def)
  qed
qed

lemma copy_match_safe:
  assumes "args_ok E op" "offset < 65536" "op \<le> length m" "in_partial E \<or> op + 8 \<le> length m"
    "ip < length (in_src E)"
  shows "returnsR (dec_safe E op (length m)) (copy_match E ip op offset code m)"
  unfolding copy_match_def
  by (rule returnsR_bindR [OF match_length_safe [OF assms(5)]])
    (auto split: option.split intro!: match_copy_safe assms(1-4))

lemma dec_safe_mono: "returnsR (dec_safe E lo n) r \<Longrightarrow> lo' \<le> lo \<Longrightarrow> returnsR (dec_safe E lo' n) r"
  by (erule returnsR_mono, case_tac x) auto

text \<open>After literals that were not the last there is room for an offset and, unless the decoding is
  partial, for the first bytes of a match.\<close>

fun literals_safe :: "dec_args \<Rightarrow> nat \<Rightarrow> nat \<Rightarrow> dec_next \<Rightarrow> bool" where
  "literals_safe E lo n (Next ip op m) \<longleftrightarrow> ip + 2 < length (in_src E) \<and> lo \<le> op \<and> op \<le> n \<and>
     (in_partial E \<or> op + 8 \<le> n) \<and> length m = n"
| "literals_safe E lo n r \<longleftrightarrow> dec_safe E lo n r"

lemma copy_literals_safe:
  assumes "ip \<le> length (in_src E)" "op \<le> length m"
  shows "returnsR (literals_safe E op (length m)) (copy_literals E ip op len m)"
proof (cases "length m < op + len + MFLIMIT \<or> length (in_src E) < ip + len + (2 + 1 + LASTLITERALS)")
  case True
  let ?len1 = "if length (in_src E) < ip + len then length (in_src E) - ip else len"
  let ?len2 = "if length m < op + ?len1 then length m - op else ?len1"
  have "ip + ?len2 \<le> length (in_src E)" "op + ?len2 \<le> length m" using assms by auto
  then have "returnsR (literals_safe E op (length m)) (bindR (LZ4_memcpy (Some (in_src E)) op ip ?len2 m) (\<lambda>m'.
      if op + ?len2 = length m \<or> length (in_src E) \<le> ip + ?len2 + 2 then Inr (Stop (op + ?len2) m')
      else Inr (Next (ip + ?len2) (op + ?len2) m')))" if "in_partial E"
    using that by (simp add: memcpy_from del: if_split)
  moreover have "returnsR (literals_safe E op (length m))
      (if ip + len \<noteq> length (in_src E) \<or> length m < op + len then Inr (Bad ip m)
       else bindR (LZ4_memcpy (Some (in_src E)) op ip len m) (\<lambda>m. Inr (Stop (op + len) m)))"
    using assms by (auto simp: memcpy_from)
  ultimately show ?thesis
    unfolding copy_literals_def Let_def if_P [OF True]
    by (cases "in_partial E") (simp_all only: if_True if_False)
next
  case False
  then have "returnsR (\<lambda>m'. length m' = length m) (LZ4_wildCopy8 (Some (in_src E)) op ip (op + len) m)"
    using wildCopy8_from [of ip "op + len" op "in_src E" m] by (auto simp: returnsR_def)
  then have "returnsR (literals_safe E op (length m))
      (bindR (LZ4_wildCopy8 (Some (in_src E)) op ip (op + len) m) (\<lambda>m. Inr (Next (ip + len) (op + len) m)))"
    by (rule returnsR_bindR) (use False in auto)
  then show ?thesis
    using False unfolding copy_literals_def Let_def by (simp only: if_False)
qed

lemma decode_match_safe:
  assumes "literals_safe E lo n r" "args_ok E lo"
  shows "returnsR (dec_safe E lo n) (decode_match E code r)"
proof (cases r)
  case (Next ip op m)
  then have "LZ4_readLE16 (in_src E) ip = Inr (le16 (view ip 2 (in_src E)))"
    using assms by (simp add: LZ4_readLE16_def)
  moreover have "returnsR (dec_safe E op (length m)) (copy_match E (ip + 2) op (le16 bs) code m)" for bs
    using assms Next by (intro copy_match_safe) (auto simp: le16_less args_ok_def)
  ultimately show ?thesis
    using assms Next by (auto simp: decode_match_def intro: dec_safe_mono)
qed (use assms in \<open>auto simp: decode_match_def\<close>)

lemma shortcut_safe:
  assumes "args_ok E op" "len < 15" "code < 16" "ip + 16 < length (in_src E)" "op + 32 \<le> length m"
  shows "returnsR (dec_safe E op (length m)) (shortcut E ip op len code m)"
proof -
  let ?m = "put_at op (view ip 16 (in_src E)) m" and ?o = "le16 (view (ip + len) 2 (in_src E))"
  have m: "length ?m = length m" using assms by simp
  have copy: "returnsR (dec_safe E op (length m)) (copy_match E (ip + len + 2) (op + len) ?o code ?m)"
    using dec_safe_mono [OF copy_match_safe [of E "op + len" ?o ?m "ip + len + 2" code], of op]
      args_ok_mono [OF assms(1), of "op + len"] assms m le16_less by simp
  have fast: "returnsR (dec_safe E op (length m))
      (if op + len < ?o then Inl OutOfBounds
       else bindR (LZ4_memcpy None (op + len) (op + len - ?o) 8 ?m) (\<lambda>m.
         bindR (LZ4_memcpy None (op + len + 8) (op + len - ?o + 8) 8 m) (\<lambda>m.
         bindR (LZ4_memcpy None (op + len + 16) (op + len - ?o + 16) 2 m) (\<lambda>m.
           Inr (Next (ip + len + 2) (op + len + code + MINMATCH) m)))))"
    if "code \<noteq> ML_MASK" "8 \<le> ?o" "in_mode E = withPrefix64k \<or> low_prefix E + ?o \<le> op + len"
  proof -
    have "?o < 65536" by (rule le16_less)
    then have "?o \<le> op + len" using that assms(1) by (auto simp: args_ok_def)
    then show ?thesis
      using that assms m memcpy_back [of 8 ?o "op + len" ?m] by (simp add: memcpy_back)
  qed
  have src: "LZ4_memcpy (Some (in_src E)) op ip 16 m = Inr ?m"
    "LZ4_readLE16 (in_src E) (ip + len) = Inr ?o"
    using assms by (simp_all add: memcpy_from LZ4_readLE16_def)
  show ?thesis
    unfolding shortcut_def Let_def src bindR_Inr
    by (rule returnsR_if) (use fast copy in blast)+
qed

lemma sequence_safe:
  assumes "args_ok E op" "ip \<le> length (in_src E)" "op \<le> length m"
  shows "returnsR (dec_safe E op (length m)) (bindR (copy_literals E ip op len m) (decode_match E code))"
  by (rule returnsR_bindR [OF copy_literals_safe [OF assms(2,3)] decode_match_safe [OF _ assms(1)]])

lemma dec_step_safe:
  assumes "args_ok E op" "ip < length (in_src E)" "op \<le> length m"
  shows "returnsR (dec_safe E op (length m)) (dec_step E ip op m)"
proof -
  let ?t = "unat (view ip 1 (in_src E) ! 0)"
  have "returnsR (dec_safe E op (length m)) (shortcut E (ip + 1) op (?t div 2 ^ ML_BITS) (?t mod 2 ^ ML_BITS) m)"
    if "?t div 2 ^ ML_BITS \<noteq> RUN_MASK" "ip + 1 + 14 + 2 < length (in_src E)" "op + 14 + 18 \<le> length m"
  proof (rule shortcut_safe [OF assms(1)])
    have "?t < 256" using unsigned_less [of "view ip 1 (in_src E) ! 0"] by simp
    then have "?t div 2 ^ ML_BITS < 16" by (simp add: ML_BITS_def)
    with that(1) show "?t div 2 ^ ML_BITS < 15" by simp
    show "?t mod 2 ^ ML_BITS < 16" by (simp add: ML_BITS_def)
  qed (use that in simp_all)
  moreover have "returnsR (dec_safe E op (length m)) (bindR (literal_length E (ip + 1) l) (\<lambda>(ip, n).
      case n of None \<Rightarrow> Inr (Bad ip m)
      | Some len \<Rightarrow> bindR (copy_literals E ip op len m) (decode_match E code)))" for l code
    by (rule returnsR_bindR [OF literal_length_safe])
      (use assms in \<open>auto split: option.split intro!: sequence_safe\<close>)
  moreover have "rd (in_src E) ip 1 = Inr (view ip 1 (in_src E))" using assms by simp
  ultimately show ?thesis
    unfolding dec_step_def Let_def by (simp only: bindR_Inr) (rule returnsR_if; blast)
qed

lemma dec_loop_safe:
  assumes "args_ok E op" "ip < length (in_src E)" "op \<le> length m"
  shows "returnsR (\<lambda>r. dec_safe E op (length m) r \<and> (\<forall>i p m'. r \<noteq> Next i p m')) (dec_loop E ip op m)"
  using assms
proof (induction E ip op m rule: dec_loop.induct)
  case (1 E ip op m)
  obtain r where r: "dec_step E ip op m = Inr r" "dec_safe E op (length m) r"
    using dec_step_safe [OF 1(2-4)] by (auto simp: returnsR_def)
  show ?case
  proof (cases r)
    case (Next ip' op' m')
    then have "returnsR (\<lambda>r. dec_safe E op' (length m') r \<and> (\<forall>i p m'. r \<noteq> Next i p m')) (dec_loop E ip' op' m')"
      using r 1 args_ok_mono by (intro 1(1) [OF r(1) Next]) auto
    then have "returnsR (\<lambda>r. dec_safe E op (length m) r \<and> (\<forall>i p m'. r \<noteq> Next i p m')) (dec_loop E ip' op' m')"
      using Next r(2) dec_safe_mono by (fastforce simp: returnsR_def)
    then show ?thesis using r Next by (subst dec_loop.simps) simp
  next
    case (Stop op' m')
    then show ?thesis using r by (subst dec_loop.simps) simp
  next
    case (Bad ip' m')
    then show ?thesis using r by (subst dec_loop.simps) simp
  qed
qed

section \<open>The fast loop\<close>

lemma wildCopy32_safe:
  assumes "s + 16 \<le> d" "d + 32 \<le> length m" "e + 31 \<le> length m"
  shows "returnsR (\<lambda>m'. length m' = length m) (LZ4_wildCopy32 None d s e m)"
  using assms
proof (induction "e - d" arbitrary: d s m rule: less_induct)
  case less
  let ?m1 = "put_at d (view s 16 m) m"
  let ?m2 = "put_at (d + 16) (view (s + 16) 16 ?m1) ?m1"
  have step1: "LZ4_memcpy None d s 16 m = Inr ?m1" "length ?m1 = length m"
    using less.prems by (auto intro!: memcpy_inside)
  then have step2: "LZ4_memcpy None (d + 16) (s + 16) 16 ?m1 = Inr ?m2" "length ?m2 = length m"
    using less.prems by (auto intro!: memcpy_inside)
  have "returnsR (\<lambda>m'. length m' = length m) (LZ4_wildCopy32 None (d + 32) (s + 32) e ?m2)" if "d + 32 < e"
    using less.hyps [of "d + 32" "s + 32" ?m2] less.prems that step2(2) by simp
  then show ?case
    using step1(1) step2 by (subst LZ4_wildCopy32.simps) (simp del: length_put_at)
qed

lemma wildCopy32_from:
  assumes "s + (e - d) + 31 \<le> length b" "s + 32 \<le> length b" "e + 31 \<le> length m" "d + 32 \<le> length m" "d \<le> e"
  shows "\<exists>m'. LZ4_wildCopy32 (Some b) d s e m = Inr m' \<and> length m' = length m \<and>
    take e m' = take d m @ view s (e - d) b"
  using assms
proof (induction "e - d" arbitrary: d s m rule: less_induct)
  case less
  let ?m1 = "put_at d (view s 16 b) m"
  let ?m2 = "put_at (d + 16) (view (s + 16) 16 b) ?m1"
  have step: "LZ4_memcpy (Some b) d s 16 m = Inr ?m1" "LZ4_memcpy (Some b) (d + 16) (s + 16) 16 ?m1 = Inr ?m2"
    using less.prems by (auto intro!: memcpy_from)
  have len: "length ?m2 = length m" using less.prems by simp
  have two: "view s 16 b @ view (s + 16) 16 b = view s 32 b"
    using take_add [of 16 16 "drop s b"] by (simp add: view_def add.commute)
  have "take (d + 16 + 16) ?m2 = take (d + 16) ?m1 @ view (s + 16) 16 b"
    using take_put_at_all [of "d + 16" "view (s + 16) 16 b" ?m1] less.prems by simp
  also have "take (d + 16) ?m1 = take d m @ view s 16 b"
    using take_put_at_all [of d "view s 16 b" m] less.prems by simp
  finally have tk: "take (d + 32) ?m2 = take d m @ view s 32 b"
    unfolding append_assoc two by (simp only: add.assoc) simp
  show ?case
  proof (cases "d + 32 < e")
    case True
    have "\<exists>m'. LZ4_wildCopy32 (Some b) (d + 32) (s + 32) e ?m2 = Inr m' \<and> length m' = length ?m2 \<and>
      take e m' = take (d + 32) ?m2 @ view (s + 32) (e - (d + 32)) b"
      using True less.prems by (intro less.hyps) simp_all
    moreover have "view s (e - d) b = view s 32 b @ view (s + 32) (e - (d + 32)) b"
      using True take_add [of 32 "e - (d + 32)" "drop s b"] by (simp add: view_def add.commute)
    ultimately show ?thesis
      using True step tk len by (subst LZ4_wildCopy32.simps) auto
  next
    case False
    have "take e ?m2 = take e (take (d + 32) ?m2)" using False by (simp add: min_def)
    also have "\<dots> = take d m @ view s (e - d) b"
      unfolding tk using False less.prems by (simp add: view_def min_def)
    finally show ?thesis
      using False step len by (subst LZ4_wildCopy32.simps) simp
  qed
qed

lemma fill_pattern_safe:
  assumes "e + 7 \<le> length m" "length v = 8"
  shows "returnsR (\<lambda>m'. length m' = length m) (fill_pattern d e v m)"
  using assms
proof (induction "e - d" arbitrary: d m rule: less_induct)
  case less
  show ?case
  proof (cases "d < e")
    case True
    then have m1: "poke d v m = Inr (put_at d v m)" "length (put_at d v m) = length m"
      using less.prems by (simp_all add: poke_ok)
    then show ?thesis
      using less.hyps [of "d + 8" "put_at d v m"] less.prems True by (subst fill_pattern.simps) simp
  next
    case False
    then show ?thesis by (subst fill_pattern.simps) simp
  qed
qed

lemma memcpy_using_offset_safe:
  assumes "offset \<le> d" "d + 16 \<le> length m" "e + 7 \<le> length m"
  shows "returnsR (\<lambda>m'. length m' = length m) (LZ4_memcpy_using_offset d e offset m)"
proof -
  have pattern: "returnsR (\<lambda>m'. length m' = length m) (bindR (poke d v m) (fill_pattern (d + 8) e v))"
    if "length v = 8" for v
    using that assms fill_pattern_safe [of e "put_at d v m" v "d + 8"] by (simp add: poke_ok)
  have base: "returnsR (\<lambda>m'. length m' = length m) (LZ4_memcpy_using_offset_base d e offset m)"
    unfolding LZ4_memcpy_using_offset_base_def
  proof (rule returnsR_bindR [OF copy_first8_safe [OF assms(1)]], use assms(2) in simp, clarify)
    fix m' :: bytes and s assume m': "length m' = length m" "s \<le> d"
    then show "returnsR (\<lambda>m'. length m' = length m) (LZ4_wildCopy8 None (d + 8) s e m')"
      using wildCopy8_safe [of s "d + 8" m' e] assms(2,3) by simp
  qed
  show ?thesis
    unfolding LZ4_memcpy_using_offset_def Let_def
    using assms by (intro returnsR_if base) (auto intro!: pattern)
qed

text \<open>Where the fast loop stands, there is room for \<open>FASTLOOP_SAFE_DISTANCE\<close> bytes.\<close>

fun fast_safe :: "dec_args \<Rightarrow> nat \<Rightarrow> nat \<Rightarrow> fast_next \<Rightarrow> bool" where
  "fast_safe E lo n (FastNext ip op m) \<longleftrightarrow> ip < length (in_src E) \<and> lo \<le> op \<and> op + 64 \<le> n \<and> length m = n"
| "fast_safe E lo n (SafeLiterals ip op len code m) \<longleftrightarrow>
     ip \<le> length (in_src E) \<and> lo \<le> op \<and> op \<le> n \<and> length m = n"
| "fast_safe E lo n (SafeMatch ip op offset len m) \<longleftrightarrow> ip < length (in_src E) \<and> offset < 65536 \<and>
     4 \<le> len \<and> lo \<le> op \<and> op + 8 \<le> n \<and> length m = n"
| "fast_safe E lo n (FastBad ip m) \<longleftrightarrow> ip \<le> length (in_src E) \<and> length m = n"

fun fast_literals_ok :: "dec_args \<Rightarrow> nat \<Rightarrow> nat \<Rightarrow> fast_next \<Rightarrow> bool" where
  "fast_literals_ok E lo n (FastNext ip op m) \<longleftrightarrow>
     ip + 2 < length (in_src E) \<and> lo \<le> op \<and> op + 32 \<le> n \<and> length m = n"
| "fast_literals_ok E lo n r \<longleftrightarrow> fast_safe E lo n r"

lemma fast_literals_safe:
  assumes "ip \<le> length (in_src E)" "op + 64 \<le> length m" "len < 16"
  shows "returnsR (fast_literals_ok E op (length m)) (fast_literals E ip op len code m)"
proof (cases "len = RUN_MASK")
  case True
  have long: "returnsR (fast_literals_ok E op (length m))
      (if length m < op + l + 32 \<or> length (in_src E) < i + l + 32 then Inr (SafeLiterals i op l code m)
       else bindR (LZ4_wildCopy32 (Some (in_src E)) op i (op + l) m) (\<lambda>m. Inr (FastNext (i + l) (op + l) m)))"
    if "i \<le> length (in_src E)" for i l
    using that assms(2) wildCopy32_from [of i "op + l" op "in_src E" m] by (intro returnsR_if) auto
  show ?thesis
    unfolding fast_literals_def Let_def if_P [OF True]
    by (rule returnsR_bindR [OF literal_length_safe [OF assms(1)]])
      (use long in \<open>auto split: option.split simp del: if_split\<close>)
next
  case False
  then show ?thesis
    using assms by (auto simp: fast_literals_def Let_def memcpy_from)
qed

lemma fast_copy_safe:
  assumes "args_ok E op" "offset < 65536" "op + len + 64 < length m" "ip < length (in_src E)" "4 \<le> len"
  shows "returnsR (fast_safe E op (length m)) (fast_copy E ip op offset len m)"
proof -
  have far: "low_prefix E + offset \<le> op + length (in_dict E)" if "\<not> checkOffset E"
    using that assms(1,2) by (simp add: checkOffset_def args_ok_def)
  show ?thesis
    unfolding fast_copy_def
  proof (intro returnsR_if)
    show "returnsR (fast_safe E op (length m)) (Inr (FastBad ip m))" using assms(4) by simp
  next
    assume c: "\<not> (checkOffset E \<and> op + length (in_dict E) < low_prefix E + offset)"
      "in_mode E = usingExtDict \<and> op < low_prefix E + offset"
    show "returnsR (fast_safe E op (length m)) (bindR (copy_from_dict E ip op offset len m) (\<lambda>r.
        Inr (case r of Next ip op m \<Rightarrow> FastNext ip op m | Stop op m \<Rightarrow> FastNext ip op m | Bad ip m \<Rightarrow> FastBad ip m)))"
    proof (rule returnsR_bindR [OF copy_from_dict_exact])
      show "op < low_prefix E + offset" "low_prefix E + offset \<le> op + length (in_dict E)"
        "low_prefix E \<le> op" "op + len + LASTLITERALS \<le> length m"
        using c far assms by (auto simp: args_ok_def)
    qed (use assms in auto)
  next
    assume c: "\<not> (checkOffset E \<and> op + length (in_dict E) < low_prefix E + offset)"
      "\<not> (in_mode E = usingExtDict \<and> op < low_prefix E + offset)"
    then have inside: "offset \<le> op" using far assms(1,2) by (auto simp: args_ok_def)
    then show "returnsR (fast_safe E op (length m)) (Inl OutOfBounds)" if "op < offset" using that by simp
    have "returnsR (\<lambda>m'. length m' = length m) (if offset < 16 then LZ4_memcpy_using_offset op (op + len) offset m
        else LZ4_wildCopy32 None op (op - offset) (op + len) m)"
      using inside assms(3) memcpy_using_offset_safe [of offset op m "op + len"]
        wildCopy32_safe [of "op - offset" op m "op + len"] by auto
    then show "returnsR (fast_safe E op (length m))
        (bindR (if offset < 16 then LZ4_memcpy_using_offset op (op + len) offset m
          else LZ4_wildCopy32 None op (op - offset) (op + len) m) (\<lambda>m. Inr (FastNext ip (op + len) m)))"
      by (rule returnsR_bindR) (use assms in auto)
  qed
qed

lemma fast_safe_mono: "returnsR (fast_safe E lo n) r \<Longrightarrow> lo' \<le> lo \<Longrightarrow> returnsR (fast_safe E lo' n) r"
  by (erule returnsR_mono, case_tac x) auto

lemma fast_end_safe:
  assumes "args_ok E op" "offset < 65536" "op + 32 \<le> length m" "ip < length (in_src E)" "4 \<le> len"
  shows "returnsR (fast_safe E op (length m))
    (if length m \<le> op + len + FASTLOOP_SAFE_DISTANCE then Inr (SafeMatch ip op offset len m)
     else fast_copy E ip op offset len m)"
  using assms fast_copy_safe [OF assms(1,2) _ assms(4,5)]
  by (intro returnsR_if) (simp_all add: FASTLOOP_SAFE_DISTANCE_def)

lemma three_copies:
  assumes "8 \<le> off" "off \<le> op" "op + 18 \<le> length m"
  shows "\<exists>m1 m2 m3. LZ4_memcpy None op (op - off) 8 m = Inr m1 \<and>
    LZ4_memcpy None (op + 8) (op - off + 8) 8 m1 = Inr m2 \<and>
    LZ4_memcpy None (op + 16) (op - off + 16) 2 m2 = Inr m3 \<and> length m3 = length m"
proof -
  let ?m1 = "put_at op (view (op - off) 8 m) m"
  let ?m2 = "put_at (op + 8) (view (op - off + 8) 8 ?m1) ?m1"
  let ?m3 = "put_at (op + 16) (view (op - off + 16) 2 ?m2) ?m2"
  have m1: "LZ4_memcpy None op (op - off) 8 m = Inr ?m1" "length ?m1 = length m"
    using assms by (auto intro!: memcpy_inside)
  then have m2: "LZ4_memcpy None (op + 8) (op - off + 8) 8 ?m1 = Inr ?m2" "length ?m2 = length m"
    using assms by (auto intro!: memcpy_inside)
  then have m3: "LZ4_memcpy None (op + 16) (op - off + 16) 2 ?m2 = Inr ?m3" "length ?m3 = length m"
    using assms by (auto intro!: memcpy_inside)
  show ?thesis using m1(1) m2(1) m3 by blast
qed

lemma fast_match_safe:
  assumes "fast_literals_ok E lo n r" "args_ok E lo" "code < 16"
  shows "returnsR (fast_safe E lo n) (fast_match E code r)"
proof (cases r)
  case (FastNext ip op m)
  then have lit: "ip + 2 < length (in_src E)" "lo \<le> op" "op + 32 \<le> n" "length m = n"
    using assms(1) by simp_all
  let ?o = "le16 (view ip 2 (in_src E))"
  have o: "LZ4_readLE16 (in_src E) ip = Inr ?o" "?o < 65536"
    using lit by (simp_all add: LZ4_readLE16_def le16_less)
  have args: "args_ok E op" using args_ok_mono [OF assms(2) lit(2)] .
  have room: "op + 32 \<le> length m" using lit by simp
  note finish = fast_end_safe [OF args o(2) room]
  have long: "returnsR (fast_safe E op (length m))
      (if checkOffset E \<and> op + length (in_dict E) < low_prefix E + ?o then Inr (FastBad (ip + 2) m)
       else bindR (match_length E (ip + 2) code) (\<lambda>(ip, n).
         case n of None \<Rightarrow> Inr (FastBad ip m)
         | Some len \<Rightarrow>
             if length m \<le> op + len + FASTLOOP_SAFE_DISTANCE then Inr (SafeMatch ip op ?o len m)
             else fast_copy E ip op ?o len m))"
  proof (intro returnsR_if)
    show "returnsR (fast_safe E op (length m)) (Inr (FastBad (ip + 2) m))" using lit by simp
    show "returnsR (fast_safe E op (length m)) (bindR (match_length E (ip + 2) code) (\<lambda>(ip, n).
         case n of None \<Rightarrow> Inr (FastBad ip m)
         | Some len \<Rightarrow>
             if length m \<le> op + len + FASTLOOP_SAFE_DISTANCE then Inr (SafeMatch ip op ?o len m)
             else fast_copy E ip op ?o len m))"
      by (rule returnsR_bindR [OF match_length_safe [OF lit(1)]])
        (use finish in \<open>auto split: option.split simp del: if_split\<close>)
  qed
  have short: "returnsR (fast_safe E op (length m))
      (if length m \<le> op + (code + MINMATCH) + FASTLOOP_SAFE_DISTANCE
       then Inr (SafeMatch (ip + 2) op ?o (code + MINMATCH) m)
       else if (in_mode E = withPrefix64k \<or> low_prefix E + ?o \<le> op) \<and> 8 \<le> ?o then
         if op < ?o then Inl OutOfBounds
         else
           bindR (LZ4_memcpy None op (op - ?o) 8 m) (\<lambda>m.
           bindR (LZ4_memcpy None (op + 8) (op - ?o + 8) 8 m) (\<lambda>m.
           bindR (LZ4_memcpy None (op + 16) (op - ?o + 16) 2 m) (\<lambda>m.
             Inr (FastNext (ip + 2) (op + (code + MINMATCH)) m))))
       else fast_copy E (ip + 2) op ?o (code + MINMATCH) m)"
  proof (cases "length m \<le> op + (code + MINMATCH) + FASTLOOP_SAFE_DISTANCE \<or>
      \<not> ((in_mode E = withPrefix64k \<or> low_prefix E + ?o \<le> op) \<and> 8 \<le> ?o)")
    case True
    then show ?thesis
      using finish [of "ip + 2" "code + MINMATCH"] lit(1) by (auto simp del: if_split split: if_split)
  next
    case False
    then have "?o \<le> op" using args o(2) by (auto simp: args_ok_def)
    moreover from this obtain m1 m2 m3 where "LZ4_memcpy None op (op - ?o) 8 m = Inr m1"
      "LZ4_memcpy None (op + 8) (op - ?o + 8) 8 m1 = Inr m2"
      "LZ4_memcpy None (op + 16) (op - ?o + 16) 2 m2 = Inr m3" "length m3 = length m"
      using three_copies [of ?o op m] False lit by auto
    ultimately show ?thesis
      using False lit by (simp add: FASTLOOP_SAFE_DISTANCE_def del: diff_add_assoc2)
  qed
  have "returnsR (fast_safe E op (length m)) (fast_match E code r)"
    unfolding FastNext fast_match_def fast_next.case o(1) bindR_Inr Let_def
    by (cases "code = ML_MASK") (use long short in \<open>simp_all only: if_True if_False simp_thms\<close>)
  then show ?thesis using fast_safe_mono lit by blast
qed (use assms in \<open>simp_all add: fast_match_def\<close>)

lemma fast_step_safe:
  assumes "args_ok E op" "ip < length (in_src E)" "op + 64 \<le> length m"
  shows "returnsR (fast_safe E op (length m)) (fast_step E ip op m)"
proof -
  let ?t = "unat (view ip 1 (in_src E) ! 0)"
  have rd: "rd (in_src E) ip 1 = Inr (view ip 1 (in_src E))" using assms(2) by simp
  have "?t < 256" using unsigned_less [of "view ip 1 (in_src E) ! 0"] by simp
  then have parts: "?t div 2 ^ ML_BITS < 16" "?t mod 2 ^ ML_BITS < 16" by (simp_all add: ML_BITS_def)
  have "ip + 1 \<le> length (in_src E)" using assms(2) by simp
  note lits = fast_literals_safe [OF this assms(3) parts(1), of "?t mod 2 ^ ML_BITS"]
  show ?thesis
    unfolding fast_step_def rd bindR_Inr Let_def
    by (rule returnsR_bindR [OF lits fast_match_safe [OF _ assms(1) parts(2)]])
qed

definition block_end :: "dec_args \<Rightarrow> nat \<Rightarrow> nat \<Rightarrow> dec_next \<Rightarrow> bool" where
  "block_end E lo n r \<longleftrightarrow> dec_safe E lo n r \<and> (\<forall>i p m'. r \<noteq> Next i p m')"

lemma dec_loop_end:
  assumes "args_ok E op" "ip < length (in_src E)" "op \<le> length m"
  shows "returnsR (block_end E op (length m)) (dec_loop E ip op m)"
  unfolding block_end_def by (rule dec_loop_safe [OF assms])

lemma block_end_mono: "returnsR (block_end E lo n) r \<Longrightarrow> lo' \<le> lo \<Longrightarrow> returnsR (block_end E lo' n) r"
  by (erule returnsR_mono, case_tac x) (auto simp: block_end_def)

lemma safe_rest_safe:
  assumes "dec_safe E lo n r" "args_ok E lo"
  shows "returnsR (block_end E lo n) (safe_rest E r)"
proof (cases r)
  case (Next ip op m)
  then have "returnsR (block_end E op n) (dec_loop E ip op m)"
    using assms args_ok_mono [OF assms(2)] by (auto intro!: dec_loop_end)
  then show ?thesis using Next assms(1) block_end_mono by (auto simp: safe_rest_def)
qed (use assms in \<open>simp_all add: safe_rest_def block_end_def\<close>)

lemma fast_loop_safe:
  assumes "args_ok E op" "ip < length (in_src E)" "op + 64 \<le> length m"
  shows "returnsR (block_end E op (length m)) (fast_loop E ip op m)"
  using assms
proof (induction E ip op m rule: fast_loop.induct)
  case (1 E ip op m)
  obtain r where r: "fast_step E ip op m = Inr r" "fast_safe E op (length m) r"
    using fast_step_safe [OF 1(2-4)] by (auto simp: returnsR_def)
  show ?case
  proof (cases r)
    case (FastNext ip' op' m')
    then have "returnsR (block_end E op' (length m')) (fast_loop E ip' op' m')"
      using r 1(2) args_ok_mono by (intro 1(1) [OF r(1) FastNext]) auto
    then show ?thesis
      using r FastNext block_end_mono by (subst fast_loop.simps) auto
  next
    case (SafeLiterals ip' op' len code m')
    then have "returnsR (block_end E op' (length m'))
        (bindR (bindR (copy_literals E ip' op' len m') (decode_match E code)) (safe_rest E))"
      using r(2) 1(2) args_ok_mono
      by (intro returnsR_bindR [OF sequence_safe safe_rest_safe]) auto
    then show ?thesis
      using r SafeLiterals block_end_mono by (subst fast_loop.simps) auto
  next
    case (SafeMatch ip' op' offset len m')
    then have "returnsR (block_end E op' (length m'))
        (bindR (match_copy E ip' op' offset len m') (safe_rest E))"
      using r(2) 1(2) args_ok_mono
      by (intro returnsR_bindR [OF match_copy_safe safe_rest_safe]) auto
    then show ?thesis
      using r SafeMatch block_end_mono by (subst fast_loop.simps) auto
  next
    case (FastBad ip' m')
    then show ?thesis using r by (subst fast_loop.simps) (simp add: block_end_def)
  qed
qed

lemma decode_block_safe:
  assumes "args_ok E op" "in_src E \<noteq> []" "op \<le> length m"
  shows "returnsR (block_end E op (length m)) (decode_block E op m)"
  using assms fast_loop_safe [of E op 0 m] dec_loop_end [of E op 0 m]
  by (auto simp: decode_block_def FASTLOOP_SAFE_DISTANCE_def)

section \<open>The entry points\<close>

text \<open>
  The result is at most the room there is; a negative one points into the input.
\<close>

lemma decompress_generic_safe:
  assumes "args_ok E dst" "dst \<le> length m"
  shows "\<exists>n m'. LZ4_decompress_generic E dst m = Inr (n, m') \<and> length m' = length m \<and>
    n \<le> int (length m) - int dst \<and> - int (length (in_src E)) - 1 \<le> n"
proof (cases "length m = dst \<or> in_src E = []")
  case True
  then show ?thesis using assms(2) by (auto simp: LZ4_decompress_generic_def)
next
  case False
  then obtain r where "decode_block E dst m = Inr r" "block_end E dst (length m) r"
    using decode_block_safe [OF assms(1) _ assms(2)] by (auto simp: returnsR_def)
  then show ?thesis
    using False assms(2) by (cases r) (auto simp: LZ4_decompress_generic_def block_end_def)
qed

text \<open>The instances; \<open>decoded k\<close> is what they yield where there is room for \<open>k\<close> bytes.\<close>

definition decoded :: "nat \<Rightarrow> nat \<Rightarrow> (int \<times> bytes) result \<Rightarrow> bool" where
  "decoded n k = returnsR (\<lambda>(r, m). length m = n \<and> r \<le> int k)"

lemma decompress_safe_instances:
  shows "decoded (length m) (length m) (LZ4_decompress_safe fl src m)"
    and "decoded (length m) (min target (length m)) (LZ4_decompress_safe_partial fl src target m)"
    and "65535 \<le> dest \<Longrightarrow> dest \<le> length m \<Longrightarrow>
      decoded (length m) (length m - dest) (LZ4_decompress_safe_withPrefix64k fl src dest m)"
    and "prefixSize \<le> dest \<Longrightarrow> dest \<le> length m \<Longrightarrow>
      decoded (length m) (length m - dest) (LZ4_decompress_safe_withSmallPrefix fl src prefixSize dest m)"
    and "dest \<le> length m \<Longrightarrow>
      decoded (length m) (length m - dest) (LZ4_decompress_safe_forceExtDict fl src dict dest m)"
proof -
  let ?E = "\<lambda>dict mode part low. \<lparr>in_src = src, in_dict = dict, in_mode = mode, in_partial = part,
    low_prefix = low, in_fast = fl\<rparr>"
  have generic: "decoded (length b) (length b - d) (LZ4_decompress_generic E d b)"
    if "args_ok E d" "d \<le> length b" for E d b
    using decompress_generic_safe [OF that] that(2) by (auto simp: decoded_def returnsR_def of_nat_diff)
  show "decoded (length m) (length m) (LZ4_decompress_safe fl src m)"
    using generic [of "?E [] noDict False 0" 0 m] by (simp add: LZ4_decompress_safe_def args_ok_def)
  show "decoded (length m) (min target (length m)) (LZ4_decompress_safe_partial fl src target m)"
    using generic [of "?E [] noDict True 0" 0 "take (min target (length m)) m"]
    by (auto simp: LZ4_decompress_safe_partial_def args_ok_def decoded_def returnsR_def)
  show "decoded (length m) (length m - dest) (LZ4_decompress_safe_withPrefix64k fl src dest m)"
    if "65535 \<le> dest" "dest \<le> length m"
    using generic [of "?E [] withPrefix64k False (dest - 64 * 1024)" dest m] that
    by (simp add: LZ4_decompress_safe_withPrefix64k_def args_ok_def)
  show "decoded (length m) (length m - dest) (LZ4_decompress_safe_withSmallPrefix fl src prefixSize dest m)"
    if "prefixSize \<le> dest" "dest \<le> length m"
    using generic [of "?E [] noDict False (dest - prefixSize)" dest m] that
    by (simp add: LZ4_decompress_safe_withSmallPrefix_def args_ok_def)
  show "decoded (length m) (length m - dest) (LZ4_decompress_safe_forceExtDict fl src dict dest m)"
    if "dest \<le> length m"
    using generic [of "?E dict usingExtDict False dest" dest m] that
    by (simp add: LZ4_decompress_safe_forceExtDict_def args_ok_def)
qed

lemma usingDict_safe:
  assumes "dest \<le> length m" "ext = None \<Longrightarrow> dictSize \<le> dest"
  shows "decoded (length m) (length m - dest) (LZ4_decompress_safe_usingDict fl src dictSize ext dest m)"
proof (cases "dictSize = 0")
  case True
  then show ?thesis
    using decompress_safe_instances(1) [of "drop dest m" fl src] assms(1)
    by (auto simp: LZ4_decompress_safe_usingDict_def decoded_def returnsR_def)
next
  case False
  then show ?thesis
    using decompress_safe_instances(3-5) assms
    by (auto simp: LZ4_decompress_safe_usingDict_def split: option.split)
qed

end
