(* ===== verification/Lz4Format.thy ===== *)
theory Lz4Format
  imports Lz4Mem
begin

text \<open>
  The LZ4 block format as a specification independent of the code: a block is a list of
  sequences and last literals, \<open>encode_block\<close> its bytes and \<open>expand\<close> its meaning. A valid block
  obeys the parsing restrictions of the format: the last 5 bytes are literals, and the last match
  starts at least 12 bytes before the end.
\<close>

section \<open>Meaning\<close>

datatype sequence = Sequence (seq_lits: bytes) (seq_off: nat) (seq_len: nat)

text \<open>\<open>n\<close> bytes that repeat the last \<open>off\<close> ones of \<open>out\<close>.\<close>

definition repeat_from :: "nat \<Rightarrow> nat \<Rightarrow> bytes \<Rightarrow> bytes" where
  "repeat_from off n out = map (\<lambda>i. out ! (length out - off + i mod off)) [0..<n]"

fun expand :: "bytes \<Rightarrow> sequence list \<Rightarrow> bytes \<Rightarrow> bytes" where
  "expand out [] fin = out @ fin"
| "expand out (Sequence l off n # r) fin = expand (out @ l @ repeat_from off n (out @ l)) r fin"

fun valid_from :: "nat \<Rightarrow> nat \<Rightarrow> sequence list \<Rightarrow> bool" where
  "valid_from p tot [] \<longleftrightarrow> True"
| "valid_from p tot (Sequence l off n # r) \<longleftrightarrow>
     0 < off \<and> off < 65536 \<and> off \<le> p + length l \<and> MINMATCH \<le> n \<and>
     p + length l + MFLIMIT \<le> tot \<and> p + length l + n + LASTLITERALS \<le> tot \<and>
     valid_from (p + length l + n) tot r"

section \<open>Encoding\<close>

text \<open>The bytes behind a nibble of 15, for the rest of the length.\<close>

definition ext :: "nat \<Rightarrow> bytes" where
  "ext n = replicate (n div 255) 255 @ [of_nat (n mod 255)]"

definition len_ext :: "nat \<Rightarrow> bytes" where
  "len_ext n = (if n < 15 then [] else ext (n - 15))"

definition token :: "nat \<Rightarrow> nat \<Rightarrow> byte" where
  "token a b = of_nat (min a 15 * 16 + min b 15)"

fun encode_seq :: "sequence \<Rightarrow> bytes" where
  "encode_seq (Sequence l off n) =
     token (length l) (n - MINMATCH) # len_ext (length l) @ l @ le16_bytes off @ len_ext (n - MINMATCH)"

definition encode_last :: "bytes \<Rightarrow> bytes" where
  "encode_last l = token (length l) 0 # len_ext (length l) @ l"

definition encode_block :: "sequence list \<Rightarrow> bytes \<Rightarrow> bytes" where
  "encode_block seqs fin = concat (map encode_seq seqs) @ encode_last fin"

section \<open>Blocks\<close>

text \<open>A block for \<open>src\<close> behind the history \<open>hist\<close>, and one that needs none.\<close>

definition block_on :: "bytes \<Rightarrow> bytes \<Rightarrow> bytes \<Rightarrow> bool" where
  "block_on hist src d \<longleftrightarrow> (\<exists>seqs fin. d = encode_block seqs fin \<and> expand hist seqs fin = hist @ src \<and>
     valid_from (length hist) (length hist + length src) seqs)"

definition block_of :: "bytes \<Rightarrow> bytes \<Rightarrow> bool" where
  "block_of src d \<longleftrightarrow> (\<exists>seqs fin. d = encode_block seqs fin \<and> expand [] seqs fin = src \<and>
     valid_from 0 (length src) seqs)"

section \<open>Facts\<close>

lemma length_repeat_from [simp]: "length (repeat_from off n out) = n"
  by (simp add: repeat_from_def)

lemma expand_prefix: "length out \<le> length (expand out seqs fin)"
proof (induction seqs arbitrary: out)
  case (Cons s r)
  obtain l off n where "s = Sequence l off n" by (cases s)
  then show ?case using Cons [of "out @ l @ repeat_from off n (out @ l)"] by simp
qed simp

lemma expand_append: "expand out (xs @ ys) fin = expand (expand out xs []) ys fin"
proof (induction xs arbitrary: out)
  case (Cons s r)
  then show ?case by (cases s) simp
qed simp

lemma length_expand_last: "length fin \<le> length (expand out seqs fin)"
proof (induction seqs arbitrary: out)
  case (Cons s r)
  then show ?case by (cases s) simp
qed simp

text \<open>Behind valid sequences that end with a match there are at least 5 literals.\<close>

lemma valid_last:
  "valid_from (length out) (length (expand out seqs fin)) seqs \<Longrightarrow> seqs \<noteq> [] \<Longrightarrow> 5 \<le> length fin"
proof (induction seqs arbitrary: out)
  case (Cons s r)
  obtain l off n where s: "s = Sequence l off n" by (cases s)
  show ?case
  proof (cases "r = []")
    case True
    then show ?thesis using Cons.prems s by simp
  next
    case False
    then show ?thesis
      using Cons.IH [of "out @ l @ repeat_from off n (out @ l)"] Cons.prems(1) s by (simp add: add.assoc)
  qed
qed simp

lemma ext_simps:
  "n < 255 \<Longrightarrow> ext n = [of_nat n]"
  "255 \<le> n \<Longrightarrow> ext n = 255 # ext (n - 255)"
proof -
  assume "255 \<le> n"
  then have "n div 255 = Suc ((n - 255) div 255)" "n mod 255 = (n - 255) mod 255"
    by (simp_all add: le_div_geq le_mod_geq)
  then show "ext n = 255 # ext (n - 255)" by (simp add: ext_def)
qed (simp add: ext_def)

lemma length_ext: "length (ext n) = n div 255 + 1"
  by (simp add: ext_def)

lemma ext_length_pos [simp]: "0 < length (ext n)"
  by (simp add: length_ext)

lemma token_parts:
  "unat (token a b) div 16 = min a 15" "unat (token a b) mod 16 = min b 15"
proof -
  have "min a 15 * 16 + min b 15 < 256" by (simp add: min_def)
  moreover have "unat (of_nat k :: byte) = k" if "k < 256" for k
    using that by (simp add: unsigned_of_nat take_bit_nat_eq_self)
  ultimately have "unat (token a b) = min a 15 * 16 + min b 15"
    by (simp only: token_def)
  moreover have "min b 15 < 16" by simp
  ultimately show "unat (token a b) div 16 = min a 15" "unat (token a b) mod 16 = min b 15"
    by simp_all
qed

lemma length_encode_seq:
  "length (encode_seq (Sequence l off n)) =
    3 + length (len_ext (length l)) + length l + length (len_ext (n - MINMATCH))"
  by simp

section \<open>Blocks behind a history\<close>

lemma block_on_Nil: "block_on [] src d \<longleftrightarrow> block_of src d"
  by (simp add: block_on_def block_of_def)

lemma repeat_from_suffix: "0 < off \<Longrightarrow> off \<le> length b \<Longrightarrow> repeat_from off n (a @ b) = repeat_from off n b"
proof -
  assume off: "0 < off" "off \<le> length b"
  have "(a @ b) ! (length a + length b - off + i mod off) = b ! (length b - off + i mod off)" for i
  proof -
    have "length a + length b - off + i mod off = length a + (length b - off + i mod off)" using off by simp
    then show ?thesis by (simp only: nth_append_length_plus)
  qed
  then show ?thesis by (simp add: repeat_from_def)
qed

text \<open>What lies further back than a valid block reaches does not matter.\<close>

lemma expand_behind: "valid_from (length h) tot seqs \<Longrightarrow> expand (x @ h) seqs fin = x @ expand h seqs fin"
proof (induction seqs arbitrary: h)
  case (Cons s r)
  obtain l off n where s: "s = Sequence l off n" by (cases s)
  have v: "0 < off" "off \<le> length (h @ l)" "valid_from (length (h @ l @ repeat_from off n (h @ l))) tot r"
    using Cons.prems s by (simp_all add: add.assoc)
  have "repeat_from off n (x @ h @ l) = repeat_from off n (h @ l)"
    using repeat_from_suffix [OF v(1,2)] by simp
  then show ?case using Cons.IH [OF v(3)] s by simp
qed simp

lemma valid_from_shift: "valid_from p tot seqs \<Longrightarrow> valid_from (k + p) (k + tot) seqs"
proof (induction seqs arbitrary: p)
  case (Cons s r)
  obtain l off n where s: "s = Sequence l off n" by (cases s)
  then have "valid_from (k + (p + length l + n)) (k + tot) r" using Cons by simp
  then show ?case using Cons.prems s by (simp add: add.assoc)
qed simp

lemma valid_from_unshift: "valid_from (k + p) (k + tot) seqs \<Longrightarrow> 65535 \<le> p \<Longrightarrow> valid_from p tot seqs"
proof (induction seqs arbitrary: p)
  case (Cons s r)
  obtain l off n where s: "s = Sequence l off n" by (cases s)
  then have "valid_from (p + length l + n) tot r" using Cons by (simp add: add.assoc)
  then show ?case using Cons.prems s by simp
qed simp

lemma block_on_extend: "block_on h src d \<Longrightarrow> block_on (x @ h) src d"
proof -
  assume "block_on h src d"
  then obtain seqs fin where s: "d = encode_block seqs fin" "expand h seqs fin = h @ src"
    "valid_from (length h) (length h + length src) seqs"
    unfolding block_on_def by blast
  from s(2) expand_behind [OF s(3), of x fin] have "expand (x @ h) seqs fin = (x @ h) @ src" by simp
  moreover have "valid_from (length (x @ h)) (length (x @ h) + length src) seqs"
    using valid_from_shift [OF s(3), of "length x"] by (simp add: add.assoc)
  ultimately show ?thesis using s(1) unfolding block_on_def by blast
qed

lemma block_on_window: "block_on (x @ h) src d \<Longrightarrow> 65535 \<le> length h \<or> x = [] \<Longrightarrow> block_on h src d"
proof (cases "x = []")
  case False
  assume "block_on (x @ h) src d" "65535 \<le> length h \<or> x = []"
  then obtain seqs fin where s: "d = encode_block seqs fin" "expand (x @ h) seqs fin = (x @ h) @ src"
    "valid_from (length x + length h) (length x + (length h + length src)) seqs" "65535 \<le> length h"
    using False unfolding block_on_def by (auto simp: add.assoc)
  note v = valid_from_unshift [OF s(3,4)]
  from s(2) expand_behind [OF v, of x fin] have "expand h seqs fin = h @ src" by simp
  with s(1) v show ?thesis unfolding block_on_def by blast
qed simp

end
