(* ===== verification/Lz4Correct.thy ===== *)
theory Lz4Correct
  imports Lz4Safe Lz4Format
begin

text \<open>
  The block decoder implements the format: a valid block that fits the room decodes to its
  expansion, whatever the destination held before.
\<close>

section \<open>Copies that repeat\<close>

text \<open>
  \<open>rep base off m hi m'\<close>: the destination \<open>m'\<close> is that of \<open>m\<close> up to \<open>base + off\<close>, and from \<open>base\<close> to
  \<open>hi\<close> it repeats its first \<open>off\<close> bytes.
\<close>

definition rep :: "nat \<Rightarrow> nat \<Rightarrow> bytes \<Rightarrow> nat \<Rightarrow> bytes \<Rightarrow> bool" where
  "rep base off m hi m' \<longleftrightarrow> length m' = length m \<and> take (base + off) m' = take (base + off) m \<and>
     (\<forall>i. base \<le> i \<longrightarrow> i < hi \<longrightarrow> m' ! i = m ! (base + (i - base) mod off))"

lemma rep_start: "rep base off m (base + off) m"
  by (auto simp: rep_def)

lemma rep_less: "rep base off m hi m' \<Longrightarrow> hi' \<le> hi \<Longrightarrow> rep base off m hi' m'"
  by (auto simp: rep_def)

lemma rep_put:
  assumes "rep base off m d m'" "base + off \<le> d" "s + n \<le> d" "base \<le> s" "(d - s) mod off = 0"
    "d + n \<le> length m"
  shows "rep base off m (d + n) (put_at d (view s n m') m')"
proof -
  have len: "length m' = length m" using assms(1) by (simp add: rep_def)
  have n: "length (view s n m') = n" using assms(3,6) len by simp
  have "put_at d (view s n m') m' ! i = m ! (base + (i - base) mod off)" if i: "base \<le> i" "i < d + n" for i
  proof (cases "i < d")
    case True
    then show ?thesis
      using assms i len n nth_store [of d "view s n m'" m' i] by (simp add: rep_def)
  next
    case False
    let ?j = "s + (i - d)"
    have j: "base \<le> ?j" "?j < d" using assms i False by auto
    obtain k where k: "d - s = off * k" using assms(5) by auto
    then have "i - base = ?j - base + off * k" using False assms(3,4) by auto
    then have m: "(i - base) mod off = (?j - base) mod off" by simp
    have "put_at d (view s n m') m' ! i = m' ! ?j"
      using assms i False len n nth_store [of d "view s n m'" m' i] nth_view [of "i - d" n s m'] by simp
    also have "\<dots> = m ! (base + (?j - base) mod off)" using assms(1) j by (simp add: rep_def)
    finally show ?thesis using m by simp
  qed
  moreover have "take (base + off) (put_at d (view s n m') m') = take (base + off) m"
    using assms len take_put_at [of "base + off" d m'] by (simp add: rep_def)
  ultimately show ?thesis using len n assms(6) by (simp add: rep_def)
qed

lemma rep_memcpy:
  assumes "rep base off m d m'" "base + off \<le> d" "s + n \<le> d" "base \<le> s" "(d - s) mod off = 0"
    "d + n \<le> length m"
  shows "\<exists>m''. LZ4_memcpy None d s n m' = Inr m'' \<and> rep base off m (d + n) m''"
proof -
  have "length m' = length m" using assms(1) by (simp add: rep_def)
  then have "LZ4_memcpy None d s n m' = Inr (put_at d (view s n m') m')"
    using assms by (intro memcpy_inside) auto
  then show ?thesis using rep_put [OF assms] by blast
qed

lemma rep_wildCopy8:
  assumes "rep base off m d m'" "base + off \<le> d" "s + 8 \<le> d" "base \<le> s" "(d - s) mod off = 0"
    "d + 8 \<le> length m" "e + 7 \<le> length m"
  shows "\<exists>m''. LZ4_wildCopy8 None d s e m' = Inr m'' \<and> rep base off m (max e (d + 8)) m''"
  using assms
proof (induction "e - d" arbitrary: d s m' rule: less_induct)
  case less
  obtain m1 where m1: "LZ4_memcpy None d s 8 m' = Inr m1" "rep base off m (d + 8) m1"
    using rep_memcpy [OF less.prems(1-6)] by blast
  show ?case
  proof (cases "d + 8 < e")
    case True
    have "\<exists>m''. LZ4_wildCopy8 None (d + 8) (s + 8) e m1 = Inr m'' \<and> rep base off m (max e (d + 8 + 8)) m''"
      using less.prems True m1 by (intro less.hyps) auto
    then show ?thesis
      using True m1 rep_less [of base off m "max e (d + 8 + 8)" _ "max e (d + 8)"]
      by (subst LZ4_wildCopy8.simps) (auto simp: max_def)
  next
    case False
    then show ?thesis using m1 by (subst LZ4_wildCopy8.simps) (simp add: max_def)
  qed
qed

lemma rep_copy_bytes:
  assumes "rep base off m d m'" "base + off \<le> d" "s < d" "base \<le> s" "(d - s) mod off = 0" "e \<le> length m"
  shows "\<exists>m''. copy_bytes d s e m' = Inr m'' \<and> rep base off m (max d e) m''"
  using assms
proof (induction "e - d" arbitrary: d s m' rule: less_induct)
  case less
  have len: "length m' = length m" using less.prems(1) by (simp add: rep_def)
  show ?case
  proof (cases "d < e")
    case True
    have one: "rep base off m (d + 1) (put_at d (view s 1 m') m')"
      using less.prems True by (intro rep_put) auto
    have "\<exists>m''. copy_bytes (d + 1) (s + 1) e (put_at d (view s 1 m') m') = Inr m'' \<and>
        rep base off m (max (d + 1) e) m''"
      using less.prems True one by (intro less.hyps) auto
    then show ?thesis
      using True less.prems len by (subst copy_bytes.simps) (auto simp: poke_ok max_def)
  next
    case False
    then show ?thesis using less.prems by (subst copy_bytes.simps) (simp add: max_def)
  qed
qed

lemma first8_distances:
  assumes "0 < off" "off < 8" "off \<le> op" "s1 = op - off + inc32table ! off"
    "s = nat (int s1 - dec64table ! off)"
  shows "op - off \<le> s1" "s1 + 4 \<le> op + 4" "(op + 4 - s1) mod off = 0"
    "op - off \<le> s" "s + 8 \<le> op + 8" "(op + 8 - s) mod off = 0"
proof -
  obtain k where op: "op = off + k" using assms(3) le_Suc_ex by blast
  show "op - off \<le> s1" "s1 + 4 \<le> op + 4" "(op + 4 - s1) mod off = 0"
    "op - off \<le> s" "s + 8 \<le> op + 8" "(op + 8 - s) mod off = 0"
    using small_offset [OF assms(2)] assms(1)
    unfolding assms(5) unfolding assms(4) op
    by (auto simp: inc32table_def dec64table_def nat_add_distrib)
qed

lemma rep_first8:
  assumes "0 < off" "off \<le> op" "op + 8 \<le> length m"
  shows "\<exists>m' s. copy_first8 op off m = Inr (m', s) \<and> rep (op - off) off m (op + 8) m' \<and>
    op - off \<le> s \<and> s \<le> op \<and> (op + 8 - s) mod off = 0"
proof (cases "off < 8")
  case True
  let ?base = "op - off" and ?m0 = "put_at op (le32_bytes 0) m"
  let ?s1 = "?base + inc32table ! off"
  note dist = first8_distances [OF assms(1) True assms(2) refl refl]
  have base: "?base + off = op" using assms(2) by simp
  have "rep ?base off m op ?m0"
    using assms nth_store [of op "le32_bytes 0" m] take_put_at [of op op m]
    by (auto simp: rep_def)
  from rep_copy_bytes [OF this, of ?base "op + 4"] obtain m1 where
    m1: "copy_bytes op ?base (op + 4) ?m0 = Inr m1" "rep ?base off m (op + 4) m1"
    using assms by (auto simp: max_def)
  from rep_memcpy [OF m1(2), of ?s1 4] obtain m2 where
    m2: "LZ4_memcpy None (op + 4) ?s1 4 m1 = Inr m2" "rep ?base off m (op + 4 + 4) m2"
    using dist(1-3) base assms by auto
  from m2(2) have rep2: "rep ?base off m (op + 8) m2" by (simp add: add.commute)
  have "poke op (le32_bytes 0) m = Inr ?m0" using assms by (simp add: poke_ok)
  then have "copy_first8 op off m = Inr (m2, nat (int ?s1 - dec64table ! off))"
    using m1 m2 unfolding copy_first8_def Let_def if_P [OF True] LZ4_write32_def by (simp only: bindR_Inr)
  then show ?thesis using rep2 dist(4-6) by auto
next
  case False
  have "op - off + off = op" "op - off + 8 \<le> op" "op - (op - off) = off" using False assms(2) by arith+
  then obtain m1 where "LZ4_memcpy None op (op - off) 8 m = Inr m1" "rep (op - off) off m (op + 8) m1"
    using rep_memcpy [of "op - off" off m op m "op - off" 8] rep_start [of "op - off" off m] assms
    by (auto simp del: diff_add_assoc2)
  moreover from this have "copy_first8 op off m = Inr (m1, op - off + 8)"
    using False unfolding copy_first8_def Let_def by (simp only: if_False bindR_Inr)
  moreover have "op + 8 - (op - off + 8) = off" using assms by simp
  ultimately show ?thesis using False assms by (auto simp del: diff_add_assoc2)
qed

lemma rep_near_end:
  assumes "rep base off m op m'" "base + off \<le> op" "s + 8 \<le> op" "base \<le> s" "(op - s) mod off = 0"
    "cpy \<le> length m"
  shows "\<exists>m''. copy_near_end op s cpy m' = Inr m'' \<and> rep base off m (max op cpy) m''"
proof -
  have len: "length m' = length m" using assms(1) by (simp add: rep_def)
  show ?thesis
  proof (cases "op < length m - 7")
    case True
    let ?lim = "length m - 7"
    obtain m1 where m1: "LZ4_wildCopy8 None op s ?lim m' = Inr m1" "rep base off m (max ?lim (op + 8)) m1"
      using rep_wildCopy8 [OF assms(1-5), of ?lim] True by auto
    then have m1': "rep base off m ?lim m1" by (auto intro: rep_less)
    let ?s = "s + (?lim - op)"
    have s: "?s < ?lim" "base \<le> ?s" "?lim - ?s = op - s" using assms(3,4) True by arith+
    obtain m2 where m2: "copy_bytes ?lim ?s cpy m1 = Inr m2" "rep base off m (max ?lim cpy) m2"
      using rep_copy_bytes [OF m1' _ s(1,2) _ assms(6)] s(3) assms(2,5) True by auto
    then show ?thesis
      using m1(1) True len rep_less [of base off m "max ?lim cpy" m2 "max op cpy"]
      by (auto simp: copy_near_end_def Let_def max_def)
  next
    case False
    then show ?thesis
      using rep_copy_bytes [OF assms(1,2) _ assms(4,5,6)] assms(3) len
      by (auto simp: copy_near_end_def Let_def)
  qed
qed

lemma rep_far:
  assumes "rep base off m op m'" "base + off \<le> op" "s + 8 \<le> op" "base \<le> s" "(op - s) mod off = 0"
    "op + 8 \<le> length m" "cpy + 7 \<le> length m" "cpy + 8 = op + len" "16 < len \<Longrightarrow> op + 16 \<le> length m"
  shows "\<exists>m''. copy_far op s len cpy m' = Inr m'' \<and> rep base off m cpy m''"
proof -
  obtain m1 where m1: "LZ4_memcpy None op s 8 m' = Inr m1" "rep base off m (op + 8) m1"
    using rep_memcpy [OF assms(1-6)] by blast
  show ?thesis
  proof (cases "16 < len")
    case True
    obtain m2 where "LZ4_wildCopy8 None (op + 8) (s + 8) cpy m1 = Inr m2" "rep base off m (max cpy (op + 8 + 8)) m2"
      using rep_wildCopy8 [OF m1(2), of "s + 8" cpy] assms True by auto
    then show ?thesis using m1 True by (auto simp: copy_far_def intro: rep_less)
  next
    case False
    then show ?thesis using m1 assms(8) by (auto simp: copy_far_def intro: rep_less)
  qed
qed

lemma rep_take:
  assumes "rep (op - off) off m hi m'" "0 < off" "off \<le> op" "op + n \<le> hi" "op + n \<le> length m"
  shows "take (op + n) m' = take op m @ repeat_from off n (take op m)"
proof (rule nth_equalityI)
  have len: "length m' = length m" using assms(1) by (simp add: rep_def)
  show l: "length (take (op + n) m') = length (take op m @ repeat_from off n (take op m))"
    using assms(5) len by simp
  fix i assume "i < length (take (op + n) m')"
  then have i: "i < op + n" by simp
  show "take (op + n) m' ! i = (take op m @ repeat_from off n (take op m)) ! i"
  proof (cases "i < op")
    case True
    have "take op m' = take op m" using assms(1,3) by (simp add: rep_def)
    then have "m' ! i = m ! i" using True by (metis nth_take)
    then show ?thesis using True i assms(5) by (simp add: nth_append)
  next
    case False
    have "i - (op - off) = off + (i - op)" using False assms(3) by arith
    then have "(i - (op - off)) mod off = (i - op) mod off" by simp
    moreover have "m' ! i = m ! (op - off + (i - (op - off)) mod off)"
      using assms(1,4) i False by (simp add: rep_def)
    moreover have "op - off + (i - op) mod off < op"
      using assms(2,3) mod_less_divisor [OF assms(2), of "i - op"] by linarith
    moreover have "i - op < n" "length (take op m) = op" using i False assms(5) by auto
    ultimately show ?thesis
      using False i assms(5) by (simp add: nth_append repeat_from_def)
  qed
qed

section \<open>Matches\<close>

lemma copy_within_correct:
  assumes "0 < off" "off \<le> op" "op + 8 \<le> length m" "4 \<le> len" "op + len + 5 \<le> length m" "\<not> in_partial E"
  shows "\<exists>m'. copy_within E ip op off len m = Inr (Next ip (op + len) m') \<and> length m' = length m \<and>
    take (op + len) m' = take op m @ repeat_from off len (take op m)"
proof -
  let ?base = "op - off"
  obtain m1 s where m1: "copy_first8 op off m = Inr (m1, s)" "rep ?base off m (op + 8) m1"
    "?base \<le> s" "s \<le> op" "(op + 8 - s) mod off = 0"
    using rep_first8 [OF assms(1-3)] by (elim exE conjE)
  have pre: "?base + off \<le> op + 8" "s + 8 \<le> op + 8" using m1 assms(2) by auto
  note near = rep_near_end [OF m1(2) pre m1(3,5), of "op + len"]
  note far = rep_far [OF m1(2) pre m1(3,5), of "op + len" len]
  have "\<exists>m' hi. (if length m < op + len + MATCH_SAFEGUARD_DISTANCE then
        (if length m < op + len + LASTLITERALS then Inr (Bad ip m1)
         else bindR (copy_near_end (op + 8) s (op + len) m1) (\<lambda>m. Inr (Next ip (op + len) m)))
      else bindR (copy_far (op + 8) s len (op + len) m1) (\<lambda>m. Inr (Next ip (op + len) m)))
     = Inr (Next ip (op + len) m') \<and> rep ?base off m hi m' \<and> op + len \<le> hi"
  proof (cases "length m < op + len + MATCH_SAFEGUARD_DISTANCE")
    case True
    obtain m2 where "copy_near_end (op + 8) s (op + len) m1 = Inr m2" "rep ?base off m (max (op + 8) (op + len)) m2"
      using near assms(5) by auto
    then show ?thesis
      using True assms(5) by (intro exI [of _ m2] exI [of _ "max (op + 8) (op + len)"]) simp
  next
    case False
    then obtain m2 where "copy_far (op + 8) s len (op + len) m1 = Inr m2" "rep ?base off m (op + len) m2"
      using far assms(4) by auto
    then show ?thesis
      using False by (intro exI [of _ m2] exI [of _ "op + len"]) simp
  qed
  then obtain m' hi where m': "copy_within E ip op off len m = Inr (Next ip (op + len) m')"
    "rep ?base off m hi m'" "op + len \<le> hi"
    using m1(1) assms(2,6) by (auto simp: copy_within_def Let_def)
  then have "length m' = length m" by (simp add: rep_def)
  with m' rep_take [OF m'(2) assms(1,2) m'(3)] assms(5) show ?thesis by simp
qed

section \<open>Lengths\<close>

lemma read_ext:
  assumes "int (length pre + length (ext k)) \<le> lencheck"
  shows "read_length_loop (pre @ ext k @ post) lencheck True (length pre) len =
    Inr (length (pre @ ext k), len + of_nat k,
      if lencheck \<le> int (length (pre @ ext k)) then loop_error else ok)"
  using assms
proof (induction k arbitrary: pre len rule: less_induct)
  case (less k)
  show ?case
  proof (cases "k < 255")
    case True
    have "rd (pre @ ext k @ post) (length pre) 1 = Inr [of_nat k]"
      using True by (simp add: ext_simps rd_def view_def)
    moreover have "ucast (of_nat k :: byte) = (of_nat k :: u32)"
    proof -
      have "unat (of_nat k :: byte) = k" using True by (simp add: unsigned_of_nat take_bit_nat_eq_self)
      moreover have "ucast (of_nat k :: byte) = (of_nat (unat (of_nat k :: byte)) :: u32)"
        by (simp only: of_nat_unat)
      ultimately show ?thesis by (simp only:)
    qed
    moreover have "(of_nat k :: u32) \<noteq> 255"
    proof
      assume "(of_nat k :: u32) = 255"
      then have "unat (of_nat k :: u32) = unat (255 :: u32)" by (rule arg_cong)
      then show False using True by (simp add: unsigned_of_nat take_bit_nat_eq_self)
    qed
    ultimately show ?thesis
      using True by (subst read_length_loop.simps) (simp add: ext_simps Let_def)
  next
    case False
    then have e: "ext k = 255 # ext (k - 255)" by (simp add: ext_simps)
    have "rd (pre @ ext k @ post) (length pre) 1 = Inr [255]"
      unfolding e by (simp add: rd_def view_def)
    moreover have "\<not> lencheck \<le> int (length pre + 1)"
    proof -
      have "int (length pre) + 1 + int (length (ext (k - 255))) \<le> lencheck"
        using less.prems unfolding e by simp
      moreover have "1 \<le> int (length (ext (k - 255)))" by (simp add: length_ext)
      ultimately show ?thesis by simp
    qed
    moreover have "read_length_loop ((pre @ [255]) @ ext (k - 255) @ post) lencheck True
        (length (pre @ [255])) (len + 255) =
      Inr (length ((pre @ [255]) @ ext (k - 255)), (len + 255) + of_nat (k - 255),
        if lencheck \<le> int (length ((pre @ [255]) @ ext (k - 255))) then loop_error else ok)"
      using less.prems False unfolding e by (intro less.IH) simp_all
    moreover have "(of_nat k :: u32) = 255 + of_nat (k - 255)" using False by (simp add: of_nat_diff)
    ultimately show ?thesis
      unfolding e by (subst read_length_loop.simps) (simp add: Let_def e)
  qed
qed

lemma literal_length_correct:
  assumes "in_src E = pre @ len_ext n @ rest" "n \<le> length rest" "n < 2 ^ 32"
  shows "literal_length E (length pre) (min n 15) = Inr (length (pre @ len_ext n), Some n)"
proof (cases "n < 15")
  case True
  then show ?thesis by (simp add: literal_length_def len_ext_def)
next
  case False
  let ?k = "n - 15" and ?lencheck = "int (length (in_src E)) - int RUN_MASK"
  have src: "in_src E = pre @ ext ?k @ rest" using assms(1) False by (simp add: len_ext_def)
  have bound: "int (length pre + length (ext ?k)) \<le> ?lencheck"
    using assms(2) False unfolding src by simp
  then have "\<not> ?lencheck \<le> int (length pre)" by (simp add: length_ext)
  then have "read_variable_length (in_src E) ?lencheck True True (length pre) =
    Inr (length (pre @ ext ?k), of_nat ?k, if ?lencheck \<le> int (length (pre @ ext ?k)) then loop_error else ok)"
    using read_ext [OF bound, of rest 0] unfolding read_variable_length_def src by simp
  moreover have "unat (of_nat ?k :: u32) = ?k"
    using assms(3) by (simp add: unsigned_of_nat take_bit_nat_eq_self)
  ultimately show ?thesis
    using False by (simp add: literal_length_def len_ext_def min_def)
qed

lemma match_length_correct:
  assumes "in_src E = pre @ len_ext c @ rest" "6 \<le> length rest" "c < 2 ^ 32"
  shows "match_length E (length pre) (min c 15) = Inr (length (pre @ len_ext c), Some (c + 4))"
proof (cases "c < 15")
  case True
  then show ?thesis by (simp add: match_length_def len_ext_def)
next
  case False
  let ?k = "c - 15" and ?lencheck = "int (length (in_src E)) - int LASTLITERALS + 1"
  have src: "in_src E = pre @ ext ?k @ rest" using assms(1) False by (simp add: len_ext_def)
  have bound: "int (length (pre @ ext ?k)) < ?lencheck"
    using assms(2) unfolding src by simp
  then have "read_variable_length (in_src E) ?lencheck True False (length pre) =
    Inr (length (pre @ ext ?k), of_nat ?k, ok)"
    using read_ext [of pre ?k ?lencheck rest 0] unfolding read_variable_length_def src by simp
  moreover have "unat (of_nat ?k :: u32) = ?k"
    using assms(3) by (simp add: unsigned_of_nat take_bit_nat_eq_self)
  ultimately show ?thesis
    using False by (simp add: match_length_def len_ext_def min_def)
qed

section \<open>History\<close>

text \<open>
  What the decoder can refer to: the dictionary and the output from \<open>lowPrefix\<close> up to \<open>op\<close>. What lies
  below \<open>lowPrefix\<close>, \<open>low\<close>, stays as it is.
\<close>

definition holds :: "dec_args \<Rightarrow> bytes \<Rightarrow> bytes \<Rightarrow> nat \<Rightarrow> bytes \<Rightarrow> bool" where
  "holds E low out op m \<longleftrightarrow> low_prefix E \<le> op \<and> op \<le> length m \<and> take (low_prefix E) m = low \<and>
     in_dict E @ drop (low_prefix E) (take op m) = out"

definition full_args :: "dec_args \<Rightarrow> bool" where
  "full_args E \<longleftrightarrow> \<not> in_partial E \<and> (in_mode E \<noteq> usingExtDict \<longrightarrow> in_dict E = [])"

lemma repeat_from_add:
  assumes "0 < off" "off \<le> length v"
  shows "repeat_from off (a + b) v = repeat_from off a v @ repeat_from off b (v @ repeat_from off a v)"
    (is "_ = ?R @ repeat_from off b (v @ ?R)")
proof (rule nth_equalityI)
  fix i assume "i < length (repeat_from off (a + b) v)"
  then have i: "i < a + b" by simp
  have elem: "repeat_from off k v ! j = v ! (length v - off + j mod off)" if "j < k" for j k
    using that by (simp add: repeat_from_def)
  show "repeat_from off (a + b) v ! i = (?R @ repeat_from off b (v @ ?R)) ! i"
  proof (cases "i < a")
    case True
    then show ?thesis using i by (simp add: elem nth_append)
  next
    case False
    let ?k = "(i - a) mod off"
    have k: "?k < off" using assms(1) by simp
    have "(a + ?k) mod off = (a + (i - a)) mod off" by (rule mod_add_right_eq)
    then have m: "(a + ?k) mod off = i mod off" using False by simp
    have "(?R @ repeat_from off b (v @ ?R)) ! i = (v @ ?R) ! (length v + a - off + ?k)"
      using False i by (simp add: nth_append repeat_from_def)
    also have "\<dots> = v ! (length v - off + (a + ?k) mod off)"
    proof (cases "a + ?k < off")
      case True
      then have "length v + a - off + ?k = length v - off + (a + ?k)" "length v - off + (a + ?k) < length v"
        using assms(2) by auto
      then show ?thesis using True by (simp only: nth_append if_True mod_less)
    next
      case far: False
      then have "a + ?k - off < a" using k by simp
      moreover have "length v + a - off + ?k = length v + (a + ?k - off)" using far assms(2) by simp
      moreover have "(a + ?k - off) mod off = (a + ?k) mod off" using far by (simp add: le_mod_geq)
      ultimately show ?thesis using elem [of "a + ?k - off" a] by (simp add: nth_append)
    qed
    finally show ?thesis using i m elem by simp
  qed
qed simp

lemma holds_append:
  assumes "holds E low out op m" "take (op + length x) m' = take op m @ x" "op + length x \<le> length m'"
  shows "holds E low (out @ x) (op + length x) m'"
proof -
  let ?lp = "low_prefix E"
  have lp: "?lp \<le> op" "take ?lp m = low" "in_dict E @ drop ?lp (take op m) = out" "op \<le> length m"
    using assms(1) by (simp_all add: holds_def)
  have "take ?lp m' = take ?lp (take (op + length x) m')" using lp(1) by (simp add: min_def)
  also have "\<dots> = low" unfolding assms(2) using lp by simp
  finally show ?thesis using lp assms(2,3) by (auto simp: holds_def)
qed

lemma holds_length: "holds E low out op m \<Longrightarrow> length out + low_prefix E = length (in_dict E) + op"
  by (auto simp: holds_def)

lemma holds_split:
  assumes "holds E low out op m"
  obtains P where "out = in_dict E @ P" "take op m = take (low_prefix E) m @ P" "length P + low_prefix E = op"
proof -
  have "take op m = take (low_prefix E) m @ drop (low_prefix E) (take op m)"
    using append_take_drop_id [of "low_prefix E" "take op m"] assms by (simp add: holds_def min_def)
  then show thesis using that assms by (auto simp: holds_def)
qed

lemma dict_match_correct:
  assumes h: "holds E low out op m" and off: "op < low_prefix E + off" "off \<le> length out"
    and n: "op + n + 5 \<le> length m"
  shows "\<exists>m'. copy_from_dict E ip op off n m = Inr (Next ip (op + n) m') \<and> length m' = length m \<and>
    take (op + n) m' = take op m @ repeat_from off n out"
proof -
  let ?lo = "low_prefix E" and ?dict = "in_dict E" and ?gap = "low_prefix E + off - op"
  obtain P where P: "out = ?dict @ P" "take op m = take ?lo m @ P" "length P + ?lo = op"
    using holds_split [OF h] by blast
  have gap: "0 < ?gap" "?gap \<le> length ?dict" "off = ?gap + length P" "\<not> length ?dict < ?gap"
    "length out - off = length ?dict - ?gap"
    using off P(1,3) by auto
  have part: "view (length ?dict - ?gap) k ?dict = repeat_from off k out" if "k \<le> ?gap" for k
  proof (rule nth_equalityI)
    fix i assume "i < length (view (length ?dict - ?gap) k ?dict)"
    then have i: "i < k" using that gap(2) by simp
    then have "i mod off = i" "length ?dict - ?gap + i < length ?dict" using that gap by auto
    then show "view (length ?dict - ?gap) k ?dict ! i = repeat_from off k out ! i"
      using i gap(5) P(1) by (simp only: nth_view repeat_from_def nth_map nth_upt length_upt diff_zero add_0 nth_append if_True)
  qed (use that gap(2) in simp)
  have room: "\<not> (length m < op + n + LASTLITERALS)" using n by simp
  show ?thesis
  proof (cases "n \<le> ?gap")
    case True
    let ?x = "repeat_from off n out"
    have "copy_from_dict E ip op off n m = Inr (Next ip (op + n) (put_at op ?x m))"
      using True room gap(2) n part [OF True] by (simp add: copy_from_dict_def Let_def memcpy_from)
    then show ?thesis using take_put_at_all [of op ?x m] n by simp
  next
    case False
    let ?D = "repeat_from off ?gap out" and ?rest = "n - ?gap" and ?op = "op + ?gap"
    let ?m = "put_at op ?D m"
    have m: "take ?op ?m = take op m @ ?D" "length ?m = length m"
      using take_put_at_all [of op ?D m] n False by simp_all
    have opb: "?lo + off = ?op" "?op - ?lo = off" "?op - off = ?lo" "?op \<le> length m"
      using off(1) P(3) n False by auto
    let ?copy = "if ?op - ?lo < ?rest then copy_bytes ?op ?lo (?op + ?rest) ?m
      else LZ4_memcpy None ?op ?lo ?rest ?m"
    have start: "rep ?lo off ?m ?op ?m" using rep_start [of ?lo off ?m] opb(1) by simp
    have "\<exists>m'. ?copy = Inr m' \<and> rep ?lo off ?m (?op + ?rest) m'"
    proof (cases "?op - ?lo < ?rest")
      case True
      then show ?thesis
        using rep_copy_bytes [OF start _ _ order.refl, of "?op + ?rest"] opb gap(1) P(3) n m(2) False
        by (auto simp: max_def)
    next
      case far: False
      then show ?thesis
        using rep_memcpy [OF start _ _ order.refl, of ?rest] opb gap(1) P(3) n m(2) False by auto
    qed
    then obtain m' where m': "?copy = Inr m'" "rep ?lo off ?m (?op + ?rest) m'" by blast
    have "rep (?op - off) off ?m (?op + ?rest) m'" using m'(2) opb(3) by simp
    from rep_take [OF this, of ?rest]
    have tk: "take (?op + ?rest) m' = take ?op ?m @ repeat_from off ?rest (take ?op ?m)"
      using gap(1,3) opb n m(2) False by auto
    have "repeat_from off ?rest (take ?op ?m) = repeat_from off ?rest (P @ ?D)"
      using repeat_from_suffix [of off "P @ ?D" ?rest "take ?lo m"] m(1) P(2) gap(1,3) by simp
    also have "\<dots> = repeat_from off ?rest (out @ ?D)"
      using repeat_from_suffix [of off "P @ ?D" ?rest ?dict] P(1) gap(1,3) by simp
    finally have "take (?op + ?rest) m' = take op m @ repeat_from off (?gap + ?rest) out"
      using tk m(1) repeat_from_add [of off out ?gap ?rest] gap(1,3) off(2) by simp
    moreover have "copy_from_dict E ip op off n m = Inr (Next ip (op + n) m')"
    proof -
      have "LZ4_memcpy (Some ?dict) op (length ?dict - ?gap) ?gap m = Inr ?m"
        using part [of ?gap] gap(2) n False by (simp add: memcpy_from)
      moreover have "?op + ?rest = op + n" using False by simp
      ultimately show ?thesis
        using m'(1) False room gap(4) unfolding copy_from_dict_def Let_def
        by (simp only: if_False bindR_Inr simp_thms)
    qed
    moreover have "length m' = length m" using m'(2) m(2) by (simp add: rep_def)
    moreover have "?gap + ?rest = n" "?op + ?rest = op + n" using False by auto
    ultimately show ?thesis by (simp only:) simp
  qed
qed

section \<open>Sequences\<close>

lemma match_copy_correct:
  assumes E: "full_args E" and h: "holds E low out op m" and off: "0 < off" "off \<le> length out"
    and n: "op + 8 \<le> length m" "4 \<le> n" "op + n + 5 \<le> length m"
  shows "\<exists>m'. match_copy E ip op off n m = Inr (Next ip (op + n) m') \<and>
    length m' = length m \<and> take (op + n) m' = take op m @ repeat_from off n out"
proof (cases "in_mode E = usingExtDict \<and> op < low_prefix E + off")
  case True
  then show ?thesis
    using dict_match_correct [OF h _ off(2) n(3), of ip] off(2) holds_length [OF h] by (simp add: match_copy_def)
next
  case False
  obtain P where P: "out = in_dict E @ P" "take op m = take (low_prefix E) m @ P" "length P + low_prefix E = op"
    using holds_split [OF h] by blast
  have P': "off \<le> length P" using False off(2) E P by (auto simp: full_args_def)
  have "repeat_from off n (take op m) = repeat_from off n out"
    using repeat_from_suffix [OF off(1) P'] P(1,2) by simp
  moreover have "\<not> in_partial E" using E by (simp add: full_args_def)
  ultimately show ?thesis
    using copy_within_correct [of off op m n E ip] off n P(3) P' False holds_length [OF h]
    by (auto simp: match_copy_def)
qed

lemma copy_match_correct:
  assumes "full_args E" "holds E low out op m" "in_src E = pre @ len_ext (n - 4) @ rest" "6 \<le> length rest"
    "n < 2 ^ 32" "4 \<le> n" "0 < off" "off \<le> length out" "op + 8 \<le> length m" "op + n + 5 \<le> length m"
  shows "\<exists>m'. copy_match E (length pre) op off (min (n - 4) 15) m =
      Inr (Next (length (pre @ len_ext (n - 4))) (op + n) m') \<and> length m' = length m \<and>
    holds E low (out @ repeat_from off n out) (op + n) m'"
proof -
  have "match_length E (length pre) (min (n - 4) 15) =
      Inr (length (pre @ len_ext (n - 4)), Some (n - 4 + 4))"
    using assms by (intro match_length_correct) auto
  moreover have "n - 4 + 4 = n" using assms(6) by simp
  moreover obtain m' where "match_copy E (length (pre @ len_ext (n - 4))) op off n m =
      Inr (Next (length (pre @ len_ext (n - 4))) (op + n) m')" "length m' = length m"
    "take (op + n) m' = take op m @ repeat_from off n out"
    using match_copy_correct [OF assms(1,2,7,8,9,6,10)] by blast
  moreover from this have "holds E low (out @ repeat_from off n out) (op + n) m'"
    using holds_append [OF assms(2), of "repeat_from off n out" m'] assms(10) by simp
  ultimately show ?thesis by (simp add: copy_match_def)
qed

lemma take_put_view:
  assumes "op + k \<le> length m" "n \<le> k" "ip + k \<le> length b"
  shows "take (op + n) (put_at op (view ip k b) m) = take op m @ view ip n b"
proof -
  have "take (op + n) (put_at op (view ip k b) m) = take (op + n) (take (op + k) (put_at op (view ip k b) m))"
    using assms(2) by (simp add: min_def)
  also have "take (op + k) (put_at op (view ip k b) m) = take op m @ view ip k b"
    using take_put_at_all [of op "view ip k b" m] assms by simp
  finally show ?thesis using assms by (simp add: view_def min_def)
qed

lemma shortcut_copies:
  assumes "8 \<le> off" "off \<le> op" "op + 18 \<le> length m"
  shows "\<exists>m1 m2 m3. LZ4_memcpy None op (op - off) 8 m = Inr m1 \<and>
    LZ4_memcpy None (op + 8) (op - off + 8) 8 m1 = Inr m2 \<and>
    LZ4_memcpy None (op + 16) (op - off + 16) 2 m2 = Inr m3 \<and> rep (op - off) off m (op + 18) m3"
proof -
  have base: "op - off + off = op" "op - off + 8 \<le> op" "op - (op - off) = off"
    using assms by arith+
  have far: "op - off + off \<le> op + 8" "op - off + 8 + 8 \<le> op + 8" "op - off \<le> op - off + 8"
    "op - off + off \<le> op + 16" "op - off + 16 + 2 \<le> op + 16" "op - off \<le> op - off + 16"
    "op + 8 + 8 \<le> length m" "op + 16 + 2 \<le> length m"
    using assms by arith+
  have d8: "(op + 8 - (op - off + 8)) mod off = 0" "(op + 16 - (op - off + 16)) mod off = 0"
  proof -
    have "op + 8 - (op - off + 8) = off" "op + 16 - (op - off + 16) = off" using assms(2) by arith+
    then show "(op + 8 - (op - off + 8)) mod off = 0" "(op + 16 - (op - off + 16)) mod off = 0" by simp_all
  qed
  obtain m1 where m1: "LZ4_memcpy None op (op - off) 8 m = Inr m1" "rep (op - off) off m (op + 8) m1"
    using rep_memcpy [of "op - off" off m op m "op - off" 8] rep_start [of "op - off" off m] base assms
    by (auto simp del: diff_add_assoc2)
  obtain m2 where m2: "LZ4_memcpy None (op + 8) (op - off + 8) 8 m1 = Inr m2"
    "rep (op - off) off m (op + 8 + 8) m2"
    using rep_memcpy [OF m1(2) far(1-3) d8(1) far(7)] by blast
  then have "rep (op - off) off m (op + 16) m2" by (simp add: add.commute)
  then obtain m3 where
    m3: "LZ4_memcpy None (op + 16) (op - off + 16) 2 m2 = Inr m3" "rep (op - off) off m (op + 16 + 2) m3"
    using rep_memcpy [of "op - off" off m "op + 16" m2, OF _ far(4-6) d8(2) far(8)] by blast
  then have "rep (op - off) off m (op + 18) m3" by (simp add: add.commute)
  with m1 m2 m3 show ?thesis by blast
qed

text \<open>A sequence that is not the last code of the block.\<close>

lemma sequence_correct:
  assumes E: "full_args E" and src: "in_src E = pre @ encode_seq (Sequence l off n) @ rest"
    and rest: "6 \<le> length rest" and room: "op + length l + 12 \<le> length m" "op + length l + n + 5 \<le> length m"
    and valid: "0 < off" "off < 65536" "off \<le> length out + length l" "4 \<le> n"
    and small: "length l < 2 ^ 32" "n < 2 ^ 32" and out: "holds E low out op m"
  shows "\<exists>m'. dec_step E (length pre) op m =
      Inr (Next (length (pre @ encode_seq (Sequence l off n))) (op + length l + n) m') \<and>
    length m' = length m \<and> holds E low (out @ l @ repeat_from off n (out @ l)) (op + length l + n) m'"
proof -
  let ?src = "in_src E" and ?c = "n - 4"
  let ?t = "token (length l) ?c" and ?ip = "length pre + 1"
  let ?done = "length (pre @ encode_seq (Sequence l off n))"
  have src': "?src = pre @ ?t # len_ext (length l) @ l @ le16_bytes off @ len_ext ?c @ rest"
    using src by simp
  have tok: "rd ?src (length pre) 1 = Inr [?t]"
    unfolding src' by (simp add: rd_def view_def)
  have parts: "unat ?t div 2 ^ ML_BITS = min (length l) 15" "unat ?t mod 2 ^ ML_BITS = min ?c 15"
    using token_parts [of "length l" ?c] by (simp_all add: ML_BITS_def)
  let ?lit = "pre @ ?t # len_ext (length l) @ l"
  have off: "LZ4_readLE16 ?src (length ?lit) = Inr off"
  proof -
    have "?src = ?lit @ le16_bytes off @ len_ext ?c @ rest" using src' by simp
    then have "rd ?src (length ?lit) 2 = Inr (le16_bytes off)"
      by (simp add: rd_def view_def)
    then show ?thesis using valid(2) by (simp add: LZ4_readLE16_def le16_le16_bytes)
  qed
  let ?pre = "?lit @ le16_bytes off"
  have match: "\<exists>m2. copy_match E (length ?lit + 2) (op + length l) off (min ?c 15) m1 =
      Inr (Next ?done (op + length l + n) m2) \<and> length m2 = length m \<and>
    holds E low (out @ l @ repeat_from off n (out @ l)) (op + length l + n) m2"
    if "holds E low (out @ l) (op + length l) m1" "length m1 = length m" for m1
    using copy_match_correct [OF E that(1), of ?pre n rest off] src' rest room valid small that(2) by simp
  show ?thesis
  proof (cases "min (length l) 15 \<noteq> RUN_MASK \<and> length pre + 1 + 14 + 2 < length ?src \<and> op + 14 + 18 \<le> length m")
    case True
    then have short: "length l < 15" "len_ext (length l) = []" by (auto simp: min_def len_ext_def split: if_splits)
    have b: "?ip + 16 \<le> length ?src" "op + 16 \<le> length m" using True by auto
    let ?m1 = "put_at op (view ?ip 16 ?src) m"
    have lits: "view ?ip (length l) ?src = l"
      unfolding src' short(2) by (simp add: view_def)
    have m1: "LZ4_memcpy (Some ?src) op ?ip 16 m = Inr ?m1" "length ?m1 = length m"
      "take (op + length l) ?m1 = take op m @ l"
      using b short(1) lits take_put_view [of op 16 m "length l" ?ip ?src]
      by (simp_all add: memcpy_from)
    have h1: "holds E low (out @ l) (op + length l) ?m1"
      using room(1) m1(2,3) by (intro holds_append [OF out]) simp_all
    have ip: "length ?lit = ?ip + length l" using short(2) by simp
    have step: "dec_step E (length pre) op m = shortcut E ?ip op (length l) (min ?c 15) m"
      using True short(1) tok parts by (simp add: dec_step_def Let_def)
    show ?thesis
    proof (cases "min ?c 15 \<noteq> ML_MASK \<and> 8 \<le> off \<and> (in_mode E = withPrefix64k \<or> low_prefix E + off \<le> op + length l)")
      case fast: True
      then have c: "?c < 15" "len_ext ?c = []" by (auto simp: min_def len_ext_def split: if_splits)
      obtain P where P: "out @ l = in_dict E @ P" "take (op + length l) ?m1 = take (low_prefix E) ?m1 @ P"
        "length P + low_prefix E = op + length l"
        using holds_split [OF h1] by blast
      have inside: "off \<le> length P"
        using fast valid(3) E P by (auto simp: full_args_def dest: arg_cong [where f = length])
      obtain m2 m3 m4 where m: "LZ4_memcpy None (op + length l) (op + length l - off) 8 ?m1 = Inr m2"
        "LZ4_memcpy None (op + length l + 8) (op + length l - off + 8) 8 m2 = Inr m3"
        "LZ4_memcpy None (op + length l + 16) (op + length l - off + 16) 2 m3 = Inr m4"
        "rep (op + length l - off) off ?m1 (op + length l + 18) m4"
        using shortcut_copies [of off "op + length l" ?m1] fast inside P(3) True m1(2) short(1) by auto
      have n: "op + length l + min ?c 15 + MINMATCH = op + length l + n" "n \<le> 18"
        using c(1) valid(4) by auto
      have "off \<le> op + length l" using inside P(3) by simp
      then have "shortcut E ?ip op (length l) (min ?c 15) m = Inr (Next ?done (op + length l + n) m4)"
        using m1(1) off fast m(1-3) n(1) short(2) c(2)
        by (simp add: shortcut_def Let_def ip)
      moreover have len4: "length m4 = length m" using m(4) m1(2) by (simp add: rep_def)
      moreover have "take (op + length l + n) m4 = take (op + length l) ?m1 @ repeat_from off n (out @ l)"
        using rep_take [OF m(4) valid(1) \<open>off \<le> op + length l\<close>, of n] n(2) room m1(2) P(1,2)
          repeat_from_suffix [OF valid(1) inside] by simp
      then have "holds E low ((out @ l) @ repeat_from off n (out @ l)) (op + length l + n) m4"
        using holds_append [OF h1, of "repeat_from off n (out @ l)" m4] room(2) len4 by simp
      ultimately show ?thesis using step by simp
    next
      case slow: False
      have "shortcut E ?ip op (length l) (min ?c 15) m =
          copy_match E (length ?lit + 2) (op + length l) off (min ?c 15) ?m1"
        using m1(1) off slow short(2) by (auto simp: shortcut_def Let_def ip)
      then show ?thesis using step match [OF h1 m1(2)] by simp
    qed
  next
    case False
    let ?pre1 = "pre @ [?t]"
    have l: "literal_length E ?ip (min (length l) 15) = Inr (length (?pre1 @ len_ext (length l)), Some (length l))"
      using literal_length_correct [of E ?pre1 "length l" "l @ le16_bytes off @ len_ext ?c @ rest"]
        src' small(1) by simp
    let ?i = "length (?pre1 @ len_ext (length l))"
    have lits: "view ?i (length l) ?src = l" unfolding src' by (simp add: view_def)
    have len: "?i + length l + 8 \<le> length ?src" unfolding src' using rest by simp
    obtain m1 where m1: "LZ4_wildCopy8 (Some ?src) op ?i (op + length l) m = Inr m1" "length m1 = length m"
      "take (op + length l) m1 = take op m @ l"
      using wildCopy8_from [of ?i "op + length l" op ?src m] room len lits by auto
    have h1: "holds E low (out @ l) (op + length l) m1"
      using room(1) m1(2,3) by (intro holds_append [OF out]) simp_all
    have "copy_literals E ?i op (length l) m = Inr (Next (length ?lit) (op + length l) m1)"
      using m1(1) room len by (simp add: copy_literals_def Let_def)
    then have "dec_step E (length pre) op m =
        copy_match E (length ?lit + 2) (op + length l) off (min ?c 15) m1"
      using False tok parts l off by (auto simp: dec_step_def Let_def decode_match_def)
    then show ?thesis using match [OF h1 m1(2)] by simp
  qed
qed

lemma last_literals_correct:
  assumes E: "full_args E" and src: "in_src E = pre @ encode_last l" and room: "op + length l \<le> length m"
    and small: "length l < 2 ^ 32" and out: "holds E low out op m"
  shows "\<exists>m'. dec_step E (length pre) op m = Inr (Stop (op + length l) m') \<and>
    length m' = length m \<and> holds E low (out @ l) (op + length l) m'"
proof -
  let ?src = "in_src E" and ?t = "token (length l) 0" and ?ip = "length pre + 1"
  have src': "?src = (pre @ [?t]) @ len_ext (length l) @ l" using src by (simp add: encode_last_def)
  have tok: "rd ?src (length pre) 1 = Inr [?t]" unfolding src' by (simp add: rd_def view_def)
  have parts: "unat ?t div 2 ^ ML_BITS = min (length l) 15"
    using token_parts [of "length l" 0] by (simp add: ML_BITS_def)
  have no_cut: "\<not> (min (length l) 15 \<noteq> RUN_MASK \<and> ?ip + 14 + 2 < length ?src)"
    unfolding src' by (auto simp: len_ext_def min_def)
  have lit: "literal_length E ?ip (min (length l) 15) =
      Inr (length ((pre @ [?t]) @ len_ext (length l)), Some (length l))"
    using literal_length_correct [of E "pre @ [?t]" "length l" l] src' small by simp
  let ?i = "length ((pre @ [?t]) @ len_ext (length l))" and ?m = "put_at op l m"
  have i: "?i + length l = length ?src" "view ?i (length l) ?src = l"
    unfolding src' by (simp_all add: view_def)
  then have copy: "LZ4_memcpy (Some ?src) op ?i (length l) m = Inr ?m"
    using room memcpy_from [of ?i "length l" ?src op m] by simp
  have "\<not> in_partial E" using E by (simp add: full_args_def)
  then have "copy_literals E ?i op (length l) m = Inr (Stop (op + length l) ?m)"
    using copy i(1) room by (simp add: copy_literals_def Let_def)
  then have "dec_step E (length pre) op m = Inr (Stop (op + length l) ?m)"
    using tok parts no_cut lit by (auto simp: dec_step_def Let_def decode_match_def)
  moreover have "length ?m = length m" "take (op + length l) ?m = take op m @ l"
    using take_put_at_all [of op l m] room by simp_all
  moreover from this have "holds E low (out @ l) (op + length l) ?m"
    using room by (intro holds_append [OF out]) simp_all
  ultimately show ?thesis by blast
qed

section \<open>Blocks\<close>

lemma dec_loop_correct:
  assumes "full_args E"
  shows "in_src E = pre @ encode_block seqs fin \<Longrightarrow> out' = expand out seqs fin \<Longrightarrow>
    valid_from (length out) (length out') seqs \<Longrightarrow> length out' + op \<le> length out + length m \<Longrightarrow>
    length out' < 2 ^ 32 \<Longrightarrow> holds E low out op m \<Longrightarrow>
    \<exists>m' op'. dec_loop E (length pre) op m = Inr (Stop op' m') \<and> op' + length out = op + length out' \<and>
      length m' = length m \<and> holds E low out' op' m'"
proof (induction seqs arbitrary: pre out op m)
  case Nil
  then have room: "op + length fin \<le> length m" "length fin < 2 ^ 32" by simp_all
  have "in_src E = pre @ encode_last fin" using Nil.prems(1) by (simp add: encode_block_def)
  from last_literals_correct [OF assms this room Nil.prems(6)] show ?case
    using Nil.prems(2) by (subst dec_loop.simps) auto
next
  case (Cons s r)
  obtain l off n where s: "s = Sequence l off n" by (cases s)
  let ?rest = "encode_block r fin" and ?out = "out @ l @ repeat_from off n (out @ l)"
  have src: "in_src E = pre @ encode_seq (Sequence l off n) @ ?rest"
    using Cons.prems(1) s by (simp add: encode_block_def)
  have valid: "0 < off" "off < 65536" "off \<le> length out + length l" "4 \<le> n"
    "length out + length l + 12 \<le> length out'" "length out + length l + n + 5 \<le> length out'"
    "valid_from (length ?out) (length out') r"
    using Cons.prems(3) s by (simp_all add: add.assoc)
  have "5 \<le> length fin"
    using valid_last [of out "s # r" fin] Cons.prems(2,3) by simp
  then have rest: "6 \<le> length ?rest" by (simp add: encode_block_def encode_last_def)
  obtain m1 where m1: "dec_step E (length pre) op m =
      Inr (Next (length (pre @ encode_seq (Sequence l off n))) (op + length l + n) m1)"
    "length m1 = length m" "holds E low ?out (op + length l + n) m1"
    using sequence_correct [OF assms src rest, of op m out] valid Cons.prems(4-6) by auto
  have "\<exists>m' op'. dec_loop E (length (pre @ encode_seq (Sequence l off n))) (op + length l + n) m1 =
      Inr (Stop op' m') \<and> op' + length ?out = op + length l + n + length out' \<and> length m' = length m1 \<and>
      holds E low out' op' m'"
    using src s Cons.prems(2,4,5) valid(7) m1(2,3)
    by (intro Cons.IH) (simp_all add: add.assoc)
  then show ?case using m1 by (subst dec_loop.simps) auto
qed

end
