(* ===== verification/Lz4Fast.thy ===== *)
theory Lz4Fast
  imports Lz4Correct
begin

text \<open>
  The fast loop of the block decoder on valid blocks: every step produces the output the sequence
  stands for, or hands the sequence to the safe loop, which does. With it the decoder implements
  the format whatever \<open>LZ4_FAST_DEC_LOOP\<close> is.
\<close>

section \<open>Copies\<close>

lemma rep_wildCopy32:
  assumes "rep base off m d m'" "base + off \<le> d" "s + 16 \<le> d" "base \<le> s" "(d - s) mod off = 0"
    "d + 32 \<le> length m" "e + 31 \<le> length m"
  shows "\<exists>m''. LZ4_wildCopy32 None d s e m' = Inr m'' \<and> rep base off m (max e (d + 32)) m''"
  using assms
proof (induction "e - d" arbitrary: d s m' rule: less_induct)
  case less
  obtain m1 where m1: "LZ4_memcpy None d s 16 m' = Inr m1" "rep base off m (d + 16) m1"
    using rep_memcpy [OF less.prems(1-5)] less.prems(6) by auto
  obtain m2 where "LZ4_memcpy None (d + 16) (s + 16) 16 m1 = Inr m2" "rep base off m (d + 16 + 16) m2"
    using rep_memcpy [OF m1(2), of "s + 16" 16] less.prems by auto
  then have m2: "LZ4_memcpy None (d + 16) (s + 16) 16 m1 = Inr m2" "rep base off m (d + 32) m2"
    by (simp_all add: add.assoc)
  show ?case
  proof (cases "d + 32 < e")
    case True
    have "\<exists>m''. LZ4_wildCopy32 None (d + 32) (s + 32) e m2 = Inr m'' \<and>
        rep base off m (max e (d + 32 + 32)) m''"
      using less.prems True m2 by (intro less.hyps) auto
    then show ?thesis
      using True m1 m2 rep_less [of base off m "max e (d + 32 + 32)" _ "max e (d + 32)"]
      by (subst LZ4_wildCopy32.simps) (auto simp: max_def)
  next
    case False
    then show ?thesis using m1 m2 by (subst LZ4_wildCopy32.simps) (simp add: max_def)
  qed
qed

text \<open>\<open>v\<close> holds 8 bytes of the repetition.\<close>

definition pattern8 :: "nat \<Rightarrow> nat \<Rightarrow> bytes \<Rightarrow> bytes \<Rightarrow> bool" where
  "pattern8 base off m v \<longleftrightarrow> length v = 8 \<and> (\<forall>j < 8. v ! j = m ! (base + j mod off))"

lemma rep_poke:
  assumes "rep base off m d m'" "pattern8 base off m v" "base + off \<le> d" "(d - base) mod off = 0"
    "d + 8 \<le> length m"
  shows "poke d v m' = Inr (put_at d v m')" "rep base off m (d + 8) (put_at d v m')"
proof -
  have len: "length m' = length m" "length v = 8" using assms(1,2) by (simp_all add: rep_def pattern8_def)
  then show "poke d v m' = Inr (put_at d v m')" using assms(5) by (simp add: poke_ok)
  have "put_at d v m' ! i = m ! (base + (i - base) mod off)" if i: "base \<le> i" "i < d + 8" for i
  proof (cases "i < d")
    case True
    then show ?thesis
      using assms(1,5) i len nth_store [of d v m' i] by (simp add: rep_def)
  next
    case False
    have "i - base = (i - d) + (d - base)" using False assms(3) by arith
    then have "(i - base) mod off = (i - d) mod off"
      using assms(4) by (metis add.right_neutral mod_add_right_eq)
    then show ?thesis
      using assms(2,5) False i len nth_store [of d v m' i] by (simp add: pattern8_def)
  qed
  moreover have "take (base + off) (put_at d v m') = take (base + off) m"
    using assms len take_put_at [of "base + off" d m'] by (simp add: rep_def)
  ultimately show "rep base off m (d + 8) (put_at d v m')" using len assms(5) by (simp add: rep_def)
qed

lemma rep_fill:
  assumes "rep base off m d m'" "pattern8 base off m v" "base + off \<le> d" "(d - base) mod off = 0"
    "off dvd 8" "e + 7 \<le> length m"
  shows "\<exists>m''. fill_pattern d e v m' = Inr m'' \<and> rep base off m (max d e) m''"
  using assms
proof (induction "e - d" arbitrary: d m' rule: less_induct)
  case less
  show ?case
  proof (cases "d < e")
    case True
    then have "d + 8 \<le> length m" using less.prems(6) by simp
    note step = rep_poke [OF less.prems(1-4) this]
    have "d + 8 - base = (d - base) + 8" using less.prems(3) by simp
    then have "(d + 8 - base) mod off = 0"
      using less.prems(4,5) by (metis dvd_add mod_0_imp_dvd mod_eq_0_iff_dvd)
    then have "\<exists>m''. fill_pattern (d + 8) e v (put_at d v m') = Inr m'' \<and> rep base off m (max (d + 8) e) m''"
      using less.prems True step(2) by (intro less.hyps) auto
    then show ?thesis
      using True step(1) rep_less [of base off m "max (d + 8) e" _ "max d e"]
      by (subst fill_pattern.simps) (auto simp: max_def)
  next
    case False
    then show ?thesis using less.prems by (subst fill_pattern.simps) (simp add: max_def)
  qed
qed

lemma all_less_8: "(\<forall>j < 8. P j) \<longleftrightarrow> P 0 \<and> P 1 \<and> P 2 \<and> P 3 \<and> P 4 \<and> P 5 \<and> P 6 \<and> P (7 :: nat)"
proof -
  have "j < 8 \<longleftrightarrow> j \<in> {0, 1, 2, 3, 4, 5, 6, 7}" for j :: nat by auto
  then show ?thesis by (simp only:) blast
qed

lemma view_elems:
  assumes "base + off \<le> length m"
  shows "view base off m = map (\<lambda>j. m ! (base + j)) [0..<off]"
  using assms by (intro nth_equalityI) (auto simp: nth_view)

lemma view_1: "base + 1 \<le> length m \<Longrightarrow> view base 1 m = [m ! base]"
  and view_2: "base + 2 \<le> length m \<Longrightarrow> view base 2 m = [m ! base, m ! (base + 1)]"
  and view_4: "base + 4 \<le> length m \<Longrightarrow>
    view base 4 m = [m ! base, m ! (base + 1), m ! (base + 2), m ! (base + 3)]"
  by (simp_all only: view_elems) (simp_all add: upt_rec numeral_3_eq_3)

text \<open>The three patterns of \<open>LZ4_memcpy_using_offset\<close>.\<close>

lemma patterns:
  assumes "base + off \<le> length m"
  shows "off = 1 \<Longrightarrow> pattern8 base off m (replicate 8 (view base 1 m ! 0))"
    "off = 2 \<Longrightarrow> pattern8 base off m (view base 2 m @ view base 2 m @ take 4 (view base 2 m @ view base 2 m))"
    "off = 4 \<Longrightarrow> pattern8 base off m (view base 4 m @ view base 4 m)"
  using assms by (simp_all add: pattern8_def all_less_8 view_1 view_2 view_4 del: One_nat_def)

lemma rep_memcpy_using_offset:
  assumes "0 < off" "off \<le> d" "d + 16 \<le> length m" "e + 7 \<le> length m"
  shows "\<exists>m'. LZ4_memcpy_using_offset d e off m = Inr m' \<and> rep (d - off) off m (max e (d + 8)) m'"
proof -
  let ?base = "d - off"
  have base: "?base + off = d" "d - ?base = off" using assms(2) by arith+
  have start: "rep ?base off m d m" using rep_start [of ?base off m] base(1) by simp
  have pattern: "\<exists>m'. bindR (poke d v m) (fill_pattern (d + 8) e v) = Inr m' \<and>
      rep ?base off m (max e (d + 8)) m'" if v: "pattern8 ?base off m v" "off dvd 8" for v
  proof -
    have "(d + 8 - ?base) mod off = 0"
      using v(2) base(2) assms(2) by (metis Nat.diff_add_assoc2 diff_le_self dvd_add dvd_refl mod_0_imp_dvd mod_eq_0_iff_dvd)
    moreover have "poke d v m = Inr (put_at d v m)" "rep ?base off m (d + 8) (put_at d v m)"
      using rep_poke [OF start v(1)] base assms(3) by auto
    ultimately show ?thesis
      using rep_fill [of ?base off m "d + 8" "put_at d v m" v e] v base(1) assms(4)
      by (simp add: max.commute)
  qed
  have inside: "?base + off \<le> length m" using base(1) assms(3) by simp
  show ?thesis
  proof (cases "off = 1 \<or> off = 2 \<or> off = 4")
    case True
    then show ?thesis
    proof (elim disjE)
      assume off: "off = 1"
      then show ?thesis
        using pattern [OF patterns(1) [OF inside off]] inside by (simp add: LZ4_memcpy_using_offset_def Let_def)
    next
      assume off: "off = 2"
      then show ?thesis
        using pattern [OF patterns(2) [OF inside off]] inside by (simp add: LZ4_memcpy_using_offset_def Let_def)
    next
      assume off: "off = 4"
      then show ?thesis
        using pattern [OF patterns(3) [OF inside off]] inside by (simp add: LZ4_memcpy_using_offset_def Let_def)
    qed
  next
    case False
    have "d + 8 \<le> length m" using assms(3) by simp
    from rep_first8 [OF assms(1,2) this] obtain m1 s where m1: "copy_first8 d off m = Inr (m1, s)" "rep ?base off m (d + 8) m1"
      "?base \<le> s" "s \<le> d" "(d + 8 - s) mod off = 0"
      by (elim exE conjE)
    obtain m2 where "LZ4_wildCopy8 None (d + 8) s e m1 = Inr m2" "rep ?base off m (max e (d + 8 + 8)) m2"
      using rep_wildCopy8 [OF m1(2), of s e] m1 base(1) assms by auto
    then show ?thesis
      using False m1(1) rep_less [of ?base off m "max e (d + 8 + 8)" m2 "max e (d + 8)"]
      by (auto simp: LZ4_memcpy_using_offset_def LZ4_memcpy_using_offset_base_def Let_def max_def)
  qed
qed

section \<open>Steps\<close>

text \<open>What the safe loop makes of the point where the fast one leaves the sequence.\<close>

definition resume :: "dec_args \<Rightarrow> fast_next \<Rightarrow> dec_next result" where
  "resume E r =
     (case r of
        FastNext ip op m \<Rightarrow> Inr (Next ip op m)
      | SafeLiterals ip op len code m \<Rightarrow> bindR (copy_literals E ip op len m) (decode_match E code)
      | SafeMatch ip op offset len m \<Rightarrow> match_copy E ip op offset len m
      | FastBad ip m \<Rightarrow> Inr (Bad ip m))"

lemma resume_simps [simp]:
  "resume E (FastNext ip op m) = Inr (Next ip op m)"
  "resume E (SafeLiterals ip op len code m) = bindR (copy_literals E ip op len m) (decode_match E code)"
  "resume E (SafeMatch ip op offset len m) = match_copy E ip op offset len m"
  "resume E (FastBad ip m) = Inr (Bad ip m)"
  by (simp_all add: resume_def)

lemma fast_loop_resume:
  assumes "fast_step E ip op m = Inr r"
  shows "fast_loop E ip op m =
    (case r of FastNext ip' op' m' \<Rightarrow> fast_loop E ip' op' m' | _ \<Rightarrow> bindR (resume E r) (safe_rest E))"
  using assms by (subst fast_loop.simps) (simp add: safe_rest_def split: fast_next.split)

text \<open>\<open>done_to E low n r ip op out\<close>: resuming leads to \<open>ip\<close> and \<open>op\<close> with \<open>out\<close> as the output.\<close>

definition done_to :: "dec_args \<Rightarrow> bytes \<Rightarrow> nat \<Rightarrow> fast_next \<Rightarrow> nat \<Rightarrow> nat \<Rightarrow> bytes \<Rightarrow> bool" where
  "done_to E low n r ip op out \<longleftrightarrow>
     (\<exists>m'. resume E r = Inr (Next ip op m') \<and> length m' = n \<and> holds E low out op m')"

text \<open>A match inside the prefix and the output.\<close>

lemma holds_inside:
  assumes "full_args E" "holds E low out op m" "0 < off" "off \<le> length out"
    "\<not> (in_mode E = usingExtDict \<and> op < low_prefix E + off)"
  shows "off \<le> op" "repeat_from off n (take op m) = repeat_from off n out"
proof -
  obtain P where P: "out = in_dict E @ P" "take op m = take (low_prefix E) m @ P" "length P + low_prefix E = op"
    using holds_split [OF assms(2)] by blast
  have P': "off \<le> length P" using assms(1,4,5) P by (auto simp: full_args_def)
  then show "off \<le> op" using P(3) by simp
  show "repeat_from off n (take op m) = repeat_from off n out"
    using repeat_from_suffix [OF assms(3) P'] P(1,2) by simp
qed

lemma fast_copy_correct:
  assumes E: "full_args E" and h: "holds E low out op m" and off: "0 < off" "off \<le> length out"
    and room: "op + n + 64 < length m" "4 \<le> n"
  shows "\<exists>m'. fast_copy E ip op off n m = Inr (FastNext ip (op + n) m') \<and>
    length m' = length m \<and> take (op + n) m' = take op m @ repeat_from off n out"
proof (cases "in_mode E = usingExtDict \<and> op < low_prefix E + off")
  case True
  then show ?thesis
    using dict_match_correct [OF h _ off(2), of n ip] off(2) room holds_length [OF h] by (auto simp: fast_copy_def)
next
  case inside: False
  note in_out = holds_inside [OF E h off inside]
  let ?copy = "if off < 16 then LZ4_memcpy_using_offset op (op + n) off m
    else LZ4_wildCopy32 None op (op - off) (op + n) m"
  have "\<exists>m' hi. ?copy = Inr m' \<and> rep (op - off) off m hi m' \<and> op + n \<le> hi"
  proof (cases "off < 16")
    case True
    then show ?thesis
      using rep_memcpy_using_offset [of off op m "op + n"] off in_out(1) room by fastforce
  next
    case False
    have "op - off + off = op" "op - (op - off) = off" "op - off + 16 \<le> op"
      using in_out(1) False by arith+
    then show ?thesis
      using False rep_wildCopy32 [of "op - off" off m op m "op - off" "op + n"] rep_start [of "op - off" off m]
        room by (fastforce simp del: diff_add_assoc2)
  qed
  then obtain m' hi where m': "?copy = Inr m'" "rep (op - off) off m hi m'" "op + n \<le> hi" by blast
  have check: "\<not> (checkOffset E \<and> op + length (in_dict E) < low_prefix E + off)" "\<not> op < off"
    using holds_length [OF h] off(2) in_out(1) by auto
  have "fast_copy E ip op off n m = Inr (FastNext ip (op + n) m')"
    unfolding fast_copy_def if_not_P [OF check(1)] if_not_P [OF inside] if_not_P [OF check(2)] m'(1) bindR_Inr ..
  moreover have "length m' = length m" using m'(2) by (simp add: rep_def)
  ultimately show ?thesis
    using rep_take [OF m'(2) off(1) in_out(1) m'(3)] in_out(2) room by simp
qed

lemma fast_end_correct:
  assumes E: "full_args E" and h: "holds E low out op m" and off: "0 < off" "off \<le> length out"
    and n: "4 \<le> n" "op + 8 \<le> length m" "op + n + 5 \<le> length m"
  shows "\<exists>r. (if length m \<le> op + n + FASTLOOP_SAFE_DISTANCE then Inr (SafeMatch ip op off n m)
      else fast_copy E ip op off n m) = Inr r \<and>
    done_to E low (length m) r ip (op + n) (out @ repeat_from off n out)"
proof -
  have held: "holds E low (out @ repeat_from off n out) (op + n) m'"
    if "length m' = length m" "take (op + n) m' = take op m @ repeat_from off n out" for m'
    using holds_append [OF h, of "repeat_from off n out" m'] that n(3) by simp
  show ?thesis
  proof (cases "length m \<le> op + n + FASTLOOP_SAFE_DISTANCE")
    case True
    then show ?thesis
      using match_copy_correct [OF E h off n(2,1,3), of ip] held by (auto simp: done_to_def)
  next
    case False
    then show ?thesis
      using fast_copy_correct [OF E h off _ n(1), of ip] held
      by (auto simp: done_to_def FASTLOOP_SAFE_DISTANCE_def)
  qed
qed

lemma offset_read:
  assumes "src = pre @ le16_bytes off @ post" "off < 65536"
  shows "LZ4_readLE16 src (length pre) = Inr off"
proof -
  have "rd src (length pre) 2 = Inr (le16_bytes off)"
    using assms(1) by (simp add: rd_def view_def)
  then show ?thesis using assms(2) by (simp add: LZ4_readLE16_def le16_le16_bytes)
qed

lemma fast_match_correct:
  assumes E: "full_args E" and h: "holds E low out op m"
    and src: "in_src E = pre @ le16_bytes off @ len_ext (n - 4) @ rest" "6 \<le> length rest" "n < 2 ^ 32"
    and off: "0 < off" "off \<le> length out" "off < 65536" and n: "4 \<le> n"
    and room: "op + 32 \<le> length m" "op + n + 5 \<le> length m"
  shows "\<exists>r. fast_match E (min (n - 4) 15) (FastNext (length pre) op m) = Inr r \<and>
    done_to E low (length m) r (length (pre @ le16_bytes off @ len_ext (n - 4))) (op + n)
      (out @ repeat_from off n out)"
proof -
  let ?pre = "pre @ le16_bytes off"
  have o: "LZ4_readLE16 (in_src E) (length pre) = Inr off" by (rule offset_read [OF src(1) off(3)])
  have ml: "match_length E (length pre + 2) (min (n - 4) 15) = Inr (length (?pre @ len_ext (n - 4)), Some n)"
    using match_length_correct [of E ?pre "n - 4" rest] src n by simp
  define far where "far \<longleftrightarrow> checkOffset E \<and> op + length (in_dict E) < low_prefix E + off"
  then have check: "\<not> far" using holds_length [OF h] off(2) by simp
  note fin = fast_end_correct [OF E h off(1,2) n _ room(2)]
  show ?thesis
  proof (cases "n - 4 < 15")
    case False
    then have e: "min (n - 4) 15 = 15" by simp
    show ?thesis
      using o ml fin [of "Suc (Suc (length pre + length (len_ext (n - 4))))"] room(1) check unfolding e
      by (simp add: fast_match_def Let_def far_def [symmetric])
  next
    case short: True
    then have e: "len_ext (n - 4) = []" "min (n - 4) 15 = n - 4" "n - 4 + 4 = n" "n - 4 \<noteq> ML_MASK"
      using n by (simp_all add: len_ext_def)
    show ?thesis
    proof (cases "length m \<le> op + n + FASTLOOP_SAFE_DISTANCE \<or> off < 8 \<or>
        \<not> (in_mode E = withPrefix64k \<or> low_prefix E + off \<le> op)")
      case True
      then show ?thesis
        using o e(3,4) fin [of "Suc (Suc (length pre))"] room(1) unfolding e(1,2)
        by (auto simp: fast_match_def Let_def)
    next
      case False
      then have inside: "\<not> (in_mode E = usingExtDict \<and> op < low_prefix E + off)" by auto
      note in_out = holds_inside [OF E h off(1,2) inside]
      obtain m1 m2 m3 where m: "LZ4_memcpy None op (op - off) 8 m = Inr m1"
        "LZ4_memcpy None (op + 8) (op - off + 8) 8 m1 = Inr m2"
        "LZ4_memcpy None (op + 16) (op - off + 16) 2 m2 = Inr m3"
        "rep (op - off) off m (op + 18) m3"
        using shortcut_copies [of off op m] False in_out(1) room(1) by auto
      have tk: "take (op + n) m3 = take op m @ repeat_from off n out"
        using rep_take [OF m(4) off(1) in_out(1), of n] short n room in_out(2) by simp
      have len: "length m3 = length m" using m(4) by (simp add: rep_def)
      have "holds E low (out @ repeat_from off n out) (op + n) m3"
        using holds_append [OF h, of "repeat_from off n out" m3] tk len room(2) by simp
      moreover have "fast_match E (n - 4) (FastNext (length pre) op m) =
          Inr (FastNext (length ?pre) (op + n) m3)"
        using o e(3,4) m(1-3) False in_out(1) by (simp add: fast_match_def Let_def)
      ultimately show ?thesis using len unfolding e by (simp add: done_to_def)
    qed
  qed
qed

text \<open>Literals that are not the last ones, behind their length.\<close>

lemma literals_copied:
  assumes "holds E low out op m" "in_src E = pre @ l @ rest" "8 \<le> length rest" "op + length l + 12 \<le> length m"
  shows "\<exists>m'. copy_literals E (length pre) op (length l) m = Inr (Next (length (pre @ l)) (op + length l) m') \<and>
    length m' = length m \<and> holds E low (out @ l) (op + length l) m'"
proof -
  have "view (length pre) (length l) (in_src E) = l" "length pre + length l + 8 \<le> length (in_src E)"
    using assms(2,3) by (simp_all add: view_def)
  then obtain m' where m': "LZ4_wildCopy8 (Some (in_src E)) op (length pre) (op + length l) m = Inr m'"
    "length m' = length m" "take (op + length l) m' = take op m @ l"
    using wildCopy8_from [of "length pre" "op + length l" op "in_src E" m] assms(4) by auto
  moreover have "holds E low (out @ l) (op + length l) m'"
    using m'(2,3) assms(4) by (intro holds_append [OF assms(1)]) simp_all
  ultimately show ?thesis
    using assms(2-4) by (auto simp: copy_literals_def Let_def)
qed

lemma fast_literals_correct:
  assumes h: "holds E low out op m"
    and src: "in_src E = pre @ len_ext (length l) @ l @ rest" "8 \<le> length rest" "length l < 2 ^ 32"
    and room: "op + 64 \<le> length m" "op + length l + 12 \<le> length m"
  shows "(\<exists>m'. fast_literals E (length pre) op (min (length l) 15) code m =
        Inr (FastNext (length (pre @ len_ext (length l) @ l)) (op + length l) m') \<and>
      length m' = length m \<and> holds E low (out @ l) (op + length l) m' \<and> op + length l + 32 \<le> length m) \<or>
    fast_literals E (length pre) op (min (length l) 15) code m =
      Inr (SafeLiterals (length (pre @ len_ext (length l))) op (length l) code m)"
proof -
  have held: "holds E low (out @ l) (op + length l) m'"
    if "length m' = length m" "take (op + length l) m' = take op m @ l" for m'
    using that room(2) by (intro holds_append [OF h]) simp_all
  show ?thesis
  proof (cases "length l < 15")
    case True
    then have e: "len_ext (length l) = []" "min (length l) 15 = length l" "length l \<noteq> RUN_MASK"
      by (simp_all add: len_ext_def)
    have v: "view (length pre) (length l) (in_src E) = l" unfolding src(1) e by (simp add: view_def)
    show ?thesis
    proof (cases "length (in_src E) < length pre + (16 + 1)")
      case False
      let ?m = "put_at op (view (length pre) 16 (in_src E)) m"
      have "take (op + length l) ?m = take op m @ l"
        using False take_put_view [of op 16 m "length l" "length pre" "in_src E"] True v room by simp
      moreover have "length ?m = length m" using False room by simp
      ultimately show ?thesis
        using False e(3) True room held [of ?m] unfolding e by (simp add: fast_literals_def Let_def memcpy_from)
    qed (use e(3) in \<open>simp add: fast_literals_def Let_def e(1,2)\<close>)
  next
    case False
    then have e: "min (length l) 15 = RUN_MASK" by simp
    let ?i = "length (pre @ len_ext (length l))"
    have ll: "literal_length E (length pre) RUN_MASK = Inr (?i, Some (length l))"
      using literal_length_correct [of E pre "length l" "l @ rest"] src(1,3) e by simp
    have v: "view ?i (length l) (in_src E) = l" unfolding src(1) by (simp add: view_def)
    show ?thesis
    proof (cases "length m < op + length l + 32 \<or> length (in_src E) < ?i + length l + 32")
      case True
      then show ?thesis
        using ll unfolding e by (simp add: fast_literals_def Let_def del: lz4_constants)
    next
      case False
      then obtain m1 where "LZ4_wildCopy32 (Some (in_src E)) op ?i (op + length l) m = Inr m1"
        "length m1 = length m" "take (op + length l) m1 = take op m @ l"
        using wildCopy32_from [of ?i "op + length l" op "in_src E" m] v room by auto
      then show ?thesis
        using ll False held [of m1] unfolding e by (simp add: fast_literals_def Let_def add.assoc del: lz4_constants)
    qed
  qed
qed

lemma fast_sequence_correct:
  assumes E: "full_args E" and src: "in_src E = pre @ encode_seq (Sequence l off n) @ rest"
    and rest: "6 \<le> length rest"
    and room: "op + 64 \<le> length m" "op + length l + 12 \<le> length m" "op + length l + n + 5 \<le> length m"
    and valid: "0 < off" "off < 65536" "off \<le> length out + length l" "4 \<le> n"
    and small: "length l < 2 ^ 32" "n < 2 ^ 32" and out: "holds E low out op m"
  shows "\<exists>r. fast_step E (length pre) op m = Inr r \<and>
    done_to E low (length m) r (length (pre @ encode_seq (Sequence l off n))) (op + length l + n)
      (out @ l @ repeat_from off n (out @ l))"
proof -
  let ?src = "in_src E" and ?c = "n - 4" and ?t = "token (length l) (n - 4)"
  let ?pre = "pre @ [?t]" and ?lit = "pre @ ?t # len_ext (length l) @ l"
  have src1: "?src = ?pre @ len_ext (length l) @ l @ le16_bytes off @ len_ext ?c @ rest"
    and src2: "?src = ?lit @ le16_bytes off @ len_ext ?c @ rest"
    and src3: "?src = (?pre @ len_ext (length l)) @ l @ le16_bytes off @ len_ext ?c @ rest"
    and src4: "?src = (?lit @ le16_bytes off) @ len_ext ?c @ rest"
    using src by simp_all
  have tok: "rd ?src (length pre) 1 = Inr [?t]" unfolding src1 by (simp add: rd_def view_def)
  have parts: "unat ?t div 2 ^ ML_BITS = min (length l) 15" "unat ?t mod 2 ^ ML_BITS = min ?c 15"
    using token_parts [of "length l" ?c] by (simp_all add: ML_BITS_def)
  have step: "fast_step E (length pre) op m =
      bindR (fast_literals E (length ?pre) op (min (length l) 15) (min ?c 15) m) (fast_match E (min ?c 15))"
    using tok parts by (simp add: fast_step_def Let_def)
  have r8: "8 \<le> length (le16_bytes off @ len_ext ?c @ rest)" using rest by simp
  have off: "off \<le> length (out @ l)" using valid(3) by simp
  from fast_literals_correct [OF out src1 r8 small(1) room(1,2), of "min ?c 15"]
  show ?thesis
  proof (elim disjE exE conjE)
    fix m1 assume lits: "fast_literals E (length ?pre) op (min (length l) 15) (min ?c 15) m =
        Inr (FastNext (length (?pre @ len_ext (length l) @ l)) (op + length l) m1)"
      "length m1 = length m" "holds E low (out @ l) (op + length l) m1" "op + length l + 32 \<le> length m"
    have "length (?pre @ len_ext (length l) @ l) = length ?lit" by simp
    with lits(1) step show ?thesis
      using fast_match_correct [OF E lits(3) src2 rest small(2) valid(1) off valid(2,4)] lits(2,4) room(3)
      by (simp add: add.assoc)
  next
    assume lits: "fast_literals E (length ?pre) op (min (length l) 15) (min ?c 15) m =
        Inr (SafeLiterals (length (?pre @ len_ext (length l))) op (length l) (min ?c 15) m)"
    obtain m1 where m1: "copy_literals E (length (?pre @ len_ext (length l))) op (length l) m =
        Inr (Next (length ((?pre @ len_ext (length l)) @ l)) (op + length l) m1)"
      "length m1 = length m" "holds E low (out @ l) (op + length l) m1"
      using literals_copied [OF out src3 r8 room(2)] by blast
    obtain m2 where "copy_match E (length ?lit + 2) (op + length l) off (min ?c 15) m1 =
        Inr (Next (length (?lit @ le16_bytes off @ len_ext ?c)) (op + length l + n) m2)"
      "length m2 = length m" "holds E low ((out @ l) @ repeat_from off n (out @ l)) (op + length l + n) m2"
      using copy_match_correct [OF E m1(3) src4 rest small(2) valid(4,1) off] room m1(2) by auto
    moreover have "length ((?pre @ len_ext (length l)) @ l) = length ?lit" by simp
    ultimately show ?thesis
      using step lits m1 offset_read [OF src2 valid(2)]
      by (simp add: fast_match_def done_to_def decode_match_def add.assoc)
  qed
qed

text \<open>The last literals always go to the safe loop.\<close>

lemma fast_last_correct:
  assumes E: "full_args E" and src: "in_src E = pre @ encode_last l" and room: "op + length l \<le> length m"
    and small: "length l < 2 ^ 32" and out: "holds E low out op m"
  shows "\<exists>r m'. fast_step E (length pre) op m = Inr r \<and>
    (\<forall>i p m. r \<noteq> FastNext i p m) \<and> resume E r = Inr (Stop (op + length l) m') \<and>
    length m' = length m \<and> holds E low (out @ l) (op + length l) m'"
proof -
  let ?src = "in_src E" and ?t = "token (length l) 0"
  let ?pre = "pre @ [?t]"
  let ?i = "length (?pre @ len_ext (length l))"
  have src': "?src = ?pre @ len_ext (length l) @ l" using src by (simp add: encode_last_def)
  have tok: "rd ?src (length pre) 1 = Inr [?t]" unfolding src' by (simp add: rd_def view_def)
  have parts: "unat ?t div 2 ^ ML_BITS = min (length l) 15"
    using token_parts [of "length l" 0] by (simp add: ML_BITS_def)
  have ll: "literal_length E (length ?pre) (min (length l) 15) = Inr (?i, Some (length l))"
    using literal_length_correct [of E ?pre "length l" l] src' small by simp
  have iend: "?i + length l = length ?src" "view ?i (length l) ?src = l"
    unfolding src' by (simp_all add: view_def)
  have part: "\<not> in_partial E" using E by (simp add: full_args_def)
  have "fast_literals E (length ?pre) op (min (length l) 15) code m =
      Inr (SafeLiterals ?i op (length l) code m)" for code
  proof (cases "length l < 15")
    case True
    then have "len_ext (length l) = []" by (simp add: len_ext_def)
    then show ?thesis using True iend(1) by (simp add: fast_literals_def Let_def)
  next
    case False
    then have e: "min (length l) 15 = RUN_MASK" by simp
    show ?thesis
      using ll iend(1) unfolding e by (simp add: fast_literals_def Let_def del: lz4_constants)
  qed
  then have "fast_step E (length pre) op m =
      Inr (SafeLiterals ?i op (length l) (unat ?t mod 2 ^ ML_BITS) m)"
    using tok parts by (simp add: fast_step_def Let_def fast_match_def)
  moreover have "copy_literals E ?i op (length l) m = Inr (Stop (op + length l) (put_at op l m))"
    using memcpy_from [of ?i "length l" ?src op m] iend room part by (simp add: copy_literals_def Let_def)
  moreover have "holds E low (out @ l) (op + length l) (put_at op l m)"
    using take_put_at_all [of op l m] room by (intro holds_append [OF out]) simp_all
  ultimately show ?thesis
    using room by (simp add: decode_match_def)
qed

section \<open>Blocks\<close>

lemma fast_loop_correct:
  assumes E: "full_args E"
  shows "in_src E = pre @ encode_block seqs fin \<Longrightarrow> out' = expand out seqs fin \<Longrightarrow>
    valid_from (length out) (length out') seqs \<Longrightarrow> length out' + op \<le> length out + length m \<Longrightarrow>
    length out' < 2 ^ 32 \<Longrightarrow> holds E low out op m \<Longrightarrow> op + 64 \<le> length m \<Longrightarrow> args_ok E op \<Longrightarrow>
    \<exists>m' op'. fast_loop E (length pre) op m = Inr (Stop op' m') \<and> op' + length out = op + length out' \<and>
      length m' = length m \<and> holds E low out' op' m'"
proof (induction seqs arbitrary: pre out op m)
  case Nil
  then have last: "in_src E = pre @ encode_last fin" "op + length fin \<le> length m" "length fin < 2 ^ 32"
    by (simp_all add: encode_block_def)
  from fast_last_correct [OF E last Nil.prems(6)] obtain r m' where
    "fast_step E (length pre) op m = Inr r" "\<forall>i p m. r \<noteq> FastNext i p m"
    "resume E r = Inr (Stop (op + length fin) m')"
    "length m' = length m" "holds E low (out @ fin) (op + length fin) m'" by blast
  then show ?case
    using Nil.prems(2) by (cases r) (auto simp: fast_loop_resume safe_rest_def)
next
  case (Cons s r)
  obtain l off n where s: "s = Sequence l off n" by (cases s)
  let ?rest = "encode_block r fin" and ?out = "out @ l @ repeat_from off n (out @ l)"
  let ?pre = "pre @ encode_seq (Sequence l off n)" and ?op = "op + length l + n"
  have src: "in_src E = pre @ encode_seq (Sequence l off n) @ ?rest"
    using Cons.prems(1) s by (simp add: encode_block_def)
  then have src1: "in_src E = ?pre @ ?rest" by simp
  have valid: "0 < off" "off < 65536" "off \<le> length out + length l" "4 \<le> n"
    "length out + length l + 12 \<le> length out'" "length out + length l + n + 5 \<le> length out'"
    "valid_from (length ?out) (length out') r"
    using Cons.prems(3) s by (simp_all add: add.assoc)
  have out': "out' = expand ?out r fin" using Cons.prems(2) s by simp
  have "5 \<le> length fin"
    using valid_last [of out "s # r" fin] Cons.prems(2,3) by simp
  then have rest: "6 \<le> length ?rest" by (simp add: encode_block_def encode_last_def)
  obtain x where x: "fast_step E (length pre) op m = Inr x" "done_to E low (length m) x (length ?pre) ?op ?out"
    using fast_sequence_correct [OF E src rest, of op m out] valid Cons.prems(4-7) by auto
  from x(2) obtain m1 where m1: "resume E x = Inr (Next (length ?pre) ?op m1)"
    "length m1 = length m" "holds E low ?out ?op m1" by (auto simp: done_to_def)
  have room1: "length out' + ?op \<le> length ?out + length m1" using Cons.prems(4) m1(2) by simp
  have args: "args_ok E ?op" using Cons.prems(8) by (rule args_ok_mono) simp
  show ?case
  proof (cases "\<exists>i p m2. x = FastNext i p m2")
    case True
    then have fast: "x = FastNext (length ?pre) ?op m1" using m1(1) by auto
    have "returnsR (fast_safe E op (length m)) (fast_step E (length pre) op m)"
      using src Cons.prems(7,8) by (intro fast_step_safe) simp_all
    then have "?op + 64 \<le> length m1" using x(1) m1(2) fast by simp
    from Cons.IH [OF src1 out' valid(7) room1 Cons.prems(5) m1(3) this args] show ?thesis
      using x(1) fast m1(2) by (auto simp: fast_loop_resume)
  next
    case False
    from dec_loop_correct [OF E src1 out' valid(7) room1 Cons.prems(5) m1(3)] show ?thesis
      using x(1) False m1(1,2) by (cases x) (auto simp: fast_loop_resume safe_rest_def)
  qed
qed

text \<open>
  The decoder on a block that is valid behind the history \<open>hist\<close> it is given: the output is the
  history and what the block stands for.
\<close>

lemma decode_block_correct:
  assumes "full_args E" "args_ok E op" "in_src E = encode_block seqs fin" "holds E low hist op m"
    "valid_from (length hist) (length out) seqs" "out = expand hist seqs fin"
    "length out + op \<le> length hist + length m" "length out < 2 ^ 32"
  shows "\<exists>m' op'. decode_block E op m = Inr (Stop op' m') \<and> op' + length hist = op + length out \<and>
    length m' = length m \<and> holds E low out op' m'"
  using fast_loop_correct [OF assms(1), of "[]" seqs fin out hist op m]
    dec_loop_correct [OF assms(1), of "[]" seqs fin out hist op m] assms(2-)
  by (auto simp: decode_block_def FASTLOOP_SAFE_DISTANCE_def)

lemma expand_self_empty:
  assumes "expand hist seqs fin = hist" "valid_from (length hist) (length hist) seqs"
  shows "seqs = [] \<and> fin = []"
proof (cases seqs)
  case (Cons s r)
  obtain l off n where "s = Sequence l off n" by (cases s)
  then show ?thesis using assms(2) Cons by simp
qed (use assms in simp)

lemma decompress_generic_correct:
  assumes "full_args E" "args_ok E op" "in_src E = encode_block seqs fin" "holds E low hist op m"
    "valid_from (length hist) (length (hist @ src)) seqs" "hist @ src = expand hist seqs fin"
    "op + length src \<le> length m" "length hist + length src < 2 ^ 32"
  shows "\<exists>m'. LZ4_decompress_generic E op m = Inr (int (length src), m') \<and>
    length m' = length m \<and> holds E low (hist @ src) (op + length src) m'"
proof (cases "length m = op")
  case True
  then have "src = []" using assms(7) by simp
  then have e: "seqs = []" "fin = []"
    using expand_self_empty [of hist seqs fin] assms(5,6) by auto
  then have "in_src E = [0]" "\<not> in_partial E"
    using assms(1,3) by (simp_all add: encode_block_def encode_last_def token_def len_ext_def full_args_def)
  then show ?thesis using True \<open>src = []\<close> assms(4) by (simp add: LZ4_decompress_generic_def)
next
  case False
  have "in_src E \<noteq> []" using assms(3) by (simp add: encode_block_def encode_last_def)
  moreover obtain m' op' where "decode_block E op m = Inr (Stop op' m')"
    "op' + length hist = op + length (hist @ src)" "length m' = length m" "holds E low (hist @ src) op' m'"
    using decode_block_correct [OF assms(1-5) assms(6)] assms(7,8) by auto
  ultimately show ?thesis using False by (simp add: LZ4_decompress_generic_def)
qed

text \<open>The contract of the decoder on valid blocks, whatever the destination holds before.\<close>

lemma decompress_safe_correct:
  assumes "valid_from 0 (length out) seqs" "out = expand [] seqs fin" "length out \<le> length m"
    "length out < 2 ^ 32"
  shows "\<exists>m'. LZ4_decompress_safe fl (encode_block seqs fin) m = Inr (int (length out), m') \<and>
    length m' = length m \<and> take (length out) m' = out"
proof -
  let ?E = "\<lparr>in_src = encode_block seqs fin, in_dict = [], in_mode = noDict, in_partial = False,
    low_prefix = 0, in_fast = fl\<rparr>"
  have "\<exists>m'. LZ4_decompress_generic ?E 0 m = Inr (int (length out), m') \<and>
      length m' = length m \<and> holds ?E [] ([] @ out) (0 + length out) m'"
    using assms by (intro decompress_generic_correct) (auto simp: full_args_def args_ok_def holds_def)
  then show ?thesis by (auto simp: LZ4_decompress_safe_def holds_def)
qed

end
