(* ===== verification/Lz4Compress.thy ===== *)
theory Lz4Compress
  imports Lz4Mem
begin

text \<open>
  The block compressor of \<open>external/lz4/lz4.c\<close>: \<open>LZ4_compress_generic\<close> without an external dictionary,
  with unlimited or limited output, and its callers up to \<open>LZ4_compress_default\<close>. The positions \<open>ip\<close>,
  \<open>match\<close> and \<open>anchor\<close> count from \<open>base\<close>, as the indices of the hash table do, \<open>op\<close> and \<open>token\<close> from
  \<open>dest\<close>; the destination is a byte list of the capacity given. Pointers have 64 bits, so the table
  holds indices of 16 or 32 bits.
\<close>

datatype tableType_t = clearedTable | byPtr | byU32 | byU16

datatype limitedOutput_directive = notLimited | limitedOutput | fillOutput

datatype dictIssue_directive = noDictIssue | dictSmall

section \<open>Hash table\<close>

definition LZ4_HASHLOG :: nat where "LZ4_HASHLOG = 14 - 2"

definition LZ4_hash4 :: "u32 \<Rightarrow> tableType_t \<Rightarrow> nat" where
  "LZ4_hash4 v tt =
     unat (drop_bit (MINMATCH * 8 - (if tt = byU16 then LZ4_HASHLOG + 1 else LZ4_HASHLOG)) (v * 2654435761))"

definition LZ4_hash5 :: "u64 \<Rightarrow> tableType_t \<Rightarrow> nat" where
  "LZ4_hash5 v tt =
     (let hashLog = (if tt = byU16 then LZ4_HASHLOG + 1 else LZ4_HASHLOG)
      in unat (drop_bit (64 - hashLog) (push_bit 24 v * 889523592379)))"

definition LZ4_hashPosition :: "bytes \<Rightarrow> nat \<Rightarrow> tableType_t \<Rightarrow> nat result" where
  "LZ4_hashPosition src p tt =
     (if tt \<noteq> byU16 then bindR (LZ4_read_ARCH src p) (\<lambda>v. Inr (LZ4_hash5 v tt))
      else bindR (LZ4_read32 src p) (\<lambda>v. Inr (LZ4_hash4 v tt)))"

type_synonym table = "nat \<Rightarrow> nat"

definition LZ4_putIndexOnHash :: "nat \<Rightarrow> nat \<Rightarrow> table \<Rightarrow> tableType_t \<Rightarrow> table" where
  "LZ4_putIndexOnHash idx h t tt =
     (case tt of
        byU32 \<Rightarrow> t(h := idx mod 2 ^ 32)
      | byU16 \<Rightarrow> t(h := idx mod 2 ^ 16)
      | _ \<Rightarrow> t)"

definition LZ4_getIndexOnHash :: "nat \<Rightarrow> table \<Rightarrow> nat" where
  "LZ4_getIndexOnHash h t = t h"

definition LZ4_putPosition :: "bytes \<Rightarrow> nat \<Rightarrow> table \<Rightarrow> tableType_t \<Rightarrow> table result" where
  "LZ4_putPosition src p t tt =
     bindR (LZ4_hashPosition src p tt) (\<lambda>h. Inr (LZ4_putIndexOnHash p h t tt))"

section \<open>Length of a match\<close>

text \<open>\<open>__builtin_ctzll\<close>.\<close>

definition ctz64 :: "u64 \<Rightarrow> nat" where
  "ctz64 v = length (takeWhile (\<lambda>i. \<not> bit v i) [0..<64])"

definition LZ4_NbCommonBytes :: "u64 \<Rightarrow> nat" where
  "LZ4_NbCommonBytes v = drop_bit 3 (ctz64 v)"

definition LZ4_diff :: "bytes \<Rightarrow> nat \<Rightarrow> nat \<Rightarrow> u64 result" where
  "LZ4_diff src pIn pMatch =
     bindR (LZ4_read_ARCH src pMatch) (\<lambda>a. bindR (LZ4_read_ARCH src pIn) (\<lambda>b. Inr (a XOR b)))"

text \<open>The last comparisons of \<open>LZ4_count\<close>, of 4, 2 and 1 bytes, and the position they reach.\<close>

definition count_tail :: "bytes \<Rightarrow> nat \<Rightarrow> nat \<Rightarrow> nat \<Rightarrow> nat result" where
  "count_tail src pIn pMatch pInLimit =
     bindR (if pIn + 3 < pInLimit then
              bindR (LZ4_read32 src pMatch) (\<lambda>a. bindR (LZ4_read32 src pIn) (\<lambda>b. Inr (if a = b then 4 else 0)))
            else Inr 0) (\<lambda>k4.
     bindR (if pIn + k4 + 1 < pInLimit then
              bindR (LZ4_readLE16 src (pMatch + k4)) (\<lambda>a.
              bindR (LZ4_readLE16 src (pIn + k4)) (\<lambda>b. Inr (if a = b then k4 + 2 else k4)))
            else Inr k4) (\<lambda>k2.
     bindR (if pIn + k2 < pInLimit then
              bindR (rd src (pMatch + k2) 1) (\<lambda>a.
              bindR (rd src (pIn + k2) 1) (\<lambda>b. Inr (if a = b then k2 + 1 else k2)))
            else Inr k2) (\<lambda>k1. Inr (pIn + k1))))"

function count_loop :: "bytes \<Rightarrow> nat \<Rightarrow> nat \<Rightarrow> nat \<Rightarrow> nat result" where
  "count_loop src pIn pMatch pInLimit =
     (if pIn + 7 < pInLimit then
        bindR (LZ4_diff src pIn pMatch) (\<lambda>diff.
          if diff = 0 then count_loop src (pIn + 8) (pMatch + 8) pInLimit
          else Inr (pIn + LZ4_NbCommonBytes diff))
      else count_tail src pIn pMatch pInLimit)"
  by pat_completeness auto
termination by (relation "measure (\<lambda>(src, pIn, pMatch, pInLimit). pInLimit - pIn)") auto

declare count_loop.simps [simp del]

definition LZ4_count :: "bytes \<Rightarrow> nat \<Rightarrow> nat \<Rightarrow> nat \<Rightarrow> nat result" where
  "LZ4_count src pIn pMatch pInLimit =
     (if pIn + 7 < pInLimit then
        bindR (LZ4_diff src pIn pMatch) (\<lambda>diff.
          if diff = 0 then
            bindR (count_loop src (pIn + 8) (pMatch + 8) pInLimit) (\<lambda>p. Inr (p - pIn))
          else Inr (LZ4_NbCommonBytes diff))
      else bindR (count_loop src pIn pMatch pInLimit) (\<lambda>p. Inr (p - pIn)))"

section \<open>Search\<close>

text \<open>
  What the functions of the compressor share: the memory from \<open>base\<close> to the end of the input, where
  the input starts in it (\<open>startIndex\<close>), \<open>lowLimit\<close>, \<open>dictIssue\<close> and \<open>prefixIdxLimit\<close>, the kinds of table and
  output, and the acceleration. \<open>mflimitPlusOne\<close> and \<open>matchlimit\<close> are for inputs of at least 13 bytes.
\<close>

record comp_args =
  c_src :: bytes
  c_start :: nat
  c_low :: nat
  c_issue :: dictIssue_directive
  c_limit :: nat
  c_table :: tableType_t
  c_dir :: limitedOutput_directive
  c_acc :: nat

definition mflimitPlusOne :: "comp_args \<Rightarrow> nat" where
  "mflimitPlusOne C = length (c_src C) - MFLIMIT + 1"

definition matchlimit :: "comp_args \<Rightarrow> nat" where
  "matchlimit C = length (c_src C) - LASTLITERALS"

text \<open>
  The loop that looks for a match, one unit of fuel for each position; no match leads to the last
  literals. The result is the position and the match, and the table.
\<close>

fun find_match ::
    "nat \<Rightarrow> comp_args \<Rightarrow> nat \<Rightarrow> nat \<Rightarrow> nat \<Rightarrow> nat \<Rightarrow> table \<Rightarrow> ((nat \<times> nat) option \<times> table) result" where
  "find_match 0 C forwardIp step nb h t = Inl Diverges"
| "find_match (Suc fuel) C forwardIp step nb h t =
     (let current = forwardIp; matchIndex = LZ4_getIndexOnHash h t; ip = forwardIp;
          next = forwardIp + step; step' = drop_bit 6 nb
      in if mflimitPlusOne C < next then Inr (None, t)
         else bindR (LZ4_hashPosition (c_src C) next (c_table C)) (\<lambda>h'.
           let t' = LZ4_putIndexOnHash current h t (c_table C)
           in if c_issue C = dictSmall \<and> matchIndex < c_limit C then
                find_match fuel C next step' (nb + 1) h' t'
              else if c_table C \<noteq> byU16 \<and> matchIndex + LZ4_DISTANCE_MAX < current then
                find_match fuel C next step' (nb + 1) h' t'
              else
                bindR (LZ4_read32 (c_src C) matchIndex) (\<lambda>a.
                bindR (LZ4_read32 (c_src C) ip) (\<lambda>b.
                  if a = b then Inr (Some (ip, matchIndex), t')
                  else find_match fuel C next step' (nb + 1) h' t'))))"

text \<open>The match is extended backwards, down to the anchor and to \<open>lowLimit\<close>.\<close>

fun catch_up :: "bytes \<Rightarrow> nat \<Rightarrow> nat \<Rightarrow> nat \<Rightarrow> nat \<Rightarrow> (nat \<times> nat) result" where
  "catch_up src low anchor ip 0 = Inr (ip, 0)"
| "catch_up src low anchor ip (Suc m) =
     (if anchor < ip \<and> low < Suc m then
        bindR (rd src (ip - 1) 1) (\<lambda>a. bindR (rd src m 1) (\<lambda>b.
          if a = b then catch_up src low anchor (ip - 1) m else Inr (ip, Suc m)))
      else Inr (ip, Suc m))"

section \<open>Output\<close>

text \<open>\<open>for (; len >= 255; len -= 255) *op++ = 255; *op++ = (BYTE) len;\<close>\<close>

function write_length :: "nat \<Rightarrow> nat \<Rightarrow> bytes \<Rightarrow> (nat \<times> bytes) result" where
  "write_length op len m =
     (if 255 \<le> len then bindR (poke op [255] m) (write_length (op + 1) (len - 255))
      else bindR (poke op [of_nat len] m) (\<lambda>m. Inr (op + 1, m)))"
  by pat_completeness auto
termination by (relation "measure (\<lambda>(op, len, m). len)") auto

declare write_length.simps [simp del]

text \<open>Token and length of literals at \<open>op\<close>: the position behind them.\<close>

definition put_literal_length :: "nat \<Rightarrow> nat \<Rightarrow> bytes \<Rightarrow> (nat \<times> bytes) result" where
  "put_literal_length op litLength m =
     (if RUN_MASK \<le> litLength then
        bindR (poke op [of_nat (RUN_MASK * 2 ^ ML_BITS)] m) (write_length (op + 1) (litLength - RUN_MASK))
      else bindR (poke op [of_nat (litLength * 2 ^ ML_BITS)] m) (\<lambda>m. Inr (op + 1, m)))"

text \<open>\<open>None\<close> is the return of 0 when the output does not fit.\<close>

definition encode_literals ::
    "comp_args \<Rightarrow> nat \<Rightarrow> nat \<Rightarrow> nat \<Rightarrow> bytes \<Rightarrow> (nat \<times> bytes) option result" where
  "encode_literals C anchor ip op m =
     (let litLength = ip - anchor
      in if c_dir C = limitedOutput \<and>
            length m < op + 1 + litLength + (2 + 1 + LASTLITERALS) + litLength div 255 then Inr None
         else bindR (put_literal_length op litLength m) (\<lambda>(op, m).
                bindR (LZ4_wildCopy8 (Some (c_src C)) op anchor (op + litLength) m) (\<lambda>m.
                  Inr (Some (op + litLength, m)))))"

function write_match_code :: "nat \<Rightarrow> nat \<Rightarrow> bytes \<Rightarrow> (nat \<times> nat \<times> bytes) result" where
  "write_match_code op matchCode m =
     (if 4 * 255 \<le> matchCode then
        bindR (LZ4_write32 (op + 4) 0xFFFFFFFF m) (write_match_code (op + 4) (matchCode - 4 * 255))
      else Inr (op, matchCode, m))"
  by pat_completeness auto
termination by (relation "measure (\<lambda>(op, matchCode, m). matchCode)") auto

declare write_match_code.simps [simp del]

text \<open>\<open>*token += v\<close>.\<close>

definition add_token :: "nat \<Rightarrow> nat \<Rightarrow> bytes \<Rightarrow> bytes result" where
  "add_token tok v m = bindR (rd m tok 1) (\<lambda>bs. poke tok [bs ! 0 + of_nat v] m)"

definition put_match_length :: "nat \<Rightarrow> nat \<Rightarrow> nat \<Rightarrow> bytes \<Rightarrow> (nat \<times> bytes) result" where
  "put_match_length tok op matchCode m =
     (if ML_MASK \<le> matchCode then
        bindR (add_token tok ML_MASK m) (\<lambda>m.
        bindR (LZ4_write32 op 0xFFFFFFFF m) (\<lambda>m.
        bindR (write_match_code op (matchCode - ML_MASK) m) (\<lambda>(op, matchCode, m).
          let op = op + matchCode div 255
          in bindR (poke op [of_nat (matchCode mod 255)] m) (\<lambda>m. Inr (op + 1, m)))))
      else bindR (add_token tok matchCode m) (\<lambda>m. Inr (op, m)))"

text \<open>Offset and length of the match: the position behind it in the input, \<open>op\<close> and the output.\<close>

definition encode_match ::
    "comp_args \<Rightarrow> nat \<Rightarrow> nat \<Rightarrow> nat \<Rightarrow> nat \<Rightarrow> bytes \<Rightarrow> (nat \<times> nat \<times> bytes) option result" where
  "encode_match C ip mat tok op m =
     bindR (LZ4_writeLE16 op ((ip - mat) mod 2 ^ 16) m) (\<lambda>m.
     let op = op + 2
     in bindR (LZ4_count (c_src C) (ip + MINMATCH) (mat + MINMATCH) (matchlimit C)) (\<lambda>matchCode.
          if c_dir C \<noteq> notLimited \<and>
             length m < op + (1 + LASTLITERALS) + (matchCode + 240) div 255 then Inr None
          else bindR (put_match_length tok op matchCode m) (\<lambda>(op, m).
                 Inr (Some (ip + (matchCode + MINMATCH), op, m)))))"

definition last_literals :: "comp_args \<Rightarrow> nat \<Rightarrow> nat \<Rightarrow> bytes \<Rightarrow> (nat \<times> bytes) result" where
  "last_literals C anchor op m =
     (let lastRun = length (c_src C) - anchor
      in if c_dir C \<noteq> notLimited \<and>
            length m < op + lastRun + 1 + (lastRun + 255 - RUN_MASK) div 255 then Inr (0, m)
         else bindR (put_literal_length op lastRun m) (\<lambda>(op, m).
                bindR (LZ4_memcpy (Some (c_src C)) op anchor lastRun m) (\<lambda>m. Inr (op + lastRun, m))))"

section \<open>The main loop\<close>

text \<open>
  Where the main loop is: at the search for a match from \<open>ip\<close>, at \<open>_next_match\<close> with a match of
  \<open>ip\<close>, at \<open>_last_literals\<close>, or about to return 0.
\<close>

datatype comp_state =
    Searching nat nat nat nat table bytes
  | Matching nat nat nat nat table bytes
  | LastRun nat nat table bytes
  | Full table bytes

definition search_step ::
    "comp_args \<Rightarrow> nat \<Rightarrow> nat \<Rightarrow> nat \<Rightarrow> nat \<Rightarrow> table \<Rightarrow> bytes \<Rightarrow> comp_state result" where
  "search_step C ip forwardH anchor op t m =
     bindR (find_match (length (c_src C)) C ip 1 (c_acc C * 2 ^ 6) forwardH t) (\<lambda>(r, t).
       case r of
         None \<Rightarrow> Inr (LastRun anchor op t m)
       | Some (ip, mat) \<Rightarrow>
           bindR (catch_up (c_src C) (c_low C) anchor ip mat) (\<lambda>(ip, mat).
           bindR (encode_literals C anchor ip op m) (\<lambda>r.
             case r of
               None \<Rightarrow> Inr (Full t m)
             | Some (op', m) \<Rightarrow> Inr (Matching ip mat op op' t m))))"

text \<open>After a match: the end of the chunk, another match right here, or a new search.\<close>

definition test_next :: "comp_args \<Rightarrow> nat \<Rightarrow> nat \<Rightarrow> table \<Rightarrow> bytes \<Rightarrow> comp_state result" where
  "test_next C ip op t m =
     (if mflimitPlusOne C \<le> ip then Inr (LastRun ip op t m)
      else
        bindR (LZ4_putPosition (c_src C) (ip - 2) t (c_table C)) (\<lambda>t.
        bindR (LZ4_hashPosition (c_src C) ip (c_table C)) (\<lambda>h.
          let matchIndex = LZ4_getIndexOnHash h t; t = LZ4_putIndexOnHash ip h t (c_table C)
          in bindR (if (c_issue C = dictSmall \<longrightarrow> c_limit C \<le> matchIndex) \<and>
                         (c_table C = byU16 \<or> ip \<le> matchIndex + LZ4_DISTANCE_MAX) then
                      bindR (LZ4_read32 (c_src C) matchIndex) (\<lambda>a.
                      bindR (LZ4_read32 (c_src C) ip) (\<lambda>b. Inr (a = b)))
                    else Inr False) (\<lambda>again.
               if again then
                 bindR (poke op [0] m) (\<lambda>m. Inr (Matching ip matchIndex op (op + 1) t m))
               else
                 bindR (LZ4_hashPosition (c_src C) (ip + 1) (c_table C)) (\<lambda>h.
                   Inr (Searching (ip + 1) h ip op t m))))))"

definition match_step ::
    "comp_args \<Rightarrow> nat \<Rightarrow> nat \<Rightarrow> nat \<Rightarrow> nat \<Rightarrow> table \<Rightarrow> bytes \<Rightarrow> comp_state result" where
  "match_step C ip mat tok op t m =
     bindR (encode_match C ip mat tok op m) (\<lambda>r.
       case r of
         None \<Rightarrow> Inr (Full t m)
       | Some (ip, op, m) \<Rightarrow> test_next C ip op t m)"

text \<open>
  The \<open>for\<close> loop with its gotos, one unit of fuel for each search and each match. The result is the
  size of the output or 0, the table and the output.
\<close>

fun compress_loop :: "nat \<Rightarrow> comp_args \<Rightarrow> comp_state \<Rightarrow> (nat \<times> table \<times> bytes) result" where
  "compress_loop 0 C s = Inl Diverges"
| "compress_loop (Suc fuel) C s =
     (case s of
        Searching ip h anchor op t m \<Rightarrow>
          bindR (search_step C ip h anchor op t m) (compress_loop fuel C)
      | Matching ip mat tok op t m \<Rightarrow>
          bindR (match_step C ip mat tok op t m) (compress_loop fuel C)
      | LastRun anchor op t m \<Rightarrow> bindR (last_literals C anchor op m) (\<lambda>(k, m). Inr (k, t, m))
      | Full t m \<Rightarrow> Inr (0, t, m))"

section \<open>Streams\<close>

text \<open>
  \<open>LZ4_stream_t_internal\<close>, without \<open>dictCtx\<close>, which is null when no dictionary is attached, and without
  \<open>dictionary\<close>: a dictionary that is not empty ends where the next input starts.
\<close>

record LZ4_stream =
  st_hashTable :: table
  st_currentOffset :: nat
  st_tableType :: tableType_t
  st_dictSize :: nat

definition LZ4_initStream :: LZ4_stream where
  "LZ4_initStream = \<lparr>st_hashTable = (\<lambda>_. 0), st_currentOffset = 0, st_tableType = clearedTable, st_dictSize = 0\<rparr>"

text \<open>The memory from \<open>base\<close> to the source, where \<open>pre\<close> is what lies in front of the source.\<close>

definition from_base :: "nat \<Rightarrow> bytes \<Rightarrow> bytes" where
  "from_base n pre = replicate (n - length pre) 0 @ drop (length pre - n) pre"

definition compress_args ::
    "LZ4_stream \<Rightarrow> bytes \<Rightarrow> bytes \<Rightarrow> limitedOutput_directive \<Rightarrow> tableType_t \<Rightarrow> dict_directive \<Rightarrow>
     dictIssue_directive \<Rightarrow> nat \<Rightarrow> comp_args" where
  "compress_args st pre src dir tt dd di acc =
     \<lparr>c_src = from_base (st_currentOffset st) pre @ src, c_start = st_currentOffset st,
      c_low = st_currentOffset st - (if dd = withPrefix64k then st_dictSize st else 0),
      c_issue = di, c_limit = st_currentOffset st - st_dictSize st,
      c_table = tt, c_dir = dir, c_acc = acc\<rparr>"

definition input_size :: "comp_args \<Rightarrow> nat" where
  "input_size C = length (c_src C) - c_start C"

definition LZ4_64Klimit :: nat where
  "LZ4_64Klimit = 64 * 1024 + (MFLIMIT - 1)"

text \<open>
  Every search and every match takes at least one unit of fuel; two units for each byte of the
  memory and three more are enough.
\<close>

definition LZ4_compress_generic_validated ::
    "LZ4_stream \<Rightarrow> comp_args \<Rightarrow> bytes \<Rightarrow> (nat \<times> LZ4_stream \<times> bytes) result" where
  "LZ4_compress_generic_validated st C m =
     (if c_table C = byU16 \<and> LZ4_64Klimit \<le> input_size C then Inr (0, st, m)
      else
        let p = c_start C;
            st = st\<lparr>st_dictSize := st_dictSize st + input_size C,
                    st_currentOffset := st_currentOffset st + input_size C, st_tableType := c_table C\<rparr>
        in if input_size C < LZ4_minLength then
             bindR (last_literals C p 0 m) (\<lambda>(k, m). Inr (k, st, m))
           else
             bindR (LZ4_putPosition (c_src C) p (st_hashTable st) (c_table C)) (\<lambda>t.
             bindR (LZ4_hashPosition (c_src C) (p + 1) (c_table C)) (\<lambda>forwardH.
             bindR (compress_loop (2 * length (c_src C) + 3) C (Searching (p + 1) forwardH p 0 t m)) (\<lambda>(k, t, m).
               Inr (k, st\<lparr>st_hashTable := t\<rparr>, m)))))"

definition LZ4_compress_generic ::
    "LZ4_stream \<Rightarrow> comp_args \<Rightarrow> bytes \<Rightarrow> (nat \<times> LZ4_stream \<times> bytes) result" where
  "LZ4_compress_generic st C m =
     (if LZ4_MAX_INPUT_SIZE < input_size C then Inr (0, st, m)
      else if input_size C = 0 then
        (if c_dir C \<noteq> notLimited \<and> m = [] then Inr (0, st, m)
         else bindR (poke 0 [0] m) (\<lambda>m. Inr (1, st, m)))
      else LZ4_compress_generic_validated st C m)"

text \<open>\<open>LZ4_COMPRESSBOUND\<close> is 0 for sizes that are too large.\<close>

definition LZ4_COMPRESSBOUND :: "nat \<Rightarrow> nat" where
  "LZ4_COMPRESSBOUND n = (if LZ4_MAX_INPUT_SIZE < n then 0 else n + n div 255 + 16)"

definition LZ4_ACCELERATION_DEFAULT :: nat where "LZ4_ACCELERATION_DEFAULT = 1"
definition LZ4_ACCELERATION_MAX :: nat where "LZ4_ACCELERATION_MAX = 65537"

definition clamp_acceleration :: "int \<Rightarrow> nat" where
  "clamp_acceleration acceleration =
     (let acc = (if acceleration < 1 then LZ4_ACCELERATION_DEFAULT else nat acceleration)
      in min acc LZ4_ACCELERATION_MAX)"

definition LZ4_compress_fast_extState :: "bytes \<Rightarrow> int \<Rightarrow> bytes \<Rightarrow> (nat \<times> LZ4_stream \<times> bytes) result" where
  "LZ4_compress_fast_extState src acceleration m =
     (let ctx = LZ4_initStream;
          acc = clamp_acceleration acceleration;
          tt = (if length src < LZ4_64Klimit then byU16 else byU32)
      in if LZ4_COMPRESSBOUND (length src) \<le> length m then
           LZ4_compress_generic ctx (compress_args ctx [] src notLimited tt noDict noDictIssue acc) m
         else LZ4_compress_generic ctx (compress_args ctx [] src limitedOutput tt noDict noDictIssue acc) m)"

text \<open>The state is on the stack, or on the heap where \<open>LZ4_HEAPMODE\<close> asks for it.\<close>

definition LZ4_compress_fast :: "bytes \<Rightarrow> int \<Rightarrow> bytes \<Rightarrow> (nat \<times> bytes) result" where
  "LZ4_compress_fast src acceleration m =
     bindR (LZ4_compress_fast_extState src acceleration m) (\<lambda>(k, ctx, m). Inr (k, m))"

definition LZ4_compress_default :: "bytes \<Rightarrow> bytes \<Rightarrow> (nat \<times> bytes) result" where
  "LZ4_compress_default src m = LZ4_compress_fast src 1 m"

end
