(* ===== verification/Lz4Count.thy ===== *)
theory Lz4Count
  imports Lz4Compress
begin

text \<open>
  \<open>LZ4_count\<close>, which compares words of 8, 4 and 2 bytes and counts the bytes of the first unequal
  word by its trailing zeros, computes the length of the longest common prefix.
\<close>

fun common :: "bytes \<Rightarrow> bytes \<Rightarrow> nat" where
  "common (x # xs) (y # ys) = (if x = y then Suc (common xs ys) else 0)"
| "common _ _ = 0"

lemma common_append:
  "length us = length vs \<Longrightarrow>
    common (us @ xs) (vs @ ys) = (if us = vs then length us + common xs ys else common us vs)"
  by (induction us vs rule: list_induct2) auto

lemma common_le: "common us vs \<le> length us" "common us vs \<le> length vs"
  by (induction us vs rule: common.induct) auto

lemma common_Nil [simp]: "common us [] = 0" "common [] vs = 0"
  by (cases us) auto

lemma common_eqI:
  "k < length us \<Longrightarrow> k < length vs \<Longrightarrow> (\<And>i. i < k \<Longrightarrow> us ! i = vs ! i) \<Longrightarrow> us ! k \<noteq> vs ! k \<Longrightarrow>
    common us vs = k"
proof (induction us vs arbitrary: k rule: common.induct)
  case (1 x xs y ys)
  show ?case
  proof (cases k)
    case 0
    then show ?thesis using 1 by simp
  next
    case (Suc j)
    have eq: "xs ! i = ys ! i" if "i < j" for i
      using 1(4) [of "Suc i"] that Suc by simp
    have "x = y" using 1(4) [of 0] Suc by simp
    moreover from this have "common xs ys = j"
      using 1(2,3,5) eq Suc by (intro 1(1)) simp_all
    ultimately show ?thesis using Suc by simp
  qed
qed simp_all

lemma common_nth: "i < common us vs \<Longrightarrow> us ! i = vs ! i"
proof (induction us vs arbitrary: i rule: common.induct)
  case (1 x xs y ys)
  then show ?case by (cases i) (auto split: if_splits)
qed simp_all

lemma common_maximal:
  "common us vs < length us \<Longrightarrow> common us vs < length vs \<Longrightarrow> us ! common us vs \<noteq> vs ! common us vs"
  by (induction us vs rule: common.induct) auto

section \<open>Words\<close>

lemma bit_le32:
  assumes "i < 32"
  shows "bit (le32 bs) i \<longleftrightarrow> bit (bs ! (i div 8)) (i mod 8)"
proof -
  have byte: "\<not> bit (b :: byte) j" if "8 \<le> j" for b j
    using bit_imp_le_length [of b j] that by auto
  consider "i < 8" | "8 \<le> i" "i < 16" | "16 \<le> i" "i < 24" | "24 \<le> i" "i < 32"
    using assms by fastforce
  then show ?thesis
  proof cases
    case 1
    then show ?thesis by (simp add: le32_def bit_simps)
  next
    case 2
    then have "i div 8 = 1" "i mod 8 = i - 8" by presburger+
    with 2 show ?thesis by (auto simp: le32_def bit_simps byte)
  next
    case 3
    then have "i div 8 = 2" "i mod 8 = i - 16" by presburger+
    with 3 show ?thesis by (auto simp: le32_def bit_simps byte)
  next
    case 4
    then have "i div 8 = 3" "i mod 8 = i - 24" by presburger+
    with 4 show ?thesis by (auto simp: le32_def bit_simps byte)
  qed
qed

lemma bit_le64:
  assumes "i < 64" "length bs = 8"
  shows "bit (le64 bs) i \<longleftrightarrow> bit (bs ! (i div 8)) (i mod 8)"
proof (cases "i < 32")
  case True
  then have "i div 8 < 4" by simp
  have "bit (le64 bs) i \<longleftrightarrow> bit (le32 (take 4 bs)) i"
    using True by (simp add: le64_def bit_simps)
  also have "\<dots> \<longleftrightarrow> bit (take 4 bs ! (i div 8)) (i mod 8)"
    by (rule bit_le32 [OF True])
  also have "take 4 bs ! (i div 8) = bs ! (i div 8)"
    by (rule nth_take [OF \<open>i div 8 < 4\<close>])
  finally show ?thesis .
next
  case False
  then obtain k where k: "i = 32 + k" using le_Suc_ex [of 32 i] by auto
  have i: "i - 32 < 32" "(i - 32) mod 8 = i mod 8" "4 + (i - 32) div 8 = i div 8"
    using assms(1) mod_mult_self2 [of k 8 4] unfolding k by (simp_all add: add.commute)
  have "\<not> bit (le32 (take 4 bs)) i"
    using False by (intro impossible_bit) simp
  then have "bit (le64 bs) i \<longleftrightarrow> bit (le32 (drop 4 bs)) (i - 32)"
    using False assms(1) by (auto simp: le64_def bit_simps)
  also have "\<dots> \<longleftrightarrow> bit (drop 4 bs ! ((i - 32) div 8)) (i mod 8)"
    unfolding bit_le32 [OF i(1)] i(2) ..
  also have "drop 4 bs ! ((i - 32) div 8) = bs ! (i div 8)"
    unfolding i(3) [symmetric] using assms(2) by (intro nth_drop) simp
  finally show ?thesis .
qed

text \<open>The place of a bit is that of its byte.\<close>

lemma bit_le64_byte: "j < 8 \<Longrightarrow> k < 8 \<Longrightarrow> length bs = 8 \<Longrightarrow> bit (le64 bs) (8 * j + k) \<longleftrightarrow> bit (bs ! j) k"
  by (subst bit_le64) auto

lemma ctz64_eq:
  assumes "d < 64" "bit v d" "\<And>i. i < d \<Longrightarrow> \<not> bit v i"
  shows "ctz64 v = d"
proof -
  have "takeWhile (\<lambda>i. \<not> bit v i) [0..<64] = take d [0..<64]"
    using assms by (intro takeWhile_eq_take_P_nth) auto
  then show ?thesis using assms(1) by (simp add: ctz64_def)
qed

lemma diff_common:
  assumes "length us = 8" "length vs = 8" "us \<noteq> vs"
  shows "le64 us XOR le64 vs \<noteq> 0" "LZ4_NbCommonBytes (le64 us XOR le64 vs) = common us vs"
proof -
  define k where "k = (LEAST k. k < 8 \<and> us ! k \<noteq> vs ! k)"
  have "\<exists>k. k < 8 \<and> us ! k \<noteq> vs ! k"
    using assms nth_equalityI [of us vs] by metis
  from LeastI_ex [OF this] have k: "k < 8" "us ! k \<noteq> vs ! k"
    unfolding k_def [symmetric] by blast+
  have below: "us ! i = vs ! i" if "i < k" for i
    using not_less_Least [of i "\<lambda>k. k < 8 \<and> us ! k \<noteq> vs ! k"] that k unfolding k_def [symmetric] by auto
  define j where "j = (LEAST j. bit (us ! k) j \<noteq> bit (vs ! k) j)"
  have "\<exists>j. bit (us ! k) j \<noteq> bit (vs ! k) j"
    using k(2) bit_eq_iff by blast
  from LeastI_ex [OF this] have j: "bit (us ! k) j \<noteq> bit (vs ! k) j"
    unfolding j_def [symmetric] .
  then have "j < 8" using bit_imp_le_length [of "us ! k" j] bit_imp_le_length [of "vs ! k" j] by auto
  have lower: "bit (us ! k) i = bit (vs ! k) i" if "i < j" for i
    using not_less_Least [of i "\<lambda>j. bit (us ! k) j \<noteq> bit (vs ! k) j"] that unfolding j_def [symmetric] by auto
  let ?v = "le64 us XOR le64 vs"
  have set: "bit ?v (8 * k + j)"
    using j k(1) \<open>j < 8\<close> assms bit_le64_byte [of k j us] bit_le64_byte [of k j vs] by (simp add: bit_simps)
  then show "?v \<noteq> 0" by force
  have clear: "\<not> bit ?v i" if i: "i < 8 * k + j" for i
  proof -
    have "i < 64" using i k(1) \<open>j < 8\<close> by simp
    moreover have "bit (us ! (i div 8)) (i mod 8) = bit (vs ! (i div 8)) (i mod 8)"
    proof (cases "i div 8 < k")
      case True
      then show ?thesis by (simp add: below)
    next
      case False
      then have "i div 8 = k" "i mod 8 < j" using i \<open>j < 8\<close> by presburger+
      then show ?thesis by (simp add: lower)
    qed
    ultimately show ?thesis using assms by (simp add: bit_simps bit_le64)
  qed
  have "ctz64 ?v = 8 * k + j"
    using set clear k(1) \<open>j < 8\<close> by (intro ctz64_eq) simp_all
  then have "LZ4_NbCommonBytes ?v = (8 * k + j) div 8"
    by (simp add: LZ4_NbCommonBytes_def drop_bit_eq_div)
  also have "\<dots> = k" using \<open>j < 8\<close> by simp
  also have "\<dots> = common us vs"
    using k below assms by (intro common_eqI [symmetric]) auto
  finally show "LZ4_NbCommonBytes ?v = common us vs" .
qed

lemma le64_xor_zero: "length us = 8 \<Longrightarrow> length vs = 8 \<Longrightarrow> le64 us XOR le64 vs = 0 \<longleftrightarrow> us = vs"
  using diff_common(1) [of us vs] by auto

lemma le32_eq_iff:
  assumes "length us = 4" "length vs = 4"
  shows "le32 us = le32 vs \<longleftrightarrow> us = vs"
proof
  assume "le32 us = le32 vs"
  then have "le32_bytes (le32 us) = le32_bytes (le32 vs)" by (rule arg_cong)
  then show "us = vs" by (simp only: le32_bytes_le32 assms)
qed simp

lemma two_digits:
  fixes a b c d :: nat
  assumes "a < 256" "c < 256" "a + 256 * b = c + 256 * d"
  shows "a = c" "b = d"
proof -
  have "(a + 256 * b) mod 256 = a" "(c + 256 * d) mod 256 = c"
    using assms(1,2) by simp_all
  with assms(3) show "a = c" by metis
  with assms(3) show "b = d" by simp
qed

lemma le16_eq_iff:
  assumes "length us = 2" "length vs = 2"
  shows "le16 us = le16 vs \<longleftrightarrow> us = vs"
proof
  assume eq: "le16 us = le16 vs"
  obtain a b c d where us: "us = [a, b]" "vs = [c, d]"
    using assms by (auto simp: numeral_eq_Suc length_Suc_conv)
  have "unat a < 256" "unat c < 256"
    using unsigned_less [of a] unsigned_less [of c] by simp_all
  moreover have "unat a + 256 * unat b = unat c + 256 * unat d"
    using eq us by (simp add: le16_def)
  ultimately have "unat a = unat c" "unat b = unat d"
    using two_digits by blast+
  then show "us = vs" by (simp add: us word_unat_eq_iff)
qed simp

section \<open>The count\<close>

text \<open>
  What is left to compare: the bytes of the input from \<open>p\<close> up to the limit, and those from \<open>q\<close> on.
\<close>

abbreviation prefix_from :: "bytes \<Rightarrow> nat \<Rightarrow> nat \<Rightarrow> nat \<Rightarrow> nat" where
  "prefix_from src p q lim \<equiv> common (drop p (take lim src)) (drop q src)"

lemma prefix_from_split:
  assumes "p + n \<le> lim" "lim \<le> length src" "q \<le> p"
  shows "prefix_from src p q lim =
    (if view p n src = view q n src then n + prefix_from src (p + n) (q + n) lim
     else common (view p n src) (view q n src))"
proof -
  have "drop p (take lim src) = view p n src @ drop (p + n) (take lim src)"
    using assms append_take_drop_id [of n "drop p (take lim src)"]
    by (simp add: view_def min_def take_drop add.commute)
  moreover have "drop q src = view q n src @ drop (q + n) src"
    using append_take_drop_id [of n "drop q src"] by (simp add: view_def add.commute)
  ultimately show ?thesis
    using assms common_append [of "view p n src" "view q n src"] by simp
qed

lemma prefix_from_le: "prefix_from src p q lim \<le> lim - p"
  using common_le(1) [of "drop p (take lim src)" "drop q src"] by simp

lemma common_views:
  assumes "view p n src \<noteq> view q n src" "q \<le> p" "p + n \<le> length src"
  shows "common (view p n src) (view q n src) < n"
proof (rule ccontr)
  assume "\<not> common (view p n src) (view q n src) < n"
  then have "view p n src ! i = view q n src ! i" if "i < n" for i
    using that by (intro common_nth) simp
  then have "view p n src = view q n src"
    using assms(2,3) by (intro nth_equalityI) simp_all
  with assms(1) show False ..
qed

text \<open>
  One comparison of \<open>n\<close> bytes behind the \<open>k\<close> equal ones, when fewer than \<open>2 * n\<close> can follow: fewer
  than \<open>n\<close> are left.
\<close>

definition compare_step :: "bytes \<Rightarrow> nat \<Rightarrow> nat \<Rightarrow> nat \<Rightarrow> nat \<Rightarrow> nat \<Rightarrow> nat" where
  "compare_step src p q lim n k =
     (if p + k + n \<le> lim \<and> view (q + k) n src = view (p + k) n src then k + n else k)"

definition still :: "bytes \<Rightarrow> nat \<Rightarrow> nat \<Rightarrow> nat \<Rightarrow> nat \<Rightarrow> nat \<Rightarrow> bool" where
  "still src p q lim n k \<longleftrightarrow> p + k \<le> lim \<and> prefix_from src p q lim = k + prefix_from src (p + k) (q + k) lim \<and>
     prefix_from src (p + k) (q + k) lim < n"

lemma compare_step:
  assumes "still src p q lim (2 * n) k" "lim \<le> length src" "q \<le> p" "0 < n"
  shows "still src p q lim n (compare_step src p q lim n k)"
proof (cases "p + k + n \<le> lim")
  case True
  note split = prefix_from_split [of "p + k" n lim src "q + k"]
  show ?thesis
  proof (cases "view (q + k) n src = view (p + k) n src")
    case eq: True
    then show ?thesis
      using split assms True by (simp add: still_def compare_step_def add.assoc)
  next
    case False
    then show ?thesis
      using split assms True common_views [of "p + k" n src "q + k"]
      by (simp add: still_def compare_step_def)
  qed
next
  case False
  moreover have "p + k \<le> lim" using assms(1) by (simp add: still_def)
  ultimately have "lim - (p + k) < n" by linarith
  then have "prefix_from src (p + k) (q + k) lim < n"
    by (rule le_less_trans [OF prefix_from_le])
  then show ?thesis
    using assms(1) False by (simp add: still_def compare_step_def)
qed

lemma count_tail_steps:
  assumes "p \<le> lim" "lim \<le> length src" "q \<le> p"
  shows "count_tail src p q lim = Inr (p + compare_step src p q lim 1
    (compare_step src p q lim 2 (compare_step src p q lim 4 0)))"
proof -
  define k4 where "k4 = compare_step src p q lim 4 0"
  define k2 where "k2 = compare_step src p q lim 2 k4"
  define k1 where "k1 = compare_step src p q lim 1 k2"
  have step4: "(if p + 3 < lim then
        bindR (LZ4_read32 src q) (\<lambda>a. bindR (LZ4_read32 src p) (\<lambda>b. Inr (if a = b then 4 else 0)))
      else Inr 0) = Inr k4"
    using assms by (auto simp: k4_def compare_step_def LZ4_read32_def le32_eq_iff)
  have k4: "p + k4 \<le> lim" using assms by (simp add: k4_def compare_step_def)
  have step2: "(if p + k4 + 1 < lim then
        bindR (LZ4_readLE16 src (q + k4)) (\<lambda>a. bindR (LZ4_readLE16 src (p + k4)) (\<lambda>b.
          Inr (if a = b then k4 + 2 else k4)))
      else Inr k4) = Inr k2"
    using assms by (auto simp: k2_def compare_step_def LZ4_readLE16_def le16_eq_iff)
  have k2: "p + k2 \<le> lim" using k4 by (simp add: k2_def compare_step_def)
  have step1: "(if p + k2 < lim then
        bindR (rd src (q + k2) 1) (\<lambda>a. bindR (rd src (p + k2) 1) (\<lambda>b. Inr (if a = b then k2 + 1 else k2)))
      else Inr k2) = Inr k1"
    using assms by (auto simp: k1_def compare_step_def)
  show ?thesis
    unfolding count_tail_def step4 bindR_Inr step2 step1 by (simp only: k1_def k2_def k4_def)
qed

lemma count_tail_exact:
  assumes "p \<le> lim" "lim \<le> length src" "q \<le> p" "lim < p + 8"
  shows "count_tail src p q lim = Inr (p + prefix_from src p q lim)"
proof -
  have "still src p q lim (2 * 4) 0"
    using assms prefix_from_le [of p lim src q] by (simp add: still_def)
  from compare_step [OF this assms(2,3)]
  have "still src p q lim (2 * 2) (compare_step src p q lim 4 0)" by simp
  from compare_step [OF this assms(2,3)]
  have "still src p q lim (2 * 1) (compare_step src p q lim 2 (compare_step src p q lim 4 0))" by simp
  from compare_step [OF this assms(2,3)]
  show ?thesis
    using assms by (simp add: count_tail_steps still_def)
qed

lemma diff_exact:
  assumes "p + 8 \<le> length src" "q \<le> p"
  shows "LZ4_diff src p q = Inr (le64 (view q 8 src) XOR le64 (view p 8 src))"
  using assms by (simp add: LZ4_diff_def LZ4_read_ARCH_def)

lemma count_word:
  assumes "p + 8 \<le> lim" "lim \<le> length src" "q \<le> p" "view q 8 src \<noteq> view p 8 src"
  shows "LZ4_NbCommonBytes (le64 (view q 8 src) XOR le64 (view p 8 src)) = prefix_from src p q lim"
  using diff_common(2) [of "view p 8 src" "view q 8 src"] prefix_from_split [of p 8 lim src q] assms
  by (simp add: xor.commute)

lemma count_loop_exact:
  "p \<le> lim \<Longrightarrow> lim \<le> length src \<Longrightarrow> q \<le> p \<Longrightarrow>
    count_loop src p q lim = Inr (p + prefix_from src p q lim)"
proof (induction "lim - p" arbitrary: p q rule: less_induct)
  case less
  show ?case
  proof (cases "p + 7 < lim")
    case True
    then have diff: "LZ4_diff src p q = Inr (le64 (view q 8 src) XOR le64 (view p 8 src))"
      using less.prems by (intro diff_exact) simp_all
    show ?thesis
    proof (cases "view q 8 src = view p 8 src")
      case eq: True
      then have "count_loop src (p + 8) (q + 8) lim = Inr (p + 8 + prefix_from src (p + 8) (q + 8) lim)"
        using less.prems True by (intro less.hyps) simp_all
      then show ?thesis
        using True eq diff less.prems prefix_from_split [of p 8 lim src q]
        by (subst count_loop.simps) simp
    next
      case False
      then show ?thesis
        using True diff less.prems count_word [of p lim src q]
          le64_xor_zero [of "view q 8 src" "view p 8 src"]
        by (subst count_loop.simps) simp
    qed
  next
    case False
    then show ?thesis using less.prems by (subst count_loop.simps) (simp add: count_tail_exact)
  qed
qed

lemma LZ4_count_exact:
  assumes "p \<le> lim" "lim \<le> length src" "q \<le> p"
  shows "LZ4_count src p q lim = Inr (prefix_from src p q lim)"
proof (cases "p + 7 < lim")
  case True
  then have diff: "LZ4_diff src p q = Inr (le64 (view q 8 src) XOR le64 (view p 8 src))"
    using assms by (intro diff_exact) simp_all
  show ?thesis
  proof (cases "view q 8 src = view p 8 src")
    case eq: True
    then show ?thesis
      using True diff assms prefix_from_split [of p 8 lim src q]
        count_loop_exact [of "p + 8" lim src "q + 8"]
      by (simp add: LZ4_count_def)
  next
    case False
    then show ?thesis
      using True diff assms count_word [of p lim src q]
        le64_xor_zero [of "view q 8 src" "view p 8 src"]
      by (simp add: LZ4_count_def)
  qed
next
  case False
  then show ?thesis using assms by (simp add: LZ4_count_def count_loop_exact)
qed

end
