(* ===== verification/Lz4Search.thy ===== *)
theory Lz4Search
  imports Lz4Count
begin

text \<open>
  The search for matches: a match the compressor goes on with is below the position, within the
  largest distance and equal in four bytes, and every index in the table is below the position.
\<close>

definition comp_ok :: "comp_args \<Rightarrow> bool" where
  "comp_ok C \<longleftrightarrow> c_start C + 13 \<le> length (c_src C) \<and> (c_table C = byU16 \<or> c_table C = byU32) \<and>
     (c_table C = byU16 \<longrightarrow> length (c_src C) < LZ4_64Klimit) \<and> 1 \<le> c_acc C \<and> c_dir C \<noteq> fillOutput"

definition table_ok :: "nat \<Rightarrow> table \<Rightarrow> bool" where
  "table_ok p t \<longleftrightarrow> (\<forall>h. t h < p)"

definition match_ok :: "bytes \<Rightarrow> nat \<Rightarrow> nat \<Rightarrow> bool" where
  "match_ok src ip mat \<longleftrightarrow> mat < ip \<and> ip \<le> mat + 65535 \<and> view mat 4 src = view ip 4 src"

lemma table_ok_get [simp]: "table_ok p t \<Longrightarrow> LZ4_getIndexOnHash h t < p"
  by (simp add: table_ok_def LZ4_getIndexOnHash_def)

lemma table_ok_mono: "table_ok p t \<Longrightarrow> p \<le> q \<Longrightarrow> table_ok q t"
  by (auto simp: table_ok_def intro: less_le_trans)

lemma table_ok_put: "table_ok p t \<Longrightarrow> idx < p \<Longrightarrow> table_ok p (LZ4_putIndexOnHash idx h t tt)"
  by (auto simp: table_ok_def LZ4_putIndexOnHash_def intro: le_less_trans [OF mod_less_eq_dividend]
      split: tableType_t.split)

lemma hashPosition_ok: "p + 8 \<le> length src \<Longrightarrow> \<exists>h. LZ4_hashPosition src p tt = Inr h"
  by (simp add: LZ4_hashPosition_def LZ4_read_ARCH_def LZ4_read32_def)

lemma putPosition_ok:
  assumes "p + 8 \<le> length src" "table_ok q t" "p < q"
  shows "\<exists>t'. LZ4_putPosition src p t tt = Inr t' \<and> table_ok q t'"
proof -
  obtain h where "LZ4_hashPosition src p tt = Inr h" using hashPosition_ok [OF assms(1)] by blast
  then show ?thesis using table_ok_put [OF assms(2,3)] by (simp add: LZ4_putPosition_def)
qed

lemma mflimitPlusOne_eq: "comp_ok C \<Longrightarrow> mflimitPlusOne C + 11 = length (c_src C)"
  unfolding comp_ok_def mflimitPlusOne_def lz4_constants by linarith

text \<open>The step of the search never becomes 0.\<close>

lemma step_pos: "64 \<le> nb \<Longrightarrow> 0 < drop_bit 6 (nb :: nat)"
  by (simp add: drop_bit_eq_div)

definition found :: "comp_args \<Rightarrow> nat \<Rightarrow> (nat \<times> nat) option \<times> table \<Rightarrow> bool" where
  "found C ip r \<longleftrightarrow> (case r of
     (None, t) \<Rightarrow> table_ok (length (c_src C) + 1) t
   | (Some (ip', mat), t) \<Rightarrow>
       ip \<le> ip' \<and> ip' + 12 \<le> length (c_src C) \<and> match_ok (c_src C) ip' mat \<and> table_ok (ip' + 1) t)"

lemma found_simps [simp]:
  "found C ip (None, t) \<longleftrightarrow> table_ok (length (c_src C) + 1) t"
  "found C ip (Some (ip', mat), t) \<longleftrightarrow>
    ip \<le> ip' \<and> ip' + 12 \<le> length (c_src C) \<and> match_ok (c_src C) ip' mat \<and> table_ok (ip' + 1) t"
  by (simp_all add: found_def)

lemma found_mono: "returnsR (found C ip) r \<Longrightarrow> j \<le> ip \<Longrightarrow> returnsR (found C j) r"
  by (erule returnsR_mono) (auto simp: found_def split: option.splits prod.splits)

lemma find_match_ok:
  assumes "comp_ok C"
  shows "table_ok ip t \<Longrightarrow> ip \<le> mflimitPlusOne C \<Longrightarrow> 0 < step \<Longrightarrow> 64 \<le> nb \<Longrightarrow>
    length (c_src C) < fuel + ip \<Longrightarrow> returnsR (found C ip) (find_match fuel C ip step nb h t)"
proof (induction fuel arbitrary: ip step nb h t)
  case 0
  then show ?case using mflimitPlusOne_eq [OF assms] by simp
next
  case (Suc fuel)
  let ?src = "c_src C" and ?next = "ip + step" and ?mi = "LZ4_getIndexOnHash h t"
  show ?case
  proof (cases "mflimitPlusOne C < ?next")
    case True
    have "table_ok (length ?src + 1) t"
      using mflimitPlusOne_eq [OF assms] Suc.prems(2) by (intro table_ok_mono [OF Suc.prems(1)]) simp
    with True show ?thesis by (simp add: Let_def)
  next
    case False
    then have bound: "?next + 11 \<le> length ?src" using mflimitPlusOne_eq [OF assms] by simp
    then obtain h' where h': "LZ4_hashPosition ?src ?next (c_table C) = Inr h'"
      using hashPosition_ok [of ?next ?src] by auto
    let ?t = "LZ4_putIndexOnHash ip h t (c_table C)"
    have t: "table_ok (ip + 1) ?t"
      using Suc.prems(1) by (intro table_ok_put table_ok_mono [OF Suc.prems(1)]) simp_all
    have mi: "?mi < ip" using Suc.prems(1) by simp
    have go_on: "returnsR (found C ip) (find_match fuel C ?next (drop_bit 6 nb) (nb + 1) h' ?t)"
      using Suc.prems False step_pos [OF Suc.prems(4)]
      by (intro found_mono [OF Suc.IH] table_ok_mono [OF t]) simp_all
    show ?thesis
    proof (cases "c_issue C = dictSmall \<and> ?mi < c_limit C \<or> c_table C \<noteq> byU16 \<and> ?mi + LZ4_DISTANCE_MAX < ip")
      case True
      then show ?thesis using False h' go_on by (auto simp add: Let_def)
    next
      case near: False
      then have "ip \<le> ?mi + 65535"
        using assms bound Suc.prems(3)
        by (auto simp: LZ4_DISTANCE_MAX_def comp_ok_def LZ4_64Klimit_def)
      then have "found C ip (Some (ip, ?mi), ?t)" if "view ?mi 4 ?src = view ip 4 ?src"
        using that mi t bound Suc.prems(3) by (simp add: match_ok_def)
      then show ?thesis
        using near False h' go_on mi bound by (simp add: Let_def LZ4_read32_def le32_eq_iff)
    qed
  qed
qed

section \<open>Backwards\<close>

lemma view_grow:
  assumes "0 < p" "0 < q" "src ! (p - 1) = src ! (q - 1)" "view p n src = view q n src"
    "p + n \<le> length src" "q + n \<le> length src"
  shows "view (p - 1) (Suc n) src = view (q - 1) (Suc n) src"
proof -
  have "view (i - 1) (Suc n) src = src ! (i - 1) # view i n src" if "0 < i" "i + n \<le> length src" for i
  proof (cases n)
    case 0
    then show ?thesis using that by (simp add: view_def) (metis Cons_nth_drop_Suc Suc_pred' less_le_trans
          diff_Suc_less take_Suc_Cons take_0 One_nat_def)
  next
    case (Suc k)
    then have "drop (i - 1) src = src ! (i - 1) # drop i src"
      using Cons_nth_drop_Suc [of "i - 1" src] that by simp
    then show ?thesis by (simp add: view_def)
  qed
  with assms show ?thesis by metis
qed

text \<open>
  Going back keeps the distance and adds the bytes passed to those that are equal.
\<close>

lemma catch_up_ok:
  assumes "anchor \<le> ip" "mat < ip" "ip + n \<le> length src" "view mat n src = view ip n src"
  shows "returnsR (\<lambda>(ip', mat'). anchor \<le> ip' \<and> ip' \<le> ip \<and> mat' < ip' \<and> ip' - mat' = ip - mat \<and>
      view mat' (n + (ip - ip')) src = view ip' (n + (ip - ip')) src) (catch_up src low anchor ip mat)"
  using assms
proof (induction src low anchor ip mat arbitrary: n rule: catch_up.induct)
  case step: (2 src low anchor ip m)
  let ?P = "\<lambda>n ip0 mat0 (ip', mat'). anchor \<le> ip' \<and> ip' \<le> ip0 \<and> mat' < ip' \<and> ip' - mat' = ip0 - mat0 \<and>
      view mat' (n + (ip0 - ip')) src = view ip' (n + (ip0 - ip')) src"
  have stop: "?P n ip (Suc m) (ip, Suc m)" using step(2-) by simp
  show ?case
  proof (cases "(anchor < ip \<and> low < Suc m) \<and> src ! (ip - 1) = src ! m")
    case True
    then have eq: "view (Suc m - 1) (Suc n) src = view (ip - 1) (Suc n) src"
      using step(3-) by (intro view_grow) auto
    have bytes: "rd src (ip - 1) 1 = Inr [src ! (ip - 1)]" "rd src m 1 = Inr [src ! m]"
      using step(3,4) by (auto simp: rd_def view_def take_Suc_conv_app_nth hd_drop_conv_nth take_Suc)
    have "returnsR (?P (Suc n) (ip - 1) m) (catch_up src low anchor (ip - 1) m)"
    proof (rule step(1))
      show "anchor < ip \<and> low < Suc m" using True by blast
      show "rd src (ip - 1) 1 = Inr [src ! (ip - 1)]" "rd src m 1 = Inr [src ! m]" by (fact bytes)+
    qed (use True step(3-) eq in auto)
    then have "returnsR (?P n ip (Suc m)) (catch_up src low anchor (ip - 1) m)"
      by (rule returnsR_mono) (use True step(3) in \<open>auto simp: Suc_diff_Suc\<close>)
    then show ?thesis using True bytes by simp
  next
    case False
    then show ?thesis
    proof (cases "anchor < ip \<and> low < Suc m")
      case True
      have "rd src (ip - 1) 1 = Inr [src ! (ip - 1)]" "rd src m 1 = Inr [src ! m]"
        using step(3,4) True by (auto simp: rd_def view_def take_Suc hd_drop_conv_nth)
      then show ?thesis using stop False True by simp
    next
      case False
      then have "catch_up src low anchor ip (Suc m) = Inr (ip, Suc m)" by auto
      then show ?thesis using stop by (simp only: returnsR_Inr)
    qed
  qed
qed simp

end
