(* ===== verification/Lz4Emit.thy ===== *)
theory Lz4Emit
  imports Lz4Format Lz4Search
begin

text \<open>
  The output of the compressor against the block format: what \<open>LZ4_compress_generic\<close> writes for the
  literals and the match of a sequence is its encoding, within the room the checks or the bound
  leave.
\<close>

section \<open>Appending\<close>

definition emits :: "nat \<Rightarrow> bytes \<Rightarrow> bytes \<Rightarrow> nat \<times> bytes \<Rightarrow> bool" where
  "emits op m bs r \<longleftrightarrow> length (snd r) = length m \<and> fst r = op + length bs \<and>
     take (fst r) (snd r) = take op m @ bs"

lemma emits_append: "emits op m as (op1, m1) \<Longrightarrow> emits op1 m1 bs r \<Longrightarrow> emits op m (as @ bs) r"
  by (auto simp: emits_def)

lemma emitsD:
  assumes "emits op m bs (op', m')"
  shows "length m' = length m" "op' = op + length bs" "take op' m' = take op m @ bs"
  using assms by (auto simp: emits_def)

lemma poke_emits:
  assumes "op + length bs \<le> length m"
  shows "\<exists>m'. poke op bs m = Inr m' \<and> emits op m bs (op + length bs, m')"
  using assms take_put_at_all [OF assms] by (simp add: poke_ok emits_def)

lemma write_length_emits:
  "op + length (ext len) \<le> length m \<Longrightarrow> returnsR (emits op m (ext len)) (write_length op len m)"
proof (induction op len m rule: write_length.induct)
  case (1 op len m)
  show ?case
  proof (cases "255 \<le> len")
    case True
    then have ext: "ext len = [255] @ ext (len - 255)" by (simp add: ext_simps)
    obtain m1 where m1: "poke op [255] m = Inr m1" "emits op m [255] (op + 1, m1)"
      using poke_emits [of op "[255]" m] 1(2) ext by auto
    have "returnsR (emits (op + 1) m1 (ext (len - 255))) (write_length (op + 1) (len - 255) m1)"
      using 1(2) ext emitsD(1) [OF m1(2)] by (intro 1(1) [OF True m1(1)]) simp
    then have "returnsR (emits op m (ext len)) (write_length (op + 1) (len - 255) m1)"
      unfolding ext by (rule returnsR_mono) (rule emits_append [OF m1(2)])
    then show ?thesis using True m1(1) by (subst write_length.simps) simp
  next
    case False
    then have "ext len = [of_nat len]" by (simp add: ext_simps)
    then show ?thesis
      using False 1(2) poke_emits [of op "[of_nat len]" m]
      by (subst write_length.simps) (auto simp: poke_ok)
  qed
qed

lemma put_literal_length_emits:
  assumes "op + 1 + length (len_ext l) \<le> length m"
  shows "returnsR (emits op m (token l 0 # len_ext l)) (put_literal_length op l m)"
proof (cases "15 \<le> l")
  case True
  then have tok: "(of_nat (RUN_MASK * 2 ^ ML_BITS) :: byte) = token l 0"
    by (simp add: token_def ML_BITS_def)
  have le: "len_ext l = ext (l - 15)" using True by (simp add: len_ext_def)
  obtain m1 where m1: "poke op [token l 0] m = Inr m1" "emits op m [token l 0] (op + 1, m1)"
    using poke_emits [of op "[token l 0]" m] assms by auto
  have "returnsR (emits (op + 1) m1 (ext (l - 15))) (write_length (op + 1) (l - 15) m1)"
    using assms le emitsD(1) [OF m1(2)] by (intro write_length_emits) simp
  then have "returnsR (emits op m ([token l 0] @ ext (l - 15))) (write_length (op + 1) (l - 15) m1)"
    by (rule returnsR_mono) (rule emits_append [OF m1(2)])
  then show ?thesis using True m1(1) by (simp add: put_literal_length_def tok [simplified] le)
next
  case False
  then have "(of_nat (l * 2 ^ ML_BITS) :: byte) = token l 0" "len_ext l = []"
    by (simp_all add: token_def ML_BITS_def len_ext_def)
  then show ?thesis
    using False assms poke_emits [of op "[token l 0]" m]
    by (auto simp: put_literal_length_def poke_ok simp del: of_nat_mult)
qed

lemma length_len_ext: "length (len_ext l) = (l + 240) div 255"
proof (cases "l < 15")
  case False
  then have "(l + 240) div 255 = ((l - 15) + 255) div 255" by simp
  also have "\<dots> = (l - 15) div 255 + 1" by simp
  finally show ?thesis using False by (simp add: len_ext_def length_ext)
qed (simp add: len_ext_def)

lemma len_ext_bounds: "length (len_ext l) \<le> l div 255 + 1" "length (len_ext l) \<le> l"
proof -
  have "(l + 240) div 255 \<le> (l + 255) div 255" by (rule div_le_mono) simp
  then show "length (len_ext l) \<le> l div 255 + 1" by (simp add: length_len_ext)
  show "length (len_ext l) \<le> l" unfolding length_len_ext by linarith
qed

section \<open>Literals\<close>

definition limited :: "comp_args \<Rightarrow> bool" where
  "limited C \<longleftrightarrow> c_dir C = limitedOutput"

lemma encode_literals_emits:
  assumes "anchor \<le> ip" "ip + 12 \<le> length (c_src C)"
    "\<not> limited C \<Longrightarrow> op + 1 + (ip - anchor) + 8 + (ip - anchor) div 255 \<le> length m"
  shows "returnsR (\<lambda>r. case r of
      None \<Rightarrow> limited C
    | Some (op', m') \<Rightarrow>
        emits op m (token (ip - anchor) 0 # len_ext (ip - anchor) @ view anchor (ip - anchor) (c_src C)) (op', m')
        \<and> op' + 2 \<le> length m)
    (encode_literals C anchor ip op m)"
proof (cases "limited C \<and> length m < op + 1 + (ip - anchor) + 8 + (ip - anchor) div 255")
  case True
  then show ?thesis by (simp add: encode_literals_def limited_def)
next
  case False
  let ?l = "ip - anchor" and ?src = "c_src C"
  have room: "op + 1 + ?l + 8 + ?l div 255 \<le> length m"
    using False assms(3) by linarith
  have ext: "length (len_ext ?l) \<le> ?l div 255 + 1" "length (len_ext ?l) \<le> ?l"
    by (fact len_ext_bounds)+
  have l: "anchor + ?l = ip" using assms(1) by simp
  have "returnsR (\<lambda>r. case r of
      None \<Rightarrow> limited C
    | Some (op', m') \<Rightarrow>
        emits op m (token ?l 0 # len_ext ?l @ view anchor ?l ?src) (op', m') \<and> op' + 2 \<le> length m)
    (bindR (put_literal_length op ?l m) (\<lambda>(op, m).
       bindR (LZ4_wildCopy8 (Some ?src) op anchor (op + ?l) m) (\<lambda>m. Inr (Some (op + ?l, m)))))"
  proof (rule returnsR_bindR [OF put_literal_length_emits])
    show "op + 1 + length (len_ext ?l) \<le> length m" using room ext by linarith
  next
    fix r assume r: "emits op m (token ?l 0 # len_ext ?l) r"
    obtain op1 m1 where r1: "r = (op1, m1)" by (cases r)
    have op1: "op1 = op + 1 + length (len_ext ?l)" "length m1 = length m"
      "take op1 m1 = take op m @ token ?l 0 # len_ext ?l"
      using emitsD [OF r [unfolded r1]] by auto
    have "\<exists>m'. LZ4_wildCopy8 (Some ?src) op1 anchor (op1 + ?l) m1 = Inr m' \<and> length m' = length m1 \<and>
      take (op1 + ?l) m' = take op1 m1 @ view anchor (op1 + ?l - op1) ?src"
    proof (rule wildCopy8_from)
      show "anchor + (op1 + ?l - op1) + 7 \<le> length ?src" "anchor + 8 \<le> length ?src"
        using assms(1,2) by simp_all
      show "op1 + ?l + 7 \<le> length m1" "op1 + 8 \<le> length m1"
        using op1 room ext by linarith+
    qed simp
    then obtain m2 where m2: "LZ4_wildCopy8 (Some ?src) op1 anchor (op1 + ?l) m1 = Inr m2"
      "length m2 = length m1" "take (op1 + ?l) m2 = take op1 m1 @ view anchor ?l ?src"
      by auto
    have fits: "op1 + ?l + 2 \<le> length m" using op1 room ext by linarith
    have "emits op1 m1 (view anchor ?l ?src) (op1 + ?l, m2)"
      using m2(2,3) assms(1,2) by (simp add: emits_def)
    from emits_append [OF r [unfolded r1] this]
    have "emits op m (token ?l 0 # len_ext ?l @ view anchor ?l ?src) (op1 + ?l, m2)" by simp
    with fits show "returnsR (\<lambda>r. case r of None \<Rightarrow> limited C | Some (op', m') \<Rightarrow>
        emits op m (token ?l 0 # len_ext ?l @ view anchor ?l ?src) (op', m') \<and> op' + 2 \<le> length m)
      (case r of (op, m) \<Rightarrow>
         bindR (LZ4_wildCopy8 (Some ?src) op anchor (op + ?l) m) (\<lambda>m. Inr (Some (op + ?l, m))))"
      by (simp only: r1 prod.case m2(1) bindR_Inr returnsR_Inr option.case simp_thms)
  qed
  moreover have "\<not> (c_dir C = limitedOutput \<and>
      length m < op + 1 + ?l + (2 + 1 + LASTLITERALS) + ?l div 255)"
    using room by simp
  ultimately show ?thesis unfolding encode_literals_def Let_def by (simp only: if_False)
qed

section \<open>Match\<close>

lemma ones: "le32_bytes 0xFFFFFFFF = replicate 4 255"
  by code_simp

lemma div_255: "c div 255 = 4 * (c div 1020) + c mod 1020 div (255 :: nat)"
proof -
  have "c = c mod 1020 + 255 * (4 * (c div 1020))" by simp
  then have "c div 255 = (c mod 1020 + 255 * (4 * (c div 1020))) div 255" by (rule arg_cong)
  also have "\<dots> = 4 * (c div 1020) + c mod 1020 div 255" by (rule div_mult_self2) simp
  finally show ?thesis .
qed

text \<open>Steps of four bytes of 255, the last of them beyond the position reached.\<close>

lemma write_match_code_ok:
  assumes "op + 4 * (c div 1020) + 4 \<le> length m" "take (op + 4) m = P @ replicate 4 255" "length P = op"
  shows "returnsR (\<lambda>(op', c', m'). op' = op + 4 * (c div 1020) \<and> c' = c mod 1020 \<and> length m' = length m \<and>
    take (op' + 4) m' = P @ replicate (4 * (c div 1020) + 4) 255) (write_match_code op c m)"
  using assms
proof (induction op c m arbitrary: P rule: write_match_code.induct)
  case step: (1 op c m)
  show ?case
  proof (cases "1020 \<le> c")
    case True
    then have c: "c div 1020 = Suc ((c - 1020) div 1020)" "c mod 1020 = (c - 1020) mod 1020"
      by (simp_all add: le_div_geq le_mod_geq)
    let ?m = "put_at (op + 4) (replicate 4 255) m"
    have fits: "op + 4 + 4 \<le> length m" using step(2) c by simp
    then have w: "LZ4_write32 (op + 4) 0xFFFFFFFF m = Inr ?m"
      by (simp only: LZ4_write32_def poke_def ones length_replicate if_True)
    have tk: "take (op + 4 + 4) ?m = (P @ replicate 4 255) @ replicate 4 255"
      using take_put_at_all [of "op + 4" "replicate 4 255" m] fits step(3) by simp
    have "returnsR (\<lambda>(op', c', m'). op' = op + 4 + 4 * ((c - 1020) div 1020) \<and> c' = (c - 1020) mod 1020 \<and>
        length m' = length ?m \<and>
        take (op' + 4) m' = (P @ replicate 4 255) @ replicate (4 * ((c - 1020) div 1020) + 4) 255)
      (write_match_code (op + 4) (c - 1020) ?m)"
      using step(1) [OF _ w, of "P @ replicate 4 255"] True tk fits step(2,4) c by simp
    then have "returnsR (\<lambda>(op', c', m'). op' = op + 4 * (c div 1020) \<and> c' = c mod 1020 \<and>
        length m' = length m \<and> take (op' + 4) m' = P @ replicate (4 * (c div 1020) + 4) 255)
      (write_match_code (op + 4) (c - 1020) ?m)"
      by (rule returnsR_mono) (use fits in \<open>auto simp: c replicate_add [symmetric] add.assoc\<close>)
    then show ?thesis using True w by (subst write_match_code.simps) simp
  next
    case False
    then show ?thesis using step(3,4) by (subst write_match_code.simps) simp
  qed
qed

lemma add_token_ok:
  assumes "take op m = P @ t # R" "length P = tok" "op \<le> length m"
  shows "\<exists>m'. add_token tok v m = Inr m' \<and> length m' = length m \<and> take op m' = P @ (t + of_nat v) # R"
proof -
  have op: "op = tok + 1 + length R" using arg_cong [OF assms(1), of length] assms(2,3) by simp
  have m: "m = P @ t # R @ drop op m"
    using append_take_drop_id [of op m] assms(1) by simp
  have "rd m tok 1 = Inr [t]"
    using assms op by (subst m) (simp add: rd_def view_def)
  moreover have "poke tok [t + of_nat v] m = Inr (P @ (t + of_nat v) # R @ drop op m)"
    using assms(2) op assms(3) by (subst (2) m, subst m) (simp add: poke_def put_at_inside)
  ultimately show ?thesis
    using assms(2,3) op by (intro exI [of _ "P @ (t + of_nat v) # R @ drop op m"]) (simp add: add_token_def)
qed

lemma token_add: "token a 0 + of_nat (min b 15) = token a b"
  by (simp add: token_def)

lemma take_past: "length xs = n \<Longrightarrow> take (n + k) (xs @ ys) = xs @ take k ys"
  by simp

lemma put_match_length_ok:
  assumes "take op m = P @ token a 0 # R" "length P = tok" "op \<le> length m"
    "op + 3 + length (len_ext c) \<le> length m"
  shows "returnsR (\<lambda>(op', m'). length m' = length m \<and> op' = op + length (len_ext c) \<and>
    take op' m' = P @ token a c # R @ len_ext c) (put_match_length tok op c m)"
proof (cases "15 \<le> c")
  case False
  obtain m' where "add_token tok c m = Inr m'" "length m' = length m" "take op m' = P @ token a c # R"
    using add_token_ok [OF assms(1,2,3), of c] token_add [of a c] False by auto
  then show ?thesis using False by (simp add: put_match_length_def len_ext_def)
next
  case True
  let ?c = "c - 15"
  obtain m1 where m1: "add_token tok ML_MASK m = Inr m1" "length m1 = length m" "take op m1 = P @ token a c # R"
    using add_token_ok [OF assms(1,2,3), of 15] token_add [of a c] True by auto
  have ext: "len_ext c = replicate (?c div 255) 255 @ [of_nat (?c mod 255)]"
    using True by (simp add: len_ext_def ext_def)
  note div = div_255 [of ?c]
  have small: "?c mod 1020 div 255 \<le> 3" by linarith
  let ?P = "P @ token a c # R"
  have room: "op + 4 * (?c div 1020) + 4 \<le> length m" using assms(4) ext div by simp
  let ?m = "put_at op (replicate 4 255) m1"
  have w: "LZ4_write32 op 0xFFFFFFFF m1 = Inr ?m"
    using room m1(2) by (simp add: LZ4_write32_def poke_def ones)
  have P: "length ?P = op"
    using arg_cong [OF m1(3), of length] m1(2) assms(3) by simp
  have "returnsR (\<lambda>(op', c', m'). op' = op + 4 * (?c div 1020) \<and> c' = ?c mod 1020 \<and> length m' = length ?m \<and>
      take (op' + 4) m' = ?P @ replicate (4 * (?c div 1020) + 4) 255) (write_match_code op ?c ?m)"
    using room m1 P take_put_at_all [of op "replicate 4 255" m1]
    by (intro write_match_code_ok) simp_all
  then obtain op2 m2 where m2: "write_match_code op ?c ?m = Inr (op2, ?c mod 1020, m2)"
    "op2 = op + 4 * (?c div 1020)" "length m2 = length m"
    "take (op2 + 4) m2 = ?P @ replicate (4 * (?c div 1020) + 4) 255"
    using room m1(2) by (auto simp: returnsR_def)
  let ?op = "op2 + ?c mod 1020 div 255" and ?b = "[of_nat (?c mod 1020 mod 255)]"
  have op: "?op = op + ?c div 255" using m2(2) div by simp
  have below: "?c div 255 \<le> 4 * (?c div 1020) + 4"
    unfolding div using small by simp
  have "take ?op m2 = take ?op (take (op2 + 4) m2)" using small by (simp add: min_def)
  also have "\<dots> = ?P @ replicate (?c div 255) 255"
    unfolding m2(4) op take_past [OF P] take_replicate min_absorb1 [OF below] ..
  finally have tk: "take ?op m2 = ?P @ replicate (?c div 255) 255" .
  have fits: "?op + length ?b \<le> length m2" using room m2(2,3) small by simp
  have "?c mod 1020 mod 255 = ?c mod 255" by (rule mod_mod_cancel) simp
  then have last: "?b = [of_nat (?c mod 255)]" by (simp only:)
  have "length (put_at ?op ?b m2) = length m"
    using fits m2(3) by simp
  moreover have "take (?op + 1) (put_at ?op ?b m2) = P @ token a c # R @ len_ext c"
    using take_put_at_all [OF fits] tk unfolding last ext by simp
  moreover have "?op + 1 = op + length (len_ext c)"
    unfolding op ext by simp
  moreover have "put_match_length tok op c m = Inr (?op + 1, put_at ?op ?b m2)"
    using True m1(1) w m2(1) poke_ok [OF fits] by (simp add: put_match_length_def Let_def)
  ultimately show ?thesis by simp
qed

text \<open>How far the match at \<open>mat\<close> goes on behind its first four bytes.\<close>

definition match_code :: "comp_args \<Rightarrow> nat \<Rightarrow> nat \<Rightarrow> nat" where
  "match_code C ip mat = prefix_from (c_src C) (ip + 4) (mat + 4) (matchlimit C)"

lemma not_limited: "c_dir C \<noteq> fillOutput \<Longrightarrow> c_dir C \<noteq> notLimited \<longleftrightarrow> limited C"
  by (cases "c_dir C") (simp_all add: limited_def)

lemma encode_match_ok:
  fixes C ip mat
  defines "c \<equiv> match_code C ip mat"
  assumes m: "take op m = P @ token a 0 # R" "length P = tok" "op + 2 \<le> length m"
    and ok: "match_ok (c_src C) ip mat" "ip + 12 \<le> length (c_src C)" "c_dir C \<noteq> fillOutput"
    and room: "\<not> limited C \<Longrightarrow> op + 5 + length (len_ext c) \<le> length m"
  shows "returnsR (\<lambda>r. case r of
      None \<Rightarrow> limited C
    | Some (ip', op', m') \<Rightarrow> ip' = ip + (c + 4) \<and> length m' = length m \<and> op' = op + 2 + length (len_ext c) \<and>
        take op' m' = P @ token a c # R @ le16_bytes (ip - mat) @ len_ext c \<and> (limited C \<longrightarrow> op' + 6 \<le> length m))
    (encode_match C ip mat tok op m)"
proof -
  have off: "(ip - mat) mod 2 ^ 16 = ip - mat"
    using ok(1) by (intro mod_less) (auto simp: match_ok_def)
  obtain m1 where m1: "LZ4_writeLE16 op (ip - mat) m = Inr m1"
    "emits op m (le16_bytes (ip - mat)) (op + 2, m1)"
    using poke_emits [of op "le16_bytes (ip - mat)" m] m(3) by (auto simp: LZ4_writeLE16_def)
  have len: "length m1 = length m" and tk: "take (op + 2) m1 = P @ token a 0 # (R @ le16_bytes (ip - mat))"
    using emitsD [OF m1(2)] m(1) by simp_all
  have count: "LZ4_count (c_src C) (ip + 4) (mat + 4) (matchlimit C) = Inr c"
    unfolding c_def match_code_def
    using ok(1,2) by (intro LZ4_count_exact) (simp_all add: matchlimit_def match_ok_def)
  have dir: "c_dir C \<noteq> notLimited \<longleftrightarrow> limited C" by (rule not_limited [OF ok(3)])
  note step = encode_match_def off m1(1) bindR_Inr Let_def lz4_constants count dir
  show ?thesis
  proof (cases "limited C \<and> length m1 < op + 2 + (1 + 5) + (c + 240) div 255")
    case True
    then show ?thesis unfolding step by simp
  next
    case False
    then have fits: "op + 2 + 3 + length (len_ext c) \<le> length m1"
      "limited C \<Longrightarrow> op + 2 + 6 + length (len_ext c) \<le> length m1"
      using room len by (auto simp: length_len_ext)
    have "op + 2 \<le> length m1" using m(3) len by simp
    from put_match_length_ok [OF tk m(2) this fits(1)]
    obtain m2 where m2: "put_match_length tok (op + 2) c m1 = Inr (op + 2 + length (len_ext c), m2)"
      "length m2 = length m1"
      "take (op + 2 + length (len_ext c)) m2 = P @ token a c # (R @ le16_bytes (ip - mat)) @ len_ext c"
      by (auto simp: returnsR_def)
    show ?thesis
      unfolding step if_not_P [OF False] m2(1) prod.case
      using m2(2,3) fits(2) len by (auto simp: add_ac)
  qed
qed

section \<open>Last literals\<close>

lemma last_literals_ok:
  assumes "anchor \<le> length (c_src C)" "op \<le> length m" "c_dir C \<noteq> fillOutput"
    "\<not> limited C \<Longrightarrow> op + (length (c_src C) - anchor) + 2 + (length (c_src C) - anchor) div 255 \<le> length m"
  shows "returnsR (\<lambda>(k, m'). length m' = length m \<and> (k = 0 \<and> limited C \<or>
    0 < k \<and> k = op + length (encode_last (drop anchor (c_src C))) \<and>
    take k m' = take op m @ encode_last (drop anchor (c_src C)) \<and> k \<le> length m)) (last_literals C anchor op m)"
proof (cases "limited C \<and>
    length m < op + (length (c_src C) - anchor) + 1 + (length (c_src C) - anchor + 255 - 15) div 255")
  case True
  then show ?thesis
    unfolding last_literals_def Let_def lz4_constants not_limited [OF assms(3)] by simp
next
  case False
  let ?l = "length (c_src C) - anchor" and ?src = "c_src C"
  have ext: "length (len_ext ?l) \<le> ?l div 255 + 1" "(?l + 255 - 15) div 255 = length (len_ext ?l)"
    by (simp_all add: len_ext_bounds length_len_ext)
  have fits: "op + ?l + 1 + length (len_ext ?l) \<le> length m"
  proof (cases "limited C")
    case True
    then show ?thesis using False ext(2) by linarith
  next
    case False
    then show ?thesis using assms(4) ext(1) by linarith
  qed
  then obtain op1 m1 where m1: "put_literal_length op ?l m = Inr (op1, m1)"
    "emits op m (token ?l 0 # len_ext ?l) (op1, m1)"
    using put_literal_length_emits [of op ?l m] by (auto simp: returnsR_def)
  note len = emitsD [OF m1(2)]
  have "op1 + ?l \<le> length m1" using fits len by simp
  then have cp: "LZ4_memcpy (Some ?src) op1 anchor ?l m1 = Inr (put_at op1 (view anchor ?l ?src) m1)"
    using assms(1) by (intro memcpy_from) simp_all
  have view: "view anchor ?l ?src = drop anchor ?src" by (simp add: view_def)
  have tk: "take (op1 + ?l) (put_at op1 (drop anchor ?src) m1) =
      take op m @ encode_last (drop anchor ?src)"
    using take_put_at_all [of op1 "drop anchor ?src" m1] \<open>op1 + ?l \<le> length m1\<close> len(3)
    by (simp add: encode_last_def)
  show ?thesis
    unfolding last_literals_def Let_def lz4_constants not_limited [OF assms(3)] if_not_P [OF False] m1(1)
      bindR_Inr prod.case cp view
    using tk len \<open>op1 + ?l \<le> length m1\<close> by (simp add: encode_last_def)
qed

end
