(* ===== verification/Lz4CompressCorrect.thy ===== *)
theory Lz4CompressCorrect
  imports Lz4Emit
begin

text \<open>
  The compressor against the block format: whatever \<open>LZ4_compress_generic\<close> returns is the encoding
  of valid sequences that expand to the input, on top of the prefix in front of it, it never leaves
  its buffers, its loops end, and it succeeds whenever the destination has the size
  \<open>LZ4_COMPRESSBOUND\<close> gives.
\<close>

section \<open>Matches\<close>

lemma repeat_from_take:
  assumes "mat < ip" "ip + n \<le> length src" "\<And>i. i < n \<Longrightarrow> src ! (mat + i) = src ! (ip + i)"
  shows "repeat_from (ip - mat) n (take ip src) = view ip n src"
proof (rule nth_equalityI)
  show "length (repeat_from (ip - mat) n (take ip src)) = length (view ip n src)"
    using assms(2) by simp
next
  fix i assume "i < length (repeat_from (ip - mat) n (take ip src))"
  then have i: "i < n" by simp
  let ?off = "ip - mat"
  have period: "i < n \<Longrightarrow> src ! (mat + i mod ?off) = src ! (ip + i)" for i
  proof (induction i rule: less_induct)
    case (less i)
    show ?case
    proof (cases "i < ?off")
      case True
      then show ?thesis using assms(3) less.prems by simp
    next
      case False
      then have "src ! (mat + (i - ?off) mod ?off) = src ! (ip + (i - ?off))"
        using less.prems assms(1) by (intro less.IH) simp_all
      moreover have "(i - ?off) mod ?off = i mod ?off"
        using False by (simp add: le_mod_geq)
      moreover have "ip + (i - ?off) = mat + i" using False assms(1) by simp
      ultimately show ?thesis using assms(3) [OF less.prems] by (simp only:)
    qed
  qed
  have "i mod ?off < ?off" using assms(1) by simp
  then have "mat + i mod ?off < ip" by simp
  then show "repeat_from ?off n (take ip src) ! i = view ip n src ! i"
    using i period [OF i] assms(1,2) by (simp add: repeat_from_def nth_view)
qed

text \<open>The first \<open>match_code\<close> and four bytes are equal, and no more than those fit or are equal.\<close>

lemma match_code_equal:
  assumes "match_ok src ip mat" "src = c_src C" "ip + 12 \<le> length src" "i < match_code C ip mat + 4"
  shows "src ! (mat + i) = src ! (ip + i)"
proof (cases "i < 4")
  case True
  have "mat < ip" "view mat 4 src ! i = view ip 4 src ! i" using assms(1) by (simp_all add: match_ok_def)
  then show ?thesis using True assms(3) nth_view [of i 4 mat src] nth_view [of i 4 ip src] by simp
next
  case False
  then obtain j where j: "i = 4 + j" using le_Suc_ex [of 4 i] by auto
  then have lt: "j < prefix_from src (ip + 4) (mat + 4) (matchlimit C)"
    using assms(2,4) by (simp add: match_code_def)
  have "j < matchlimit C - (ip + 4)"
    using lt prefix_from_le [of "ip + 4" "matchlimit C" src "mat + 4"] by simp
  then show ?thesis
    using common_nth [OF lt] assms(1,2,3) by (simp add: j match_ok_def matchlimit_def add.assoc)
qed

lemma match_code_le: "ip + 12 \<le> length (c_src C) \<Longrightarrow> ip + 4 + match_code C ip mat + 5 \<le> length (c_src C)"
  using prefix_from_le [of "ip + 4" "matchlimit C" "c_src C" "mat + 4"]
  by (simp add: match_code_def matchlimit_def)

lemma match_code_ge:
  assumes "\<And>i. i < n \<Longrightarrow> src ! (mat + i) = src ! (ip + i)" "src = c_src C" "ip + n + 5 \<le> length src"
    "mat < ip"
  shows "n \<le> match_code C ip mat + 4"
proof (rule ccontr)
  let ?c = "match_code C ip mat" and ?us = "drop (ip + 4) (take (matchlimit C) src)"
    and ?vs = "drop (mat + 4) src"
  assume "\<not> n \<le> ?c + 4"
  then have c: "?c + 4 < n" by simp
  have "?c < length ?us" "?c < length ?vs"
    using c assms(3,4) by (simp_all add: matchlimit_def assms(2) [symmetric])
  then have "?us ! ?c \<noteq> ?vs ! ?c"
    using common_maximal [of ?us ?vs] assms(2) by (simp add: match_code_def)
  moreover have "?us ! ?c = src ! (ip + (?c + 4))" "?vs ! ?c = src ! (mat + (?c + 4))"
    using c assms(3,4) by (simp_all add: matchlimit_def assms(2) [symmetric] add_ac)
  ultimately show False using assms(1) [OF c] by simp
qed

section \<open>What has been written\<close>

text \<open>
  The first \<open>op\<close> bytes of the output are sequences for the bytes of the input, which starts at \<open>p\<close>,
  up to \<open>anchor\<close>.
\<close>

definition written :: "nat \<Rightarrow> bytes \<Rightarrow> sequence list \<Rightarrow> nat \<Rightarrow> nat \<Rightarrow> bytes \<Rightarrow> bool" where
  "written p src seqs anchor op m \<longleftrightarrow> take op m = concat (map encode_seq seqs) \<and> op \<le> length m \<and>
     op = length (concat (map encode_seq seqs)) \<and> p \<le> anchor \<and>
     expand (take p src) seqs [] = take anchor src \<and> anchor \<le> length src \<and> valid_from p (length src) seqs"

lemma valid_from_append:
  "valid_from (length out) n xs \<Longrightarrow> valid_from (length (expand out xs [])) n ys \<Longrightarrow>
    valid_from (length out) n (xs @ ys)"
proof (induction xs arbitrary: out)
  case (Cons s r)
  obtain l off k where "s = Sequence l off k" by (cases s)
  then show ?case using Cons.prems Cons.IH [of "out @ l @ repeat_from off k (out @ l)"]
    by (simp add: add.assoc)
qed simp

text \<open>The encoding of a sequence is not longer than what it stands for, but for a byte in 255.\<close>

lemma sequence_size:
  fixes p l n :: nat
  assumes "4 \<le> n"
  shows "p + p div 255 + (3 + length (len_ext l) + l + length (len_ext (n - 4))) \<le>
    p + l + n + (p + l + n) div 255"
proof -
  have l: "length (len_ext l) \<le> l div 255 + 1" by (rule len_ext_bounds)
  have n: "length (len_ext (n - 4)) \<le> n - 4" by (rule len_ext_bounds)
  have sum: "p div 255 + l div 255 \<le> (p + l + n) div 255"
    by linarith
  from l n sum assms show ?thesis by linarith
qed

lemma encoded_size:
  "valid_from (length out) n seqs \<Longrightarrow> \<exists>d. length (expand out seqs []) = length out + d \<and>
    length (concat (map encode_seq seqs)) \<le> d + d div 255"
proof (induction seqs arbitrary: out)
  case (Cons s r)
  obtain l off k where s: "s = Sequence l off k" by (cases s)
  let ?out = "out @ l @ repeat_from off k (out @ l)"
  have k: "4 \<le> k" and "valid_from (length ?out) n r"
    using Cons.prems s by (simp_all add: add.assoc)
  from Cons.IH [OF this(2)] obtain d where d: "length (expand ?out r []) = length ?out + d"
    "length (concat (map encode_seq r)) \<le> d + d div 255" by blast
  have "length (concat (map encode_seq (s # r))) \<le> (d + length l + k) + (d + length l + k) div 255"
    using d(2) sequence_size [OF k, of d "length l"] s by simp
  moreover have "length (expand out (s # r) []) = length out + (d + length l + k)"
    using d(1) s by simp
  ultimately show ?case by blast
qed simp

lemma written_size:
  assumes "written p src seqs anchor op m"
  shows "op \<le> (anchor - p) + (anchor - p) div 255"
proof -
  have w: "expand (take p src) seqs [] = take anchor src" "anchor \<le> length src" "p \<le> anchor"
    "valid_from (length (take p src)) (length src) seqs" "op = length (concat (map encode_seq seqs))"
    using assms by (auto simp: written_def min_absorb2)
  from encoded_size [OF w(4)] obtain d where "length (expand (take p src) seqs []) = length (take p src) + d"
    "op \<le> d + d div 255" using w(5) by blast
  moreover from this(1) have "d = anchor - p" using w(1-3) by (simp add: min_absorb2)
  ultimately show ?thesis by simp
qed

lemma written_extend:
  assumes "written p src seqs anchor op m" "anchor \<le> ip" "match_ok src ip mat" "ip + 12 \<le> length src"
    "4 \<le> n" "ip + n + 5 \<le> length src" "\<And>i. i < n \<Longrightarrow> src ! (mat + i) = src ! (ip + i)"
    "take op' m' = concat (map encode_seq seqs) @
      encode_seq (Sequence (view anchor (ip - anchor) src) (ip - mat) n)" "op' \<le> length m'"
  shows "written p src (seqs @ [Sequence (view anchor (ip - anchor) src) (ip - mat) n]) (ip + n) op' m'"
proof -
  let ?s = "Sequence (view anchor (ip - anchor) src) (ip - mat) n"
  have l: "length (view anchor (ip - anchor) src) = ip - anchor" using assms(2,4) by simp
  have lits: "take anchor src @ view anchor (ip - anchor) src = take ip src"
    using take_add [of anchor "ip - anchor" src] assms(2) by (simp add: view_def)
  have seqs: "expand (take p src) seqs [] = take anchor src" "anchor \<le> length src" "valid_from p (length src) seqs"
    "p \<le> anchor"
    using assms(1) by (auto simp: written_def)
  have mat: "mat < ip" "ip \<le> mat + 65535" using assms(3) by (simp_all add: match_ok_def)
  have "take ip src @ view ip n src = take (ip + n) src"
    by (simp add: view_def take_add)
  moreover have "repeat_from (ip - mat) n (take ip src) = view ip n src"
    using repeat_from_take [of mat ip n src] mat(1) assms(6,7) by simp
  moreover have "expand (take anchor src) [?s] [] = take ip src @ repeat_from (ip - mat) n (take ip src)"
    using lits by (simp flip: append_assoc)
  ultimately have exp: "expand (take p src) (seqs @ [?s]) [] = take (ip + n) src"
    by (simp only: expand_append seqs(1))
  have "valid_from anchor (length src) [?s]"
    using assms(2,4,5,6) mat l by simp
  moreover have "length (take p src) = p" "length (take anchor src) = anchor" using seqs by (simp_all add: min_def)
  ultimately have valid: "valid_from p (length src) (seqs @ [?s])"
    using valid_from_append [of "take p src" "length src" seqs "[?s]"] seqs by simp
  have enc: "take op' m' = concat (map encode_seq (seqs @ [?s]))" using assms(8) by simp
  have "op' = length (concat (map encode_seq (seqs @ [?s])))"
    unfolding enc [symmetric] using assms(9) by simp
  then show ?thesis
    using exp valid enc assms(2,6,9) seqs(4) by (simp only: written_def) simp
qed

section \<open>The states of the main loop\<close>

definition roomy :: "comp_args \<Rightarrow> nat \<Rightarrow> bool" where
  "roomy C cap \<longleftrightarrow> (\<not> limited C \<longrightarrow> input_size C + input_size C div 255 + 16 \<le> cap)"

text \<open>
  At \<open>_next_match\<close> the literals since \<open>anchor\<close> are out, and the match goes on at least to where the
  search found it, \<open>q\<close>, and four bytes more.
\<close>

definition half_written :: "nat \<Rightarrow> bytes \<Rightarrow> sequence list \<Rightarrow> nat \<Rightarrow> nat \<Rightarrow> nat \<Rightarrow> nat \<Rightarrow> bytes \<Rightarrow> bool" where
  "half_written p src seqs anchor ip tok op m \<longleftrightarrow> (\<exists>m0. written p src seqs anchor tok m0) \<and> anchor \<le> ip \<and>
     op = tok + 1 + length (len_ext (ip - anchor)) + (ip - anchor) \<and>
     take op m = concat (map encode_seq seqs) @
       token (ip - anchor) 0 # len_ext (ip - anchor) @ view anchor (ip - anchor) src"

definition reaches :: "bytes \<Rightarrow> nat \<Rightarrow> nat \<Rightarrow> nat \<Rightarrow> bool" where
  "reaches src ip mat q \<longleftrightarrow> match_ok src ip mat \<and> ip \<le> q \<and> q + 12 \<le> length src \<and>
     (\<forall>i < q + 4 - ip. src ! (mat + i) = src ! (ip + i))"

fun inv_state :: "comp_args \<Rightarrow> nat \<Rightarrow> comp_state \<Rightarrow> bool" where
  "inv_state C cap (Searching ip h anchor op t m) \<longleftrightarrow> length m = cap \<and>
     (\<exists>seqs. written (c_start C) (c_src C) seqs anchor op m) \<and> ip = anchor + 1 \<and> ip \<le> mflimitPlusOne C \<and>
     table_ok ip t"
| "inv_state C cap (Matching ip mat tok op t m) \<longleftrightarrow> length m = cap \<and> op + 2 \<le> cap \<and>
     (\<exists>seqs anchor. half_written (c_start C) (c_src C) seqs anchor ip tok op m) \<and>
     (\<exists>q. reaches (c_src C) ip mat q \<and> table_ok (q + 1) t)"
| "inv_state C cap (LastRun anchor op t m) \<longleftrightarrow> length m = cap \<and>
     (\<exists>seqs. written (c_start C) (c_src C) seqs anchor op m) \<and> table_ok (length (c_src C) + 1) t"
| "inv_state C cap (Full t m) \<longleftrightarrow> length m = cap \<and> limited C \<and> table_ok (length (c_src C) + 1) t"

fun rank :: "comp_args \<Rightarrow> comp_state \<Rightarrow> nat" where
  "rank C (Searching ip h anchor op t m) = 2 * (length (c_src C) - ip) + 3"
| "rank C (Matching ip mat tok op t m) = 2 * (length (c_src C) - ip)"
| "rank C (LastRun anchor op t m) = 0"
| "rank C (Full t m) = 0"

lemma catch_up_reaches:
  assumes "match_ok src q mat" "q + 12 \<le> length src" "anchor \<le> q"
  shows "returnsR (\<lambda>(ip, mat'). anchor \<le> ip \<and> reaches src ip mat' q) (catch_up src low anchor q mat)"
proof -
  have pre: "mat < q" "q \<le> mat + 65535" "q + 4 \<le> length src" "view mat 4 src = view q 4 src"
    using assms by (simp_all add: match_ok_def)
  have reach: "reaches src ip mat' q"
    if r: "ip \<le> q" "mat' < ip" "ip - mat' = q - mat" "view mat' (4 + (q - ip)) src = view ip (4 + (q - ip)) src"
    for ip mat'
  proof -
    let ?k = "4 + (q - ip)"
    have "view i 4 src = take 4 (view i ?k src)" for i by (simp add: view_def min_def)
    then have "view mat' 4 src = view ip 4 src" using r(4) by metis
    moreover have "src ! (mat' + i) = src ! (ip + i)" if i: "i < q + 4 - ip" for i
    proof -
      have k: "i < ?k" using i r(1) by simp
      have "view mat' ?k src ! i = view ip ?k src ! i" using r(4) by simp
      then show ?thesis
        using nth_view [OF k, of mat' src] nth_view [OF k, of ip src] r(1,2) k assms(2) by simp
    qed
    ultimately show ?thesis
      using r pre assms(2) by (simp add: reaches_def match_ok_def)
  qed
  show ?thesis
    by (rule returnsR_mono [OF catch_up_ok [OF assms(3) pre(1,3,4)]]) (auto intro: reach)
qed

section \<open>One round\<close>

definition next_ok :: "comp_args \<Rightarrow> nat \<Rightarrow> nat \<Rightarrow> comp_state \<Rightarrow> bool" where
  "next_ok C cap r s \<longleftrightarrow> inv_state C cap s \<and> rank C s < r"

lemma written_room:
  assumes "roomy C (length m)" "\<not> limited C" "written (c_start C) (c_src C) seqs anchor op m'"
    "anchor + k \<le> length (c_src C)"
  shows "op + k + k div 255 + 16 \<le> length m"
proof -
  obtain a where a: "anchor = c_start C + a" using assms(3) le_Suc_ex unfolding written_def by blast
  have "input_size C + input_size C div 255 + 16 \<le> length m" using assms(1,2) by (simp add: roomy_def)
  moreover have "a + k \<le> input_size C" using assms(4) unfolding a input_size_def by simp
  moreover have "op \<le> a + a div 255" using written_size [OF assms(3)] by (simp add: a)
  ultimately show ?thesis by linarith
qed

lemma literals_room:
  assumes "roomy C (length m)" "written (c_start C) (c_src C) seqs anchor op m" "anchor \<le> ip"
    "ip + 12 \<le> length (c_src C)" "\<not> limited C"
  shows "op + 1 + (ip - anchor) + 8 + (ip - anchor) div 255 \<le> length m"
  using written_room [OF assms(1,5,2), of "ip - anchor"] assms(3,4) by simp

text \<open>The literals, after the search has found a match and gone back.\<close>

lemma literals_step:
  assumes C: "roomy C cap" "length m = cap" and w: "written (c_start C) (c_src C) seqs anchor op m"
    and re: "anchor \<le> ip" "reaches (c_src C) ip mat q" "table_ok (q + 1) t" "2 * (length (c_src C) - ip) < r"
  shows "returnsR (next_ok C cap r) (bindR (encode_literals C anchor ip op m) (\<lambda>x.
    case x of None \<Rightarrow> Inr (Full t m) | Some (op', m) \<Rightarrow> Inr (Matching ip mat op op' t m)))"
proof -
  let ?src = "c_src C"
  have ip: "ip + 12 \<le> length ?src" using re(2) by (simp add: reaches_def)
  have room: "op + 1 + (ip - anchor) + 8 + (ip - anchor) div 255 \<le> length m" if "\<not> limited C"
    using literals_room [OF _ w re(1) ip that] C by simp
  have matching: "next_ok C cap r (Matching ip mat op op' t m')"
    if e: "emits op m (token (ip - anchor) 0 # len_ext (ip - anchor) @ view anchor (ip - anchor) ?src) (op', m')"
      "op' + 2 \<le> length m" for op' m'
  proof -
    have "half_written (c_start C) ?src seqs anchor ip op op' m'"
      using emitsD [OF e(1)] w re(1) ip unfolding half_written_def by (auto simp: written_def)
    then show ?thesis
      using emitsD(1) [OF e(1)] e(2) C(2) re by (auto simp: next_ok_def)
  qed
  have "table_ok (length ?src + 1) t"
    using re(2) by (intro table_ok_mono [OF re(3)]) (simp add: reaches_def)
  then have full: "next_ok C cap r (Full t m)" if "limited C" using that C(2) re(4) by (simp add: next_ok_def)
  show ?thesis
    by (rule returnsR_bindR [OF encode_literals_emits [OF re(1) ip room]])
      (auto intro: matching full split: option.splits)
qed

lemma search_step_ok:
  assumes C: "comp_ok C" "roomy C cap" and inv: "inv_state C cap (Searching ip h anchor op t m)"
  shows "returnsR (next_ok C cap (rank C (Searching ip h anchor op t m))) (search_step C ip h anchor op t m)"
proof -
  define r where "r = rank C (Searching ip h anchor op t m)"
  obtain seqs where w: "written (c_start C) (c_src C) seqs anchor op m" using inv by auto
  have m: "length m = cap" and ip: "ip = anchor + 1" "ip \<le> mflimitPlusOne C" "table_ok ip t"
    using inv by auto
  have "1 \<le> c_acc C" using C(1) by (simp add: comp_ok_def)
  then have found: "returnsR (found C ip) (find_match (length (c_src C)) C ip 1 (c_acc C * 2 ^ 6) h t)"
    using C(1) ip by (intro find_match_ok) simp_all
  have go_on: "returnsR (next_ok C cap r)
      (bindR (catch_up (c_src C) (c_low C) anchor q mat) (\<lambda>(ip, mat).
       bindR (encode_literals C anchor ip op m) (\<lambda>r.
         case r of None \<Rightarrow> Inr (Full t' m)
         | Some (op', m) \<Rightarrow> Inr (Matching ip mat op op' t' m))))"
    if q: "found C ip (Some (q, mat), t')" for q mat t'
  proof (rule returnsR_bindR [OF catch_up_reaches])
    show "match_ok (c_src C) q mat" "q + 12 \<le> length (c_src C)" "anchor \<le> q" using q ip(1) by simp_all
    show "returnsR (next_ok C cap r) (case x of (ip, mat) \<Rightarrow>
       bindR (encode_literals C anchor ip op m) (\<lambda>r.
         case r of None \<Rightarrow> Inr (Full t' m)
         | Some (op', m) \<Rightarrow> Inr (Matching ip mat op op' t' m)))"
      if "case x of (ip, mat') \<Rightarrow> anchor \<le> ip \<and> reaches (c_src C) ip mat' q" for x
      using that q ip(1) by (auto simp: r_def intro!: literals_step [OF C(2) m w])
  qed
  have last: "next_ok C cap r (LastRun anchor op t' m)" if "found C ip (None, t')" for t'
    using w m that by (auto simp: next_ok_def r_def)
  show ?thesis
    unfolding search_step_def r_def [symmetric]
  proof (rule returnsR_bindR [OF found])
    fix x assume x: "found C ip x"
    obtain y t' where y: "x = (y, t')" by fastforce
    show "returnsR (next_ok C cap r) (case x of (r, t) \<Rightarrow> case r of None \<Rightarrow> Inr (LastRun anchor op t m)
      | Some (ip, mat) \<Rightarrow>
          bindR (catch_up (c_src C) (c_low C) anchor ip mat) (\<lambda>(ip, mat).
          bindR (encode_literals C anchor ip op m) (\<lambda>r.
            case r of None \<Rightarrow> Inr (Full t m)
            | Some (op', m) \<Rightarrow> Inr (Matching ip mat op op' t m))))"
      using x last go_on unfolding y by (cases y) (auto simp del: found_simps)
  qed
qed

text \<open>After a match.\<close>

lemma test_next_ok:
  assumes C: "comp_ok C" "roomy C cap" and w: "written (c_start C) (c_src C) seqs ip op m" "length m = cap"
    and ip: "4 \<le> ip" "ip + 5 \<le> length (c_src C)" "table_ok (ip - 3) t" "limited C \<Longrightarrow> op + 6 \<le> cap"
    and r: "2 * (length (c_src C) - ip) + 1 < r"
  shows "returnsR (next_ok C cap r) (test_next C ip op t m)"
proof (cases "mflimitPlusOne C \<le> ip")
  case True
  moreover have "table_ok (length (c_src C) + 1) t" using ip(2) by (intro table_ok_mono [OF ip(3)]) simp
  ultimately show ?thesis using w r by (auto simp: test_next_def next_ok_def)
next
  case False
  let ?src = "c_src C" and ?tt = "c_table C"
  have near: "ip + 12 \<le> length ?src" using False mflimitPlusOne_eq [OF C(1)] by simp
  have "ip - 2 + 8 \<le> length ?src" "ip - 2 < ip - 1" using near ip(1) by simp_all
  then obtain t1 where t1: "LZ4_putPosition ?src (ip - 2) t ?tt = Inr t1" "table_ok (ip - 1) t1"
    using putPosition_ok [of "ip - 2" ?src "ip - 1" t ?tt] table_ok_mono [OF ip(3), of "ip - 1"] by auto
  obtain h where h: "LZ4_hashPosition ?src ip ?tt = Inr h" using hashPosition_ok [of ip ?src ?tt] near by auto
  obtain h' where h': "LZ4_hashPosition ?src (ip + 1) ?tt = Inr h'"
    using hashPosition_ok [of "ip + 1" ?src ?tt] near by auto
  let ?mi = "LZ4_getIndexOnHash h t1" and ?t = "LZ4_putIndexOnHash ip h t1 ?tt"
  define close where "close \<longleftrightarrow> (c_issue C = dictSmall \<longrightarrow> c_limit C \<le> ?mi) \<and>
    (?tt = byU16 \<or> ip \<le> ?mi + LZ4_DISTANCE_MAX)"
  have mi: "?mi < ip" using table_ok_get [OF t1(2), of h] by simp
  have t: "table_ok (ip + 1) ?t" by (intro table_ok_put table_ok_mono [OF t1(2)]) simp_all
  have room: "op + 3 \<le> length m"
    using written_room [OF _ _ w(1), of m 0] C(2) ip near w(2) by (cases "limited C") simp_all
  have search: "next_ok C cap r (Searching (ip + 1) h' ip op ?t m)"
    using w t False r near by (auto simp: next_ok_def)
  have again: "returnsR (next_ok C cap r) (bindR (poke op [0] m) (\<lambda>m. Inr (Matching ip ?mi op (op + 1) ?t m)))"
    if eq: "match_ok ?src ip ?mi"
  proof -
    obtain m1 where m1: "poke op [0] m = Inr m1" "emits op m [0] (op + 1, m1)"
      using poke_emits [of op "[0]" m] room by auto
    have "half_written (c_start C) ?src seqs ip ip op (op + 1) m1"
      using emitsD [OF m1(2)] w by (auto simp: half_written_def written_def len_ext_def token_def)
    moreover have "reaches ?src ip ?mi ip"
      using eq near nth_view [of _ 4 ?mi ?src] nth_view [of _ 4 ip ?src] mi
      by (auto simp: reaches_def match_ok_def)
    ultimately show ?thesis
      using m1 emitsD(1) [OF m1(2)] room w(2) r t by (auto simp: next_ok_def)
  qed
  have near_match: "match_ok ?src ip ?mi"
    if close "view ?mi 4 ?src = view ip 4 ?src"
    using that C(1) near mi by (auto simp: close_def match_ok_def LZ4_DISTANCE_MAX_def comp_ok_def LZ4_64Klimit_def)
  have reads: "LZ4_read32 ?src ?mi = Inr (le32 (view ?mi 4 ?src))" "LZ4_read32 ?src ip = Inr (le32 (view ip 4 ?src))"
    "le32 (view ?mi 4 ?src) = le32 (view ip 4 ?src) \<longleftrightarrow> view ?mi 4 ?src = view ip 4 ?src"
    using mi near by (simp_all add: LZ4_read32_def le32_eq_iff)
  show ?thesis
    unfolding test_next_def if_not_P [OF False] t1(1) h bindR_Inr Let_def reads h' close_def [symmetric]
    using again near_match search
    by (cases close; cases "view ?mi 4 ?src = view ip 4 ?src")
      (simp_all only: if_True if_False bindR_Inr returnsR_Inr simp_thms)
qed

lemma match_room:
  assumes "roomy C (length m)" "\<not> limited C" "half_written (c_start C) (c_src C) seqs anchor ip tok op m"
    "ip + 12 \<le> length (c_src C)"
  shows "op + 5 + length (len_ext (match_code C ip mat)) \<le> length m"
proof -
  let ?c = "match_code C ip mat"
  obtain m0 where w: "written (c_start C) (c_src C) seqs anchor tok m0" and "anchor \<le> ip"
    using assms(3) unfolding half_written_def by blast
  then obtain l where l: "ip = anchor + l" using le_Suc_ex by blast
  have op: "op = tok + 1 + length (len_ext l) + l" using assms(3) by (simp add: half_written_def l)
  have ext: "length (len_ext l) \<le> l div 255 + 1" "length (len_ext ?c) \<le> ?c div 255 + 1"
    by (fact len_ext_bounds)+
  have "tok + (l + 4 + ?c + 5) + (l + 4 + ?c + 5) div 255 + 16 \<le> length m"
    using match_code_le [OF assms(4), of mat] by (intro written_room [OF assms(1,2) w]) (simp add: l)
  with op ext show ?thesis by linarith
qed

text \<open>A match found at \<open>q\<close> leads at least four bytes past it.\<close>

lemma match_code_reaches:
  assumes "reaches (c_src C) ip mat q"
  shows "q + 4 \<le> ip + (match_code C ip mat + 4)"
proof -
  have r: "match_ok (c_src C) ip mat" "ip \<le> q" "q + 12 \<le> length (c_src C)"
    "\<And>i. i < q + 4 - ip \<Longrightarrow> c_src C ! (mat + i) = c_src C ! (ip + i)"
    using assms by (simp_all add: reaches_def)
  have "q + 4 - ip \<le> match_code C ip mat + 4"
    using r by (intro match_code_ge [OF _ refl]) (simp_all add: match_ok_def)
  then show ?thesis using r(2) by simp
qed

lemma match_step_ok:
  assumes C: "comp_ok C" "roomy C cap" and inv: "inv_state C cap (Matching ip mat tok op t m)"
  shows "returnsR (next_ok C cap (rank C (Matching ip mat tok op t m))) (match_step C ip mat tok op t m)"
proof -
  let ?src = "c_src C" and ?c = "match_code C ip mat"
  define r where "r = rank C (Matching ip mat tok op t m)"
  obtain seqs anchor q where hw: "half_written (c_start C) ?src seqs anchor ip tok op m"
    and re: "reaches ?src ip mat q" and t: "table_ok (q + 1) t"
    using inv by auto
  have m: "length m = cap" "op + 2 \<le> cap" using inv by simp_all
  obtain m0 where w: "written (c_start C) ?src seqs anchor tok m0" using hw by (auto simp: half_written_def)
  have hw': "anchor \<le> ip" "take op m = concat (map encode_seq seqs) @
      token (ip - anchor) 0 # (len_ext (ip - anchor) @ view anchor (ip - anchor) ?src)"
    using hw unfolding half_written_def by blast+
  have tok: "length (concat (map encode_seq seqs)) = tok" using w by (simp add: written_def)
  have ok: "match_ok ?src ip mat" "ip + 12 \<le> length ?src" using re by (simp_all add: reaches_def)
  have room: "\<not> limited C \<Longrightarrow> op + 5 + length (len_ext ?c) \<le> length m"
    using match_room [OF _ _ hw ok(2)] C(2) m(1) by simp
  have fill: "c_dir C \<noteq> fillOutput" using C(1) by (simp add: comp_ok_def)
  have "op + 2 \<le> length m" using m by simp
  note enc = encode_match_ok [OF hw'(2) tok this ok fill room]
  have next_state: "returnsR (next_ok C cap r) (test_next C (ip + (?c + 4)) op' t m')"
    if e: "length m' = length m" "op' = op + 2 + length (len_ext ?c)"
      "take op' m' = concat (map encode_seq seqs) @ token (ip - anchor) ?c #
        (len_ext (ip - anchor) @ view anchor (ip - anchor) ?src) @ le16_bytes (ip - mat) @ len_ext ?c"
      "limited C \<longrightarrow> op' + 6 \<le> length m" for op' m'
  proof (rule test_next_ok [OF C])
    have l: "length (view anchor (ip - anchor) ?src) = ip - anchor" using ok(2) hw'(1) by simp
    have "op' \<le> length m'"
      using e(1,2,4) room by (cases "limited C") auto
    then show "written (c_start C) ?src (seqs @ [Sequence (view anchor (ip - anchor) ?src) (ip - mat) (?c + 4)])
        (ip + (?c + 4)) op' m'"
      using e(3) l match_code_equal [OF ok(1) refl ok(2)] match_code_le [OF ok(2), of mat]
      by (intro written_extend [OF w hw'(1) ok]) (simp_all add: add.commute add.left_commute)
    show "length m' = cap" "4 \<le> ip + (?c + 4)" "ip + (?c + 4) + 5 \<le> length ?src"
      "limited C \<Longrightarrow> op' + 6 \<le> cap"
      using e m match_code_le [OF ok(2), of mat] by simp_all
    show "table_ok (ip + (?c + 4) - 3) t"
      using match_code_reaches [OF re] by (intro table_ok_mono [OF t]) simp
    show "2 * (length ?src - (ip + (?c + 4))) + 1 < r"
      using ok(2) by (simp add: r_def)
  qed
  have "table_ok (length ?src + 1) t"
    using re by (intro table_ok_mono [OF t]) (simp add: reaches_def)
  then have full: "limited C \<Longrightarrow> next_ok C cap r (Full t m)"
    using m(1) ok(2) by (simp add: next_ok_def r_def)
  show ?thesis
    unfolding match_step_def r_def [symmetric]
    by (rule returnsR_bindR [OF enc]) (auto intro: next_state full split: option.splits)
qed

section \<open>The whole loop\<close>

definition compressed :: "comp_args \<Rightarrow> nat \<Rightarrow> nat \<times> table \<times> bytes \<Rightarrow> bool" where
  "compressed C cap r \<longleftrightarrow> (case r of (k, t, m) \<Rightarrow> length m = cap \<and> table_ok (length (c_src C) + 1) t \<and>
     (k = 0 \<and> limited C \<or>
      0 < k \<and> k \<le> cap \<and> (\<exists>seqs fin. take k m = encode_block seqs fin \<and>
        expand (take (c_start C) (c_src C)) seqs fin = c_src C \<and>
        valid_from (c_start C) (length (c_src C)) seqs) \<and>
        k \<le> input_size C + input_size C div 255 + 2))"

lemma expand_last: "expand out seqs fin = expand out seqs [] @ fin"
proof (induction seqs arbitrary: out)
  case (Cons s r)
  then show ?case by (cases s) simp
qed simp

lemma last_run_ok:
  assumes "c_dir C \<noteq> fillOutput" "roomy C cap" "written (c_start C) (c_src C) seqs anchor op m" "length m = cap"
    "table_ok (length (c_src C) + 1) t"
  shows "returnsR (\<lambda>(k, m). compressed C cap (k, t, m)) (last_literals C anchor op m)"
proof -
  let ?src = "c_src C" and ?fin = "drop anchor (c_src C)"
  have w: "take op m = concat (map encode_seq seqs)" "op \<le> length m"
    "expand (take (c_start C) ?src) seqs [] = take anchor ?src" "anchor \<le> length ?src"
    "valid_from (c_start C) (length ?src) seqs"
    using assms(3) by (auto simp: written_def)
  obtain l where l: "length ?src = anchor + l" using w(4) le_Suc_ex by blast
  obtain a where a: "anchor = c_start C + a" using assms(3) le_Suc_ex unfolding written_def by blast
  have sz: "input_size C = a + l" unfolding input_size_def l a by simp
  have "op \<le> a + a div 255" using written_size [OF assms(3)] by (simp add: a)
  then have size: "op + l + 2 + l div 255 \<le> input_size C + input_size C div 255 + 2"
    unfolding sz by linarith
  have "\<not> limited C \<Longrightarrow> op + (length ?src - anchor) + 2 + (length ?src - anchor) div 255 \<le> length m"
    using size assms(2,4) by (simp add: roomy_def l)
  note last = last_literals_ok [OF w(4,2) assms(1) this]
  have "expand (take (c_start C) ?src) seqs ?fin = ?src"
    by (subst expand_last) (simp add: w(3))
  moreover have "op + length (encode_last ?fin) \<le> input_size C + input_size C div 255 + 2"
    using size len_ext_bounds(1) [of l] by (simp add: encode_last_def l)
  moreover have "take op m @ encode_last ?fin = encode_block seqs ?fin"
    by (simp add: w(1) encode_block_def)
  ultimately have "compressed C cap (op + length (encode_last ?fin), t, m')"
    if "length m' = length m" "op + length (encode_last ?fin) \<le> length m" "0 < op + length (encode_last ?fin)"
      "take (op + length (encode_last ?fin)) m' = take op m @ encode_last ?fin" for m'
    using that assms(4,5) w(5) unfolding compressed_def by (auto intro!: exI [of _ seqs] exI [of _ ?fin])
  then show ?thesis
    by (intro returnsR_mono [OF last]) (use assms(4,5) in \<open>auto simp: compressed_def\<close>)
qed

lemma compress_loop_ok:
  assumes C: "comp_ok C" "roomy C cap"
  shows "inv_state C cap s \<Longrightarrow> rank C s < fuel \<Longrightarrow> returnsR (compressed C cap) (compress_loop fuel C s)"
proof (induction fuel arbitrary: s)
  case (Suc fuel)
  have go_on: "returnsR (compressed C cap) (compress_loop fuel C s')" if "next_ok C cap (rank C s) s'" for s'
    using that Suc.prems(2) by (intro Suc.IH) (simp_all add: next_ok_def)
  have fill: "c_dir C \<noteq> fillOutput" using C(1) by (simp add: comp_ok_def)
  show ?case
  proof (cases s)
    case (Searching ip h anchor op t m)
    have "returnsR (next_ok C cap (rank C s)) (search_step C ip h anchor op t m)"
      unfolding Searching using Suc.prems(1) by (intro search_step_ok [OF C]) (simp only: Searching)
    then show ?thesis by (simp add: Searching returnsR_bindR [OF _ go_on])
  next
    case (Matching ip mat tok op t m)
    have "returnsR (next_ok C cap (rank C s)) (match_step C ip mat tok op t m)"
      unfolding Matching using Suc.prems(1) by (intro match_step_ok [OF C]) (simp only: Matching)
    then show ?thesis by (simp add: Matching returnsR_bindR [OF _ go_on])
  next
    case (LastRun anchor op t m)
    then obtain seqs where "written (c_start C) (c_src C) seqs anchor op m" "length m = cap"
      "table_ok (length (c_src C) + 1) t" using Suc.prems(1) by auto
    then show ?thesis
      by (simp add: LastRun) (rule returnsR_bindR [OF last_run_ok [OF fill C(2)]], auto)
  next
    case (Full t m)
    then show ?thesis using Suc.prems(1) by (simp add: compressed_def)
  qed
qed simp

section \<open>The entry points\<close>

text \<open>
  The stream before a call: the memory starts at index 0 and the input at \<open>startIndex\<close>, and the table
  holds indices of what was there before. Afterwards the input has been added, unless the call
  was refused.
\<close>

definition stream_ok :: "LZ4_stream \<Rightarrow> comp_args \<Rightarrow> bool" where
  "stream_ok st C \<longleftrightarrow> c_start C = st_currentOffset st \<and> c_start C \<le> length (c_src C) \<and>
     table_ok (st_currentOffset st + 1) (st_hashTable st)"

definition stream_after :: "LZ4_stream \<Rightarrow> comp_args \<Rightarrow> LZ4_stream \<Rightarrow> bool" where
  "stream_after st C st' \<longleftrightarrow> st_currentOffset st' = length (c_src C) \<and>
     st_dictSize st' = st_dictSize st + input_size C \<and> st_tableType st' = c_table C \<and>
     table_ok (length (c_src C) + 1) (st_hashTable st')"

definition streamed :: "LZ4_stream \<Rightarrow> comp_args \<Rightarrow> nat \<Rightarrow> nat \<times> LZ4_stream \<times> bytes \<Rightarrow> bool" where
  "streamed st C cap r \<longleftrightarrow> (case r of (k, st', m) \<Rightarrow> (\<exists>t. compressed C cap (k, t, m)) \<and>
     (0 < input_size C \<longrightarrow> stream_after st C st'))"

lemma written_nothing: "p \<le> length src \<Longrightarrow> written p src [] p 0 m"
  by (simp add: written_def)

lemma compress_validated_ok:
  assumes C: "c_table C = byU16 \<or> c_table C = byU32"
    "c_table C = byU16 \<longrightarrow> length (c_src C) < LZ4_64Klimit"
    "1 \<le> c_acc C" "c_dir C \<noteq> fillOutput" "roomy C (length m)"
    and st: "stream_ok st C"
  shows "returnsR (streamed st C (length m)) (LZ4_compress_generic_validated st C m)"
proof -
  let ?src = "c_src C" and ?tt = "c_table C" and ?p = "c_start C"
  let ?st = "st\<lparr>st_dictSize := st_dictSize st + input_size C,
    st_currentOffset := st_currentOffset st + input_size C, st_tableType := c_table C\<rparr>"
  have p: "?p \<le> length ?src" "?p = st_currentOffset st" "table_ok (?p + 1) (st_hashTable st)"
    using st by (simp_all add: stream_ok_def)
  have no_limit: "\<not> (?tt = byU16 \<and> LZ4_64Klimit \<le> input_size C)"
    using C(2) by (auto simp: input_size_def)
  have after: "stream_after st C (?st\<lparr>st_hashTable := t\<rparr>)" if "table_ok (length ?src + 1) t" for t
    using that p by (simp add: stream_after_def input_size_def)
  have after0: "stream_after st C ?st"
    using after [OF table_ok_mono [OF p(3)]] p(1) by (simp add: stream_after_def)
  show ?thesis
  proof (cases "input_size C < 13")
    case True
    have t: "table_ok (length ?src + 1) (st_hashTable st)"
      using p(1) by (intro table_ok_mono [OF p(3)]) simp
    have "returnsR (streamed st C (length m)) (case r of (k, m) \<Rightarrow> Inr (k, ?st, m))"
      if "case r of (k, m') \<Rightarrow> compressed C (length m) (k, st_hashTable st, m')" for r
      using that after0 by (auto simp: streamed_def)
    then have "returnsR (streamed st C (length m))
        (bindR (last_literals C ?p 0 m) (\<lambda>(k, m). Inr (k, ?st, m)))"
      by (rule returnsR_bindR [OF last_run_ok [OF C(4,5) written_nothing [OF p(1)] refl t]])
    then show ?thesis
      unfolding LZ4_compress_generic_validated_def Let_def if_not_P [OF no_limit] using True by simp
  next
    case False
    then have ok: "comp_ok C" using C by (simp add: comp_ok_def input_size_def)
    have len: "?p + 13 \<le> length ?src" using ok by (simp add: comp_ok_def)
    obtain t where t: "LZ4_putPosition ?src ?p (st_hashTable st) ?tt = Inr t" "table_ok (?p + 1) t"
      using putPosition_ok [OF _ p(3), of ?p ?src ?tt] len by auto
    obtain h where h: "LZ4_hashPosition ?src (?p + 1) ?tt = Inr h"
      using hashPosition_ok [of "?p + 1" ?src ?tt] len by auto
    have rank: "rank C (Searching (?p + 1) h ?p 0 t m) < 2 * length ?src + 3" using len by simp
    have "inv_state C (length m) (Searching (?p + 1) h ?p 0 t m)"
      using written_nothing [OF p(1)] t(2) mflimitPlusOne_eq [OF ok] len by auto
    then have "returnsR (compressed C (length m))
        (compress_loop (2 * length ?src + 3) C (Searching (?p + 1) h ?p 0 t m))"
      by (rule compress_loop_ok [OF ok C(5) _ rank])
    moreover have "returnsR (streamed st C (length m)) (case r of (k, t, m) \<Rightarrow> Inr (k, ?st\<lparr>st_hashTable := t\<rparr>, m))"
      if "compressed C (length m) r" for r
      using that after
      by (cases r) (auto simp: streamed_def compressed_def)
    ultimately have "returnsR (streamed st C (length m)) (bindR
        (compress_loop (2 * length ?src + 3) C (Searching (?p + 1) h ?p 0 t m))
        (\<lambda>(k, t, m). Inr (k, ?st\<lparr>st_hashTable := t\<rparr>, m)))"
      by (rule returnsR_bindR)
    then show ?thesis
      unfolding LZ4_compress_generic_validated_def Let_def if_not_P [OF no_limit] using False t(1) h by simp
  qed
qed


lemma compress_generic_ok:
  assumes C: "c_table C = byU16 \<or> c_table C = byU32"
    "c_table C = byU16 \<longrightarrow> length (c_src C) < LZ4_64Klimit"
    "1 \<le> c_acc C" "c_dir C \<noteq> fillOutput" "roomy C (length m)" and st: "stream_ok st C"
    and size: "input_size C \<le> LZ4_MAX_INPUT_SIZE"
  shows "returnsR (streamed st C (length m)) (LZ4_compress_generic st C m)"
proof (cases "input_size C = 0")
  case False
  then show ?thesis
    using compress_validated_ok [OF C st] size by (simp add: LZ4_compress_generic_def)
next
  case True
  have zero: "table_ok (length (c_src C) + 1) (\<lambda>_. 0)" by (simp add: table_ok_def)
  have whole: "take (c_start C) (c_src C) = c_src C"
    using True by (simp add: input_size_def)
  show ?thesis
  proof (cases "m = []")
    case empty: True
    then have "limited C" using C(5) by (auto simp: roomy_def)
    with zero have "compressed C (length m) (0, (\<lambda>_. 0), m)" by (simp add: compressed_def)
    then show ?thesis
      using True empty \<open>limited C\<close> not_limited [OF C(4)]
      by (auto simp: LZ4_compress_generic_def streamed_def)
  next
    case False
    then obtain m1 where m1: "poke 0 [0] m = Inr m1" "emits 0 m [0] (1, m1)"
      using poke_emits [of 0 "[0]" m] by (cases m) auto
    have "take 1 m1 = encode_block [] []" "length m1 = length m"
      using emitsD [OF m1(2)] by (simp_all add: encode_block_def encode_last_def token_def len_ext_def)
    then have "compressed C (length m) (1, (\<lambda>_. 0), m1)"
      unfolding compressed_def using whole zero False
      by (auto intro!: exI [of _ "[]"] simp: Suc_le_eq)
    then show ?thesis
      using True False m1(1) size by (auto simp: LZ4_compress_generic_def streamed_def)
  qed
qed

text \<open>What every call of the compressor yields.\<close>

definition compressed_into :: "bytes \<Rightarrow> nat \<Rightarrow> nat \<times> bytes \<Rightarrow> bool" where
  "compressed_into src cap r \<longleftrightarrow> length (snd r) = cap \<and>
     (fst r = 0 \<and> cap < LZ4_COMPRESSBOUND (length src) \<or>
      0 < fst r \<and> fst r \<le> cap \<and> fst r \<le> LZ4_COMPRESSBOUND (length src) \<and>
      block_of src (take (fst r) (snd r)))"

text \<open>A call with \<open>hist\<close> in front of the source, as the stream has seen it.\<close>

lemma compress_on_stream:
  assumes "st_currentOffset st = length hist" "table_ok (length hist + 1) (st_hashTable st)"
    "tt = byU16 \<or> tt = byU32" "tt = byU16 \<longrightarrow> length hist + length src < LZ4_64Klimit" "1 \<le> acc"
    "length src \<le> LZ4_MAX_INPUT_SIZE" "dir = limitedOutput \<or> dir = notLimited \<and> LZ4_COMPRESSBOUND (length src) \<le> length m"
  shows "returnsR (\<lambda>(k, st', m'). length m' = length m \<and>
      (k = 0 \<and> dir = limitedOutput \<or> 0 < k \<and> k \<le> length m \<and> k \<le> LZ4_COMPRESSBOUND (length src) \<and>
        block_on hist src (take k m')) \<and>
      (src \<noteq> [] \<longrightarrow> st_currentOffset st' = length hist + length src \<and> st_tableType st' = tt \<and>
        st_dictSize st' = st_dictSize st + length src \<and>
        table_ok (length hist + length src + 1) (st_hashTable st')))
    (LZ4_compress_generic st (compress_args st hist src dir tt dd di acc) m)"
proof -
  let ?C = "compress_args st hist src dir tt dd di acc"
  have C: "c_src ?C = hist @ src" "c_start ?C = length hist" "input_size ?C = length src" "c_table ?C = tt"
    "c_dir ?C = dir" "c_acc ?C = acc"
    using assms(1) by (simp_all add: compress_args_def from_base_def input_size_def)
  have bound: "LZ4_COMPRESSBOUND (length src) = length src + length src div 255 + 16"
    using assms(6) by (simp add: LZ4_COMPRESSBOUND_def)
  have "roomy ?C (length m)" using assms(7) bound by (auto simp: roomy_def limited_def C)
  moreover have "stream_ok st ?C" using assms(1,2) by (simp add: stream_ok_def C)
  ultimately have "returnsR (streamed st ?C (length m)) (LZ4_compress_generic st ?C m)"
    using assms by (intro compress_generic_ok, unfold C) auto
  then show ?thesis
    by (rule returnsR_mono)
      (auto simp: streamed_def compressed_def stream_after_def C limited_def bound block_on_def)
qed

lemma clamp_acceleration_pos: "1 \<le> clamp_acceleration acceleration"
  by (auto simp: clamp_acceleration_def Let_def LZ4_ACCELERATION_DEFAULT_def LZ4_ACCELERATION_MAX_def)

lemma compress_fast_ok:
  assumes "length src \<le> LZ4_MAX_INPUT_SIZE"
  shows "returnsR (compressed_into src (length m)) (LZ4_compress_fast src acceleration m)"
proof -
  let ?enough = "LZ4_COMPRESSBOUND (length src) \<le> length m"
  define tt where "tt = (if length src < LZ4_64Klimit then byU16 else byU32)"
  define dir where "dir = (if ?enough then notLimited else limitedOutput)"
  define acc where "acc = clamp_acceleration acceleration"
  let ?st = "LZ4_initStream"
  let ?r = "LZ4_compress_generic ?st (compress_args ?st [] src dir tt noDict noDictIssue acc) m"
  have "returnsR (\<lambda>(k, st', m'). compressed_into src (length m) (k, m')) ?r"
    by (rule returnsR_mono [OF compress_on_stream])
      (use assms clamp_acceleration_pos in
        \<open>auto simp: LZ4_initStream_def table_ok_def tt_def dir_def acc_def compressed_into_def block_on_Nil split: if_splits\<close>)
  moreover have "LZ4_compress_fast src acceleration m = bindR ?r (\<lambda>(k, st, m). Inr (k, m))"
    by (simp add: LZ4_compress_fast_def LZ4_compress_fast_extState_def Let_def tt_def dir_def acc_def)
  ultimately show ?thesis by (auto simp: returnsR_def)
qed

lemma compress_default_ok:
  "length src \<le> LZ4_MAX_INPUT_SIZE \<Longrightarrow> returnsR (compressed_into src (length m)) (LZ4_compress_default src m)"
  unfolding LZ4_compress_default_def by (rule compress_fast_ok)

end
