(* ===== verification/Lz4Codec.thy ===== *)
theory Lz4Codec
  imports CryptoCorrect Lz4Safe Lz4Fast Lz4CompressCorrect
begin

text \<open>
  The interface between \<open>boot_crypto.cpp\<close> and the LZ4 library: a locale with the two functions it
  calls and the laws it relies on, interpreted on the models of \<open>LZ4_compress_default\<close> and
  \<open>LZ4_decompress_safe\<close>. With them the record \<open>libs\<close> needs no assumption about LZ4.
\<close>

section \<open>Calls\<close>

text \<open>
  The calls as \<open>lz4_legacy_compress\<close> and \<open>lz4_legacy_decompress\<close> make them: a buffer of \<open>n\<close> bytes, and
  a result that is not positive, or negative, for a failure. \<open>fl\<close> is \<open>LZ4_FAST_DEC_LOOP\<close>.
\<close>

definition lz4_compress_call :: "bytes \<Rightarrow> nat \<Rightarrow> bytes option" where
  "lz4_compress_call src n =
     (case Lz4Compress.LZ4_compress_default src (replicate n 0) of
        Inr (c_sz, c_buf) \<Rightarrow> if c_sz = 0 then None else Some (take c_sz c_buf)
      | Inl e \<Rightarrow> None)"

definition lz4_decompress_call :: "bool \<Rightarrow> bytes \<Rightarrow> nat \<Rightarrow> bytes option" where
  "lz4_decompress_call fl src n =
     (case Lz4Decode.LZ4_decompress_safe fl src (replicate n 0) of
        Inr (k, out_buf) \<Rightarrow> if k < 0 then None else Some (take (nat k) out_buf)
      | Inl e \<Rightarrow> None)"

definition with_lz4 :: "bool \<Rightarrow> ('z, 'd) libs \<Rightarrow> ('z, 'd) libs" where
  "with_lz4 fl L =
     L\<lparr>LZ4_compress_default := lz4_compress_call, LZ4_decompress_safe := lz4_decompress_call fl\<rparr>"

section \<open>The interface\<close>

locale block_codec =
  fixes compress :: "bytes \<Rightarrow> nat \<Rightarrow> bytes option"
    and decompress :: "bytes \<Rightarrow> nat \<Rightarrow> bytes option"
    and bound :: "nat \<Rightarrow> nat"
    and max_input :: nat
  assumes compress_fits: "length c \<le> max_input \<Longrightarrow> bound (length c) \<le> n \<Longrightarrow>
      \<exists>d. compress c n = Some d \<and> d \<noteq> [] \<and> length d \<le> n"
    and decompress_compress: "length c \<le> max_input \<Longrightarrow> compress c n = Some d \<Longrightarrow> length c \<le> k \<Longrightarrow>
      decompress d k = Some c"
begin

lemma compressed_block:
  assumes "length c \<le> max_input" "bound (length c) \<le> n" "length c \<le> k"
  shows "\<exists>d. compress c n = Some d \<and> d \<noteq> [] \<and> length d \<le> n \<and> decompress d k = Some c"
  using compress_fits [OF assms(1,2)] decompress_compress [OF assms(1) _ assms(3)] by blast

lemma documented:
  assumes "libs.LZ4_compress_default L = compress" "libs.LZ4_decompress_safe L = decompress"
    "LZ4_LEGACY_COMPRESS_BLOCK \<le> max_input"
    "\<And>i. i \<le> LZ4_LEGACY_COMPRESS_BLOCK \<Longrightarrow> bound i \<le> LZ4_compressBound LZ4_LEGACY_COMPRESS_BLOCK"
  shows "lz4_documented L"
  unfolding lz4_documented_def assms(1,2)
proof (intro allI impI)
  fix c :: bytes assume c: "c \<noteq> [] \<and> length c \<le> LZ4_LEGACY_COMPRESS_BLOCK"
  moreover have "LZ4_LEGACY_COMPRESS_BLOCK \<le> LZ4_LEGACY_BLOCK_MAX"
    by (simp add: LZ4_LEGACY_COMPRESS_BLOCK_def LZ4_LEGACY_BLOCK_MAX_def)
  ultimately show "\<exists>d. compress c (LZ4_compressBound LZ4_LEGACY_COMPRESS_BLOCK) = Some d \<and> d \<noteq> [] \<and>
      length d \<le> LZ4_compressBound LZ4_LEGACY_COMPRESS_BLOCK \<and> decompress d LZ4_LEGACY_BLOCK_MAX = Some c"
    using assms(3,4) by (intro compressed_block) auto
qed

end

section \<open>The library provides it\<close>

lemma block_of_decodes:
  assumes "block_of src d" "length src \<le> length m" "length src \<le> LZ4_MAX_INPUT_SIZE"
  shows "\<exists>m'. Lz4Decode.LZ4_decompress_safe fl d m = Inr (int (length src), m') \<and>
    length m' = length m \<and> take (length src) m' = src"
proof -
  obtain seqs fin where s: "d = encode_block seqs fin" "expand [] seqs fin = src"
    "valid_from 0 (length src) seqs"
    using assms(1) unfolding block_of_def by blast
  have "length src < 2 ^ 32" using assms(3) by (simp add: LZ4_MAX_INPUT_SIZE_def)
  with decompress_safe_correct [where fl = fl, OF s(3) s(2) [symmetric] assms(2)] s(1) show ?thesis by simp
qed

lemma lz4_compress_call_cases:
  assumes "length src \<le> LZ4_MAX_INPUT_SIZE"
  shows "(lz4_compress_call src n = None \<and> n < LZ4_COMPRESSBOUND (length src)) \<or>
    (\<exists>d. lz4_compress_call src n = Some d \<and> d \<noteq> [] \<and> length d \<le> n \<and> block_of src d)"
  using compress_default_ok [OF assms, of "replicate n 0"]
  by (auto simp: lz4_compress_call_def returnsR_def compressed_into_def)

interpretation lz4: block_codec lz4_compress_call "lz4_decompress_call fl" LZ4_COMPRESSBOUND LZ4_MAX_INPUT_SIZE
  for fl
proof
  fix c :: bytes and n assume c: "length c \<le> LZ4_MAX_INPUT_SIZE" "LZ4_COMPRESSBOUND (length c) \<le> n"
  then show "\<exists>d. lz4_compress_call c n = Some d \<and> d \<noteq> [] \<and> length d \<le> n"
    using lz4_compress_call_cases [OF c(1), of n] by auto
next
  fix c d :: bytes and n k
  assume c: "length c \<le> LZ4_MAX_INPUT_SIZE" "lz4_compress_call c n = Some d" "length c \<le> k"
  then have "block_of c d"
    using lz4_compress_call_cases [OF c(1), of n] by auto
  from block_of_decodes [OF this, where fl = fl, of "replicate k 0"] c show "lz4_decompress_call fl d k = Some c"
    by (auto simp: lz4_decompress_call_def)
qed

lemma with_lz4_documented: "lz4_documented (with_lz4 fl L)"
proof (rule lz4.documented)
  show "libs.LZ4_compress_default (with_lz4 fl L) = lz4_compress_call"
    "libs.LZ4_decompress_safe (with_lz4 fl L) = lz4_decompress_call fl"
    by (simp_all add: with_lz4_def)
  show "LZ4_LEGACY_COMPRESS_BLOCK \<le> LZ4_MAX_INPUT_SIZE"
    by (simp add: LZ4_LEGACY_COMPRESS_BLOCK_def LZ4_MAX_INPUT_SIZE_def)
  show "LZ4_COMPRESSBOUND i \<le> LZ4_compressBound LZ4_LEGACY_COMPRESS_BLOCK"
    if "i \<le> LZ4_LEGACY_COMPRESS_BLOCK" for i
    using that div_le_mono [OF that, of 255]
    by (simp add: LZ4_COMPRESSBOUND_def LZ4_compressBound_def LZ4_LEGACY_COMPRESS_BLOCK_def)
qed

end
