(* ===== verification/Lz4History.thy ===== *)
theory Lz4History
  imports Lz4Fast
begin

text \<open>
  Blocks that refer to earlier output: the decoders with a prefix and with an external dictionary
  produce what a block stands for behind the history they are given, and leave the rest alone.
\<close>

lemma generic_on:
  assumes "full_args E" "args_ok E op" "in_src E = d" "holds E low hist op m" "block_on hist src d"
    "op + length src \<le> length m" "length hist + length src < 2 ^ 32"
  shows "\<exists>m'. LZ4_decompress_generic E op m = Inr (int (length src), m') \<and> length m' = length m \<and>
    holds E low (hist @ src) (op + length src) m'"
proof -
  obtain seqs fin where s: "d = encode_block seqs fin" "expand hist seqs fin = hist @ src"
    "valid_from (length hist) (length hist + length src) seqs"
    using assms(5) unfolding block_on_def by blast
  then show ?thesis
    using assms by (intro decompress_generic_correct [of E op seqs fin low hist m src]) simp_all
qed

text \<open>The output lies behind what the destination held before.\<close>

lemma holds_output:
  assumes "holds E low hist op m" "holds E low (hist @ src) (op + length src) m'"
  shows "take (op + length src) m' = take op m @ src"
proof -
  obtain P where P: "hist = in_dict E @ P" "take op m = take (low_prefix E) m @ P"
    using holds_split [OF assms(1)] by blast
  obtain Q where Q: "hist @ src = in_dict E @ Q" "take (op + length src) m' = take (low_prefix E) m' @ Q"
    using holds_split [OF assms(2)] by blast
  have "take (low_prefix E) m' = take (low_prefix E) m" using assms by (simp add: holds_def)
  with P Q show ?thesis by simp
qed

lemma prefix_decoded:
  assumes E: "E = \<lparr>in_src = d, in_dict = [], in_mode = mode, in_partial = False, low_prefix = lp, in_fast = fl\<rparr>"
    and lp: "lp \<le> dest" "mode = noDict \<or> mode = withPrefix64k \<and> lp + 65535 \<le> dest"
    and d: "block_on (drop lp (take dest m)) src d" and room: "dest + length src \<le> length m"
    and small: "dest + length src < 2 ^ 32"
  shows "\<exists>m'. LZ4_decompress_generic E dest m = Inr (int (length src), m') \<and> length m' = length m \<and>
    take (dest + length src) m' = take dest m @ src"
proof -
  have h: "holds E (take lp m) (drop lp (take dest m)) dest m" using E lp(1) room by (simp add: holds_def)
  have "full_args E" "args_ok E dest" using E lp by (auto simp: full_args_def args_ok_def)
  moreover have "in_src E = d" using E by simp
  moreover have "length (drop lp (take dest m)) + length src < 2 ^ 32" using small by simp
  ultimately obtain m' where "LZ4_decompress_generic E dest m = Inr (int (length src), m')"
    "length m' = length m" "holds E (take lp m) (drop lp (take dest m) @ src) (dest + length src) m'"
    using generic_on [OF _ _ _ h d room] by blast
  then show ?thesis using holds_output [OF h] by blast
qed

text \<open>
  The contract of \<open>LZ4_decompress_safe_usingDict\<close>: \<open>hist\<close> is all earlier output; the dictionary holds
  all of it, or its last 65535 bytes or more.
\<close>

definition dict_holds :: "bytes \<Rightarrow> bytes option \<Rightarrow> nat \<Rightarrow> nat \<Rightarrow> bytes \<Rightarrow> bool" where
  "dict_holds hist dct dictSize dest m \<longleftrightarrow> (\<exists>x D. hist = x @ D \<and> (65535 \<le> length D \<or> x = []) \<and>
     (dct = Some D \<or> (dct = None \<or> D = []) \<and> dictSize \<le> dest \<and> drop (dest - dictSize) (take dest m) = D) \<and>
     dictSize = length D)"

lemma usingDict_correct:
  assumes d: "block_on hist src d" and dict: "dict_holds hist dct dictSize dest m"
    and room: "dest + length src \<le> length m" "length m + dictSize + length src < 2 ^ 32"
  shows "\<exists>m'. LZ4_decompress_safe_usingDict fl d dictSize dct dest m = Inr (int (length src), m') \<and>
    length m' = length m \<and> take (dest + length src) m' = take dest m @ src"
proof -
  obtain x D where D: "hist = x @ D" "65535 \<le> length D \<or> x = []" "dictSize = length D"
    "dct = Some D \<or> (dct = None \<or> D = []) \<and> dictSize \<le> dest \<and> drop (dest - dictSize) (take dest m) = D"
    using dict unfolding dict_holds_def by blast
  have onD: "block_on D src d" using d D(1,2) by (auto intro: block_on_window)
  let ?E = "\<lambda>dict mode lp. \<lparr>in_src = d, in_dict = dict, in_mode = mode, in_partial = False,
    low_prefix = lp, in_fast = fl\<rparr>"
  show ?thesis
  proof (cases "dictSize = 0")
    case True
    then have "block_of src d" using onD D(3) by (simp add: block_on_Nil)
    then obtain seqs fin where s: "d = encode_block seqs fin" "expand [] seqs fin = src"
      "valid_from 0 (length src) seqs"
      unfolding block_of_def by blast
    have "length src \<le> length (drop dest m)" "length src < 2 ^ 32" using room by simp_all
    from decompress_safe_correct [OF s(3) s(2) [symmetric] this] obtain n where
      "LZ4_decompress_safe fl d (drop dest m) = Inr (int (length src), n)" "length n = length m - dest"
      "take (length src) n = src"
      using s(1) by auto
    then show ?thesis
      using True room(1) by (simp add: LZ4_decompress_safe_usingDict_def)
  next
    case False
    show ?thesis
    proof (cases "dct = Some D")
      case True
      let ?X = "?E D usingExtDict dest"
      have h: "holds ?X (take dest m) D dest m" using room(1) by (simp add: holds_def)
      have "full_args ?X" "args_ok ?X dest" by (simp_all add: full_args_def args_ok_def)
      from generic_on [OF this _ h onD room(1)] room(2) D(3) obtain m' where
        "LZ4_decompress_generic ?X dest m = Inr (int (length src), m')" "length m' = length m"
        "holds ?X (take dest m) (D @ src) (dest + length src) m'"
        by auto
      then show ?thesis
        using holds_output [OF h] True False
        by (auto simp: LZ4_decompress_safe_usingDict_def LZ4_decompress_safe_forceExtDict_def)
    next
      case prefix: False
      then have p: "dct = None" "length D \<le> dest" "drop (dest - length D) (take dest m) = D"
        using D(3,4) False by auto
      have small: "dest + length src < 2 ^ 32" using room by simp
      show ?thesis
      proof (cases "65535 \<le> length D")
        case True
        have below: "dest - 65536 \<le> dest" "dest - 65536 + 65535 \<le> dest" using p(2) True by auto
        obtain y where y: "drop (dest - 65536) (take dest m) = y @ drop (length D - 65536) D"
        proof (cases "65536 \<le> length D")
          case True
          then have "drop (dest - 65536) (take dest m) = drop (length D - 65536) (drop (dest - length D) (take dest m))"
            using p(2) by simp
          then show ?thesis using that [of "[]"] p(3) by simp
        next
          case False
          then have D': "length D = 65535" using True by simp
          have "dest - 65535 = dest - 65535 - (dest - 65536) + (dest - 65536)" by simp
          then have "drop (dest - 65535) (take dest m) = drop (dest - 65535 - (dest - 65536)) (drop (dest - 65536) (take dest m))"
            by (simp only: drop_drop)
          then have "drop (dest - 65536) (take dest m) =
              take (dest - 65535 - (dest - 65536)) (drop (dest - 65536) (take dest m)) @ D"
            using p(3) D' by (metis append_take_drop_id)
          then show ?thesis using that D' by simp
        qed
        have "block_on (drop (length D - 65536) D) src d"
        proof (rule block_on_window)
          show "block_on (take (length D - 65536) D @ drop (length D - 65536) D) src d" using onD by simp
          show "65535 \<le> length (drop (length D - 65536) D) \<or> take (length D - 65536) D = []" using True by simp arith
        qed
        then have "block_on (drop (dest - 65536) (take dest m)) src d"
          unfolding y by (rule block_on_extend)
        from prefix_decoded [OF refl below(1) _ this room(1) small, of withPrefix64k fl] below(2) show ?thesis
          using p True D(3) False by (simp add: LZ4_decompress_safe_usingDict_def LZ4_decompress_safe_withPrefix64k_def)
      next
        case short: False
        have "dest - length D \<le> dest" by simp
        from prefix_decoded [OF refl this _ _ room(1) small, of noDict d fl] onD p(3) show ?thesis
          using p short D(3) False by (simp add: LZ4_decompress_safe_usingDict_def LZ4_decompress_safe_withSmallPrefix_def)
      qed
    qed
  qed
qed

end
