(* ===== verification/ClaimsLz4.thy ===== *)
theory ClaimsLz4
  imports SampleLib Lz4Codec Lz4History
begin

text \<open>
  What the LZ4 block library under \<open>external/lz4\<close> promises and the program relies on: the decoder is
  memory safe on every input and correct on valid blocks, the compressor stays in its buffers,
  succeeds within its bound and produces valid blocks of its input, and the legacy streams of
  \<open>boot_crypto.cpp\<close> come back through the real codec.
\<close>

section \<open>Decoder\<close>

text \<open>
  C6: no input, however malformed, makes the block decoders, with the fast loop (\<open>fl\<close>) or without, read or write outside their buffers
  or copy between overlapping regions: \<open>LZ4_decompress_safe\<close>, its partial variant, and the variants
  for a prefix of earlier output and for an external dictionary return on every source and
  destination, a number of bytes that fits behind the start of the destination or a negative
  number, and the destination keeps its length.
\<close>

theorem lz4_decoder_memory_safe:
  assumes "prefixSize \<le> dest" "dest \<le> length m"
  shows "(\<exists>n m'. Lz4Decode.LZ4_decompress_safe fl src m = Inr (n, m') \<and>
      length m' = length m \<and> n \<le> int (length m) \<and> - int (length src) - 1 \<le> n) \<and>
    (\<exists>n m'. LZ4_decompress_safe_partial fl src target m = Inr (n, m') \<and>
      length m' = length m \<and> n \<le> int (min target (length m))) \<and>
    (\<exists>n m'. LZ4_decompress_safe_withSmallPrefix fl src prefixSize dest m = Inr (n, m') \<and>
      length m' = length m \<and> n \<le> int (length m - dest)) \<and>
    (\<exists>n m'. LZ4_decompress_safe_forceExtDict fl src dict dest m = Inr (n, m') \<and>
      length m' = length m \<and> n \<le> int (length m - dest))"
proof (intro conjI)
  let ?E = "\<lambda>dict mode part low. \<lparr>in_src = src, in_dict = dict, in_mode = mode, in_partial = part, low_prefix = low, in_fast = fl\<rparr>"
  have ok: "args_ok (?E [] noDict part low) d" if "low \<le> d" for part low d
    using that by (simp add: args_ok_def)
  show "\<exists>n m'. Lz4Decode.LZ4_decompress_safe fl src m = Inr (n, m') \<and>
      length m' = length m \<and> n \<le> int (length m) \<and> - int (length src) - 1 \<le> n"
    using decompress_generic_safe [OF ok [of 0 0 False], of m] by (simp add: Lz4Decode.LZ4_decompress_safe_def)
  show "\<exists>n m'. LZ4_decompress_safe_partial fl src target m = Inr (n, m') \<and>
      length m' = length m \<and> n \<le> int (min target (length m))"
    using decompress_generic_safe [OF ok [of 0 0 True], of "take (min target (length m)) m"]
    by (auto simp: LZ4_decompress_safe_partial_def)
  show "\<exists>n m'. LZ4_decompress_safe_withSmallPrefix fl src prefixSize dest m = Inr (n, m') \<and>
      length m' = length m \<and> n \<le> int (length m - dest)"
    using decompress_generic_safe [OF ok [of "dest - prefixSize" dest False] assms(2)] assms
    by (auto simp: LZ4_decompress_safe_withSmallPrefix_def of_nat_diff)
  have "args_ok (?E dict usingExtDict False dest) dest" by (simp add: args_ok_def)
  from decompress_generic_safe [OF this assms(2)] assms(2)
  show "\<exists>n m'. LZ4_decompress_safe_forceExtDict fl src dict dest m = Inr (n, m') \<and>
      length m' = length m \<and> n \<le> int (length m - dest)"
    by (auto simp: LZ4_decompress_safe_forceExtDict_def of_nat_diff)
qed

theorem lz4_decoder_memory_safe_witness:
  "\<exists>n m'. LZ4_decompress_safe_withSmallPrefix True [0x13, 7, 200, 0] 2 3 [1, 2, 3, 0, 0, 0, 0] = Inr (n, m') \<and>
    length m' = length [1, 2, 3, 0, 0, 0, 0 :: byte] \<and> n \<le> 4"
  using lz4_decoder_memory_safe [of 2 3 "[1, 2, 3, 0, 0, 0, 0]" True "[0x13, 7, 200, 0]" 0 "[]"] by simp

text \<open>
  C8: the decoder meets the block format with its fast loop (\<open>fl\<close>) and without: the encoding of valid sequences (offsets between 1 and
  65535 that stay in the output, matches of at least 4 bytes, the end left to literals) decodes
  into every large enough destination as the bytes the sequences expand to, whatever the
  destination held, overlapping matches, long lengths and the shortcuts included.
\<close>

theorem lz4_decoder_meets_format:
  assumes "valid_from 0 (length (expand [] seqs fin)) seqs" "length (expand [] seqs fin) \<le> length m"
    "length (expand [] seqs fin) < 2 ^ 32"
  shows "\<exists>m'. Lz4Decode.LZ4_decompress_safe fl (encode_block seqs fin) m =
      Inr (int (length (expand [] seqs fin)), m') \<and>
    length m' = length m \<and> take (length (expand [] seqs fin)) m' = expand [] seqs fin"
  by (rule decompress_safe_correct [OF assms(1) refl assms(2,3)])

theorem lz4_decoder_meets_format_witness:
  "\<exists>m'. Lz4Decode.LZ4_decompress_safe True (encode_block [Sequence [1, 2] 2 6] (replicate 20 9)) (replicate 200 0) =
      Inr (28, m') \<and> take 28 m' = [1, 2, 1, 2, 1, 2, 1, 2] @ replicate 20 9"
proof -
  have e: "expand [] [Sequence [1, 2] 2 6] (replicate 20 9) = [1, 2, 1, 2, 1, 2, 1, 2] @ replicate 20 (9 :: byte)"
    by (simp add: repeat_from_def upt_rec)
  have "length ([1, 2, 1, 2, 1, 2, 1, 2] @ replicate 20 (9 :: byte)) = 28" by simp
  with lz4_decoder_meets_format [of "[Sequence [1, 2] 2 6]" "replicate 20 9" "replicate 200 0" True]
  show ?thesis unfolding e by auto
qed

section \<open>Compressor\<close>

text \<open>
  C20: \<open>LZ4_count\<close>, with its comparisons of 8, 4, 2 and 1 bytes and its count of trailing zeros,
  is the length of the longest common prefix of the input from \<open>pIn\<close> to the limit and the input
  from \<open>pMatch\<close> on.
\<close>

theorem lz4_count_is_common_prefix:
  assumes "pMatch \<le> pIn" "pIn \<le> pInLimit" "pInLimit \<le> length src"
  shows "LZ4_count src pIn pMatch pInLimit = Inr (common (drop pIn (take pInLimit src)) (drop pMatch src))"
  by (rule LZ4_count_exact [OF assms(2,3,1)])

theorem lz4_count_is_common_prefix_witness:
  "LZ4_count [1, 2, 3, 1, 2, 3, 1, 2, 3, 1, 2, 3, 1, 9, 3] 3 0 15 = Inr 10"
  using lz4_count_is_common_prefix [of 0 3 15 "[1, 2, 3, 1, 2, 3, 1, 2, 3, 1, 2, 3, 1, 9, 3]"] by simp

text \<open>
  C19: on every input up to \<open>LZ4_MAX_INPUT_SIZE\<close>, with every acceleration and every destination, the
  compressor returns without leaving its buffers; what it returns is 0, or the size of a block
  that fits the destination and the bound and is a valid encoding of the whole input.
\<close>

theorem lz4_compressor_stays_in_buffer:
  assumes "length src \<le> LZ4_MAX_INPUT_SIZE"
  shows "\<exists>k m'. LZ4_compress_fast src acceleration m = Inr (k, m') \<and> length m' = length m \<and>
    k \<le> length m \<and> k \<le> LZ4_COMPRESSBOUND (length src) \<and>
    (k = 0 \<or> (\<exists>seqs fin. take k m' = encode_block seqs fin \<and> expand [] seqs fin = src \<and>
       valid_from 0 (length src) seqs))"
  using compress_fast_ok [OF assms, of m acceleration]
  by (auto simp: returnsR_def compressed_into_def block_of_def)

theorem lz4_compressor_stays_in_buffer_witness:
  "\<exists>k m'. LZ4_compress_fast (replicate 100 7) 3 (replicate 9 0) = Inr (k, m') \<and> length m' = 9 \<and> k \<le> 9"
  using lz4_compressor_stays_in_buffer [of "replicate 100 7" 3 "replicate 9 0"]
  by (auto simp: LZ4_MAX_INPUT_SIZE_def)

text \<open>
  The compressor always succeeds on a destination of \<open>LZ4_COMPRESSBOUND\<close> bytes, and so does
  the program's call of it: no chunk makes \<open>lz4_legacy_compress\<close> fail for lack of room.
\<close>

theorem lz4_compress_succeeds_within_bound:
  assumes "length src \<le> LZ4_MAX_INPUT_SIZE" "LZ4_COMPRESSBOUND (length src) \<le> length m"
  shows "(\<exists>k m'. LZ4_compress_fast src acceleration m = Inr (k, m') \<and> 0 < k) \<and>
    (\<exists>d. lz4_compress_call src (length m) = Some d \<and> d \<noteq> [])"
  using compress_fast_ok [OF assms(1), of m acceleration] lz4.compress_fits [OF assms] assms(2)
  by (auto simp: returnsR_def compressed_into_def)

theorem lz4_compress_succeeds_within_bound_witness:
  "\<exists>k m'. LZ4_compress_fast (replicate 30 7) 1 (replicate 46 0) = Inr (k, m') \<and> 0 < k"
  using lz4_compress_succeeds_within_bound [of "replicate 30 7" "replicate 46 0" 1]
  by (simp add: LZ4_MAX_INPUT_SIZE_def LZ4_COMPRESSBOUND_def)

section \<open>Round trips\<close>

text \<open>
  C2: whenever the compressor returns a size, decoding that many bytes into a destination that is
  large enough gives the input back, for every acceleration, both kinds of hash table, limited
  and unlimited output, and whatever the buffers held before.
\<close>

theorem lz4_block_roundtrip:
  assumes "length src \<le> LZ4_MAX_INPUT_SIZE" "LZ4_compress_fast src acceleration m = Inr (k, m')" "k \<noteq> 0"
    "length src \<le> length out"
  shows "\<exists>out'. Lz4Decode.LZ4_decompress_safe fl (take k m') out = Inr (int (length src), out') \<and>
    take (length src) out' = src"
proof -
  have "block_of src (take k m')"
    using compress_fast_ok [OF assms(1), of m acceleration] assms(2,3) by (auto simp: compressed_into_def)
  from block_of_decodes [OF this assms(4,1)] show ?thesis by blast
qed

theorem lz4_block_roundtrip_witness:
  "\<exists>k m' out'. LZ4_compress_fast (replicate 30 7) 1 (replicate 46 0) = Inr (k, m') \<and>
    Lz4Decode.LZ4_decompress_safe True (take k m') (replicate 30 0) = Inr (30, out') \<and> take 30 out' = replicate 30 7"
proof -
  have size: "length (replicate 30 (7 :: byte)) \<le> LZ4_MAX_INPUT_SIZE" by (simp add: LZ4_MAX_INPUT_SIZE_def)
  obtain k m' where "LZ4_compress_fast (replicate 30 7) 1 (replicate 46 0) = Inr (k, m')" "k \<noteq> 0"
    using compress_fast_ok [OF size, of "replicate 46 0" 1]
    by (auto simp: returnsR_def compressed_into_def LZ4_COMPRESSBOUND_def LZ4_MAX_INPUT_SIZE_def)
  with lz4_block_roundtrip [OF size this, of "replicate 30 0"] show ?thesis by auto
qed

text \<open>
  C15: the legacy round trip through the real codec, with no assumption about LZ4: compressing
  1 to 256 MiB bytes as \<open>LZ4_LEGACY\<close> with the block compressor of \<open>lz4.c\<close> succeeds, the stream is
  recognised as \<open>LZ4_LEGACY\<close>, and the block decoder of \<open>lz4.c\<close> turns it back into the same bytes.
\<close>

theorem lz4_legacy_roundtrip_real_codec:
  assumes "src \<noteq> []" "length src \<le> LZ4_LEGACY_DECOMP_TOTAL_MAX" "plain f" "plain g"
  shows "\<exists>out. compress_bytes (with_lz4 fl L) LZ4_LEGACY src f = (Inr (), CryptoCorrect.extend f out) \<and>
    check_fmt_lg out = Inr LZ4_LEGACY \<and>
    decompress_bytes (with_lz4 fl L) LZ4_LEGACY out g = (Inr (), CryptoCorrect.extend g src)"
  by (rule legacy_stream_roundtrip [OF with_lz4_documented assms])

theorem lz4_legacy_roundtrip_real_codec_witness:
  "\<exists>out. compress_bytes (with_lz4 True store_lib) LZ4_LEGACY (replicate 40 1) empty_fd = (Inr (), CryptoCorrect.extend empty_fd out) \<and>
    decompress_bytes (with_lz4 True store_lib) LZ4_LEGACY out empty_fd = (Inr (), CryptoCorrect.extend empty_fd (replicate 40 1))"
  using lz4_legacy_roundtrip_real_codec [of "replicate 40 1" empty_fd empty_fd True store_lib]
  by (auto simp: LZ4_LEGACY_DECOMP_TOTAL_MAX_def)

text \<open>
  C10: a block that refers to earlier output is decoded as the format specifies, wherever that output is:
  in front of the destination, or in a dictionary elsewhere that holds all of it or its last 65535
  bytes. The bytes of the destination in front of the block are kept.
\<close>

theorem dictionary_decoding_meets_format:
  assumes "block_on hist src d" "dict_holds hist dct dictSize dest m"
    "dest + length src \<le> length m" "length m + dictSize + length src < 2 ^ 32"
  shows "\<exists>m'. LZ4_decompress_safe_usingDict fl d dictSize dct dest m = Inr (int (length src), m') \<and>
    length m' = length m \<and> take (dest + length src) m' = take dest m @ src"
  using assms by (rule usingDict_correct)

theorem dictionary_decoding_meets_format_witness:
  "\<exists>d m'. LZ4_decompress_safe_usingDict True d 4 (Some [1, 2, 3, 4]) 1 (replicate 13 0) = Inr (12, m') \<and>
    take 13 m' = [0, 1, 2, 3, 4, 1, 2, 3, 5, 6, 7, 8, 9]"
proof -
  let ?d = "encode_block [Sequence [] 4 7] [5, 6, 7, 8, 9]" and ?src = "[1, 2, 3, 4, 1, 2, 3, 5, 6, 7, 8, 9 :: byte]"
  have "block_on [1, 2, 3, 4] ?src ?d"
    unfolding block_on_def
    by (rule exI [of _ "[Sequence [] 4 7]"], rule exI [of _ "[5, 6, 7, 8, 9]"])
      (simp add: repeat_from_def upt_rec)
  moreover have "dict_holds [1, 2, 3, 4] (Some [1, 2, 3, 4]) 4 1 (replicate 13 0)"
    unfolding dict_holds_def by (rule exI [of _ "[]"], rule exI [of _ "[1, 2, 3, 4]"]) simp
  ultimately show ?thesis
    using dictionary_decoding_meets_format [of "[1, 2, 3, 4]" ?src ?d "Some [1, 2, 3, 4]" 4 1 "replicate 13 0" True]
    by - (rule exI [of _ ?d], auto)
qed

end
