(* ===== verification/Xxhash.thy ===== *)
theory Xxhash
  imports Prelude
begin

text \<open>
  \<open>external/lz4/xxhash.c\<close> on a little-endian machine: the 32 and the 64 bit hash, in one call and in
  pieces. The LZ4 frame format uses the 32 bit hash for its checksums. A pointer into the input is the
  list of the bytes from there on; the loop over stripes and the tail read only what the list holds.
\<close>

section \<open>32 bits\<close>

definition XXH_rotl32 :: "u32 \<Rightarrow> nat \<Rightarrow> u32" where
  "XXH_rotl32 x r = push_bit r x OR drop_bit (32 - r) x"

definition XXH_swap32 :: "u32 \<Rightarrow> u32" where
  "XXH_swap32 x =
     (push_bit 24 x AND 0xff000000) OR (push_bit 8 x AND 0x00ff0000) OR
     (drop_bit 8 x AND 0x0000ff00) OR (drop_bit 24 x AND 0x000000ff)"

definition XXH_readLE32 :: "bytes \<Rightarrow> u32" where
  "XXH_readLE32 p = le32 p"

definition XXH_readBE32 :: "bytes \<Rightarrow> u32" where
  "XXH_readBE32 p = XXH_swap32 (le32 p)"

definition PRIME32_1 :: u32 where "PRIME32_1 = 2654435761"
definition PRIME32_2 :: u32 where "PRIME32_2 = 2246822519"
definition PRIME32_3 :: u32 where "PRIME32_3 = 3266489917"
definition PRIME32_4 :: u32 where "PRIME32_4 = 668265263"
definition PRIME32_5 :: u32 where "PRIME32_5 = 374761393"

definition XXH32_round :: "u32 \<Rightarrow> u32 \<Rightarrow> u32" where
  "XXH32_round seed input = XXH_rotl32 (seed + input * PRIME32_2) 13 * PRIME32_1"

definition XXH32_avalanche :: "u32 \<Rightarrow> u32" where
  "XXH32_avalanche h32 =
     (let h32 = h32 XOR drop_bit 15 h32; h32 = h32 * PRIME32_2;
          h32 = h32 XOR drop_bit 13 h32; h32 = h32 * PRIME32_3
      in h32 XOR drop_bit 16 h32)"

text \<open>The macros of \<open>XXH32_finalize\<close>, and its \<open>switch\<close>: four bytes as often as they fit, then single ones.\<close>

definition PROCESS1 :: "u32 \<times> bytes \<Rightarrow> u32 \<times> bytes" where
  "PROCESS1 = (\<lambda>(h32, p). (XXH_rotl32 (h32 + ucast (p ! 0) * PRIME32_5) 11 * PRIME32_1, drop 1 p))"

definition PROCESS4 :: "u32 \<times> bytes \<Rightarrow> u32 \<times> bytes" where
  "PROCESS4 = (\<lambda>(h32, p). (XXH_rotl32 (h32 + XXH_readLE32 p * PRIME32_3) 17 * PRIME32_4, drop 4 p))"

definition XXH32_finalize :: "u32 \<Rightarrow> bytes \<Rightarrow> nat \<Rightarrow> u32" where
  "XXH32_finalize h32 p len =
     (let n = len mod 16
      in XXH32_avalanche (fst ((PROCESS1 ^^ (n mod 4)) ((PROCESS4 ^^ (n div 4)) (h32, p)))))"

type_synonym lanes32 = "u32 \<times> u32 \<times> u32 \<times> u32"

definition XXH32_init :: "u32 \<Rightarrow> lanes32" where
  "XXH32_init seed = (seed + PRIME32_1 + PRIME32_2, seed + PRIME32_2, seed + 0, seed - PRIME32_1)"

definition XXH32_stripe :: "lanes32 \<Rightarrow> bytes \<Rightarrow> lanes32" where
  "XXH32_stripe = (\<lambda>(v1, v2, v3, v4) p.
     (XXH32_round v1 (XXH_readLE32 p), XXH32_round v2 (XXH_readLE32 (drop 4 p)),
      XXH32_round v3 (XXH_readLE32 (drop 8 p)), XXH32_round v4 (XXH_readLE32 (drop 12 p))))"

text \<open>The \<open>do\<close> loops over stripes, with the test in front of them.\<close>

function XXH32_stripes :: "lanes32 \<Rightarrow> bytes \<Rightarrow> lanes32 \<times> bytes" where
  "XXH32_stripes v p = (if 16 \<le> length p then XXH32_stripes (XXH32_stripe v p) (drop 16 p) else (v, p))"
  by pat_completeness auto
termination by (relation "measure (\<lambda>(v, p). length p)") auto

declare XXH32_stripes.simps [simp del]

definition XXH32_merge :: "lanes32 \<Rightarrow> u32" where
  "XXH32_merge = (\<lambda>(v1, v2, v3, v4).
     XXH_rotl32 v1 1 + XXH_rotl32 v2 7 + XXH_rotl32 v3 12 + XXH_rotl32 v4 18)"

definition XXH32 :: "bytes \<Rightarrow> u32 \<Rightarrow> u32" where
  "XXH32 input seed =
     (let len = length input;
          (v, p) = XXH32_stripes (XXH32_init seed) input;
          h32 = (if 16 \<le> len then XXH32_merge v else seed + PRIME32_5)
      in XXH32_finalize (h32 + of_nat len) p (len mod 16))"

text \<open>In pieces. \<open>mem32\<close> is the buffer of 16 bytes, of which \<open>memsize\<close> are in use.\<close>

record XXH32_state =
  total_len_32 :: u32
  large_len :: bool
  lanes32 :: lanes32
  mem32 :: bytes
  memsize32 :: nat

definition XXH32_reset :: "u32 \<Rightarrow> XXH32_state" where
  "XXH32_reset seed =
     \<lparr>total_len_32 = 0, large_len = False, lanes32 = XXH32_init seed, mem32 = replicate 16 0, memsize32 = 0\<rparr>"

definition XXH32_update :: "XXH32_state \<Rightarrow> bytes \<Rightarrow> XXH32_state" where
  "XXH32_update st input =
     (let len = length input; tot = total_len_32 st + of_nat len;
          st1 = st\<lparr>total_len_32 := tot, large_len := large_len st \<or> 16 \<le> len \<or> 16 \<le> tot\<rparr>
      in if memsize32 st + len < 16 then
           st1\<lparr>mem32 := put_at (memsize32 st) input (mem32 st), memsize32 := memsize32 st + len\<rparr>
         else
           let (v, mem, p) =
                 (if memsize32 st \<noteq> 0 then
                    let n = 16 - memsize32 st; mem = put_at (memsize32 st) (take n input) (mem32 st)
                    in (XXH32_stripe (lanes32 st) mem, mem, drop n input)
                  else (lanes32 st, mem32 st, input));
               (v, p) = XXH32_stripes v p
           in st1\<lparr>lanes32 := v, mem32 := if p \<noteq> [] then put_at 0 p mem else mem, memsize32 := length p\<rparr>)"

definition XXH32_digest :: "XXH32_state \<Rightarrow> u32" where
  "XXH32_digest st =
     (let h32 = (if large_len st then XXH32_merge (lanes32 st) else fst (snd (snd (lanes32 st))) + PRIME32_5)
      in XXH32_finalize (h32 + total_len_32 st) (mem32 st) (memsize32 st))"

definition XXH32_canonicalFromHash :: "u32 \<Rightarrow> bytes" where
  "XXH32_canonicalFromHash hash = le32_bytes (XXH_swap32 hash)"

definition XXH32_hashFromCanonical :: "bytes \<Rightarrow> u32" where
  "XXH32_hashFromCanonical src = XXH_readBE32 src"

section \<open>64 bits\<close>

definition XXH_rotl64 :: "u64 \<Rightarrow> nat \<Rightarrow> u64" where
  "XXH_rotl64 x r = push_bit r x OR drop_bit (64 - r) x"

definition XXH_swap64 :: "u64 \<Rightarrow> u64" where
  "XXH_swap64 x =
     (push_bit 56 x AND 0xff00000000000000) OR (push_bit 40 x AND 0x00ff000000000000) OR
     (push_bit 24 x AND 0x0000ff0000000000) OR (push_bit 8 x AND 0x000000ff00000000) OR
     (drop_bit 8 x AND 0x00000000ff000000) OR (drop_bit 24 x AND 0x0000000000ff0000) OR
     (drop_bit 40 x AND 0x000000000000ff00) OR (drop_bit 56 x AND 0x00000000000000ff)"

definition XXH_readLE64 :: "bytes \<Rightarrow> u64" where
  "XXH_readLE64 p = le64 p"

definition XXH_readBE64 :: "bytes \<Rightarrow> u64" where
  "XXH_readBE64 p = XXH_swap64 (le64 p)"

definition PRIME64_1 :: u64 where "PRIME64_1 = 11400714785074694791"
definition PRIME64_2 :: u64 where "PRIME64_2 = 14029467366897019727"
definition PRIME64_3 :: u64 where "PRIME64_3 = 1609587929392839161"
definition PRIME64_4 :: u64 where "PRIME64_4 = 9650029242287828579"
definition PRIME64_5 :: u64 where "PRIME64_5 = 2870177450012600261"

definition XXH64_round :: "u64 \<Rightarrow> u64 \<Rightarrow> u64" where
  "XXH64_round acc input = XXH_rotl64 (acc + input * PRIME64_2) 31 * PRIME64_1"

definition XXH64_mergeRound :: "u64 \<Rightarrow> u64 \<Rightarrow> u64" where
  "XXH64_mergeRound acc val = (acc XOR XXH64_round 0 val) * PRIME64_1 + PRIME64_4"

definition XXH64_avalanche :: "u64 \<Rightarrow> u64" where
  "XXH64_avalanche h64 =
     (let h64 = h64 XOR drop_bit 33 h64; h64 = h64 * PRIME64_2;
          h64 = h64 XOR drop_bit 29 h64; h64 = h64 * PRIME64_3
      in h64 XOR drop_bit 32 h64)"

definition PROCESS1_64 :: "u64 \<times> bytes \<Rightarrow> u64 \<times> bytes" where
  "PROCESS1_64 = (\<lambda>(h64, p). (XXH_rotl64 (h64 XOR ucast (p ! 0) * PRIME64_5) 11 * PRIME64_1, drop 1 p))"

definition PROCESS4_64 :: "u64 \<times> bytes \<Rightarrow> u64 \<times> bytes" where
  "PROCESS4_64 = (\<lambda>(h64, p).
     (XXH_rotl64 (h64 XOR ucast (XXH_readLE32 p) * PRIME64_1) 23 * PRIME64_2 + PRIME64_3, drop 4 p))"

definition PROCESS8_64 :: "u64 \<times> bytes \<Rightarrow> u64 \<times> bytes" where
  "PROCESS8_64 = (\<lambda>(h64, p).
     let k1 = XXH64_round 0 (XXH_readLE64 p)
     in (XXH_rotl64 (h64 XOR k1) 27 * PRIME64_1 + PRIME64_4, drop 8 p))"

definition XXH64_finalize :: "u64 \<Rightarrow> bytes \<Rightarrow> nat \<Rightarrow> u64" where
  "XXH64_finalize h64 p len =
     (let n = len mod 32
      in XXH64_avalanche (fst ((PROCESS1_64 ^^ (n mod 4)) ((PROCESS4_64 ^^ (n mod 8 div 4))
           ((PROCESS8_64 ^^ (n div 8)) (h64, p))))))"

type_synonym lanes64 = "u64 \<times> u64 \<times> u64 \<times> u64"

definition XXH64_init :: "u64 \<Rightarrow> lanes64" where
  "XXH64_init seed = (seed + PRIME64_1 + PRIME64_2, seed + PRIME64_2, seed + 0, seed - PRIME64_1)"

definition XXH64_stripe :: "lanes64 \<Rightarrow> bytes \<Rightarrow> lanes64" where
  "XXH64_stripe = (\<lambda>(v1, v2, v3, v4) p.
     (XXH64_round v1 (XXH_readLE64 p), XXH64_round v2 (XXH_readLE64 (drop 8 p)),
      XXH64_round v3 (XXH_readLE64 (drop 16 p)), XXH64_round v4 (XXH_readLE64 (drop 24 p))))"

function XXH64_stripes :: "lanes64 \<Rightarrow> bytes \<Rightarrow> lanes64 \<times> bytes" where
  "XXH64_stripes v p = (if 32 \<le> length p then XXH64_stripes (XXH64_stripe v p) (drop 32 p) else (v, p))"
  by pat_completeness auto
termination by (relation "measure (\<lambda>(v, p). length p)") auto

declare XXH64_stripes.simps [simp del]

definition XXH64_merge :: "lanes64 \<Rightarrow> u64" where
  "XXH64_merge = (\<lambda>(v1, v2, v3, v4).
     let h64 = XXH_rotl64 v1 1 + XXH_rotl64 v2 7 + XXH_rotl64 v3 12 + XXH_rotl64 v4 18;
         h64 = XXH64_mergeRound h64 v1;
         h64 = XXH64_mergeRound h64 v2;
         h64 = XXH64_mergeRound h64 v3
     in XXH64_mergeRound h64 v4)"

definition XXH64 :: "bytes \<Rightarrow> u64 \<Rightarrow> u64" where
  "XXH64 input seed =
     (let len = length input;
          (v, p) = XXH64_stripes (XXH64_init seed) input;
          h64 = (if 32 \<le> len then XXH64_merge v else seed + PRIME64_5)
      in XXH64_finalize (h64 + of_nat len) p len)"

record XXH64_state =
  total_len :: u64
  lanes64 :: lanes64
  mem64 :: bytes
  memsize64 :: nat

definition XXH64_reset :: "u64 \<Rightarrow> XXH64_state" where
  "XXH64_reset seed =
     \<lparr>total_len = 0, lanes64 = XXH64_init seed, mem64 = replicate 32 0, memsize64 = 0\<rparr>"

definition XXH64_update :: "XXH64_state \<Rightarrow> bytes \<Rightarrow> XXH64_state" where
  "XXH64_update st input =
     (let len = length input; st1 = st\<lparr>total_len := total_len st + of_nat len\<rparr>
      in if memsize64 st + len < 32 then
           st1\<lparr>mem64 := put_at (memsize64 st) input (mem64 st), memsize64 := memsize64 st + len\<rparr>
         else
           let (v, mem, p) =
                 (if memsize64 st \<noteq> 0 then
                    let n = 32 - memsize64 st; mem = put_at (memsize64 st) (take n input) (mem64 st)
                    in (XXH64_stripe (lanes64 st) mem, mem, drop n input)
                  else (lanes64 st, mem64 st, input));
               (v, p) = XXH64_stripes v p
           in st1\<lparr>lanes64 := v, mem64 := if p \<noteq> [] then put_at 0 p mem else mem, memsize64 := length p\<rparr>)"

definition XXH64_digest :: "XXH64_state \<Rightarrow> u64" where
  "XXH64_digest st =
     (let h64 = (if 32 \<le> total_len st then XXH64_merge (lanes64 st)
                 else fst (snd (snd (lanes64 st))) + PRIME64_5)
      in XXH64_finalize (h64 + total_len st) (mem64 st) (unat (total_len st)))"

definition XXH64_canonicalFromHash :: "u64 \<Rightarrow> bytes" where
  "XXH64_canonicalFromHash hash = le64_bytes (XXH_swap64 hash)"

definition XXH64_hashFromCanonical :: "bytes \<Rightarrow> u64" where
  "XXH64_hashFromCanonical src = XXH_readBE64 src"

end
