(* ===== verification/Lz4Frame.thy ===== *)
theory Lz4Frame
  imports Xxhash Lz4Mem
begin

text \<open>
  The frame format of \<open>external/lz4/lz4frame.c\<close>: error codes, what a frame header holds, the context
  of the decoder, and \<open>LZ4F_decodeHeader\<close>. A function that returns a size or \<open>err0r(code)\<close> yields a sum.
\<close>

section \<open>Errors and frame parameters\<close>

datatype LZ4F_errorCodes =
    LZ4F_OK_NoError
  | LZ4F_ERROR_GENERIC
  | LZ4F_ERROR_maxBlockSize_invalid
  | LZ4F_ERROR_blockMode_invalid
  | LZ4F_ERROR_contentChecksumFlag_invalid
  | LZ4F_ERROR_compressionLevel_invalid
  | LZ4F_ERROR_headerVersion_wrong
  | LZ4F_ERROR_blockChecksum_invalid
  | LZ4F_ERROR_reservedFlag_set
  | LZ4F_ERROR_allocation_failed
  | LZ4F_ERROR_srcSize_tooLarge
  | LZ4F_ERROR_dstMaxSize_tooSmall
  | LZ4F_ERROR_frameHeader_incomplete
  | LZ4F_ERROR_frameType_unknown
  | LZ4F_ERROR_frameSize_wrong
  | LZ4F_ERROR_srcPtr_wrong
  | LZ4F_ERROR_decompressionFailed
  | LZ4F_ERROR_headerChecksum_invalid
  | LZ4F_ERROR_contentChecksum_invalid
  | LZ4F_ERROR_frameDecoding_alreadyStarted

type_synonym 'a or_error = "LZ4F_errorCodes + 'a"

text \<open>The codes in their order, their names, and the \<open>size_t\<close> values that stand for them.\<close>

definition LZ4F_error_list :: "LZ4F_errorCodes list" where
  "LZ4F_error_list =
     [LZ4F_OK_NoError, LZ4F_ERROR_GENERIC, LZ4F_ERROR_maxBlockSize_invalid, LZ4F_ERROR_blockMode_invalid,
      LZ4F_ERROR_contentChecksumFlag_invalid, LZ4F_ERROR_compressionLevel_invalid,
      LZ4F_ERROR_headerVersion_wrong, LZ4F_ERROR_blockChecksum_invalid, LZ4F_ERROR_reservedFlag_set,
      LZ4F_ERROR_allocation_failed, LZ4F_ERROR_srcSize_tooLarge, LZ4F_ERROR_dstMaxSize_tooSmall,
      LZ4F_ERROR_frameHeader_incomplete, LZ4F_ERROR_frameType_unknown, LZ4F_ERROR_frameSize_wrong,
      LZ4F_ERROR_srcPtr_wrong, LZ4F_ERROR_decompressionFailed, LZ4F_ERROR_headerChecksum_invalid,
      LZ4F_ERROR_contentChecksum_invalid, LZ4F_ERROR_frameDecoding_alreadyStarted]"

definition LZ4F_errorStrings :: "string list" where
  "LZ4F_errorStrings =
     [''OK_NoError'', ''ERROR_GENERIC'', ''ERROR_maxBlockSize_invalid'', ''ERROR_blockMode_invalid'',
      ''ERROR_contentChecksumFlag_invalid'', ''ERROR_compressionLevel_invalid'',
      ''ERROR_headerVersion_wrong'', ''ERROR_blockChecksum_invalid'', ''ERROR_reservedFlag_set'',
      ''ERROR_allocation_failed'', ''ERROR_srcSize_tooLarge'', ''ERROR_dstMaxSize_tooSmall'',
      ''ERROR_frameHeader_incomplete'', ''ERROR_frameType_unknown'', ''ERROR_frameSize_wrong'',
      ''ERROR_srcPtr_wrong'', ''ERROR_decompressionFailed'', ''ERROR_headerChecksum_invalid'',
      ''ERROR_contentChecksum_invalid'', ''ERROR_frameDecoding_alreadyStarted'', ''ERROR_maxCode'']"

definition LZ4F_ERROR_maxCode :: nat where "LZ4F_ERROR_maxCode = length LZ4F_error_list"

definition code_number :: "LZ4F_errorCodes \<Rightarrow> nat" where
  "code_number e = length (takeWhile (\<lambda>c. c \<noteq> e) LZ4F_error_list)"

definition err0r :: "LZ4F_errorCodes \<Rightarrow> u64" where
  "err0r e = - of_nat (code_number e)"

definition LZ4F_isError :: "u64 \<Rightarrow> bool" where
  "LZ4F_isError code \<longleftrightarrow> - of_nat LZ4F_ERROR_maxCode < code"

definition LZ4F_getErrorCode :: "u64 \<Rightarrow> LZ4F_errorCodes" where
  "LZ4F_getErrorCode functionResult =
     (if \<not> LZ4F_isError functionResult then LZ4F_OK_NoError
      else LZ4F_error_list ! nat (- sint functionResult))"

definition LZ4F_getErrorName :: "u64 \<Rightarrow> string" where
  "LZ4F_getErrorName code =
     (if LZ4F_isError code then LZ4F_errorStrings ! nat (- sint (ucast code :: u32))
      else ''Unspecified error code'')"

definition size_or_error :: "nat or_error \<Rightarrow> u64" where
  "size_or_error r = (case r of Inl e \<Rightarrow> err0r e | Inr n \<Rightarrow> of_nat n)"

lemma maxCode_eq: "LZ4F_ERROR_maxCode = 20"
  by (simp add: LZ4F_ERROR_maxCode_def LZ4F_error_list_def)

lemma code_number_facts:
  "code_number e < 20" "LZ4F_error_list ! code_number e = e" "code_number e = 0 \<longleftrightarrow> e = LZ4F_OK_NoError"
  by (cases e; simp add: code_number_def LZ4F_error_list_def)+

lemma minus_of_nat: "(- of_nat k :: 'a::len word) = of_int (- int k)"
  by simp

lemma twenty_codes:
  assumes k: "k < (20::nat)"
  shows "(- 20 < (- of_nat k :: u64)) = (k \<noteq> 0)" "sint (- of_nat k :: u64) = - int k"
    "sint (ucast (- of_nat k :: u64) :: u32) = - int k"
proof -
  show "(- 20 < (- of_nat k :: u64)) = (k \<noteq> 0)"
  proof (cases "k = 0")
    case False
    have "uint (- of_nat k :: u64) = (- int k) mod 2 ^ 64"
      unfolding minus_of_nat unsigned_of_int by (simp add: take_bit_eq_mod)
    also have "\<dots> = 2 ^ 64 - int k" using k False by (simp add: zmod_zminus1_eq_if)
    finally show ?thesis using k False by (simp add: word_less_alt)
  qed simp
  show "sint (- of_nat k :: u64) = - int k"
    using k unfolding minus_of_nat signed_of_int by (simp add: signed_take_bit_int_eq_self)
  have "(ucast (of_int (- int k) :: u64) :: u32) = of_int (- int k)"
    by (rule ucast_down_wi) (simp add: is_down)
  then show "sint (ucast (- of_nat k :: u64) :: u32) = - int k"
    using k unfolding minus_of_nat
    by (simp add: signed_take_bit_int_eq_self signed_of_int del: of_int_minus)
qed

lemma error_codes:
  "LZ4F_isError (err0r e) \<longleftrightarrow> e \<noteq> LZ4F_OK_NoError" "LZ4F_getErrorCode (err0r e) = e"
  "LZ4F_getErrorName (err0r e) =
    (if e = LZ4F_OK_NoError then ''Unspecified error code'' else LZ4F_errorStrings ! code_number e)"
proof -
  note k = twenty_codes [OF code_number_facts(1)] code_number_facts(2,3)
  show is_error: "LZ4F_isError (err0r e) \<longleftrightarrow> e \<noteq> LZ4F_OK_NoError"
    by (simp add: LZ4F_isError_def maxCode_eq err0r_def k)
  then show "LZ4F_getErrorCode (err0r e) = e"
    "LZ4F_getErrorName (err0r e) =
      (if e = LZ4F_OK_NoError then ''Unspecified error code'' else LZ4F_errorStrings ! code_number e)"
    by (simp_all add: LZ4F_getErrorCode_def LZ4F_getErrorName_def err0r_def k)
qed

lemma small_size_no_error: "n < 2 ^ 63 \<Longrightarrow> \<not> LZ4F_isError (of_nat n)"
proof -
  assume n: "n < 2 ^ 63"
  have "unat (- of_nat LZ4F_ERROR_maxCode :: u64) = 2 ^ 64 - 20" by (simp add: maxCode_eq)
  moreover have "unat (of_nat n :: u64) = n" using n by (simp add: unsigned_of_nat take_bit_nat_eq_self)
  ultimately show ?thesis using n by (simp add: LZ4F_isError_def word_less_nat_alt)
qed

datatype LZ4F_blockMode_t = LZ4F_blockLinked | LZ4F_blockIndependent

datatype LZ4F_frameType_t = LZ4F_frame | LZ4F_skippableFrame

record LZ4F_frameInfo_t =
  blockSizeID :: nat
  blockMode :: LZ4F_blockMode_t
  contentChecksumFlag :: bool
  frameType :: LZ4F_frameType_t
  contentSize :: u64
  dictID :: u32
  blockChecksumFlag :: bool

definition frameInfo_zero :: LZ4F_frameInfo_t where
  "frameInfo_zero = \<lparr>blockSizeID = 0, blockMode = LZ4F_blockLinked, contentChecksumFlag = False,
     frameType = LZ4F_frame, contentSize = 0, dictID = 0, blockChecksumFlag = False\<rparr>"

definition LZ4F_VERSION :: u32 where
  "LZ4F_VERSION = 100"

definition KB64 :: nat where "KB64 = 64 * 2 ^ 10"
definition KB128 :: nat where "KB128 = 128 * 2 ^ 10"

definition LZ4F_MAGIC_SKIPPABLE_START :: u32 where "LZ4F_MAGIC_SKIPPABLE_START = 0x184D2A50"
definition LZ4F_MAGICNUMBER :: u32 where "LZ4F_MAGICNUMBER = 0x184D2204"
definition LZ4F_BLOCKUNCOMPRESSED_FLAG :: u32 where "LZ4F_BLOCKUNCOMPRESSED_FLAG = 0x80000000"
definition LZ4F_max64KB :: nat where "LZ4F_max64KB = 4"
definition LZ4F_max4MB :: nat where "LZ4F_max4MB = 7"
definition minFHSize :: nat where "minFHSize = 7"
definition maxFHSize :: nat where "maxFHSize = 19"
definition BHSize :: nat where "BHSize = 4"
definition BFSize :: nat where "BFSize = 4"

lemma frame_constants [simp]:
  "KB64 = 65536" "KB128 = 131072" "minFHSize = 7" "maxFHSize = 19" "BHSize = 4" "BFSize = 4"
  "LZ4F_max64KB = 4" "LZ4F_max4MB = 7"
  by (simp_all add: KB64_def KB128_def minFHSize_def maxFHSize_def BHSize_def BFSize_def
      LZ4F_max64KB_def LZ4F_max4MB_def)

definition blockSizes :: "nat list" where
  "blockSizes = [64 * 2 ^ 10, 256 * 2 ^ 10, 1 * 2 ^ 20, 4 * 2 ^ 20]"

definition LZ4F_getBlockSize :: "nat \<Rightarrow> nat or_error" where
  "LZ4F_getBlockSize ident =
     (let ident = (if ident = 0 then LZ4F_max64KB else ident)
      in if ident < LZ4F_max64KB \<or> LZ4F_max4MB < ident then Inl LZ4F_ERROR_maxBlockSize_invalid
         else Inr (blockSizes ! (ident - LZ4F_max64KB)))"

section \<open>Integers\<close>

definition LZ4F_readLE32 :: "bytes \<Rightarrow> u32" where
  "LZ4F_readLE32 src = ucast (src ! 0) + push_bit 8 (ucast (src ! 1)) + push_bit 16 (ucast (src ! 2))
     + push_bit 24 (ucast (src ! 3))"

definition LZ4F_writeLE32 :: "u32 \<Rightarrow> bytes" where
  "LZ4F_writeLE32 value32 =
     [ucast value32, ucast (drop_bit 8 value32), ucast (drop_bit 16 value32), ucast (drop_bit 24 value32)]"

definition LZ4F_readLE64 :: "bytes \<Rightarrow> u64" where
  "LZ4F_readLE64 src = ucast (src ! 0) + push_bit 8 (ucast (src ! 1)) + push_bit 16 (ucast (src ! 2))
     + push_bit 24 (ucast (src ! 3)) + push_bit 32 (ucast (src ! 4)) + push_bit 40 (ucast (src ! 5))
     + push_bit 48 (ucast (src ! 6)) + push_bit 56 (ucast (src ! 7))"

definition LZ4F_writeLE64 :: "u64 \<Rightarrow> bytes" where
  "LZ4F_writeLE64 value64 =
     [ucast value64, ucast (drop_bit 8 value64), ucast (drop_bit 16 value64), ucast (drop_bit 24 value64),
      ucast (drop_bit 32 value64), ucast (drop_bit 40 value64), ucast (drop_bit 48 value64),
      ucast (drop_bit 56 value64)]"

definition LZ4F_headerChecksum :: "bytes \<Rightarrow> byte" where
  "LZ4F_headerChecksum header = ucast (drop_bit 8 (XXH32 header 0))"

section \<open>The context of the decoder\<close>

datatype dStage_t =
    dstage_getFrameHeader | dstage_storeFrameHeader
  | dstage_init
  | dstage_getBlockHeader | dstage_storeBlockHeader
  | dstage_copyDirect | dstage_getBlockChecksum
  | dstage_getCBlock | dstage_storeCBlock
  | dstage_flushOut
  | dstage_getSuffix | dstage_storeSuffix
  | dstage_getSFrameSize | dstage_storeSFrameSize
  | dstage_skipSkippable

text \<open>
  What \<open>dict\<close> points to: nothing, a position in \<open>tmpOutBuffer\<close>, or a position in the destination of
  the current call.
\<close>

datatype dict_ptr = DictNull | InTmp nat | InDst nat

text \<open>\<open>tmpOut\<close> is its distance from \<open>tmpOutBuffer\<close>; a buffer that is not allocated is empty.\<close>

record LZ4F_dctx =
  frameInfo :: LZ4F_frameInfo_t
  version :: u32
  dStage :: dStage_t
  frameRemainingSize :: u64
  maxBlockSize :: nat
  maxBufferSize :: nat
  tmpIn :: bytes
  tmpInSize :: nat
  tmpInTarget :: nat
  tmpOutBuffer :: bytes
  dict :: dict_ptr
  dictSize :: nat
  tmpOut :: nat
  tmpOutSize :: nat
  tmpOutStart :: nat
  xxh :: XXH32_state
  blockChecksum :: XXH32_state
  header :: bytes

definition XXH32_zero :: XXH32_state where
  "XXH32_zero = \<lparr>total_len_32 = 0, large_len = False, lanes32 = (0, 0, 0, 0),
     mem32 = replicate 16 0, memsize32 = 0\<rparr>"

text \<open>\<open>ALLOC_AND_ZERO\<close> of the context.\<close>

definition LZ4F_createDecompressionContext :: "u32 \<Rightarrow> LZ4F_dctx" where
  "LZ4F_createDecompressionContext versionNumber =
     \<lparr>frameInfo = frameInfo_zero, version = versionNumber, dStage = dstage_getFrameHeader,
      frameRemainingSize = 0, maxBlockSize = 0, maxBufferSize = 0, tmpIn = [], tmpInSize = 0,
      tmpInTarget = 0, tmpOutBuffer = [], dict = DictNull, dictSize = 0, tmpOut = 0, tmpOutSize = 0,
      tmpOutStart = 0, xxh = XXH32_zero, blockChecksum = XXH32_zero, header = replicate 19 0\<rparr>"

definition LZ4F_resetDecompressionContext :: "LZ4F_dctx \<Rightarrow> LZ4F_dctx" where
  "LZ4F_resetDecompressionContext D = D\<lparr>dStage := dstage_getFrameHeader, dict := DictNull, dictSize := 0\<rparr>"

section \<open>Headers\<close>

definition flag_bit :: "nat \<Rightarrow> byte \<Rightarrow> bool" where
  "flag_bit n flg \<longleftrightarrow> drop_bit n flg AND 1 \<noteq> 0"

definition header_size :: "byte \<Rightarrow> nat" where
  "header_size flg = minFHSize + (if flag_bit 3 flg then 8 else 0) + (if flag_bit 0 flg then 4 else 0)"

text \<open>
  \<open>own\<close> tells that \<open>src\<close> is the field \<open>header\<close> of the context; \<open>srcSize\<close> is the length of \<open>src\<close>. The
  descriptor after its size is known is \<open>decode_descriptor\<close>.
\<close>

definition decode_descriptor :: "LZ4F_dctx \<Rightarrow> bytes \<Rightarrow> (LZ4F_dctx \<times> nat or_error) result" where
  "decode_descriptor D src =
     bindR (rd src 4 2) (\<lambda>fb.
       let flg = fb ! 0; bd = fb ! 1; size = header_size flg; ident = unat (drop_bit 4 bd AND 7)
       in if flag_bit 7 bd then Inr (D, Inl LZ4F_ERROR_reservedFlag_set)
          else if ident < 4 then Inr (D, Inl LZ4F_ERROR_maxBlockSize_invalid)
          else if bd AND 15 \<noteq> 0 then Inr (D, Inl LZ4F_ERROR_reservedFlag_set)
          else
            bindR (rd src 4 (size - 5)) (\<lambda>descriptor.
            bindR (rd src (size - 1) 1) (\<lambda>hc.
              if LZ4F_headerChecksum descriptor \<noteq> hc ! 0 then Inr (D, Inl LZ4F_ERROR_headerChecksum_invalid)
              else
                let info = (frameInfo D)
                      \<lparr>blockMode := if flag_bit 5 flg then LZ4F_blockIndependent else LZ4F_blockLinked,
                       blockChecksumFlag := flag_bit 4 flg, contentChecksumFlag := flag_bit 2 flg,
                       blockSizeID := ident\<rparr>;
                    D = D\<lparr>frameInfo := info, maxBlockSize := blockSizes ! (ident - 4)\<rparr>
                in bindR (if flag_bit 3 flg then
                            bindR (rd src 6 8) (\<lambda>bs. Inr
                              (D\<lparr>frameInfo := (frameInfo D)\<lparr>contentSize := LZ4F_readLE64 bs\<rparr>,
                                 frameRemainingSize := LZ4F_readLE64 bs\<rparr>))
                          else Inr D) (\<lambda>D.
                   bindR (if flag_bit 0 flg then
                            bindR (rd src (size - 5) 4) (\<lambda>bs. Inr
                              (D\<lparr>frameInfo := (frameInfo D)\<lparr>dictID := LZ4F_readLE32 bs\<rparr>\<rparr>))
                          else Inr D) (\<lambda>D.
                     Inr (D\<lparr>dStage := dstage_init\<rparr>, Inr size))))))"

definition LZ4F_decodeHeader :: "LZ4F_dctx \<Rightarrow> bool \<Rightarrow> bytes \<Rightarrow> (LZ4F_dctx \<times> nat or_error) result" where
  "LZ4F_decodeHeader D own src =
     (if length src < minFHSize then Inr (D, Inl LZ4F_ERROR_frameHeader_incomplete)
      else
        let D = D\<lparr>frameInfo := frameInfo_zero\<rparr>
        in bindR (rd src 0 4) (\<lambda>magic.
          if LZ4F_readLE32 magic AND 0xFFFFFFF0 = LZ4F_MAGIC_SKIPPABLE_START then
            let D = D\<lparr>frameInfo := (frameInfo D)\<lparr>frameType := LZ4F_skippableFrame\<rparr>\<rparr>
            in Inr (if own then
                      (D\<lparr>tmpInSize := length src, tmpInTarget := 8, dStage := dstage_storeSFrameSize\<rparr>,
                       Inr (length src))
                    else (D\<lparr>dStage := dstage_getSFrameSize\<rparr>, Inr 4))
          else if LZ4F_readLE32 magic \<noteq> LZ4F_MAGICNUMBER then Inr (D, Inl LZ4F_ERROR_frameType_unknown)
          else
            bindR (rd src 4 1) (\<lambda>f.
              let flg = f ! 0
              in if flag_bit 1 flg then Inr (D, Inl LZ4F_ERROR_reservedFlag_set)
                 else if drop_bit 6 flg AND 3 \<noteq> 1 then Inr (D, Inl LZ4F_ERROR_headerVersion_wrong)
                 else if length src < header_size flg then
                   bindR (if own then Inr (header D) else poke 0 src (header D)) (\<lambda>h.
                     Inr (D\<lparr>header := h, tmpInSize := length src, tmpInTarget := header_size flg,
                            dStage := dstage_storeFrameHeader\<rparr>, Inr (length src)))
                 else decode_descriptor D src)))"

definition LZ4F_headerSize :: "bytes \<Rightarrow> nat or_error result" where
  "LZ4F_headerSize src =
     (if length src < 5 then Inr (Inl LZ4F_ERROR_frameHeader_incomplete)
      else
        bindR (rd src 0 4) (\<lambda>magic.
          if LZ4F_readLE32 magic AND 0xFFFFFFF0 = LZ4F_MAGIC_SKIPPABLE_START then Inr (Inr 8)
          else if LZ4F_readLE32 magic \<noteq> LZ4F_MAGICNUMBER then Inr (Inl LZ4F_ERROR_frameType_unknown)
          else bindR (rd src 4 1) (\<lambda>f. Inr (Inr (header_size (f ! 0))))))"

end
