(* ===== verification/Lz4FrameDecode.thy ===== *)
theory Lz4FrameDecode
  imports Lz4Frame Lz4Decode
begin

text \<open>
  \<open>LZ4F_decompress\<close> of \<open>external/lz4/lz4frame.c\<close>: the state machine that decodes a frame piece by piece,
  one definition per stage, with the history of linked blocks in \<open>LZ4F_updateDict\<close>. It is called with
  \<open>decompressOptionsPtr\<close> null, so the destination of one call need not be there for the next.
\<close>

section \<open>Calls\<close>

text \<open>
  The input, whether \<open>dstBuffer\<close> is null, \<open>LZ4_FAST_DEC_LOOP\<close>, and \<open>ALLOC\<close>, which may fail and whose
  memory holds anything.
\<close>

record frame_args =
  fr_src :: bytes
  fr_null :: bool
  fr_fast :: bool
  fr_alloc :: "nat \<Rightarrow> bytes option"

text \<open>The context and the local variables: \<open>srcPtr\<close>, the destination and \<open>dstPtr\<close>.\<close>

record frame_io =
  io_dctx :: LZ4F_dctx
  src_pos :: nat
  io_dst :: bytes
  dst_pos :: nat

text \<open>Where a stage leads: another stage, a return with a hint, or a return with an error.\<close>

datatype frame_flow = Again frame_io | Pause nat frame_io | Fail LZ4F_errorCodes frame_io

definition src_left :: "frame_args \<Rightarrow> frame_io \<Rightarrow> nat" where
  "src_left A s = length (fr_src A) - src_pos s"

definition dst_left :: "frame_io \<Rightarrow> nat" where
  "dst_left s = length (io_dst s) - dst_pos s"

definition set_dctx :: "(LZ4F_dctx \<Rightarrow> LZ4F_dctx) \<Rightarrow> frame_io \<Rightarrow> frame_io" where
  "set_dctx f s = s\<lparr>io_dctx := f (io_dctx s)\<rparr>"

definition set_stage :: "dStage_t \<Rightarrow> frame_io \<Rightarrow> frame_io" where
  "set_stage st s = set_dctx (\<lambda>D. D\<lparr>dStage := st\<rparr>) s"

definition linked :: "LZ4F_dctx \<Rightarrow> bool" where
  "linked D \<longleftrightarrow> blockMode (frameInfo D) = LZ4F_blockLinked"

definition crc_size :: "LZ4F_dctx \<Rightarrow> nat" where
  "crc_size D = (if blockChecksumFlag (frameInfo D) then BFSize else 0)"

section \<open>History\<close>

fun dict_add :: "dict_ptr \<Rightarrow> nat \<Rightarrow> dict_ptr" where
  "dict_add DictNull n = DictNull"
| "dict_add (InTmp o1) n = InTmp (o1 + n)"
| "dict_add (InDst o1) n = InDst (o1 + n)"

text \<open>\<open>memcpy(tmpOutBuffer + d, dict + dictSize - back, n)\<close>.\<close>

definition copy_dict :: "LZ4F_dctx \<Rightarrow> bytes \<Rightarrow> nat \<Rightarrow> nat \<Rightarrow> nat \<Rightarrow> bytes result" where
  "copy_dict D dst back d n =
     (if n = 0 then Inr (tmpOutBuffer D)
      else if dictSize D < back then Inl OutOfBounds
      else
        let s = dictSize D - back
        in case dict D of
             DictNull \<Rightarrow> Inl NullPointer
           | InTmp o1 \<Rightarrow> LZ4_memcpy None d (o1 + s) n (tmpOutBuffer D)
           | InDst o1 \<Rightarrow> LZ4_memcpy (Some dst) d (o1 + s) n (tmpOutBuffer D))"

text \<open>The amount of history to copy in front of \<open>tmpOut\<close>.\<close>

definition flush_copy_size :: "LZ4F_dctx \<Rightarrow> nat" where
  "flush_copy_size D = (if KB64 < tmpOutSize D then 0 else min (KB64 - tmpOutSize D) (tmpOut D))"

definition LZ4F_updateDict :: "LZ4F_dctx \<Rightarrow> bytes \<Rightarrow> nat \<Rightarrow> nat \<Rightarrow> bool \<Rightarrow> LZ4F_dctx result" where
  "LZ4F_updateDict D dst p n withinTmp =
     (let D = (if dictSize D = 0 then D\<lparr>dict := InDst p\<rparr> else D)
      in if dict_add (dict D) (dictSize D) = InDst p then Inr (D\<lparr>dictSize := dictSize D + n\<rparr>)
         else if KB64 \<le> p + n then Inr (D\<lparr>dict := InDst 0, dictSize := p + n\<rparr>)
         else if withinTmp \<and> dict D = InTmp 0 then Inr (D\<lparr>dictSize := dictSize D + n\<rparr>)
         else if withinTmp then
           let copySize = flush_copy_size D
           in bindR (copy_dict D dst (tmpOutStart D + copySize) (tmpOut D - copySize) copySize) (\<lambda>tmp.
                Inr (D\<lparr>tmpOutBuffer := tmp, dict := InTmp 0, dictSize := tmpOut D + tmpOutStart D + n\<rparr>))
         else if dict D = InTmp 0 then
           bindR (if maxBufferSize D < dictSize D + n then
                    bindR (copy_dict D dst (KB64 - n) 0 (KB64 - n)) (\<lambda>tmp.
                      Inr (D\<lparr>tmpOutBuffer := tmp, dictSize := KB64 - n\<rparr>))
                  else Inr D) (\<lambda>D.
           bindR (LZ4_memcpy (Some dst) (dictSize D) p n (tmpOutBuffer D)) (\<lambda>tmp.
             Inr (D\<lparr>tmpOutBuffer := tmp, dictSize := dictSize D + n\<rparr>)))
         else
           let preserveSize = min (KB64 - n) (dictSize D)
           in bindR (copy_dict D dst preserveSize 0 preserveSize) (\<lambda>tmp.
              bindR (LZ4_memcpy (Some dst) preserveSize p n tmp) (\<lambda>tmp.
                Inr (D\<lparr>tmpOutBuffer := tmp, dict := InTmp 0, dictSize := preserveSize + n\<rparr>))))"

definition update_history :: "frame_io \<Rightarrow> nat \<Rightarrow> bool \<Rightarrow> frame_io result" where
  "update_history s n withinTmp =
     (if linked (io_dctx s) then
        bindR (LZ4F_updateDict (io_dctx s) (io_dst s) (dst_pos s) n withinTmp) (\<lambda>D. Inr (s\<lparr>io_dctx := D\<rparr>))
      else Inr s)"

section \<open>Frame header\<close>

definition decode_own_header :: "frame_io \<Rightarrow> frame_flow result" where
  "decode_own_header s =
     bindR (rd (header (io_dctx s)) 0 (tmpInTarget (io_dctx s))) (\<lambda>src.
     bindR (LZ4F_decodeHeader (io_dctx s) True src) (\<lambda>(D, r).
       Inr (case r of Inl e \<Rightarrow> Fail e (s\<lparr>io_dctx := D\<rparr>) | Inr hSize \<Rightarrow> Again (s\<lparr>io_dctx := D\<rparr>))))"

definition store_frame_header :: "frame_args \<Rightarrow> frame_io \<Rightarrow> frame_flow result" where
  "store_frame_header A s =
     (let D = io_dctx s; sizeToCopy = min (tmpInTarget D - tmpInSize D) (src_left A s)
      in bindR (LZ4_memcpy (Some (fr_src A)) (tmpInSize D) (src_pos s) sizeToCopy (header D)) (\<lambda>h.
           let D = D\<lparr>header := h, tmpInSize := tmpInSize D + sizeToCopy\<rparr>;
               s = s\<lparr>io_dctx := D, src_pos := src_pos s + sizeToCopy\<rparr>
           in if tmpInSize D < tmpInTarget D then Inr (Pause ((tmpInTarget D - tmpInSize D) + BHSize) s)
              else decode_own_header s))"

definition get_frame_header :: "frame_args \<Rightarrow> frame_io \<Rightarrow> frame_flow result" where
  "get_frame_header A s =
     (if maxFHSize \<le> src_left A s then
        bindR (LZ4F_decodeHeader (io_dctx s) False (drop (src_pos s) (fr_src A))) (\<lambda>(D, r).
          Inr (case r of
                 Inl e \<Rightarrow> Fail e (s\<lparr>io_dctx := D\<rparr>)
               | Inr hSize \<Rightarrow> Again (s\<lparr>io_dctx := D, src_pos := src_pos s + hSize\<rparr>)))
      else
        let s = set_dctx (\<lambda>D. D\<lparr>tmpInSize := 0\<rparr>) s
        in if src_left A s = 0 then Inr (Pause minFHSize s)
           else store_frame_header A
             (set_dctx (\<lambda>D. D\<lparr>tmpInTarget := minFHSize, dStage := dstage_storeFrameHeader\<rparr>) s))"

section \<open>Block header\<close>

text \<open>\<open>sel\<close> is the memory \<open>selectedIn\<close> points to.\<close>

definition decode_block_header :: "frame_args \<Rightarrow> bytes \<Rightarrow> frame_io \<Rightarrow> frame_flow result" where
  "decode_block_header A sel s =
     bindR (rd sel 0 4) (\<lambda>bs.
       let D = io_dctx s; blockHeader = LZ4F_readLE32 bs;
           nextCBlockSize = unat (blockHeader AND 0x7FFFFFFF)
       in if blockHeader = 0 then Inr (Again (set_stage dstage_getSuffix s))
          else if maxBlockSize D < nextCBlockSize then Inr (Fail LZ4F_ERROR_maxBlockSize_invalid s)
          else if blockHeader AND LZ4F_BLOCKUNCOMPRESSED_FLAG \<noteq> 0 then
            Inr (Again (s\<lparr>io_dctx := D\<lparr>tmpInTarget := nextCBlockSize,
              blockChecksum := if blockChecksumFlag (frameInfo D) then XXH32_reset 0 else blockChecksum D,
              dStage := dstage_copyDirect\<rparr>\<rparr>))
          else
            let s = s\<lparr>io_dctx := D\<lparr>tmpInTarget := nextCBlockSize + crc_size D, dStage := dstage_getCBlock\<rparr>\<rparr>
            in Inr (if dst_left s = 0 \<or> src_left A s = 0
                    then Pause (BHSize + nextCBlockSize + crc_size D) s else Again s))"

text \<open>
  Four bytes collected in \<open>tmpIn\<close>, as the stages \<open>storeBlockHeader\<close> and \<open>storeSuffix\<close> do it.
\<close>

definition store_four ::
    "frame_args \<Rightarrow> (bytes \<Rightarrow> frame_io \<Rightarrow> frame_flow result) \<Rightarrow> frame_io \<Rightarrow> frame_flow result" where
  "store_four A k s =
     (let D = io_dctx s; sizeToCopy = min (BHSize - tmpInSize D) (src_left A s)
      in bindR (LZ4_memcpy (Some (fr_src A)) (tmpInSize D) (src_pos s) sizeToCopy (tmpIn D)) (\<lambda>t.
           let D = D\<lparr>tmpIn := t, tmpInSize := tmpInSize D + sizeToCopy\<rparr>;
               s = s\<lparr>io_dctx := D, src_pos := src_pos s + sizeToCopy\<rparr>
           in if tmpInSize D < BHSize then Inr (Pause (BHSize - tmpInSize D) s) else k (tmpIn D) s))"

definition get_four ::
    "frame_args \<Rightarrow> dStage_t \<Rightarrow> (bytes \<Rightarrow> frame_io \<Rightarrow> frame_flow result) \<Rightarrow> frame_io \<Rightarrow> frame_flow result" where
  "get_four A st k s =
     (if BHSize \<le> src_left A s then k (drop (src_pos s) (fr_src A)) (s\<lparr>src_pos := src_pos s + BHSize\<rparr>)
      else store_four A k (set_dctx (\<lambda>D. D\<lparr>tmpInSize := 0, dStage := st\<rparr>) s))"

definition get_block_header :: "frame_args \<Rightarrow> frame_io \<Rightarrow> frame_flow result" where
  "get_block_header A s = get_four A dstage_storeBlockHeader (decode_block_header A) s"

definition store_block_header :: "frame_args \<Rightarrow> frame_io \<Rightarrow> frame_flow result" where
  "store_block_header A s = store_four A (decode_block_header A) s"

definition init_frame :: "frame_args \<Rightarrow> frame_io \<Rightarrow> frame_flow result" where
  "init_frame A s =
     (let D = io_dctx s;
          D = (if contentChecksumFlag (frameInfo D) then D\<lparr>xxh := XXH32_reset 0\<rparr> else D);
          bufferNeeded = maxBlockSize D + (if linked D then KB128 else 0);
          ready = (\<lambda>D. get_block_header A (s\<lparr>io_dctx := D\<lparr>tmpInSize := 0, tmpInTarget := 0, tmpOut := 0,
            tmpOutStart := 0, tmpOutSize := 0, dStage := dstage_getBlockHeader\<rparr>\<rparr>))
      in if maxBufferSize D < bufferNeeded then
           (case fr_alloc A (maxBlockSize D + BFSize) of
              None \<Rightarrow> Inr (Fail LZ4F_ERROR_allocation_failed (s\<lparr>io_dctx := D\<lparr>maxBufferSize := 0, tmpIn := []\<rparr>\<rparr>))
            | Some t \<Rightarrow>
                (case fr_alloc A bufferNeeded of
                   None \<Rightarrow> Inr (Fail LZ4F_ERROR_allocation_failed
                     (s\<lparr>io_dctx := D\<lparr>maxBufferSize := 0, tmpIn := t, tmpOutBuffer := []\<rparr>\<rparr>))
                 | Some b \<Rightarrow> ready (D\<lparr>tmpIn := t, tmpOutBuffer := b, maxBufferSize := bufferNeeded\<rparr>)))
         else ready D)"

section \<open>Uncompressed blocks\<close>

definition copy_direct :: "frame_args \<Rightarrow> frame_io \<Rightarrow> frame_flow result" where
  "copy_direct A s =
     (let sizeToCopy = (if fr_null A then 0 else min (tmpInTarget (io_dctx s)) (min (src_left A s) (dst_left s)))
      in bindR (if fr_null A then Inr s
                else
                  bindR (LZ4_memcpy (Some (fr_src A)) (dst_pos s) (src_pos s) sizeToCopy (io_dst s)) (\<lambda>dst.
                    let D = io_dctx s; bs = view (src_pos s) sizeToCopy (fr_src A);
                        D = D\<lparr>blockChecksum := if blockChecksumFlag (frameInfo D)
                                then XXH32_update (blockChecksum D) bs else blockChecksum D,
                              xxh := if contentChecksumFlag (frameInfo D) then XXH32_update (xxh D) bs else xxh D,
                              frameRemainingSize := if contentSize (frameInfo D) \<noteq> 0
                                then frameRemainingSize D - of_nat sizeToCopy else frameRemainingSize D\<rparr>
                    in update_history (s\<lparr>io_dctx := D, io_dst := dst\<rparr>) sizeToCopy False)) (\<lambda>s.
           let D = io_dctx s; s = s\<lparr>src_pos := src_pos s + sizeToCopy, dst_pos := dst_pos s + sizeToCopy\<rparr>
           in Inr (if sizeToCopy = tmpInTarget D then
                     Again (if blockChecksumFlag (frameInfo D)
                            then s\<lparr>io_dctx := D\<lparr>tmpInSize := 0, dStage := dstage_getBlockChecksum\<rparr>\<rparr>
                            else set_stage dstage_getBlockHeader s)
                   else
                     Pause (tmpInTarget D - sizeToCopy + crc_size D + BHSize)
                       (s\<lparr>io_dctx := D\<lparr>tmpInTarget := tmpInTarget D - sizeToCopy\<rparr>\<rparr>))))"

definition check_block_checksum :: "bytes \<Rightarrow> frame_io \<Rightarrow> frame_flow result" where
  "check_block_checksum crcSrc s =
     bindR (rd crcSrc 0 4) (\<lambda>bs.
       Inr (if LZ4F_readLE32 bs \<noteq> XXH32_digest (blockChecksum (io_dctx s))
            then Fail LZ4F_ERROR_blockChecksum_invalid s
            else Again (set_stage dstage_getBlockHeader s)))"

definition get_block_checksum :: "frame_args \<Rightarrow> frame_io \<Rightarrow> frame_flow result" where
  "get_block_checksum A s =
     (let D = io_dctx s
      in if 4 \<le> src_left A s \<and> tmpInSize D = 0 then
           check_block_checksum (drop (src_pos s) (fr_src A)) (s\<lparr>src_pos := src_pos s + 4\<rparr>)
         else
           let sizeToCopy = min (4 - tmpInSize D) (src_left A s)
           in bindR (LZ4_memcpy (Some (fr_src A)) (tmpInSize D) (src_pos s) sizeToCopy (header D)) (\<lambda>h.
                let D = D\<lparr>header := h, tmpInSize := tmpInSize D + sizeToCopy\<rparr>;
                    s = s\<lparr>io_dctx := D, src_pos := src_pos s + sizeToCopy\<rparr>
                in if tmpInSize D < 4 then Inr (Pause 1 s) else check_block_checksum (header D) s))"

section \<open>Compressed blocks\<close>

fun overlapping :: "dict_ptr \<Rightarrow> nat \<Rightarrow> dict_ptr \<Rightarrow> nat \<Rightarrow> bool" where
  "overlapping (InTmp a) n (InTmp b) k \<longleftrightarrow> a < b + k \<and> b < a + n"
| "overlapping (InDst a) n (InDst b) k \<longleftrightarrow> a < b + k \<and> b < a + n"
| "overlapping d n e k \<longleftrightarrow> False"

text \<open>
  The dictionary for a block that is decoded to \<open>dest\<close> with room for \<open>cap\<close> bytes: its size, and its
  bytes unless it ends at \<open>dest\<close>. An external dictionary must not overlap the room.
\<close>

definition block_dict :: "LZ4F_dctx \<Rightarrow> bytes \<Rightarrow> dict_ptr \<Rightarrow> nat \<Rightarrow> (nat \<times> bytes option) result" where
  "block_dict D dst dest cap =
     (let big = dict D \<noteq> DictNull \<and> 2 ^ 30 < dictSize D;
          d = (if big then dict_add (dict D) (dictSize D - KB64) else dict D);
          n = (if big then KB64 else dictSize D)
      in if n = 0 \<or> dict_add d n = dest then Inr (n, None)
         else if overlapping d n dest cap then Inl Overlap
         else
           case d of
             DictNull \<Rightarrow> Inl NullPointer
           | InTmp o1 \<Rightarrow> bindR (rd (tmpOutBuffer D) o1 n) (\<lambda>b. Inr (n, Some b))
           | InDst o1 \<Rightarrow> bindR (rd dst o1 n) (\<lambda>b. Inr (n, Some b)))"

text \<open>\<open>LZ4_decompress_safe_usingDict\<close> into a buffer from \<open>p\<close> on, with room for \<open>cap\<close> bytes.\<close>

definition decode_at ::
    "frame_args \<Rightarrow> bytes \<Rightarrow> nat \<times> bytes option \<Rightarrow> bytes \<Rightarrow> nat \<Rightarrow> nat \<Rightarrow> (int \<times> bytes) result" where
  "decode_at A src d buf p cap =
     (if length buf < p + cap then Inl HeapOverflow
      else
        bindR (LZ4_decompress_safe_usingDict (fr_fast A) src (fst d) (snd d) p (take (p + cap) buf)) (\<lambda>(n, m).
          Inr (n, m @ drop (p + cap) buf)))"

text \<open>What is noted about decoded bytes.\<close>

definition note_decoded :: "bytes \<Rightarrow> LZ4F_dctx \<Rightarrow> LZ4F_dctx" where
  "note_decoded bs D =
     D\<lparr>xxh := if contentChecksumFlag (frameInfo D) then XXH32_update (xxh D) bs else xxh D,
       frameRemainingSize := if contentSize (frameInfo D) \<noteq> 0
         then frameRemainingSize D - of_nat (length bs) else frameRemainingSize D\<rparr>"

definition decode_direct :: "frame_args \<Rightarrow> bytes \<Rightarrow> frame_io \<Rightarrow> frame_flow result" where
  "decode_direct A block s =
     (let D = io_dctx s
      in bindR (block_dict D (io_dst s) (InDst (dst_pos s)) (maxBlockSize D)) (\<lambda>d.
         bindR (decode_at A block d (io_dst s) (dst_pos s) (maxBlockSize D)) (\<lambda>(n, dst).
           if n < 0 then Inr (Fail LZ4F_ERROR_GENERIC (s\<lparr>io_dst := dst\<rparr>))
           else
             bindR (update_history
               (s\<lparr>io_dctx := note_decoded (view (dst_pos s) (nat n) dst) D, io_dst := dst\<rparr>) (nat n) False) (\<lambda>s.
                 Inr (Again (set_stage dstage_getBlockHeader (s\<lparr>dst_pos := dst_pos s + nat n\<rparr>)))))))"

definition flush_out :: "frame_io \<Rightarrow> bool \<Rightarrow> frame_flow result" where
  "flush_out s null =
     bindR (if null then Inr s
            else
              let D = io_dctx s; sizeToCopy = min (tmpOutSize D - tmpOutStart D) (dst_left s)
              in bindR (LZ4_memcpy (Some (tmpOutBuffer D)) (dst_pos s) (tmpOut D + tmpOutStart D) sizeToCopy (io_dst s))
                   (\<lambda>dst.
                 bindR (update_history (s\<lparr>io_dst := dst\<rparr>) sizeToCopy True) (\<lambda>s.
                   Inr (set_dctx (\<lambda>D. D\<lparr>tmpOutStart := tmpOutStart D + sizeToCopy\<rparr>)
                     (s\<lparr>dst_pos := dst_pos s + sizeToCopy\<rparr>))))) (\<lambda>s.
       Inr (if tmpOutStart (io_dctx s) = tmpOutSize (io_dctx s) then Again (set_stage dstage_getBlockHeader s)
            else Pause BHSize s))"

text \<open>Room for \<open>tmpOut\<close> behind the history.\<close>

definition place_tmpOut :: "LZ4F_dctx \<Rightarrow> bytes \<Rightarrow> LZ4F_dctx result" where
  "place_tmpOut D dst =
     (if linked D then
        if dict D = InTmp 0 then
          bindR (if KB128 < dictSize D then
                   bindR (copy_dict D dst KB64 0 KB64) (\<lambda>tmp. Inr (D\<lparr>tmpOutBuffer := tmp, dictSize := KB64\<rparr>))
                 else Inr D) (\<lambda>D. Inr (D\<lparr>tmpOut := dictSize D\<rparr>))
        else Inr (D\<lparr>tmpOut := min (dictSize D) KB64\<rparr>)
      else Inr D)"

definition decode_to_tmp :: "frame_args \<Rightarrow> bytes \<Rightarrow> frame_io \<Rightarrow> frame_flow result" where
  "decode_to_tmp A block s =
     bindR (place_tmpOut (io_dctx s) (io_dst s)) (\<lambda>D.
     bindR (block_dict D (io_dst s) (InTmp (tmpOut D)) (maxBlockSize D)) (\<lambda>d.
     bindR (decode_at A block d (tmpOutBuffer D) (tmpOut D) (maxBlockSize D)) (\<lambda>(n, tmp).
       if n < 0 then Inr (Fail LZ4F_ERROR_decompressionFailed (s\<lparr>io_dctx := D\<lparr>tmpOutBuffer := tmp\<rparr>\<rparr>))
       else
         flush_out (s\<lparr>io_dctx := (note_decoded (view (tmpOut D) (nat n) tmp) D)
           \<lparr>tmpOutBuffer := tmp, tmpOutSize := nat n, tmpOutStart := 0, dStage := dstage_flushOut\<rparr>\<rparr>) (fr_null A))))"

definition decode_cblock :: "frame_args \<Rightarrow> bytes \<Rightarrow> frame_io \<Rightarrow> frame_flow result" where
  "decode_cblock A sel s =
     (let D = io_dctx s; n = tmpInTarget D - crc_size D
      in bindR (rd sel 0 n) (\<lambda>block.
         bindR (if blockChecksumFlag (frameInfo D) then
                  bindR (rd sel n 4) (\<lambda>bs. Inr (LZ4F_readLE32 bs = XXH32 block 0))
                else Inr True) (\<lambda>ok.
           let s = s\<lparr>io_dctx := D\<lparr>tmpInTarget := n\<rparr>\<rparr>
           in if \<not> ok then Inr (Fail LZ4F_ERROR_blockChecksum_invalid s)
              else if maxBlockSize D \<le> dst_left s then decode_direct A block s
              else decode_to_tmp A block s)))"

definition get_cblock :: "frame_args \<Rightarrow> frame_io \<Rightarrow> frame_flow result" where
  "get_cblock A s =
     (let target = tmpInTarget (io_dctx s)
      in if src_left A s < target then
           Inr (Again (set_dctx (\<lambda>D. D\<lparr>tmpInSize := 0, dStage := dstage_storeCBlock\<rparr>) s))
         else decode_cblock A (drop (src_pos s) (fr_src A)) (s\<lparr>src_pos := src_pos s + target\<rparr>))"

definition store_cblock :: "frame_args \<Rightarrow> frame_io \<Rightarrow> frame_flow result" where
  "store_cblock A s =
     (let D = io_dctx s; sizeToCopy = min (tmpInTarget D - tmpInSize D) (src_left A s)
      in bindR (LZ4_memcpy (Some (fr_src A)) (tmpInSize D) (src_pos s) sizeToCopy (tmpIn D)) (\<lambda>t.
           let D = D\<lparr>tmpIn := t, tmpInSize := tmpInSize D + sizeToCopy\<rparr>;
               s = s\<lparr>io_dctx := D, src_pos := src_pos s + sizeToCopy\<rparr>
           in if tmpInSize D < tmpInTarget D then
                Inr (Pause ((tmpInTarget D - tmpInSize D) + crc_size D + BHSize) s)
              else decode_cblock A (tmpIn D) s))"

section \<open>The end of the frame\<close>

definition check_suffix :: "bytes \<Rightarrow> frame_io \<Rightarrow> frame_flow result" where
  "check_suffix sel s =
     bindR (rd sel 0 4) (\<lambda>bs.
       Inr (if LZ4F_readLE32 bs \<noteq> XXH32_digest (xxh (io_dctx s)) then Fail LZ4F_ERROR_contentChecksum_invalid s
            else Pause 0 (set_dctx LZ4F_resetDecompressionContext s)))"

definition get_suffix :: "frame_args \<Rightarrow> frame_io \<Rightarrow> frame_flow result" where
  "get_suffix A s =
     (if frameRemainingSize (io_dctx s) \<noteq> 0 then Inr (Fail LZ4F_ERROR_frameSize_wrong s)
      else if \<not> contentChecksumFlag (frameInfo (io_dctx s)) then
        Inr (Pause 0 (set_dctx LZ4F_resetDecompressionContext s))
      else get_four A dstage_storeSuffix check_suffix s)"

definition store_suffix :: "frame_args \<Rightarrow> frame_io \<Rightarrow> frame_flow result" where
  "store_suffix A s = store_four A check_suffix s"

section \<open>Skippable frames\<close>

definition decode_sframe_size :: "bytes \<Rightarrow> frame_io \<Rightarrow> frame_flow result" where
  "decode_sframe_size sel s =
     bindR (rd sel 0 4) (\<lambda>bs.
       let SFrameSize = LZ4F_readLE32 bs
       in Inr (Again (set_dctx (\<lambda>D. D\<lparr>frameInfo := (frameInfo D)\<lparr>contentSize := ucast SFrameSize\<rparr>,
            tmpInTarget := unat SFrameSize, dStage := dstage_skipSkippable\<rparr>) s)))"

definition store_sframe_size :: "frame_args \<Rightarrow> frame_io \<Rightarrow> frame_flow result" where
  "store_sframe_size A s =
     (let D = io_dctx s; sizeToCopy = min (tmpInTarget D - tmpInSize D) (src_left A s)
      in bindR (LZ4_memcpy (Some (fr_src A)) (tmpInSize D) (src_pos s) sizeToCopy (header D)) (\<lambda>h.
           let D = D\<lparr>header := h, tmpInSize := tmpInSize D + sizeToCopy\<rparr>;
               s = s\<lparr>io_dctx := D, src_pos := src_pos s + sizeToCopy\<rparr>
           in if tmpInSize D < tmpInTarget D then Inr (Pause (tmpInTarget D - tmpInSize D) s)
              else decode_sframe_size (drop 4 (header D)) s))"

definition get_sframe_size :: "frame_args \<Rightarrow> frame_io \<Rightarrow> frame_flow result" where
  "get_sframe_size A s =
     (if 4 \<le> src_left A s then
        decode_sframe_size (drop (src_pos s) (fr_src A)) (s\<lparr>src_pos := src_pos s + 4\<rparr>)
      else store_sframe_size A
        (set_dctx (\<lambda>D. D\<lparr>tmpInSize := 4, tmpInTarget := 8, dStage := dstage_storeSFrameSize\<rparr>) s))"

definition skip_skippable :: "frame_args \<Rightarrow> frame_io \<Rightarrow> frame_flow" where
  "skip_skippable A s =
     (let skipSize = min (tmpInTarget (io_dctx s)) (src_left A s); left = tmpInTarget (io_dctx s) - skipSize;
          s = set_dctx (\<lambda>D. D\<lparr>tmpInTarget := left\<rparr>) (s\<lparr>src_pos := src_pos s + skipSize\<rparr>)
      in Pause left (if left \<noteq> 0 then s else set_dctx LZ4F_resetDecompressionContext s))"

section \<open>The machine\<close>

definition frame_step :: "frame_args \<Rightarrow> frame_io \<Rightarrow> frame_flow result" where
  "frame_step A s =
     (case dStage (io_dctx s) of
        dstage_getFrameHeader \<Rightarrow> get_frame_header A s
      | dstage_storeFrameHeader \<Rightarrow> store_frame_header A s
      | dstage_init \<Rightarrow> init_frame A s
      | dstage_getBlockHeader \<Rightarrow> get_block_header A s
      | dstage_storeBlockHeader \<Rightarrow> store_block_header A s
      | dstage_copyDirect \<Rightarrow> copy_direct A s
      | dstage_getBlockChecksum \<Rightarrow> get_block_checksum A s
      | dstage_getCBlock \<Rightarrow> get_cblock A s
      | dstage_storeCBlock \<Rightarrow> store_cblock A s
      | dstage_flushOut \<Rightarrow> flush_out s (fr_null A)
      | dstage_getSuffix \<Rightarrow> get_suffix A s
      | dstage_storeSuffix \<Rightarrow> store_suffix A s
      | dstage_getSFrameSize \<Rightarrow> get_sframe_size A s
      | dstage_storeSFrameSize \<Rightarrow> store_sframe_size A s
      | dstage_skipSkippable \<Rightarrow> Inr (skip_skippable A s))"

section \<open>Progress\<close>

text \<open>
  Every stage consumes input or moves on to a stage of lower rank; the stage that collects the frame
  header may ask for a longer one.
\<close>

fun stage_rank :: "dStage_t \<Rightarrow> nat" where
  "stage_rank dstage_storeFrameHeader = 10"
| "stage_rank dstage_init = 9"
| "stage_rank dstage_storeBlockHeader = 8"
| "stage_rank dstage_copyDirect = 7"
| "stage_rank dstage_getBlockChecksum = 6"
| "stage_rank dstage_getCBlock = 6"
| "stage_rank dstage_storeCBlock = 5"
| "stage_rank dstage_flushOut = 4"
| "stage_rank dstage_getBlockHeader = 3"
| "stage_rank dstage_getSFrameSize = 3"
| "stage_rank dstage_storeSFrameSize = 3"
| "stage_rank _ = 2"

definition frame_rank :: "LZ4F_dctx \<Rightarrow> nat" where
  "frame_rank D =
     stage_rank (dStage D) + (if dStage D = dstage_storeFrameHeader then maxFHSize - tmpInTarget D else 0)"

definition moves_on :: "frame_args \<Rightarrow> frame_io \<Rightarrow> frame_io \<Rightarrow> bool" where
  "moves_on A s s' \<longleftrightarrow> src_left A s' < src_left A s \<or>
     src_left A s' = src_left A s \<and> frame_rank (io_dctx s') < frame_rank (io_dctx s)"

definition again :: "(frame_io \<Rightarrow> bool) \<Rightarrow> frame_flow \<Rightarrow> bool" where
  "again P r \<longleftrightarrow> (\<forall>s. r = Again s \<longrightarrow> P s)"

lemma again_simps [simp]:
  "again P (Again s) \<longleftrightarrow> P s" "again P (Pause h s)" "again P (Fail e s)"
  by (simp_all add: again_def)

lemma again_if [simp]: "again P (if c then r else t) \<longleftrightarrow> (if c then again P r else again P t)"
  by simp

lemma again_mono: "okR (again P) r \<Longrightarrow> (\<And>s. P s \<Longrightarrow> Q s) \<Longrightarrow> okR (again Q) r"
  by (auto simp: okR_def again_def)

lemma set_simps [simp]:
  "src_pos (set_dctx f s) = src_pos s" "io_dctx (set_dctx f s) = f (io_dctx s)"
  "src_pos (set_stage st s) = src_pos s" "dStage (io_dctx (set_stage st s)) = st"
  by (simp_all add: set_dctx_def set_stage_def)

lemma header_size_cases: "header_size flg \<in> {7, 11, 15, 19}"
  by (simp add: header_size_def)

lemma decode_descriptor_result:
  "okR (\<lambda>(D', r). \<forall>n. r = Inr n \<longrightarrow> 7 \<le> n \<and> n \<le> 19 \<and> dStage D' = dstage_init) (decode_descriptor D src)"
  unfolding decode_descriptor_def Let_def
  using header_size_cases by (auto intro!: okR_intros simp: header_size_def)

lemma decodeHeader_result:
  "okR (\<lambda>(D', r). \<forall>n. r = Inr n \<longrightarrow> 0 < n \<and> n \<le> length src \<or> n \<le> 19 \<and> 7 \<le> n) (LZ4F_decodeHeader D own src)"
  unfolding LZ4F_decodeHeader_def Let_def
  by (auto intro!: okR_intros intro: okR_mono [OF decode_descriptor_result])

lemma decodeHeader_own:
  "okR (\<lambda>(D', r). \<forall>n. r = Inr n \<longrightarrow> dStage D' \<in> {dstage_init, dstage_storeSFrameSize} \<or>
     dStage D' = dstage_storeFrameHeader \<and> length src < tmpInTarget D' \<and> tmpInTarget D' \<le> 19)
   (LZ4F_decodeHeader D True src)"
  unfolding LZ4F_decodeHeader_def Let_def
  by (auto intro!: okR_intros intro: okR_mono [OF decode_descriptor_result] simp: header_size_def)

lemma decode_own_header_progress:
  assumes "tmpInTarget (io_dctx s) = target" "dStage (io_dctx s) = dstage_storeFrameHeader"
  shows "okR (again (\<lambda>s'. src_pos s' = src_pos s \<and> frame_rank (io_dctx s') < 10 + (19 - target)))
    (decode_own_header s)"
  unfolding decode_own_header_def
proof (rule okR_bindR)
  fix src assume "rd (header (io_dctx s)) 0 (tmpInTarget (io_dctx s)) = Inr src"
  then have "length src = target" using assms by (auto dest: rd_eq_InrD)
  then show "okR (again (\<lambda>s'. src_pos s' = src_pos s \<and> frame_rank (io_dctx s') < 10 + (19 - target)))
     (bindR (LZ4F_decodeHeader (io_dctx s) True src) (\<lambda>(D, r).
       Inr (case r of Inl e \<Rightarrow> Fail e (s\<lparr>io_dctx := D\<rparr>) | Inr hSize \<Rightarrow> Again (s\<lparr>io_dctx := D\<rparr>))))"
    by (intro okR_bindR_with [OF decodeHeader_own])
      (auto simp: frame_rank_def split: sum.splits intro!: okR_intros)
qed

lemma store_frame_header_progress:
  assumes "dStage (io_dctx s) = dstage_storeFrameHeader"
  shows "okR (again (\<lambda>s'. src_left A s' \<le> src_left A s \<and> frame_rank (io_dctx s') < frame_rank (io_dctx s) \<and>
      (tmpInSize (io_dctx s) < tmpInTarget (io_dctx s) \<longrightarrow> src_left A s' < src_left A s)))
    (store_frame_header A s)"
  unfolding store_frame_header_def Let_def
  using assms
  by (auto intro!: okR_intros intro!: again_mono [OF decode_own_header_progress [OF refl]]
      simp: src_left_def frame_rank_def)

lemma get_frame_header_progress: "okR (again (moves_on A s)) (get_frame_header A s)"
proof (cases "maxFHSize \<le> src_left A s")
  case True
  have "okR (again (moves_on A s)) (bindR (LZ4F_decodeHeader (io_dctx s) False (drop (src_pos s) (fr_src A)))
      (\<lambda>(D, r). Inr (case r of Inl e \<Rightarrow> Fail e (s\<lparr>io_dctx := D\<rparr>)
        | Inr hSize \<Rightarrow> Again (s\<lparr>io_dctx := D, src_pos := src_pos s + hSize\<rparr>))))"
    using True
    by (intro okR_bindR_with [OF decodeHeader_result])
      (auto simp: moves_on_def src_left_def split: sum.splits intro!: okR_intros)
  then show ?thesis using True by (simp add: get_frame_header_def)
next
  case False
  let ?s = "set_dctx (\<lambda>D. D\<lparr>tmpInTarget := minFHSize, dStage := dstage_storeFrameHeader\<rparr>)
    (set_dctx (\<lambda>D. D\<lparr>tmpInSize := 0\<rparr>) s)"
  have "okR (again (moves_on A s)) (store_frame_header A ?s)"
    by (rule again_mono [OF store_frame_header_progress]) (auto simp: moves_on_def src_left_def)
  then show ?thesis
    using False by (auto simp: get_frame_header_def Let_def src_left_def intro!: okR_intros)
qed

text \<open>The stages that read a block header or the suffix.\<close>

lemma decode_block_header_progress:
  "okR (again (\<lambda>s'. src_pos s' = src_pos s \<and> frame_rank (io_dctx s') < 8)) (decode_block_header A sel s)"
  unfolding decode_block_header_def Let_def
  by (auto intro!: okR_intros simp: frame_rank_def split: if_splits)

lemma check_suffix_progress: "okR (again (\<lambda>s'. False)) (check_suffix sel s)"
  unfolding check_suffix_def by (auto intro!: okR_intros)

lemma store_four_progress:
  assumes "\<And>sel s'. okR (again (\<lambda>s''. src_pos s'' = src_pos s' \<and> Q s'')) (k sel s')"
  shows "okR (again (\<lambda>s'. Q s' \<and> src_left A s' \<le> src_left A s \<and>
      (tmpInSize (io_dctx s) < 4 \<longrightarrow> src_left A s' + (4 - tmpInSize (io_dctx s)) = src_left A s)))
    (store_four A k s)"
  unfolding store_four_def Let_def
  by (auto intro!: okR_intros intro!: again_mono [OF assms] simp: src_left_def)

lemma get_four_progress:
  assumes "\<And>sel s'. okR (again (\<lambda>s''. src_pos s'' = src_pos s' \<and> Q s'')) (k sel s')"
  shows "okR (again (\<lambda>s'. src_left A s' < src_left A s)) (get_four A st k s)"
proof (cases "BHSize \<le> src_left A s")
  case True
  then show ?thesis
    by (auto simp: get_four_def src_left_def intro!: again_mono [OF assms])
next
  case False
  have "okR (again (\<lambda>s'. src_left A s' < src_left A s))
      (store_four A k (set_dctx (\<lambda>D. D\<lparr>tmpInSize := 0, dStage := st\<rparr>) s))"
    by (rule again_mono [OF store_four_progress [OF assms]]) (auto simp: src_left_def)
  then show ?thesis using False by (simp add: get_four_def)
qed

lemma get_block_header_progress: "okR (again (\<lambda>s'. src_left A s' < src_left A s)) (get_block_header A s)"
  unfolding get_block_header_def by (rule get_four_progress [OF decode_block_header_progress])

lemma store_block_header_progress:
  assumes "dStage (io_dctx s) = dstage_storeBlockHeader"
  shows "okR (again (moves_on A s)) (store_block_header A s)"
  unfolding store_block_header_def
  by (rule again_mono [OF store_four_progress [OF decode_block_header_progress]])
    (auto simp: moves_on_def frame_rank_def assms)

lemma init_frame_progress: "okR (again (moves_on A s)) (init_frame A s)"
  unfolding init_frame_def Let_def
  by (auto intro!: okR_intros again_mono [OF get_block_header_progress] split: option.split
      simp: moves_on_def src_left_def)

section \<open>Progress of the other stages\<close>

lemma update_history_src_pos: "okR (\<lambda>s'. src_pos s' = src_pos s) (update_history s n w)"
  unfolding update_history_def by (auto intro!: okR_intros)

lemma copy_direct_progress:
  assumes "dStage (io_dctx s) = dstage_copyDirect"
  shows "okR (again (moves_on A s)) (copy_direct A s)"
proof -
  let ?n = "if fr_null A then 0 else min (tmpInTarget (io_dctx s)) (min (src_left A s) (dst_left s))"
  have n: "?n \<le> src_left A s" by (auto intro: min.coboundedI1 min.coboundedI2)
  have fin: "okR (again (moves_on A s)) (let D = io_dctx t; t = t\<lparr>src_pos := src_pos t + ?n, dst_pos := dst_pos t + ?n\<rparr>
      in Inr (if ?n = tmpInTarget D then
           Again (if blockChecksumFlag (frameInfo D)
                  then t\<lparr>io_dctx := D\<lparr>tmpInSize := 0, dStage := dstage_getBlockChecksum\<rparr>\<rparr>
                  else set_stage dstage_getBlockHeader t)
         else Pause (tmpInTarget D - ?n + crc_size D + BHSize)
           (t\<lparr>io_dctx := D\<lparr>tmpInTarget := tmpInTarget D - ?n\<rparr>\<rparr>)))" if "src_pos t = src_pos s" for t
    using that assms n
    by (cases "?n = 0") (auto simp: moves_on_def src_left_def frame_rank_def Let_def okR_def set_stage_def set_dctx_def)
  show ?thesis
    unfolding copy_direct_def Let_def
  proof (rule okR_bindR_with [where Q = "\<lambda>t. src_pos t = src_pos s"], goal_cases)
    case 1
    then show ?case by (auto intro!: okR_intros intro: okR_mono [OF update_history_src_pos])
  next
    case (2 t)
    then show ?case by (rule fin [unfolded Let_def])
  qed
qed

lemma check_block_checksum_progress:
  "okR (again (\<lambda>s'. src_pos s' = src_pos s \<and> frame_rank (io_dctx s') < 6)) (check_block_checksum crc s)"
  unfolding check_block_checksum_def by (auto intro!: okR_intros simp: frame_rank_def)

lemma get_block_checksum_progress:
  assumes "dStage (io_dctx s) = dstage_getBlockChecksum"
  shows "okR (again (moves_on A s)) (get_block_checksum A s)"
  unfolding get_block_checksum_def Let_def
  using assms
  by (auto intro!: okR_intros again_mono [OF check_block_checksum_progress]
      simp: moves_on_def src_left_def frame_rank_def; arith)

lemma decode_direct_progress:
  "okR (again (\<lambda>s'. src_pos s' = src_pos s \<and> frame_rank (io_dctx s') < 4)) (decode_direct A block s)"
  unfolding decode_direct_def Let_def
  by (auto intro!: okR_intros dest!: okRD [OF update_history_src_pos] simp: frame_rank_def)

lemma flush_out_progress:
  "okR (again (\<lambda>s'. src_pos s' = src_pos s \<and> frame_rank (io_dctx s') < 4)) (flush_out s null)"
  unfolding flush_out_def Let_def
  by (rule okR_bindR_with [where Q = "\<lambda>t. src_pos t = src_pos s"])
    (auto intro!: okR_intros dest!: okRD [OF update_history_src_pos] simp: frame_rank_def)

lemma decode_to_tmp_progress:
  "okR (again (\<lambda>s'. src_pos s' = src_pos s \<and> frame_rank (io_dctx s') < 4)) (decode_to_tmp A block s)"
  unfolding decode_to_tmp_def
  by (auto intro!: okR_intros again_mono [OF flush_out_progress])

lemma decode_cblock_progress:
  "okR (again (\<lambda>s'. src_pos s' = src_pos s \<and> frame_rank (io_dctx s') < 4)) (decode_cblock A sel s)"
  unfolding decode_cblock_def Let_def
  by (auto intro!: okR_intros again_mono [OF decode_direct_progress] again_mono [OF decode_to_tmp_progress])

lemma get_cblock_progress:
  assumes "dStage (io_dctx s) = dstage_getCBlock"
  shows "okR (again (moves_on A s)) (get_cblock A s)"
  unfolding get_cblock_def Let_def
  using assms
  by (auto intro!: okR_intros again_mono [OF decode_cblock_progress] simp: moves_on_def src_left_def frame_rank_def)

lemma store_cblock_progress:
  assumes "dStage (io_dctx s) = dstage_storeCBlock"
  shows "okR (again (moves_on A s)) (store_cblock A s)"
  unfolding store_cblock_def Let_def
  using assms
  by (auto intro!: okR_intros again_mono [OF decode_cblock_progress]
      simp: moves_on_def src_left_def frame_rank_def; arith)

lemma suffix_progress:
  "okR (again (\<lambda>s'. False)) (get_suffix A s)" "okR (again (\<lambda>s'. False)) (store_suffix A s)"
proof -
  have no: "okR (again (\<lambda>s''. src_pos s'' = src_pos s' \<and> False)) (check_suffix sel s')" for sel s'
    by (rule again_mono [OF check_suffix_progress]) simp
  show st: "okR (again (\<lambda>s'. False)) (store_suffix A s)" for s
    unfolding store_suffix_def by (rule again_mono [OF store_four_progress [OF no]]) simp
  have "okR (again (\<lambda>s'. False)) (get_four A dstage_storeSuffix check_suffix s)"
    using st [unfolded store_suffix_def] by (auto simp: get_four_def intro: check_suffix_progress)
  then show "okR (again (\<lambda>s'. False)) (get_suffix A s)"
    unfolding get_suffix_def by (auto intro!: okR_intros)
qed

lemma decode_sframe_size_progress:
  "okR (again (\<lambda>s'. src_pos s' = src_pos s \<and> frame_rank (io_dctx s') < 3)) (decode_sframe_size sel s)"
  unfolding decode_sframe_size_def Let_def by (auto intro!: okR_intros simp: frame_rank_def)

lemma store_sframe_size_progress:
  "okR (again (\<lambda>s'. src_left A s' \<le> src_left A s \<and> frame_rank (io_dctx s') < 3)) (store_sframe_size A s)"
  unfolding store_sframe_size_def Let_def
  by (auto intro!: okR_intros again_mono [OF decode_sframe_size_progress] simp: src_left_def)

lemma get_sframe_size_progress:
  "okR (again (\<lambda>s'. src_left A s' \<le> src_left A s \<and> frame_rank (io_dctx s') < 3)) (get_sframe_size A s)"
  unfolding get_sframe_size_def Let_def
  by (auto intro!: okR_intros again_mono [OF decode_sframe_size_progress]
      again_mono [OF store_sframe_size_progress] simp: src_left_def)

lemma frame_step_progress: "okR (again (moves_on A s)) (frame_step A s)"
proof (cases "dStage (io_dctx s)")
  case dstage_flushOut
  then show ?thesis
    by (auto simp: frame_step_def moves_on_def src_left_def frame_rank_def intro: again_mono [OF flush_out_progress])
next
  case dstage_getBlockHeader
  then show ?thesis
    by (auto simp: frame_step_def moves_on_def intro: again_mono [OF get_block_header_progress])
next
  case dstage_storeFrameHeader
  then show ?thesis
    by (auto simp: frame_step_def moves_on_def intro!: again_mono [OF store_frame_header_progress])
next
  case dstage_getSFrameSize
  then show ?thesis
    by (auto simp: frame_step_def moves_on_def frame_rank_def intro!: again_mono [OF get_sframe_size_progress])
next
  case dstage_storeSFrameSize
  then show ?thesis
    by (auto simp: frame_step_def moves_on_def frame_rank_def intro!: again_mono [OF store_sframe_size_progress])
next
  case dstage_skipSkippable
  then show ?thesis by (simp add: frame_step_def skip_skippable_def Let_def okR_def)
qed (auto simp: frame_step_def intro: get_frame_header_progress init_frame_progress store_block_header_progress
    copy_direct_progress get_block_checksum_progress get_cblock_progress store_cblock_progress
    again_mono [OF suffix_progress(1)] again_mono [OF suffix_progress(2)])

section \<open>The decoder\<close>

text \<open>The context, the position in the input, the destination and what it holds, and the result.\<close>

function frame_loop :: "frame_args \<Rightarrow> frame_io \<Rightarrow> (frame_io \<times> nat or_error) result" where
  "frame_loop A s =
     bindR (frame_step A s) (\<lambda>r.
       case r of
         Again s' \<Rightarrow> frame_loop A s'
       | Pause hint s' \<Rightarrow> Inr (s', Inr hint)
       | Fail e s' \<Rightarrow> Inr (s', Inl e))"
  by pat_completeness auto
termination
proof (relation "measures [\<lambda>(A, s). src_left A s, \<lambda>(A, s). frame_rank (io_dctx s)]")
  fix A s r s'
  assume "frame_step A s = Inr r" "r = Again s'"
  then have "moves_on A s s'" using okRD [OF frame_step_progress [of A s]] by auto
  then show "((A, s'), (A, s)) \<in> measures [\<lambda>(A, s). src_left A s, \<lambda>(A, s). frame_rank (io_dctx s)]"
    by (auto simp: moves_on_def)
qed simp

declare frame_loop.simps [simp del]

text \<open>The stages in which history of linked blocks is kept for the next call.\<close>

definition needs_history :: "dStage_t \<Rightarrow> bool" where
  "needs_history st \<longleftrightarrow> st \<in> {dstage_init, dstage_getBlockHeader, dstage_storeBlockHeader, dstage_copyDirect,
     dstage_getBlockChecksum, dstage_getCBlock, dstage_storeCBlock, dstage_flushOut}"

definition preserve_history :: "LZ4F_dctx \<Rightarrow> bytes \<Rightarrow> LZ4F_dctx result" where
  "preserve_history D dst =
     (if linked D \<and> dict D \<noteq> InTmp 0 \<and> dict D \<noteq> DictNull \<and> needs_history (dStage D) then
        if dStage D = dstage_flushOut then
          let copySize = flush_copy_size D
          in bindR (copy_dict D dst (tmpOutStart D + copySize) (tmpOut D - copySize) copySize) (\<lambda>tmp.
               Inr (D\<lparr>tmpOutBuffer := tmp, dict := InTmp 0, dictSize := tmpOut D + tmpOutStart D\<rparr>))
        else
          let newDictSize = min (dictSize D) KB64
          in bindR (copy_dict D dst newDictSize 0 newDictSize) (\<lambda>tmp.
               Inr (D\<lparr>tmpOutBuffer := tmp, dict := InTmp 0, dictSize := newDictSize, tmpOut := newDictSize\<rparr>))
      else Inr D)"

text \<open>
  A call: the context and the destination after it, how much input it took and how much output it
  made, and the hint or the error. After an error \<open>*srcSizePtr\<close> and \<open>*dstSizePtr\<close> are 0.
\<close>

record frame_result =
  res_dctx :: LZ4F_dctx
  res_dst :: bytes
  res_src_size :: nat
  res_dst_size :: nat
  res_code :: "nat or_error"

definition LZ4F_decompress :: "frame_args \<Rightarrow> LZ4F_dctx \<Rightarrow> bytes \<Rightarrow> frame_result result" where
  "LZ4F_decompress A D dst =
     bindR (frame_loop A \<lparr>io_dctx = D, src_pos = 0, io_dst = dst, dst_pos = 0\<rparr>) (\<lambda>(s, r).
       case r of
         Inl e \<Rightarrow> Inr \<lparr>res_dctx = io_dctx s, res_dst = io_dst s, res_src_size = 0, res_dst_size = 0, res_code = Inl e\<rparr>
       | Inr hint \<Rightarrow>
           bindR (preserve_history (io_dctx s) (io_dst s)) (\<lambda>D.
             Inr \<lparr>res_dctx = D, res_dst = io_dst s, res_src_size = src_pos s, res_dst_size = dst_pos s,
               res_code = Inr hint\<rparr>))"

end
