(* ===== verification/Lz4FrameSafe.thy ===== *)
theory Lz4FrameSafe
  imports Lz4FrameDecode Lz4Safe
begin

text \<open>
  The invariant of the frame decoder between stages and between calls, and the proof that every stage
  keeps it on every input: no access leaves its buffer, none goes through a null pointer, and no copy
  overlaps itself.
\<close>

section \<open>The invariant\<close>

text \<open>
  Buffers: those allocated for a frame are large enough for every later frame that finds
  \<open>maxBufferSize\<close> large enough.
\<close>

definition needed :: "LZ4F_dctx \<Rightarrow> nat" where
  "needed D = maxBlockSize D + (if linked D then KB128 else 0)"

definition buffers_ok :: "LZ4F_dctx \<Rightarrow> bool" where
  "buffers_ok D \<longleftrightarrow> maxBufferSize D = 0 \<or>
     (\<exists>M \<in> set blockSizes. length (tmpIn D) = M + BFSize \<and> length (tmpOutBuffer D) = maxBufferSize D \<and>
        (maxBufferSize D = M \<or> maxBufferSize D = M + KB128))"

lemma no_buffers_ok [simp]:
  "buffers_ok (D\<lparr>maxBufferSize := 0, tmpIn := t\<rparr>)" "buffers_ok (D\<lparr>maxBufferSize := 0, tmpIn := t, tmpOutBuffer := b\<rparr>)"
  by (simp_all add: buffers_ok_def)

definition ready :: "LZ4F_dctx \<Rightarrow> bool" where
  "ready D \<longleftrightarrow> maxBlockSize D \<in> set blockSizes \<and> needed D \<le> maxBufferSize D"

text \<open>History: \<open>p\<close> is the position in the destination.\<close>

definition history_ok :: "LZ4F_dctx \<Rightarrow> nat \<Rightarrow> bool" where
  "history_ok D p \<longleftrightarrow>
     (if linked D then
        (case dict D of
           DictNull \<Rightarrow> dictSize D = 0
         | InTmp o1 \<Rightarrow> o1 = 0 \<and> dictSize D \<le> length (tmpOutBuffer D)
         | InDst o1 \<Rightarrow> o1 + dictSize D = p)
      else dict D = DictNull \<and> dictSize D = 0 \<and> tmpOut D = 0)"

definition no_dict :: "LZ4F_dctx \<Rightarrow> bool" where
  "no_dict D \<longleftrightarrow> dict D = DictNull \<and> dictSize D = 0"

definition flush_ok :: "LZ4F_dctx \<Rightarrow> bool" where
  "flush_ok D \<longleftrightarrow> tmpOut D + tmpOutSize D \<le> length (tmpOutBuffer D) \<and> tmpOutStart D \<le> tmpOutSize D \<and>
     (if dict D = InTmp 0 then dictSize D = tmpOut D + tmpOutStart D
      else flush_copy_size D = 0 \<or> tmpOutStart D + flush_copy_size D \<le> dictSize D)"

definition body_ok :: "LZ4F_dctx \<Rightarrow> nat \<Rightarrow> bool" where
  "body_ok D p \<longleftrightarrow> ready D \<and> history_ok D p"

definition stage_ok :: "LZ4F_dctx \<Rightarrow> nat \<Rightarrow> bool" where
  "stage_ok D p \<longleftrightarrow>
     (case dStage D of
        dstage_getFrameHeader \<Rightarrow> no_dict D
      | dstage_storeFrameHeader \<Rightarrow> no_dict D \<and> tmpInSize D < tmpInTarget D \<and> 7 \<le> tmpInTarget D \<and> tmpInTarget D \<le> 19 \<and>
          (tmpInTarget D \<noteq> 7 \<longrightarrow> 7 \<le> tmpInSize D \<and> LZ4F_readLE32 (header D) = LZ4F_MAGICNUMBER)
      | dstage_init \<Rightarrow> no_dict D \<and> maxBlockSize D \<in> set blockSizes
      | dstage_getBlockHeader \<Rightarrow> body_ok D p
      | dstage_storeBlockHeader \<Rightarrow> body_ok D p \<and> tmpInSize D < 4
      | dstage_copyDirect \<Rightarrow> body_ok D p \<and> tmpInTarget D \<le> maxBlockSize D
      | dstage_getBlockChecksum \<Rightarrow> body_ok D p \<and> tmpInSize D < 4
      | dstage_getCBlock \<Rightarrow> body_ok D p \<and> crc_size D \<le> tmpInTarget D \<and> tmpInTarget D \<le> maxBlockSize D + crc_size D
      | dstage_storeCBlock \<Rightarrow> body_ok D p \<and> crc_size D \<le> tmpInTarget D \<and> tmpInTarget D \<le> maxBlockSize D + crc_size D \<and>
          tmpInSize D < tmpInTarget D
      | dstage_flushOut \<Rightarrow> body_ok D p \<and> flush_ok D
      | dstage_getSuffix \<Rightarrow> ready D
      | dstage_storeSuffix \<Rightarrow> ready D \<and> tmpInSize D < 4
      | dstage_getSFrameSize \<Rightarrow> no_dict D
      | dstage_storeSFrameSize \<Rightarrow> no_dict D \<and> 4 \<le> tmpInSize D \<and> tmpInSize D < 8 \<and> tmpInTarget D = 8
      | dstage_skipSkippable \<Rightarrow> no_dict D \<and> tmpInTarget D < 2 ^ 32)"

definition dctx_ok :: "LZ4F_dctx \<Rightarrow> nat \<Rightarrow> bool" where
  "dctx_ok D p \<longleftrightarrow> length (header D) = 19 \<and> buffers_ok D \<and> stage_ok D p"

definition args_alloc :: "frame_args \<Rightarrow> bool" where
  "args_alloc A \<longleftrightarrow> (\<forall>n b. fr_alloc A n = Some b \<longrightarrow> length b = n)"

definition io_ok :: "frame_args \<Rightarrow> nat \<Rightarrow> frame_io \<Rightarrow> bool" where
  "io_ok A n s \<longleftrightarrow> src_pos s \<le> length (fr_src A) \<and> dst_pos s \<le> n \<and> length (io_dst s) = n \<and>
     (fr_null A \<longrightarrow> n = 0)"

definition frame_ok :: "frame_args \<Rightarrow> nat \<Rightarrow> frame_io \<Rightarrow> bool" where
  "frame_ok A n s \<longleftrightarrow> io_ok A n s \<and> dctx_ok (io_dctx s) (dst_pos s)"

text \<open>
  A hint of 0 is the end of a frame; the hints are small. What a failure leaves of the context can be
  reset.
\<close>

fun flow_ok :: "frame_args \<Rightarrow> nat \<Rightarrow> frame_flow \<Rightarrow> bool" where
  "flow_ok A n (Again s) \<longleftrightarrow> frame_ok A n s"
| "flow_ok A n (Pause h s) \<longleftrightarrow> frame_ok A n s \<and> h < 2 ^ 32 \<and>
     (h = 0 \<longrightarrow> dStage (io_dctx s) = dstage_getFrameHeader)"
| "flow_ok A n (Fail e s) \<longleftrightarrow> length (io_dst s) = n \<and> length (header (io_dctx s)) = 19 \<and> buffers_ok (io_dctx s)"

lemma block_sizes: "M \<in> set blockSizes \<longleftrightarrow> M = 65536 \<or> M = 262144 \<or> M = 1048576 \<or> M = 4194304"
  by (auto simp: blockSizes_def)

lemma ready_buffers:
  assumes "ready D" "buffers_ok D"
  shows "maxBlockSize D + 4 \<le> length (tmpIn D)" "length (tmpOutBuffer D) = maxBufferSize D"
    "maxBlockSize D \<le> maxBufferSize D" "linked D \<Longrightarrow> maxBlockSize D + KB128 \<le> maxBufferSize D"
    "65536 \<le> maxBlockSize D" "maxBlockSize D \<le> 4194304"
  using assms by (auto simp: ready_def buffers_ok_def needed_def block_sizes split: if_splits)

lemma body_buffers:
  assumes "body_ok D p" "buffers_ok D"
  shows "maxBlockSize D + 4 \<le> length (tmpIn D)" "length (tmpOutBuffer D) = maxBufferSize D"
    "maxBlockSize D \<le> maxBufferSize D" "linked D \<Longrightarrow> maxBlockSize D + KB128 \<le> maxBufferSize D"
    "65536 \<le> maxBlockSize D" "maxBlockSize D \<le> 4194304"
  using assms ready_buffers [of D] by (simp_all add: body_ok_def)

text \<open>
  What a change of history keeps: everything but the three fields of the history and the contents of
  \<open>tmpOutBuffer\<close>.
\<close>

definition same_but_history :: "LZ4F_dctx \<Rightarrow> LZ4F_dctx \<Rightarrow> bool" where
  "same_but_history D D' \<longleftrightarrow> (\<exists>t d n. length t = length (tmpOutBuffer D) \<and>
     D' = D\<lparr>tmpOutBuffer := t, dict := d, dictSize := n\<rparr>)"

lemma same_but_historyI: "length t = length (tmpOutBuffer D) \<Longrightarrow>
    same_but_history D (D\<lparr>tmpOutBuffer := t, dict := d, dictSize := n\<rparr>)"
  by (auto simp: same_but_history_def)

lemma same_but_historyD:
  assumes "same_but_history D D'"
  shows "length (tmpOutBuffer D') = length (tmpOutBuffer D)" "frameInfo D' = frameInfo D" "dStage D' = dStage D"
    "maxBlockSize D' = maxBlockSize D" "maxBufferSize D' = maxBufferSize D" "tmpIn D' = tmpIn D"
    "tmpInSize D' = tmpInSize D" "tmpInTarget D' = tmpInTarget D" "tmpOut D' = tmpOut D"
    "tmpOutSize D' = tmpOutSize D" "tmpOutStart D' = tmpOutStart D" "header D' = header D"
    "flush_copy_size D' = flush_copy_size D" "linked D' = linked D" "crc_size D' = crc_size D"
    "ready D' = ready D" "buffers_ok D' = buffers_ok D"
  using assms by (auto simp: same_but_history_def flush_copy_size_def linked_def crc_size_def ready_def
      needed_def buffers_ok_def)

section \<open>Copies\<close>

lemma LZ4_memcpy_safe:
  "s + n \<le> length b \<Longrightarrow> d + n \<le> length m \<Longrightarrow> returnsR (\<lambda>m'. length m' = length m) (LZ4_memcpy (Some b) d s n m)"
  by (auto simp: memcpy_from)

lemma LZ4_memcpy_inside_safe:
  "s + n \<le> d \<or> d + n \<le> s \<Longrightarrow> s + n \<le> length m \<Longrightarrow> d + n \<le> length m \<Longrightarrow>
    returnsR (\<lambda>m'. length m' = length m) (LZ4_memcpy None d s n m)"
  by (auto simp: LZ4_memcpy_def poke_ok)

text \<open>The end of history moved to the front of \<open>tmpOutBuffer\<close>.\<close>

lemma keep_end_safe:
  assumes "dict D = InTmp 0" "dictSize D \<le> length (tmpOutBuffer D)" "2 * n \<le> dictSize D"
  shows "returnsR (\<lambda>t. length t = length (tmpOutBuffer D)) (copy_dict D dst n 0 n)"
  using assms by (auto simp: copy_dict_def Let_def intro!: LZ4_memcpy_inside_safe)

lemma flush_copy_size_le: "flush_copy_size D = 0 \<or> flush_copy_size D + tmpOutSize D \<le> KB64"
  "flush_copy_size D \<le> tmpOut D"
  by (auto simp: flush_copy_size_def)

lemma history_update:
  "flush_copy_size (D\<lparr>tmpOutBuffer := t, dict := d, dictSize := k\<rparr>) = flush_copy_size D"
  "ready (D\<lparr>tmpOutBuffer := t, dict := d, dictSize := k\<rparr>) = ready D"
  "linked (D\<lparr>tmpOutBuffer := t, dict := d, dictSize := k\<rparr>) = linked D"
  "flush_copy_size (D\<lparr>tmpOutStart := i\<rparr>) = flush_copy_size D"
  by (simp_all add: flush_copy_size_def ready_def linked_def needed_def)

definition history_step :: "LZ4F_dctx \<Rightarrow> nat \<Rightarrow> nat \<Rightarrow> bool \<Rightarrow> LZ4F_dctx \<Rightarrow> bool" where
  "history_step D p n withinTmp D' \<longleftrightarrow> same_but_history D D' \<and> body_ok D' (p + n) \<and>
     (withinTmp \<longrightarrow> flush_ok (D'\<lparr>tmpOutStart := tmpOutStart D + n\<rparr>))"

lemma history_stepI:
  assumes "D' = D\<lparr>tmpOutBuffer := t, dict := d, dictSize := k\<rparr>" "linked D" "ready D" "length t = length (tmpOutBuffer D)"
    "case d of DictNull \<Rightarrow> False | InTmp o1 \<Rightarrow> o1 = 0 \<and> k \<le> length t | InDst o1 \<Rightarrow> o1 + k = p + n"
    "w \<Longrightarrow> flush_ok D \<and> tmpOutStart D + n \<le> tmpOutSize D"
    "w \<Longrightarrow> if d = InTmp 0 then k = tmpOut D + tmpOutStart D + n
      else flush_copy_size D = 0 \<or> tmpOutStart D + n + flush_copy_size D \<le> k"
  shows "history_step D p n w D'"
  using assms(2-) unfolding assms(1)
  by (auto simp: history_step_def same_but_historyI body_ok_def history_ok_def history_update flush_ok_def
      split: dict_ptr.splits if_splits)

lemma history_step_ptr:
  assumes "linked D" "ready D"
    "case d of DictNull \<Rightarrow> False | InTmp o1 \<Rightarrow> o1 = 0 \<and> k \<le> length (tmpOutBuffer D) | InDst o1 \<Rightarrow> o1 + k = p + n"
    "w \<Longrightarrow> flush_ok D \<and> tmpOutStart D + n \<le> tmpOutSize D"
    "w \<Longrightarrow> if d = InTmp 0 then k = tmpOut D + tmpOutStart D + n
      else flush_copy_size D = 0 \<or> tmpOutStart D + n + flush_copy_size D \<le> k"
  shows "history_step D p n w (D\<lparr>dict := d, dictSize := k\<rparr>)"
proof (rule history_stepI)
  show "D\<lparr>dict := d, dictSize := k\<rparr> = D\<lparr>tmpOutBuffer := tmpOutBuffer D, dict := d, dictSize := k\<rparr>" by simp
qed (use assms in auto)

lemma updateDict_tmp_safe:
  assumes "linked D" "body_ok D p" "buffers_ok D" "p + n \<le> length dst" "p + n < KB64"
    "dict D = InTmp 0"
  shows "returnsR (history_step D p n False)
    (bindR (if maxBufferSize D < dictSize D + n then
              bindR (copy_dict D dst (KB64 - n) 0 (KB64 - n)) (\<lambda>tmp.
                Inr (D\<lparr>tmpOutBuffer := tmp, dictSize := KB64 - n\<rparr>))
            else Inr D) (\<lambda>D.
     bindR (LZ4_memcpy (Some dst) (dictSize D) p n (tmpOutBuffer D)) (\<lambda>tmp.
       Inr (D\<lparr>tmpOutBuffer := tmp, dictSize := dictSize D + n\<rparr>))))"
proof -
  note buf = body_buffers [OF assms(2,3)]
  have D: "history_ok D p" "ready D" using assms(2) by (simp_all add: body_ok_def)
  then have size: "dictSize D \<le> length (tmpOutBuffer D)" using assms(1,6) by (simp add: history_ok_def)
  have copy: "returnsR (history_step D p n False) (bindR (LZ4_memcpy (Some dst) k p n (tmpOutBuffer E)) (\<lambda>tmp.
      Inr (E\<lparr>tmpOutBuffer := tmp, dictSize := k + n\<rparr>)))"
    if E: "E = D\<lparr>tmpOutBuffer := t, dictSize := k\<rparr>" "length t = length (tmpOutBuffer D)" "k + n \<le> length t" for t k E
  proof (rule returnsR_bindR [OF LZ4_memcpy_safe])
    show "p + n \<le> length dst" "k + n \<le> length (tmpOutBuffer E)" using assms(4) E by simp_all
    fix u :: bytes assume u: "length u = length (tmpOutBuffer E)"
    have "E\<lparr>tmpOutBuffer := u, dictSize := k + n\<rparr> = D\<lparr>tmpOutBuffer := u, dict := InTmp 0, dictSize := k + n\<rparr>"
      using E(1) assms(6) by simp
    then show "returnsR (history_step D p n False) (Inr (E\<lparr>tmpOutBuffer := u, dictSize := k + n\<rparr>))"
      using u E assms(1) D(2) by (auto intro!: history_stepI)
  qed
  show ?thesis
  proof (cases "maxBufferSize D < dictSize D + n")
    case True
    have "2 * (KB64 - n) \<le> dictSize D" using True buf assms(1,5) by simp
    from keep_end_safe [OF assms(6) size this, of dst] obtain t where
      t: "copy_dict D dst (KB64 - n) 0 (KB64 - n) = Inr t" "length t = length (tmpOutBuffer D)"
      by (auto simp: returnsR_def)
    have "KB64 - n + n \<le> length t" using t(2) buf assms(1,5) by simp
    then show ?thesis
      using True t(1) copy [OF refl t(2), of "KB64 - n"] by simp
  next
    case False
    then show ?thesis
      using copy [where E = D and t = "tmpOutBuffer D" and k = "dictSize D"] buf(2) by simp
  qed
qed

lemma updateDict_safe:
  assumes "linked D" "body_ok D p" "buffers_ok D" "p + n \<le> length dst"
    "w \<Longrightarrow> flush_ok D \<and> tmpOutStart D + n \<le> tmpOutSize D"
  shows "returnsR (history_step D p n w) (LZ4F_updateDict D dst p n w)"
proof -
  have D: "history_ok D p" "ready D" using assms(2) by (simp_all add: body_ok_def)
  consider "dictSize D = 0" | "dictSize D \<noteq> 0" "dict D = InTmp 0" "dictSize D \<le> length (tmpOutBuffer D)"
    | o1 where "dictSize D \<noteq> 0" "dict D = InDst o1" "o1 + dictSize D = p"
    using D(1) assms(1) by (auto simp: history_ok_def split: dict_ptr.splits)
  then show ?thesis
  proof cases
    case 1
    then have "LZ4F_updateDict D dst p n w = Inr (D\<lparr>dict := InDst p, dictSize := n\<rparr>)"
      by (simp add: LZ4F_updateDict_def Let_def)
    moreover have "flush_copy_size D = 0" if w
      using that 1 assms(5) flush_copy_size_le(2) [of D] by (auto simp: flush_ok_def split: if_splits)
    ultimately show ?thesis
      using assms(1,5) D(2) by (auto intro!: history_step_ptr)
  next
    case 3
    then have "LZ4F_updateDict D dst p n w =
        Inr (D\<lparr>dict := InDst o1, dictSize := dictSize D + n\<rparr>)"
      by (simp add: LZ4F_updateDict_def Let_def)
    then show ?thesis
      using assms(1,5) D(2) 3
      by (auto intro!: history_step_ptr simp: flush_ok_def)
  next
    case 2
    note tmp = 2
    consider "KB64 \<le> p + n" | "p + n < KB64" w | "p + n < KB64" "\<not> w" by linarith
    then show ?thesis
    proof cases
      case 1
      then have "LZ4F_updateDict D dst p n w =
          Inr (D\<lparr>dict := InDst 0, dictSize := p + n\<rparr>)"
        using tmp by (simp add: LZ4F_updateDict_def Let_def)
      moreover have "flush_copy_size D = 0 \<or> tmpOutStart D + n + flush_copy_size D \<le> p + n" if w
        using that 1 assms(5) flush_copy_size_le(1) [of D] by auto
      ultimately show ?thesis
        using assms(1,5) D(2) by (auto intro!: history_step_ptr)
    next
      case 2
      then have "LZ4F_updateDict D dst p n w =
          Inr (D\<lparr>dict := InTmp 0, dictSize := dictSize D + n\<rparr>)"
        using tmp by (simp add: LZ4F_updateDict_def Let_def)
      moreover have "dictSize D = tmpOut D + tmpOutStart D" "dictSize D + n \<le> length (tmpOutBuffer D)"
        using 2 assms(5) tmp by (auto simp: flush_ok_def)
      ultimately show ?thesis
        using assms(1,5) D(2) by (auto intro!: history_step_ptr)
    next
      case 3
      then show ?thesis
        using updateDict_tmp_safe [OF assms(1-4) _ tmp(2)] tmp by (simp add: LZ4F_updateDict_def)
    qed
  qed
qed

section \<open>Frame header\<close>

lemma readLE32_take [simp]: "4 \<le> n \<Longrightarrow> LZ4F_readLE32 (take n b) = LZ4F_readLE32 b"
  by (simp add: LZ4F_readLE32_def)

lemma readLE32_view: "LZ4F_readLE32 (view 0 4 b) = LZ4F_readLE32 b"
  by (simp add: view_def)

definition header_kept :: "LZ4F_dctx \<Rightarrow> LZ4F_dctx \<Rightarrow> bool" where
  "header_kept D D' \<longleftrightarrow> length (header D') = length (header D) \<and> (buffers_ok D \<longrightarrow> buffers_ok D') \<and>
     (no_dict D \<longrightarrow> no_dict D')"

lemma descriptor_safe:
  assumes "header_size (src ! 4) \<le> length src"
  shows "returnsR (\<lambda>(D', r). header_kept D D' \<and> (\<forall>n. r = Inr n \<longrightarrow> n \<le> length src \<and>
      dStage D' = dstage_init \<and> maxBlockSize D' \<in> set blockSizes)) (decode_descriptor D src)"
proof -
  let ?size = "header_size (src ! 4)"
  have len: "7 \<le> ?size" by (simp add: header_size_def)
  then have two: "view 4 2 src ! 0 = src ! 4" "view 4 2 src ! 1 = src ! 5" "rd src 4 2 = Inr (view 4 2 src)"
    using assms by (simp_all add: nth_view)
  have reads: "rd src 4 (?size - 5) = Inr (view 4 (?size - 5) src)" "rd src (?size - 1) 1 = Inr (view (?size - 1) 1 src)"
    using len assms by (auto intro!: rd_inside)
  have csize: "rd src 6 8 = Inr (view 6 8 src)" if "flag_bit 3 (src ! 4)"
    using that assms by (intro rd_inside) (simp add: header_size_def split: if_splits)
  have did: "rd src (?size - 5) 4 = Inr (view (?size - 5) 4 src)"
    using len assms by (intro rd_inside) simp
  let ?i = "unat (drop_bit 4 (src ! 5) AND 7)"
  have "drop_bit 4 (src ! 5) AND 7 \<le> (7 :: byte)" by (rule word_and_le1)
  then have "?i \<le> 7" by (simp add: word_le_nat_alt)
  then have block: "\<not> ?i < 4 \<Longrightarrow> blockSizes ! (?i - 4) \<in> set blockSizes"
    by (auto simp: blockSizes_def nth_Cons split: nat.splits)
  show ?thesis
    unfolding decode_descriptor_def two bindR_Inr Let_def reads
    using block csize did assms by (auto simp: header_kept_def buffers_ok_def no_dict_def)
qed

definition base_ok :: "LZ4F_dctx \<Rightarrow> bool" where
  "base_ok D \<longleftrightarrow> length (header D) = 19 \<and> buffers_ok D \<and> no_dict D"

lemma base_ok_updates [simp]:
  "base_ok (D\<lparr>frameInfo := i\<rparr>) = base_ok D" "base_ok (D\<lparr>tmpInSize := a\<rparr>) = base_ok D"
  "base_ok (D\<lparr>tmpInTarget := b\<rparr>) = base_ok D" "base_ok (D\<lparr>dStage := st\<rparr>) = base_ok D"
  by (simp_all add: base_ok_def buffers_ok_def no_dict_def)

lemma base_ok_header: "base_ok D \<Longrightarrow> length h = 19 \<Longrightarrow> base_ok (D\<lparr>header := h\<rparr>)"
  by (simp add: base_ok_def buffers_ok_def no_dict_def)

lemma header_size_bounds: "7 \<le> header_size flg" "header_size flg \<le> 19"
  by (simp_all add: header_size_def)

lemma not_skippable: "LZ4F_MAGICNUMBER AND 0xFFFFFFF0 \<noteq> LZ4F_MAGIC_SKIPPABLE_START"
  by (simp add: LZ4F_MAGICNUMBER_def LZ4F_MAGIC_SKIPPABLE_START_def)

lemma decodeHeader_safe:
  assumes "base_ok D" "\<not> own \<Longrightarrow> 19 \<le> length src"
    "own \<Longrightarrow> src = take (length src) (header D) \<and> 7 \<le> length src \<and>
      (length src \<noteq> 7 \<longrightarrow> LZ4F_readLE32 (header D) = LZ4F_MAGICNUMBER)"
  shows "returnsR (\<lambda>(D', r). base_ok D' \<and> (\<forall>n. r = Inr n \<longrightarrow> n \<le> length src \<and> stage_ok D' p))
    (LZ4F_decodeHeader D own src)"
proof -
  let ?D = "D\<lparr>frameInfo := frameInfo_zero\<rparr>"
  have len: "7 \<le> length src" using assms(2,3) by (cases own) auto
  then have reads: "rd src 0 4 = Inr (view 0 4 src)" "rd src 4 1 = Inr (view 4 1 src)" "view 4 1 src ! 0 = src ! 4"
    by (auto intro!: rd_inside simp: nth_view)
  have magic: "LZ4F_readLE32 src = LZ4F_readLE32 (header D)" if own
    using assms(3) [OF that] len readLE32_take [of "length src" "header D"] by simp
  have nd: "no_dict D" using assms(1) by (simp add: base_ok_def)
  have desc: "returnsR (\<lambda>(D', r). base_ok D' \<and> (\<forall>n. r = Inr n \<longrightarrow> n \<le> length src \<and> stage_ok D' p))
      (decode_descriptor ?D src)" if "header_size (src ! 4) \<le> length src"
    by (rule returnsR_mono [OF descriptor_safe [OF that, of ?D]])
      (use assms(1) in \<open>auto simp: header_kept_def base_ok_def stage_ok_def buffers_ok_def no_dict_def\<close>)
  show ?thesis
    unfolding LZ4F_decodeHeader_def Let_def reads bindR_Inr readLE32_view
    using len assms desc magic nd not_skippable header_size_bounds [of "src ! 4"]
    by (auto simp: stage_ok_def no_dict_def intro!: returnsR_if)
qed

lemma frame_okI: "io_ok A n s \<Longrightarrow> dctx_ok (io_dctx s) (dst_pos s) \<Longrightarrow> frame_ok A n s"
  by (simp add: frame_ok_def)

lemma src_left_simps [simp]:
  "src_left A (s\<lparr>io_dctx := D\<rparr>) = src_left A s" "src_left A (set_dctx f s) = src_left A s"
  by (simp_all add: src_left_def)

lemma decode_own_header_safe:
  assumes "io_ok A n s" "base_ok (io_dctx s)" "7 \<le> tmpInTarget (io_dctx s)" "tmpInTarget (io_dctx s) \<le> 19"
    "tmpInTarget (io_dctx s) \<noteq> 7 \<Longrightarrow> LZ4F_readLE32 (header (io_dctx s)) = LZ4F_MAGICNUMBER"
  shows "returnsR (flow_ok A n) (decode_own_header s)"
proof -
  let ?D = "io_dctx s"
  let ?src = "take (tmpInTarget ?D) (header ?D)"
  have len: "length (header ?D) = 19" "length ?src = tmpInTarget ?D" using assms(2,4) by (simp_all add: base_ok_def)
  then have rd: "rd (header ?D) 0 (tmpInTarget ?D) = Inr ?src" using assms(4) by (simp add: view_def)
  have "returnsR (\<lambda>(D', r). base_ok D' \<and> (\<forall>n. r = Inr n \<longrightarrow> n \<le> length ?src \<and> stage_ok D' (dst_pos s)))
      (LZ4F_decodeHeader ?D True ?src)"
    using assms len by (intro decodeHeader_safe) auto
  then show ?thesis
    unfolding decode_own_header_def rd bindR_Inr
    by (rule returnsR_bindR)
      (use assms(1) in \<open>auto simp: frame_ok_def dctx_ok_def base_ok_def io_ok_def split: sum.splits\<close>)
qed

lemma readLE32_put: "4 \<le> k \<Longrightarrow> k \<le> length h \<Longrightarrow> LZ4F_readLE32 (put_at k b h) = LZ4F_readLE32 h"
  using take_put_at [of 4 k h b] readLE32_take [of 4 h] readLE32_take [of 4 "put_at k b h"] by simp

text \<open>Input collected in a buffer, as much as is wanted and there.\<close>

lemma fill_buffer:
  assumes "io_ok A n s" "k = min (target - i) (src_left A s)" "i \<le> target" "target \<le> length b"
  shows "LZ4_memcpy (Some (fr_src A)) i (src_pos s) k b = Inr (put_at i (view (src_pos s) k (fr_src A)) b)"
    "length (put_at i (view (src_pos s) k (fr_src A)) b) = length b" "i + k \<le> target"
    "src_pos s + k \<le> length (fr_src A)"
proof -
  show "src_pos s + k \<le> length (fr_src A)" "i + k \<le> target"
    using assms(1-3) by (auto simp: io_ok_def src_left_def)
  then show "LZ4_memcpy (Some (fr_src A)) i (src_pos s) k b = Inr (put_at i (view (src_pos s) k (fr_src A)) b)"
    "length (put_at i (view (src_pos s) k (fr_src A)) b) = length b"
    using assms(4) by (auto intro!: memcpy_from)
qed

lemma store_frame_header_safe:
  assumes "frame_ok A n s" "dStage (io_dctx s) = dstage_storeFrameHeader"
  shows "returnsR (flow_ok A n) (store_frame_header A s)"
proof -
  let ?D = "io_dctx s"
  define k where k: "k = min (tmpInTarget ?D - tmpInSize ?D) (src_left A s)"
  let ?h = "put_at (tmpInSize ?D) (view (src_pos s) k (fr_src A)) (header ?D)"
  let ?D1 = "?D\<lparr>header := ?h, tmpInSize := tmpInSize ?D + k\<rparr>"
  let ?s1 = "s\<lparr>io_dctx := ?D1, src_pos := src_pos s + k\<rparr>"
  have io: "io_ok A n s" and D: "base_ok ?D" "tmpInSize ?D < tmpInTarget ?D" "7 \<le> tmpInTarget ?D"
    "tmpInTarget ?D \<le> 19" "tmpInTarget ?D \<noteq> 7 \<longrightarrow> 7 \<le> tmpInSize ?D \<and> LZ4F_readLE32 (header ?D) = LZ4F_MAGICNUMBER"
    using assms by (simp_all add: frame_ok_def dctx_ok_def stage_ok_def base_ok_def)
  have len: "length (header ?D) = 19" using D(1) by (simp add: base_ok_def)
  then have "tmpInSize ?D \<le> tmpInTarget ?D" "tmpInTarget ?D \<le> length (header ?D)" using D by simp_all
  note fill = fill_buffer [OF io k this]
  have io1: "io_ok A n ?s1" using io fill(4) by (simp add: io_ok_def)
  have base1: "base_ok ?D1" using D(1) fill(2) len by (simp only: base_ok_header base_ok_updates)
  have magic1: "tmpInTarget ?D \<noteq> 7 \<Longrightarrow> LZ4F_readLE32 ?h = LZ4F_MAGICNUMBER"
    using D len by (auto simp: readLE32_put)
  have step: "store_frame_header A s = (if tmpInSize ?D + k < tmpInTarget ?D
      then Inr (Pause ((tmpInTarget ?D - (tmpInSize ?D + k)) + BHSize) ?s1) else decode_own_header ?s1)"
    using fill(1) by (simp add: store_frame_header_def Let_def k [symmetric])
  show ?thesis
  proof (cases "tmpInSize ?D + k < tmpInTarget ?D")
    case True
    have "dctx_ok ?D1 p" for p
      using base1 assms(2) True D(3-5) magic1 by (auto simp: dctx_ok_def base_ok_def stage_ok_def no_dict_def)
    then show ?thesis
      using True io1 D(4) by (simp add: step frame_ok_def)
  next
    case False
    have "returnsR (flow_ok A n) (decode_own_header ?s1)"
      using io1 base1 D(3,4) magic1 by (intro decode_own_header_safe) auto
    then show ?thesis using False by (simp add: step)
  qed
qed

lemma get_frame_header_safe:
  assumes "frame_ok A n s" "dStage (io_dctx s) = dstage_getFrameHeader"
  shows "returnsR (flow_ok A n) (get_frame_header A s)"
proof -
  let ?D = "io_dctx s"
  have io: "io_ok A n s" and D: "base_ok ?D"
    using assms by (simp_all add: frame_ok_def dctx_ok_def stage_ok_def base_ok_def)
  show ?thesis
  proof (cases "maxFHSize \<le> src_left A s")
    case True
    let ?src = "drop (src_pos s) (fr_src A)"
    have "returnsR (\<lambda>(D', r). base_ok D' \<and> (\<forall>n. r = Inr n \<longrightarrow> n \<le> length ?src \<and> stage_ok D' (dst_pos s)))
        (LZ4F_decodeHeader ?D False ?src)"
      using D True by (intro decodeHeader_safe) (auto simp: src_left_def)
    then have "returnsR (flow_ok A n) (bindR (LZ4F_decodeHeader ?D False ?src) (\<lambda>(D, r).
        Inr (case r of Inl e \<Rightarrow> Fail e (s\<lparr>io_dctx := D\<rparr>)
          | Inr hSize \<Rightarrow> Again (s\<lparr>io_dctx := D, src_pos := src_pos s + hSize\<rparr>))))"
      by (rule returnsR_bindR)
        (use io in \<open>fastforce simp: frame_ok_def dctx_ok_def base_ok_def io_ok_def split: sum.splits\<close>)
    then show ?thesis using True by (simp add: get_frame_header_def)
  next
    case False
    let ?s = "set_dctx (\<lambda>D. D\<lparr>tmpInTarget := minFHSize, dStage := dstage_storeFrameHeader\<rparr>)
      (set_dctx (\<lambda>D. D\<lparr>tmpInSize := 0\<rparr>) s)"
    have "frame_ok A n ?s"
      using io D by (simp add: frame_ok_def io_ok_def set_dctx_def dctx_ok_def stage_ok_def base_ok_def
          no_dict_def buffers_ok_def)
    then have "returnsR (flow_ok A n) (store_frame_header A ?s)"
      by (rule store_frame_header_safe) simp
    moreover have "frame_ok A n (set_dctx (\<lambda>D. D\<lparr>tmpInSize := 0\<rparr>) s)"
      using io D assms(2) by (simp add: frame_ok_def io_ok_def set_dctx_def dctx_ok_def stage_ok_def base_ok_def
          no_dict_def buffers_ok_def)
    ultimately show ?thesis using False assms(2) by (simp add: get_frame_header_def Let_def)
  qed
qed

section \<open>Blocks\<close>

text \<open>Fields that do not matter for the invariant of a block.\<close>

lemma body_ok_updates [simp]:
  "body_ok (D\<lparr>tmpInSize := a\<rparr>) p = body_ok D p" "body_ok (D\<lparr>tmpInTarget := a\<rparr>) p = body_ok D p"
  "body_ok (D\<lparr>dStage := st\<rparr>) p = body_ok D p" "body_ok (D\<lparr>blockChecksum := c\<rparr>) p = body_ok D p"
  "body_ok (D\<lparr>xxh := x\<rparr>) p = body_ok D p" "body_ok (D\<lparr>header := h\<rparr>) p = body_ok D p"
  "body_ok (D\<lparr>frameRemainingSize := r\<rparr>) p = body_ok D p" "body_ok (D\<lparr>tmpIn := t\<rparr>) p = body_ok D p"
  "body_ok (D\<lparr>tmpOutStart := a\<rparr>) p = body_ok D p" "body_ok (D\<lparr>tmpOutSize := a\<rparr>) p = body_ok D p"
  by (simp_all add: body_ok_def ready_def needed_def linked_def history_ok_def split: dict_ptr.split)

lemma buffers_ok_updates [simp]:
  "buffers_ok (D\<lparr>tmpInSize := a\<rparr>) = buffers_ok D" "buffers_ok (D\<lparr>tmpInTarget := a\<rparr>) = buffers_ok D"
  "buffers_ok (D\<lparr>dStage := st\<rparr>) = buffers_ok D" "buffers_ok (D\<lparr>blockChecksum := c\<rparr>) = buffers_ok D"
  "buffers_ok (D\<lparr>xxh := x\<rparr>) = buffers_ok D" "buffers_ok (D\<lparr>header := h\<rparr>) = buffers_ok D"
  "buffers_ok (D\<lparr>frameRemainingSize := r\<rparr>) = buffers_ok D" "buffers_ok (D\<lparr>frameInfo := i\<rparr>) = buffers_ok D"
  "buffers_ok (D\<lparr>tmpOutStart := a\<rparr>) = buffers_ok D" "buffers_ok (D\<lparr>tmpOutSize := a\<rparr>) = buffers_ok D"
  "buffers_ok (D\<lparr>tmpOut := a\<rparr>) = buffers_ok D" "buffers_ok (D\<lparr>dict := d\<rparr>) = buffers_ok D"
  "buffers_ok (D\<lparr>dictSize := a\<rparr>) = buffers_ok D"
  by (simp_all add: buffers_ok_def)

lemma buffers_ok_tmp:
  "length t = length (tmpIn D) \<Longrightarrow> buffers_ok D \<Longrightarrow> buffers_ok (D\<lparr>tmpIn := t\<rparr>)"
  "length t = length (tmpOutBuffer D) \<Longrightarrow> buffers_ok D \<Longrightarrow> buffers_ok (D\<lparr>tmpOutBuffer := t\<rparr>)"
  by (simp_all add: buffers_ok_def)

lemma ready_updates [simp]:
  "ready (D\<lparr>tmpInSize := a\<rparr>) = ready D" "ready (D\<lparr>tmpIn := t\<rparr>) = ready D" "ready (D\<lparr>dStage := st\<rparr>) = ready D"
  by (simp_all add: ready_def needed_def linked_def)

lemma crc_size_updates [simp]:
  "crc_size (D\<lparr>tmpInTarget := a\<rparr>) = crc_size D" "crc_size (D\<lparr>dStage := st\<rparr>) = crc_size D"
  "crc_size (D\<lparr>tmpInSize := b\<rparr>) = crc_size D" "crc_size (D\<lparr>tmpIn := t\<rparr>) = crc_size D"
  "crc_size (D\<lparr>blockChecksum := c\<rparr>) = crc_size D"
  by (simp_all add: crc_size_def)

lemma crc_size_le: "crc_size D \<le> 4"
  by (simp add: crc_size_def)

lemma body_ready: "body_ok D p \<Longrightarrow> ready D"
  by (simp add: body_ok_def)

lemma set_stage_frame_ok:
  assumes "io_ok A n s" "length (header (io_dctx s)) = 19" "buffers_ok (io_dctx s)"
    "stage_ok ((io_dctx s)\<lparr>dStage := st\<rparr>) (dst_pos s)"
  shows "frame_ok A n (set_stage st s)"
  using assms by (simp add: frame_ok_def io_ok_def set_stage_def set_dctx_def dctx_ok_def)

lemma decode_block_header_safe:
  assumes "io_ok A n s" "length (header (io_dctx s)) = 19" "buffers_ok (io_dctx s)"
    "body_ok (io_dctx s) (dst_pos s)" "4 \<le> length sel"
  shows "returnsR (flow_ok A n) (decode_block_header A sel s)"
proof -
  have "rd sel 0 4 = Inr (view 0 4 sel)" using assms(5) by simp
  moreover have "maxBlockSize (io_dctx s) \<le> 4194304" using body_buffers [OF assms(4,3)] by simp
  ultimately show ?thesis
    using assms(1-4) body_ready [OF assms(4)] crc_size_le [of "io_dctx s"]
    by (auto simp: decode_block_header_def Let_def frame_ok_def io_ok_def set_stage_def set_dctx_def
        dctx_ok_def stage_ok_def)
qed

lemma store_four_safe:
  assumes io: "io_ok A n s" and D: "tmpInSize (io_dctx s) < 4" "4 \<le> length (tmpIn (io_dctx s))"
    and pause: "\<And>t i j. length t = length (tmpIn (io_dctx s)) \<Longrightarrow> i < 4 \<Longrightarrow>
      dctx_ok ((io_dctx s)\<lparr>tmpIn := t, tmpInSize := i\<rparr>) (dst_pos s)"
    and k: "\<And>t i j. length t = length (tmpIn (io_dctx s)) \<Longrightarrow> src_pos s + j \<le> length (fr_src A) \<Longrightarrow>
      returnsR (flow_ok A n) (k t (s\<lparr>io_dctx := (io_dctx s)\<lparr>tmpIn := t, tmpInSize := i\<rparr>, src_pos := src_pos s + j\<rparr>))"
  shows "returnsR (flow_ok A n) (store_four A k s)"
proof -
  let ?D = "io_dctx s"
  define w where w: "w = min (4 - tmpInSize ?D) (src_left A s)"
  have "tmpInSize ?D \<le> 4" "4 \<le> length (tmpIn ?D)" using D by simp_all
  note fill = fill_buffer [OF io w this]
  let ?t = "put_at (tmpInSize ?D) (view (src_pos s) w (fr_src A)) (tmpIn ?D)"
  let ?s1 = "s\<lparr>io_dctx := ?D\<lparr>tmpIn := ?t, tmpInSize := tmpInSize ?D + w\<rparr>, src_pos := src_pos s + w\<rparr>"
  have step: "store_four A k s = (if tmpInSize ?D + w < 4
      then Inr (Pause (4 - (tmpInSize ?D + w)) ?s1) else k ?t ?s1)"
    using fill(1) by (simp add: store_four_def Let_def w [symmetric])
  show ?thesis
  proof (cases "tmpInSize ?D + w < 4")
    case True
    then have "frame_ok A n ?s1"
      using io fill(4) pause [OF fill(2), of "tmpInSize ?D + w"] by (simp add: frame_ok_def io_ok_def)
    then show ?thesis using True by (simp add: step)
  next
    case False
    then show ?thesis using k [OF fill(2,4), of "tmpInSize ?D + w"] by (simp add: step)
  qed
qed

lemma block_header_safe:
  assumes "io_ok A n s" "length (header (io_dctx s)) = 19" "buffers_ok (io_dctx s)" "body_ok (io_dctx s) (dst_pos s)"
  shows "dStage (io_dctx s) = dstage_storeBlockHeader \<Longrightarrow> tmpInSize (io_dctx s) < 4 \<Longrightarrow>
      returnsR (flow_ok A n) (store_block_header A s)"
    and "dStage (io_dctx s) = dstage_getBlockHeader \<Longrightarrow> returnsR (flow_ok A n) (get_block_header A s)"
proof -
  have st: "returnsR (flow_ok A n) (store_four A (decode_block_header A) s)"
    if s: "io_ok A n s" "length (header (io_dctx s)) = 19" "buffers_ok (io_dctx s)" "body_ok (io_dctx s) (dst_pos s)"
      "dStage (io_dctx s) = dstage_storeBlockHeader" "tmpInSize (io_dctx s) < 4" for s
  proof (rule store_four_safe [OF s(1,6)])
    show four: "4 \<le> length (tmpIn (io_dctx s))" using body_buffers [OF s(4,3)] by simp
    fix t :: bytes and i j assume t: "length t = length (tmpIn (io_dctx s))"
    then have b: "buffers_ok ((io_dctx s)\<lparr>tmpIn := t\<rparr>)" using s(3) by (rule buffers_ok_tmp)
    then show "dctx_ok ((io_dctx s)\<lparr>tmpIn := t, tmpInSize := i\<rparr>) (dst_pos s)" if "i < 4"
      using s that by (simp add: dctx_ok_def stage_ok_def)
    show "returnsR (flow_ok A n) (decode_block_header A t
        (s\<lparr>io_dctx := (io_dctx s)\<lparr>tmpIn := t, tmpInSize := i\<rparr>, src_pos := src_pos s + j\<rparr>))"
      if "src_pos s + j \<le> length (fr_src A)"
      using s t b four that by (intro decode_block_header_safe) (simp_all add: io_ok_def)
  qed
  show "returnsR (flow_ok A n) (store_block_header A s)"
    if "dStage (io_dctx s) = dstage_storeBlockHeader" "tmpInSize (io_dctx s) < 4"
    unfolding store_block_header_def using st assms that by blast
  show "returnsR (flow_ok A n) (get_block_header A s)" if "dStage (io_dctx s) = dstage_getBlockHeader"
  proof (cases "BHSize \<le> src_left A s")
    case True
    have "returnsR (flow_ok A n) (decode_block_header A (drop (src_pos s) (fr_src A)) (s\<lparr>src_pos := src_pos s + BHSize\<rparr>))"
      using assms True by (intro decode_block_header_safe) (auto simp: io_ok_def src_left_def)
    then show ?thesis using True by (simp add: get_block_header_def get_four_def)
  next
    case False
    let ?s = "set_dctx (\<lambda>D. D\<lparr>tmpInSize := 0, dStage := dstage_storeBlockHeader\<rparr>) s"
    have "returnsR (flow_ok A n) (store_four A (decode_block_header A) ?s)"
      using assms by (intro st) (simp_all add: set_dctx_def io_ok_def)
    then show ?thesis using False by (simp add: get_block_header_def get_four_def)
  qed
qed

lemma init_frame_safe:
  assumes "frame_ok A n s" "dStage (io_dctx s) = dstage_init" "args_alloc A"
  shows "returnsR (flow_ok A n) (init_frame A s)"
proof -
  let ?D0 = "io_dctx s"
  let ?D = "if contentChecksumFlag (frameInfo ?D0) then ?D0\<lparr>xxh := XXH32_reset 0\<rparr> else ?D0"
  have io: "io_ok A n s" and D: "no_dict ?D" "maxBlockSize ?D \<in> set blockSizes" "length (header ?D) = 19"
    "buffers_ok ?D"
    using assms(1,2) by (simp_all add: frame_ok_def dctx_ok_def stage_ok_def no_dict_def)
  let ?need = "maxBlockSize ?D + (if linked ?D then KB128 else 0)"
  let ?ready = "\<lambda>D. get_block_header A (s\<lparr>io_dctx := D\<lparr>tmpInSize := 0, tmpInTarget := 0, tmpOut := 0,
    tmpOutStart := 0, tmpOutSize := 0, dStage := dstage_getBlockHeader\<rparr>\<rparr>)"
  have fin: "returnsR (flow_ok A n) (?ready E)"
    if E: "no_dict E" "maxBlockSize E \<in> set blockSizes" "length (header E) = 19" "buffers_ok E"
      "needed E \<le> maxBufferSize E" for E
    using E io by (intro block_header_safe(2))
      (simp_all add: io_ok_def body_ok_def history_ok_def no_dict_def ready_def needed_def linked_def)
  have len: "length (io_dst s) = n" using io by (simp add: io_ok_def)
  have hd: "length (header (io_dctx s)) = 19" using assms(1) by (simp add: frame_ok_def dctx_ok_def)
  show ?thesis
  proof (cases "maxBufferSize ?D < ?need")
    case True
    have alloc: "fr_alloc A k = Some b \<Longrightarrow> length b = k" for k b
      using assms(3) by (simp add: args_alloc_def)
    have "returnsR (flow_ok A n) (?ready (?D\<lparr>tmpIn := t, tmpOutBuffer := b, maxBufferSize := ?need\<rparr>))"
      if "fr_alloc A (maxBlockSize ?D + BFSize) = Some t" "fr_alloc A ?need = Some b" for t b
    proof (rule fin)
      let ?E = "?D\<lparr>tmpIn := t, tmpOutBuffer := b, maxBufferSize := ?need\<rparr>"
      show "buffers_ok ?E"
        using alloc [OF that(1)] alloc [OF that(2)] D(2) by (auto simp: buffers_ok_def)
      show "needed ?E \<le> maxBufferSize ?E" by (simp add: needed_def linked_def)
    qed (use D in \<open>simp_all add: no_dict_def\<close>)
    then show ?thesis
      using True len unfolding init_frame_def Let_def by (auto split: option.split simp: hd simp del: if_split_eq1)
  next
    case False
    then have "returnsR (flow_ok A n) (?ready ?D)"
      using D by (intro fin) (simp_all add: needed_def)
    then show ?thesis using False unfolding init_frame_def Let_def by simp
  qed
qed

lemma update_history_safe:
  assumes "body_ok (io_dctx s) (dst_pos s)" "buffers_ok (io_dctx s)" "dst_pos s + k \<le> length (io_dst s)"
    "w \<Longrightarrow> flush_ok (io_dctx s) \<and> tmpOutStart (io_dctx s) + k \<le> tmpOutSize (io_dctx s)"
  shows "returnsR (\<lambda>s'. \<exists>D'. s' = s\<lparr>io_dctx := D'\<rparr> \<and> history_step (io_dctx s) (dst_pos s) k w D')
    (update_history s k w)"
proof (cases "linked (io_dctx s)")
  case True
  from updateDict_safe [OF this assms(1-3), of w] assms(4) obtain D' where
    "LZ4F_updateDict (io_dctx s) (io_dst s) (dst_pos s) k w = Inr D'" "history_step (io_dctx s) (dst_pos s) k w D'"
    by (auto simp: returnsR_def)
  then show ?thesis using True by (auto simp: update_history_def)
next
  case False
  let ?D = "io_dctx s"
  have "?D = ?D\<lparr>tmpOutBuffer := tmpOutBuffer ?D, dict := dict ?D, dictSize := dictSize ?D\<rparr>" by simp
  then have "same_but_history ?D ?D" unfolding same_but_history_def by blast
  moreover have "body_ok ?D (dst_pos s + k)"
    using assms(1) False by (simp add: body_ok_def history_ok_def)
  moreover have "flush_ok (?D\<lparr>tmpOutStart := tmpOutStart ?D + k\<rparr>)" if w
    using assms(4) [OF that] assms(1) False flush_copy_size_le(2) [of ?D]
    by (auto simp: flush_ok_def body_ok_def history_ok_def history_update)
  ultimately show ?thesis
    using False by (auto simp: update_history_def history_step_def intro!: exI [of _ ?D])
qed

lemma copy_direct_safe:
  assumes "frame_ok A n s" "dStage (io_dctx s) = dstage_copyDirect"
  shows "returnsR (flow_ok A n) (copy_direct A s)"
proof -
  let ?D = "io_dctx s"
  define k where k: "k = (if fr_null A then 0 else min (tmpInTarget ?D) (min (src_left A s) (dst_left s)))"
  have io: "io_ok A n s" and D: "body_ok ?D (dst_pos s)" "tmpInTarget ?D \<le> maxBlockSize ?D" "length (header ?D) = 19"
    "buffers_ok ?D"
    using assms by (simp_all add: frame_ok_def dctx_ok_def stage_ok_def)
  have room: "k \<le> tmpInTarget ?D" "src_pos s + k \<le> length (fr_src A)" "dst_pos s + k \<le> length (io_dst s)"
    using io by (auto simp: k io_ok_def src_left_def dst_left_def)
  have big: "maxBlockSize ?D \<le> 4194304" using body_buffers [OF D(1,4)] by simp
  let ?fin = "\<lambda>s. let D = io_dctx s; s = s\<lparr>src_pos := src_pos s + k, dst_pos := dst_pos s + k\<rparr>
           in Inr (if k = tmpInTarget D then
                     Again (if blockChecksumFlag (frameInfo D)
                            then s\<lparr>io_dctx := D\<lparr>tmpInSize := 0, dStage := dstage_getBlockChecksum\<rparr>\<rparr>
                            else set_stage dstage_getBlockHeader s)
                   else
                     Pause (tmpInTarget D - k + crc_size D + BHSize)
                       (s\<lparr>io_dctx := D\<lparr>tmpInTarget := tmpInTarget D - k\<rparr>\<rparr>))"
  have fin: "returnsR (flow_ok A n) (?fin t)"
    if t: "src_pos t = src_pos s" "dst_pos t = dst_pos s" "length (io_dst t) = n" "body_ok (io_dctx t) (dst_pos s + k)"
      "buffers_ok (io_dctx t)" "length (header (io_dctx t)) = 19" "dStage (io_dctx t) = dstage_copyDirect"
      "tmpInTarget (io_dctx t) = tmpInTarget ?D" "maxBlockSize (io_dctx t) = maxBlockSize ?D" for t
    using t io room D(2) big crc_size_le [of "io_dctx t"]
    by (auto simp: Let_def frame_ok_def io_ok_def dctx_ok_def stage_ok_def set_stage_def set_dctx_def)
  let ?copy = "if fr_null A then Inr s
                else
                  bindR (LZ4_memcpy (Some (fr_src A)) (dst_pos s) (src_pos s) k (io_dst s)) (\<lambda>dst.
                    let D = io_dctx s; bs = view (src_pos s) k (fr_src A);
                        D = D\<lparr>blockChecksum := if blockChecksumFlag (frameInfo D)
                                then XXH32_update (blockChecksum D) bs else blockChecksum D,
                              xxh := if contentChecksumFlag (frameInfo D) then XXH32_update (xxh D) bs else xxh D,
                              frameRemainingSize := if contentSize (frameInfo D) \<noteq> 0
                                then frameRemainingSize D - of_nat k else frameRemainingSize D\<rparr>
                    in update_history (s\<lparr>io_dctx := D, io_dst := dst\<rparr>) k False)"
  let ?Q = "\<lambda>t. src_pos t = src_pos s \<and> dst_pos t = dst_pos s \<and> length (io_dst t) = n \<and>
      body_ok (io_dctx t) (dst_pos s + k) \<and> buffers_ok (io_dctx t) \<and> length (header (io_dctx t)) = 19 \<and>
      dStage (io_dctx t) = dstage_copyDirect \<and> tmpInTarget (io_dctx t) = tmpInTarget ?D \<and>
      maxBlockSize (io_dctx t) = maxBlockSize ?D"
  have "returnsR ?Q ?copy"
  proof (cases "fr_null A")
    case True
    then show ?thesis using io D assms(2) by (auto simp: k io_ok_def)
  next
    case False
    let ?bs = "view (src_pos s) k (fr_src A)"
    let ?dst = "put_at (dst_pos s) ?bs (io_dst s)"
    let ?D1 = "?D\<lparr>blockChecksum := if blockChecksumFlag (frameInfo ?D)
        then XXH32_update (blockChecksum ?D) ?bs else blockChecksum ?D,
      xxh := if contentChecksumFlag (frameInfo ?D) then XXH32_update (xxh ?D) ?bs else xxh ?D,
      frameRemainingSize := if contentSize (frameInfo ?D) \<noteq> 0
        then frameRemainingSize ?D - of_nat k else frameRemainingSize ?D\<rparr>"
    let ?s1 = "s\<lparr>io_dctx := ?D1, io_dst := ?dst\<rparr>"
    have copy: "LZ4_memcpy (Some (fr_src A)) (dst_pos s) (src_pos s) k (io_dst s) = Inr ?dst" "length ?dst = n"
      using room io by (auto intro!: memcpy_from simp: io_ok_def)
    have "returnsR (\<lambda>s'. \<exists>D'. s' = ?s1\<lparr>io_dctx := D'\<rparr> \<and> history_step ?D1 (dst_pos s) k False D')
        (update_history ?s1 k False)"
      using update_history_safe [of ?s1 k False] D copy(2) room(3) io by (simp add: io_ok_def)
    then have "returnsR ?Q (update_history ?s1 k False)"
    proof (rule returnsR_mono)
      fix x assume "\<exists>D'. x = ?s1\<lparr>io_dctx := D'\<rparr> \<and> history_step ?D1 (dst_pos s) k False D'"
      then obtain D' where x: "x = ?s1\<lparr>io_dctx := D'\<rparr>" "same_but_history ?D1 D'" "body_ok D' (dst_pos s + k)"
        by (auto simp: history_step_def)
      show "?Q x" using x(1,3) copy(2) D assms(2) same_but_historyD [OF x(2)] by simp
    qed
    then show ?thesis using False copy(1) by (simp add: Let_def)
  qed
  then show ?thesis
    unfolding copy_direct_def Let_def k [symmetric]
    by (rule returnsR_bindR, elim conjE) (rule fin [unfolded Let_def], assumption+)
qed

lemma check_block_checksum_safe:
  assumes "io_ok A n s" "length (header (io_dctx s)) = 19" "buffers_ok (io_dctx s)"
    "body_ok (io_dctx s) (dst_pos s)" "4 \<le> length crc"
  shows "returnsR (flow_ok A n) (check_block_checksum crc s)"
proof -
  have "rd crc 0 4 = Inr (view 0 4 crc)" using assms(5) by simp
  then show ?thesis
    using assms(1-4) by (auto simp: check_block_checksum_def io_ok_def stage_ok_def intro!: set_stage_frame_ok)
qed

lemma get_block_checksum_safe:
  assumes "frame_ok A n s" "dStage (io_dctx s) = dstage_getBlockChecksum"
  shows "returnsR (flow_ok A n) (get_block_checksum A s)"
proof -
  let ?D = "io_dctx s"
  have io: "io_ok A n s" and D: "body_ok ?D (dst_pos s)" "tmpInSize ?D < 4" "length (header ?D) = 19" "buffers_ok ?D"
    using assms by (simp_all add: frame_ok_def dctx_ok_def stage_ok_def)
  show ?thesis
  proof (cases "4 \<le> src_left A s \<and> tmpInSize ?D = 0")
    case True
    have "returnsR (flow_ok A n) (check_block_checksum (drop (src_pos s) (fr_src A)) (s\<lparr>src_pos := src_pos s + 4\<rparr>))"
      using io D True by (intro check_block_checksum_safe) (auto simp: io_ok_def src_left_def)
    then show ?thesis using True by (simp add: get_block_checksum_def)
  next
    case False
    define k where k: "k = min (4 - tmpInSize ?D) (src_left A s)"
    have "tmpInSize ?D \<le> 4" "4 \<le> length (header ?D)" using D by simp_all
    note fill = fill_buffer [OF io k this]
    let ?h = "put_at (tmpInSize ?D) (view (src_pos s) k (fr_src A)) (header ?D)"
    let ?s1 = "s\<lparr>io_dctx := ?D\<lparr>header := ?h, tmpInSize := tmpInSize ?D + k\<rparr>, src_pos := src_pos s + k\<rparr>"
    have step: "get_block_checksum A s =
        (if tmpInSize ?D + k < 4 then Inr (Pause 1 ?s1) else check_block_checksum ?h ?s1)"
      using fill(1) False by (simp only: get_block_checksum_def Let_def k [symmetric] if_False) simp
    have "frame_ok A n ?s1" if "tmpInSize ?D + k < 4"
      using io D fill that assms(2) by (simp add: frame_ok_def io_ok_def dctx_ok_def stage_ok_def)
    moreover have "returnsR (flow_ok A n) (check_block_checksum ?h ?s1)"
      using io D fill by (intro check_block_checksum_safe) (simp_all add: io_ok_def)
    ultimately show ?thesis by (simp add: step)
  qed
qed

section \<open>Compressed blocks\<close>

text \<open>
  A dictionary that fits a block: in front of it, or elsewhere. The block goes to the destination, or
  behind the history in \<open>tmpOutBuffer\<close>.
\<close>

lemma block_dict_safe:
  assumes "history_ok D p" "p \<le> length dst"
    "dest = InDst p \<and> b = p \<or> dest = InTmp (tmpOut D) \<and> b = tmpOut D \<and> (dict D = InTmp 0 \<longrightarrow> dictSize D = tmpOut D)"
  shows "returnsR (\<lambda>(n, ext). ext = None \<longrightarrow> n \<le> b) (block_dict D dst dest cap)"
proof -
  consider "dictSize D = 0" | "dictSize D \<noteq> 0" "dict D = InTmp 0" "dictSize D \<le> length (tmpOutBuffer D)"
    | o1 where "dictSize D \<noteq> 0" "dict D = InDst o1" "o1 + dictSize D = p"
    using assms(1) by (auto simp: history_ok_def split: dict_ptr.splits if_splits)
  then show ?thesis
  proof cases
    case 1
    then show ?thesis by (simp add: block_dict_def)
  next
    case 2
    then show ?thesis
      using assms(3) by (auto simp: block_dict_def Let_def)
  next
    case 3
    then show ?thesis
      using assms(2,3) by (auto simp: block_dict_def Let_def)
  qed
qed

lemma decode_at_safe:
  assumes "p + cap \<le> length b" "snd d = None \<Longrightarrow> fst d \<le> p"
  shows "returnsR (\<lambda>(r, b'). length b' = length b \<and> r \<le> int cap) (decode_at A src d b p cap)"
proof -
  have "decoded (p + cap) cap (LZ4_decompress_safe_usingDict (fr_fast A) src (fst d) (snd d) p (take (p + cap) b))"
    using usingDict_safe [of p "take (p + cap) b" "snd d" "fst d"] assms by simp
  then show ?thesis
    using assms(1) by (auto simp: decode_at_def decoded_def returnsR_def)
qed

lemma note_decoded_simps [simp]:
  "frameInfo (note_decoded bs D) = frameInfo D" "dStage (note_decoded bs D) = dStage D"
  "header (note_decoded bs D) = header D" "buffers_ok (note_decoded bs D) = buffers_ok D"
  "body_ok (note_decoded bs D) p = body_ok D p" "tmpOutBuffer (note_decoded bs D) = tmpOutBuffer D"
  "dict (note_decoded bs D) = dict D" "dictSize (note_decoded bs D) = dictSize D" "tmpOut (note_decoded bs D) = tmpOut D"
  by (simp_all add: note_decoded_def)

lemma decode_direct_safe:
  assumes "io_ok A n s" "length (header (io_dctx s)) = 19" "buffers_ok (io_dctx s)"
    "body_ok (io_dctx s) (dst_pos s)" "maxBlockSize (io_dctx s) \<le> dst_left s"
  shows "returnsR (flow_ok A n) (decode_direct A block s)"
proof -
  let ?D = "io_dctx s"
  have room: "dst_pos s + maxBlockSize ?D \<le> length (io_dst s)"
    using assms(1,5) body_buffers(5) [OF assms(4,3)] by (auto simp: dst_left_def)
  have hist: "history_ok ?D (dst_pos s)" "dst_pos s \<le> length (io_dst s)"
    using assms(1,4) by (simp_all add: body_ok_def io_ok_def)
  have fin: "returnsR (flow_ok A n) (if r < 0 then Inr (Fail LZ4F_ERROR_GENERIC (s\<lparr>io_dst := dst\<rparr>))
      else bindR (update_history
               (s\<lparr>io_dctx := note_decoded (view (dst_pos s) (nat r) dst) ?D, io_dst := dst\<rparr>) (nat r) False) (\<lambda>s.
                 Inr (Again (set_stage dstage_getBlockHeader (s\<lparr>dst_pos := dst_pos s + nat r\<rparr>)))))"
    if dst: "length dst = length (io_dst s)" "r \<le> int (maxBlockSize ?D)" for r dst
  proof (rule returnsR_if)
    show "returnsR (flow_ok A n) (Inr (Fail LZ4F_ERROR_GENERIC (s\<lparr>io_dst := dst\<rparr>)))"
      using dst(1) assms(1-3) by (simp add: io_ok_def)
    let ?D1 = "note_decoded (view (dst_pos s) (nat r) dst) ?D"
    let ?s1 = "s\<lparr>io_dctx := ?D1, io_dst := dst\<rparr>"
    have "returnsR (\<lambda>s'. \<exists>D'. s' = ?s1\<lparr>io_dctx := D'\<rparr> \<and> history_step ?D1 (dst_pos s) (nat r) False D')
        (update_history ?s1 (nat r) False)"
      using update_history_safe [of ?s1 "nat r" False] assms(3,4) room dst by simp
    then show "returnsR (flow_ok A n) (bindR (update_history ?s1 (nat r) False) (\<lambda>s.
        Inr (Again (set_stage dstage_getBlockHeader (s\<lparr>dst_pos := dst_pos s + nat r\<rparr>)))))"
    proof (rule returnsR_bindR)
      fix x assume "\<exists>D'. x = ?s1\<lparr>io_dctx := D'\<rparr> \<and> history_step ?D1 (dst_pos s) (nat r) False D'"
      then obtain D' where x: "x = ?s1\<lparr>io_dctx := D'\<rparr>" "same_but_history ?D1 D'" "body_ok D' (dst_pos s + nat r)"
        by (auto simp: history_step_def)
      have "frame_ok A n (set_stage dstage_getBlockHeader (x\<lparr>dst_pos := dst_pos x + nat r\<rparr>))"
        using x(1,3) assms(1-3) dst room same_but_historyD [OF x(2)]
        by (intro set_stage_frame_ok) (auto simp: io_ok_def stage_ok_def)
      then show "returnsR (flow_ok A n) (Inr (Again (set_stage dstage_getBlockHeader (x\<lparr>dst_pos := dst_pos x + nat r\<rparr>))))"
        by simp
    qed
  qed
  show ?thesis
    unfolding decode_direct_def Let_def
  proof (rule returnsR_bindR [OF block_dict_safe [OF hist]], force, clarify, rule returnsR_bindR)
    fix k and e :: "bytes option" assume "e = None \<longrightarrow> k \<le> dst_pos s"
    then show "returnsR (\<lambda>(r, b'). length b' = length (io_dst s) \<and> r \<le> int (maxBlockSize ?D))
        (decode_at A block (k, e) (io_dst s) (dst_pos s) (maxBlockSize ?D))"
      by (intro decode_at_safe room) simp
  qed (use fin in \<open>simp add: split_beta\<close>)
qed

lemma flush_out_safe:
  assumes "io_ok A n s" "length (header (io_dctx s)) = 19" "buffers_ok (io_dctx s)"
    "body_ok (io_dctx s) (dst_pos s)" "flush_ok (io_dctx s)" "dStage (io_dctx s) = dstage_flushOut"
  shows "returnsR (flow_ok A n) (flush_out s (fr_null A))"
proof -
  let ?D = "io_dctx s"
  define k where k: "k = min (tmpOutSize ?D - tmpOutStart ?D) (dst_left s)"
  have flush: "tmpOut ?D + tmpOutSize ?D \<le> length (tmpOutBuffer ?D)" "tmpOutStart ?D \<le> tmpOutSize ?D"
    using assms(5) by (simp_all add: flush_ok_def)
  have room: "dst_pos s + k \<le> length (io_dst s)" "tmpOutStart ?D + k \<le> tmpOutSize ?D"
    using flush assms(1) by (auto simp: k dst_left_def io_ok_def)
  let ?Q = "\<lambda>t. io_ok A n t \<and> length (header (io_dctx t)) = 19 \<and> buffers_ok (io_dctx t) \<and>
    body_ok (io_dctx t) (dst_pos t) \<and> flush_ok (io_dctx t) \<and> dStage (io_dctx t) = dstage_flushOut"
  have fin: "flow_ok A n (if tmpOutStart (io_dctx t) = tmpOutSize (io_dctx t) then Again (set_stage dstage_getBlockHeader t)
      else Pause BHSize t)" if "?Q t" for t
  proof (cases "tmpOutStart (io_dctx t) = tmpOutSize (io_dctx t)")
    case True
    have "frame_ok A n (set_stage dstage_getBlockHeader t)"
      using that by (intro set_stage_frame_ok) (simp_all add: stage_ok_def)
    then show ?thesis using True by simp
  next
    case False
    then show ?thesis using that by (simp add: frame_ok_def dctx_ok_def stage_ok_def)
  qed
  have "returnsR ?Q (if fr_null A then Inr s
            else
              let D = io_dctx s; sizeToCopy = min (tmpOutSize D - tmpOutStart D) (dst_left s)
              in bindR (LZ4_memcpy (Some (tmpOutBuffer D)) (dst_pos s) (tmpOut D + tmpOutStart D) sizeToCopy (io_dst s))
                   (\<lambda>dst.
                 bindR (update_history (s\<lparr>io_dst := dst\<rparr>) sizeToCopy True) (\<lambda>s.
                   Inr (set_dctx (\<lambda>D. D\<lparr>tmpOutStart := tmpOutStart D + sizeToCopy\<rparr>)
                     (s\<lparr>dst_pos := dst_pos s + sizeToCopy\<rparr>)))))"
  proof (rule returnsR_if)
    show "returnsR ?Q (Inr s)" using assms by simp
    have copy: "returnsR (\<lambda>b. length b = length (io_dst s))
        (LZ4_memcpy (Some (tmpOutBuffer ?D)) (dst_pos s) (tmpOut ?D + tmpOutStart ?D) k (io_dst s))"
      using flush room by (intro LZ4_memcpy_safe) auto
    show "returnsR ?Q (let D = io_dctx s; sizeToCopy = min (tmpOutSize D - tmpOutStart D) (dst_left s)
              in bindR (LZ4_memcpy (Some (tmpOutBuffer D)) (dst_pos s) (tmpOut D + tmpOutStart D) sizeToCopy (io_dst s))
                   (\<lambda>dst.
                 bindR (update_history (s\<lparr>io_dst := dst\<rparr>) sizeToCopy True) (\<lambda>s.
                   Inr (set_dctx (\<lambda>D. D\<lparr>tmpOutStart := tmpOutStart D + sizeToCopy\<rparr>)
                     (s\<lparr>dst_pos := dst_pos s + sizeToCopy\<rparr>)))))"
      unfolding Let_def k [symmetric]
    proof (rule returnsR_bindR [OF copy])
      fix dst :: bytes assume dst: "length dst = length (io_dst s)"
      let ?s1 = "s\<lparr>io_dst := dst\<rparr>"
      have "returnsR (\<lambda>s'. \<exists>D'. s' = ?s1\<lparr>io_dctx := D'\<rparr> \<and> history_step ?D (dst_pos s) k True D')
          (update_history ?s1 k True)"
        using update_history_safe [of ?s1 k True] assms(3-5) room dst by simp
      then show "returnsR ?Q (bindR (update_history ?s1 k True) (\<lambda>s.
          Inr (set_dctx (\<lambda>D. D\<lparr>tmpOutStart := tmpOutStart D + k\<rparr>) (s\<lparr>dst_pos := dst_pos s + k\<rparr>))))"
      proof (rule returnsR_bindR)
        fix x assume "\<exists>D'. x = ?s1\<lparr>io_dctx := D'\<rparr> \<and> history_step ?D (dst_pos s) k True D'"
        then obtain D' where x: "x = ?s1\<lparr>io_dctx := D'\<rparr>" "same_but_history ?D D'" "body_ok D' (dst_pos s + k)"
          "flush_ok (D'\<lparr>tmpOutStart := tmpOutStart ?D + k\<rparr>)"
          by (auto simp: history_step_def)
        have "body_ok (D'\<lparr>tmpOutStart := tmpOutStart D' + k\<rparr>) (dst_pos s + k)"
          using x(3) by simp
        then show "returnsR ?Q (Inr (set_dctx (\<lambda>D. D\<lparr>tmpOutStart := tmpOutStart D + k\<rparr>) (x\<lparr>dst_pos := dst_pos x + k\<rparr>)))"
          using x(1,4) assms(1-3,6) dst room same_but_historyD [OF x(2)] by (simp add: io_ok_def set_dctx_def)
      qed
    qed
  qed
  then show ?thesis
    unfolding flush_out_def by (rule returnsR_bindR) (use fin in simp)
qed

end
