(* ===== verification/Lz4FrameInv.thy ===== *)
theory Lz4FrameInv
  imports Lz4FrameSafe
begin

text \<open>
  The invariant of the frame decoder for the remaining stages, for a whole call, and for the contexts
  that calls lead to.
\<close>

section \<open>Blocks decoded to \<open>tmpOut\<close>\<close>

lemma place_tmpOut_safe:
  assumes "body_ok D p" "buffers_ok D"
  shows "returnsR (\<lambda>D'. body_ok D' p \<and> buffers_ok D' \<and> header D' = header D \<and> frameInfo D' = frameInfo D \<and>
      maxBlockSize D' = maxBlockSize D \<and> tmpOut D' + maxBlockSize D \<le> length (tmpOutBuffer D') \<and>
      (dict D' = InTmp 0 \<longrightarrow> dictSize D' = tmpOut D') \<and> (dict D' \<noteq> InTmp 0 \<longrightarrow> tmpOut D' \<le> dictSize D'))
    (place_tmpOut D dst)"
proof -
  note buf = body_buffers [OF assms]
  have hist: "history_ok D p" "ready D" using assms(1) by (simp_all add: body_ok_def)
  have upd: "body_ok (D\<lparr>tmpOutBuffer := t, dictSize := k, tmpOut := k\<rparr>) p"
    if "linked D" "dict D = InTmp 0" "k \<le> length t" for t k
    using that hist by (simp add: body_ok_def ready_def needed_def linked_def history_ok_def)
  consider "\<not> linked D" | "linked D" "dict D = InTmp 0" "dictSize D \<le> length (tmpOutBuffer D)" "KB128 < dictSize D"
    | "linked D" "dict D = InTmp 0" "dictSize D \<le> length (tmpOutBuffer D)" "dictSize D \<le> KB128"
    | "linked D" "dict D \<noteq> InTmp 0"
    using hist(1) by (fastforce simp: history_ok_def)
  then show ?thesis
  proof cases
    case 1
    then show ?thesis
      using assms hist(1) buf by (simp add: place_tmpOut_def history_ok_def)
  next
    case 2
    then have "2 * KB64 \<le> dictSize D" by simp
    from keep_end_safe [OF 2(2,3) this, of dst] obtain t where
      t: "copy_dict D dst KB64 0 KB64 = Inr t" "length t = length (tmpOutBuffer D)"
      by (auto simp: returnsR_def)
    have "KB64 \<le> length t" using t(2) 2 by simp
    then show ?thesis
      using 2 t buf upd [OF 2(1,2)] assms(2) by (simp add: place_tmpOut_def buffers_ok_tmp)
  next
    case 3
    have "D\<lparr>tmpOut := dictSize D\<rparr> = D\<lparr>tmpOutBuffer := tmpOutBuffer D, dictSize := dictSize D, tmpOut := dictSize D\<rparr>"
      by simp
    then have "body_ok (D\<lparr>tmpOut := dictSize D\<rparr>) p" using upd [OF 3(1-3)] by simp
    then show ?thesis using 3 buf assms(2) by (simp add: place_tmpOut_def)
  next
    case 4
    have "body_ok (D\<lparr>tmpOut := k\<rparr>) p" for k
      using 4(1) hist by (simp add: body_ok_def ready_def needed_def linked_def history_ok_def split: dict_ptr.splits)
    then show ?thesis using 4 buf assms(2) by (simp add: place_tmpOut_def)
  qed
qed

lemma decode_to_tmp_safe:
  assumes "io_ok A n s" "length (header (io_dctx s)) = 19" "buffers_ok (io_dctx s)" "body_ok (io_dctx s) (dst_pos s)"
  shows "returnsR (flow_ok A n) (decode_to_tmp A block s)"
  unfolding decode_to_tmp_def
proof (rule returnsR_bindR [OF place_tmpOut_safe [OF assms(4,3)]], elim conjE)
  fix D
  assume D: "body_ok D (dst_pos s)" "buffers_ok D" "header D = header (io_dctx s)" "frameInfo D = frameInfo (io_dctx s)"
    "maxBlockSize D = maxBlockSize (io_dctx s)" "tmpOut D + maxBlockSize (io_dctx s) \<le> length (tmpOutBuffer D)"
    "dict D = InTmp 0 \<longrightarrow> dictSize D = tmpOut D" "dict D \<noteq> InTmp 0 \<longrightarrow> tmpOut D \<le> dictSize D"
  have hist: "history_ok D (dst_pos s)" "dst_pos s \<le> length (io_dst s)"
    using assms(1) D(1) by (simp_all add: body_ok_def io_ok_def)
  have fin: "returnsR (flow_ok A n) (if r < 0 then Inr (Fail LZ4F_ERROR_decompressionFailed (s\<lparr>io_dctx := D\<lparr>tmpOutBuffer := tmp\<rparr>\<rparr>))
       else flush_out (s\<lparr>io_dctx := (note_decoded (view (tmpOut D) (nat r) tmp) D)
           \<lparr>tmpOutBuffer := tmp, tmpOutSize := nat r, tmpOutStart := 0, dStage := dstage_flushOut\<rparr>\<rparr>) (fr_null A))"
    if r: "length tmp = length (tmpOutBuffer D)" "r \<le> int (maxBlockSize D)" for r tmp
  proof (rule returnsR_if)
    show "returnsR (flow_ok A n) (Inr (Fail LZ4F_ERROR_decompressionFailed (s\<lparr>io_dctx := D\<lparr>tmpOutBuffer := tmp\<rparr>\<rparr>)))"
      using assms(1,2) D(2,3) r(1) by (simp add: io_ok_def buffers_ok_tmp)
    let ?N = "note_decoded (view (tmpOut D) (nat r) tmp) D"
    let ?D1 = "?N\<lparr>tmpOutBuffer := tmp, tmpOutSize := nat r, tmpOutStart := 0, dStage := dstage_flushOut\<rparr>"
    have "body_ok (?N\<lparr>tmpOutBuffer := tmp\<rparr>) (dst_pos s)"
      using D(1) r(1) by (simp add: body_ok_def ready_def needed_def linked_def history_ok_def note_decoded_def
          split: dict_ptr.splits)
    then have "body_ok ?D1 (dst_pos s)" by simp
    moreover have "buffers_ok ?D1" using D(2) r(1) by (simp add: buffers_ok_tmp)
    moreover have "flush_ok ?D1"
      using D(5-8) r by (auto simp: flush_ok_def flush_copy_size_def)
    ultimately show "returnsR (flow_ok A n) (flush_out (s\<lparr>io_dctx := ?D1\<rparr>) (fr_null A))"
      using assms(1,2) D(3) by (intro flush_out_safe) (simp_all add: io_ok_def)
  qed
  have dest: "InTmp (tmpOut D) = InDst (dst_pos s) \<and> tmpOut D = dst_pos s \<or>
      InTmp (tmpOut D) = InTmp (tmpOut D) \<and> tmpOut D = tmpOut D \<and> (dict D = InTmp 0 \<longrightarrow> dictSize D = tmpOut D)"
    using D(7) by simp
  show "returnsR (flow_ok A n)
      (bindR (block_dict D (io_dst s) (InTmp (tmpOut D)) (maxBlockSize D)) (\<lambda>d.
       bindR (decode_at A block d (tmpOutBuffer D) (tmpOut D) (maxBlockSize D)) (\<lambda>(n, tmp).
         if n < 0 then Inr (Fail LZ4F_ERROR_decompressionFailed (s\<lparr>io_dctx := D\<lparr>tmpOutBuffer := tmp\<rparr>\<rparr>))
         else flush_out (s\<lparr>io_dctx := (note_decoded (view (tmpOut D) (nat n) tmp) D)
             \<lparr>tmpOutBuffer := tmp, tmpOutSize := nat n, tmpOutStart := 0, dStage := dstage_flushOut\<rparr>\<rparr>) (fr_null A))))"
  proof (rule returnsR_bindR [OF block_dict_safe [OF hist dest]], clarify, rule returnsR_bindR)
    fix k and e :: "bytes option" assume "e = None \<longrightarrow> k \<le> tmpOut D"
    then show "returnsR (\<lambda>(r, b'). length b' = length (tmpOutBuffer D) \<and> r \<le> int (maxBlockSize D))
        (decode_at A block (k, e) (tmpOutBuffer D) (tmpOut D) (maxBlockSize D))"
      using D(5,6) by (intro decode_at_safe) simp_all
  qed (use fin in \<open>simp add: split_beta\<close>)
qed

lemma decode_cblock_safe:
  assumes "io_ok A n s" "length (header (io_dctx s)) = 19" "buffers_ok (io_dctx s)" "body_ok (io_dctx s) (dst_pos s)"
    "tmpInTarget (io_dctx s) \<le> length sel" "crc_size (io_dctx s) \<le> tmpInTarget (io_dctx s)"
  shows "returnsR (flow_ok A n) (decode_cblock A sel s)"
proof -
  let ?D = "io_dctx s"
  let ?n = "tmpInTarget ?D - crc_size ?D"
  let ?s = "s\<lparr>io_dctx := ?D\<lparr>tmpInTarget := ?n\<rparr>\<rparr>"
  have rd: "rd sel 0 ?n = Inr (view 0 ?n sel)" "blockChecksumFlag (frameInfo ?D) \<Longrightarrow> rd sel ?n 4 = Inr (view ?n 4 sel)"
    using assms(5,6) by (auto intro!: rd_inside simp: crc_size_def)
  have direct: "returnsR (flow_ok A n) (decode_direct A b ?s)" if "maxBlockSize ?D \<le> dst_left s" for b
    using assms that by (intro decode_direct_safe) (simp_all add: io_ok_def dst_left_def)
  have tmp: "returnsR (flow_ok A n) (decode_to_tmp A b ?s)" for b
    using assms by (intro decode_to_tmp_safe) (simp_all add: io_ok_def)
  show ?thesis
    using direct tmp rd assms(1-3)
    by (simp add: decode_cblock_def Let_def io_ok_def dst_left_def)
qed

lemma store_cblock_safe:
  assumes "frame_ok A n s" "dStage (io_dctx s) = dstage_storeCBlock"
  shows "returnsR (flow_ok A n) (store_cblock A s)"
proof -
  let ?D = "io_dctx s"
  define k where k: "k = min (tmpInTarget ?D - tmpInSize ?D) (src_left A s)"
  have io: "io_ok A n s" and D: "body_ok ?D (dst_pos s)" "crc_size ?D \<le> tmpInTarget ?D"
    "tmpInTarget ?D \<le> maxBlockSize ?D + crc_size ?D" "tmpInSize ?D < tmpInTarget ?D" "length (header ?D) = 19"
    "buffers_ok ?D"
    using assms by (simp_all add: frame_ok_def dctx_ok_def stage_ok_def)
  note buf = body_buffers [OF D(1,6)]
  have "tmpInSize ?D \<le> tmpInTarget ?D" "tmpInTarget ?D \<le> length (tmpIn ?D)"
    using D buf(1) crc_size_le [of ?D] by simp_all
  note fill = fill_buffer [OF io k this]
  let ?t = "put_at (tmpInSize ?D) (view (src_pos s) k (fr_src A)) (tmpIn ?D)"
  let ?s1 = "s\<lparr>io_dctx := ?D\<lparr>tmpIn := ?t, tmpInSize := tmpInSize ?D + k\<rparr>, src_pos := src_pos s + k\<rparr>"
  have step: "store_cblock A s = (if tmpInSize ?D + k < tmpInTarget ?D
      then Inr (Pause ((tmpInTarget ?D - (tmpInSize ?D + k)) + crc_size ?D + BHSize) ?s1)
      else decode_cblock A ?t ?s1)"
    using fill(1) by (simp add: store_cblock_def Let_def k [symmetric])
  have b: "buffers_ok (?D\<lparr>tmpIn := ?t\<rparr>)" using buffers_ok_tmp(1) [OF fill(2) D(6)] .
  have "frame_ok A n ?s1" if "tmpInSize ?D + k < tmpInTarget ?D"
    using io D fill b that assms(2) by (simp add: frame_ok_def io_ok_def dctx_ok_def stage_ok_def)
  moreover have "returnsR (flow_ok A n) (decode_cblock A ?t ?s1)"
    using io D fill b \<open>tmpInTarget ?D \<le> length (tmpIn ?D)\<close> by (intro decode_cblock_safe) (simp_all add: io_ok_def)
  moreover have "tmpInTarget ?D + crc_size ?D + 4 - (tmpInSize ?D + k) < 2 ^ 32"
    using D(3) buf(6) crc_size_le [of ?D] by simp
  ultimately show ?thesis by (simp add: step)
qed

lemma get_cblock_safe:
  assumes "frame_ok A n s" "dStage (io_dctx s) = dstage_getCBlock"
  shows "returnsR (flow_ok A n) (get_cblock A s)"
proof -
  let ?D = "io_dctx s"
  have io: "io_ok A n s" and D: "body_ok ?D (dst_pos s)" "crc_size ?D \<le> tmpInTarget ?D"
    "tmpInTarget ?D \<le> maxBlockSize ?D + crc_size ?D" "length (header ?D) = 19" "buffers_ok ?D"
    using assms by (simp_all add: frame_ok_def dctx_ok_def stage_ok_def)
  show ?thesis
  proof (cases "src_left A s < tmpInTarget ?D")
    case True
    then have "frame_ok A n (set_dctx (\<lambda>D. D\<lparr>tmpInSize := 0, dStage := dstage_storeCBlock\<rparr>) s)"
      using io D by (simp add: frame_ok_def io_ok_def set_dctx_def dctx_ok_def stage_ok_def)
    then show ?thesis using True by (simp add: get_cblock_def)
  next
    case False
    have "returnsR (flow_ok A n) (decode_cblock A (drop (src_pos s) (fr_src A)) (s\<lparr>src_pos := src_pos s + tmpInTarget ?D\<rparr>))"
      using io D False by (intro decode_cblock_safe) (auto simp: io_ok_def src_left_def)
    then show ?thesis using False by (simp add: get_cblock_def Let_def)
  qed
qed


section \<open>The end of a frame, and skippable frames\<close>

lemma reset_ok:
  assumes "io_ok A n s" "length (header (io_dctx s)) = 19" "buffers_ok (io_dctx s)"
  shows "frame_ok A n (set_dctx LZ4F_resetDecompressionContext s)"
    "dStage (io_dctx (set_dctx LZ4F_resetDecompressionContext s)) = dstage_getFrameHeader"
  using assms by (simp_all add: frame_ok_def io_ok_def set_dctx_def LZ4F_resetDecompressionContext_def dctx_ok_def
      stage_ok_def no_dict_def)

lemma check_suffix_safe:
  assumes "io_ok A n s" "length (header (io_dctx s)) = 19" "buffers_ok (io_dctx s)" "4 \<le> length sel"
  shows "returnsR (flow_ok A n) (check_suffix sel s)"
  using assms reset_ok [OF assms(1-3)] by (auto simp: check_suffix_def io_ok_def)

lemma store_suffix_safe:
  assumes "io_ok A n s" "length (header (io_dctx s)) = 19" "buffers_ok (io_dctx s)" "ready (io_dctx s)"
    "dStage (io_dctx s) = dstage_storeSuffix" "tmpInSize (io_dctx s) < 4"
  shows "returnsR (flow_ok A n) (store_suffix A s)"
  unfolding store_suffix_def
proof (rule store_four_safe [OF assms(1,6)])
  show four: "4 \<le> length (tmpIn (io_dctx s))" using ready_buffers(1) [OF assms(4,3)] by simp
  fix t :: bytes and i j assume t: "length t = length (tmpIn (io_dctx s))"
  then have b: "buffers_ok ((io_dctx s)\<lparr>tmpIn := t\<rparr>)" using assms(3) by (rule buffers_ok_tmp)
  then show "dctx_ok ((io_dctx s)\<lparr>tmpIn := t, tmpInSize := i\<rparr>) (dst_pos s)" if "i < 4"
    using assms that by (simp add: dctx_ok_def stage_ok_def)
  show "returnsR (flow_ok A n) (check_suffix t
      (s\<lparr>io_dctx := (io_dctx s)\<lparr>tmpIn := t, tmpInSize := i\<rparr>, src_pos := src_pos s + j\<rparr>))"
    if "src_pos s + j \<le> length (fr_src A)"
    using assms t b four that by (intro check_suffix_safe) (simp_all add: io_ok_def)
qed

lemma get_suffix_safe:
  assumes "frame_ok A n s" "dStage (io_dctx s) = dstage_getSuffix"
  shows "returnsR (flow_ok A n) (get_suffix A s)"
proof -
  have D: "io_ok A n s" "length (header (io_dctx s)) = 19" "buffers_ok (io_dctx s)" "ready (io_dctx s)"
    using assms by (simp_all add: frame_ok_def dctx_ok_def stage_ok_def)
  have "returnsR (flow_ok A n) (get_four A dstage_storeSuffix check_suffix s)"
  proof (cases "BHSize \<le> src_left A s")
    case True
    have "returnsR (flow_ok A n) (check_suffix (drop (src_pos s) (fr_src A)) (s\<lparr>src_pos := src_pos s + BHSize\<rparr>))"
      using D True by (intro check_suffix_safe) (auto simp: io_ok_def src_left_def)
    then show ?thesis using True by (simp add: get_four_def)
  next
    case False
    have "returnsR (flow_ok A n) (store_suffix A (set_dctx (\<lambda>D. D\<lparr>tmpInSize := 0, dStage := dstage_storeSuffix\<rparr>) s))"
      using D by (intro store_suffix_safe) (simp_all add: set_dctx_def io_ok_def)
    then show ?thesis using False by (simp add: get_four_def store_suffix_def)
  qed
  then show ?thesis
    using D reset_ok [OF D(1-3)] by (simp add: get_suffix_def io_ok_def)
qed

lemma decode_sframe_size_safe:
  assumes "io_ok A n s" "length (header (io_dctx s)) = 19" "buffers_ok (io_dctx s)" "no_dict (io_dctx s)" "4 \<le> length sel"
  shows "returnsR (flow_ok A n) (decode_sframe_size sel s)"
proof -
  have "rd sel 0 4 = Inr (view 0 4 sel)" using assms(5) by simp
  moreover have "unat w < 4294967296" for w :: u32
    using unsigned_less [of w] by simp
  ultimately show ?thesis
    using assms(1-4) by (simp add: decode_sframe_size_def Let_def frame_ok_def io_ok_def set_dctx_def dctx_ok_def stage_ok_def
        no_dict_def)
qed

lemma store_sframe_size_safe:
  assumes "frame_ok A n s" "dStage (io_dctx s) = dstage_storeSFrameSize"
  shows "returnsR (flow_ok A n) (store_sframe_size A s)"
proof -
  let ?D = "io_dctx s"
  define k where k: "k = min (tmpInTarget ?D - tmpInSize ?D) (src_left A s)"
  have io: "io_ok A n s" and D: "no_dict ?D" "4 \<le> tmpInSize ?D" "tmpInSize ?D < 8" "tmpInTarget ?D = 8"
    "length (header ?D) = 19" "buffers_ok ?D"
    using assms by (simp_all add: frame_ok_def dctx_ok_def stage_ok_def)
  have "tmpInSize ?D \<le> tmpInTarget ?D" "tmpInTarget ?D \<le> length (header ?D)" using D by simp_all
  note fill = fill_buffer [OF io k this]
  let ?h = "put_at (tmpInSize ?D) (view (src_pos s) k (fr_src A)) (header ?D)"
  let ?s1 = "s\<lparr>io_dctx := ?D\<lparr>header := ?h, tmpInSize := tmpInSize ?D + k\<rparr>, src_pos := src_pos s + k\<rparr>"
  have step: "store_sframe_size A s = (if tmpInSize ?D + k < tmpInTarget ?D
      then Inr (Pause (tmpInTarget ?D - (tmpInSize ?D + k)) ?s1) else decode_sframe_size (drop 4 ?h) ?s1)"
    using fill(1) by (simp add: store_sframe_size_def Let_def k [symmetric])
  have "frame_ok A n ?s1" if "tmpInSize ?D + k < tmpInTarget ?D"
    using io D fill that assms(2) by (simp add: frame_ok_def io_ok_def dctx_ok_def stage_ok_def no_dict_def)
  moreover have "returnsR (flow_ok A n) (decode_sframe_size (drop 4 ?h) ?s1)"
    using io D fill by (intro decode_sframe_size_safe) (simp_all add: io_ok_def no_dict_def)
  moreover have "8 - (tmpInSize ?D + k) < 4294967296" by arith
  ultimately show ?thesis using D(4) by (simp add: step)
qed

lemma get_sframe_size_safe:
  assumes "frame_ok A n s" "dStage (io_dctx s) = dstage_getSFrameSize"
  shows "returnsR (flow_ok A n) (get_sframe_size A s)"
proof (cases "4 \<le> src_left A s")
  case True
  have "returnsR (flow_ok A n) (decode_sframe_size (drop (src_pos s) (fr_src A)) (s\<lparr>src_pos := src_pos s + 4\<rparr>))"
    using assms True by (intro decode_sframe_size_safe)
      (auto simp: frame_ok_def dctx_ok_def stage_ok_def io_ok_def src_left_def)
  then show ?thesis using True by (simp add: get_sframe_size_def)
next
  case False
  have "returnsR (flow_ok A n) (store_sframe_size A
      (set_dctx (\<lambda>D. D\<lparr>tmpInSize := 4, tmpInTarget := 8, dStage := dstage_storeSFrameSize\<rparr>) s))"
    using assms by (intro store_sframe_size_safe)
      (simp_all add: frame_ok_def io_ok_def set_dctx_def dctx_ok_def stage_ok_def no_dict_def)
  then show ?thesis using False by (simp add: get_sframe_size_def)
qed


lemma skip_skippable_safe:
  assumes "frame_ok A n s" "dStage (io_dctx s) = dstage_skipSkippable"
  shows "flow_ok A n (skip_skippable A s)"
proof -
  let ?D = "io_dctx s"
  define k where k: "k = min (tmpInTarget ?D) (src_left A s)"
  let ?s = "set_dctx (\<lambda>D. D\<lparr>tmpInTarget := tmpInTarget ?D - k\<rparr>) (s\<lparr>src_pos := src_pos s + k\<rparr>)"
  have D: "io_ok A n s" "length (header ?D) = 19" "buffers_ok ?D" "no_dict ?D" "tmpInTarget ?D < 2 ^ 32"
    using assms by (simp_all add: frame_ok_def dctx_ok_def stage_ok_def)
  have "src_pos s + k \<le> length (fr_src A)" using D(1) by (auto simp: k io_ok_def src_left_def)
  then have io: "io_ok A n ?s" using D(1) by (simp add: io_ok_def set_dctx_def)
  have "frame_ok A n ?s"
    using io D assms(2) by (simp add: frame_ok_def set_dctx_def dctx_ok_def stage_ok_def no_dict_def)
  moreover have "frame_ok A n (set_dctx LZ4F_resetDecompressionContext ?s)"
    "dStage (LZ4F_resetDecompressionContext E) = dstage_getFrameHeader" for E
    using io D by (auto intro!: reset_ok simp: LZ4F_resetDecompressionContext_def)
  ultimately show ?thesis
    using D(5) by (auto simp: skip_skippable_def Let_def k [symmetric])
qed

section \<open>The machine\<close>

lemma frame_step_safe:
  assumes "args_alloc A" "frame_ok A n s"
  shows "returnsR (flow_ok A n) (frame_step A s)"
proof -
  have D: "io_ok A n s" "length (header (io_dctx s)) = 19" "buffers_ok (io_dctx s)" "stage_ok (io_dctx s) (dst_pos s)"
    using assms(2) by (simp_all add: frame_ok_def dctx_ok_def)
  show ?thesis
  proof (cases "dStage (io_dctx s)")
    case dstage_getFrameHeader
    then show ?thesis using get_frame_header_safe [OF assms(2)] by (simp add: frame_step_def)
  next
    case dstage_storeFrameHeader
    then show ?thesis using store_frame_header_safe [OF assms(2)] by (simp add: frame_step_def)
  next
    case dstage_init
    then show ?thesis using init_frame_safe [OF assms(2) _ assms(1)] by (simp add: frame_step_def)
  next
    case dstage_getBlockHeader
    then show ?thesis using block_header_safe(2) [OF D(1-3)] D(4) by (simp add: frame_step_def stage_ok_def)
  next
    case dstage_storeBlockHeader
    then show ?thesis using block_header_safe(1) [OF D(1-3)] D(4) by (simp add: frame_step_def stage_ok_def)
  next
    case dstage_copyDirect
    then show ?thesis using copy_direct_safe [OF assms(2)] by (simp add: frame_step_def)
  next
    case dstage_getBlockChecksum
    then show ?thesis using get_block_checksum_safe [OF assms(2)] by (simp add: frame_step_def)
  next
    case dstage_getCBlock
    then show ?thesis using get_cblock_safe [OF assms(2)] by (simp add: frame_step_def)
  next
    case dstage_storeCBlock
    then show ?thesis using store_cblock_safe [OF assms(2)] by (simp add: frame_step_def)
  next
    case dstage_flushOut
    then show ?thesis using flush_out_safe [OF D(1-3)] D(4) by (simp add: frame_step_def stage_ok_def)
  next
    case dstage_getSuffix
    then show ?thesis using get_suffix_safe [OF assms(2)] by (simp add: frame_step_def)
  next
    case dstage_storeSuffix
    then show ?thesis using store_suffix_safe [OF D(1-3)] D(4) by (simp add: frame_step_def stage_ok_def)
  next
    case dstage_getSFrameSize
    then show ?thesis using get_sframe_size_safe [OF assms(2)] by (simp add: frame_step_def)
  next
    case dstage_storeSFrameSize
    then show ?thesis using store_sframe_size_safe [OF assms(2)] by (simp add: frame_step_def)
  next
    case dstage_skipSkippable
    then show ?thesis using skip_skippable_safe [OF assms(2)] by (simp add: frame_step_def)
  qed
qed

lemma frame_loop_safe:
  assumes "args_alloc A" "frame_ok A n s"
  shows "returnsR (\<lambda>(s', r). length (io_dst s') = n \<and> length (header (io_dctx s')) = 19 \<and>
      buffers_ok (io_dctx s') \<and> (\<forall>h. r = Inr h \<longrightarrow> frame_ok A n s' \<and> h < 2 ^ 32 \<and>
      (h = 0 \<longrightarrow> dStage (io_dctx s') = dstage_getFrameHeader))) (frame_loop A s)"
  using assms
proof (induction A s rule: frame_loop.induct)
  case (1 A s)
  from frame_step_safe [OF 1(2,3)] obtain r where r: "frame_step A s = Inr r" "flow_ok A n r"
    by (auto simp: returnsR_def)
  show ?case
  proof (cases r)
    case (Again s')
    then show ?thesis using r 1(1) [OF r(1) Again 1(2)] by (simp add: frame_loop.simps [of A s])
  qed (use r in \<open>simp_all add: frame_loop.simps [of A s] frame_ok_def io_ok_def dctx_ok_def\<close>)
qed

section \<open>Calls\<close>

lemma body_ok_start:
  assumes "body_ok D p" "\<not> linked D \<or> dict D = InTmp 0 \<or> dict D = DictNull"
  shows "body_ok D 0"
  using assms by (auto simp: body_ok_def history_ok_def)

lemma history_start:
  assumes "ready D" "linked D" "length t = length (tmpOutBuffer D)" "n \<le> length t"
  shows "body_ok (D\<lparr>tmpOutBuffer := t, dict := InTmp 0, dictSize := n\<rparr>) 0"
    "body_ok (D\<lparr>tmpOutBuffer := t, dict := InTmp 0, dictSize := n, tmpOut := m\<rparr>) 0"
  using assms by (simp_all add: body_ok_def ready_def needed_def linked_def history_ok_def)

lemma copy_history_safe:
  assumes "dict D = InDst o1" "o1 + dictSize D \<le> length dst" "n \<le> k" "k \<le> dictSize D" "d + n \<le> length (tmpOutBuffer D)"
  shows "returnsR (\<lambda>t. length t = length (tmpOutBuffer D)) (copy_dict D dst k d n)"
  using assms by (auto simp: copy_dict_def Let_def intro!: LZ4_memcpy_safe)

lemma preserve_history_safe:
  assumes "dctx_ok D p" "p \<le> length dst"
  shows "returnsR (\<lambda>D'. dctx_ok D' 0 \<and> dStage D' = dStage D) (preserve_history D dst)"
proof (cases "linked D \<and> dict D \<noteq> InTmp 0 \<and> dict D \<noteq> DictNull \<and> needs_history (dStage D)")
  case False
  have "stage_ok D 0"
    using assms(1) False
    by (cases "dStage D") (auto simp: dctx_ok_def stage_ok_def needs_history_def intro: body_ok_start)
  then have "dctx_ok D 0" using assms(1) by (simp add: dctx_ok_def)
  then show ?thesis using False by (auto simp: preserve_history_def)
next
  case True
  have D: "body_ok D p" "buffers_ok D" "length (header D) = 19"
    using assms(1) True by (auto simp: dctx_ok_def stage_ok_def needs_history_def no_dict_def)
  note buf = body_buffers [OF D(1,2)]
  from D(1) True obtain o1 where o1: "ready D" "linked D" "dict D = InDst o1" "o1 + dictSize D = p"
    by (auto simp: body_ok_def history_ok_def split: dict_ptr.splits)
  show ?thesis
  proof (cases "dStage D = dstage_flushOut")
    case flush: True
    then have f: "flush_ok D" using assms(1) by (simp add: dctx_ok_def stage_ok_def)
    let ?k = "flush_copy_size D"
    have "returnsR (\<lambda>t. length t = length (tmpOutBuffer D))
        (copy_dict D dst (tmpOutStart D + ?k) (tmpOut D - ?k) ?k)"
    proof (cases "?k = 0")
      case False
      then show ?thesis
        using f o1 assms(2) flush_copy_size_le(2) [of D]
        by (intro copy_history_safe) (auto simp: flush_ok_def)
    qed (simp add: copy_dict_def)
    moreover have "dctx_ok (D\<lparr>tmpOutBuffer := t, dict := InTmp 0, dictSize := tmpOut D + tmpOutStart D\<rparr>) 0"
      if "length t = length (tmpOutBuffer D)" for t
      using that f o1 D flush history_start(1) [OF o1(1,2) that, of "tmpOut D + tmpOutStart D"]
      by (simp add: dctx_ok_def stage_ok_def buffers_ok_tmp flush_ok_def flush_copy_size_def)
    ultimately show ?thesis
      using True flush unfolding preserve_history_def by (auto simp: Let_def intro: returnsR_bindR)
  next
    case False
    define n where n: "n = min (dictSize D) KB64"
    have "returnsR (\<lambda>t. length t = length (tmpOutBuffer D)) (copy_dict D dst n 0 n)"
      using o1 assms(2) buf by (intro copy_history_safe) (auto simp: n)
    moreover have "dctx_ok (D\<lparr>tmpOutBuffer := t, dict := InTmp 0, dictSize := n, tmpOut := n\<rparr>) 0"
      if "length t = length (tmpOutBuffer D)" for t
    proof -
      let ?E = "D\<lparr>tmpOutBuffer := t, dict := InTmp 0, dictSize := n, tmpOut := n\<rparr>"
      have "n \<le> length t" using that buf o1 by (auto simp: n)
      then have body: "body_ok ?E 0" by (rule history_start(2) [OF o1(1,2) that])
      then have "stage_ok ?E 0"
        using assms(1) True False o1
        by (cases "dStage D") (auto simp: dctx_ok_def stage_ok_def needs_history_def no_dict_def crc_size_def)
      then show ?thesis using D that by (simp add: dctx_ok_def buffers_ok_tmp)
    qed
    moreover have "preserve_history D dst = bindR (copy_dict D dst n 0 n) (\<lambda>tmp.
        Inr (D\<lparr>tmpOutBuffer := tmp, dict := InTmp 0, dictSize := n, tmpOut := n\<rparr>))"
      using True False by (simp add: preserve_history_def Let_def n)
    ultimately show ?thesis by (auto intro: returnsR_bindR)
  qed
qed

text \<open>A reset brings every context with the right buffers back to where a frame starts.\<close>

lemma reset_dctx_ok: "length (header D) = 19 \<Longrightarrow> buffers_ok D \<Longrightarrow> dctx_ok (LZ4F_resetDecompressionContext D) p"
  by (simp add: LZ4F_resetDecompressionContext_def dctx_ok_def stage_ok_def no_dict_def)

lemma LZ4F_decompress_safe:
  assumes "args_alloc A" "dctx_ok D 0" "fr_null A \<Longrightarrow> dst = []"
  shows "returnsR (\<lambda>r. length (res_dst r) = length dst \<and> res_src_size r \<le> length (fr_src A) \<and>
      res_dst_size r \<le> length dst \<and>
      (\<forall>e. res_code r = Inl e \<longrightarrow> dctx_ok (LZ4F_resetDecompressionContext (res_dctx r)) 0) \<and>
      (\<forall>h. res_code r = Inr h \<longrightarrow> dctx_ok (res_dctx r) 0 \<and> h < 2 ^ 32 \<and>
        (h = 0 \<longrightarrow> dStage (res_dctx r) = dstage_getFrameHeader))) (LZ4F_decompress A D dst)"
    (is "returnsR ?P _")
proof -
  let ?s = "\<lparr>io_dctx = D, src_pos = 0, io_dst = dst, dst_pos = 0\<rparr>"
  have "frame_ok A (length dst) ?s" using assms(2,3) by (auto simp: frame_ok_def io_ok_def)
  note loop = frame_loop_safe [OF assms(1) this]
  show ?thesis
    unfolding LZ4F_decompress_def
  proof (rule returnsR_bindR [OF loop], clarify)
    fix s and r :: "nat or_error"
    assume s: "length (io_dst s) = length dst" "length (header (io_dctx s)) = 19" "buffers_ok (io_dctx s)"
      "\<forall>h. r = Inr h \<longrightarrow> frame_ok A (length dst) s \<and> h < 2 ^ 32 \<and>
      (h = 0 \<longrightarrow> dStage (io_dctx s) = dstage_getFrameHeader)"
    show "returnsR ?P
      (case r of
         Inl e \<Rightarrow> Inr \<lparr>res_dctx = io_dctx s, res_dst = io_dst s, res_src_size = 0, res_dst_size = 0, res_code = Inl e\<rparr>
       | Inr hint \<Rightarrow>
           bindR (preserve_history (io_dctx s) (io_dst s)) (\<lambda>D.
             Inr \<lparr>res_dctx = D, res_dst = io_dst s, res_src_size = src_pos s, res_dst_size = dst_pos s,
               res_code = Inr hint\<rparr>))"
    proof (cases r)
      case (Inr h)
      then have h: "frame_ok A (length dst) s" "h < 2 ^ 32" "h = 0 \<longrightarrow> dStage (io_dctx s) = dstage_getFrameHeader"
        using s(4) by simp_all
      then have ok: "dctx_ok (io_dctx s) (dst_pos s)" "dst_pos s \<le> length (io_dst s)" "src_pos s \<le> length (fr_src A)"
        using s(1) by (simp_all add: frame_ok_def io_ok_def)
      show ?thesis
        unfolding Inr sum.case
        by (rule returnsR_bindR [OF preserve_history_safe [OF ok(1,2)]]) (use ok h s(1) in simp)
    qed (use s(1-3) reset_dctx_ok in simp)
  qed
qed

text \<open>
  The contexts of a client that keeps to \<open>lz4frame.h\<close>: a fresh one, one that is reset at any time, what
  a call that reports no error leaves of one, and what a call that reports an error leaves, once that is
  reset. Each call has its own input, destination and memory.
\<close>

inductive reachable :: "LZ4F_dctx \<Rightarrow> bool" where
  created: "reachable (LZ4F_createDecompressionContext v)"
| reset: "reachable D \<Longrightarrow> reachable (LZ4F_resetDecompressionContext D)"
| called: "reachable D \<Longrightarrow> args_alloc A \<Longrightarrow> (fr_null A \<Longrightarrow> dst = []) \<Longrightarrow>
    LZ4F_decompress A D dst = Inr r \<Longrightarrow> res_code r = Inr h \<Longrightarrow> reachable (res_dctx r)"
| failed: "reachable D \<Longrightarrow> args_alloc A \<Longrightarrow> (fr_null A \<Longrightarrow> dst = []) \<Longrightarrow>
    LZ4F_decompress A D dst = Inr r \<Longrightarrow> res_code r = Inl e \<Longrightarrow>
    reachable (LZ4F_resetDecompressionContext (res_dctx r))"

lemma reachable_dctx_ok: "reachable D \<Longrightarrow> dctx_ok D 0"
proof (induction rule: reachable.induct)
  case (created v)
  show ?case
    by (simp add: LZ4F_createDecompressionContext_def dctx_ok_def buffers_ok_def stage_ok_def no_dict_def)
next
  case (reset D)
  then show ?case by (simp add: reset_dctx_ok dctx_ok_def [of D])
next
  case (called D A dst r h)
  then show ?case using LZ4F_decompress_safe [OF called.hyps(2) called.IH called.hyps(3)] by (simp add: returnsR_def)
next
  case (failed D A dst r e)
  then show ?case using LZ4F_decompress_safe [OF failed.hyps(2) failed.IH failed.hyps(3)] by (simp add: returnsR_def)
qed

end
