(* ===== verification/Lz4FrameProgress.thy ===== *)
theory Lz4FrameProgress
  imports Lz4FrameInv
begin

text \<open>
  Every call that does not end the frame makes progress: it takes input, moves on to a stage of lower
  rank, or flushes some of what is decoded. So a loop that calls the decoder until its input is used
  up ends on every input.
\<close>

section \<open>Steps\<close>

definition flush_left :: "LZ4F_dctx \<Rightarrow> nat" where
  "flush_left D = tmpOutSize D - tmpOutStart D"

definition stays :: "frame_args \<Rightarrow> frame_io \<Rightarrow> frame_io \<Rightarrow> bool" where
  "stays A s s' \<longleftrightarrow> src_left A s' < src_left A s \<or>
     src_left A s' = src_left A s \<and> (frame_rank (io_dctx s') < frame_rank (io_dctx s) \<or>
       frame_rank (io_dctx s') = frame_rank (io_dctx s) \<and> flush_left (io_dctx s') \<le> flush_left (io_dctx s))"

definition moved :: "frame_args \<Rightarrow> frame_io \<Rightarrow> frame_io \<Rightarrow> bool" where
  "moved A s s' \<longleftrightarrow> src_left A s' < src_left A s \<or>
     src_left A s' = src_left A s \<and> (frame_rank (io_dctx s') < frame_rank (io_dctx s) \<or>
       frame_rank (io_dctx s') = frame_rank (io_dctx s) \<and> flush_left (io_dctx s') < flush_left (io_dctx s))"

text \<open>What holds where a stage waits for more input or more room.\<close>

definition waits :: "(frame_io \<Rightarrow> bool) \<Rightarrow> frame_flow \<Rightarrow> bool" where
  "waits P r \<longleftrightarrow> (\<forall>h s. r = Pause h s \<longrightarrow> h \<noteq> 0 \<longrightarrow> P s)"

lemma waits_simps [simp]:
  "waits P (Again s)" "waits P (Fail e s)" "waits P (Pause h s) \<longleftrightarrow> (h \<noteq> 0 \<longrightarrow> P s)"
  by (simp_all add: waits_def)

lemma waits_if [simp]: "waits P (if c then r else t) \<longleftrightarrow> (if c then waits P r else waits P t)"
  by simp

lemma okR_waits_Inr: "okR (waits P) (Inr r) \<longleftrightarrow> waits P r"
  by (simp add: okR_def)

lemma waits_mono: "okR (waits P) r \<Longrightarrow> (\<And>s. P s \<Longrightarrow> Q s) \<Longrightarrow> okR (waits Q) r"
  by (auto simp: okR_def waits_def)

lemma decode_own_header_waits: "okR (waits (\<lambda>s'. False)) (decode_own_header s)"
  unfolding decode_own_header_def by (auto intro!: okR_intros split: sum.splits)

lemma decode_block_header_waits: "okR (waits (\<lambda>s'. src_pos s' = src_pos s)) (decode_block_header A sel s)"
  unfolding decode_block_header_def Let_def by (auto intro!: okR_intros split: if_splits)

lemma store_frame_header_waits:
  "tmpInSize (io_dctx s) < tmpInTarget (io_dctx s) \<Longrightarrow> 0 < src_left A s \<Longrightarrow>
    okR (waits (\<lambda>s'. src_left A s' < src_left A s)) (store_frame_header A s)"
  unfolding store_frame_header_def Let_def
  by (auto intro!: okR_intros waits_mono [OF decode_own_header_waits] simp: src_left_def)

lemma get_frame_header_waits: "0 < src_left A s \<Longrightarrow> okR (waits (\<lambda>s'. src_left A s' < src_left A s)) (get_frame_header A s)"
  unfolding get_frame_header_def Let_def
  by (auto intro!: okR_intros waits_mono [OF store_frame_header_waits] split: sum.splits)

lemma store_four_waits:
  assumes "tmpInSize (io_dctx s) < 4" "0 < src_left A s" "\<And>sel s'. okR (waits (\<lambda>s''. src_pos s'' = src_pos s')) (k sel s')"
  shows "okR (waits (\<lambda>s'. src_left A s' < src_left A s)) (store_four A k s)"
  unfolding store_four_def Let_def
  using assms(1,2) by (auto intro!: okR_intros waits_mono [OF assms(3)] simp: src_left_def)

lemma get_four_waits:
  assumes "0 < src_left A s" "\<And>sel s'. okR (waits (\<lambda>s''. src_pos s'' = src_pos s')) (k sel s')"
  shows "okR (waits (\<lambda>s'. src_left A s' < src_left A s)) (get_four A st k s)"
  unfolding get_four_def
  using assms(1) by (auto intro!: waits_mono [OF assms(2)] waits_mono [OF store_four_waits] assms(2) simp: src_left_def)

lemma block_header_waits:
  "0 < src_left A s \<Longrightarrow> okR (waits (\<lambda>s'. src_left A s' < src_left A s)) (get_block_header A s)"
  "0 < src_left A s \<Longrightarrow> tmpInSize (io_dctx s) < 4 \<Longrightarrow>
    okR (waits (\<lambda>s'. src_left A s' < src_left A s)) (store_block_header A s)"
  unfolding get_block_header_def store_block_header_def
  by (auto intro: get_four_waits store_four_waits decode_block_header_waits)

lemma init_frame_waits: "0 < src_left A s \<Longrightarrow> okR (waits (\<lambda>s'. src_left A s' < src_left A s)) (init_frame A s)"
  unfolding init_frame_def Let_def
  by (auto intro!: okR_intros waits_mono [OF block_header_waits(1)] split: option.split simp: src_left_def)

lemma update_history_keeps:
  "okR (\<lambda>s'. src_pos s' = src_pos s \<and> dst_pos s' = dst_pos s \<and> dStage (io_dctx s') = dStage (io_dctx s) \<and>
      tmpInTarget (io_dctx s') = tmpInTarget (io_dctx s) \<and> tmpOutStart (io_dctx s') = tmpOutStart (io_dctx s) \<and>
      tmpOutSize (io_dctx s') = tmpOutSize (io_dctx s)) (update_history s n w)"
  unfolding update_history_def LZ4F_updateDict_def Let_def
  by (auto intro!: okR_intros)


definition progress :: "frame_args \<Rightarrow> frame_io \<Rightarrow> frame_io \<Rightarrow> bool" where
  "progress A s s' \<longleftrightarrow> stays A s s' \<and> (0 < dst_left s \<longrightarrow> moved A s s')"

lemma progress_src: "src_left A s' < src_left A s \<Longrightarrow> progress A s s'"
  by (simp add: progress_def stays_def moved_def)

lemma progress_rank: "src_left A s' \<le> src_left A s \<Longrightarrow> frame_rank (io_dctx s') < frame_rank (io_dctx s) \<Longrightarrow>
    progress A s s'"
  by (auto simp: progress_def stays_def moved_def)

lemma copy_direct_waits:
  assumes "io_ok A n s" "dStage (io_dctx s) = dstage_copyDirect" "0 < src_left A s"
  shows "okR (waits (progress A s)) (copy_direct A s)"
proof -
  let ?n = "if fr_null A then 0 else min (tmpInTarget (io_dctx s)) (min (src_left A s) (dst_left s))"
  have n: "?n \<le> src_left A s" by (auto intro: min.coboundedI1 min.coboundedI2)
  have null: "dst_left s = 0" if "fr_null A" using that assms(1) by (simp add: io_ok_def dst_left_def)
  let ?Q = "\<lambda>t. src_pos t = src_pos s \<and> dStage (io_dctx t) = dStage (io_dctx s) \<and>
      tmpInTarget (io_dctx t) = tmpInTarget (io_dctx s) \<and> flush_left (io_dctx t) = flush_left (io_dctx s)"
  have fin: "okR (waits (progress A s)) (let D = io_dctx t; t = t\<lparr>src_pos := src_pos t + ?n, dst_pos := dst_pos t + ?n\<rparr>
      in Inr (if ?n = tmpInTarget D then
           Again (if blockChecksumFlag (frameInfo D)
                  then t\<lparr>io_dctx := D\<lparr>tmpInSize := 0, dStage := dstage_getBlockChecksum\<rparr>\<rparr>
                  else set_stage dstage_getBlockHeader t)
         else Pause (tmpInTarget D - ?n + crc_size D + BHSize)
           (t\<lparr>io_dctx := D\<lparr>tmpInTarget := tmpInTarget D - ?n\<rparr>\<rparr>)))" if "?Q t" for t
  proof -
    let ?t = "t\<lparr>src_pos := src_pos t + ?n, dst_pos := dst_pos t + ?n,
      io_dctx := (io_dctx t)\<lparr>tmpInTarget := tmpInTarget (io_dctx t) - ?n\<rparr>\<rparr>"
    have same: "frame_rank (io_dctx ?t) = frame_rank (io_dctx s)" "flush_left (io_dctx ?t) = flush_left (io_dctx s)"
      "src_left A ?t = src_left A s - ?n"
      using that assms(2) by (simp_all add: frame_rank_def flush_left_def src_left_def)
    have "progress A s ?t" if "?n \<noteq> tmpInTarget (io_dctx s)"
    proof (cases "?n = 0")
      case True
      then have "dst_left s = 0" using that assms(3) null by (auto split: if_splits simp: min_def)
      then show ?thesis using same True by (simp add: progress_def stays_def)
    next
      case False
      then show ?thesis using same(3) assms(3) by (intro progress_src) linarith
    qed
    then show ?thesis using that by (auto simp: Let_def okR_def)
  qed
  show ?thesis
    unfolding copy_direct_def Let_def
  proof (rule okR_bindR_with [where Q = ?Q], goal_cases)
    case 1
    show ?case
    proof (rule okR_if)
      show "okR ?Q (Inr s)" by (simp add: okR_def)
    qed (rule okR_bindR, rule okR_mono [OF update_history_keeps], simp add: flush_left_def)
  next
    case (2 t)
    then show ?case by (rule fin [unfolded Let_def])
  qed
qed

lemma check_block_checksum_waits: "okR (waits P) (check_block_checksum crc s)"
  unfolding check_block_checksum_def by (auto intro!: okR_intros)

lemma get_block_checksum_waits:
  assumes "tmpInSize (io_dctx s) < 4" "0 < src_left A s"
  shows "okR (waits (\<lambda>s'. src_left A s' < src_left A s)) (get_block_checksum A s)"
proof -
  have "src_left A s' < src_left A s" if "src_pos s' = src_pos s + min (4 - tmpInSize (io_dctx s)) (src_left A s)" for s'
    using that assms by (simp add: src_left_def)
  then show ?thesis
    unfolding get_block_checksum_def Let_def
    by (intro okR_if okR_bindR check_block_checksum_waits) (simp add: okR_waits_Inr)
qed

lemma flush_out_waits:
  assumes "fr_null A \<Longrightarrow> dst_left s = 0" "tmpOutStart (io_dctx s) \<le> tmpOutSize (io_dctx s)"
  shows "okR (waits (\<lambda>s'. src_pos s' = src_pos s \<and> dStage (io_dctx s') = dStage (io_dctx s) \<and>
      flush_left (io_dctx s') \<le> flush_left (io_dctx s) \<and>
      (0 < dst_left s \<longrightarrow> flush_left (io_dctx s') < flush_left (io_dctx s)))) (flush_out s (fr_null A))"
  unfolding flush_out_def Let_def
  by (rule okR_bindR_with [where Q = "\<lambda>t. src_pos t = src_pos s \<and> dStage (io_dctx t) = dStage (io_dctx s) \<and>
      tmpOutSize (io_dctx t) = tmpOutSize (io_dctx s) \<and> tmpOutStart (io_dctx t) = tmpOutStart (io_dctx s) +
        (if fr_null A then 0 else min (tmpOutSize (io_dctx s) - tmpOutStart (io_dctx s)) (dst_left s))"])
    (use assms in \<open>auto intro!: okR_intros dest!: okRD [OF update_history_keeps] simp: flush_left_def min_def split: if_splits\<close>)


lemma decode_direct_waits: "okR (waits P) (decode_direct A block s)"
  unfolding decode_direct_def Let_def by (auto intro!: okR_intros)

lemma decode_to_tmp_waits:
  assumes "fr_null A \<Longrightarrow> dst_left s = 0"
  shows "okR (waits (\<lambda>s'. src_pos s' = src_pos s \<and> dStage (io_dctx s') = dstage_flushOut)) (decode_to_tmp A block s)"
  unfolding decode_to_tmp_def
proof (intro okR_bindR, clarify, rule okR_if)
  fix D d n tmp
  show "okR (waits (\<lambda>s'. src_pos s' = src_pos s \<and> dStage (io_dctx s') = dstage_flushOut))
      (flush_out (s\<lparr>io_dctx := (note_decoded (view (tmpOut D) (nat n) tmp) D)
        \<lparr>tmpOutBuffer := tmp, tmpOutSize := nat n, tmpOutStart := 0, dStage := dstage_flushOut\<rparr>\<rparr>) (fr_null A))"
    by (rule waits_mono [OF flush_out_waits]) (use assms in \<open>simp_all add: dst_left_def\<close>)
qed (simp add: okR_def)

lemma decode_cblock_waits:
  assumes "fr_null A \<Longrightarrow> dst_left s = 0"
  shows "okR (waits (\<lambda>s'. src_pos s' = src_pos s \<and> dStage (io_dctx s') = dstage_flushOut)) (decode_cblock A sel s)"
  unfolding decode_cblock_def Let_def
  by (intro okR_bindR okR_if decode_direct_waits waits_mono [OF decode_to_tmp_waits])
    (use assms in \<open>simp_all add: dst_left_def okR_def\<close>)

lemma cblock_waits:
  assumes "fr_null A \<Longrightarrow> dst_left s = 0" "0 < src_left A s"
  shows "dStage (io_dctx s) = dstage_getCBlock \<Longrightarrow> okR (waits (progress A s)) (get_cblock A s)"
    and "dStage (io_dctx s) = dstage_storeCBlock \<Longrightarrow> tmpInSize (io_dctx s) < tmpInTarget (io_dctx s) \<Longrightarrow>
      okR (waits (progress A s)) (store_cblock A s)"
proof -
  have flush: "progress A s s'" if "src_pos s \<le> src_pos s'" "dStage (io_dctx s') = dstage_flushOut"
    "dStage (io_dctx s) \<in> {dstage_getCBlock, dstage_storeCBlock}" for s'
    using that by (intro progress_rank) (auto simp: src_left_def frame_rank_def)
  show "okR (waits (progress A s)) (get_cblock A s)" if "dStage (io_dctx s) = dstage_getCBlock"
    unfolding get_cblock_def Let_def
    by (intro okR_if waits_mono [OF decode_cblock_waits])
      (use assms that flush in \<open>auto simp: okR_def dst_left_def\<close>)
  show "okR (waits (progress A s)) (store_cblock A s)"
    if "dStage (io_dctx s) = dstage_storeCBlock" "tmpInSize (io_dctx s) < tmpInTarget (io_dctx s)"
    unfolding store_cblock_def Let_def
    by (intro okR_if okR_bindR waits_mono [OF decode_cblock_waits])
      (use assms that flush in \<open>auto simp: okR_def dst_left_def src_left_def intro!: progress_src\<close>)
qed

lemma check_suffix_waits: "okR (waits P) (check_suffix sel s)"
  unfolding check_suffix_def by (auto intro!: okR_intros)

lemma suffix_waits:
  assumes "0 < src_left A s"
  shows "okR (waits (\<lambda>s'. src_left A s' < src_left A s)) (get_suffix A s)"
    and "tmpInSize (io_dctx s) < 4 \<Longrightarrow> okR (waits (\<lambda>s'. src_left A s' < src_left A s)) (store_suffix A s)"
  unfolding get_suffix_def store_suffix_def
  using assms by (auto intro: get_four_waits store_four_waits check_suffix_waits simp: okR_waits_Inr)

lemma sframe_waits:
  assumes "0 < src_left A s"
  shows "okR (waits (\<lambda>s'. src_left A s' < src_left A s)) (get_sframe_size A s)"
    and "tmpInSize (io_dctx s) < tmpInTarget (io_dctx s) \<Longrightarrow>
      okR (waits (\<lambda>s'. src_left A s' < src_left A s)) (store_sframe_size A s)"
proof -
  have no: "okR (waits P) (decode_sframe_size sel s)" for P sel s
    unfolding decode_sframe_size_def Let_def by (auto intro!: okR_intros)
  have store: "okR (waits (\<lambda>s'. src_left A s' < src_left A s)) (store_sframe_size A s)"
    if "0 < src_left A s" "tmpInSize (io_dctx s) < tmpInTarget (io_dctx s)" for s
    unfolding store_sframe_size_def Let_def
    by (intro okR_if okR_bindR no) (use that in \<open>auto simp: okR_waits_Inr src_left_def\<close>)
  then show "tmpInSize (io_dctx s) < tmpInTarget (io_dctx s) \<Longrightarrow>
      okR (waits (\<lambda>s'. src_left A s' < src_left A s)) (store_sframe_size A s)"
    using assms .
  show "okR (waits (\<lambda>s'. src_left A s' < src_left A s)) (get_sframe_size A s)"
    unfolding get_sframe_size_def
    by (intro okR_if no waits_mono [OF store]) (use assms in auto)
qed

lemma skip_skippable_waits:
  "0 < src_left A s \<Longrightarrow> waits (\<lambda>s'. src_left A s' < src_left A s) (skip_skippable A s)"
  by (auto simp: skip_skippable_def Let_def src_left_def min_def split: if_splits)

lemma frame_step_waits:
  assumes "frame_ok A n s" "0 < src_left A s"
  shows "okR (waits (progress A s)) (frame_step A s)"
proof -
  have io: "io_ok A n s" and st: "stage_ok (io_dctx s) (dst_pos s)"
    using assms(1) by (simp_all add: frame_ok_def dctx_ok_def)
  have null: "fr_null A \<Longrightarrow> dst_left s = 0" using io by (simp add: io_ok_def dst_left_def)
  have mono: "okR (waits (\<lambda>s'. src_left A s' < src_left A s)) r \<Longrightarrow> okR (waits (progress A s)) r" for r
    by (erule waits_mono) (rule progress_src)
  show ?thesis
  proof (cases "dStage (io_dctx s)")
    case dstage_getCBlock
    then show ?thesis using cblock_waits(1) [OF null assms(2)] by (simp add: frame_step_def)
  next
    case dstage_storeCBlock
    then show ?thesis using cblock_waits(2) [OF null assms(2)] st by (simp add: frame_step_def stage_ok_def)
  next
    case dstage_copyDirect
    then show ?thesis using copy_direct_waits [OF io] assms(2) by (simp add: frame_step_def)
  next
    case dstage_flushOut
    then have "okR (waits (progress A s)) (flush_out s (fr_null A))"
      using null st
      by (intro waits_mono [OF flush_out_waits])
        (auto simp: stage_ok_def flush_ok_def progress_def stays_def moved_def frame_rank_def src_left_def)
    then show ?thesis using dstage_flushOut by (simp add: frame_step_def)
  next
    case dstage_skipSkippable
    then show ?thesis
      using skip_skippable_waits [OF assms(2)] by (auto simp: frame_step_def okR_def waits_def intro: progress_src)
  qed (use st assms(2) null in \<open>auto simp: frame_step_def stage_ok_def intro!: mono
      get_frame_header_waits store_frame_header_waits init_frame_waits block_header_waits get_block_checksum_waits
      suffix_waits sframe_waits\<close>)
qed


text \<open>No stage goes back in the input.\<close>

abbreviation onward :: "frame_io \<Rightarrow> frame_flow \<Rightarrow> bool" where
  "onward s \<equiv> waits (\<lambda>s'. src_pos s \<le> src_pos s')"

lemma onward_mono: "okR (onward t) r \<Longrightarrow> src_pos s \<le> src_pos t \<Longrightarrow> okR (onward s) r"
  by (erule waits_mono) simp

lemma store_frame_header_onward: "okR (onward s) (store_frame_header A s)"
  unfolding store_frame_header_def Let_def
  by (intro okR_if okR_bindR waits_mono [OF decode_own_header_waits]) (simp_all add: okR_waits_Inr)

lemma get_frame_header_onward: "okR (onward s) (get_frame_header A s)"
  unfolding get_frame_header_def Let_def
  by (intro okR_if okR_bindR onward_mono [OF store_frame_header_onward])
    (auto simp: okR_waits_Inr split: sum.splits)

lemma store_four_onward:
  assumes "\<And>sel s'. okR (onward s') (k sel s')"
  shows "okR (onward s) (store_four A k s)"
  unfolding store_four_def Let_def
  by (intro okR_if okR_bindR onward_mono [OF assms]) (simp_all add: okR_waits_Inr)

lemma get_four_onward:
  assumes "\<And>sel s'. okR (onward s') (k sel s')"
  shows "okR (onward s) (get_four A st k s)"
  unfolding get_four_def
  by (intro okR_if onward_mono [OF assms] onward_mono [OF store_four_onward [OF assms]]) simp_all

lemma decode_block_header_onward: "okR (onward s) (decode_block_header A sel s)"
  by (rule waits_mono [OF decode_block_header_waits]) simp

lemma init_frame_onward: "okR (onward s) (init_frame A s)"
  unfolding init_frame_def Let_def get_block_header_def
  by (auto simp: okR_waits_Inr split: option.split intro!: onward_mono [OF get_four_onward [OF decode_block_header_onward]])

lemma copy_direct_onward: "okR (onward s) (copy_direct A s)"
  unfolding copy_direct_def Let_def
proof (rule okR_bindR_with [where Q = "\<lambda>t. src_pos t = src_pos s"], goal_cases)
  case 1
  show ?case
    by (rule okR_if, simp add: okR_def, rule okR_bindR, rule okR_mono [OF update_history_keeps], simp)
qed (simp add: okR_waits_Inr)

lemma flush_out_onward: "okR (onward s) (flush_out s null)"
  unfolding flush_out_def Let_def
proof (rule okR_bindR_with [where Q = "\<lambda>t. src_pos t = src_pos s"], goal_cases)
  case 1
  show ?case
    by (rule okR_if, simp add: okR_def, rule okR_bindR, rule okR_bindR_with [OF update_history_keeps],
        simp add: okR_def)
qed (simp add: okR_waits_Inr)

lemma decode_cblock_onward: "okR (onward s) (decode_cblock A sel s)"
  unfolding decode_cblock_def Let_def decode_to_tmp_def
  by (intro okR_if okR_bindR decode_direct_waits okR_case_prod onward_mono [OF flush_out_onward])
    (simp_all add: okR_waits_Inr)

lemma decode_sframe_size_onward: "okR (onward s) (decode_sframe_size sel s)"
  unfolding decode_sframe_size_def Let_def by (auto intro!: okR_intros)

lemma frame_step_onward: "okR (onward s) (frame_step A s)"
proof (cases "dStage (io_dctx s)")
  case dstage_getBlockChecksum
  then show ?thesis
    unfolding frame_step_def get_block_checksum_def Let_def dStage_t.case
    by (simp only: dStage_t.case) (intro okR_if okR_bindR check_block_checksum_waits; simp add: okR_waits_Inr)
next
  case dstage_getCBlock
  then show ?thesis
    by (auto simp: frame_step_def get_cblock_def Let_def okR_waits_Inr intro: onward_mono [OF decode_cblock_onward])
next
  case dstage_storeCBlock
  have "okR (onward s) (store_cblock A s)"
    unfolding store_cblock_def Let_def
    by (intro okR_if okR_bindR onward_mono [OF decode_cblock_onward]) (simp_all add: okR_waits_Inr)
  then show ?thesis using dstage_storeCBlock by (simp add: frame_step_def)
next
  case dstage_getSuffix
  have "okR (onward s) (get_suffix A s)"
    unfolding get_suffix_def
    by (intro okR_if get_four_onward check_suffix_waits) (simp_all add: okR_waits_Inr)
  then show ?thesis using dstage_getSuffix by (simp add: frame_step_def)
next
  case dstage_storeSFrameSize
  have "okR (onward s) (store_sframe_size A s)"
    unfolding store_sframe_size_def Let_def
    by (intro okR_if okR_bindR onward_mono [OF decode_sframe_size_onward]) (simp_all add: okR_waits_Inr)
  then show ?thesis using dstage_storeSFrameSize by (simp add: frame_step_def)
next
  case dstage_getSFrameSize
  have "okR (onward s) (get_sframe_size A s)"
    unfolding get_sframe_size_def store_sframe_size_def Let_def
    by (intro okR_if okR_bindR onward_mono [OF decode_sframe_size_onward]) (simp_all add: okR_waits_Inr)
  then show ?thesis using dstage_getSFrameSize by (simp add: frame_step_def)
next
  case dstage_skipSkippable
  then show ?thesis by (simp add: frame_step_def okR_waits_Inr skip_skippable_def Let_def)
qed (auto simp: frame_step_def get_block_header_def store_block_header_def store_suffix_def
    intro!: get_frame_header_onward store_frame_header_onward init_frame_onward get_four_onward store_four_onward
      decode_block_header_onward copy_direct_onward flush_out_onward check_suffix_waits)

section \<open>Calls\<close>

lemma moves_on_then:
  assumes "moves_on A s t" "src_left A s' \<le> src_left A t" "0 < src_left A t \<Longrightarrow> stays A t s'"
  shows "0 < src_left A s \<Longrightarrow> moved A s s'" "src_left A s' \<le> src_left A s"
  using assms by (auto simp: moves_on_def moved_def stays_def)

lemma frame_loop_progress:
  assumes "args_alloc A" "frame_ok A n s"
  shows "okR (\<lambda>(s', r). \<forall>h. r = Inr h \<longrightarrow> h \<noteq> 0 \<longrightarrow> src_left A s' \<le> src_left A s \<and>
      (0 < src_left A s \<longrightarrow> progress A s s')) (frame_loop A s)"
  using assms
proof (induction A s rule: frame_loop.induct)
  case (1 A s)
  from frame_step_safe [OF 1(2,3)] obtain r where r: "frame_step A s = Inr r" "flow_ok A n r"
    by (auto simp: returnsR_def)
  have step: "onward s r" "0 < src_left A s \<Longrightarrow> waits (progress A s) r" "again (moves_on A s) r"
    using okRD [OF frame_step_onward r(1)] okRD [OF frame_step_waits [OF 1(3)] r(1)]
      okRD [OF frame_step_progress r(1)] by simp_all
  show ?case
  proof (cases r)
    case (Again t)
    then have on: "moves_on A s t" using step(3) by simp
    have "progress A s s'" if "src_left A s' \<le> src_left A t" "0 < src_left A t \<longrightarrow> progress A t s'" "0 < src_left A s" for s'
      using moves_on_then [OF on that(1)] that(2,3) by (auto simp: progress_def moved_def stays_def)
    moreover have "src_left A s' \<le> src_left A s" if "src_left A s' \<le> src_left A t" for s'
      using that on by (auto simp: moves_on_def)
    ultimately show ?thesis
      using r Again 1(1) [OF r(1) Again 1(2)]
      by (auto simp: frame_loop.simps [of A s] okR_def split: sum.splits)
  next
    case (Pause h t)
    then have "src_pos s \<le> src_pos t" if "h \<noteq> 0" using step(1) that by simp
    then show ?thesis
      using r step(2) Pause by (auto simp: frame_loop.simps [of A s] okR_def src_left_def)
  qed (use r in \<open>simp_all add: frame_loop.simps [of A s] okR_def\<close>)
qed

end
