(* ===== verification/Lz4Stream.thy ===== *)
theory Lz4Stream
  imports Lz4CompressCorrect
begin

text \<open>
  Streams of the compressor (\<open>external/lz4/lz4.c\<close>): a stream remembers what it has compressed, so
  that later blocks can refer to it. The blocks of a stream follow each other in memory; \<open>hist\<close> is what
  lies in front of the source.
\<close>

definition LZ4_prepareTable :: "LZ4_stream \<Rightarrow> nat \<Rightarrow> tableType_t \<Rightarrow> LZ4_stream" where
  "LZ4_prepareTable cctx inputSize tt =
     (let cctx =
            (if st_tableType cctx \<noteq> clearedTable \<and>
                (st_tableType cctx \<noteq> tt \<or> tt = byU16 \<and> 0xFFFF \<le> st_currentOffset cctx + inputSize \<or>
                 tt = byU32 \<and> 2 ^ 30 < st_currentOffset cctx \<or> tt = byPtr \<or> 4 * 2 ^ 10 \<le> inputSize)
             then cctx\<lparr>st_hashTable := \<lambda>_. 0, st_currentOffset := 0, st_tableType := clearedTable\<rparr>
             else cctx);
          cctx = (if st_currentOffset cctx \<noteq> 0 \<and> tt = byU32
                  then cctx\<lparr>st_currentOffset := st_currentOffset cctx + 64 * 2 ^ 10\<rparr> else cctx)
      in cctx\<lparr>st_dictSize := 0\<rparr>)"

definition LZ4_resetStream_fast :: "LZ4_stream \<Rightarrow> LZ4_stream" where
  "LZ4_resetStream_fast ctx = LZ4_prepareTable ctx 0 byU32"

definition LZ4_compress_fast_extState_fastReset ::
    "LZ4_stream \<Rightarrow> bytes \<Rightarrow> int \<Rightarrow> bytes \<Rightarrow> (nat \<times> LZ4_stream \<times> bytes) result" where
  "LZ4_compress_fast_extState_fastReset ctx src acceleration m =
     (let acc = clamp_acceleration acceleration;
          tt = (if length src < LZ4_64Klimit then byU16 else byU32);
          ctx = LZ4_prepareTable ctx (length src) tt;
          di = (if tt = byU16 \<and> st_currentOffset ctx \<noteq> 0 then dictSmall else noDictIssue);
          dir = (if LZ4_COMPRESSBOUND (length src) \<le> length m then notLimited else limitedOutput)
      in LZ4_compress_generic ctx (compress_args ctx [] src dir tt noDict di acc) m)"

text \<open>Indices are kept below \<open>2 ^ 31\<close>.\<close>

definition LZ4_renormDictT :: "LZ4_stream \<Rightarrow> nat \<Rightarrow> LZ4_stream" where
  "LZ4_renormDictT st nextSize =
     (if 0x80000000 < st_currentOffset st + nextSize then
        let delta = st_currentOffset st - 64 * 2 ^ 10
        in st\<lparr>st_hashTable := \<lambda>h. if st_hashTable st h < delta then 0 else st_hashTable st h - delta,
              st_currentOffset := 64 * 2 ^ 10,
              st_dictSize := if 64 * 2 ^ 10 < st_dictSize st then 64 * 2 ^ 10 else st_dictSize st\<rparr>
      else st)"

text \<open>
  A dictionary that is not empty ends where the source starts, so an external dictionary is empty:
  then no index is below \<open>startIndex\<close>, or those that are are skipped for \<open>dictSmall\<close>.
\<close>

definition LZ4_compress_fast_continue ::
    "LZ4_stream \<Rightarrow> bytes \<Rightarrow> bytes \<Rightarrow> int \<Rightarrow> bytes \<Rightarrow> (nat \<times> LZ4_stream \<times> bytes) result" where
  "LZ4_compress_fast_continue st hist src acceleration m =
     (let st = LZ4_renormDictT st (length src);
          acc = clamp_acceleration acceleration;
          di = (if st_dictSize st < 64 * 2 ^ 10 \<and> st_dictSize st < st_currentOffset st
                then dictSmall else noDictIssue)
      in if st_dictSize st \<noteq> 0 then
           LZ4_compress_generic st (compress_args st hist src limitedOutput byU32 withPrefix64k di acc) m
         else
           bindR (LZ4_compress_generic st (compress_args st hist src limitedOutput byU32 usingExtDict di acc) m)
             (\<lambda>(k, st, m). Inr (k, st\<lparr>st_dictSize := length src\<rparr>, m)))"

section \<open>Contracts\<close>

lemma initStream_simps [simp]:
  "st_currentOffset LZ4_initStream = 0" "st_dictSize LZ4_initStream = 0"
  "table_ok (Suc 0) (st_hashTable LZ4_initStream)"
  "LZ4_prepareTable LZ4_initStream n tt = LZ4_initStream"
  by (simp_all add: LZ4_prepareTable_def LZ4_initStream_def table_ok_def)

text \<open>A single block on a stream that has not been used.\<close>

lemma fastReset_ok:
  assumes "length src \<le> LZ4_MAX_INPUT_SIZE"
  shows "returnsR (\<lambda>(k, st, m'). length m' = length m \<and>
      (k = 0 \<or> 0 < k \<and> k \<le> length m \<and> block_of src (take k m')))
    (LZ4_compress_fast_extState_fastReset LZ4_initStream src acceleration m)"
proof -
  define tt where "tt = (if length src < LZ4_64Klimit then byU16 else byU32)"
  define dir where "dir = (if LZ4_COMPRESSBOUND (length src) \<le> length m then notLimited else limitedOutput)"
  define acc where "acc = clamp_acceleration acceleration"
  let ?st = "LZ4_initStream"
  have "LZ4_compress_fast_extState_fastReset ?st src acceleration m =
      LZ4_compress_generic ?st (compress_args ?st [] src dir tt noDict noDictIssue acc) m"
    by (simp add: LZ4_compress_fast_extState_fastReset_def Let_def tt_def dir_def acc_def)
  moreover have "returnsR (\<lambda>(k, st, m'). length m' = length m \<and>
      (k = 0 \<or> 0 < k \<and> k \<le> length m \<and> block_of src (take k m')))
    (LZ4_compress_generic ?st (compress_args ?st [] src dir tt noDict noDictIssue acc) m)"
    by (rule returnsR_mono [OF compress_on_stream])
      (use assms clamp_acceleration_pos in
        \<open>auto simp: tt_def dir_def acc_def block_on_Nil split: if_splits\<close>)
  ultimately show ?thesis by simp
qed

text \<open>A stream that has seen the end of \<open>hist\<close>, and nothing else.\<close>

definition has_seen :: "LZ4_stream \<Rightarrow> bytes \<Rightarrow> bool" where
  "has_seen st hist \<longleftrightarrow> st_dictSize st = st_currentOffset st \<and> st_currentOffset st \<le> length hist \<and>
     table_ok (st_currentOffset st + 1) (st_hashTable st)"

lemma has_seen_initStream: "has_seen LZ4_initStream []"
  by (simp add: has_seen_def)

lemma has_seen_renorm:
  assumes "has_seen st hist" "n \<le> LZ4_MAX_INPUT_SIZE"
  shows "has_seen (LZ4_renormDictT st n) hist"
proof (cases "0x80000000 < st_currentOffset st + n")
  case True
  let ?k = "64 * 2 ^ 10 :: nat"
  have big: "?k < st_currentOffset st" using True assms(2) by (simp add: LZ4_MAX_INPUT_SIZE_def)
  have "table_ok (?k + 1) (\<lambda>h. if st_hashTable st h < st_currentOffset st - ?k then 0
      else st_hashTable st h - (st_currentOffset st - ?k))"
    unfolding table_ok_def
  proof
    fix h
    have "st_hashTable st h < st_currentOffset st + 1" using assms(1) by (simp add: has_seen_def table_ok_def)
    then show "(if st_hashTable st h < st_currentOffset st - ?k then 0
      else st_hashTable st h - (st_currentOffset st - ?k)) < ?k + 1"
      using big by auto
  qed
  then show ?thesis
    using True assms(1) big by (simp add: LZ4_renormDictT_def has_seen_def Let_def cong: if_cong)
qed (use assms in \<open>simp add: LZ4_renormDictT_def\<close>)

lemma compress_args_window:
  "st_currentOffset st \<le> length hist \<Longrightarrow>
    compress_args st hist src dir tt dd di acc =
    compress_args st (drop (length hist - st_currentOffset st) hist) src dir tt dd di acc"
  by (simp add: compress_args_def from_base_def)

lemma continue_generic:
  assumes st: "has_seen st hist" and src: "src \<noteq> []" "length src \<le> LZ4_MAX_INPUT_SIZE" and acc: "1 \<le> acc"
  shows "\<exists>k st' m'. LZ4_compress_generic st (compress_args st hist src limitedOutput byU32 dd di acc) m =
      Inr (k, st', m') \<and> length m' = length m \<and>
      (k = 0 \<or> 0 < k \<and> k \<le> length m \<and> block_on hist src (take k m')) \<and>
      st_currentOffset st' = st_currentOffset st + length src \<and>
      st_dictSize st' = st_currentOffset st + length src \<and>
      table_ok (st_currentOffset st + length src + 1) (st_hashTable st')"
proof -
  let ?n = "st_currentOffset st"
  define h where "h = drop (length hist - ?n) hist"
  have n: "?n = length h" "st_dictSize st = ?n" using st by (auto simp: has_seen_def h_def)
  have hist: "hist = take (length hist - ?n) hist @ h" by (simp add: h_def)
  have window: "compress_args st hist src limitedOutput byU32 dd di acc =
      compress_args st h src limitedOutput byU32 dd di acc"
    unfolding h_def by (rule compress_args_window) (use st in \<open>simp add: has_seen_def\<close>)
  have table: "table_ok (length h + 1) (st_hashTable st)" using st n(1) by (simp add: has_seen_def)
  obtain k st' m' where r: "LZ4_compress_generic st (compress_args st h src limitedOutput byU32 dd di acc) m =
      Inr (k, st', m')" "length m' = length m"
    "k = 0 \<or> 0 < k \<and> k \<le> length m \<and> block_on h src (take k m')"
    "st_currentOffset st' = length h + length src" "st_dictSize st' = st_dictSize st + length src"
    "table_ok (length h + length src + 1) (st_hashTable st')"
    using compress_on_stream [OF n(1) table disjI2 [OF refl] _ acc src(2) disjI1 [OF refl], of m dd di] src(1)
    unfolding returnsR_def by auto
  have "block_on hist src d" if "block_on h src d" for d
    using block_on_extend [OF that, of "take (length hist - ?n) hist"] by (simp only: hist [symmetric])
  then have "k = 0 \<or> 0 < k \<and> k \<le> length m \<and> block_on hist src (take k m')" using r(3) by blast
  then show ?thesis
    using r n unfolding window by metis
qed

lemma continue_ok:
  assumes st: "has_seen st hist" and src: "src \<noteq> []" "length src \<le> LZ4_MAX_INPUT_SIZE"
  shows "\<exists>k st' m'. LZ4_compress_fast_continue st hist src acceleration m = Inr (k, st', m') \<and>
      length m' = length m \<and> (k = 0 \<or> 0 < k \<and> k \<le> length m \<and> block_on hist src (take k m')) \<and>
      has_seen st' (hist @ src)"
proof -
  define st1 where "st1 = LZ4_renormDictT st (length src)"
  define acc where "acc = clamp_acceleration acceleration"
  define di where "di = (if st_dictSize st1 < 64 * 2 ^ 10 \<and> st_dictSize st1 < st_currentOffset st1
    then dictSmall else noDictIssue)"
  have st1: "has_seen st1 hist" using has_seen_renorm [OF st src(2)] by (simp add: st1_def)
  have acc: "1 \<le> acc" using clamp_acceleration_pos by (simp add: acc_def)
  have seen: "st_dictSize st1 = st_currentOffset st1" "st_currentOffset st1 \<le> length hist"
    using st1 by (simp_all add: has_seen_def)
  have run: "LZ4_compress_fast_continue st hist src acceleration m =
      (if st_dictSize st1 \<noteq> 0 then
         LZ4_compress_generic st1 (compress_args st1 hist src limitedOutput byU32 withPrefix64k di acc) m
       else
         bindR (LZ4_compress_generic st1 (compress_args st1 hist src limitedOutput byU32 usingExtDict di acc) m)
           (\<lambda>(k, st, m). Inr (k, st\<lparr>st_dictSize := length src\<rparr>, m)))"
    unfolding LZ4_compress_fast_continue_def Let_def st1_def acc_def di_def by (rule refl)
  obtain k st' m' where r:
    "LZ4_compress_generic st1 (compress_args st1 hist src limitedOutput byU32
       (if st_dictSize st1 \<noteq> 0 then withPrefix64k else usingExtDict) di acc) m = Inr (k, st', m')"
    "length m' = length m" "k = 0 \<or> 0 < k \<and> k \<le> length m \<and> block_on hist src (take k m')"
    "st_currentOffset st' = st_currentOffset st1 + length src" "st_dictSize st' = st_currentOffset st1 + length src"
    "table_ok (st_currentOffset st1 + length src + 1) (st_hashTable st')"
    using continue_generic [OF st1 src acc] by blast
  show ?thesis
  proof (cases "st_dictSize st1 = 0")
    case True
    have "has_seen (st'\<lparr>st_dictSize := length src\<rparr>) (hist @ src)"
      using r(4,6) True seen by (simp add: has_seen_def)
    moreover have "LZ4_compress_fast_continue st hist src acceleration m =
        Inr (k, st'\<lparr>st_dictSize := length src\<rparr>, m')"
      using r(1) True by (simp add: run)
    ultimately show ?thesis using r(2,3) by blast
  next
    case False
    have "has_seen st' (hist @ src)" using r(4-6) seen by (simp add: has_seen_def)
    moreover have "LZ4_compress_fast_continue st hist src acceleration m = Inr (k, st', m')"
      using r(1) False by (simp add: run)
    ultimately show ?thesis using r(2,3) by blast
  qed
qed

end
