(* ===== verification/Lz4FrameCompress.thy ===== *)
theory Lz4FrameCompress
  imports Lz4Frame Lz4Stream
begin

text \<open>
  The compressor for frames of \<open>external/lz4/lz4frame.c\<close>, from \<open>LZ4F_makeBlock\<close> to \<open>LZ4F_compressFrame\<close>:
  without a dictionary, for compression levels below \<open>LZ4HC_CLEVEL_MIN\<close>, and for contexts that buffer
  no input, as \<open>LZ4F_compressFrame\<close> makes them with \<open>autoFlush\<close> and \<open>stableSrc\<close>. A destination is a byte
  list of the capacity given, written from a position on.
\<close>

section \<open>Preferences and context\<close>

record LZ4F_preferences_t =
  p_frameInfo :: LZ4F_frameInfo_t
  p_compressionLevel :: int
  p_autoFlush :: bool
  p_favorDecSpeed :: bool

definition prefs_zero :: LZ4F_preferences_t where
  "prefs_zero = \<lparr>p_frameInfo = frameInfo_zero, p_compressionLevel = 0, p_autoFlush = False,
     p_favorDecSpeed = False\<rparr>"

text \<open>
  \<open>tmpBuff\<close> and \<open>tmpIn\<close> hold buffered input only; \<open>cdict\<close> is null. \<open>cc_stream\<close> is what \<open>lz4CtxPtr\<close> points
  to.
\<close>

record LZ4F_cctx =
  cc_prefs :: LZ4F_preferences_t
  cc_version :: u32
  cc_cStage :: nat
  cc_maxBlockSize :: u64
  cc_maxBufferSize :: u64
  cc_tmpInSize :: u64
  cc_totalInSize :: u64
  cc_xxh :: XXH32_state
  cc_stream :: LZ4_stream
  cc_lz4CtxAlloc :: nat
  cc_lz4CtxState :: nat

definition cctx_zero :: "u32 \<Rightarrow> LZ4F_cctx" where
  "cctx_zero v =
     \<lparr>cc_prefs = prefs_zero, cc_version = v, cc_cStage = 0, cc_maxBlockSize = 0, cc_maxBufferSize = 0,
      cc_tmpInSize = 0, cc_totalInSize = 0, cc_xxh = XXH32_zero, cc_stream = LZ4_initStream,
      cc_lz4CtxAlloc = 0, cc_lz4CtxState = 0\<rparr>"

section \<open>Sizes\<close>

text \<open>The result of \<open>LZ4F_getBlockSize\<close> as its callers use it, an error being a number.\<close>

definition block_size_of :: "nat \<Rightarrow> u64" where
  "block_size_of ident = size_or_error (LZ4F_getBlockSize ident)"

function optimalBSID_loop :: "nat \<Rightarrow> u64 \<Rightarrow> nat \<Rightarrow> u64 \<Rightarrow> nat" where
  "optimalBSID_loop requestedBSID srcSize proposedBSID maxSize =
     (if proposedBSID < requestedBSID then
        if srcSize \<le> maxSize then proposedBSID
        else optimalBSID_loop requestedBSID srcSize (proposedBSID + 1) (push_bit 2 maxSize)
      else requestedBSID)"
  by pat_completeness auto
termination by (relation "measure (\<lambda>(r, s, p, m). r - p)") auto

declare optimalBSID_loop.simps [simp del]

definition LZ4F_optimalBSID :: "nat \<Rightarrow> u64 \<Rightarrow> nat" where
  "LZ4F_optimalBSID requestedBSID srcSize =
     optimalBSID_loop requestedBSID srcSize LZ4F_max64KB (64 * 2 ^ 10)"

definition LZ4F_compressBound_internal :: "u64 \<Rightarrow> LZ4F_preferences_t option \<Rightarrow> u64 \<Rightarrow> u64" where
  "LZ4F_compressBound_internal srcSize preferencesPtr alreadyBuffered =
     (let prefsNull = prefs_zero\<lparr>p_frameInfo := frameInfo_zero\<lparr>contentChecksumFlag := True, blockChecksumFlag := True\<rparr>\<rparr>;
          prefs = (case preferencesPtr of None \<Rightarrow> prefsNull | Some p \<Rightarrow> p);
          flush = (p_autoFlush prefs \<or> srcSize = 0);
          blockSize = block_size_of (blockSizeID (p_frameInfo prefs));
          maxBuffered = blockSize - 1;
          bufferedSize = min alreadyBuffered maxBuffered;
          maxSrcSize = srcSize + bufferedSize;
          nbFullBlocks = (ucast (maxSrcSize div blockSize) :: u32);
          partialBlockSize = maxSrcSize AND (blockSize - 1);
          lastBlockSize = (if flush then partialBlockSize else 0);
          nbBlocks = nbFullBlocks + (if 0 < lastBlockSize then 1 else 0);
          blockCRCSize = (if blockChecksumFlag (p_frameInfo prefs) then of_nat BFSize else 0);
          frameEnd = of_nat BHSize + (if contentChecksumFlag (p_frameInfo prefs) then of_nat BFSize else 0)
      in (of_nat BHSize + blockCRCSize) * ucast nbBlocks + blockSize * ucast nbFullBlocks + lastBlockSize + frameEnd)"

definition LZ4F_compressFrameBound :: "u64 \<Rightarrow> LZ4F_preferences_t option \<Rightarrow> u64" where
  "LZ4F_compressFrameBound srcSize preferencesPtr =
     (let prefs = (case preferencesPtr of None \<Rightarrow> prefs_zero | Some p \<Rightarrow> p)\<lparr>p_autoFlush := True\<rparr>
      in of_nat maxFHSize + LZ4F_compressBound_internal srcSize (Some prefs) 0)"

definition LZ4F_compressBound :: "u64 \<Rightarrow> LZ4F_preferences_t option \<Rightarrow> u64" where
  "LZ4F_compressBound srcSize preferencesPtr =
     (case preferencesPtr of
        Some p \<Rightarrow> if p_autoFlush p then LZ4F_compressBound_internal srcSize preferencesPtr 0
                  else LZ4F_compressBound_internal srcSize preferencesPtr (- 1)
      | None \<Rightarrow> LZ4F_compressBound_internal srcSize preferencesPtr (- 1))"

section \<open>Frame header\<close>

text \<open>The header from the FLG byte to the dictionary ID.\<close>

definition frame_descriptor :: "LZ4F_frameInfo_t \<Rightarrow> bytes" where
  "frame_descriptor info =
     [push_bit 6 1 + (if blockMode info = LZ4F_blockIndependent then push_bit 5 1 else 0)
        + (if blockChecksumFlag info then push_bit 4 1 else 0)
        + (if 0 < contentSize info then push_bit 3 1 else 0)
        + (if contentChecksumFlag info then push_bit 2 1 else 0)
        + (if 0 < dictID info then 1 else 0),
      push_bit 4 (of_nat (blockSizeID info) AND 7)]
     @ (if contentSize info \<noteq> 0 then LZ4F_writeLE64 (contentSize info) else [])
     @ (if dictID info \<noteq> 0 then LZ4F_writeLE32 (dictID info) else [])"

definition frame_header :: "LZ4F_frameInfo_t \<Rightarrow> bytes" where
  "frame_header info =
     LZ4F_writeLE32 LZ4F_MAGICNUMBER @ frame_descriptor info @ [LZ4F_headerChecksum (frame_descriptor info)]"

definition LZ4F_initStream :: "int \<Rightarrow> LZ4F_blockMode_t \<Rightarrow> LZ4_stream \<Rightarrow> LZ4_stream" where
  "LZ4F_initStream level mode st = (if mode = LZ4F_blockLinked then LZ4_resetStream_fast st else st)"

definition LZ4_STREAMSIZE :: nat where "LZ4_STREAMSIZE = 16416"

text \<open>
  \<open>mem\<close> tells whether an allocation succeeds. The function keeps what the context has, or fails.
\<close>

definition prepare_stream :: "(nat \<Rightarrow> bool) \<Rightarrow> LZ4F_cctx \<Rightarrow> LZ4F_cctx or_error" where
  "prepare_stream mem C =
     (if cc_lz4CtxAlloc C < 1 then
        if mem LZ4_STREAMSIZE then Inr (C\<lparr>cc_stream := LZ4_initStream, cc_lz4CtxAlloc := 1, cc_lz4CtxState := 1\<rparr>)
        else Inl LZ4F_ERROR_allocation_failed
      else if cc_lz4CtxState C \<noteq> 1 then Inr (C\<lparr>cc_stream := LZ4_initStream, cc_lz4CtxState := 1\<rparr>)
      else Inr C)"

definition prepare_buffer :: "(nat \<Rightarrow> bool) \<Rightarrow> bool \<Rightarrow> LZ4F_cctx \<Rightarrow> LZ4F_cctx \<times> unit or_error" where
  "prepare_buffer mem autoFlush C =
     (let lnk = (blockMode (p_frameInfo (cc_prefs C)) = LZ4F_blockLinked);
          required = (if autoFlush then if lnk then 64 * 2 ^ 10 else 0
                      else cc_maxBlockSize C + (if lnk then 128 * 2 ^ 10 else 0))
      in if cc_maxBufferSize C < required then
           if mem (unat required) then (C\<lparr>cc_maxBufferSize := required\<rparr>, Inr ())
           else (C\<lparr>cc_maxBufferSize := 0\<rparr>, Inl LZ4F_ERROR_allocation_failed)
         else (C, Inr ()))"

definition LZ4F_compressBegin_usingCDict ::
    "(nat \<Rightarrow> bool) \<Rightarrow> LZ4F_cctx \<Rightarrow> nat \<Rightarrow> bytes \<Rightarrow> LZ4F_preferences_t option \<Rightarrow>
     (LZ4F_cctx \<times> bytes \<times> nat or_error) result" where
  "LZ4F_compressBegin_usingCDict mem C p dst preferencesPtr =
     (if length dst - p < maxFHSize then Inr (C, dst, Inl LZ4F_ERROR_dstMaxSize_tooSmall)
      else
        let prefs = (case preferencesPtr of None \<Rightarrow> prefs_zero | Some q \<Rightarrow> q);
            C = C\<lparr>cc_prefs := prefs\<rparr>
        in case prepare_stream mem C of
             Inl e \<Rightarrow> Inr (C, dst, Inl e)
           | Inr C \<Rightarrow>
               (let info = p_frameInfo prefs;
                    info = (if blockSizeID info = 0 then info\<lparr>blockSizeID := LZ4F_max64KB\<rparr> else info);
                    C = C\<lparr>cc_prefs := prefs\<lparr>p_frameInfo := info\<rparr>, cc_maxBlockSize := block_size_of (blockSizeID info)\<rparr>
                in case prepare_buffer mem (p_autoFlush prefs) C of
                     (C, Inl e) \<Rightarrow> Inr (C, dst, Inl e)
                   | (C, Inr _) \<Rightarrow>
                       (let C = C\<lparr>cc_tmpInSize := 0, cc_xxh := XXH32_reset 0,
                              cc_stream := (if blockMode info = LZ4F_blockLinked
                                then LZ4F_initStream (p_compressionLevel prefs) LZ4F_blockLinked (cc_stream C)
                                else cc_stream C),
                              cc_totalInSize := (if contentSize info \<noteq> 0 then 0 else cc_totalInSize C),
                              cc_cStage := 1\<rparr>
                        in bindR (poke p (frame_header info) dst) (\<lambda>dst.
                             Inr (C, dst, Inr (length (frame_header info)))))))"

section \<open>Blocks\<close>

text \<open>\<open>compressFunc_t\<close>: what lies in front of the source, the source, and the destination.\<close>

type_synonym compressFunc_t = "LZ4_stream \<Rightarrow> bytes \<Rightarrow> bytes \<Rightarrow> bytes \<Rightarrow> (nat \<times> LZ4_stream \<times> bytes) result"

definition level_acceleration :: "int \<Rightarrow> int" where
  "level_acceleration level = (if level < 0 then - level + 1 else 1)"

definition LZ4F_compressBlock :: "int \<Rightarrow> compressFunc_t" where
  "LZ4F_compressBlock level st hist src m =
     LZ4_compress_fast_extState_fastReset (LZ4F_initStream level LZ4F_blockIndependent st) src
       (level_acceleration level) m"

definition LZ4F_compressBlock_continue :: "int \<Rightarrow> compressFunc_t" where
  "LZ4F_compressBlock_continue level st hist src m =
     LZ4_compress_fast_continue st hist src (level_acceleration level) m"

definition LZ4F_selectCompression :: "LZ4F_blockMode_t \<Rightarrow> int \<Rightarrow> compressFunc_t" where
  "LZ4F_selectCompression mode level =
     (if mode = LZ4F_blockIndependent then LZ4F_compressBlock level else LZ4F_compressBlock_continue level)"

text \<open>The compressor is given room for one byte less than the source has; else the block is raw.\<close>

definition LZ4F_makeBlock ::
    "nat \<Rightarrow> bytes \<Rightarrow> bytes \<Rightarrow> bytes \<Rightarrow> compressFunc_t \<Rightarrow> LZ4_stream \<Rightarrow> bool \<Rightarrow> (LZ4_stream \<times> bytes \<times> nat) result" where
  "LZ4F_makeBlock p dst hist src compress st crcFlag =
     (let room = length src - 1; q = p + BHSize
      in if length dst < q + room then Inl HeapOverflow
         else
           bindR (compress st hist src (view q room dst)) (\<lambda>(cSize, st, m).
           bindR (poke q m dst) (\<lambda>dst.
           bindR (if cSize = 0 then
                    bindR (poke p (LZ4F_writeLE32 (of_nat (length src) OR LZ4F_BLOCKUNCOMPRESSED_FLAG)) dst) (\<lambda>dst.
                    bindR (LZ4_memcpy (Some src) q 0 (length src) dst) (\<lambda>dst. Inr (length src, dst)))
                  else
                    bindR (poke p (LZ4F_writeLE32 (of_nat cSize)) dst) (\<lambda>dst. Inr (cSize, dst))) (\<lambda>(cSize, dst).
           bindR (if crcFlag then
                    bindR (rd dst q cSize) (\<lambda>block. poke (q + cSize) (LZ4F_writeLE32 (XXH32 block 0)) dst)
                  else Inr dst) (\<lambda>dst.
             Inr (st, dst, BHSize + cSize + (if crcFlag then BFSize else 0)))))))"

definition make_block ::
    "LZ4F_cctx \<Rightarrow> nat \<Rightarrow> bytes \<Rightarrow> bytes \<Rightarrow> bytes \<Rightarrow> (LZ4F_cctx \<times> nat \<times> bytes) result" where
  "make_block C p dst hist src =
     (let prefs = cc_prefs C; info = p_frameInfo prefs
      in bindR (LZ4F_makeBlock p dst hist src
            (LZ4F_selectCompression (blockMode info) (p_compressionLevel prefs)) (cc_stream C) (blockChecksumFlag info))
           (\<lambda>(st, dst, n). Inr (C\<lparr>cc_stream := st\<rparr>, p + n, dst)))"

text \<open>
  \<open>hist\<close> is the part of the source that is done, \<open>src\<close> the rest: full blocks, then what is left. One
  unit of fuel for each block; a block is not empty.
\<close>

fun full_blocks ::
    "nat \<Rightarrow> LZ4F_cctx \<Rightarrow> nat \<Rightarrow> bytes \<Rightarrow> bytes \<Rightarrow> bytes \<Rightarrow> (LZ4F_cctx \<times> nat \<times> bytes \<times> bytes \<times> bytes) result" where
  "full_blocks 0 C p dst hist src = Inl Diverges"
| "full_blocks (Suc fuel) C p dst hist src =
     (let blockSize = unat (cc_maxBlockSize C)
      in if blockSize \<le> length src then
           bindR (make_block C p dst hist (take blockSize src)) (\<lambda>(C, p, dst).
             full_blocks fuel C p dst (hist @ take blockSize src) (drop blockSize src))
         else Inr (C, p, dst, hist, src))"

text \<open>
  \<open>LZ4F_compressUpdate\<close> for the first input of a frame, with \<open>autoFlush\<close> and \<open>stableSrc\<close>: then nothing
  is buffered before, and no input is left to be buffered.
\<close>

definition LZ4F_compressUpdate ::
    "LZ4F_cctx \<Rightarrow> nat \<Rightarrow> bytes \<Rightarrow> bytes \<Rightarrow> (LZ4F_cctx \<times> bytes \<times> nat or_error) result" where
  "LZ4F_compressUpdate C p dst src =
     (if cc_cStage C \<noteq> 1 then Inr (C, dst, Inl LZ4F_ERROR_GENERIC)
      else if of_nat (length dst - p) <
          LZ4F_compressBound_internal (of_nat (length src)) (Some (cc_prefs C)) (cc_tmpInSize C) then
        Inr (C, dst, Inl LZ4F_ERROR_dstMaxSize_tooSmall)
      else
        bindR (full_blocks (length src + 1) C p dst [] src) (\<lambda>(C, q, dst, hist, r).
        bindR (if r \<noteq> [] then make_block C q dst hist r else Inr (C, q, dst)) (\<lambda>(C, q, dst).
          Inr (C\<lparr>cc_xxh := (if contentChecksumFlag (p_frameInfo (cc_prefs C)) then XXH32_update (cc_xxh C) src
                   else cc_xxh C),
                 cc_totalInSize := cc_totalInSize C + of_nat (length src)\<rparr>, dst, Inr (q - p)))))"

text \<open>\<open>LZ4F_flush\<close> has nothing to flush.\<close>

definition LZ4F_compressEnd ::
    "LZ4F_cctx \<Rightarrow> nat \<Rightarrow> bytes \<Rightarrow> (LZ4F_cctx \<times> bytes \<times> nat or_error) result" where
  "LZ4F_compressEnd C p dst =
     (let info = p_frameInfo (cc_prefs C); cap = length dst - p
      in if cap < 4 then Inr (C, dst, Inl LZ4F_ERROR_dstMaxSize_tooSmall)
         else
           bindR (poke p (LZ4F_writeLE32 0) dst) (\<lambda>dst.
             if contentChecksumFlag info \<and> cap < 8 then Inr (C, dst, Inl LZ4F_ERROR_dstMaxSize_tooSmall)
             else
               bindR (if contentChecksumFlag info
                      then poke (p + 4) (LZ4F_writeLE32 (XXH32_digest (cc_xxh C))) dst else Inr dst) (\<lambda>dst.
                 let C = C\<lparr>cc_cStage := 0, cc_maxBufferSize := 0\<rparr>
                 in Inr (C, dst,
                      if contentSize info \<noteq> 0 \<and> contentSize info \<noteq> cc_totalInSize C then Inl LZ4F_ERROR_frameSize_wrong
                      else Inr (4 + (if contentChecksumFlag info then 4 else 0))))))"

section \<open>A frame in one call\<close>

text \<open>The three steps, each from the position the last one reached.\<close>

definition then_at ::
    "(LZ4F_cctx \<times> bytes \<times> nat or_error) result \<Rightarrow> nat \<Rightarrow>
     (LZ4F_cctx \<Rightarrow> nat \<Rightarrow> bytes \<Rightarrow> (LZ4F_cctx \<times> bytes \<times> nat or_error) result) \<Rightarrow>
     (LZ4F_cctx \<times> bytes \<times> nat or_error) result" where
  "then_at r p k =
     bindR r (\<lambda>(C, dst, n). case n of Inl e \<Rightarrow> Inr (C, dst, Inl e) | Inr n \<Rightarrow> k C (p + n) dst)"

definition LZ4F_compressFrame_usingCDict ::
    "(nat \<Rightarrow> bool) \<Rightarrow> LZ4F_cctx \<Rightarrow> bytes \<Rightarrow> bytes \<Rightarrow> LZ4F_preferences_t option \<Rightarrow>
     (LZ4F_cctx \<times> bytes \<times> nat or_error) result" where
  "LZ4F_compressFrame_usingCDict mem C dst src preferencesPtr =
     (let srcSize = of_nat (length src) :: u64;
          prefs = (case preferencesPtr of None \<Rightarrow> prefs_zero | Some p \<Rightarrow> p);
          info = p_frameInfo prefs;
          info = (if contentSize info \<noteq> 0 then info\<lparr>contentSize := srcSize\<rparr> else info);
          info = info\<lparr>blockSizeID := LZ4F_optimalBSID (blockSizeID info) srcSize\<rparr>;
          info = (if srcSize \<le> block_size_of (blockSizeID info)
                  then info\<lparr>blockMode := LZ4F_blockIndependent\<rparr> else info);
          prefs = prefs\<lparr>p_frameInfo := info, p_autoFlush := True\<rparr>
      in if of_nat (length dst) < LZ4F_compressFrameBound srcSize (Some prefs) then
           Inr (C, dst, Inl LZ4F_ERROR_dstMaxSize_tooSmall)
         else
           then_at (LZ4F_compressBegin_usingCDict mem C 0 dst (Some prefs)) 0 (\<lambda>C p dst.
           then_at (LZ4F_compressUpdate C p dst src) p (\<lambda>C p dst.
           then_at (LZ4F_compressEnd C p dst) p (\<lambda>C p dst. Inr (C, dst, Inr p)))))"

text \<open>The context and the stream are on the stack, \<open>maxBufferSize\<close> avoids an allocation.\<close>

definition LZ4F_compressFrame :: "bytes \<Rightarrow> bytes \<Rightarrow> LZ4F_preferences_t option \<Rightarrow> (bytes \<times> nat or_error) result" where
  "LZ4F_compressFrame dst src preferencesPtr =
     (let C = (cctx_zero LZ4F_VERSION)\<lparr>cc_maxBufferSize := 5 * 2 ^ 20, cc_stream := LZ4_initStream,
          cc_lz4CtxAlloc := 1, cc_lz4CtxState := 1\<rparr>
      in bindR (LZ4F_compressFrame_usingCDict (\<lambda>_. False) C dst src preferencesPtr) (\<lambda>(C, dst, n). Inr (dst, n)))"

end
