(* ===== verification/Lz4FrameFormat.thy ===== *)
theory Lz4FrameFormat
  imports Lz4FrameCompress
begin

text \<open>
  The frame format as a specification independent of the code, for frames with blocks of 64 KB at
  most and without checksums: what a block stands for behind the output so far, and what a frame
  stands for.
\<close>

definition coded :: "bytes \<Rightarrow> bytes \<Rightarrow> bytes \<Rightarrow> bool" where
  "coded hist c b \<longleftrightarrow> c \<noteq> [] \<and> length c \<le> 65536 \<and>
     (b = LZ4F_writeLE32 (of_nat (length c) OR LZ4F_BLOCKUNCOMPRESSED_FLAG) @ c \<or>
      (\<exists>d. d \<noteq> [] \<and> length d < length c \<and> block_on hist c d \<and> b = LZ4F_writeLE32 (of_nat (length d)) @ d))"

text \<open>All blocks but the last are full.\<close>

inductive linked_blocks :: "bytes \<Rightarrow> bytes \<Rightarrow> bytes \<Rightarrow> bool" where
  no_block: "linked_blocks hist [] []"
| last_block: "coded hist c b \<Longrightarrow> linked_blocks hist c b"
| full_block: "coded hist c b \<Longrightarrow> length c = 65536 \<Longrightarrow> linked_blocks (hist @ c) r bs \<Longrightarrow>
    linked_blocks hist (c @ r) (b @ bs)"

definition plain_info :: "LZ4F_frameInfo_t \<Rightarrow> bool" where
  "plain_info info \<longleftrightarrow> blockSizeID info = 4 \<and> \<not> contentChecksumFlag info \<and> \<not> blockChecksumFlag info \<and>
     contentSize info = 0 \<and> dictID info = 0"

definition frame_of :: "bytes \<Rightarrow> bytes \<Rightarrow> bool" where
  "frame_of src b \<longleftrightarrow> (\<exists>info bs. b = frame_header info @ bs @ LZ4F_writeLE32 0 \<and> plain_info info \<and>
     (blockMode info = LZ4F_blockIndependent \<longrightarrow> length src \<le> 65536) \<and> linked_blocks [] src bs)"

end
