(* ===== verification/Lz4FrameEncode.thy ===== *)
theory Lz4FrameEncode
  imports Lz4FrameFormat
begin

text \<open>
  \<open>LZ4F_compressFrame\<close> makes a frame that stands for its input, for every input below 128 TB and every
  destination of the size \<open>LZ4F_compressFrameBound\<close> asks for.
\<close>

section \<open>Blocks\<close>

definition stream_fits :: "LZ4F_blockMode_t \<Rightarrow> LZ4_stream \<Rightarrow> bytes \<Rightarrow> bool" where
  "stream_fits mode st hist \<longleftrightarrow>
     (if mode = LZ4F_blockLinked then has_seen st hist else st = LZ4_initStream \<and> hist = [])"

lemma select_ok:
  assumes "stream_fits mode st hist" "src \<noteq> []" "length src \<le> LZ4_MAX_INPUT_SIZE"
  shows "\<exists>k st' m'. LZ4F_selectCompression mode level st hist src m = Inr (k, st', m') \<and> length m' = length m \<and>
    (k = 0 \<or> 0 < k \<and> k \<le> length m \<and> block_on hist src (take k m')) \<and>
    (mode = LZ4F_blockLinked \<longrightarrow> has_seen st' (hist @ src))"
proof (cases "mode = LZ4F_blockLinked")
  case True
  then have "has_seen st hist" using assms(1) by (simp add: stream_fits_def)
  from continue_ok [OF this assms(2,3)] show ?thesis
    using True by (simp add: LZ4F_selectCompression_def LZ4F_compressBlock_continue_def)
next
  case False
  then have "st = LZ4_initStream" "hist = []" using assms(1) by (simp_all add: stream_fits_def)
  moreover have "mode = LZ4F_blockIndependent" using False by (cases mode) simp_all
  ultimately show ?thesis
    using fastReset_ok [OF assms(3), of m "level_acceleration level"]
    by (auto simp: LZ4F_selectCompression_def LZ4F_compressBlock_def LZ4F_initStream_def returnsR_def block_on_Nil)
qed

lemma length_writeLE32 [simp]: "length (LZ4F_writeLE32 v) = 4"
  by (simp add: LZ4F_writeLE32_def)

lemma makeBlock_ok:
  assumes "stream_fits mode st hist" "src \<noteq> []" "length src \<le> 65536" "p + 4 + length src \<le> length dst"
  shows "\<exists>st' dst' n b. LZ4F_makeBlock p dst hist src (LZ4F_selectCompression mode level) st False =
      Inr (st', dst', n) \<and> n \<le> 4 + length src \<and> length dst' = length dst \<and>
      take (p + n) dst' = take p dst @ b \<and> coded hist src b \<and>
      (mode = LZ4F_blockLinked \<longrightarrow> has_seen st' (hist @ src))"
proof -
  let ?room = "length src - 1" and ?q = "p + 4"
  have "length src \<le> LZ4_MAX_INPUT_SIZE" using assms(3) by (simp add: LZ4_MAX_INPUT_SIZE_def)
  from select_ok [OF assms(1,2) this, of level "view ?q ?room dst"] obtain k st' m' where
    run: "LZ4F_selectCompression mode level st hist src (view ?q ?room dst) = Inr (k, st', m')"
    "length m' = ?room" "k = 0 \<or> 0 < k \<and> k \<le> ?room \<and> block_on hist src (take k m')"
    "mode = LZ4F_blockLinked \<longrightarrow> has_seen st' (hist @ src)"
    using assms(4) by auto
  define d1 where "d1 = put_at ?q m' dst"
  have d1: "poke ?q m' dst = Inr d1" "length d1 = length dst" "take p d1 = take p dst"
    using assms(4) run(2) by (simp_all add: d1_def poke_ok take_put_at)
  show ?thesis
  proof (cases "k = 0")
    case True
    define h where "h = LZ4F_writeLE32 (of_nat (length src) OR LZ4F_BLOCKUNCOMPRESSED_FLAG)"
    have h: "length h = 4" by (simp add: h_def)
    define d2 where "d2 = put_at p h d1"
    define d3 where "d3 = put_at ?q src d2"
    have "p + length h \<le> length d1" using assms(4) d1(2) h by simp
    from take_put_at_all [OF this] this have d2: "poke p h d1 = Inr d2" "length d2 = length dst"
      "take ?q d2 = take p dst @ h"
      using d1(2,3) h by (simp_all add: d2_def poke_ok)
    have "?q + length src \<le> length d2" using assms(4) d2(2) by simp
    from take_put_at_all [OF this] this have d3: "LZ4_memcpy (Some src) ?q 0 (length src) d2 = Inr d3"
      "length d3 = length dst" "take (?q + length src) d3 = take p dst @ h @ src"
      using d2(2,3) by (simp_all add: d3_def memcpy_from view_def)
    have "coded hist src (h @ src)" using assms(2,3) by (simp add: coded_def h_def)
    moreover have "LZ4F_makeBlock p dst hist src (LZ4F_selectCompression mode level) st False =
        Inr (st', d3, 4 + length src)"
      using assms(4) run(1) d1(1) d2(1) d3(1) True by (simp add: LZ4F_makeBlock_def Let_def h_def [symmetric])
    moreover have "take (p + (4 + length src)) d3 = take p dst @ h @ src" using d3(3) by (simp add: add.assoc)
    ultimately show ?thesis using d3(2) run(4) by blast
  next
    case False
    let ?h = "LZ4F_writeLE32 (of_nat k)"
    define d2 where "d2 = put_at p ?h d1"
    have k: "0 < k" "k \<le> ?room" "block_on hist src (take k m')" using run(3) False by simp_all
    have len: "p + 4 \<le> length d1" using assms(4) d1(2) by simp
    have d2: "poke p ?h d1 = Inr d2" "length d2 = length dst"
      using len d1(2) by (simp_all add: d2_def poke_ok)
    have "d2 = take p d1 @ ?h @ drop ?q d1" using len by (simp add: d2_def put_at_inside)
    moreover have "drop ?q d1 = m' @ drop (?q + ?room) dst"
      using assms(4) run(2) by (simp add: d1_def put_at_inside)
    ultimately have "take (?q + k) d2 = take p dst @ ?h @ take k m'"
      using d1(3) k(2) run(2) len d1(2) by simp
    moreover have "coded hist src (?h @ take k m')"
    proof -
      have "take k m' \<noteq> []" "length (take k m') < length src" "length (take k m') = k"
        using k(1,2) run(2) by auto
      then show ?thesis using assms(2,3) k(3) unfolding coded_def by metis
    qed
    moreover have "LZ4F_makeBlock p dst hist src (LZ4F_selectCompression mode level) st False = Inr (st', d2, 4 + k)"
      using assms(4) run(1) d1(1) d2(1) False by (simp add: LZ4F_makeBlock_def Let_def)
    moreover have "4 + k \<le> 4 + length src" using k(2) by simp
    ultimately show ?thesis using d2(2) run(4) by (metis add.assoc)
  qed
qed

lemma make_block_ok:
  assumes "stream_fits (blockMode (p_frameInfo (cc_prefs C))) (cc_stream C) hist"
    "\<not> blockChecksumFlag (p_frameInfo (cc_prefs C))" "src \<noteq> []" "length src \<le> 65536" "p + 4 + length src \<le> length dst"
  shows "\<exists>st' dst' q b. make_block C p dst hist src = Inr (C\<lparr>cc_stream := st'\<rparr>, q, dst') \<and>
      q \<le> p + 4 + length src \<and> length dst' = length dst \<and> take q dst' = take p dst @ b \<and> coded hist src b \<and>
      (blockMode (p_frameInfo (cc_prefs C)) = LZ4F_blockLinked \<longrightarrow> has_seen st' (hist @ src))"
proof -
  from makeBlock_ok [OF assms(1,3-5), of "p_compressionLevel (cc_prefs C)"] obtain st' dst' n b where
    "LZ4F_makeBlock p dst hist src
       (LZ4F_selectCompression (blockMode (p_frameInfo (cc_prefs C))) (p_compressionLevel (cc_prefs C)))
       (cc_stream C) False = Inr (st', dst', n)" "n \<le> 4 + length src" "length dst' = length dst"
    "take (p + n) dst' = take p dst @ b" "coded hist src b"
    "blockMode (p_frameInfo (cc_prefs C)) = LZ4F_blockLinked \<longrightarrow> has_seen st' (hist @ src)"
    by blast
  then show ?thesis
    using assms(2) by (intro exI [of _ st'] exI [of _ dst'] exI [of _ "p + n"] exI [of _ b])
      (simp add: make_block_def Let_def)
qed

section \<open>All blocks\<close>

definition blocks_made ::
    "LZ4F_cctx \<Rightarrow> nat \<Rightarrow> bytes \<Rightarrow> bytes \<Rightarrow> bytes \<Rightarrow> LZ4F_cctx \<times> nat \<times> bytes \<times> bytes \<times> bytes \<Rightarrow> bool" where
  "blocks_made C p dst hist src r \<longleftrightarrow> (case r of (C', q, dst', hist', rest) \<Rightarrow>
     \<exists>st' bs. C' = C\<lparr>cc_stream := st'\<rparr> \<and> length rest = length src mod 65536 \<and> length dst' = length dst \<and>
       q + length rest \<le> p + 4 * (length src div 65536) + length src \<and> take q dst' = take p dst @ bs \<and>
       (rest \<noteq> [] \<longrightarrow> stream_fits (blockMode (p_frameInfo (cc_prefs C))) st' hist') \<and>
       (\<forall>b. linked_blocks hist' rest b \<longrightarrow> linked_blocks hist src (bs @ b)))"

lemma full_blocks_ok:
  assumes "src \<noteq> [] \<Longrightarrow> stream_fits (blockMode (p_frameInfo (cc_prefs C))) (cc_stream C) hist"
    "blockMode (p_frameInfo (cc_prefs C)) = LZ4F_blockLinked \<or> length src \<le> 65536"
    "\<not> blockChecksumFlag (p_frameInfo (cc_prefs C))" "cc_maxBlockSize C = 65536"
    "p + 4 * (length src div 65536) + length src \<le> length dst" "length src < fuel"
  shows "\<exists>r. full_blocks fuel C p dst hist src = Inr r \<and> blocks_made C p dst hist src r"
  using assms
proof (induction fuel arbitrary: C p dst hist src)
  case (Suc fuel)
  let ?mode = "blockMode (p_frameInfo (cc_prefs C))"
  show ?case
  proof (cases "65536 \<le> length src")
    case True
    define c where "c = take 65536 src"
    define s where "s = drop 65536 src"
    have src: "src = c @ s" "length c = 65536" "length s = length src - 65536"
      using True by (simp_all add: c_def s_def)
    have divs: "length src div 65536 = length s div 65536 + 1"
      using True src(3) by (simp add: le_div_geq)
    have ne: "src \<noteq> []" "c \<noteq> []" "length c \<le> 65536" using src(2) src(1) by auto
    have room: "p + 4 + length c \<le> length dst" using Suc.prems(5) divs src(2) True by simp
    from make_block_ok [OF Suc.prems(1) [OF ne(1)] Suc.prems(3) ne(2,3) room] obtain st' dst' q b where
      one: "make_block C p dst hist c = Inr (C\<lparr>cc_stream := st'\<rparr>, q, dst')" "q \<le> p + 4 + length c"
      "length dst' = length dst" "take q dst' = take p dst @ b" "coded hist c b"
      "?mode = LZ4F_blockLinked \<longrightarrow> has_seen st' (hist @ c)"
      by blast
    let ?C = "C\<lparr>cc_stream := st'\<rparr>"
    have "\<exists>r. full_blocks fuel ?C q dst' (hist @ c) s = Inr r \<and> blocks_made ?C q dst' (hist @ c) s r"
    proof (rule Suc.IH)
      show "stream_fits (blockMode (p_frameInfo (cc_prefs ?C))) (cc_stream ?C) (hist @ c)" if "s \<noteq> []"
      proof -
        have "length src \<noteq> 65536" using that src(3) by auto
        then have "?mode = LZ4F_blockLinked" using Suc.prems(2) True by auto
        then show ?thesis using one(6) by (simp add: stream_fits_def)
      qed
      show "blockMode (p_frameInfo (cc_prefs ?C)) = LZ4F_blockLinked \<or> length s \<le> 65536"
        using Suc.prems(2) src(3) by auto
      show "q + 4 * (length s div 65536) + length s \<le> length dst'"
        using Suc.prems(5) divs one(2,3) src(2,3) True by simp
      show "length s < fuel" using Suc.prems(6) src(3) True by simp
    qed (use Suc.prems(3,4) in simp_all)
    then obtain C' k dst'' hist' rest where r: "full_blocks fuel ?C q dst' (hist @ c) s = Inr (C', k, dst'', hist', rest)"
      "blocks_made ?C q dst' (hist @ c) s (C', k, dst'', hist', rest)"
      by (metis prod_cases5)
    then obtain st'' bs where made: "C' = ?C\<lparr>cc_stream := st''\<rparr>" "length rest = length s mod 65536"
      "length dst'' = length dst'" "k + length rest \<le> q + 4 * (length s div 65536) + length s"
      "take k dst'' = take q dst' @ bs"
      "rest \<noteq> [] \<longrightarrow> stream_fits (blockMode (p_frameInfo (cc_prefs ?C))) st'' hist'"
      "\<forall>b. linked_blocks hist' rest b \<longrightarrow> linked_blocks (hist @ c) s (bs @ b)"
      unfolding blocks_made_def prod.case by blast
    have "full_blocks (Suc fuel) C p dst hist src = Inr (C', k, dst'', hist', rest)"
      using True Suc.prems(4) one(1) r(1) by (simp add: c_def [symmetric] s_def [symmetric] Let_def)
    moreover have "blocks_made C p dst hist src (C', k, dst'', hist', rest)"
      unfolding blocks_made_def prod.case
    proof (intro exI conjI allI impI)
      show "take k dst'' = take p dst @ (b @ bs)" using made(5) one(4) by simp
      show "linked_blocks hist src ((b @ bs) @ x)" if "linked_blocks hist' rest x" for x
        using full_block [OF one(5) src(2)] made(7) that src(1) by simp
      show "k + length rest \<le> p + 4 * (length src div 65536) + length src"
        using made(4) one(2) divs src(2,3) True by simp
      show "length rest = length src mod 65536" using made(2) src(3) True by (simp add: le_mod_geq)
    qed (use made one(3) in \<open>simp_all\<close>)
    ultimately show ?thesis by blast
  next
    case False
    then have "full_blocks (Suc fuel) C p dst hist src = Inr (C, p, dst, hist, src)"
      using Suc.prems(4) by simp
    moreover have "blocks_made C p dst hist src (C, p, dst, hist, src)"
      using False Suc.prems(1) by (auto simp: blocks_made_def intro!: exI [of _ "cc_stream C"])
    ultimately show ?thesis by blast
  qed
qed simp

section \<open>Sizes\<close>

lemma unat_u64: "n < 2 ^ 64 \<Longrightarrow> unat (of_nat n :: u64) = n"
  by (simp add: unsigned_of_nat take_bit_nat_eq_self)

lemma of_nat_div_u64:
  assumes "n < 2 ^ 64" "k < 2 ^ 64"
  shows "(of_nat n :: u64) div of_nat k = of_nat (n div k)"
proof -
  have "n div k < 2 ^ 64" using assms(1) div_le_dividend order.strict_trans1 by blast
  then have "unat ((of_nat n :: u64) div of_nat k) = unat (of_nat (n div k) :: u64)"
    using assms by (simp only: unat_div unat_u64)
  then show ?thesis by (simp only: word_unat_eq_iff)
qed

lemma block_size_64KB [simp]: "block_size_of 4 = 65536" "block_size_of 0 = 65536"
  by (simp_all add: block_size_of_def LZ4F_getBlockSize_def blockSizes_def size_or_error_def)

lemma of_nat_casts:
  assumes "k < 2 ^ 32"
  shows "(ucast (of_nat k :: u64) :: u32) = of_nat k" "(ucast (of_nat k :: u32) :: u64) = of_nat k"
  using assms by (simp_all add: word_unat_eq_iff unsigned_ucast_eq unsigned_of_nat take_bit_nat_eq_self)

lemma of_nat_and_65535: "(of_nat n :: u64) AND 65535 = of_nat (n mod 65536)"
proof -
  have "(of_nat n :: u64) AND mask 16 = of_nat (n mod 65536)"
    by (simp flip: take_bit_eq_mask add: take_bit_of_nat) (simp add: take_bit_nat_def)
  then show ?thesis by (simp add: mask_eq_exp_minus_1)
qed

definition frame_blocks :: "nat \<Rightarrow> nat" where
  "frame_blocks n = n div 65536 + (if n mod 65536 = 0 then 0 else 1)"

lemma compressBound_value:
  assumes "block_size_of (blockSizeID (p_frameInfo prefs)) = 65536" "\<not> blockChecksumFlag (p_frameInfo prefs)"
    "\<not> contentChecksumFlag (p_frameInfo prefs)" "p_autoFlush prefs" "n < 2 ^ 47"
  shows "LZ4F_compressBound_internal (of_nat n) (Some prefs) 0 = of_nat (4 * frame_blocks n + n + 4)"
proof -
  have full: "(of_nat n :: u64) div 65536 = of_nat (n div 65536)"
    using of_nat_div_u64 [of n 65536] assms(5) by simp
  have small: "n div 65536 < 2 ^ 31" using assms(5) by (simp add: less_mult_imp_div_less)
  have rest: "(0 < (of_nat (n mod 65536) :: u64)) = (0 < n mod 65536)"
  proof -
    have "n mod 65536 < 2 ^ 64" using mod_less_divisor [of 65536 n] by simp
    then show ?thesis using unat_u64 [of "n mod 65536"] by (simp add: word_less_nat_alt)
  qed
  have blocks: "(of_nat (n div 65536) :: u32) + (if 0 < n mod 65536 then 1 else 0) = of_nat (frame_blocks n)"
    by (simp add: frame_blocks_def)
  have "frame_blocks n < 2 ^ 32" using small by (simp add: frame_blocks_def)
  note casts = of_nat_casts(1) [of "n div 65536"] of_nat_casts(2) [of "n div 65536"] of_nat_casts(2) [OF this]
  have "LZ4F_compressBound_internal (of_nat n) (Some prefs) 0 =
      4 * of_nat (frame_blocks n) + 65536 * of_nat (n div 65536) + of_nat (n mod 65536) + 4"
    using assms(1-4) small
    by (simp add: LZ4F_compressBound_internal_def Let_def full of_nat_and_65535 casts rest blocks min_def del: word_gt_0 mod_greater_zero_iff_not_dvd)
  also have "\<dots> = of_nat (4 * frame_blocks n + (65536 * (n div 65536) + n mod 65536) + 4)"
    by (simp only: of_nat_add of_nat_mult of_nat_numeral add.assoc)
  also have "\<dots> = of_nat (4 * frame_blocks n + n + 4)" by (simp only: mult_div_mod_eq)
  finally show ?thesis .
qed

lemma compressBound_fits:
  assumes "block_size_of (blockSizeID (p_frameInfo prefs)) = 65536" "\<not> blockChecksumFlag (p_frameInfo prefs)"
    "\<not> contentChecksumFlag (p_frameInfo prefs)" "p_autoFlush prefs" "n < 2 ^ 47"
  shows "unat (LZ4F_compressBound_internal (of_nat n) (Some prefs) 0) = 4 * frame_blocks n + n + 4"
    "unat (of_nat 19 + LZ4F_compressBound_internal (of_nat n) (Some prefs) 0) = 4 * frame_blocks n + n + 23"
proof -
  have "frame_blocks n \<le> n" by (cases "n = 0") (auto simp: frame_blocks_def)
  then have small: "4 * frame_blocks n + n + 23 < 2 ^ 64" using assms(5) by simp
  have "(of_nat 19 :: u64) + of_nat (4 * frame_blocks n + n + 4) = of_nat (4 * frame_blocks n + n + 23)"
    by simp
  with small show "unat (LZ4F_compressBound_internal (of_nat n) (Some prefs) 0) = 4 * frame_blocks n + n + 4"
    "unat (of_nat 19 + LZ4F_compressBound_internal (of_nat n) (Some prefs) 0) = 4 * frame_blocks n + n + 23"
    unfolding compressBound_value [OF assms] by (simp_all only: unat_u64)
qed

section \<open>The input of a frame\<close>

lemma compressUpdate_ok:
  assumes C: "cc_cStage C = 1" "cc_maxBlockSize C = 65536" "cc_tmpInSize C = 0" "p_autoFlush (cc_prefs C)"
      "plain_info (p_frameInfo (cc_prefs C))"
      "stream_fits (blockMode (p_frameInfo (cc_prefs C))) (cc_stream C) []"
      "blockMode (p_frameInfo (cc_prefs C)) = LZ4F_blockLinked \<or> length src \<le> 65536"
    and room: "length src < 2 ^ 47" "length dst < 2 ^ 64" "p + (4 * frame_blocks (length src) + length src + 4) \<le> length dst"
  shows "\<exists>C' dst' n bs. LZ4F_compressUpdate C p dst src = Inr (C', dst', Inr n) \<and> length dst' = length dst \<and>
    n \<le> 4 * frame_blocks (length src) + length src \<and> take (p + n) dst' = take p dst @ bs \<and>
    linked_blocks [] src bs \<and> cc_prefs C' = cc_prefs C"
proof -
  let ?info = "p_frameInfo (cc_prefs C)"
  have info: "block_size_of (blockSizeID ?info) = 65536" "\<not> blockChecksumFlag ?info" "\<not> contentChecksumFlag ?info"
    using C(5) by (simp_all add: plain_info_def)
  have "unat (of_nat (length dst - p) :: u64) = length dst - p"
    using room(2) by (intro unat_u64) simp
  then have bound: "\<not> of_nat (length dst - p) < LZ4F_compressBound_internal (of_nat (length src)) (Some (cc_prefs C)) 0"
    using compressBound_fits(1) [OF info C(4) room(1)] room(3) by (simp add: word_less_nat_alt)
  have nb: "length src div 65536 \<le> frame_blocks (length src)" by (simp add: frame_blocks_def)
  have fit: "p + 4 * (length src div 65536) + length src \<le> length dst" using room(3) nb by simp
  obtain C1 q d1 hist r where full: "full_blocks (length src + 1) C p dst [] src = Inr (C1, q, d1, hist, r)"
    "blocks_made C p dst [] src (C1, q, d1, hist, r)"
    using full_blocks_ok [OF C(6,7) info(2) C(2) fit, of "length src + 1"] by (metis less_add_one prod_cases5)
  obtain st bs where made: "C1 = C\<lparr>cc_stream := st\<rparr>" "length r = length src mod 65536" "length d1 = length dst"
    "q + length r \<le> p + 4 * (length src div 65536) + length src" "take q d1 = take p dst @ bs"
    "r \<noteq> [] \<longrightarrow> stream_fits (blockMode ?info) st hist" "\<forall>b. linked_blocks hist r b \<longrightarrow> linked_blocks [] src (bs @ b)"
    using full(2) unfolding blocks_made_def prod.case by blast
  have run: "LZ4F_compressUpdate C p dst src =
      bindR (if r \<noteq> [] then make_block C1 q d1 hist r else Inr (C1, q, d1)) (\<lambda>(C, q, dst).
        Inr (C\<lparr>cc_xxh := (if contentChecksumFlag (p_frameInfo (cc_prefs C)) then XXH32_update (cc_xxh C) src
          else cc_xxh C), cc_totalInSize := cc_totalInSize C + of_nat (length src)\<rparr>, dst, Inr (q - p)))"
    using C(1,3) bound full(1) by (simp add: LZ4F_compressUpdate_def)
  have behind: "p + length bs = k" if "take k d = take p dst @ bs" "k \<le> length d" "p \<le> length dst" for k bs and d :: bytes
    using arg_cong [OF that(1), of length] that(2,3) by (simp add: min_def split: if_splits)
  have p: "p \<le> length dst" using room(3) by simp
  show ?thesis
  proof (cases "r = []")
    case True
    then have "linked_blocks [] src bs" using made(7) no_block [of hist] by fastforce
    moreover have "p + length bs = q" using behind [OF made(5) _ p] made(3,4) fit by simp
    ultimately show ?thesis
      using True run made(1,3-5) nb by (auto intro!: exI [of _ d1] exI [of _ "length bs"] exI [of _ bs])
  next
    case False
    let ?i = "p_frameInfo (cc_prefs C1)"
    have i: "?i = ?info" "cc_stream C1 = st" using made(1) by simp_all
    have last: "frame_blocks (length src) = length src div 65536 + 1"
    proof -
      have "length src mod 65536 \<noteq> 0" using False made(2) by (metis length_0_conv)
      then show ?thesis by (simp add: frame_blocks_def)
    qed
    have one: "length r \<le> 65536" "q + 4 + length r \<le> length d1"
      using made(2,3,4) room(3) last mod_less_divisor [of 65536 "length src"] by simp_all
    obtain st' d2 k b where b: "make_block C1 q d1 hist r = Inr (C1\<lparr>cc_stream := st'\<rparr>, k, d2)"
      "k \<le> q + 4 + length r" "length d2 = length d1" "take k d2 = take q d1 @ b" "coded hist r b"
      using make_block_ok [of C1 hist r q d1] made(6) i info(2) False one by auto
    have k: "take k d2 = take p dst @ (bs @ b)" using b(4) made(5) by simp
    have "p + length (bs @ b) = k" using behind [OF k _ p] b(2,3) one(2) by simp
    moreover have "linked_blocks [] src (bs @ b)" using made(7) last_block [OF b(5)] by blast
    moreover have "k \<le> p + 4 * frame_blocks (length src) + length src" using b(2) made(4) last by simp
    ultimately show ?thesis
      using False run made(1,3) b(1,3) k by (auto intro!: exI [of _ d2] exI [of _ "length (bs @ b)"] exI [of _ "bs @ b"])
  qed
qed

section \<open>The frame\<close>

lemma compressBegin_ok:
  assumes "cc_lz4CtxAlloc C = 1" "cc_lz4CtxState C = 1" "64 * 2 ^ 10 \<le> cc_maxBufferSize C" "cc_stream C = LZ4_initStream"
    "p_autoFlush prefs" "plain_info (p_frameInfo prefs \<lparr>blockSizeID := 4\<rparr>)" "blockSizeID (p_frameInfo prefs) = 0"
    "19 \<le> length dst"
  shows "\<exists>C' dst'. LZ4F_compressBegin_usingCDict mem C 0 dst (Some prefs) = Inr (C', dst', Inr 7) \<and>
    length dst' = length dst \<and> take 7 dst' = frame_header (p_frameInfo prefs \<lparr>blockSizeID := 4\<rparr>) \<and>
    cc_cStage C' = 1 \<and> cc_maxBlockSize C' = 65536 \<and> cc_tmpInSize C' = 0 \<and>
    cc_prefs C' = prefs\<lparr>p_frameInfo := p_frameInfo prefs \<lparr>blockSizeID := 4\<rparr>\<rparr> \<and> cc_stream C' = LZ4_initStream"
proof -
  let ?info = "p_frameInfo prefs \<lparr>blockSizeID := 4\<rparr>"
  have len: "length (frame_header ?info) = 7"
    using assms(6) by (simp add: frame_header_def frame_descriptor_def plain_info_def)
  define dst' where "dst' = put_at 0 (frame_header ?info) dst"
  have "0 + length (frame_header ?info) \<le> length dst" using len assms(8) by simp
  from take_put_at_all [OF this] this len have dst': "poke 0 (frame_header ?info) dst = Inr dst'"
    "length dst' = length dst" "take 7 dst' = frame_header ?info"
    by (simp_all add: dst'_def poke_ok)
  have reset: "LZ4F_initStream level mode LZ4_initStream = LZ4_initStream" for level mode
    by (simp add: LZ4F_initStream_def LZ4_resetStream_fast_def)
  have "\<not> cc_maxBufferSize C < (if blockMode (p_frameInfo prefs) = LZ4F_blockLinked then 64 * 2 ^ 10 else 0)"
    using assms(3) by (simp add: not_less)
  then show ?thesis
    using assms(1,2,4,5,7,8) len dst' reset
    by (simp add: LZ4F_compressBegin_usingCDict_def prepare_stream_def prepare_buffer_def Let_def)
qed

lemma compressEnd_ok:
  assumes "plain_info (p_frameInfo (cc_prefs C))" "p + 4 \<le> length dst"
  shows "\<exists>C' dst'. LZ4F_compressEnd C p dst = Inr (C', dst', Inr 4) \<and> length dst' = length dst \<and>
    take (p + 4) dst' = take p dst @ LZ4F_writeLE32 0"
proof -
  have room: "p + length (LZ4F_writeLE32 0) \<le> length dst" using assms(2) by simp
  from take_put_at_all [OF room] have "take (p + 4) (put_at p (LZ4F_writeLE32 0) dst) = take p dst @ LZ4F_writeLE32 0"
    by simp
  moreover have "poke p (LZ4F_writeLE32 0) dst = Inr (put_at p (LZ4F_writeLE32 0) dst)" using room by (rule poke_ok)
  ultimately show ?thesis
    using assms room by (simp add: LZ4F_compressEnd_def plain_info_def Let_def)
qed

lemma optimalBSID_0: "LZ4F_optimalBSID 0 n = 0"
  by (simp add: LZ4F_optimalBSID_def optimalBSID_loop.simps)

lemma compressFrameBound_value:
  assumes "n < 2 ^ 47"
  shows "unat (LZ4F_compressFrameBound (of_nat n) None) = 4 * frame_blocks n + n + 23"
    "p_frameInfo prefs = frameInfo_zero\<lparr>blockMode := mode\<rparr> \<Longrightarrow>
      unat (LZ4F_compressFrameBound (of_nat n) (Some prefs)) = 4 * frame_blocks n + n + 23"
  using compressBound_fits(2) [of "prefs_zero\<lparr>p_autoFlush := True\<rparr>" n]
    compressBound_fits(2) [of "prefs\<lparr>p_autoFlush := True\<rparr>" n] assms
  by (simp_all add: LZ4F_compressFrameBound_def prefs_zero_def frameInfo_zero_def)

lemma compressFrame_ok:
  assumes "length src < 2 ^ 47" "length dst < 2 ^ 64"
    "unat (LZ4F_compressFrameBound (of_nat (length src)) None) \<le> length dst"
  shows "\<exists>dst' n. LZ4F_compressFrame dst src None = Inr (dst', Inr n) \<and> length dst' = length dst \<and>
    n \<le> unat (LZ4F_compressFrameBound (of_nat (length src)) None) \<and> frame_of src (take n dst')"
proof -
  define C where "C = (cctx_zero LZ4F_VERSION)\<lparr>cc_maxBufferSize := 5 * 2 ^ 20, cc_stream := LZ4_initStream,
    cc_lz4CtxAlloc := 1, cc_lz4CtxState := 1\<rparr>"
  define mode where "mode = (if (of_nat (length src) :: u64) \<le> 65536 then LZ4F_blockIndependent else LZ4F_blockLinked)"
  define prefs where "prefs = prefs_zero\<lparr>p_frameInfo := frameInfo_zero\<lparr>blockMode := mode\<rparr>, p_autoFlush := True\<rparr>"
  let ?info = "frameInfo_zero\<lparr>blockMode := mode, blockSizeID := 4\<rparr>"
  let ?n = "length src"
  have n: "unat (of_nat ?n :: u64) = ?n" using assms(1) by (intro unat_u64) simp
  have mode: "mode = LZ4F_blockLinked \<or> ?n \<le> 65536" using n by (auto simp: mode_def word_le_nat_alt)
  have room: "4 * frame_blocks ?n + ?n + 23 \<le> length dst" using assms(3) compressFrameBound_value(1) [OF assms(1)] by simp
  have "unat (of_nat (length dst) :: u64) = length dst" using assms(2) by (rule unat_u64)
  then have fits: "\<not> of_nat (length dst) < LZ4F_compressFrameBound (of_nat ?n) (Some prefs)"
    using compressFrameBound_value(2) [OF assms(1), of prefs mode] room
    by (simp add: prefs_def word_less_nat_alt)
  have run: "LZ4F_compressFrame dst src None =
      bindR (then_at (LZ4F_compressBegin_usingCDict (\<lambda>_. False) C 0 dst (Some prefs)) 0 (\<lambda>C p dst.
        then_at (LZ4F_compressUpdate C p dst src) p (\<lambda>C p dst.
        then_at (LZ4F_compressEnd C p dst) p (\<lambda>C p dst. Inr (C, dst, Inr p))))) (\<lambda>(C, dst, n). Inr (dst, n))"
  proof -
    define info where "info = (let i = frameInfo_zero\<lparr>blockSizeID := LZ4F_optimalBSID 0 (of_nat ?n)\<rparr>
      in if (of_nat ?n :: u64) \<le> block_size_of (blockSizeID i) then i\<lparr>blockMode := LZ4F_blockIndependent\<rparr> else i)"
    have "info = frameInfo_zero\<lparr>blockMode := mode\<rparr>"
      by (simp add: info_def mode_def optimalBSID_0 frameInfo_zero_def)
    then have p: "prefs_zero\<lparr>p_frameInfo := info, p_autoFlush := True\<rparr> = prefs" by (simp add: prefs_def)
    have "LZ4F_compressFrame dst src None =
        bindR (let prefs = prefs_zero\<lparr>p_frameInfo := info, p_autoFlush := True\<rparr>
          in if of_nat (length dst) < LZ4F_compressFrameBound (of_nat ?n) (Some prefs)
             then Inr (C, dst, Inl LZ4F_ERROR_dstMaxSize_tooSmall)
             else then_at (LZ4F_compressBegin_usingCDict (\<lambda>_. False) C 0 dst (Some prefs)) 0 (\<lambda>C p dst.
               then_at (LZ4F_compressUpdate C p dst src) p (\<lambda>C p dst.
               then_at (LZ4F_compressEnd C p dst) p (\<lambda>C p dst. Inr (C, dst, Inr p)))))
          (\<lambda>(C, dst, n). Inr (dst, n))"
      unfolding LZ4F_compressFrame_def LZ4F_compressFrame_usingCDict_def C_def [symmetric] info_def Let_def
      by (simp add: prefs_zero_def frameInfo_zero_def)
    then show ?thesis unfolding Let_def p if_not_P [OF fits] .
  qed
  have "plain_info ?info" by (simp add: plain_info_def frameInfo_zero_def)
  obtain C1 d1 where b: "LZ4F_compressBegin_usingCDict (\<lambda>_. False) C 0 dst (Some prefs) = Inr (C1, d1, Inr 7)"
    "length d1 = length dst" "take 7 d1 = frame_header ?info" "cc_cStage C1 = 1" "cc_maxBlockSize C1 = 65536"
    "cc_tmpInSize C1 = 0" "cc_prefs C1 = prefs\<lparr>p_frameInfo := ?info\<rparr>" "cc_stream C1 = LZ4_initStream"
    using compressBegin_ok [of C prefs dst "\<lambda>_. False"] room
    by (auto simp: C_def cctx_zero_def prefs_def plain_info_def frameInfo_zero_def)
  have info1: "p_frameInfo (cc_prefs C1) = ?info" "p_autoFlush (cc_prefs C1)" using b(7) by (simp_all add: prefs_def)
  have "stream_fits (blockMode (p_frameInfo (cc_prefs C1))) (cc_stream C1) []"
    using b(8) has_seen_initStream by (simp add: stream_fits_def)
  then obtain C2 d2 k bs where u: "LZ4F_compressUpdate C1 7 d1 src = Inr (C2, d2, Inr k)" "length d2 = length d1"
    "k \<le> 4 * frame_blocks ?n + ?n" "take (7 + k) d2 = take 7 d1 @ bs" "linked_blocks [] src bs" "cc_prefs C2 = cc_prefs C1"
    using compressUpdate_ok [of C1 src d1 7] b(2,4-6) info1 mode assms(1,2) room \<open>plain_info ?info\<close> by auto
  obtain C3 d3 where e: "LZ4F_compressEnd C2 (7 + k) d2 = Inr (C3, d3, Inr 4)" "length d3 = length d2"
    "take (7 + k + 4) d3 = take (7 + k) d2 @ LZ4F_writeLE32 0"
    using compressEnd_ok [of C2 "7 + k" d2] u(2,3,6) b(2) info1 room \<open>plain_info ?info\<close> by auto
  have "frame_of src (take (7 + k + 4) d3)"
    unfolding frame_of_def e(3) u(4) b(3)
    using u(5) mode \<open>plain_info ?info\<close> by (auto intro!: exI [of _ ?info] exI [of _ bs])
  moreover have "LZ4F_compressFrame dst src None = Inr (d3, Inr (7 + k + 4))"
    unfolding run by (simp add: then_at_def b(1) u(1) e(1))
  ultimately show ?thesis
    using b(2) u(2,3) e(2) compressFrameBound_value(1) [OF assms(1)] by auto
qed

end
