(* ===== verification/Lz4FrameClient.thy ===== *)
theory Lz4FrameClient
  imports Lz4FrameProgress Lz4FrameEncode Lz4Codec
begin

text \<open>
  The interface between \<open>boot_crypto.cpp\<close> and the frame functions of LZ4: a locale with what the loop of
  \<open>lz4f_decompress\<close> relies on, interpreted on the model of \<open>LZ4F_decompress\<close>, and the calls of both
  directions.
\<close>

section \<open>Progress of a call\<close>

lemma preserve_history_keeps:
  "okR (\<lambda>D'. frame_rank D' = frame_rank D \<and> flush_left D' = flush_left D) (preserve_history D dst)"
  unfolding preserve_history_def Let_def
  by (auto intro!: okR_intros simp: frame_rank_def flush_left_def)

lemma LZ4F_decompress_progress:
  assumes "args_alloc A" "dctx_ok D 0" "\<not> fr_null A" "fr_src A \<noteq> []" "dst \<noteq> []"
    "Lz4FrameDecode.LZ4F_decompress A D dst = Inr r" "res_code r = Inr h" "h \<noteq> 0"
  shows "0 < res_src_size r \<or> frame_rank (res_dctx r) < frame_rank D \<or>
    frame_rank (res_dctx r) = frame_rank D \<and> flush_left (res_dctx r) < flush_left D"
proof -
  let ?s = "\<lparr>io_dctx = D, src_pos = 0, io_dst = dst, dst_pos = 0\<rparr>"
  have "frame_ok A (length dst) ?s" using assms(2,3) by (auto simp: frame_ok_def io_ok_def)
  note loop = frame_loop_progress [OF assms(1) this]
  from assms(6,7) obtain s D' where s: "frame_loop A ?s = Inr (s, Inr h)"
    "preserve_history (io_dctx s) (io_dst s) = Inr D'" "res_dctx r = D'" "res_src_size r = src_pos s"
    by (auto simp: Lz4FrameDecode.LZ4F_decompress_def split: sum.splits)
  have "progress A ?s s"
    using okRD [OF loop s(1)] assms(4,8) by (simp add: src_left_def)
  then have "moved A ?s s" using assms(5) by (simp add: progress_def dst_left_def)
  moreover have "frame_rank D' = frame_rank (io_dctx s)" "flush_left D' = flush_left (io_dctx s)"
    using okRD [OF preserve_history_keeps s(2)] by simp_all
  ultimately show ?thesis
    using s(3,4) assms(4) by (auto simp: moved_def src_left_def)
qed

section \<open>The interface\<close>

text \<open>
  One call: the hint, or none for an error; the state of the decoder; how much input it took; and its
  output. \<open>rank\<close> and \<open>pending\<close> bound how often it may be called without taking input.
\<close>

locale frame_decoder =
  fixes decode :: "'d \<Rightarrow> bytes \<Rightarrow> nat \<Rightarrow> nat option \<times> 'd \<times> nat \<times> bytes"
    and ok :: "'d \<Rightarrow> bool"
    and rank :: "'d \<Rightarrow> nat"
    and pending :: "'d \<Rightarrow> nat"
  assumes decode_ok: "ok d \<Longrightarrow> decode d src OUT_BUF = (Some h, d', used, out) \<Longrightarrow> ok d' \<and> length out \<le> OUT_BUF"
    and decode_progress: "ok d \<Longrightarrow> src \<noteq> [] \<Longrightarrow> decode d src OUT_BUF = (Some h, d', used, out) \<Longrightarrow> h \<noteq> 0 \<Longrightarrow>
      0 < used \<or> rank d' < rank d \<or> rank d' = rank d \<and> pending d' < pending d"
begin

lemma loop_returns:
  assumes "libs.LZ4F_decompress L = decode" "ok d"
  shows "\<exists>x g. lz4f_loop L d src f = Some (x, g) \<and> (x = Inr () \<or> (\<exists>m. x = Inl (Throw m)))"
  using assms(2)
proof (induction "(d, src)" arbitrary: d src f
    rule: wf_induct_rule [OF wf_measures [of "[\<lambda>(d, src). length src, \<lambda>(d, src). rank d, \<lambda>(d, src). pending d]"]])
  case (1 d src f)
  show ?case
  proof (cases "src = []")
    case False
    obtain n d' used out where call: "decode d src OUT_BUF = (n, d', used, out)"
      using prod_cases4 by blast
    obtain okay f' where wr: "write_out out f = (okay, f')" by fastforce
    note unfold = lz4f_loop.simps [of L d src f]
    show ?thesis
    proof (cases "n = None \<or> n = Some 0 \<or> \<not> okay")
      case True
      then show ?thesis
        using False call wr assms(1) by (subst unfold) (auto split: option.split)
    next
      case again: False
      then obtain h where h: "n = Some h" "h \<noteq> 0" by auto
      have "ok d'" "0 < used \<or> rank d' < rank d \<or> rank d' = rank d \<and> pending d' < pending d"
        using decode_ok [OF 1(2)] decode_progress [OF 1(2) False] call h by auto
      then have "\<exists>x g. lz4f_loop L d' (drop used src) f' = Some (x, g) \<and> (x = Inr () \<or> (\<exists>m. x = Inl (Throw m)))"
        using False by (intro 1(1)) (auto simp: not_less)
      then show ?thesis
        using False again h call wr assms(1) by (subst unfold) simp
    qed
  qed (auto simp: lz4f_loop.simps)
qed

lemma decompress_returns:
  assumes "libs.LZ4F_decompress L = decode" "LZ4F_createDecompressionContext L = Some d" "ok d"
  shows "\<exists>x g. lz4f_decompress L inp f = (x, g) \<and> (x = Inr () \<or> (\<exists>m. x = Inl (Throw m)))"
  using loop_returns [OF assms(1,3), of inp f] assms(2)
  by (auto simp: lz4f_decompress_def returns_or_diverges_def)

end

section \<open>The library provides it\<close>

text \<open>
  The state of the loop: the context and \<open>out_buf\<close>, which each call overwrites from its start.
\<close>

type_synonym frame_state = "LZ4F_dctx \<times> bytes"

definition frame_call ::
    "bool \<Rightarrow> (nat \<Rightarrow> bytes option) \<Rightarrow> frame_state \<Rightarrow> bytes \<Rightarrow> nat \<Rightarrow> nat option \<times> frame_state \<times> nat \<times> bytes" where
  "frame_call fl alloc st src n =
     (case Lz4FrameDecode.LZ4F_decompress \<lparr>fr_src = src, fr_null = False, fr_fast = fl, fr_alloc = alloc\<rparr> (fst st) (snd st) of
        Inl e \<Rightarrow> (None, st, 0, [])
      | Inr r \<Rightarrow>
          (case res_code r of Inl e \<Rightarrow> None | Inr hint \<Rightarrow> Some hint, (res_dctx r, res_dst r), res_src_size r,
           take (res_dst_size r) (res_dst r)))"

definition frame_compress_call :: "bytes \<Rightarrow> bytes option" where
  "frame_compress_call src =
     (let bound = LZ4F_compressFrameBound (of_nat (length src)) None
      in case Lz4FrameCompress.LZ4F_compressFrame (replicate (unat bound) 0) src None of
           Inl e \<Rightarrow> None
         | Inr (buf, r) \<Rightarrow>
             (let n = size_or_error r in if LZ4F_isError n then None else Some (take (unat n) buf)))"

definition with_lz4f :: "bool \<Rightarrow> (nat \<Rightarrow> bytes option) \<Rightarrow> ('z, frame_state) libs \<Rightarrow> ('z, frame_state) libs" where
  "with_lz4f fl alloc L =
     L\<lparr>libs.LZ4F_compressFrame := frame_compress_call,
       libs.LZ4F_createDecompressionContext :=
         Some (Lz4Frame.LZ4F_createDecompressionContext LZ4F_VERSION, replicate OUT_BUF 0),
       libs.LZ4F_decompress := frame_call fl alloc\<rparr>"

text \<open>Memory of the size that was asked for, or none.\<close>

definition allocates :: "(nat \<Rightarrow> bytes option) \<Rightarrow> bool" where
  "allocates alloc \<longleftrightarrow> (\<forall>n b. alloc n = Some b \<longrightarrow> length b = n)"

fun state_ok :: "frame_state \<Rightarrow> bool" where
  "state_ok (D, buf) \<longleftrightarrow> dctx_ok D 0 \<and> length buf = OUT_BUF"

text \<open>A decoder that is never called would satisfy the laws; this one keeps its memory.\<close>

lemma frame_call_safe:
  assumes "allocates alloc" "state_ok st"
  shows "returnsR (\<lambda>r. \<exists>h. frame_call fl alloc st src OUT_BUF = (h, (res_dctx r, res_dst r), res_src_size r,
        take (res_dst_size r) (res_dst r)) \<and> (h \<noteq> None \<longrightarrow> state_ok (res_dctx r, res_dst r)) \<and>
        res_dst_size r \<le> OUT_BUF \<and> res_src_size r \<le> length src \<and>
        h = (case res_code r of Inl e \<Rightarrow> None | Inr hint \<Rightarrow> Some hint))
     (Lz4FrameDecode.LZ4F_decompress \<lparr>fr_src = src, fr_null = False, fr_fast = fl, fr_alloc = alloc\<rparr> (fst st) (snd st))"
proof -
  obtain D buf where st: "st = (D, buf)" "dctx_ok D 0" "length buf = OUT_BUF"
    using assms(2) by (cases st) auto
  let ?A = "\<lparr>fr_src = src, fr_null = False, fr_fast = fl, fr_alloc = alloc\<rparr>"
  have "args_alloc ?A" using assms(1) by (simp add: args_alloc_def allocates_def)
  from LZ4F_decompress_safe [OF this st(2), of buf] show ?thesis
    using st by (auto simp: returnsR_def frame_call_def split: sum.splits)
qed

interpretation lz4f: frame_decoder "frame_call fl alloc" "\<lambda>st. allocates alloc \<and> state_ok st"
    "\<lambda>st. frame_rank (fst st)" "\<lambda>st. flush_left (fst st)" for fl alloc
proof
  fix d d' src h used out
  assume d: "allocates alloc \<and> state_ok d" and call: "frame_call fl alloc d src OUT_BUF = (Some h, d', used, out)"
  let ?A = "\<lparr>fr_src = src, fr_null = False, fr_fast = fl, fr_alloc = alloc\<rparr>"
  from frame_call_safe [of alloc d fl src] d call obtain r where r: "Lz4FrameDecode.LZ4F_decompress ?A (fst d) (snd d) = Inr r"
    "d' = (res_dctx r, res_dst r)" "state_ok d'" "used = res_src_size r" "out = take (res_dst_size r) (res_dst r)"
    "res_dst_size r \<le> OUT_BUF" "Some h = (case res_code r of Inl e \<Rightarrow> None | Inr hint \<Rightarrow> Some hint)"
    unfolding returnsR_def by auto
  show "(allocates alloc \<and> state_ok d') \<and> length out \<le> OUT_BUF" using d r by auto
  have code: "res_code r = Inr h" using r(7) by (simp split: sum.splits)
  have "args_alloc ?A" "dctx_ok (fst d) 0" "snd d \<noteq> []"
    using d by (cases d; auto simp: args_alloc_def allocates_def OUT_BUF_def)+
  then show "0 < used \<or> frame_rank (fst d') < frame_rank (fst d) \<or>
      frame_rank (fst d') = frame_rank (fst d) \<and> flush_left (fst d') < flush_left (fst d)"
    if "src \<noteq> []" "h \<noteq> 0"
    using LZ4F_decompress_progress [of ?A "fst d" "snd d" r h] that r code by simp
qed

lemma created_ok: "state_ok (Lz4Frame.LZ4F_createDecompressionContext v, replicate OUT_BUF 0)"
  using reachable_dctx_ok [OF reachable.created] by simp

lemma real_decoder_returns:
  assumes "allocates alloc"
  shows "\<exists>x g. lz4f_decompress (with_lz4f fl alloc L) inp f = (x, g) \<and> (x = Inr () \<or> (\<exists>m. x = Inl (Throw m)))"
proof (rule lz4f.decompress_returns [where fl = fl and alloc = alloc])
  show "allocates alloc \<and> state_ok (Lz4Frame.LZ4F_createDecompressionContext LZ4F_VERSION, replicate OUT_BUF 0)"
    using assms created_ok by blast
qed (simp_all add: with_lz4f_def)

end
