(* ===== verification/Lz4FrameRoundtrip.thy ===== *)
theory Lz4FrameRoundtrip
  imports Lz4FrameClient Lz4History
begin

text \<open>
  \<open>lz4f_decompress\<close> turns every frame of \<open>Lz4FrameFormat\<close> back into what it stands for. Its destination
  has the size of a block: a call decodes one block, stops at the next and keeps the block as history.
\<close>

section \<open>Block headers\<close>

lemma readLE32_le32: "LZ4F_readLE32 b = le32 b"
proof -
  let ?x = "\<lambda>i. ucast (b ! i) :: u32"
  have small: "\<not> bit (?x i) n" if "8 \<le> n" for i n
    using that by (auto simp: bit_simps dest: bit_imp_le_length)
  have "?x 0 + push_bit 8 (?x 1) = ?x 0 OR push_bit 8 (?x 1)"
    by (rule disjunctive_add) (auto simp: bit_push_bit_iff not_less small)
  moreover have "\<dots> + push_bit 16 (?x 2) = \<dots> OR push_bit 16 (?x 2)"
    by (rule disjunctive_add) (auto simp: bit_push_bit_iff bit_or_iff small)
  moreover have "\<dots> + push_bit 24 (?x 3) = \<dots> OR push_bit 24 (?x 3)"
    by (rule disjunctive_add) (auto simp: bit_push_bit_iff bit_or_iff small)
  ultimately show ?thesis by (simp only: LZ4F_readLE32_def le32_def or.assoc)
qed

lemma writeLE32_le32: "LZ4F_writeLE32 v = le32_bytes v"
  by (simp add: LZ4F_writeLE32_def le32_bytes_def)

lemma read_write_LE32: "LZ4F_readLE32 (LZ4F_writeLE32 v) = v"
  by (simp add: readLE32_le32 writeLE32_le32)

text \<open>What a block header says: its value, and the bytes behind it.\<close>

definition header_of :: "u32 \<Rightarrow> nat \<Rightarrow> bool \<Rightarrow> bool" where
  "header_of h n rw \<longleftrightarrow> h \<noteq> 0 \<and> unat (h AND 0x7FFFFFFF) = n \<and> (h AND LZ4F_BLOCKUNCOMPRESSED_FLAG \<noteq> 0) = rw"

lemma small_u32:
  assumes "n \<le> 65536"
  shows "unat (of_nat n :: u32) = n" "(of_nat n :: u32) AND 0x7FFFFFFF = of_nat n"
    "(of_nat n :: u32) AND LZ4F_BLOCKUNCOMPRESSED_FLAG = 0"
proof -
  show "unat (of_nat n :: u32) = n" using assms by (simp add: unsigned_of_nat take_bit_nat_eq_self)
  have "take_bit 31 (of_nat n :: u32) = of_nat n"
    using assms by (simp add: take_bit_of_nat take_bit_nat_eq_self)
  then show mask: "(of_nat n :: u32) AND 0x7FFFFFFF = of_nat n"
    by (simp add: take_bit_eq_mask mask_eq_exp_minus_1)
  have none: "(0x7FFFFFFF :: u32) AND LZ4F_BLOCKUNCOMPRESSED_FLAG = 0" by (simp add: LZ4F_BLOCKUNCOMPRESSED_FLAG_def)
  have "(of_nat n :: u32) AND LZ4F_BLOCKUNCOMPRESSED_FLAG =
      ((of_nat n :: u32) AND 0x7FFFFFFF) AND LZ4F_BLOCKUNCOMPRESSED_FLAG"
    by (simp only: mask)
  also have "\<dots> = of_nat n AND (0x7FFFFFFF AND LZ4F_BLOCKUNCOMPRESSED_FLAG)" by (rule and.assoc)
  also have "\<dots> = 0" unfolding none by (rule and_zero_eq)
  finally show "(of_nat n :: u32) AND LZ4F_BLOCKUNCOMPRESSED_FLAG = 0" .
qed

lemma header_of_coded: "0 < n \<Longrightarrow> n \<le> 65536 \<Longrightarrow> header_of (of_nat n) n False"
proof -
  assume n: "0 < n" "n \<le> 65536"
  then have "(of_nat n :: u32) \<noteq> 0" using small_u32(1) [OF n(2)] by (metis less_not_refl unsigned_0)
  then show ?thesis
    unfolding header_of_def small_u32(2,3) [OF n(2)] small_u32(1) [OF n(2)] by simp
qed

lemma header_of_raw:
  assumes "n \<le> 65536"
  shows "header_of (of_nat n OR LZ4F_BLOCKUNCOMPRESSED_FLAG) n True"
proof -
  let ?F = LZ4F_BLOCKUNCOMPRESSED_FLAG
  have "?F AND 0x7FFFFFFF = 0" by (simp add: LZ4F_BLOCKUNCOMPRESSED_FLAG_def)
  then have "(of_nat n OR ?F) AND 0x7FFFFFFF = of_nat n"
    using small_u32(2) [OF assms] by (simp add: bit.conj_disj_distrib2)
  moreover have "(of_nat n OR ?F) AND ?F = ?F"
    using small_u32(3) [OF assms] by (simp add: bit.conj_disj_distrib2)
  moreover have "?F \<noteq> 0" by (simp add: LZ4F_BLOCKUNCOMPRESSED_FLAG_def)
  ultimately show ?thesis
    using small_u32(1) [OF assms] unfolding header_of_def by (metis and_zero_eq zero_and_eq)
qed

lemma coded_cases:
  assumes "coded hist c b"
  obtains h pay rw where "b = LZ4F_writeLE32 h @ pay" "header_of h (length pay) rw" "pay \<noteq> []" "length pay \<le> 65536"
    "c \<noteq> []" "length c \<le> 65536" "if rw then pay = c else block_on hist c pay"
  using assms header_of_raw [of "length c"] header_of_coded unfolding coded_def
  by (elim conjE disjE exE) (fastforce+)

section \<open>The context between calls\<close>

definition plain_ctx :: "LZ4F_dctx \<Rightarrow> bool" where
  "plain_ctx D \<longleftrightarrow> \<not> contentChecksumFlag (frameInfo D) \<and> \<not> blockChecksumFlag (frameInfo D) \<and>
     contentSize (frameInfo D) = 0 \<and> frameRemainingSize D = 0 \<and> maxBlockSize D = 65536 \<and>
     (linked D \<longrightarrow> maxBufferSize D = 196608 \<and> length (tmpOutBuffer D) = 196608)"

text \<open>The history is empty, or its last 64 KB start \<open>tmpOutBuffer\<close>.\<close>

definition knows :: "LZ4F_dctx \<Rightarrow> bytes \<Rightarrow> bool" where
  "knows D hist \<longleftrightarrow> hist = [] \<and> dict D = DictNull \<and> dictSize D = 0 \<or>
     linked D \<and> dict D = InTmp 0 \<and> dictSize D = 65536 \<and> (\<exists>x. hist = x @ take 65536 (tmpOutBuffer D))"

text \<open>A block is expected: its bytes are \<open>pay\<close>, and it stands for \<open>c\<close>.\<close>

definition expects :: "LZ4F_dctx \<Rightarrow> bytes \<Rightarrow> bytes \<Rightarrow> bytes \<Rightarrow> bool" where
  "expects D hist c pay \<longleftrightarrow> plain_ctx D \<and> knows D hist \<and> c \<noteq> [] \<and> length c \<le> 65536 \<and> pay \<noteq> [] \<and>
     tmpInTarget D = length pay \<and>
     (dStage D = dstage_copyDirect \<and> pay = c \<or> dStage D = dstage_getCBlock \<and> block_on hist c pay)"

text \<open>The block is in the destination, and is the history when it is full.\<close>

definition got :: "LZ4F_dctx \<Rightarrow> LZ4F_dctx \<Rightarrow> nat \<Rightarrow> bool" where
  "got D D' n \<longleftrightarrow> plain_ctx D' \<and> linked D' = linked D \<and> dStage D' = dstage_getBlockHeader \<and>
     (linked D \<and> n = 65536 \<longrightarrow> dict D' = InDst 0 \<and> dictSize D' = 65536)"

lemma updateDict_block:
  assumes "knows D hist" "plain_ctx D" "linked D" "length dst = 65536" "0 < n" "n \<le> 65536"
  shows "\<exists>t d k. LZ4F_updateDict D dst 0 n False = Inr (D\<lparr>tmpOutBuffer := t, dict := d, dictSize := k\<rparr>) \<and>
    length t = length (tmpOutBuffer D) \<and> (n = 65536 \<longrightarrow> d = InDst 0 \<and> k = 65536)"
proof (cases "dictSize D = 0")
  case True
  then have "LZ4F_updateDict D dst 0 n False = Inr (D\<lparr>tmpOutBuffer := tmpOutBuffer D, dict := InDst 0, dictSize := n\<rparr>)"
    by (simp add: LZ4F_updateDict_def)
  then show ?thesis by blast
next
  case False
  then have D: "dict D = InTmp 0" "dictSize D = 65536" using assms(1) by (auto simp: knows_def)
  have buf: "maxBufferSize D = 196608" "length (tmpOutBuffer D) = 196608" using assms(2,3) by (simp_all add: plain_ctx_def)
  show ?thesis
  proof (cases "n = 65536")
    case True
    then have "LZ4F_updateDict D dst 0 n False = Inr (D\<lparr>tmpOutBuffer := tmpOutBuffer D, dict := InDst 0, dictSize := n\<rparr>)"
      using D by (simp add: LZ4F_updateDict_def)
    then show ?thesis using True by blast
  next
    case False
    define t where "t = put_at 65536 (view 0 n dst) (tmpOutBuffer D)"
    have "LZ4_memcpy (Some dst) 65536 0 n (tmpOutBuffer D) = Inr t" "length t = length (tmpOutBuffer D)"
      unfolding t_def using assms(4,6) buf(2) by (simp_all add: memcpy_from)
    then have "LZ4F_updateDict D dst 0 n False = Inr (D\<lparr>tmpOutBuffer := t, dict := InTmp 0, dictSize := 65536 + n\<rparr>)"
      "length t = length (tmpOutBuffer D)"
      using D buf False assms(6) by (simp_all add: LZ4F_updateDict_def)
    then show ?thesis using False by blast
  qed
qed

lemma update_history_block:
  assumes "knows (io_dctx s) hist" "plain_ctx (io_dctx s)" "length (io_dst s) = 65536" "dst_pos s = 0" "0 < n" "n \<le> 65536"
  shows "\<exists>t d k. update_history s n False =
      Inr (s\<lparr>io_dctx := (io_dctx s)\<lparr>tmpOutBuffer := t, dict := d, dictSize := k\<rparr>\<rparr>) \<and>
    length t = length (tmpOutBuffer (io_dctx s)) \<and> (linked (io_dctx s) \<and> n = 65536 \<longrightarrow> d = InDst 0 \<and> k = 65536)"
proof (cases "linked (io_dctx s)")
  case True
  obtain t d k where "LZ4F_updateDict (io_dctx s) (io_dst s) 0 n False =
      Inr ((io_dctx s)\<lparr>tmpOutBuffer := t, dict := d, dictSize := k\<rparr>)"
    "length t = length (tmpOutBuffer (io_dctx s))" "n = 65536 \<longrightarrow> d = InDst 0 \<and> k = 65536"
    using updateDict_block [OF assms(1,2) True assms(3,5,6)] by blast
  then show ?thesis
    using True assms(4) by (intro exI [of _ t] exI [of _ d] exI [of _ k]) (simp add: update_history_def)
next
  case False
  let ?D = "io_dctx s"
  have "update_history s n False =
      Inr (s\<lparr>io_dctx := ?D\<lparr>tmpOutBuffer := tmpOutBuffer ?D, dict := dict ?D, dictSize := dictSize ?D\<rparr>\<rparr>)"
    using False by (simp add: update_history_def)
  then show ?thesis using False by blast
qed

section \<open>One block\<close>

lemma decoded_block:
  assumes "knows D hist" "plain_ctx D" "length dst = 65536" "block_on hist c pay" "length c \<le> 65536"
  shows "\<exists>d m. block_dict D dst (InDst 0) 65536 = Inr d \<and> decode_at A pay d dst 0 65536 = Inr (int (length c), m) \<and>
    length m = 65536 \<and> take (length c) m = c"
proof -
  obtain n dct where d: "block_dict D dst (InDst 0) 65536 = Inr (n, dct)" "dict_holds hist dct n 0 dst" "n \<le> 65536"
  proof (cases "dictSize D = 0")
    case True
    then have "hist = []" "dict D = DictNull" using assms(1) by (auto simp: knows_def)
    then show ?thesis
      using True that [of 0 None] by (simp add: block_dict_def dict_holds_def)
  next
    case False
    then obtain x where D: "linked D" "dict D = InTmp 0" "dictSize D = 65536" "hist = x @ take 65536 (tmpOutBuffer D)"
      using assms(1) by (auto simp: knows_def)
    have len: "length (tmpOutBuffer D) = 196608" using D(1) assms(2) by (simp add: plain_ctx_def)
    then have "rd (tmpOutBuffer D) 0 65536 = Inr (take 65536 (tmpOutBuffer D))"
      by (simp add: view_def)
    then have "block_dict D dst (InDst 0) 65536 = Inr (65536, Some (take 65536 (tmpOutBuffer D)))"
      using D(2,3) by (simp add: block_dict_def)
    moreover have "dict_holds hist (Some (take 65536 (tmpOutBuffer D))) 65536 0 dst"
      unfolding dict_holds_def using D(4) len by (intro exI [of _ x] exI [of _ "take 65536 (tmpOutBuffer D)"]) simp
    ultimately show ?thesis using that by blast
  qed
  have "\<exists>m. LZ4_decompress_safe_usingDict (fr_fast A) pay n dct 0 dst = Inr (int (length c), m) \<and>
      length m = length dst \<and> take (0 + length c) m = take 0 dst @ c"
    using assms(3,5) d(3) by (intro usingDict_correct [OF assms(4) d(2)]) simp_all
  then show ?thesis using d(1) assms(3) by (auto simp: decode_at_def)
qed

lemma plain_note_decoded:
  "plain_ctx D \<Longrightarrow> note_decoded bs D = D\<lparr>xxh := xxh D, frameRemainingSize := frameRemainingSize D\<rparr>"
  by (simp add: plain_ctx_def note_decoded_def)

lemma knows_updates [simp]:
  "knows (D\<lparr>tmpInTarget := n\<rparr>) h = knows D h" "knows (D\<lparr>xxh := x, frameRemainingSize := r\<rparr>) h = knows D h"
  "knows (D\<lparr>dStage := st\<rparr>) h = knows D h" "knows (D\<lparr>blockChecksum := bc\<rparr>) h = knows D h"
  by (simp_all add: knows_def linked_def)

lemma plain_updates [simp]:
  "plain_ctx (D\<lparr>tmpInTarget := n\<rparr>) = plain_ctx D" "plain_ctx (D\<lparr>dStage := st\<rparr>) = plain_ctx D"
  "plain_ctx (D\<lparr>xxh := x, frameRemainingSize := frameRemainingSize D\<rparr>) = plain_ctx D"
  "plain_ctx (D\<lparr>blockChecksum := bc\<rparr>) = plain_ctx D"
  "length t = length (tmpOutBuffer D) \<Longrightarrow> plain_ctx (D\<lparr>tmpOutBuffer := t, dict := d, dictSize := k\<rparr>) = plain_ctx D"
  by (simp_all add: plain_ctx_def linked_def)

lemma direct_step:
  assumes "\<not> fr_null A" "fr_src A = pre @ c @ rest" "src_pos s = length pre" "dst_pos s = 0"
    "length (io_dst s) = 65536" "plain_ctx (io_dctx s)" "knows (io_dctx s) hist" "tmpInTarget (io_dctx s) = length c"
    "c \<noteq> []" "length c \<le> 65536"
  shows "\<exists>s'. copy_direct A s = Inr (Again s') \<and> src_pos s' = length pre + length c \<and> dst_pos s' = length c \<and>
    length (io_dst s') = 65536 \<and> take (length c) (io_dst s') = c \<and> got (io_dctx s) (io_dctx s') (length c)"
proof -
  let ?D = "io_dctx s"
  define m where "m = put_at 0 c (io_dst s)"
  have flags: "\<not> blockChecksumFlag (frameInfo ?D)" "\<not> contentChecksumFlag (frameInfo ?D)" "contentSize (frameInfo ?D) = 0"
    using assms(6) by (simp_all add: plain_ctx_def)
  have n: "min (tmpInTarget ?D) (min (src_left A s) (dst_left s)) = length c"
    using assms(2-5,8,10) by (simp add: src_left_def dst_left_def)
  have view: "view (src_pos s) (length c) (fr_src A) = c" using assms(2,3) by (simp add: view_def)
  have m: "LZ4_memcpy (Some (fr_src A)) (dst_pos s) (src_pos s) (length c) (io_dst s) = Inr m" "length m = 65536"
    "take (length c) m = c"
    using assms(2-5,10) view take_put_at_all [of 0 c "io_dst s"] by (simp_all add: m_def memcpy_from)
  define s1 where "s1 = s\<lparr>io_dst := m\<rparr>"
  have s1: "io_dctx s1 = ?D" "io_dst s1 = m" "dst_pos s1 = 0" "src_pos s1 = length pre"
    using assms(3,4) by (simp_all add: s1_def)
  have pos: "0 < length c" using assms(9) by simp
  obtain t d k where h: "update_history s1 (length c) False =
      Inr (s1\<lparr>io_dctx := (io_dctx s1)\<lparr>tmpOutBuffer := t, dict := d, dictSize := k\<rparr>\<rparr>)"
    "length t = length (tmpOutBuffer ?D)" "linked ?D \<and> length c = 65536 \<longrightarrow> d = InDst 0 \<and> k = 65536"
    using update_history_block [of s1 hist "length c"] s1 m(2) assms(6,7,10) pos by auto
  let ?s = "set_stage dstage_getBlockHeader
    (s1\<lparr>io_dctx := ?D\<lparr>tmpOutBuffer := t, dict := d, dictSize := k\<rparr>, src_pos := length pre + length c, dst_pos := length c\<rparr>)"
  have "copy_direct A s = Inr (Again ?s)"
    unfolding copy_direct_def Let_def n if_not_P [OF assms(1)] m(1) bindR_Inr view
    using flags h(1) s1 assms(8) by (simp add: s1_def [symmetric])
  moreover have "got ?D (io_dctx ?s) (length c)"
    using assms(6) h(2,3) by (simp add: got_def linked_def set_stage_def set_dctx_def)
  ultimately show ?thesis
    using m(2,3) s1(2) by (intro exI [of _ ?s]) (simp add: set_stage_def set_dctx_def)
qed

lemma coded_step:
  assumes "fr_src A = pre @ pay @ rest" "src_pos s = length pre" "dst_pos s = 0"
    "length (io_dst s) = 65536" "plain_ctx (io_dctx s)" "knows (io_dctx s) hist" "tmpInTarget (io_dctx s) = length pay"
    "block_on hist c pay" "c \<noteq> []" "length c \<le> 65536"
  shows "\<exists>s'. get_cblock A s = Inr (Again s') \<and> src_pos s' = length pre + length pay \<and> dst_pos s' = length c \<and>
    length (io_dst s') = 65536 \<and> take (length c) (io_dst s') = c \<and> got (io_dctx s) (io_dctx s') (length c)"
proof -
  let ?D = "io_dctx s"
  have flags: "\<not> blockChecksumFlag (frameInfo ?D)" "\<not> contentChecksumFlag (frameInfo ?D)" "contentSize (frameInfo ?D) = 0"
    "maxBlockSize ?D = 65536" "crc_size ?D = 0"
    using assms(5) by (simp_all add: plain_ctx_def crc_size_def)
  obtain d m where m: "block_dict ?D (io_dst s) (InDst 0) 65536 = Inr d"
    "decode_at A pay d (io_dst s) 0 65536 = Inr (int (length c), m)" "length m = 65536" "take (length c) m = c"
    using decoded_block [OF assms(6,5,4,8,10)] by blast
  define s1 where "s1 = s\<lparr>src_pos := length pre + length pay, io_dst := m\<rparr>"
  have s1: "io_dctx s1 = ?D" "io_dst s1 = m" "dst_pos s1 = 0" "src_pos s1 = length pre + length pay"
    using assms(3) by (simp_all add: s1_def)
  have pos: "0 < length c" using assms(9) by simp
  obtain t e k where h: "update_history s1 (length c) False =
      Inr (s1\<lparr>io_dctx := (io_dctx s1)\<lparr>tmpOutBuffer := t, dict := e, dictSize := k\<rparr>\<rparr>)"
    "length t = length (tmpOutBuffer ?D)" "linked ?D \<and> length c = 65536 \<longrightarrow> e = InDst 0 \<and> k = 65536"
    using update_history_block [of s1 hist "length c"] s1 m(3) assms(5,6,10) pos by auto
  let ?s = "set_stage dstage_getBlockHeader
    (s1\<lparr>io_dctx := ?D\<lparr>tmpOutBuffer := t, dict := e, dictSize := k\<rparr>, dst_pos := length c\<rparr>)"
  have direct: "decode_direct A pay (s\<lparr>src_pos := length pre + length pay\<rparr>) = Inr (Again ?s)"
    using m(1,2) flags h(1) s1 assms(3)
    by (simp add: decode_direct_def note_decoded_def Let_def s1_def [symmetric])
  have same: "s\<lparr>src_pos := q, io_dctx := ?D\<lparr>tmpInTarget := length pay\<rparr>\<rparr> = s\<lparr>src_pos := q\<rparr>" for q
    unfolding assms(7) [symmetric] by simp
  have "get_cblock A s = Inr (Again ?s)"
    using direct flags assms(1-4,7)
    by (simp add: same get_cblock_def decode_cblock_def Let_def src_left_def dst_left_def view_def)
  moreover have "got ?D (io_dctx ?s) (length c)"
    using assms(5) h(2,3) by (simp add: got_def linked_def set_stage_def set_dctx_def)
  ultimately show ?thesis
    using m(3,4) s1 by (intro exI [of _ ?s]) (simp add: set_stage_def set_dctx_def)
qed

lemma block_step:
  assumes "\<not> fr_null A" "fr_src A = pre @ pay @ rest" "src_pos s = length pre" "dst_pos s = 0"
    "length (io_dst s) = 65536" "expects (io_dctx s) hist c pay"
  shows "\<exists>s'. frame_step A s = Inr (Again s') \<and> src_pos s' = length pre + length pay \<and> dst_pos s' = length c \<and>
    length (io_dst s') = 65536 \<and> take (length c) (io_dst s') = c \<and> got (io_dctx s) (io_dctx s') (length c)"
proof -
  have e: "plain_ctx (io_dctx s)" "knows (io_dctx s) hist" "c \<noteq> []" "length c \<le> 65536"
    "tmpInTarget (io_dctx s) = length pay"
    "dStage (io_dctx s) = dstage_copyDirect \<and> pay = c \<or> dStage (io_dctx s) = dstage_getCBlock \<and> block_on hist c pay"
    using assms(6) by (simp_all add: expects_def)
  from e(6) show ?thesis
  proof
    assume "dStage (io_dctx s) = dstage_copyDirect \<and> pay = c"
    then show ?thesis
      using direct_step [OF assms(1) _ assms(3-5) e(1,2) _ e(3,4)] assms(2) e(5) by (simp add: frame_step_def)
  next
    assume "dStage (io_dctx s) = dstage_getCBlock \<and> block_on hist c pay"
    then show ?thesis
      using coded_step [OF assms(2-5) e(1,2,5) _ e(3,4)] by (simp add: frame_step_def)
  qed
qed

section \<open>What follows a block\<close>

lemma frame_loop_again: "frame_step A s = Inr (Again s') \<Longrightarrow> frame_loop A s = frame_loop A s'"
  by (subst frame_loop.simps) simp

lemma header_bytes:
  assumes "fr_src A = pre @ LZ4F_writeLE32 h @ rest" "src_pos s = length pre"
  shows "get_block_header A s = decode_block_header A (LZ4F_writeLE32 h @ rest) (s\<lparr>src_pos := length pre + 4\<rparr>)"
    "rd (LZ4F_writeLE32 h @ rest) 0 4 = Inr (LZ4F_writeLE32 h)"
  using assms by (simp_all add: get_block_header_def get_four_def src_left_def view_def)

lemma end_of_frame:
  assumes "fr_src A = pre @ LZ4F_writeLE32 0" "src_pos s = length pre" "plain_ctx (io_dctx s)"
    "dStage (io_dctx s) = dstage_getBlockHeader"
  shows "\<exists>s'. frame_loop A s = Inr (s', Inr 0) \<and> src_pos s' = length pre + 4 \<and> dst_pos s' = dst_pos s \<and> io_dst s' = io_dst s \<and>
    preserve_history (io_dctx s') (io_dst s') = Inr (io_dctx s')"
proof -
  let ?s = "set_stage dstage_getSuffix (s\<lparr>src_pos := length pre + 4\<rparr>)"
  let ?e = "set_dctx LZ4F_resetDecompressionContext ?s"
  have "frame_step A s = Inr (Again ?s)"
    using assms(4) header_bytes [of A pre 0 "[]" s] assms(1,2)
    by (simp add: frame_step_def decode_block_header_def read_write_LE32)
  then have "frame_loop A s = frame_loop A ?s" by (rule frame_loop_again)
  moreover have "frame_step A ?s = Inr (Pause 0 ?e)"
    using assms(3) by (simp add: frame_step_def get_suffix_def plain_ctx_def set_stage_def set_dctx_def)
  then have "frame_loop A ?s = Inr (?e, Inr 0)" by (subst frame_loop.simps) simp
  moreover have "preserve_history (io_dctx ?e) (io_dst ?e) = Inr (io_dctx ?e)"
    by (simp add: preserve_history_def set_dctx_def LZ4F_resetDecompressionContext_def)
  ultimately show ?thesis by (intro exI [of _ ?e]) (simp add: set_stage_def set_dctx_def)
qed

text \<open>The stage and the size of the block that a header announces.\<close>

definition announced :: "LZ4F_dctx \<Rightarrow> nat \<Rightarrow> bool \<Rightarrow> LZ4F_dctx" where
  "announced D n rw = (if rw then D\<lparr>tmpInTarget := n, blockChecksum := blockChecksum D, dStage := dstage_copyDirect\<rparr>
     else D\<lparr>tmpInTarget := n, dStage := dstage_getCBlock\<rparr>)"

lemma announced_simps [simp]:
  "plain_ctx (announced D n rw) = plain_ctx D" "knows (announced D n rw) h = knows D h"
  "linked (announced D n rw) = linked D" "tmpInTarget (announced D n rw) = n"
  "dict (announced D n rw) = dict D" "dictSize (announced D n rw) = dictSize D"
  "tmpOutBuffer (announced D n rw) = tmpOutBuffer D" "frameInfo (announced D n rw) = frameInfo D"
  "dStage (announced D n rw) = (if rw then dstage_copyDirect else dstage_getCBlock)"
  by (simp_all add: announced_def plain_ctx_def knows_def linked_def)

lemma read_header:
  assumes "fr_src A = pre @ LZ4F_writeLE32 h @ pay @ rest" "src_pos s = length pre" "plain_ctx (io_dctx s)"
    "header_of h (length pay) rw" "pay \<noteq> []" "length pay \<le> 65536"
  shows "get_block_header A s =
    (let s' = s\<lparr>io_dctx := announced (io_dctx s) (length pay) rw, src_pos := length pre + 4\<rparr>
     in Inr (if \<not> rw \<and> dst_left s = 0 then Pause (4 + length pay) s' else Again s'))"
proof -
  have h: "h \<noteq> 0" "unat (h AND 0x7FFFFFFF) = length pay" "(h AND LZ4F_BLOCKUNCOMPRESSED_FLAG \<noteq> 0) = rw"
    using assms(4) by (simp_all add: header_of_def)
  have D: "maxBlockSize (io_dctx s) = 65536" "crc_size (io_dctx s) = 0" "\<not> blockChecksumFlag (frameInfo (io_dctx s))"
    using assms(3) by (simp_all add: plain_ctx_def crc_size_def)
  have left: "src_left A (s\<lparr>src_pos := length pre + 4, io_dctx := x\<rparr>) \<noteq> 0" for x
    using assms(1,5) by (simp add: src_left_def)
  have dl: "dst_left (s\<lparr>src_pos := q, io_dctx := x\<rparr>) = dst_left s" for q x
    by (simp add: dst_left_def)
  show ?thesis
    unfolding header_bytes(1) [OF assms(1,2)] decode_block_header_def header_bytes(2) [OF assms(1,2)] bindR_Inr
      Let_def read_write_LE32 h(2)
    using h(1,3) D assms(6) left dl by (simp add: announced_def)
qed

lemma first_block:
  assumes "fr_src A = pre @ b @ rest" "src_pos s = length pre" "plain_ctx (io_dctx s)" "knows (io_dctx s) hist"
    "coded hist c b" "dst_pos s < length (io_dst s)"
  shows "\<exists>s' pay. get_block_header A s = Inr (Again s') \<and> expects (io_dctx s') hist c pay \<and>
    linked (io_dctx s') = linked (io_dctx s) \<and> src_pos s' = length pre + 4 \<and> dst_pos s' = dst_pos s \<and> io_dst s' = io_dst s \<and>
    (\<exists>h. b = LZ4F_writeLE32 h @ pay)"
proof -
  obtain h pay rw where b: "b = LZ4F_writeLE32 h @ pay" "header_of h (length pay) rw" "pay \<noteq> []" "length pay \<le> 65536"
    "c \<noteq> []" "length c \<le> 65536" "if rw then pay = c else block_on hist c pay"
    using coded_cases [OF assms(5)] by metis
  let ?s = "s\<lparr>io_dctx := announced (io_dctx s) (length pay) rw, src_pos := length pre + 4\<rparr>"
  have "fr_src A = pre @ LZ4F_writeLE32 h @ pay @ rest" using assms(1) b(1) by simp
  from read_header [OF this assms(2,3) b(2-4)] have "get_block_header A s = Inr (Again ?s)"
    using assms(6) by (simp add: dst_left_def)
  moreover have "expects (io_dctx ?s) hist c pay"
    using assms(3,4) b(3,5-7) by (simp add: expects_def split: if_splits)
  ultimately show ?thesis using b(1) by (intro exI [of _ ?s] exI [of _ pay]) auto
qed

lemma nothing_copied:
  assumes "\<not> fr_null A" "src_pos s \<le> length (fr_src A)" "dst_pos s = 65536" "length (io_dst s) = 65536"
    "plain_ctx (io_dctx s)" "linked (io_dctx s)" "dict (io_dctx s) = InDst 0" "dictSize (io_dctx s) = 65536"
    "tmpInTarget (io_dctx s) = n" "0 < n"
  shows "copy_direct A s = Inr (Pause (n + 4) s)"
proof -
  let ?D = "io_dctx s"
  have flags: "\<not> blockChecksumFlag (frameInfo ?D)" "\<not> contentChecksumFlag (frameInfo ?D)" "contentSize (frameInfo ?D) = 0"
    "crc_size ?D = 0"
    using assms(5) by (simp_all add: plain_ctx_def crc_size_def)
  have n: "min (tmpInTarget ?D) (min (src_left A s) (dst_left s)) = 0"
    using assms(3,4) by (simp add: dst_left_def)
  have m: "LZ4_memcpy (Some (fr_src A)) (dst_pos s) (src_pos s) 0 (io_dst s) = Inr (io_dst s)"
    using assms(2-4) by (simp add: memcpy_from put_at_def)
  have h: "update_history s 0 False = Inr s"
    using assms(3,6-8) by (simp add: update_history_def LZ4F_updateDict_def)
  have same: "s\<lparr>io_dctx := ?D\<lparr>tmpInTarget := n\<rparr>\<rparr> = s" unfolding assms(9) [symmetric] by simp
  show ?thesis
    unfolding copy_direct_def Let_def n if_not_P [OF assms(1)] m bindR_Inr
    using flags h assms(9,10) same by simp
qed

lemma next_block:
  assumes "fr_src A = pre @ b @ rest" "src_pos s = length pre" "plain_ctx (io_dctx s)" "\<not> fr_null A"
    "coded (x @ io_dst s) c b" "dst_pos s = 65536" "length (io_dst s) = 65536" "linked (io_dctx s)"
    "dict (io_dctx s) = InDst 0" "dictSize (io_dctx s) = 65536" "dStage (io_dctx s) = dstage_getBlockHeader"
  shows "\<exists>s' D' hint pay. frame_loop A s = Inr (s', Inr hint) \<and> hint \<noteq> 0 \<and>
    preserve_history (io_dctx s') (io_dst s') = Inr D' \<and> expects D' (x @ io_dst s) c pay \<and> linked D' \<and>
    src_pos s' = length pre + 4 \<and> dst_pos s' = 65536 \<and> io_dst s' = io_dst s \<and> (\<exists>h. b = LZ4F_writeLE32 h @ pay)"
proof -
  obtain h pay rw where b: "b = LZ4F_writeLE32 h @ pay" "header_of h (length pay) rw" "pay \<noteq> []" "length pay \<le> 65536"
    "c \<noteq> []" "length c \<le> 65536" "if rw then pay = c else block_on (x @ io_dst s) c pay"
    using coded_cases [OF assms(5)] by metis
  let ?D = "announced (io_dctx s) (length pay) rw"
  let ?s = "s\<lparr>io_dctx := ?D, src_pos := length pre + 4\<rparr>"
  have "fr_src A = pre @ LZ4F_writeLE32 h @ pay @ rest" using assms(1) b(1) by simp
  from read_header [OF this assms(2,3) b(2-4)] have step: "frame_step A s =
      Inr (if rw then Again ?s else Pause (4 + length pay) ?s)"
    using assms(6,7,11) by (simp add: dst_left_def frame_step_def)
  have loop: "\<exists>hint. frame_loop A s = Inr (?s, Inr hint) \<and> hint \<noteq> 0"
  proof (cases rw)
    case True
    have "copy_direct A ?s = Inr (Pause (length pay + 4) ?s)"
      using assms(1,3,4,6-10) b(1,3) by (intro nothing_copied) simp_all
    then have "frame_loop A ?s = Inr (?s, Inr (length pay + 4))"
      using True by (subst frame_loop.simps) (simp add: frame_step_def)
    then show ?thesis using step True frame_loop_again [of A s ?s] by simp
  next
    case False
    then show ?thesis using step by (subst frame_loop.simps) simp
  qed
  define t where "t = put_at 0 (io_dst s) (tmpOutBuffer ?D)"
  let ?D' = "?D\<lparr>tmpOutBuffer := t, dict := InTmp 0, dictSize := 65536, tmpOut := 65536\<rparr>"
  have len: "length (tmpOutBuffer ?D) = 196608" using assms(3,8) by (simp add: plain_ctx_def)
  then have t: "LZ4_memcpy (Some (io_dst s)) 0 0 65536 (tmpOutBuffer ?D) = Inr t" "length t = 196608" "take 65536 t = io_dst s"
    using assms(7) take_put_at_all [of 0 "io_dst s" "tmpOutBuffer ?D"] by (simp_all add: t_def memcpy_from view_def)
  have "preserve_history ?D (io_dst s) = Inr ?D'"
    using t(1) assms(8-10) by (simp add: preserve_history_def needs_history_def copy_dict_def Let_def)
  moreover have "expects ?D' (x @ io_dst s) c pay"
    using assms(3,8) t(2,3) b(3,5-7) by (auto simp: expects_def knows_def plain_ctx_def linked_def announced_def)
  moreover have "linked ?D'" using assms(8) by (simp add: linked_def)
  ultimately show ?thesis
    using loop b(1) assms(6) by (intro exI [of _ ?s] exI [of _ ?D']) auto
qed

section \<open>A call\<close>

lemma linked_blocks_split:
  assumes "linked_blocks hist src bs"
  shows "src = [] \<and> bs = [] \<or> (\<exists>c r b bs'. src = c @ r \<and> c \<noteq> [] \<and> bs = b @ bs' \<and> coded hist c b \<and>
    linked_blocks (hist @ c) r bs' \<and> (r \<noteq> [] \<longrightarrow> length c = 65536))"
  using assms
proof (cases rule: linked_blocks.cases)
  case last_block
  then have "src \<noteq> []" by (simp add: coded_def)
  then show ?thesis
    using last_block no_block [of "hist @ src"]
    by (intro disjI2 exI [of _ src] exI [of _ "[]"] exI [of _ bs] exI [of _ "[]"]) simp
next
  case (full_block c b r bs')
  moreover from this have "c \<noteq> []" by (simp add: coded_def)
  ultimately show ?thesis by (intro disjI2 exI [of _ c] exI [of _ r] exI [of _ b] exI [of _ bs']) simp
qed simp

text \<open>The context stands in front of a block of \<open>src\<close>, whose coding is the rest of the frame.\<close>

definition on_block :: "LZ4F_dctx \<Rightarrow> bytes \<Rightarrow> bytes \<Rightarrow> bytes \<Rightarrow> bool" where
  "on_block D hist src inp \<longleftrightarrow> (\<exists>c r pay bs. src = c @ r \<and> inp = pay @ bs @ LZ4F_writeLE32 0 \<and>
     expects D hist c pay \<and> linked_blocks (hist @ c) r bs \<and> (r \<noteq> [] \<longrightarrow> length c = 65536 \<and> linked D))"

lemma run_block:
  assumes "\<not> fr_null A" "fr_src A = pre @ inp" "src_pos s = length pre" "dst_pos s = 0" "length (io_dst s) = 65536"
    "on_block (io_dctx s) hist src inp"
  shows "\<exists>s' D' hint c r. frame_loop A s = Inr (s', Inr hint) \<and> preserve_history (io_dctx s') (io_dst s') = Inr D' \<and>
    src = c @ r \<and> c \<noteq> [] \<and> dst_pos s' = length c \<and> length (io_dst s') = 65536 \<and> take (length c) (io_dst s') = c \<and>
    (if r = [] then hint = 0 else hint \<noteq> 0 \<and> on_block D' (hist @ c) r (drop (src_pos s') (fr_src A)))"
proof -
  obtain c r pay bs where b: "src = c @ r" "inp = pay @ bs @ LZ4F_writeLE32 0" "expects (io_dctx s) hist c pay"
    "linked_blocks (hist @ c) r bs" "r \<noteq> [] \<longrightarrow> length c = 65536 \<and> linked (io_dctx s)"
    using assms(6) unfolding on_block_def by blast
  have c: "c \<noteq> []" using b(3) by (simp add: expects_def)
  have src: "fr_src A = pre @ pay @ bs @ LZ4F_writeLE32 0" using assms(2) b(2) by simp
  obtain s1 where s1: "frame_step A s = Inr (Again s1)" "src_pos s1 = length (pre @ pay)" "dst_pos s1 = length c"
    "length (io_dst s1) = 65536" "take (length c) (io_dst s1) = c" "got (io_dctx s) (io_dctx s1) (length c)"
    using block_step [OF assms(1) src assms(3-5) b(3)] by auto
  have loop: "frame_loop A s = frame_loop A s1" using s1(1) by (rule frame_loop_again)
  have g: "plain_ctx (io_dctx s1)" "dStage (io_dctx s1) = dstage_getBlockHeader" using s1(6) by (simp_all add: got_def)
  show ?thesis
  proof (cases "r = []")
    case True
    then have "bs = []" using linked_blocks_split [OF b(4)] by auto
    then have "fr_src A = (pre @ pay) @ LZ4F_writeLE32 0" using src by simp
    from end_of_frame [OF this s1(2) g] obtain s' where "frame_loop A s1 = Inr (s', Inr 0)" "dst_pos s' = dst_pos s1"
      "io_dst s' = io_dst s1" "preserve_history (io_dctx s') (io_dst s') = Inr (io_dctx s')"
      by blast
    then show ?thesis
      using loop s1(3-5) b(1) c True by (intro exI [of _ s'] exI [of _ "io_dctx s'"] exI [of _ 0] exI [of _ c] exI [of _ "[]"]) simp
  next
    case False
    then have full: "length c = 65536" "linked (io_dctx s)" using b(5) by simp_all
    obtain c2 r2 b2 bs2 where n: "r = c2 @ r2" "bs = b2 @ bs2" "coded (hist @ c) c2 b2"
      "linked_blocks ((hist @ c) @ c2) r2 bs2" "r2 \<noteq> [] \<longrightarrow> length c2 = 65536"
      using linked_blocks_split [OF b(4)] False by blast
    have dst: "io_dst s1 = c" using s1(4,5) full(1) by simp
    have src1: "fr_src A = (pre @ pay) @ b2 @ bs2 @ LZ4F_writeLE32 0" using src n(2) by simp
    have s1': "linked (io_dctx s1)" "dict (io_dctx s1) = InDst 0" "dictSize (io_dctx s1) = 65536" "dst_pos s1 = 65536"
      using s1(3,6) full by (simp_all add: got_def)
    obtain s' D' hint pay2 h where k: "frame_loop A s1 = Inr (s', Inr hint)" "hint \<noteq> 0"
      "preserve_history (io_dctx s') (io_dst s') = Inr D'" "expects D' (hist @ c) c2 pay2" "linked D'"
      "src_pos s' = length (pre @ pay) + 4" "dst_pos s' = 65536" "io_dst s' = c" "b2 = LZ4F_writeLE32 h @ pay2"
      using next_block [OF src1 s1(2) g(1) assms(1) _ s1'(4) s1(4) s1'(1-3) g(2), of hist c2] n(3) unfolding dst by blast
    have rest: "drop (src_pos s') (fr_src A) = pay2 @ bs2 @ LZ4F_writeLE32 0"
      unfolding src1 k(6,9) by simp
    have "on_block D' (hist @ c) r (drop (src_pos s') (fr_src A))"
      unfolding on_block_def rest using n(1,4,5) k(4,5) by blast
    then show ?thesis
      using loop k False full(1) b(1) c
      by (intro exI [of _ s'] exI [of _ D'] exI [of _ hint] exI [of _ c] exI [of _ r]) simp
  qed
qed

lemma block_call:
  assumes "on_block D hist src inp" "length buf = OUT_BUF"
  shows "\<exists>hint D' buf' used c r. frame_call fl alloc (D, buf) inp OUT_BUF = (Some hint, (D', buf'), used, c) \<and>
    src = c @ r \<and> c \<noteq> [] \<and> length buf' = OUT_BUF \<and>
    (if r = [] then hint = 0 else hint \<noteq> 0 \<and> on_block D' (hist @ c) r (drop used inp))"
proof -
  let ?A = "\<lparr>fr_src = inp, fr_null = False, fr_fast = fl, fr_alloc = alloc\<rparr>"
  let ?s = "\<lparr>io_dctx = D, src_pos = 0, io_dst = buf, dst_pos = 0\<rparr>"
  have buf: "OUT_BUF = 65536" by (simp add: OUT_BUF_def)
  obtain s' D' hint c r where "frame_loop ?A ?s = Inr (s', Inr hint)"
    "preserve_history (io_dctx s') (io_dst s') = Inr D'" "src = c @ r" "c \<noteq> []" "dst_pos s' = length c"
    "length (io_dst s') = 65536" "take (length c) (io_dst s') = c"
    "if r = [] then hint = 0 else hint \<noteq> 0 \<and> on_block D' (hist @ c) r (drop (src_pos s') inp)"
  proof -
    have "\<not> fr_null ?A" "fr_src ?A = [] @ inp" "src_pos ?s = length []" "dst_pos ?s = 0" "length (io_dst ?s) = 65536"
      "on_block (io_dctx ?s) hist src inp"
      using assms buf by simp_all
    from run_block [OF this] show ?thesis using that unfolding frame_args.simps by blast
  qed
  then show ?thesis
    unfolding buf
    by (intro exI [of _ hint] exI [of _ D'] exI [of _ "io_dst s'"] exI [of _ "src_pos s'"] exI [of _ c] exI [of _ r])
      (simp add: frame_call_def Lz4FrameDecode.LZ4F_decompress_def)
qed

lemma blocks_loop:
  assumes "libs.LZ4F_decompress L = frame_call fl alloc" "plain f"
  shows "on_block D hist src inp \<Longrightarrow> length buf = OUT_BUF \<Longrightarrow>
    lz4f_loop L (D, buf) inp f = Some (Inr (), CryptoCorrect.extend f src)"
  using assms(2)
proof (induction src arbitrary: D hist inp buf f rule: length_induct)
  case (1 src)
  obtain hint D' buf' used c r where c: "frame_call fl alloc (D, buf) inp OUT_BUF = (Some hint, (D', buf'), used, c)"
    "src = c @ r" "c \<noteq> []" "length buf' = OUT_BUF"
    "if r = [] then hint = 0 else hint \<noteq> 0 \<and> on_block D' (hist @ c) r (drop used inp)"
    using block_call [OF 1(2,3)] by blast
  have inp: "inp \<noteq> []" using 1(2) by (auto simp: on_block_def expects_def)
  show ?case
  proof (cases "r = []")
    case True
    then show ?thesis
      using c assms(1) inp 1(4) by (subst lz4f_loop.simps) simp
  next
    case False
    then have "on_block D' (hist @ c) r (drop used inp)" "length r < length src" using c(2,3,5) by simp_all
    then have "lz4f_loop L (D', buf') (drop used inp) (CryptoCorrect.extend f c) =
        Some (Inr (), CryptoCorrect.extend (CryptoCorrect.extend f c) r)"
      using 1(1) [rule_format, of r] c(4) 1(4) by simp
    then show ?thesis
      using c False assms(1) inp 1(4) by (subst lz4f_loop.simps) simp
  qed
qed

section \<open>The first call\<close>

definition decoded_info :: "LZ4F_frameInfo_t \<Rightarrow> LZ4F_frameInfo_t" where
  "decoded_info info = frameInfo_zero\<lparr>blockMode := blockMode info, blockSizeID := 4\<rparr>"

lemma plain_header:
  assumes "plain_info info"
  obtains flg where "frame_header info = LZ4F_writeLE32 LZ4F_MAGICNUMBER @ [flg, 0x40, LZ4F_headerChecksum [flg, 0x40]]"
    "flag_bit 5 flg = (blockMode info = LZ4F_blockIndependent)" "\<not> flag_bit 0 flg" "\<not> flag_bit 1 flg"
    "\<not> flag_bit 2 flg" "\<not> flag_bit 3 flg" "\<not> flag_bit 4 flg" "drop_bit 6 flg AND 3 = 1"
proof (cases "blockMode info")
  case LZ4F_blockLinked
  then have "frame_descriptor info = [0x40, 0x40]"
    using assms by (simp add: frame_descriptor_def plain_info_def)
  then show ?thesis
    using LZ4F_blockLinked that [of "0x40"] by (simp add: frame_header_def flag_bit_def)
next
  case LZ4F_blockIndependent
  then have "frame_descriptor info = [0x60, 0x40]"
    using assms by (simp add: frame_descriptor_def plain_info_def)
  then show ?thesis
    using LZ4F_blockIndependent that [of "0x60"] by (simp add: frame_header_def flag_bit_def)
qed

lemma decode_plain_header:
  assumes "plain_info info"
  shows "LZ4F_decodeHeader D own (frame_header info @ r) =
    Inr (D\<lparr>frameInfo := decoded_info info, maxBlockSize := 65536, dStage := dstage_init\<rparr>, Inr 7)"
proof -
  obtain flg where h: "frame_header info = LZ4F_writeLE32 LZ4F_MAGICNUMBER @ [flg, 0x40, LZ4F_headerChecksum [flg, 0x40]]"
    "flag_bit 5 flg = (blockMode info = LZ4F_blockIndependent)" "\<not> flag_bit 0 flg" "\<not> flag_bit 1 flg"
    "\<not> flag_bit 2 flg" "\<not> flag_bit 3 flg" "\<not> flag_bit 4 flg" "drop_bit 6 flg AND 3 = 1"
    using plain_header [OF assms] by metis
  define w where "w = LZ4F_writeLE32 LZ4F_MAGICNUMBER"
  define src where "src = w @ [flg, 0x40, LZ4F_headerChecksum [flg, 0x40]] @ r"
  have w: "length w = 4" "LZ4F_readLE32 w = LZ4F_MAGICNUMBER" by (simp_all add: w_def read_write_LE32)
  have reads: "rd src 0 4 = Inr w" "rd src 4 1 = Inr [flg]" "rd src 4 2 = Inr [flg, 0x40]"
    "rd src 6 1 = Inr [LZ4F_headerChecksum [flg, 0x40]]"
    using w(1) by (simp_all add: src_def view_def)
  have len: "7 \<le> length src" using w(1) by (simp add: src_def)
  have size: "header_size flg = 7" using h(3,6) by (simp add: header_size_def)
  have magic: "\<not> LZ4F_MAGICNUMBER AND 0xFFFFFFF0 = LZ4F_MAGIC_SKIPPABLE_START"
    by (simp add: LZ4F_MAGICNUMBER_def LZ4F_MAGIC_SKIPPABLE_START_def)
  have bd: "\<not> flag_bit 7 0x40" "unat (drop_bit 4 (0x40 :: byte) AND 7) = 4" "(0x40 :: byte) AND 15 = 0"
    by (simp_all add: flag_bit_def)
  have desc: "decode_descriptor D' src =
      Inr (D'\<lparr>frameInfo := (frameInfo D')\<lparr>blockMode := blockMode info, blockChecksumFlag := False,
        contentChecksumFlag := False, blockSizeID := 4\<rparr>, maxBlockSize := 65536, dStage := dstage_init\<rparr>, Inr 7)" for D'
    using h(2,3,5-7) reads bd
    by (cases "blockMode info") (simp_all add: decode_descriptor_def size Let_def blockSizes_def)
  have "LZ4F_decodeHeader D own src =
      Inr (D\<lparr>frameInfo := decoded_info info, maxBlockSize := 65536, dStage := dstage_init\<rparr>, Inr 7)"
    using len reads w(2) magic h(4,8) size
    by (simp add: LZ4F_decodeHeader_def Let_def desc decoded_info_def frameInfo_zero_def)
  then show ?thesis by (simp add: src_def w_def h(1))
qed

definition at_init :: "LZ4F_frameInfo_t \<Rightarrow> LZ4F_dctx \<Rightarrow> bool" where
  "at_init info D \<longleftrightarrow> dStage D = dstage_init \<and> frameInfo D = decoded_info info \<and> maxBlockSize D = 65536 \<and>
     dict D = DictNull \<and> dictSize D = 0 \<and> frameRemainingSize D = 0 \<and> maxBufferSize D = 0"

lemma length_plain_header: "plain_info info \<Longrightarrow> length (frame_header info) = 7"
  by (simp add: frame_header_def frame_descriptor_def plain_info_def)

lemma header_step:
  assumes "fr_src A = frame_header info @ body" "plain_info info"
  shows "\<exists>s'. frame_step A \<lparr>io_dctx = Lz4Frame.LZ4F_createDecompressionContext v, src_pos = 0, io_dst = dst, dst_pos = 0\<rparr> =
      Inr (Again s') \<and> at_init info (io_dctx s') \<and> src_pos s' = 7 \<and> dst_pos s' = 0 \<and> io_dst s' = dst"
proof -
  let ?D = "Lz4Frame.LZ4F_createDecompressionContext v"
  let ?s = "\<lparr>io_dctx = ?D, src_pos = 0, io_dst = dst, dst_pos = 0\<rparr>"
  have len: "length (frame_header info) = 7" using assms(2) by (rule length_plain_header)
  have fresh: "dStage ?D = dstage_getFrameHeader" "dict ?D = DictNull" "dictSize ?D = 0" "frameRemainingSize ?D = 0"
    "maxBufferSize ?D = 0" "length (header ?D) = 19"
    by (simp_all add: Lz4Frame.LZ4F_createDecompressionContext_def)
  have step: "frame_step A ?s = get_frame_header A ?s" using fresh(1) by (simp add: frame_step_def)
  show ?thesis
  proof (cases "19 \<le> length (fr_src A)")
    case True
    then show ?thesis
      unfolding step
      using assms(1) decode_plain_header [OF assms(2), of ?D False body] fresh
      by (simp add: get_frame_header_def src_left_def at_init_def)
  next
    case False
    define h where "h = put_at 0 (frame_header info) (header ?D)"
    have view: "view 0 7 (fr_src A) = frame_header info" using assms(1) len by (simp add: view_def)
    have h: "LZ4_memcpy (Some (fr_src A)) 0 0 7 (header ?D) = Inr h" "take 7 h = frame_header info" "length h = 19"
      using assms(1) len fresh(6) view take_put_at_all [of 0 "frame_header info" "header ?D"]
      by (simp_all add: h_def memcpy_from)
    have own: "rd h 0 7 = Inr (frame_header info @ [])" using h(2,3) by (simp add: view_def)
    have left: "src_left A s = length (fr_src A) - src_pos s" for s by (simp add: src_left_def)
    have more: "7 \<le> length (fr_src A)" "fr_src A \<noteq> []" using assms(1) len by auto
    show ?thesis
      unfolding step
      using False h(1) own more fresh decode_plain_header [OF assms(2), of _ True "[]"]
      by (simp add: get_frame_header_def store_frame_header_def decode_own_header_def left set_dctx_def Let_def at_init_def)
  qed
qed

lemma init_step:
  assumes "at_init info (io_dctx s)" "\<And>n. \<exists>b. fr_alloc A n = Some b \<and> length b = n"
  shows "\<exists>s'. frame_loop A s = frame_loop A s' \<and> frame_step A s' = get_block_header A s' \<and>
    plain_ctx (io_dctx s') \<and> knows (io_dctx s') [] \<and> dStage (io_dctx s') = dstage_getBlockHeader \<and>
    linked (io_dctx s') = (blockMode info = LZ4F_blockLinked) \<and>
    src_pos s' = src_pos s \<and> dst_pos s' = dst_pos s \<and> io_dst s' = io_dst s"
proof -
  let ?D = "io_dctx s"
  let ?n = "65536 + (if linked ?D then 131072 else 0)"
  have i: "dStage ?D = dstage_init" "frameInfo ?D = decoded_info info" "maxBlockSize ?D = 65536" "dict ?D = DictNull"
    "dictSize ?D = 0" "frameRemainingSize ?D = 0" "maxBufferSize ?D = 0"
    using assms(1) by (simp_all add: at_init_def)
  obtain t b where al: "fr_alloc A 65540 = Some t" "fr_alloc A ?n = Some b" "length b = ?n"
    using assms(2) by meson
  let ?s = "s\<lparr>io_dctx := ?D\<lparr>tmpIn := t, tmpOutBuffer := b, maxBufferSize := ?n, tmpInSize := 0, tmpInTarget := 0,
    tmpOut := 0, tmpOutStart := 0, tmpOutSize := 0, dStage := dstage_getBlockHeader\<rparr>\<rparr>"
  have "init_frame A s = get_block_header A ?s"
    using i(2,3,7) al
    by (cases "linked ?D") (simp_all add: init_frame_def Let_def decoded_info_def frameInfo_zero_def)
  then have "frame_step A s = get_block_header A ?s" using i(1) by (simp add: frame_step_def)
  moreover have "frame_step A ?s = get_block_header A ?s" by (simp add: frame_step_def)
  ultimately have "frame_step A s = frame_step A ?s" by simp
  then have "frame_loop A s = frame_loop A ?s" by (subst (1 2) frame_loop.simps) simp
  moreover have "plain_ctx (io_dctx ?s)" "knows (io_dctx ?s) []"
    using i al(3) by (auto simp: plain_ctx_def knows_def linked_def decoded_info_def frameInfo_zero_def)
  moreover have "linked (io_dctx ?s) = (blockMode info = LZ4F_blockLinked)"
    using i(2) by (simp add: linked_def decoded_info_def)
  ultimately show ?thesis
    using \<open>frame_step A ?s = get_block_header A ?s\<close> by (intro exI [of _ ?s]) simp
qed

lemma first_call:
  assumes "frame_of src inp" "length buf = OUT_BUF" "\<And>n. \<exists>b. alloc n = Some b \<and> length b = n"
  shows "\<exists>hint D' buf' used c r.
    frame_call fl alloc (Lz4Frame.LZ4F_createDecompressionContext v, buf) inp OUT_BUF = (Some hint, (D', buf'), used, c) \<and>
    src = c @ r \<and> length buf' = OUT_BUF \<and> (if r = [] then hint = 0 else hint \<noteq> 0 \<and> on_block D' c r (drop used inp))"
proof -
  obtain info bs where F: "inp = frame_header info @ bs @ LZ4F_writeLE32 0" "plain_info info"
    "blockMode info = LZ4F_blockIndependent \<longrightarrow> length src \<le> 65536" "linked_blocks [] src bs"
    using assms(1) unfolding frame_of_def by blast
  let ?A = "\<lparr>fr_src = inp, fr_null = False, fr_fast = fl, fr_alloc = alloc\<rparr>"
  let ?s = "\<lparr>io_dctx = Lz4Frame.LZ4F_createDecompressionContext v, src_pos = 0, io_dst = buf, dst_pos = 0\<rparr>"
  have buf: "OUT_BUF = 65536" by (simp add: OUT_BUF_def)
  have A: "fr_src ?A = frame_header info @ bs @ LZ4F_writeLE32 0" "\<not> fr_null ?A" using F(1) by simp_all
  obtain s1 where s1: "frame_step ?A ?s = Inr (Again s1)" "at_init info (io_dctx s1)" "src_pos s1 = 7" "dst_pos s1 = 0"
    "io_dst s1 = buf"
    using header_step [OF A(1) F(2), of v buf] by blast
  have "\<exists>b. fr_alloc ?A n = Some b \<and> length b = n" for n using assms(3) by simp
  from init_step [OF s1(2) this] obtain s2 where s2: "frame_loop ?A s1 = frame_loop ?A s2"
    "frame_step ?A s2 = get_block_header ?A s2" "plain_ctx (io_dctx s2)" "knows (io_dctx s2) []"
    "dStage (io_dctx s2) = dstage_getBlockHeader" "linked (io_dctx s2) = (blockMode info = LZ4F_blockLinked)"
    "src_pos s2 = length (frame_header info)" "dst_pos s2 = 0" "io_dst s2 = buf"
    using s1(3-5) length_plain_header [OF F(2)] by auto
  have loop: "frame_loop ?A ?s = frame_loop ?A s2" using frame_loop_again [OF s1(1)] s2(1) by simp
  have "\<exists>s' D' hint c r. frame_loop ?A s2 = Inr (s', Inr hint) \<and> preserve_history (io_dctx s') (io_dst s') = Inr D' \<and>
    src = c @ r \<and> dst_pos s' = length c \<and> length (io_dst s') = 65536 \<and> take (length c) (io_dst s') = c \<and>
    (if r = [] then hint = 0 else hint \<noteq> 0 \<and> on_block D' c r (drop (src_pos s') inp))"
  proof (cases "src = []")
    case True
    then have "bs = []" using linked_blocks_split [OF F(4)] by auto
    then have "fr_src ?A = frame_header info @ LZ4F_writeLE32 0" using A(1) by simp
    from end_of_frame [OF this s2(7,3,5)] obtain s' where "frame_loop ?A s2 = Inr (s', Inr 0)" "dst_pos s' = 0"
      "io_dst s' = buf" "preserve_history (io_dctx s') (io_dst s') = Inr (io_dctx s')"
      using s2(8,9) by auto
    then show ?thesis
      using True assms(2) buf
      by (intro exI [of _ s'] exI [of _ "io_dctx s'"] exI [of _ 0] exI [of _ "[]"] exI [of _ "[]"]) simp
  next
    case False
    then obtain c r b bs' where b: "src = c @ r" "bs = b @ bs'" "coded [] c b" "linked_blocks ([] @ c) r bs'"
      "r \<noteq> [] \<longrightarrow> length c = 65536"
      using linked_blocks_split [OF F(4)] by blast
    have A2: "fr_src ?A = frame_header info @ b @ bs' @ LZ4F_writeLE32 0" using A(1) b(2) by simp
    have "dst_pos s2 < length (io_dst s2)" using s2(8,9) assms(2) buf by simp
    from first_block [OF A2 s2(7,3,4) b(3) this] obtain s3 pay h where s3: "get_block_header ?A s2 = Inr (Again s3)"
      "expects (io_dctx s3) [] c pay" "linked (io_dctx s3) = linked (io_dctx s2)"
      "src_pos s3 = length (frame_header info) + 4" "dst_pos s3 = 0" "io_dst s3 = buf" "b = LZ4F_writeLE32 h @ pay"
      using s2(8,9) by auto
    have "frame_loop ?A s2 = frame_loop ?A s3" using s2(2) s3(1) by (intro frame_loop_again) simp
    moreover have "on_block (io_dctx s3) [] src (pay @ bs' @ LZ4F_writeLE32 0)"
    proof -
      have "linked (io_dctx s3)" if "r \<noteq> []"
      proof -
        have "\<not> length src \<le> 65536" using that b(1,5) by simp
        then show ?thesis using F(3) s2(6) s3(3) by (cases "blockMode info") simp_all
      qed
      then show ?thesis unfolding on_block_def using b(1,4,5) s3(2) by blast
    qed
    moreover have "fr_src ?A = (frame_header info @ LZ4F_writeLE32 h) @ pay @ bs' @ LZ4F_writeLE32 0"
      using A2 s3(7) by simp
    moreover have "src_pos s3 = length (frame_header info @ LZ4F_writeLE32 h)" using s3(4) by simp
    moreover have "length (io_dst s3) = 65536" using s3(6) assms(2) buf by simp
    ultimately show ?thesis
      using run_block [OF A(2) _ _ s3(5), of "frame_header info @ LZ4F_writeLE32 h" "pay @ bs' @ LZ4F_writeLE32 0" "[]" src]
      unfolding frame_args.simps append_Nil by (metis (no_types))
  qed
  then obtain s' D' hint c r where "frame_loop ?A s2 = Inr (s', Inr hint)"
    "preserve_history (io_dctx s') (io_dst s') = Inr D'" "src = c @ r" "dst_pos s' = length c"
    "length (io_dst s') = 65536" "take (length c) (io_dst s') = c"
    "if r = [] then hint = 0 else hint \<noteq> 0 \<and> on_block D' c r (drop (src_pos s') inp)"
    by blast
  then show ?thesis
    using loop unfolding buf
    by (intro exI [of _ hint] exI [of _ D'] exI [of _ "io_dst s'"] exI [of _ "src_pos s'"] exI [of _ c] exI [of _ r])
      (simp add: frame_call_def Lz4FrameDecode.LZ4F_decompress_def)
qed


section \<open>The whole frame\<close>

lemma frame_not_empty: "frame_of src inp \<Longrightarrow> inp \<noteq> []"
  using length_plain_header by (fastforce simp: frame_of_def)

lemma frame_loop_decodes:
  assumes "frame_of src inp" "plain f" "\<And>n. \<exists>b. alloc n = Some b \<and> length b = n"
    "libs.LZ4F_decompress L = frame_call fl alloc" "length buf = OUT_BUF"
  shows "lz4f_loop L (Lz4Frame.LZ4F_createDecompressionContext v, buf) inp f = Some (Inr (), CryptoCorrect.extend f src)"
proof -
  let ?D = "Lz4Frame.LZ4F_createDecompressionContext v"
  obtain hint D' buf' used c r where first: "frame_call fl alloc (?D, buf) inp OUT_BUF = (Some hint, (D', buf'), used, c)"
    "src = c @ r" "length buf' = OUT_BUF" "if r = [] then hint = 0 else hint \<noteq> 0 \<and> on_block D' c r (drop used inp)"
    using first_call [OF assms(1,5,3)] by blast
  note step = lz4f_loop.simps [of L "(?D, buf)" inp f, unfolded assms(4) first(1)]
  show ?thesis
  proof (cases "r = []")
    case True
    then show ?thesis
      using first(2,4) assms(2) frame_not_empty [OF assms(1)] by (simp add: step)
  next
    case False
    then have "lz4f_loop L (D', buf') (drop used inp) (CryptoCorrect.extend f c) =
        Some (Inr (), CryptoCorrect.extend (CryptoCorrect.extend f c) r)"
      using first(3,4) assms(2) by (intro blocks_loop [OF assms(4), where hist = c]) simp_all
    then show ?thesis
      using False first(2,4) assms(2) frame_not_empty [OF assms(1)] by (simp add: step)
  qed
qed

lemma frame_decoded:
  assumes "frame_of src inp" "plain f" "\<And>n. \<exists>b. alloc n = Some b \<and> length b = n"
  shows "lz4f_decompress (with_lz4f fl alloc L) inp f = (Inr (), CryptoCorrect.extend f src)"
  using frame_loop_decodes [OF assms, of "with_lz4f fl alloc L" fl "replicate OUT_BUF 0" LZ4F_VERSION]
  by (simp add: lz4f_decompress_def with_lz4f_def returns_or_diverges_def)

lemma frame_compress_call_ok:
  assumes "length src < 2 ^ 47"
  shows "\<exists>F. frame_compress_call src = Some F \<and> frame_of src F"
proof -
  let ?bound = "unat (LZ4F_compressFrameBound (of_nat (length src)) None)"
  have "?bound < 2 ^ 64" using unsigned_less [of "LZ4F_compressFrameBound (of_nat (length src)) None"] by simp
  then have "length (replicate ?bound (0 :: byte)) < 2 ^ 64" by simp
  from compressFrame_ok [OF assms this] obtain dst n where c:
    "Lz4FrameCompress.LZ4F_compressFrame (replicate ?bound 0) src None = Inr (dst, Inr n)"
    "n \<le> ?bound" "frame_of src (take n dst)"
    by auto
  have "frame_blocks (length src) \<le> length src + 1" using div_le_dividend [of "length src" 65536]
    by (simp add: frame_blocks_def del: div_le_dividend)
  then have "?bound < 2 ^ 63" using assms unfolding compressFrameBound_value(1) [OF assms] by simp
  then have "n < 2 ^ 63" using c(2) by simp
  moreover from this have "unat (of_nat n :: u64) = n" by (intro unat_u64) simp
  ultimately show ?thesis
    using c small_size_no_error [of n] by (simp add: frame_compress_call_def size_or_error_def Let_def)
qed

text \<open>For \<open>FileFormat::LZ4\<close>, \<open>decompress_bytes\<close> undoes \<open>compress_bytes\<close>.\<close>

lemma frame_roundtrip:
  assumes "length src < 2 ^ 47" "plain f" "\<And>n. \<exists>b. alloc n = Some b \<and> length b = n"
  shows "\<exists>F. compress_bytes (with_lz4f fl alloc L) LZ4 src f = (Inr (), CryptoCorrect.extend f F) \<and>
    (\<forall>g. plain g \<longrightarrow> decompress_bytes (with_lz4f fl alloc L) LZ4 F g = (Inr (), CryptoCorrect.extend g src))"
proof -
  obtain F where F: "frame_compress_call src = Some F" "frame_of src F"
    using frame_compress_call_ok [OF assms(1)] by blast
  have "compress_bytes (with_lz4f fl alloc L) LZ4 src f = (Inr (), CryptoCorrect.extend f F)"
    using assms(2) F(1) by (simp add: compress_bytes_def lz4f_compress_def with_lz4f_def)
  moreover have "decompress_bytes (with_lz4f fl alloc L) LZ4 F g = (Inr (), CryptoCorrect.extend g src)" if "plain g" for g
    using frame_decoded [OF F(2) that assms(3)] by (simp add: decompress_bytes_def)
  ultimately show ?thesis by blast
qed

end
