(* ===== verification/XxhashCorrect.thy ===== *)
theory XxhashCorrect
  imports Xxhash
begin

text \<open>
  Hashing in pieces is hashing in one call. The locale \<open>striped\<close> has what both widths share: a loop
  that absorbs whole stripes, and a buffer that keeps what is left; its lemmas say that feeding pieces
  is feeding their concatenation.
\<close>

section \<open>Stripes\<close>

locale striped =
  fixes width :: nat
    and stripe :: "'s \<Rightarrow> bytes \<Rightarrow> 's"
    and stripes :: "'s \<Rightarrow> bytes \<Rightarrow> 's \<times> bytes"
  assumes width_pos: "0 < width"
    and stripe_take: "width \<le> length p \<Longrightarrow> stripe s (take width p) = stripe s p"
    and stripes_step: "stripes s p =
      (if width \<le> length p then stripes (stripe s p) (drop width p) else (s, p))"
begin

lemma stripes_short: "length p < width \<Longrightarrow> stripes s p = (s, p)"
  by (subst stripes_step) simp

lemma stripes_long: "width \<le> length p \<Longrightarrow> stripes s p = stripes (stripe s p) (drop width p)"
  by (subst stripes_step) simp

lemma stripes_rest: "snd (stripes s p) = drop (length p - length p mod width) p"
proof (induction "length p" arbitrary: s p rule: less_induct)
  case less
  show ?case
  proof (cases "width \<le> length p")
    case True
    then have "snd (stripes (stripe s p) (drop width p)) =
        drop (length (drop width p) - length (drop width p) mod width) (drop width p)"
      using width_pos by (intro less) auto
    moreover have "(length p - width) mod width = length p mod width"
      using True by (metis le_mod_geq)
    moreover have "length p mod width \<le> length p - width"
      using calculation(2) by (metis mod_less_eq_dividend)
    ultimately show ?thesis
      using True by (simp add: stripes_long)
  next
    case False
    then show ?thesis by (simp add: stripes_short)
  qed
qed

lemma length_rest: "length (snd (stripes s p)) = length p mod width"
  by (simp add: stripes_rest)

lemma rest_short: "length (snd (stripes s p)) < width"
  using width_pos by (simp add: length_rest)

lemma stripes_stripes:
  "stripes s p = (s', r) \<Longrightarrow> stripes s' (r @ q) = stripes s (p @ q)"
proof (induction "length p" arbitrary: s p rule: less_induct)
  case less
  show ?case
  proof (cases "width \<le> length p")
    case True
    have "stripe s (p @ q) = stripe s p"
      using stripe_take [of p s] stripe_take [of "p @ q" s] True by simp
    moreover have "stripes s' (r @ q) = stripes (stripe s p) (drop width p @ q)"
      using less.prems True width_pos by (intro less.hyps) (auto simp: stripes_long)
    ultimately show ?thesis using True by (simp add: stripes_long)
  next
    case False
    then show ?thesis using less.prems by (simp add: stripes_short)
  qed
qed

text \<open>A buffer that is filled up to a stripe first.\<close>

lemma stripes_fill:
  assumes "length r \<le> width" "width \<le> length r + length q"
  shows "stripes s (r @ q) = stripes (stripe s (r @ take (width - length r) q)) (drop (width - length r) q)"
proof -
  have "r @ take (width - length r) q = take width (r @ q)" using assms(1) by simp
  then have "stripe s (r @ take (width - length r) q) = stripe s (r @ q)"
    using stripe_take [of "r @ q" s] assms by simp
  then show ?thesis using assms by (simp add: stripes_long)
qed

end

lemma le32_take: "4 \<le> n \<Longrightarrow> le32 (take n p) = le32 p"
  by (simp add: le32_def)

lemma le64_take: "8 \<le> n \<Longrightarrow> le64 (take n p) = le64 p"
  by (simp add: le64_def drop_take le32_take)

interpretation x32: striped 16 XXH32_stripe XXH32_stripes
proof
  fix p :: bytes and s
  show "XXH32_stripe s (take 16 p) = XXH32_stripe s p"
    by (cases s) (simp add: XXH32_stripe_def XXH_readLE32_def drop_take le32_take)
  show "XXH32_stripes s p = (if 16 \<le> length p then XXH32_stripes (XXH32_stripe s p) (drop 16 p) else (s, p))"
    by (rule XXH32_stripes.simps)
qed simp

interpretation x64: striped 32 XXH64_stripe XXH64_stripes
proof
  fix p :: bytes and s
  show "XXH64_stripe s (take 32 p) = XXH64_stripe s p"
    by (cases s) (simp add: XXH64_stripe_def XXH_readLE64_def drop_take le64_take)
  show "XXH64_stripes s p = (if 32 \<le> length p then XXH64_stripes (XXH64_stripe s p) (drop 32 p) else (s, p))"
    by (rule XXH64_stripes.simps)
qed simp

section \<open>The state holds the data\<close>

definition holds32 :: "u32 \<Rightarrow> bytes \<Rightarrow> XXH32_state \<Rightarrow> bool" where
  "holds32 seed d st \<longleftrightarrow> total_len_32 st = of_nat (length d) \<and> (large_len st \<longleftrightarrow> 16 \<le> length d) \<and>
     length (mem32 st) = 16 \<and> memsize32 st \<le> 16 \<and>
     XXH32_stripes (XXH32_init seed) d = (lanes32 st, take (memsize32 st) (mem32 st))"

lemma holds32_reset: "holds32 seed [] (XXH32_reset seed)"
  by (simp add: holds32_def XXH32_reset_def x32.stripes_short)

lemma holds32_rest:
  assumes "holds32 seed d st"
  shows "memsize32 st = length d mod 16"
  using assms x32.length_rest [of "XXH32_init seed" d] by (simp add: holds32_def)

lemma large_step:
  fixes n k :: nat
  shows "(16 \<le> n \<or> 16 \<le> k \<or> 16 \<le> (of_nat n + of_nat k :: u32)) \<longleftrightarrow> 16 \<le> n + k"
proof (cases "16 \<le> n \<or> 16 \<le> k")
  case False
  then have "unat (of_nat n + of_nat k :: u32) = n + k"
    by (simp add: unsigned_of_nat take_bit_nat_eq_self flip: of_nat_add)
  then show ?thesis using False by (auto simp: word_le_nat_alt)
qed auto

lemma take_put_prefix:
  "length a = n \<Longrightarrow> n + length b \<le> length m \<Longrightarrow> take n m = a \<Longrightarrow> take (n + length b) (put_at n b m) = a @ b"
  by (cases b) (auto simp: put_at_inside)

lemma holds32_update:
  assumes "holds32 seed d st"
  shows "holds32 seed (d @ input) (XXH32_update st input)"
proof -
  let ?k = "memsize32 st" and ?r = "take (memsize32 st) (mem32 st)"
  have st: "total_len_32 st = of_nat (length d)" "large_len st \<longleftrightarrow> 16 \<le> length d" "length (mem32 st) = 16"
    "XXH32_stripes (XXH32_init seed) d = (lanes32 st, ?r)" "?k < 16" "length ?r = ?k"
    using assms holds32_rest [OF assms] by (auto simp: holds32_def)
  have all: "XXH32_stripes (XXH32_init seed) (d @ input) = XXH32_stripes (lanes32 st) (?r @ input)"
    using x32.stripes_stripes [OF st(4)] by simp
  note large = large_step [of "length d" "length input"]
  consider "?k + length input < 16" | "16 \<le> ?k + length input" "?k = 0" | "16 \<le> ?k + length input" "0 < ?k" by linarith
  then show ?thesis
  proof cases
    case 1
    then show ?thesis
      using st all large take_put_prefix [of ?r ?k input "mem32 st"]
      by (auto simp: holds32_def XXH32_update_def Let_def x32.stripes_short)
  next
    case 2
    obtain v p where vp: "XXH32_stripes (lanes32 st) input = (v, p)" by fastforce
    then have "length p < 16" using x32.rest_short [of "lanes32 st" input] by simp
    then show ?thesis
      using st all large vp 2 take_put_prefix [of "[]" 0 p "mem32 st"]
      by (auto simp: holds32_def XXH32_update_def Let_def)
  next
    case 3
    let ?n = "16 - ?k" and ?mem = "put_at ?k (take (16 - ?k) input) (mem32 st)"
    have "take (?k + length (take ?n input)) ?mem = ?r @ take ?n input"
      using take_put_prefix [of ?r ?k "take ?n input" "mem32 st"] st 3 by simp
    moreover have "?k + length (take ?n input) = 16" using 3 st(5) by simp
    ultimately have mem: "?mem = ?r @ take ?n input" "length ?mem = 16" using st(3) by auto
    obtain v p where vp: "XXH32_stripes (XXH32_stripe (lanes32 st) ?mem) (drop ?n input) = (v, p)" by fastforce
    then have p: "length p < 16" using x32.rest_short [of "XXH32_stripe (lanes32 st) ?mem" "drop ?n input"] by simp
    have "XXH32_stripes (lanes32 st) (?r @ input) = (v, p)"
      using x32.stripes_fill [of ?r input "lanes32 st"] 3 st(5,6) vp mem(1) by simp
    then show ?thesis
      using st(1-3) all large vp 3 p mem(2) take_put_prefix [of "[]" 0 p ?mem]
      by (auto simp: holds32_def XXH32_update_def Let_def)
  qed
qed

section \<open>The tail\<close>

text \<open>A step that reads the first \<open>w\<close> bytes and drops them.\<close>

definition eats :: "nat \<Rightarrow> ('h \<times> bytes \<Rightarrow> 'h \<times> bytes) \<Rightarrow> bool" where
  "eats w f \<longleftrightarrow> (\<forall>h a. snd (f (h, a)) = drop w a) \<and>
     (\<forall>h a b. w \<le> length a \<longrightarrow> fst (f (h, a @ b)) = fst (f (h, a)))"

lemma eats_comp:
  assumes "eats w f" "eats v g"
  shows "eats (w + v) (g \<circ> f)"
proof -
  have f: "f (h, a) = (fst (f (h, a)), drop w a)" for h a
    using assms(1) by (simp add: eats_def prod_eq_iff)
  have gf: "g (f (h, a)) = g (fst (f (h, a)), drop w a)" for h a
    using f [of h a] by (rule arg_cong)
  have "fst (g (f (h, a @ b))) = fst (g (f (h, a)))" if "w + v \<le> length a" for h a b
    using assms that by (simp add: gf [of h "a @ b"] gf [of h a] eats_def)
  moreover have "snd (g (f (h, a))) = drop (w + v) a" for h a
    using assms(2) by (simp add: gf [of h a] eats_def add.commute)
  ultimately show ?thesis by (simp add: eats_def)
qed

lemma eats_funpow: "eats w f \<Longrightarrow> eats (k * w) (f ^^ k)"
proof (induction k)
  case 0
  then show ?case by (simp add: eats_def)
next
  case (Suc k)
  then have "eats (k * w + w) (f \<circ> f ^^ k)" by (intro eats_comp) simp_all
  then show ?case by (simp only: funpow.simps(2) mult_Suc add.commute)
qed

lemma eats_take: "eats w f \<Longrightarrow> w \<le> n \<Longrightarrow> n \<le> length p \<Longrightarrow> fst (f (h, take n p)) = fst (f (h, p))"
  using append_take_drop_id [of n p] unfolding eats_def by (metis length_take min.absorb2)

lemma le32_append: "4 \<le> length a \<Longrightarrow> le32 (a @ b) = le32 a"
  using le32_take [of 4 "a @ b"] le32_take [of 4 a] by simp

lemma eats_process:
  "eats 1 PROCESS1" "eats 4 PROCESS4" "eats 1 PROCESS1_64" "eats 4 PROCESS4_64" "eats 8 PROCESS8_64"
  by (simp_all add: eats_def PROCESS1_def PROCESS4_def PROCESS1_64_def PROCESS4_64_def PROCESS8_64_def
      Let_def XXH_readLE32_def XXH_readLE64_def le64_def le32_append nth_append)

lemma finalize32_take:
  assumes "n \<le> length p"
  shows "XXH32_finalize h (take n p) n = XXH32_finalize h p n"
proof -
  let ?m = "n mod 16"
  let ?f = "PROCESS1 ^^ (?m mod 4) \<circ> PROCESS4 ^^ (?m div 4)"
  have "eats (?m div 4 * 4 + ?m mod 4 * 1) ?f"
    by (intro eats_comp eats_funpow eats_process)
  then have "eats ?m ?f" by simp
  moreover have "?m \<le> n" by simp
  ultimately have "fst (?f (h, take n p)) = fst (?f (h, p))" using assms by (rule eats_take)
  then show ?thesis by (simp add: XXH32_finalize_def Let_def)
qed

lemma finalize64_take:
  assumes "n mod 32 \<le> m" "m \<le> length p"
  shows "XXH64_finalize h (take m p) n = XXH64_finalize h p n"
proof -
  let ?k = "n mod 32"
  let ?f = "PROCESS1_64 ^^ (?k mod 4) \<circ> (PROCESS4_64 ^^ (?k mod 8 div 4) \<circ> PROCESS8_64 ^^ (?k div 8))"
  have "eats ((?k div 8 * 8 + ?k mod 8 div 4 * 4) + ?k mod 4 * 1) ?f"
    by (intro eats_comp eats_funpow eats_process)
  moreover have "(?k div 8 * 8 + ?k mod 8 div 4 * 4) + ?k mod 4 * 1 = ?k"
  proof -
    have "?k mod 8 div 4 * 4 + ?k mod 8 mod 4 = ?k mod 8" by (rule div_mult_mod_eq)
    moreover have "?k mod 8 mod 4 = ?k mod 4" by (simp add: mod_mod_cancel)
    moreover have "?k div 8 * 8 + ?k mod 8 = ?k" by (rule div_mult_mod_eq)
    ultimately show ?thesis by linarith
  qed
  ultimately have "eats ?k ?f" by (simp only:)
  from eats_take [OF this assms] have "fst (?f (h, take m p)) = fst (?f (h, p))" .
  then show ?thesis by (simp add: XXH64_finalize_def Let_def)
qed

section \<open>Digests\<close>

lemma digest32:
  assumes "holds32 seed d st"
  shows "XXH32_digest st = XXH32 d seed"
proof -
  have st: "total_len_32 st = of_nat (length d)" "large_len st \<longleftrightarrow> 16 \<le> length d"
    "XXH32_stripes (XXH32_init seed) d = (lanes32 st, take (memsize32 st) (mem32 st))"
    "memsize32 st = length d mod 16" "memsize32 st \<le> length (mem32 st)"
    using assms holds32_rest [OF assms] by (simp_all add: holds32_def)
  have "fst (snd (snd (lanes32 st))) = seed" if "length d < 16"
    using st(3) x32.stripes_short [OF that, of "XXH32_init seed"] by (simp add: XXH32_init_def prod_eq_iff)
  then show ?thesis
    using st finalize32_take [OF st(5)]
    by (auto simp: XXH32_digest_def XXH32_def Let_def not_le)
qed

definition holds64 :: "u64 \<Rightarrow> bytes \<Rightarrow> XXH64_state \<Rightarrow> bool" where
  "holds64 seed d st \<longleftrightarrow> total_len st = of_nat (length d) \<and> length (mem64 st) = 32 \<and> memsize64 st \<le> 32 \<and>
     XXH64_stripes (XXH64_init seed) d = (lanes64 st, take (memsize64 st) (mem64 st))"

lemma holds64_reset: "holds64 seed [] (XXH64_reset seed)"
  by (simp add: holds64_def XXH64_reset_def x64.stripes_short)

lemma holds64_rest:
  assumes "holds64 seed d st"
  shows "memsize64 st = length d mod 32"
  using assms x64.length_rest [of "XXH64_init seed" d] by (simp add: holds64_def)

lemma holds64_update:
  assumes "holds64 seed d st"
  shows "holds64 seed (d @ input) (XXH64_update st input)"
proof -
  let ?k = "memsize64 st" and ?r = "take (memsize64 st) (mem64 st)"
  have st: "total_len st = of_nat (length d)" "length (mem64 st) = 32"
    "XXH64_stripes (XXH64_init seed) d = (lanes64 st, ?r)" "?k < 32" "length ?r = ?k"
    using assms holds64_rest [OF assms] by (auto simp: holds64_def)
  have all: "XXH64_stripes (XXH64_init seed) (d @ input) = XXH64_stripes (lanes64 st) (?r @ input)"
    using x64.stripes_stripes [OF st(3)] by simp
  consider "?k + length input < 32" | "32 \<le> ?k + length input" "?k = 0" | "32 \<le> ?k + length input" "0 < ?k" by linarith
  then show ?thesis
  proof cases
    case 1
    then show ?thesis
      using st all take_put_prefix [of ?r ?k input "mem64 st"]
      by (auto simp: holds64_def XXH64_update_def Let_def x64.stripes_short)
  next
    case 2
    obtain v p where vp: "XXH64_stripes (lanes64 st) input = (v, p)" by fastforce
    then have "length p < 32" using x64.rest_short [of "lanes64 st" input] by simp
    then show ?thesis
      using st all vp 2 take_put_prefix [of "[]" 0 p "mem64 st"]
      by (auto simp: holds64_def XXH64_update_def Let_def)
  next
    case 3
    let ?n = "32 - ?k" and ?mem = "put_at ?k (take (32 - ?k) input) (mem64 st)"
    have "take (?k + length (take ?n input)) ?mem = ?r @ take ?n input"
      using take_put_prefix [of ?r ?k "take ?n input" "mem64 st"] st 3 by simp
    moreover have "?k + length (take ?n input) = 32" using 3 st(4) by simp
    ultimately have mem: "?mem = ?r @ take ?n input" "length ?mem = 32" using st(2) by auto
    obtain v p where vp: "XXH64_stripes (XXH64_stripe (lanes64 st) ?mem) (drop ?n input) = (v, p)" by fastforce
    then have p: "length p < 32" using x64.rest_short [of "XXH64_stripe (lanes64 st) ?mem" "drop ?n input"] by simp
    have "XXH64_stripes (lanes64 st) (?r @ input) = (v, p)"
      using x64.stripes_fill [of ?r input "lanes64 st"] 3 st(4,5) vp mem(1) by simp
    then show ?thesis
      using st(1,2) all vp 3 p mem(2) take_put_prefix [of "[]" 0 p ?mem]
      by (auto simp: holds64_def XXH64_update_def Let_def)
  qed
qed

lemma digest64:
  assumes "holds64 seed d st" "length d < 2 ^ 64"
  shows "XXH64_digest st = XXH64 d seed"
proof -
  have st: "total_len st = of_nat (length d)"
    "XXH64_stripes (XXH64_init seed) d = (lanes64 st, take (memsize64 st) (mem64 st))"
    "memsize64 st = length d mod 32" "memsize64 st \<le> length (mem64 st)"
    using assms(1) holds64_rest [OF assms(1)] by (simp_all add: holds64_def)
  have len: "unat (total_len st) = length d"
    using assms(2) st(1) by (simp add: unsigned_of_nat take_bit_nat_eq_self)
  then have large: "32 \<le> total_len st \<longleftrightarrow> 32 \<le> length d" by (simp add: word_le_nat_alt)
  have "fst (snd (snd (lanes64 st))) = seed" if "length d < 32"
    using st(2) x64.stripes_short [OF that, of "XXH64_init seed"] by (simp add: XXH64_init_def prod_eq_iff)
  then show ?thesis
    using st large len finalize64_take [of "length d" "memsize64 st" "mem64 st"]
    by (auto simp: XXH64_digest_def XXH64_def Let_def not_le)
qed

section \<open>Pieces\<close>

text \<open>The interface of a streaming hash: what it holds after a reset and after updates.\<close>

locale streaming_hash =
  fixes reset :: "'st" and update :: "'st \<Rightarrow> bytes \<Rightarrow> 'st" and holds :: "bytes \<Rightarrow> 'st \<Rightarrow> bool"
  assumes holds_reset: "holds [] reset"
    and holds_update: "holds d st \<Longrightarrow> holds (d @ input) (update st input)"
begin

lemma holds_pieces: "holds d st \<Longrightarrow> holds (d @ concat inputs) (fold (\<lambda>i st. update st i) inputs st)"
proof (induction inputs arbitrary: d st)
  case (Cons i r)
  from Cons.IH [OF holds_update [OF Cons.prems]] show ?case by simp
qed simp

lemma holds_all: "holds (concat inputs) (fold (\<lambda>i st. update st i) inputs reset)"
  using holds_pieces [OF holds_reset] by simp

end

interpretation h32: streaming_hash "XXH32_reset seed" XXH32_update "holds32 seed" for seed
  by unfold_locales (rule holds32_reset, rule holds32_update)

interpretation h64: streaming_hash "XXH64_reset seed" XXH64_update "holds64 seed" for seed
  by unfold_locales (rule holds64_reset, rule holds64_update)

section \<open>Canonical form\<close>

lemma byte_masks:
  "(0xff000000 :: u32) = push_bit 24 (mask 8)" "(0x00ff0000 :: u32) = push_bit 16 (mask 8)"
  "(0x0000ff00 :: u32) = push_bit 8 (mask 8)" "(0x000000ff :: u32) = mask 8"
  by (simp_all add: mask_eq_exp_minus_1 push_bit_eq_mult)

lemma swap32_swap32: "XXH_swap32 (XXH_swap32 x) = x"
proof (rule bit_word_eqI)
  fix n
  assume "n < LENGTH(32)"
  then consider "n < 8" | "8 \<le> n" "n < 16" | "16 \<le> n" "n < 24" | "24 \<le> n" "n < 32"
    by fastforce
  then show "bit (XXH_swap32 (XXH_swap32 x)) n \<longleftrightarrow> bit x n"
    by cases (auto simp: XXH_swap32_def byte_masks bit_simps dest: bit_imp_le_length)
qed

end
