(* ===== verification/ClaimsFrame.thy ===== *)
theory ClaimsFrame
  imports SampleLib Lz4FrameRoundtrip XxhashCorrect
begin

text \<open>
  What the frame functions and the hash under \<open>external/lz4\<close> promise: no input makes the decoder leave
  its buffers, its contexts stay well formed, every loop over it ends, frames give their input back, and
  hashing in pieces is hashing in one call.
\<close>

section \<open>The decoder\<close>

text \<open>
  C7: no sequence of calls, failed ones among them, makes the frame decoder access memory outside its
  buffers, go through a null pointer or copy between overlapping regions, as long as the client resets a
  context whose call reported an error before it uses it again, which \<open>lz4frame.h\<close> demands: on every
  context that earlier calls led to (\<open>reachable\<close>), a call returns for every input, every destination and every answer of the allocator. It takes no more than
  its input, gives no more than its destination holds, its hint is never mistaken for an error, and a
  hint of 0 means that the context waits for the next frame.
\<close>

theorem frame_decoder_memory_safe:
  assumes "reachable D" "args_alloc A" "fr_null A \<Longrightarrow> dst = []"
  shows "\<exists>r. Lz4FrameDecode.LZ4F_decompress A D dst = Inr r \<and> length (res_dst r) = length dst \<and>
    res_src_size r \<le> length (fr_src A) \<and> res_dst_size r \<le> length dst \<and>
    (\<forall>h. res_code r = Inr h \<longrightarrow> h < 2 ^ 32 \<and> (h = 0 \<longrightarrow> dStage (res_dctx r) = dstage_getFrameHeader))"
  using LZ4F_decompress_safe [OF assms(2) reachable_dctx_ok [OF assms(1)] assms(3)]
  by (auto simp: returnsR_def)

theorem frame_decoder_memory_safe_witness:
  "\<exists>r. Lz4FrameDecode.LZ4F_decompress
      \<lparr>fr_src = [4, 0x22, 0x4D, 0x18, 0xFF], fr_null = False, fr_fast = True, fr_alloc = (\<lambda>n. Some (replicate n 7))\<rparr>
      (Lz4Frame.LZ4F_createDecompressionContext 100) [1, 2, 3] = Inr r \<and> res_dst_size r \<le> 3"
proof -
  let ?A = "\<lparr>fr_src = [4, 0x22, 0x4D, 0x18, 0xFF], fr_null = False, fr_fast = True,
    fr_alloc = (\<lambda>n. Some (replicate n 7))\<rparr>"
  have "args_alloc ?A" by (simp add: args_alloc_def)
  moreover have "fr_null ?A \<Longrightarrow> [1, 2, 3 :: byte] = []" by simp
  ultimately obtain r where "Lz4FrameDecode.LZ4F_decompress ?A (Lz4Frame.LZ4F_createDecompressionContext 100) [1, 2, 3] = Inr r"
    "res_dst_size r \<le> length [1, 2, 3 :: byte]"
    using frame_decoder_memory_safe [OF reachable.created, of ?A "[1, 2, 3]" 100] by blast
  moreover have "length [1, 2, 3 :: byte] = 3" by simp
  ultimately show ?thesis by metis
qed

text \<open>
  C16: the contexts of the decoder are well formed at every stage, whatever calls led to them, if those
  that reported an error were followed by a reset (as in \<open>reachable\<close>): the buffers have the sizes the
  fields say, counters of collected bytes stay below what is collected for, the frame header and the
  block checksum fit \<open>header\<close>, linked blocks find their history in \<open>tmpOutBuffer\<close> or nowhere, and what
  waits to be flushed lies inside it.
\<close>

theorem frame_context_well_formed:
  assumes "reachable D"
  shows "dctx_ok D 0"
  using assms by (rule reachable_dctx_ok)

theorem frame_context_well_formed_witness:
  "\<exists>r e. Lz4FrameDecode.LZ4F_decompress
      \<lparr>fr_src = replicate 19 0, fr_null = False, fr_fast = True, fr_alloc = (\<lambda>n. Some (replicate n 7))\<rparr>
      (Lz4Frame.LZ4F_createDecompressionContext 100) [1, 2, 3] = Inr r \<and> res_code r = Inl e \<and>
     dctx_ok (LZ4F_resetDecompressionContext (res_dctx r)) 0"
proof -
  let ?A = "\<lparr>fr_src = replicate 19 0, fr_null = False, fr_fast = True, fr_alloc = (\<lambda>n. Some (replicate n 7))\<rparr>"
  let ?D = "Lz4Frame.LZ4F_createDecompressionContext 100"
  have A: "args_alloc ?A" "fr_null ?A \<Longrightarrow> [1, 2, 3 :: byte] = []" by (simp_all add: args_alloc_def)
  have "LZ4F_readLE32 (view 0 4 (replicate 19 0)) = 0" by (simp add: LZ4F_readLE32_def view_def numeral_eq_Suc)
  then have "\<exists>r e. Lz4FrameDecode.LZ4F_decompress ?A ?D [1, 2, 3] = Inr r \<and> res_code r = Inl e"
    by (simp add: Lz4FrameDecode.LZ4F_decompress_def frame_loop.simps frame_step_def get_frame_header_def
        Lz4Frame.LZ4F_createDecompressionContext_def src_left_def LZ4F_decodeHeader_def
        LZ4F_MAGIC_SKIPPABLE_START_def LZ4F_MAGICNUMBER_def Let_def)
  then obtain r e where r: "Lz4FrameDecode.LZ4F_decompress ?A ?D [1, 2, 3] = Inr r" "res_code r = Inl e"
    by blast
  from frame_context_well_formed [OF reachable.failed [OF reachable.created A r]] r show ?thesis by blast
qed

section \<open>The loop of \<open>boot_crypto.cpp\<close>\<close>

text \<open>
  C17: with the frame decoder of the library \<open>lz4f_decompress\<close> returns on every input and every file,
  normally or with an exception: every call of the decoder that does not end the frame takes input,
  moves on in the frame, or flushes decoded bytes.
\<close>

theorem lz4f_decompress_returns:
  assumes "allocates alloc"
  shows "\<exists>x g. lz4f_decompress (with_lz4f fl alloc L) inp f = (x, g) \<and> (x = Inr () \<or> (\<exists>m. x = Inl (Throw m)))"
  using assms by (rule real_decoder_returns)

theorem lz4f_decompress_returns_witness:
  "\<exists>x g. lz4f_decompress (with_lz4f True (\<lambda>n. Some (replicate n 7)) (undefined :: (unit, frame_state) libs))
      [4, 0x22, 0x4D, 0x18, 0x60] empty_fd = (x, g) \<and> (x = Inr () \<or> (\<exists>m. x = Inl (Throw m)))"
  by (rule lz4f_decompress_returns) (simp add: allocates_def)

text \<open>
  C30: an LZ4 frame that ends early is accepted: when the input is used up the loop ends without
  looking at whether the decoder still asks for more, and the call reports success.
\<close>

theorem truncated_lz4_frame_accepted:
  assumes "libs.LZ4F_createDecompressionContext L = Some d" "src \<noteq> []"
    "libs.LZ4F_decompress L d src OUT_BUF = (Some hint, d', length src, out)" "0 < hint" "plain f"
  shows "decompress_bytes L LZ4 src f = (Inr (), CryptoCorrect.extend f out)"
  using assms lz4f_loop_truncated [OF assms(2,3,5)]
  by (simp add: decompress_bytes_def lz4f_decompress_def returns_or_diverges_def)

theorem truncated_lz4_frame_accepted_witness:
  "decompress_bytes (with_lz4f True (\<lambda>n. Some (replicate n 7)) (undefined :: (unit, frame_state) libs))
    LZ4 [4, 0x22, 0x4D, 0x18] empty_fd = (Inr (), CryptoCorrect.extend empty_fd [])"
proof (rule truncated_lz4_frame_accepted)
  let ?L = "with_lz4f True (\<lambda>n. Some (replicate n 7)) (undefined :: (unit, frame_state) libs)"
  let ?D = "Lz4Frame.LZ4F_createDecompressionContext LZ4F_VERSION"
  let ?D' = "?D\<lparr>tmpInTarget := 7, dStage := dstage_storeFrameHeader, tmpInSize := 4,
    header := [4, 0x22, 0x4D, 0x18] @ replicate 15 0\<rparr>"
  show "libs.LZ4F_createDecompressionContext ?L = Some (?D, replicate OUT_BUF 0)" by (simp add: with_lz4f_def)
  show "libs.LZ4F_decompress ?L (?D, replicate OUT_BUF 0) [4, 0x22, 0x4D, 0x18] OUT_BUF =
      (Some 7, (?D', replicate OUT_BUF 0), length [4, 0x22, 0x4D, 0x18 :: byte], [])"
  proof -
    have copy: "LZ4_memcpy (Some [4, 0x22, 0x4D, 0x18]) 0 0 (Suc (Suc (Suc (Suc 0)))) (replicate 19 0) =
        Inr ([4, 0x22, 0x4D, 0x18] @ replicate 15 0)"
      by (simp add: LZ4_memcpy_def poke_ok put_at_def view_def)
    show ?thesis
    by (simp add: copy with_lz4f_def frame_call_def Lz4FrameDecode.LZ4F_decompress_def frame_loop.simps frame_step_def
        Lz4Frame.LZ4F_createDecompressionContext_def get_frame_header_def store_frame_header_def src_left_def
        set_dctx_def Let_def preserve_history_def needs_history_def)
  qed
qed simp_all

section \<open>The compressor\<close>

text \<open>
  C9: the frame compressor meets the frame format: for every input below 128 TB and every destination
  as large as \<open>LZ4F_compressFrameBound\<close> says, \<open>LZ4F_compressFrame\<close> succeeds inside the destination, takes
  no more than the bound, and what it leaves there is a frame that stands for the input: a header, blocks
  each of which is raw or shorter than its 64 KB and refers to the output before it, and the end mark.
\<close>

theorem lz4_frame_compressor_meets_format:
  assumes "length src < 2 ^ 47" "length dst < 2 ^ 64"
    "unat (LZ4F_compressFrameBound (of_nat (length src)) None) \<le> length dst"
  shows "\<exists>dst' n. Lz4FrameCompress.LZ4F_compressFrame dst src None = Inr (dst', Inr n) \<and> length dst' = length dst \<and>
    n \<le> unat (LZ4F_compressFrameBound (of_nat (length src)) None) \<and> frame_of src (take n dst')"
  using assms by (rule compressFrame_ok)

theorem lz4_frame_compressor_meets_format_witness:
  "\<exists>dst' n. Lz4FrameCompress.LZ4F_compressFrame (replicate 60 7) [1, 2, 3] None = Inr (dst', Inr n) \<and> n \<le> 30 \<and>
    frame_of [1, 2, 3] (take n dst')"
proof -
  have bound: "unat (LZ4F_compressFrameBound (of_nat (length [1, 2, 3 :: byte])) None) = 30"
    by (subst compressFrameBound_value(1)) (simp_all add: frame_blocks_def)
  show ?thesis
    using lz4_frame_compressor_meets_format [of "[1, 2, 3]" "replicate 60 7", unfolded bound] by auto
qed

section \<open>Both together\<close>

text \<open>
  C3: what \<open>compress_bytes\<close> writes as an LZ4 frame \<open>decompress_bytes\<close> turns back into its input, with
  the models of \<open>LZ4F_compressFrame\<close> and \<open>LZ4F_decompress\<close> on both sides and no assumption about
  either: for every input below 128 TB, as one block or as any number of blocks that refer to the
  64 KB before them, if memory can be had and no write fails. Both append to what was written before.
\<close>

theorem lz4_frame_roundtrip:
  assumes "length src < 2 ^ 47" "plain f" "\<And>n. \<exists>b. alloc n = Some b \<and> length b = n"
  shows "\<exists>F. compress_bytes (with_lz4f fl alloc L) LZ4 src f = (Inr (), CryptoCorrect.extend f F) \<and>
    (\<forall>g. plain g \<longrightarrow> decompress_bytes (with_lz4f fl alloc L) LZ4 F g = (Inr (), CryptoCorrect.extend g src))"
  using assms by (rule frame_roundtrip)

theorem lz4_frame_roundtrip_witness:
  "\<exists>F. compress_bytes (with_lz4f True (\<lambda>n. Some (replicate n 7)) (undefined :: (unit, frame_state) libs)) LZ4
      (replicate 200000 5) empty_fd = (Inr (), CryptoCorrect.extend empty_fd F) \<and>
    decompress_bytes (with_lz4f True (\<lambda>n. Some (replicate n 7)) (undefined :: (unit, frame_state) libs)) LZ4 F empty_fd =
      (Inr (), CryptoCorrect.extend empty_fd (replicate 200000 5))"
proof -
  have "length (replicate 200000 (5 :: byte)) < 2 ^ 47" "plain empty_fd" by simp_all
  moreover have "\<exists>b :: bytes. Some (replicate n 7) = Some b \<and> length b = n" for n by simp
  ultimately show ?thesis using lz4_frame_roundtrip [of "replicate 200000 5" empty_fd "\<lambda>n. Some (replicate n 7)"] by blast
qed

section \<open>Hashes\<close>

text \<open>
  C18: a hash fed in pieces is the hash of all bytes in one call, for both widths and every way of
  cutting the input; the streaming functions keep whole stripes in their lanes and the rest in a
  buffer, the others never copy.
\<close>

theorem xxh_pieces_equal_one_call:
  assumes "length (concat inputs) < 2 ^ 64"
  shows "XXH32_digest (fold (\<lambda>i st. XXH32_update st i) inputs (XXH32_reset seed)) = XXH32 (concat inputs) seed \<and>
    XXH64_digest (fold (\<lambda>i st. XXH64_update st i) inputs (XXH64_reset seed')) = XXH64 (concat inputs) seed'"
  using digest32 [OF h32.holds_all] digest64 [OF h64.holds_all assms] by blast

theorem xxh_pieces_equal_one_call_witness:
  "XXH32_digest (XXH32_update (XXH32_update (XXH32_reset 0) [1, 2]) [3]) = XXH32 [1, 2, 3] 0"
  using xxh_pieces_equal_one_call [of "[[1, 2], [3]]" 0 0] by simp

end
