(* ===== verification/Spec2Isabelle.thy ===== *)
theory Spec2Isabelle
  imports ClaimsCpio ClaimsFormats ClaimsCrypto ClaimsHeader ClaimsBoot ClaimsUnpack ClaimsRepack ClaimsLz4 ClaimsFrame
begin

text \<open>
  A verification development for magiskboot, the tool that takes Android boot images apart and puts
  them together again (\<open>src/src\<close>), and for the LZ4 library it is built with (\<open>src/external/lz4\<close>).

  \<^bold>\<open>The program.\<close> \<open>magiskboot_main\<close> reads the command line and calls one of four functions: \<open>unpack\<close>
  maps an image, parses it (\<open>boot_img\<close>) and writes its blocks into files; \<open>repack\<close> parses the original
  again, writes header and blocks of a new image and patches sizes, checksums and vendor wrappers;
  \<open>split_image_dtb\<close> cuts a kernel file at its device tree; \<open>cpio_commands\<close> edits a ramdisk archive.
  Blocks are compressed and decompressed by \<open>boot_crypto.cpp\<close>, which classifies them with \<open>check_fmt\<close>.

  \<^bold>\<open>Conventions\<close> (\<open>Prelude\<close>, \<open>CLib\<close>). A computation yields \<open>Inr\<close> a value or \<open>Inl\<close> the way it ended
  otherwise: an exception, \<open>exit\<close>, \<open>abort\<close>, a memory access outside its buffer, an uninitialised
  variable, a division by zero, a loop that never ends. So a theorem that a function yields \<open>Inr\<close>
  says that it returns and is memory safe. Machine integers are words or carry their wrap-around;
  pointers are offsets into the mapping; \<open>rd\<close> and \<open>put_at\<close> are loads and stores. \<open>CLib\<close> holds the C
  library functions whose results matter (\<open>strtoul\<close>, \<open>snprintf\<close> and the like).

  \<^bold>\<open>Host\<close> (\<open>HostIO\<close>, \<open>World\<close>, \<open>HostUtils\<close>: \<open>base_host.hpp\<close>, \<open>base_host.cpp\<close>). A descriptor has its
  data, its position and a script of answers to \<open>write\<close>, so that short and failed writes are covered;
  a world has files, directories, refused calls and the scripts of files to be opened. The locale \<open>append_sink\<close>
  states what writing promises, \<open>healthy_sink\<close> what it promises when no write fails.

  \<^bold>\<open>cpio\<close> (\<open>OrderedMap\<close>, \<open>CpioPath\<close>, \<open>CpioFormat\<close>, \<open>CpioArchive\<close>, \<open>CpioCommands\<close>: \<open>cpio.cpp\<close>). \<open>std::map\<close>
  is a sorted list behind the locale \<open>ordered_map\<close>. \<open>load\<close>, \<open>dump\<close> and the editing operations follow
  the class \<open>CpioArchive\<close>; \<open>CpioCorrect\<close> shows that loading is safe and inverse to dumping,
  \<open>CpioCommands\<close> that commands refine updates of a plain map.

  \<^bold>\<open>Formats\<close> (\<open>Formats\<close>, \<open>Dtb\<close>: \<open>boot_crypto.hpp\<close>, \<open>bootimg.cpp\<close>). \<open>check_fmt\<close>, \<open>guess_lzma\<close>, the scan
  over LZ4 blocks in \<open>check_fmt_lg\<close> with its 32-bit offset, and \<open>find_dtb_offset\<close>.

  \<^bold>\<open>Compression and hashing\<close> (\<open>Crypto\<close>, \<open>CryptoCorrect\<close>, \<open>SampleLib\<close>: \<open>boot_crypto.cpp\<close>). zlib, OpenSSL
  and LZ4 are the record \<open>libs\<close>, an argument of every definition that calls them; \<open>Lz4Codec\<close> and
  \<open>Lz4FrameClient\<close> put the models of LZ4 into it. The loops around streaming libraries may not end, so they are partial functions and not
  returning is the error \<open>Diverges\<close>.

  \<^bold>\<open>LZ4 blocks\<close> (\<open>external/lz4/lz4.c\<close>). \<open>Lz4Mem\<close> has the memory primitives, with a check that \<open>memcpy\<close>
  never copies between overlapping regions; \<open>Lz4Decode\<close> the decoder, \<open>Lz4Safe\<close> its memory safety on
  every input; \<open>Lz4Format\<close> the block format as a specification (sequences, their meaning and their
  encoding), \<open>Lz4Correct\<close> and \<open>Lz4Fast\<close> the proof that the decoder implements it, without and with the
  fast loop of \<open>LZ4_FAST_DEC_LOOP\<close>, which is an argument \<open>fl\<close>; \<open>Lz4History\<close> extends it to blocks that refer to earlier output, in front of
  the destination or in a dictionary. \<open>Lz4Compress\<close> has the compressor, \<open>Lz4Stream\<close> the streams that
  compress one block after the other; \<open>Lz4Count\<close>, \<open>Lz4Search\<close>, \<open>Lz4Emit\<close> and \<open>Lz4CompressCorrect\<close> show that its matches are
  matches, its output valid blocks of its input, and that it fits \<open>LZ4_COMPRESSBOUND\<close>. \<open>Lz4Codec\<close> is
  the interface to \<open>boot_crypto.cpp\<close>: the locale \<open>block_codec\<close>, interpreted on these definitions, gives
  what \<open>CryptoCorrect\<close> asks of the record \<open>libs\<close>.

  \<^bold>\<open>LZ4 frames\<close> (\<open>external/lz4/lz4frame.c\<close>, \<open>external/lz4/xxhash.c\<close>). \<open>Xxhash\<close> has both hashes in one call
  and in pieces, \<open>XxhashCorrect\<close> shows that they agree (locales \<open>striped\<close>, \<open>streaming_hash\<close>). \<open>Lz4Frame\<close> has
  frame headers and the context of the decoder, \<open>Lz4FrameDecode\<close> the state machine of \<open>LZ4F_decompress\<close>,
  one definition per stage, with its termination. \<open>Lz4FrameSafe\<close> and \<open>Lz4FrameInv\<close> state the invariant of
  the context (\<open>dctx_ok\<close>) and show that every stage keeps it without an access outside its buffers, for
  the contexts that calls lead to (\<open>reachable\<close>: any calls, each one that fails being followed by the reset
  that \<open>lz4frame.h\<close> demands before the context is used again). \<open>Lz4FrameProgress\<close> shows that a call that does not end the frame makes
  progress. \<open>Lz4FrameCompress\<close> has the frame compressor, \<open>Lz4FrameFormat\<close> the frame format as a
  specification (\<open>coded\<close> blocks, \<open>linked_blocks\<close>, \<open>frame_of\<close>), and \<open>Lz4FrameEncode\<close> shows that
  \<open>LZ4F_compressFrame\<close> fits its bound and makes a frame of its input.
  \<open>Lz4FrameClient\<close> is the interface to \<open>boot_crypto.cpp\<close>: the locale \<open>frame_decoder\<close> proves that
  its loop ends, and is interpreted on the model. \<open>Lz4FrameRoundtrip\<close> follows the decoder through a frame
  block by block and shows that \<open>lz4f_decompress\<close> turns every frame into what it stands for, so that it
  inverts \<open>lz4f_compress\<close>.

  \<^bold>\<open>Headers\<close> (\<open>ImgHeader\<close>, \<open>HdrFile\<close>, \<open>HdrFileCorrect\<close>: \<open>bootimg.hpp\<close>, \<open>bootimg.cpp\<close>). The class hierarchy
  \<open>dyn_img_hdr\<close> is a raw copy with a version; the locale \<open>patchable_header\<close> states how its accessors
  behave. \<open>dump_hdr_file\<close> and \<open>load_hdr_file\<close> are the text form a user edits.

  \<^bold>\<open>Images\<close> (\<open>BootParse\<close>, \<open>BootCorrect\<close>, \<open>BootSample\<close>; \<open>Unpack\<close>, \<open>UnpackCorrect\<close>; \<open>Repack\<close>, \<open>RepackCorrect\<close>,
  \<open>RepackImage\<close>, \<open>RepackRoundtrip\<close>: \<open>bootimg.cpp\<close>). \<open>boot_img\<close> phase by phase (magics, header variants,
  blocks, kernel, zImage, ramdisk, tail), what the parser guarantees of an accepted image (locale
  \<open>phase_invariant\<close>; \<open>layout_ok\<close>: where its nine blocks, payload and tail lie), what \<open>unpack\<close> writes, and
  \<open>repack\<close> phase by phase (\<open>RepackCorrect\<close>: one block and all blocks; \<open>RepackImage\<close>: raw header, tail and
  patches) up to the theorem that the constructor, opened on the new image, finds its header and its
  blocks (\<open>RepackRoundtrip\<close>). That theorem is about images of version 3 or 4 and vendor images without
  wrappers, signatures, vendor ramdisk tables and compression; the others are modelled, but for them there
  is no such theorem.

  \<^bold>\<open>Command line\<close> (\<open>MainEntry\<close>: \<open>magiskboot_main.cpp\<close>). Options, exit statuses, and the handler that turns
  exceptions into status 1.

  \<^bold>\<open>Properties.\<close> The theories \<open>Claims*\<close> hold one theorem per property with a concrete application of
  it: round trips (cpio, header file, image, LZ4), refinement (commands against a map, decoder
  against the block format), invariants of headers and images, memory safety and bounds, termination
  and the inputs on which the code does not end, and what happens on errors.

  \<^bold>\<open>Bounds and fuel.\<close> \<open>compress_loop\<close> spends a unit of fuel on every search and every match; a search
  moves on by one byte at least and a match by four, so twice the input and three units are enough,
  which \<open>compress_loop_ok\<close> proves. \<open>find_match\<close> moves by a step that is never 0, so the size of the input
  is enough. \<open>full_blocks\<close> spends a unit on every block, and a block is not empty, so one unit more than
  the size of the input is enough (\<open>full_blocks_ok\<close>). All other recursions are proved to terminate.

  \<^bold>\<open>Not modelled.\<close> Messages on \<open>stderr\<close> and the build files have no effect on the results. Of the vendored
  LZ4 library: \<open>LZ4_decompress_fast\<close>, external dictionaries and \<open>fillOutput\<close> in the compressor, input that the
  frame compressor buffers (\<open>LZ4F_compressFrame\<close> buffers none), and high compression (\<open>lz4hc.c\<close>, which
  the program never asks for). zlib and OpenSSL are not part of the repository. The size of a memory page,
  for which the program asks the system (\<open>getpagesize\<close>), is 4096: systems with larger pages are not covered.
\<close>

end
